(* ===== verification/Prelude.thy ===== *)
theory Prelude
  imports Main "HOL-Library.Word" "HOL-Library.Monad_Syntax" "HOL-Library.Multiset"
begin

text \<open>
  What the components share: the machine-integer types of the C code, the
  collections of rewrite rules the component proofs are carried by, and generic
  lemmas on lists and words.
\<close>

unbundle bit_operations_syntax

section \<open>Machine integers\<close>

text \<open>
  \<open>unsigned char\<close>, \<open>unsigned int\<close> (and \<open>int\<close>, read with \<^const>\<open>sint\<close>) and the
  64-bit \<open>size_t\<close> of the C sources.
\<close>

type_synonym u8 = "8 word"
type_synonym u16 = "16 word"
type_synonym u32 = "32 word"
type_synonym u64 = "64 word"

lemma sint_eq_0: "sint (w :: 'a :: len word) = 0 \<longleftrightarrow> w = 0"
  by (metis sint_0 signed_word_eqI)

lemma unat_Suc: "w \<noteq> - 1 \<Longrightarrow> unat (w + 1 :: u32) = Suc (unat w)"
  by (metis add.commute add_eq_0_iff unatSuc)

lemma unat_Suc_less: "Suc (unat (w :: u32)) < 2 ^ 32 \<Longrightarrow> unat (w + 1) = Suc (unat w)"
  by (rule unat_Suc) (auto simp: unsigned_minus_1_eq_mask mask_eq_exp_minus_1)

lemma unat_inc: "i < (n :: u32) \<Longrightarrow> unat (i + 1) = Suc (unat i)"
  by (rule unat_Suc) auto

lemma sint_of_int_small: "- (2 ^ 31) \<le> n \<Longrightarrow> n < 2 ^ 31 \<Longrightarrow> sint (word_of_int n :: u32) = n"
  by (simp add: signed_of_int signed_take_bit_int_eq_self)

text \<open>
  An \<open>int\<close> that counts upwards is a natural number of at most \<open>INT_MAX\<close>; a signed overflow is
  undefined, so that a computation that goes past it has no result.
\<close>

definition INT_MAX :: nat where
  "INT_MAX = 2147483647"

definition c_int :: "nat \<Rightarrow> nat option" where
  "c_int n = (if n \<le> INT_MAX then Some n else None)"

definition in_int :: "int \<Rightarrow> bool" where
  "in_int n \<longleftrightarrow> - int INT_MAX - 1 \<le> n \<and> n \<le> int INT_MAX"

lemma c_int_Some [simp]: "n \<le> INT_MAX \<Longrightarrow> c_int n = Some n"
  by (simp add: c_int_def)

lemma sint_of_nat_int: "n \<le> INT_MAX \<Longrightarrow> sint (of_nat n :: u32) = int n"
  using sint_of_int_small [of "int n"] by (simp add: INT_MAX_def)

section \<open>Rewrite collections\<close>

text \<open>
  \<open>eina_shape\<close> holds the facts that an operation keeps the contents of a container,
  \<open>eina_inv\<close> the facts that it keeps the container's invariant.
\<close>

named_theorems eina_shape
named_theorems eina_inv

section \<open>Lists\<close>

text \<open>Where a list is cut by a predicate that holds exactly on its first part.\<close>

definition cut_at :: "('a \<Rightarrow> bool) \<Rightarrow> 'a list \<Rightarrow> 'a list \<Rightarrow> bool" where
  "cut_at p as bs \<longleftrightarrow> (\<forall>a \<in> set as. p a) \<and> (\<forall>b \<in> set bs. \<not> p b)"

lemma cut_at_simps [simp]:
  "cut_at p [] [] "
  "cut_at p (a # as) bs \<longleftrightarrow> p a \<and> cut_at p as bs"
  "cut_at p as (b # bs) \<longleftrightarrow> \<not> p b \<and> cut_at p as bs"
  by (auto simp: cut_at_def)

lemma cut_at_append:
  "cut_at p (as @ as') bs \<longleftrightarrow> cut_at p as bs \<and> cut_at p as' bs"
  "cut_at p as (bs @ bs') \<longleftrightarrow> cut_at p as bs \<and> cut_at p as bs'"
  by (auto simp: cut_at_def)

lemma cut_at_mono_left: "cut_at p as bs \<Longrightarrow> set as' \<subseteq> set as \<Longrightarrow> set bs' \<subseteq> set bs \<Longrightarrow> cut_at p as' bs'"
  by (auto simp: cut_at_def)

text \<open>
  An element that separates a cut list from the rest lies on the side the predicate
  says: the list before it is the whole first part, or the list behind it is the whole
  second part.
\<close>

lemma cut_at_split_left:
  assumes "l @ y # r = as @ bs" and "cut_at p as bs" and "p y"
  obtains as' where "as = l @ y # as'" and "r = as' @ bs" and "cut_at p as' bs"
proof -
  have "\<not> length as \<le> length l"
  proof
    assume le: "length as \<le> length l"
    have "drop (length as) (l @ y # r) = bs"
      using assms(1) by simp
    then have "y \<in> set bs"
      using le by (auto simp: drop_append)
    with assms(2,3) show False
      by (auto simp: cut_at_def)
  qed
  then obtain us where "as = l @ us" "us @ bs = y # r"
    using assms(1) by (auto simp: append_eq_append_conv2)
  moreover from this obtain as' where "us = y # as'"
    using \<open>\<not> length as \<le> length l\<close> by (cases us) auto
  ultimately show ?thesis
    using that [of as'] assms(2) by (auto simp: cut_at_append)
qed

lemma cut_at_split_right:
  assumes "l @ y # r = as @ bs" and "cut_at p as bs" and "\<not> p y"
  obtains bs' where "l = as @ bs'" and "bs = bs' @ y # r" and "cut_at p as bs'"
proof -
  have "length as \<le> length l"
  proof (rule ccontr)
    assume "\<not> length as \<le> length l"
    then have "(l @ y # r) ! length l \<in> set as"
      using assms(1) by (auto simp: nth_append)
    then have "y \<in> set as" by simp
    with assms(2,3) show False
      by (auto simp: cut_at_def)
  qed
  then obtain bs' where "l = as @ bs'" "bs' @ y # r = bs"
    using assms(1) by (auto simp: append_eq_append_conv2)
  then show ?thesis
    using that [of bs'] assms(2) by (auto simp: cut_at_append)
qed

end
