(* ===== verification/Eina_Rbtree.thy ===== *)
theory Eina_Rbtree
  imports Prelude
begin

text \<open>
  The intrusive red-black tree of \<open>src/lib/shared/data/eina_rbtree.c\<close>: insertion and
  removal with an explicit stack of link pointers, lookup, recursive deletion, and the
  three stack-driven iterators.
\<close>

section \<open>Data\<close>

text \<open>
  \<open>Eina_Rbtree_Color\<close>, \<open>Eina_Rbtree_Direction\<close> and \<open>struct _Eina_Rbtree\<close>. A tree is
  a pointer to such a struct: \<open>NIL\<close> is the null pointer. The struct is embedded in the
  user's own struct, so a node carries a value of the user's type \<open>'a\<close>; two nodes are
  the same pointer when these values are equal.
\<close>

datatype color = RED | BLACK

datatype dir = LEFT | RIGHT

datatype 'a rbtree = NIL | Node color 'a "'a rbtree" "'a rbtree"

text \<open>\<open>dir ^ 1\<close>.\<close>

fun opp :: "dir \<Rightarrow> dir" where
  "opp LEFT = RIGHT"
| "opp RIGHT = LEFT"

text \<open>\<open>t->son[d]\<close>.\<close>

fun son :: "dir \<Rightarrow> 'a rbtree \<Rightarrow> 'a rbtree" where
  "son d NIL = NIL"
| "son LEFT (Node c x l r) = l"
| "son RIGHT (Node c x l r) = r"

text \<open>The node whose son in direction \<open>d\<close> is \<open>a\<close> and whose other son is \<open>b\<close>.\<close>

fun mk :: "dir \<Rightarrow> color \<Rightarrow> 'a \<Rightarrow> 'a rbtree \<Rightarrow> 'a rbtree \<Rightarrow> 'a rbtree" where
  "mk LEFT c x a b = Node c x a b"
| "mk RIGHT c x a b = Node c x b a"

text \<open>\<open>t != NULL && t->color == EINA_RBTREE_RED\<close>, and the assignment \<open>t->color = c\<close>.\<close>

fun is_red :: "'a rbtree \<Rightarrow> bool" where
  "is_red (Node RED x l r) = True"
| "is_red t = False"

fun paint :: "color \<Rightarrow> 'a rbtree \<Rightarrow> 'a rbtree" where
  "paint c NIL = NIL"
| "paint c (Node c' x l r) = Node c x l r"

section \<open>Rotations\<close>

text \<open>
  \<open>_eina_rbtree_inline_single_rotation\<close>: the son opposite to \<open>d\<close> (\<open>save\<close>) becomes the
  root. Every caller has checked that \<open>save\<close> is not null, so the two fall-through
  equations, where the C code would follow a null pointer, are not reached.
\<close>

definition single_rotation :: "'a rbtree \<Rightarrow> dir \<Rightarrow> 'a rbtree" where
  "single_rotation node d =
     (case node of
        NIL \<Rightarrow> NIL
      | Node c x l r \<Rightarrow>
          (case son (opp d) node of
             NIL \<Rightarrow> node
           | Node c' y l' r' \<Rightarrow>
               mk d BLACK y (mk d RED x (son d node) (son d (son (opp d) node)))
                            (son (opp d) (son (opp d) node))))"

definition double_rotation :: "'a rbtree \<Rightarrow> dir \<Rightarrow> 'a rbtree" where
  "double_rotation node d =
     (case node of
        NIL \<Rightarrow> NIL
      | Node c x l r \<Rightarrow>
          single_rotation
            (mk d c x (son d node) (single_rotation (son (opp d) node) (opp d))) d)"

section \<open>Insertion\<close>

text \<open>
  The C code keeps a stack of link pointers with a direction in bit 0. A link pointer
  gives access to the node it points to; what is still needed of that node while the
  code works below it is its colour, its value and the son it does not descend into.
  A frame records these with the direction, so that the frames together are the tree
  around the current link.
\<close>

type_synonym 'a frame = "color \<times> 'a \<times> dir \<times> 'a rbtree"

text \<open>Writing back through the links that remain on the stack.\<close>

fun zip_up :: "'a rbtree \<Rightarrow> 'a frame list \<Rightarrow> 'a rbtree" where
  "zip_up t [] = t"
| "zip_up t ((c, x, d, b) # st) = zip_up (mk d c x t b) st"

text \<open>The loop ``find insertion leaf''.\<close>

fun insert_path :: "('a \<Rightarrow> 'a \<Rightarrow> dir) \<Rightarrow> 'a \<Rightarrow> 'a rbtree \<Rightarrow> 'a frame list \<Rightarrow> 'a frame list" where
  "insert_path cmp node NIL st = st"
| "insert_path cmp node (Node c q l r) st =
     (case cmp q node of
        LEFT \<Rightarrow> insert_path cmp node l ((c, q, LEFT, r) # st)
      | RIGHT \<Rightarrow> insert_path cmp node r ((c, q, RIGHT, l) # st))"

text \<open>
  The loop ``rebalance'': \<open>a\<close> is the son the popped link descends into, \<open>b\<close> the other
  one. A break leaves the rest of the tree as it is.
\<close>

fun insert_rebalance :: "'a rbtree \<Rightarrow> 'a frame list \<Rightarrow> 'a rbtree" where
  "insert_rebalance a [] = a"
| "insert_rebalance a ((c, x, d, b) # st) =
     (let q = mk d c x a b in
      if \<not> is_red a then zip_up q st
      else if is_red b then insert_rebalance (mk d RED x (paint BLACK a) (paint BLACK b)) st
      else if is_red (son d a) then insert_rebalance (single_rotation q (opp d)) st
      else if is_red (son (opp d) a) then insert_rebalance (double_rotation q (opp d)) st
      else insert_rebalance q st)"

text \<open>\<open>_eina_rbtree_node_init\<close> makes the new node a red leaf.\<close>

definition node_init :: "'a \<Rightarrow> 'a rbtree" where
  "node_init node = Node RED node NIL NIL"

definition rbtree_insert :: "'a rbtree \<Rightarrow> 'a \<Rightarrow> ('a \<Rightarrow> 'a \<Rightarrow> dir) \<Rightarrow> 'a rbtree" where
  "rbtree_insert root node cmp =
     paint BLACK (insert_rebalance (node_init node) (insert_path cmp node root []))"

text \<open>The whole function, with the null checks on \<open>node\<close> and \<open>cmp\<close>.\<close>

definition eina_rbtree_inline_insert ::
  "'a rbtree \<Rightarrow> 'a option \<Rightarrow> ('a \<Rightarrow> 'a \<Rightarrow> dir) option \<Rightarrow> 'a rbtree" where
  "eina_rbtree_inline_insert root node cmp =
     (case node of None \<Rightarrow> root
      | Some x \<Rightarrow> (case cmp of None \<Rightarrow> root | Some f \<Rightarrow> rbtree_insert root x f))"

section \<open>Removal\<close>

text \<open>
  The loop ``item search'': the colour and the sons of the node to remove and the links
  above it, or \<open>None\<close> when the walk reaches a null pointer.
\<close>

fun remove_find :: "('a \<Rightarrow> 'a \<Rightarrow> dir) \<Rightarrow> 'a \<Rightarrow> 'a rbtree \<Rightarrow> 'a frame list \<Rightarrow>
    (color \<times> 'a rbtree \<times> 'a rbtree \<times> 'a frame list) option" where
  "remove_find cmp node NIL st = None"
| "remove_find cmp node (Node c r l0 l1) st =
     (if r = node then Some (c, l0, l1, st)
      else case cmp r node of
             LEFT \<Rightarrow> remove_find cmp node l0 ((c, r, LEFT, l1) # st)
           | RIGHT \<Rightarrow> remove_find cmp node l1 ((c, r, RIGHT, l0) # st))"

text \<open>
  The loop ``find predecessor'', from the link \<open>node->son + 1\<close> down to the left: the
  colour and value of the node found, its right son, and the links passed.
\<close>

fun find_predecessor :: "color \<Rightarrow> 'a \<Rightarrow> 'a rbtree \<Rightarrow> 'a rbtree \<Rightarrow> 'a frame list \<Rightarrow>
    color \<times> 'a \<times> 'a rbtree \<times> 'a frame list" where
  "find_predecessor c q NIL r st = (c, q, r, st)"
| "find_predecessor c q (Node c' q' l' r') r st =
     find_predecessor c' q' l' r' ((c, q, LEFT, r) # st)"

text \<open>
  One round of the loop ``rebalance''. A red sibling is first rotated away
  (\<open>remove_round\<close>); then (\<open>remove_fix\<close>) \<open>r\<close>
  has colour \<open>c\<close>, its son in direction \<open>d\<close> is the short subtree \<open>t\<close>, \<open>q\<close> is the
  other son. The result is the subtree and whether the loop is left by \<open>break\<close>.
\<close>

definition recolor :: "color \<Rightarrow> 'a rbtree \<Rightarrow> 'a rbtree" where
  "recolor c t =
     (case t of NIL \<Rightarrow> NIL | Node c' x l r \<Rightarrow> Node c x (paint BLACK l) (paint BLACK r))"

definition remove_fix :: "color \<Rightarrow> 'a \<Rightarrow> dir \<Rightarrow> 'a rbtree \<Rightarrow> 'a rbtree \<Rightarrow> 'a rbtree \<times> bool" where
  "remove_fix c x d t q =
     (let r = mk d c x t q in
      if q = NIL then (r, False)
      else if is_red (son (opp d) q) then (recolor c (single_rotation r d), True)
      else if is_red (son d q) then (recolor c (double_rotation r d), True)
      else (mk d BLACK x t (paint RED q), c = RED))"

definition remove_round ::
  "color \<Rightarrow> 'a \<Rightarrow> dir \<Rightarrow> 'a rbtree \<Rightarrow> 'a rbtree \<Rightarrow> 'a rbtree \<times> bool" where
  "remove_round c x d t q =
     (case q of
        NIL \<Rightarrow> remove_fix c x d t q
      | Node cq y l r \<Rightarrow>
          if cq = RED then
            (case remove_fix RED x d t (son d q) of
               (s, brk) \<Rightarrow> (mk d BLACK y s (son (opp d) q), brk))
          else remove_fix c x d t q)"

fun remove_rebalance :: "'a rbtree \<Rightarrow> 'a frame list \<Rightarrow> 'a rbtree" where
  "remove_rebalance t [] = t"
| "remove_rebalance t ((c, x, d, q) # st) =
     (let sb = remove_round c x d t q
      in if snd sb then zip_up (fst sb) st else remove_rebalance (fst sb) st)"

text \<open>
  The cases at the label \<open>found\<close>. With two sons the predecessor takes over the place,
  the colour and the sons of the removed node (\<open>memcpy\<close>), so the frame of that place
  carries the predecessor's value and the removed node's colour.
\<close>

definition remove_found ::
  "color \<Rightarrow> 'a rbtree \<Rightarrow> 'a rbtree \<Rightarrow> 'a frame list \<Rightarrow> 'a rbtree" where
  "remove_found c l0 l1 st =
     (case (l0, l1) of
        (Node _ _ _ _, Node c1 x1 l r) \<Rightarrow>
          (let (cq, q, rq, path) = find_predecessor c1 x1 l r [];
               st' = path @ (c, q, RIGHT, l0) # st
           in if cq = RED then zip_up rq st' else remove_rebalance rq st')
      | _ \<Rightarrow>
          (let l = (if l0 = NIL then l1 else l0)
           in if c = RED then zip_up l st
              else if is_red l then zip_up (paint BLACK l) st
              else remove_rebalance l st))"

definition rbtree_remove :: "'a rbtree \<Rightarrow> 'a \<Rightarrow> ('a \<Rightarrow> 'a \<Rightarrow> dir) \<Rightarrow> 'a rbtree" where
  "rbtree_remove root node cmp =
     (case remove_find cmp node root [] of
        None \<Rightarrow> root
      | Some (c, l0, l1, st) \<Rightarrow> paint BLACK (remove_found c l0 l1 st))"

definition eina_rbtree_inline_remove ::
  "'a rbtree \<Rightarrow> 'a option \<Rightarrow> ('a \<Rightarrow> 'a \<Rightarrow> dir) option \<Rightarrow> 'a rbtree" where
  "eina_rbtree_inline_remove root node cmp =
     (case node of None \<Rightarrow> root
      | Some x \<Rightarrow> (case cmp of None \<Rightarrow> root | Some f \<Rightarrow> rbtree_remove root x f))"

section \<open>Lookup and deletion\<close>

text \<open>
  \<open>eina_rbtree_inline_lookup\<close> of \<open>eina_inline_rbtree.x\<close>: \<open>cmp\<close> compares a node with
  the key; a negative result descends to the left.
\<close>

fun eina_rbtree_inline_lookup :: "'a rbtree \<Rightarrow> ('a \<Rightarrow> int) \<Rightarrow> 'a option" where
  "eina_rbtree_inline_lookup NIL cmp = None"
| "eina_rbtree_inline_lookup (Node c x l r) cmp =
     (let result = cmp x in
      if result \<noteq> 0 then eina_rbtree_inline_lookup (if result < 0 then l else r) cmp
      else Some x)"

text \<open>
  \<open>eina_rbtree_delete\<close>: the callback \<open>func\<close> runs on every node, sons first; the state
  \<open>'s\<close> is what the callback changes. A null \<open>func\<close> is refused on a non-empty tree.
\<close>

fun eina_rbtree_delete :: "'a rbtree \<Rightarrow> ('a \<Rightarrow> 's \<Rightarrow> 's) option \<Rightarrow> 's \<Rightarrow> 's" where
  "eina_rbtree_delete NIL func s = s"
| "eina_rbtree_delete (Node c x l r) func s =
     (case func of
        None \<Rightarrow> s
      | Some f \<Rightarrow> f x (eina_rbtree_delete r func (eina_rbtree_delete l func s)))"


section \<open>Contents\<close>

text \<open>The nodes from the far left to the far right.\<close>

fun inorder :: "'a rbtree \<Rightarrow> 'a list" where
  "inorder NIL = []"
| "inorder (Node c x l r) = inorder l @ x # inorder r"

fun rsize :: "'a rbtree \<Rightarrow> nat" where
  "rsize NIL = 0"
| "rsize (Node c x l r) = Suc (rsize l + rsize r)"

lemma length_inorder [simp]: "length (inorder t) = rsize t"
  by (induction t) auto

lemma opp_opp [simp]: "opp (opp d) = d"
  by (cases d) auto

lemma son_mk [simp]:
  "son d (mk d c x a b) = a"
  "son (opp d) (mk d c x a b) = b"
  "son d (mk (opp d) c x a b) = b"
  by (cases d; simp)+

lemma mk_not_NIL [simp]: "mk d c x a b \<noteq> NIL" "NIL \<noteq> mk d c x a b"
  by (cases d; simp)+

lemma paint_mk [simp]: "paint c (mk d c' x a b) = mk d c x a b"
  by (cases d) auto

lemma is_red_mk [simp]: "is_red (mk d c x a b) \<longleftrightarrow> c = RED"
  by (cases d; cases c) auto

lemma is_red_Node [simp]: "is_red (Node c x l r) \<longleftrightarrow> c = RED"
  by (cases c) auto

lemma is_red_paint_BLACK [simp]: "\<not> is_red (paint BLACK t)"
  by (cases t) auto

lemma not_BLACK [simp]: "c \<noteq> BLACK \<longleftrightarrow> c = RED" "c \<noteq> RED \<longleftrightarrow> c = BLACK"
  by (cases c; simp)+

lemma inorder_paint [simp]: "inorder (paint c t) = inorder t"
  by (cases t) auto

text \<open>Case analysis of a node along a direction.\<close>

lemma rbtree_mk_cases:
  obtains "t = NIL" | c x a b where "t = mk d c x a b"
proof (cases t)
  case (Node c x l r)
  then show ?thesis
    by (cases d) (auto intro: that(2) [of c x l r] that(2) [of c x r l])
qed (rule that)

lemma is_redE:
  assumes "is_red t"
  obtains x a b where "t = mk d RED x a b"
proof (rule rbtree_mk_cases [where t = t and d = d])
  assume "t = NIL"
  with assms show ?thesis by simp
next
  fix c x a b
  assume "t = mk d c x a b"
  with assms show ?thesis by (auto intro: that)
qed

lemma single_rotation_mk [simp]:
  "single_rotation (mk d c x a (mk d c' y a' b')) d = mk d BLACK y (mk d RED x a a') b'"
  by (cases d) (auto simp: single_rotation_def)

lemma single_rotation_opp [simp]:
  "single_rotation (mk d c x (mk d c' y a' b') b) (opp d)
     = mk d BLACK y a' (mk d RED x b' b)"
  by (cases d) (auto simp: single_rotation_def)

lemma double_rotation_mk [simp]:
  "double_rotation (mk d c x a (mk d c' y (mk d c'' z a' b') b)) d
     = mk d BLACK z (mk d RED x a a') (mk d RED y b' b)"
  by (cases d) (auto simp: double_rotation_def single_rotation_def)

lemma double_rotation_opp [simp]:
  "double_rotation (mk d c x (mk d c' y a (mk d c'' z a' b')) b) (opp d)
     = mk d BLACK z (mk d RED y a a') (mk d RED x b' b)"
  by (cases d) (auto simp: double_rotation_def single_rotation_def)

lemma recolor_mk [simp]: "recolor c (mk d c' x a b) = mk d c x (paint BLACK a) (paint BLACK b)"
  by (cases d) (auto simp: recolor_def)

text \<open>
  The contents of a node in a direction, and what the frames of a stack have on the
  left and on the right of the link they surround.
\<close>

fun side :: "dir \<Rightarrow> 'a list \<Rightarrow> 'a list \<Rightarrow> 'a list" where
  "side LEFT as bs = as @ bs"
| "side RIGHT as bs = bs @ as"

lemma inorder_mk: "inorder (mk d c x a b) = (case d of LEFT \<Rightarrow> inorder a @ x # inorder b
    | RIGHT \<Rightarrow> inorder b @ x # inorder a)"
  by (cases d) auto

fun before :: "'a frame list \<Rightarrow> 'a list" where
  "before [] = []"
| "before ((c, x, LEFT, b) # st) = before st"
| "before ((c, x, RIGHT, b) # st) = before st @ inorder b @ [x]"

fun after :: "'a frame list \<Rightarrow> 'a list" where
  "after [] = []"
| "after ((c, x, LEFT, b) # st) = x # inorder b @ after st"
| "after ((c, x, RIGHT, b) # st) = after st"

lemma inorder_zip_up [simp]: "inorder (zip_up t st) = before st @ inorder t @ after st"
proof (induction st arbitrary: t)
  case (Cons f st)
  obtain c x d b where "f = (c, x, d, b)" by (cases f)
  with Cons show ?case by (cases d) auto
qed simp

lemma before_append [simp]: "before (st @ st') = before st' @ before st"
proof (induction st)
  case (Cons f st)
  obtain c x d b where "f = (c, x, d, b)" by (cases f)
  with Cons show ?case by (cases d) auto
qed simp

lemma after_append [simp]: "after (st @ st') = after st @ after st'"
proof (induction st)
  case (Cons f st)
  obtain c x d b where "f = (c, x, d, b)" by (cases f)
  with Cons show ?case by (cases d) auto
qed simp

lemma inorder_single_rotation [simp]: "inorder (single_rotation t d) = inorder t"
  by (cases d; cases t) (auto simp: single_rotation_def split: rbtree.splits)

lemma inorder_mk_cong: "inorder b = inorder b' \<Longrightarrow> inorder (mk d c x a b) = inorder (mk d c' x a b')"
  by (cases d) auto

lemma inorder_double_rotation [simp]: "inorder (double_rotation t d) = inorder t"
  by (cases d; cases t) (auto simp: double_rotation_def)

lemma inorder_recolor [simp]: "inorder (recolor c t) = inorder t"
  by (cases t) (auto simp: recolor_def)

lemma inorder_insert_rebalance [simp]:
  "inorder (insert_rebalance a st) = before st @ inorder a @ after st"
proof (induction a st rule: insert_rebalance.induct)
  case (2 a c x d b st)
  then show ?case
    by (cases d) (auto simp: Let_def inorder_mk)
qed simp

lemma inorder_remove_fix: "inorder (fst (remove_fix c x d t q)) = inorder (mk d c x t q)"
  by (cases d) (auto simp: remove_fix_def Let_def inorder_mk)

lemma inorder_remove_round: "inorder (fst (remove_round c x d t q)) = inorder (mk d c x t q)"
  by (cases d; cases q) (auto simp: remove_round_def inorder_remove_fix inorder_mk case_prod_unfold)

lemma inorder_remove_rebalance [simp]:
  "inorder (remove_rebalance t st) = before st @ inorder t @ after st"
proof (induction t st rule: remove_rebalance.induct)
  case (2 t c x d q st)
  then show ?case
    by (cases d) (auto simp: Let_def inorder_remove_round inorder_mk)
qed simp

section \<open>The red-black invariant\<close>

text \<open>
  Every path from a node down to a null pointer passes the same number of black nodes;
  a red node has no red son; the root is black.
\<close>

fun bh :: "'a rbtree \<Rightarrow> nat" where
  "bh NIL = 0"
| "bh (Node c x l r) = bh l + (if c = BLACK then 1 else 0)"

fun inv_bh :: "'a rbtree \<Rightarrow> bool" where
  "inv_bh NIL = True"
| "inv_bh (Node c x l r) \<longleftrightarrow> bh l = bh r \<and> inv_bh l \<and> inv_bh r"

fun inv_red :: "'a rbtree \<Rightarrow> bool" where
  "inv_red NIL = True"
| "inv_red (Node c x l r) \<longleftrightarrow>
     (c = RED \<longrightarrow> \<not> is_red l \<and> \<not> is_red r) \<and> inv_red l \<and> inv_red r"

definition rb_inv :: "'a rbtree \<Rightarrow> bool" where
  "rb_inv t \<longleftrightarrow> inv_bh t \<and> inv_red t \<and> \<not> is_red t"

lemma inv_bh_mk [simp]: "inv_bh (mk d c x a b) \<longleftrightarrow> bh a = bh b \<and> inv_bh a \<and> inv_bh b"
  by (cases d) auto

lemma bh_mk [simp]: "bh a = bh b \<Longrightarrow> bh (mk d c x a b) = bh a + (if c = BLACK then 1 else 0)"
  by (cases d) auto

lemma bh_mk_RED [simp]: "bh a = bh b \<Longrightarrow> bh (mk d RED x a b) = bh a"
  by simp

lemma inv_red_mk [simp]: "inv_red (mk d c x a b) \<longleftrightarrow>
    (c = RED \<longrightarrow> \<not> is_red a \<and> \<not> is_red b) \<and> inv_red a \<and> inv_red b"
  by (cases d) auto

lemma inv_bh_paint [simp]: "inv_bh (paint c t) = inv_bh t"
  by (cases t) auto

lemma inv_red_paint_BLACK [simp]: "inv_red t \<Longrightarrow> inv_red (paint BLACK t)"
  by (cases t) auto

lemma paint_paint [simp]: "paint c (paint c' t) = paint c t"
  by (cases t) auto

lemma inv_red_iff_paint: "\<not> is_red t \<Longrightarrow> inv_red (paint BLACK t) = inv_red t"
  by (cases t rule: is_red.cases) auto

lemma bh_paint_BLACK: "is_red t \<Longrightarrow> bh (paint BLACK t) = Suc (bh t)"
  by (cases t rule: is_red.cases) auto

lemma paint_BLACK_idem: "\<not> is_red t \<Longrightarrow> paint BLACK t = t"
  by (cases t rule: is_red.cases) auto

text \<open>
  What the frames around a link ask of the subtree put there: its black height, and
  that the red frames on the stack have black sons and black fathers.
\<close>

fun ctx_bh :: "'a frame list \<Rightarrow> nat \<Rightarrow> bool" where
  "ctx_bh [] h = True"
| "ctx_bh ((c, x, d, b) # st) h \<longleftrightarrow>
     bh b = h \<and> inv_bh b \<and> ctx_bh st (h + (if c = BLACK then 1 else 0))"

fun top_red :: "'a frame list \<Rightarrow> bool" where
  "top_red [] = False"
| "top_red ((c, x, d, b) # st) \<longleftrightarrow> c = RED"

fun ctx_red :: "'a frame list \<Rightarrow> bool" where
  "ctx_red [] = True"
| "ctx_red ((c, x, d, b) # st) \<longleftrightarrow>
     inv_red b \<and> (c = RED \<longrightarrow> \<not> is_red b \<and> \<not> top_red st) \<and> ctx_red st"

lemma inv_bh_zip_up: "inv_bh t \<Longrightarrow> ctx_bh st (bh t) \<Longrightarrow> inv_bh (zip_up t st)"
  by (induction t st rule: zip_up.induct) auto

lemma inv_red_zip_up:
  "inv_red t \<Longrightarrow> ctx_red st \<Longrightarrow> (is_red t \<longrightarrow> \<not> top_red st) \<Longrightarrow> inv_red (zip_up t st)"
  by (induction t st rule: zip_up.induct) auto

fun blacks :: "'a frame list \<Rightarrow> nat" where
  "blacks [] = 0"
| "blacks ((c, x, d, b) # st) = (if c = BLACK then 1 else 0) + blacks st"

lemma ctx_bh_append: "ctx_bh (st @ st') h \<longleftrightarrow> ctx_bh st h \<and> ctx_bh st' (h + blacks st)"
  by (induction st h rule: ctx_bh.induct) (auto simp: add.assoc)

text \<open>
  During insertion the subtree at the current link is a red-black tree, or a red node
  with exactly one red son under a black father.
\<close>

definition infrared :: "'a rbtree \<Rightarrow> bool" where
  "infrared t \<longleftrightarrow> is_red t \<and> inv_red (paint BLACK t) \<and> \<not> (is_red (son LEFT t) \<and> is_red (son RIGHT t))"

lemma infrared_mk: "infrared (mk d c x a b) \<longleftrightarrow>
    c = RED \<and> inv_red a \<and> inv_red b \<and> \<not> (is_red a \<and> is_red b)"
  by (cases d) (auto simp: infrared_def)

lemma insert_rebalance_inv:
  assumes "inv_bh a" and "ctx_bh st (bh a)" and "ctx_red st"
    and "inv_red a \<or> infrared a \<and> \<not> top_red st"
  shows "inv_bh (insert_rebalance a st) \<and> inv_red (paint BLACK (insert_rebalance a st))"
  using assms
proof (induction a st rule: insert_rebalance.induct)
  case (1 a)
  then show ?case by (auto simp: infrared_def)
next
  case (2 a c x d b st)
  show ?case
  proof (cases "is_red a")
    case False
    with 2 show ?thesis
      by (auto simp: infrared_def intro!: inv_bh_zip_up inv_red_paint_BLACK inv_red_zip_up)
  next
    case True
    then obtain y a1 a2 where a: "a = mk d RED y a1 a2"
      by (rule is_redE)
    show ?thesis
    proof (cases "is_red b")
      case True
      with 2 a show ?thesis
        by (auto simp: infrared_mk bh_paint_BLACK)
    next
      case False
      consider (outer) "is_red a1" | (inner) "\<not> is_red a1" "is_red a2"
        | (none) "\<not> is_red a1" "\<not> is_red a2" by blast
      then show ?thesis
      proof cases
        case outer
        with 2 a False show ?thesis by (auto simp: infrared_mk)
      next
        case inner
        moreover from inner(2) obtain z a3 a4 where "a2 = mk d RED z a3 a4"
          by (rule is_redE)
        ultimately show ?thesis using 2 a False by (auto simp: infrared_mk)
      next
        case none
        with 2 a False show ?thesis by (auto simp: infrared_mk split: if_splits)
      qed
    qed
  qed
qed

text \<open>Descending into a red-black tree leaves the stack in the shape the links ask for.\<close>

lemma insert_path_ctx:
  assumes "inv_bh t" and "inv_red t" and "ctx_bh st (bh t)" and "ctx_red st"
    and "is_red t \<longrightarrow> \<not> top_red st"
  shows "ctx_bh (insert_path cmp x t st) 0 \<and> ctx_red (insert_path cmp x t st)"
  using assms
  by (induction cmp x t st rule: insert_path.induct) (auto split: dir.split)

lemma rb_inv_insert [eina_inv]:
  assumes "rb_inv t"
  shows "rb_inv (rbtree_insert t x cmp)"
proof -
  from assms have "ctx_bh (insert_path cmp x t []) 0 \<and> ctx_red (insert_path cmp x t [])"
    by (intro insert_path_ctx) (auto simp: rb_inv_def)
  then have "inv_bh (insert_rebalance (node_init x) (insert_path cmp x t [])) \<and>
      inv_red (paint BLACK (insert_rebalance (node_init x) (insert_path cmp x t [])))"
    by (intro insert_rebalance_inv) (auto simp: node_init_def)
  then show ?thesis
    by (simp add: rb_inv_def rbtree_insert_def)
qed


lemma remove_fix_inv:
  assumes t: "inv_bh t" "inv_red t" and q: "inv_bh q" "inv_red q" "\<not> is_red q" "bh q = Suc (bh t)"
    and s: "remove_fix c x d t q = (s, brk)"
  shows "inv_bh s" and "inv_red s"
    and "bh s = (if brk then Suc (bh t) + (if c = BLACK then 1 else 0) else Suc (bh t))"
    and "is_red s \<longrightarrow> brk \<and> c = RED" and "\<not> brk \<longrightarrow> c = BLACK"
proof -
  obtain y q1 q2 where q': "q = mk d BLACK y q1 q2"
    using q(3,4) by (cases q rule: rbtree_mk_cases [where d = d]) auto
  have h: "bh q1 = bh t" "bh q2 = bh t" "inv_bh q1" "inv_bh q2" "inv_red q1" "inv_red q2"
    using q q' by auto
  have "inv_bh s \<and> inv_red s \<and>
      bh s = (if brk then Suc (bh t) + (if c = BLACK then 1 else 0) else Suc (bh t)) \<and>
      (is_red s \<longrightarrow> brk \<and> c = RED) \<and> (\<not> brk \<longrightarrow> c = BLACK)"
  proof (cases "is_red q2")
    case True
    with s t h q' show ?thesis
      by (auto simp: remove_fix_def Let_def bh_paint_BLACK)
  next
    case q2: False
    show ?thesis
    proof (cases "is_red q1")
      case True
      then obtain z q3 q4 where "q1 = mk d RED z q3 q4"
        by (rule is_redE)
      with s t h q' q2 show ?thesis
        by (auto simp: remove_fix_def Let_def)
    next
      case False
      with s t h q' q2 show ?thesis
        by (auto simp: remove_fix_def Let_def)
    qed
  qed
  then show "inv_bh s" and "inv_red s"
    and "bh s = (if brk then Suc (bh t) + (if c = BLACK then 1 else 0) else Suc (bh t))"
    and "is_red s \<longrightarrow> brk \<and> c = RED" and "\<not> brk \<longrightarrow> c = BLACK"
    by blast+
qed

lemma remove_round_inv:
  assumes t: "inv_bh t" "inv_red t" and q: "inv_bh q" "inv_red q" "bh q = Suc (bh t)"
    and c: "is_red q \<longrightarrow> c = BLACK"
    and s: "remove_round c x d t q = (s, brk)"
  shows "inv_bh s \<and> inv_red s \<and>
    bh s = (if brk then Suc (bh t) + (if c = BLACK then 1 else 0) else Suc (bh t)) \<and>
    (is_red s \<longrightarrow> brk \<and> c = RED) \<and> (\<not> brk \<longrightarrow> c = BLACK)"
proof (cases "is_red q")
  case True
  then obtain y q1 q2 where q': "q = mk d RED y q1 q2"
    by (rule is_redE)
  obtain s' b where s': "remove_fix RED x d t q1 = (s', b)"
    by fastforce
  have "s = mk d BLACK y s' q2" "brk = b"
    using s s' q' by (cases d; auto simp: remove_round_def)+
  moreover have "inv_bh q1" "inv_red q1" "\<not> is_red q1" "bh q1 = Suc (bh t)" "bh q2 = bh q1"
    "inv_bh q2" "inv_red q2"
    using q q' by auto
  ultimately show ?thesis
    using remove_fix_inv [OF t _ _ _ _ s'] c True by auto
next
  case False
  then have "remove_round c x d t q = remove_fix c x d t q"
    by (cases q) (auto simp: remove_round_def)
  with remove_fix_inv [OF t q(1,2) False q(3)] s show ?thesis
    by metis
qed

lemma remove_rebalance_inv:
  assumes "inv_bh t" and "inv_red t" and "ctx_bh st (Suc (bh t))" and "ctx_red st"
  shows "inv_bh (remove_rebalance t st) \<and> inv_red (paint BLACK (remove_rebalance t st))"
  using assms
proof (induction t st rule: remove_rebalance.induct)
  case (1 t)
  then show ?case by simp
next
  case (2 t c x d q st)
  obtain s brk where sb: "remove_round c x d t q = (s, brk)"
    by fastforce
  from 2 have "is_red q \<longrightarrow> c = BLACK"
    by (cases c) auto
  with 2 sb have s: "inv_bh s \<and> inv_red s \<and>
    bh s = (if brk then Suc (bh t) + (if c = BLACK then 1 else 0) else Suc (bh t)) \<and>
    (is_red s \<longrightarrow> brk \<and> c = RED) \<and> (\<not> brk \<longrightarrow> c = BLACK)"
    by (intro remove_round_inv) auto
  show ?case
  proof (cases brk)
    case True
    with s 2 have "inv_bh (zip_up s st)" "inv_red (zip_up s st)"
      by (auto intro!: inv_bh_zip_up inv_red_zip_up)
    with True sb show ?thesis by simp
  next
    case False
    with s 2 sb show ?thesis by auto
  qed
qed

lemma remove_find_ctx:
  assumes "remove_find cmp x t st = Some (c, l0, l1, st')"
    and "inv_bh t" and "inv_red t" and "ctx_bh st (bh t)" and "ctx_red st"
    and "is_red t \<longrightarrow> \<not> top_red st"
  shows "inv_bh (Node c x l0 l1) \<and> inv_red (Node c x l0 l1) \<and> ctx_red st' \<and>
    ctx_bh st' (bh (Node c x l0 l1)) \<and> (c = RED \<longrightarrow> \<not> top_red st')"
  using assms
  by (induction cmp x t st rule: remove_find.induct) (auto split: if_splits dir.splits)

lemma find_predecessor_append:
  "find_predecessor c q l r (st @ st') =
     (case find_predecessor c q l r st of (cq, x, rq, p) \<Rightarrow> (cq, x, rq, p @ st'))"
  by (induction c q l r st rule: find_predecessor.induct) auto

lemma find_predecessor_ctx:
  assumes "find_predecessor c q l r st = (cq, x, rq, st')"
    and "inv_bh (Node c q l r)" and "inv_red (Node c q l r)"
    and "ctx_bh st (bh (Node c q l r))" and "ctx_red st" and "c = RED \<longrightarrow> \<not> top_red st"
  shows "inv_bh rq \<and> inv_red rq \<and> ctx_red st' \<and>
    ctx_bh st' (bh rq + (if cq = BLACK then 1 else 0)) \<and>
    (cq = RED \<longrightarrow> \<not> top_red st' \<and> \<not> is_red rq)"
  using assms
  by (induction c q l r st rule: find_predecessor.induct) auto

lemma remove_found_two:
  assumes inv: "inv_bh (Node c x l0 l1)" "inv_red (Node c x l0 l1)" "ctx_red st"
      "ctx_bh st (bh (Node c x l0 l1))" "c = RED \<longrightarrow> \<not> top_red st"
    and two: "l0 = Node c0 x0 a0 b0" "l1 = Node c1 x1 l r"
  shows "inv_bh (remove_found c l0 l1 st) \<and> inv_red (paint BLACK (remove_found c l0 l1 st))"
proof -
  obtain cq q rq path where p: "find_predecessor c1 x1 l r [] = (cq, q, rq, path)"
    by (cases "find_predecessor c1 x1 l r []")
  define st' where "st' = path @ (c, q, RIGHT, l0) # st"
  have fp: "find_predecessor c1 x1 l r ((c, q, RIGHT, l0) # st) = (cq, q, rq, st')"
    using p find_predecessor_append [of c1 x1 l r "[]" "(c, q, RIGHT, l0) # st"]
    by (simp add: st'_def)
  have "inv_bh l1" "inv_red l1" "ctx_bh ((c, q, RIGHT, l0) # st) (bh l1)"
      "ctx_red ((c, q, RIGHT, l0) # st)" "is_red l1 \<longrightarrow> \<not> top_red ((c, q, RIGHT, l0) # st)"
    using inv by auto
  then have ctx: "inv_bh rq \<and> inv_red rq \<and> ctx_red st' \<and>
    ctx_bh st' (bh rq + (if cq = BLACK then 1 else 0)) \<and>
    (cq = RED \<longrightarrow> \<not> top_red st' \<and> \<not> is_red rq)"
    unfolding two(2) by (intro find_predecessor_ctx [OF fp]) (simp_all only: is_red_Node)
  have "remove_found c l0 l1 st = (if cq = RED then zip_up rq st' else remove_rebalance rq st')"
    using two p by (simp add: remove_found_def st'_def)
  with ctx remove_rebalance_inv [of rq st'] show ?thesis
    by (cases cq) (auto intro!: inv_bh_zip_up inv_red_zip_up inv_red_paint_BLACK)
qed

lemma remove_found_one:
  assumes inv: "inv_bh (Node c x l0 l1)" "inv_red (Node c x l0 l1)" "ctx_red st"
      "ctx_bh st (bh (Node c x l0 l1))" "c = RED \<longrightarrow> \<not> top_red st"
    and one: "l0 = NIL \<or> l1 = NIL"
  shows "inv_bh (remove_found c l0 l1 st) \<and> inv_red (paint BLACK (remove_found c l0 l1 st))"
proof -
  define l where "l = (if l0 = NIL then l1 else l0)"
  have "remove_found c l0 l1 st =
      (if c = RED then zip_up l st
       else if is_red l then zip_up (paint BLACK l) st else remove_rebalance l st)"
    using one by (auto simp: remove_found_def l_def split: rbtree.splits)
  moreover have "inv_bh l" "inv_red l" "bh l = bh l0" "c = RED \<longrightarrow> \<not> is_red l"
    using inv one by (auto simp: l_def)
  ultimately show ?thesis
    using inv remove_rebalance_inv [of l st]
    by (cases c) (auto simp: bh_paint_BLACK intro!: inv_bh_zip_up inv_red_zip_up inv_red_paint_BLACK)
qed

lemma remove_found_inv:
  assumes inv: "inv_bh (Node c x l0 l1)" "inv_red (Node c x l0 l1)" "ctx_red st"
      "ctx_bh st (bh (Node c x l0 l1))" "c = RED \<longrightarrow> \<not> top_red st"
  shows "inv_bh (remove_found c l0 l1 st) \<and> inv_red (paint BLACK (remove_found c l0 l1 st))"
proof (cases "l0 = NIL \<or> l1 = NIL")
  case True
  show ?thesis by (rule remove_found_one [OF inv True])
next
  case False
  then obtain c0 x0 a0 b0 c1 x1 l r where "l0 = Node c0 x0 a0 b0" "l1 = Node c1 x1 l r"
    by (cases l0; cases l1) auto
  then show ?thesis by (rule remove_found_two [OF inv])
qed

lemma rb_inv_remove [eina_inv]:
  assumes "rb_inv t"
  shows "rb_inv (rbtree_remove t x cmp)"
proof (cases "remove_find cmp x t []")
  case None
  with assms show ?thesis by (simp add: rbtree_remove_def)
next
  case (Some f)
  obtain c l0 l1 st where f: "f = (c, l0, l1, st)" by (cases f)
  have "inv_bh (Node c x l0 l1) \<and> inv_red (Node c x l0 l1) \<and> ctx_red st \<and>
    ctx_bh st (bh (Node c x l0 l1)) \<and> (c = RED \<longrightarrow> \<not> top_red st)"
    using assms Some f by (intro remove_find_ctx [where st = "[]"]) (auto simp: rb_inv_def)
  then have "inv_bh (remove_found c l0 l1 st) \<and> inv_red (paint BLACK (remove_found c l0 l1 st))"
    using remove_found_inv [of c x l0 l1 st] by blast
  with Some f show ?thesis
    by (simp add: rbtree_remove_def rb_inv_def)
qed


section \<open>What the operations do to the contents\<close>

lemma insert_path_contents:
  assumes "inorder t = as @ bs" and "cut_at (\<lambda>q. cmp q x = RIGHT) as bs"
  shows "before (insert_path cmp x t st) = before st @ as \<and>
    after (insert_path cmp x t st) = bs @ after st"
  using assms
proof (induction cmp x t st arbitrary: as bs rule: insert_path.induct)
  case (2 cmp x c q l r st)
  show ?case
  proof (cases "cmp q x")
    case LEFT
    with 2(3,4) obtain bs' where "inorder l = as @ bs'" "bs = bs' @ q # inorder r"
        "cut_at (\<lambda>q. cmp q x = RIGHT) as bs'"
      using cut_at_split_right [of "inorder l" q "inorder r" as bs "\<lambda>q. cmp q x = RIGHT"] by auto
    with 2(1) [OF LEFT] LEFT show ?thesis by simp
  next
    case RIGHT
    with 2(3,4) obtain as' where "as = inorder l @ q # as'" "inorder r = as' @ bs"
        "cut_at (\<lambda>q. cmp q x = RIGHT) as' bs"
      using cut_at_split_left [of "inorder l" q "inorder r" as bs "\<lambda>q. cmp q x = RIGHT"] by auto
    with 2(2) [OF RIGHT] RIGHT show ?thesis by simp
  qed
qed simp

lemma inorder_insert [eina_shape]:
  assumes "inorder t = as @ bs" and "cut_at (\<lambda>q. cmp q x = RIGHT) as bs"
  shows "inorder (rbtree_insert t x cmp) = as @ x # bs"
  using insert_path_contents [where cmp = cmp and x = x and st = "[]", OF assms]
  by (simp add: rbtree_insert_def node_init_def)

text \<open>Whatever the comparison, an insertion adds the node and loses none.\<close>

lemma mset_insert_path:
  "mset (before (insert_path cmp x t st)) + mset (after (insert_path cmp x t st)) =
     mset (before st) + mset (inorder t) + mset (after st)"
  by (induction cmp x t st rule: insert_path.induct) (auto split: dir.split)

lemma mset_insert: "mset (inorder (rbtree_insert t x cmp)) = add_mset x (mset (inorder t))"
  using mset_insert_path [of cmp x t "[]"]
  by (simp add: rbtree_insert_def node_init_def)

lemma find_predecessor_contents:
  assumes "find_predecessor c q l r st = (cq, x, rq, st')"
  shows "before st' = before st \<and>
    x # inorder rq @ after st' = inorder (Node c q l r) @ after st"
  using assms by (induction c q l r st rule: find_predecessor.induct) auto

lemma inorder_remove_found:
  "inorder (remove_found c l0 l1 st) = before st @ inorder l0 @ inorder l1 @ after st"
proof (cases "l0 = NIL \<or> l1 = NIL")
  case True
  then show ?thesis by (auto simp: remove_found_def Let_def split: rbtree.splits)
next
  case False
  then obtain c0 x0 a0 b0 c1 x1 l r where two: "l0 = Node c0 x0 a0 b0" "l1 = Node c1 x1 l r"
    by (cases l0; cases l1) auto
  obtain cq q rq path where p: "find_predecessor c1 x1 l r [] = (cq, q, rq, path)"
    by (cases "find_predecessor c1 x1 l r []")
  then have e: "before path = []" "inorder l1 = q # inorder rq @ after path"
    using find_predecessor_contents [OF p] two by auto
  have "inorder (remove_found c l0 l1 st) =
      before st @ inorder l0 @ (q # inorder rq @ after path) @ after st"
    using two p e(1) by (simp add: remove_found_def Let_def)
  with e(2) show ?thesis by simp
qed

lemma remove_find_contents:
  assumes "inorder t = as @ x # bs" and "distinct (as @ x # bs)"
    and "\<forall>a \<in> set as. cmp a x = RIGHT" and "\<forall>b \<in> set bs. cmp b x = LEFT"
  shows "\<exists>c l0 l1 st'. remove_find cmp x t st = Some (c, l0, l1, st') \<and>
    before st' @ inorder l0 = before st @ as \<and> inorder l1 @ after st' = bs @ after st"
  using assms
proof (induction cmp x t st arbitrary: as bs rule: remove_find.induct)
  case (2 cmp x c y l r st)
  let ?p = "\<lambda>q. q \<noteq> x \<and> cmp q x = RIGHT"
  have cut: "cut_at ?p as (x # bs)"
    using 2(4-6) by (auto simp: cut_at_def)
  show ?case
  proof (cases "y = x")
    case True
    with 2(3,4) have "inorder l = as" "inorder r = bs"
      by (auto simp: append_eq_append_conv2 append_eq_Cons_conv Cons_eq_append_conv)
    with True show ?thesis by auto
  next
    case y: False
    show ?thesis
    proof (cases "cmp y x")
      case LEFT
      with 2(3) cut obtain bs' where "inorder l = as @ bs'" "x # bs = bs' @ y # inorder r"
        using cut_at_split_right [of "inorder l" y "inorder r" as "x # bs" ?p] by auto
      with y obtain bs'' where "inorder l = as @ x # bs''" "bs = bs'' @ y # inorder r"
        by (auto simp: Cons_eq_append_conv)
      moreover from this have "distinct (as @ x # bs'')"
        using 2(4) by (auto simp: disjoint_iff)
      ultimately show ?thesis
        using 2(1) [OF y LEFT, of as bs''] 2(5,6) y LEFT by auto
    next
      case RIGHT
      with 2(3) cut y obtain as' where "as = inorder l @ y # as'" "inorder r = as' @ x # bs"
        using cut_at_split_left [of "inorder l" y "inorder r" as "x # bs" ?p] by auto
      with 2(2) [OF y RIGHT, of as' bs] 2(4-6) y RIGHT show ?thesis by auto
    qed
  qed
qed simp

lemma inorder_remove [eina_shape]:
  assumes "inorder t = as @ x # bs" and "distinct (as @ x # bs)"
    and "\<forall>a \<in> set as. cmp a x = RIGHT" and "\<forall>b \<in> set bs. cmp b x = LEFT"
  shows "inorder (rbtree_remove t x cmp) = as @ bs"
proof -
  obtain c l0 l1 st where "remove_find cmp x t [] = Some (c, l0, l1, st)"
      "before st @ inorder l0 = as" "inorder l1 @ after st = bs"
    using remove_find_contents [where cmp = cmp and x = x and st = "[]", OF assms] by auto
  then show ?thesis
    by (simp add: rbtree_remove_def inorder_remove_found flip: append_assoc)
qed

lemma remove_find_absent: "x \<notin> set (inorder t) \<Longrightarrow> remove_find cmp x t st = None"
  by (induction cmp x t st rule: remove_find.induct) (auto split: dir.split)

lemma remove_absent [eina_shape]: "x \<notin> set (inorder t) \<Longrightarrow> rbtree_remove t x cmp = t"
  by (simp add: rbtree_remove_def remove_find_absent)

lemma lookup_Some:
  "eina_rbtree_inline_lookup t cmp = Some x \<Longrightarrow> x \<in> set (inorder t) \<and> cmp x = 0"
  by (induction t cmp rule: eina_rbtree_inline_lookup.induct) (auto simp: Let_def split: if_splits)

lemma lookup_None:
  assumes "inorder t = as @ ms @ bs"
    and "\<forall>a \<in> set as. 0 < cmp a" and "\<forall>m \<in> set ms. cmp m = 0" and "\<forall>b \<in> set bs. cmp b < 0"
    and "eina_rbtree_inline_lookup t cmp = None"
  shows "ms = []"
  using assms
proof (induction t cmp arbitrary: as bs rule: eina_rbtree_inline_lookup.induct)
  case (2 c x l r cmp)
  consider "cmp x < 0" | "0 < cmp x" | "cmp x = 0" by linarith
  then show ?case
  proof cases
    case 1
    then have "cut_at (\<lambda>q. 0 \<le> cmp q) (as @ ms) bs"
      using 2(3-5) by (auto simp: cut_at_def)
    with 1 2(2) obtain bs' where "inorder l = as @ ms @ bs'" "bs = bs' @ x # inorder r"
      using cut_at_split_right [of "inorder l" x "inorder r" "as @ ms" bs "\<lambda>q. 0 \<le> cmp q"] by auto
    with 1 2(1) [of "cmp x" as bs'] 2(3-6) show ?thesis by simp
  next
    case gt: 2
    then have "cut_at (\<lambda>q. 0 < cmp q) as (ms @ bs)"
      using 2(3-5) by (auto simp: cut_at_def)
    with gt 2(2) obtain as' where "inorder r = as' @ ms @ bs" "as = inorder l @ x # as'"
      using cut_at_split_left [of "inorder l" x "inorder r" as "ms @ bs" "\<lambda>q. 0 < cmp q"] by auto
    with gt 2(1) [of "cmp x" as' bs] 2(3-6) show ?thesis by simp
  next
    case 3
    with 2(6) show ?thesis by simp
  qed
qed simp

section \<open>Height, and the size of the link stack\<close>

fun rheight :: "'a rbtree \<Rightarrow> nat" where
  "rheight NIL = 0"
| "rheight (Node c x l r) = Suc (max (rheight l) (rheight r))"

lemma rheight_bh: "inv_bh t \<Longrightarrow> inv_red t \<Longrightarrow> rheight t \<le> 2 * bh t + (if is_red t then 1 else 0)"
  by (induction t) (auto split: if_splits)

lemma bh_rsize: "inv_bh t \<Longrightarrow> 2 ^ bh t \<le> Suc (rsize t)"
  by (induction t) auto

lemma rb_height_bound:
  assumes "rb_inv t" and "Suc (rsize t) < 2 ^ Suc n"
  shows "rheight t \<le> 2 * n"
proof -
  have "2 ^ bh t < (2::nat) ^ Suc n"
    using assms bh_rsize [of t] by (simp add: rb_inv_def)
  then have "bh t < Suc n"
    by (rule power_less_imp_less_exp [rotated]) simp
  with rheight_bh [of t] assms(1) show ?thesis
    by (simp add: rb_inv_def)
qed

lemma length_insert_path: "length (insert_path cmp x t st) \<le> length st + rheight t"
  by (induction cmp x t st rule: insert_path.induct) (auto split: dir.split)

lemma length_remove_find:
  "remove_find cmp x t st = Some (c, l0, l1, st') \<Longrightarrow>
     length st' + Suc (max (rheight l0) (rheight l1)) \<le> length st + rheight t"
  by (induction cmp x t st rule: remove_find.induct) (fastforce split: if_splits dir.splits)+

lemma length_find_predecessor:
  "find_predecessor c q l r st = (cq, x, rq, st') \<Longrightarrow> length st' \<le> length st + rheight l"
  by (induction c q l r st rule: find_predecessor.induct) fastforce+


section \<open>Properties\<close>

text \<open>
  A tree for the concrete instances below: seven numbers, black at the root, a red son
  on each side. Numbers are ordered from left to right.
\<close>

definition num_cmp :: "nat \<Rightarrow> nat \<Rightarrow> dir" where
  "num_cmp q x = (if x < q then LEFT else RIGHT)"

definition sample :: "nat rbtree" where
  "sample = Node BLACK 40
     (Node RED 20 (Node BLACK 10 NIL NIL) (Node BLACK 30 NIL NIL))
     (Node RED 60 (Node BLACK 50 NIL NIL) (Node BLACK 70 NIL NIL))"

text \<open>
  C1. \<open>eina_rbtree_inline_insert\<close> keeps the red-black invariant (equal black heights, no
  red node with a red son, black root), whatever the comparison callback answers.
\<close>

theorem insert_keeps_red_black:
  "rb_inv root \<Longrightarrow> rb_inv (eina_rbtree_inline_insert root node cmp)"
  by (auto simp: eina_rbtree_inline_insert_def rb_inv_insert split: option.split)

theorem insert_keeps_red_black_witness:
  "rb_inv sample \<and> rb_inv (eina_rbtree_inline_insert sample (Some 45) (Some num_cmp))"
proof -
  have "rb_inv sample" by (simp add: sample_def rb_inv_def)
  with insert_keeps_red_black [of sample "Some 45" "Some num_cmp"] show ?thesis by simp
qed

text \<open>
  C2. \<open>eina_rbtree_inline_remove\<close> keeps the red-black invariant, in the two-son case as
  well, where a black predecessor with a red son is detached and the loop starts at a
  red subtree.
\<close>

theorem remove_keeps_red_black:
  "rb_inv root \<Longrightarrow> rb_inv (eina_rbtree_inline_remove root node cmp)"
  by (auto simp: eina_rbtree_inline_remove_def rb_inv_remove split: option.split)

theorem remove_keeps_red_black_witness:
  "rb_inv sample \<and> rb_inv (eina_rbtree_inline_remove sample (Some 40) (Some num_cmp))"
proof -
  have "rb_inv sample" by (simp add: sample_def rb_inv_def)
  with remove_keeps_red_black [of sample "Some 40" "Some num_cmp"] show ?thesis by simp
qed

text \<open>
  C15. Insertion puts the node exactly where the comparison callback says: when the
  callback answers right for the nodes \<open>as\<close> and left for the nodes \<open>bs\<close>, the nodes of
  the new tree are \<open>as\<close>, the new node, \<open>bs\<close>, and no node is lost or duplicated by the
  rotations.
\<close>

theorem insert_places_node:
  assumes "inorder root = as @ bs"
    and "\<forall>a \<in> set as. cmp a x = RIGHT" and "\<forall>b \<in> set bs. cmp b x = LEFT"
  shows "inorder (eina_rbtree_inline_insert root (Some x) (Some cmp)) = as @ x # bs"
proof -
  have "cut_at (\<lambda>q. cmp q x = RIGHT) as bs"
    using assms(2,3) by (auto simp: cut_at_def)
  with assms(1) show ?thesis
    by (simp add: eina_rbtree_inline_insert_def inorder_insert)
qed

theorem insert_places_node_witness:
  "inorder sample = [10, 20, 30, 40] @ [50, 60, 70] \<and>
   inorder (eina_rbtree_inline_insert sample (Some 45) (Some num_cmp))
     = [10, 20, 30, 40] @ 45 # [50, 60, 70]"
proof -
  have "inorder sample = [10, 20, 30, 40] @ [50, 60, 70]"
    by (simp add: sample_def)
  with insert_places_node [of sample "[10, 20, 30, 40]" "[50, 60, 70]" num_cmp 45]
  show ?thesis by (simp add: num_cmp_def)
qed

text \<open>
  C16. Removal takes out the node asked for and nothing else: when the callback leads to
  the node (right for the nodes before it, left for those behind it), the nodes of the
  new tree are the others in their order.
\<close>

theorem remove_takes_node_out:
  assumes "inorder root = as @ x # bs" and "distinct (inorder root)"
    and "\<forall>a \<in> set as. cmp a x = RIGHT" and "\<forall>b \<in> set bs. cmp b x = LEFT"
  shows "inorder (eina_rbtree_inline_remove root (Some x) (Some cmp)) = as @ bs"
  using assms by (simp add: eina_rbtree_inline_remove_def inorder_remove)

theorem remove_takes_node_out_witness:
  "inorder sample = [10, 20, 30] @ 40 # [50, 60, 70] \<and>
   inorder (eina_rbtree_inline_remove sample (Some 40) (Some num_cmp)) = [10, 20, 30] @ [50, 60, 70]"
proof -
  have "inorder sample = [10, 20, 30] @ 40 # [50, 60, 70]"
    by (simp add: sample_def)
  with remove_takes_node_out [of sample "[10, 20, 30]" 40 "[50, 60, 70]" num_cmp]
  show ?thesis by (simp add: num_cmp_def)
qed

text \<open>
  C17. The 48 entries of the link stack in insertion and removal are enough for every
  tree of fewer than \<open>2 ^ 25 - 1\<close> nodes: neither the search for the leaf, nor the search
  for the node to remove, nor the search for its predecessor pushes a 49th link.
\<close>

theorem link_stack_fits:
  assumes "rb_inv root" and "rsize root < 2 ^ 25 - 1"
  shows "length (insert_path cmp x root []) \<le> 48 \<and>
    (case remove_find cmp x root [] of
       None \<Rightarrow> True
     | Some (c, l0, l1, st) \<Rightarrow> length st \<le> 48 \<and>
         (case l1 of
            NIL \<Rightarrow> True
          | Node c1 x1 l r \<Rightarrow>
              (case find_predecessor c1 x1 l r [] of
                 (cq, q, rq, path) \<Rightarrow> length path + Suc (length st) \<le> 48)))"
proof -
  have h: "rheight root \<le> 48"
    using rb_height_bound [OF assms(1), of 24] assms(2) by simp
  have "case l1 of NIL \<Rightarrow> True
      | Node c1 x1 l r \<Rightarrow> (case find_predecessor c1 x1 l r [] of
          (cq, q, rq, path) \<Rightarrow> length path + Suc (length st) \<le> 48)"
    if "remove_find cmp x root [] = Some (c, l0, l1, st)" for c l0 l1 st
    using length_remove_find [OF that] h
    by (auto split: rbtree.split dest!: length_find_predecessor)
  moreover have "length st \<le> 48" if "remove_find cmp x root [] = Some (c, l0, l1, st)" for c l0 l1 st
    using length_remove_find [OF that] h by simp
  ultimately show ?thesis
    using length_insert_path [of cmp x root "[]"] h by (auto split: option.split)
qed

theorem link_stack_fits_witness:
  "rb_inv sample \<and> length (insert_path num_cmp 45 sample []) \<le> 48"
proof -
  have "rb_inv sample" "rsize sample < 2 ^ 25 - 1"
    by (simp_all add: sample_def rb_inv_def)
  with link_stack_fits [of sample num_cmp 45] show ?thesis by simp
qed

text \<open>
  \<open>eina_rbtree_inline_lookup\<close> is complete and correct on an ordered tree: when the
  callback is positive on the nodes \<open>as\<close> on the left, zero on \<open>ms\<close> and negative on \<open>bs\<close>
  on the right, it returns a node of \<open>ms\<close>, and null only when there is none.
\<close>

theorem lookup_finds_match:
  assumes "inorder root = as @ ms @ bs"
    and "\<forall>a \<in> set as. 0 < cmp a" and "\<forall>m \<in> set ms. cmp m = 0" and "\<forall>b \<in> set bs. cmp b < 0"
  shows "case eina_rbtree_inline_lookup root cmp of None \<Rightarrow> ms = [] | Some x \<Rightarrow> x \<in> set ms"
proof (cases "eina_rbtree_inline_lookup root cmp")
  case None
  with lookup_None [OF assms None] show ?thesis by simp
next
  case (Some x)
  then have "x \<in> set (inorder root)" "cmp x = 0"
    using lookup_Some by fast+
  with Some assms show ?thesis by auto
qed

theorem lookup_finds_match_witness:
  "eina_rbtree_inline_lookup sample (\<lambda>q. 50 - int q) = Some 50"
  using lookup_finds_match [of sample "[10, 20, 30, 40]" "[50]" "[60, 70]" "\<lambda>q. 50 - int q"]
  by (simp add: sample_def)

end
