(* ===== verification/Eina_Rbtree_Iter.thy ===== *)
theory Eina_Rbtree_Iter
  imports Eina_Rbtree
begin

text \<open>
  The iterators of \<open>src/lib/shared/data/eina_rbtree.c\<close>: one function
  \<open>_eina_rbtree_iterator_next\<close> walks the tree with a stack of items and emits a node
  before, between or after its sons, as the iterator's mask says.
\<close>

section \<open>State\<close>

text \<open>
  \<open>struct _Eina_Iterator_Rbtree_List\<close>: a subtree, the son that is visited next, and a
  flag that the son just visited is done.
\<close>

record 'a item =
  it_tree :: "'a rbtree"
  it_dir :: dir
  it_up :: bool

text \<open>
  \<open>struct _Eina_Iterator_Rbtree\<close>. The top of the stack is the head of the list. The
  trash list only recycles items, so its length is all that matters of it.
\<close>

record 'a iterator =
  it_stack :: "'a item list"
  it_trash :: nat
  it_mask :: u8

definition PREFIX_MASK :: u8 where "PREFIX_MASK = 0x1"
definition INFIX_MASK :: u8 where "INFIX_MASK = 0x2"
definition POSTFIX_MASK :: u8 where "POSTFIX_MASK = 0x4"

text \<open>
  \<open>_eina_rbtree_iterator_list_new\<close>: a recycled item, or a new one when \<open>malloc\<close>
  succeeds (\<open>mem\<close>).
\<close>

definition list_new :: "bool \<Rightarrow> nat \<Rightarrow> 'a rbtree \<Rightarrow> ('a item \<times> nat) option" where
  "list_new mem trash tree =
     (if 0 < trash then Some (\<lparr>it_tree = tree, it_dir = RIGHT, it_up = False\<rparr>, trash - 1)
      else if mem then Some (\<lparr>it_tree = tree, it_dir = RIGHT, it_up = False\<rparr>, 0)
      else None)"

section \<open>Advancing\<close>

text \<open>
  The inner \<open>while\<close> loop pops the items that are done. It leaves with a node to emit
  (after its sons), with nothing left, or with an item whose second son is next.
\<close>

datatype 'a unwound =
    Emit "'a rbtree" "'a item list" nat
  | Exhausted nat
  | Resume "'a item" "'a item list" nat

fun unwind :: "u8 \<Rightarrow> 'a rbtree \<Rightarrow> 'a item \<Rightarrow> 'a item list \<Rightarrow> nat \<Rightarrow> 'a unwound" where
  "unwind m tree cur [] trash =
     (if it_dir cur = LEFT \<or> it_tree cur = NIL then
        (if tree \<noteq> NIL \<and> m AND POSTFIX_MASK = POSTFIX_MASK then Emit tree [] (Suc trash)
         else Exhausted (Suc trash))
      else Resume cur [] trash)"
| "unwind m tree cur (i # st) trash =
     (if it_dir cur = LEFT \<or> it_tree cur = NIL then
        (if tree \<noteq> NIL \<and> m AND POSTFIX_MASK = POSTFIX_MASK
         then Emit tree (i\<lparr>it_up := True\<rparr> # st) (Suc trash)
         else unwind m (it_tree i) i st (Suc trash))
      else Resume cur (i # st) trash)"

text \<open>What a call returns: \<open>*data\<close> when it returns true.\<close>

fun the_node :: "'a rbtree \<Rightarrow> 'a option" where
  "the_node NIL = None"
| "the_node (Node c x l r) = Some x"

text \<open>
  A measure of the work left, for the recursive call at the end of the C function: an
  item at the top that is not yet opened counts its whole subtree, an opened one only
  the sons not yet visited.
\<close>

fun work :: "'a rbtree \<Rightarrow> nat" where
  "work NIL = 1"
| "work (Node c x l r) = 4 + work l + work r"

definition work_open :: "'a item \<Rightarrow> nat" where
  "work_open i = (if it_tree i \<noteq> NIL \<and> it_dir i = RIGHT then 2 + work (son LEFT (it_tree i)) else 0)"

definition work_top :: "'a item \<Rightarrow> nat" where
  "work_top i =
     (if it_tree i = NIL then 1
      else if it_up i then 1 + work_open i
      else 1 + work_open i + work (son (it_dir i) (it_tree i)))"

fun work_stack :: "'a item list \<Rightarrow> nat" where
  "work_stack [] = 0"
| "work_stack (i # st) = work_top i + sum_list (map work_open st)"

lemma not_LEFT: "d \<noteq> LEFT \<longleftrightarrow> d = RIGHT"
  by (cases d) auto

lemma work_top_new: "work_top \<lparr>it_tree = t, it_dir = RIGHT, it_up = False\<rparr> \<le> work t"
  by (cases t) (auto simp: work_top_def work_open_def)

lemma work_open_LEFT [simp]: "work_open (i\<lparr>it_dir := LEFT, it_up := b\<rparr>) = 0"
  by (simp add: work_open_def)

lemma work_open_RIGHT: "it_dir i = RIGHT \<Longrightarrow> it_tree i \<noteq> NIL \<Longrightarrow>
    work_open i = 2 + work (son LEFT (it_tree i))"
  by (simp add: work_open_def)

lemma work_top_open: "work_open i < work_top i"
  by (auto simp: work_top_def work_open_def)

lemma unwind_Resume_work:
  "unwind m tree cur st trash = Resume i st' trash' \<Longrightarrow>
     it_dir i = RIGHT \<and> it_tree i \<noteq> NIL \<and>
     work_open i + sum_list (map work_open st') \<le> work_open cur + sum_list (map work_open st)"
  by (induction m tree cur st trash rule: unwind.induct)
    (auto simp: not_LEFT work_open_def split: if_splits)

text \<open>
  The rest of the function after the loop: open the next son of \<open>last\<close> (here \<open>cur\<close>), emit a node
  before its sons, or go on.
\<close>

definition open_son :: "bool \<Rightarrow> 'a item \<Rightarrow> 'a item list \<Rightarrow> nat \<Rightarrow> ('a item list \<times> nat) option" where
  "open_son mem cur st trash =
     map_option (\<lambda>(new, trash'). (new # cur # st, trash'))
       (list_new mem trash (son (it_dir cur) (it_tree cur)))"

lemma open_son_Some: "open_son mem cur st tr = Some (st', tr') \<Longrightarrow>
    st' = \<lparr>it_tree = son (it_dir cur) (it_tree cur), it_dir = RIGHT, it_up = False\<rparr> # cur # st"
  by (auto simp: open_son_def list_new_def split: if_splits)

abbreviation fresh :: "'a rbtree \<Rightarrow> 'a item" where
  "fresh t \<equiv> \<lparr>it_tree = t, it_dir = RIGHT, it_up = False\<rparr>"

lemma resume_work:
  assumes "unwind m (it_tree cur) cur st tr = Resume i st' tr'"
  shows "work_stack (fresh (son LEFT (it_tree i)) # i\<lparr>it_dir := LEFT, it_up := False\<rparr> # st')
    < work_stack (cur # st)"
  using unwind_Resume_work [OF assms] work_top_new [of "son LEFT (it_tree i)"] work_top_open [of cur]
  by (auto simp: work_open_RIGHT)

lemma open_work:
  assumes "\<not> (it_tree cur = NIL \<or> it_up cur)"
  shows "work_stack (fresh (son (it_dir cur) (it_tree cur)) # cur # st) < work_stack (cur # st)"
  using work_top_new [of "son (it_dir cur) (it_tree cur)"] assms by (simp add: work_top_def [of cur])

function iterator_next :: "bool \<Rightarrow> 'a iterator \<Rightarrow> 'a option \<times> 'a iterator" where
  "iterator_next mem it =
     (case it_stack it of
        [] \<Rightarrow> (None, it)
      | cur # st \<Rightarrow>
          (if it_tree cur = NIL \<or> it_up cur then
             (case unwind (it_mask it) (it_tree cur) cur st (it_trash it) of
                Emit t st' tr \<Rightarrow> (the_node t, it\<lparr>it_stack := st', it_trash := tr\<rparr>)
              | Exhausted tr \<Rightarrow> (None, it\<lparr>it_stack := [], it_trash := tr\<rparr>)
              | Resume i st' tr \<Rightarrow>
                  (let i' = i\<lparr>it_dir := LEFT, it_up := False\<rparr> in
                   if it_mask it AND INFIX_MASK = INFIX_MASK
                   then (the_node (it_tree i), it\<lparr>it_stack := i' # st', it_trash := tr\<rparr>)
                   else case open_son mem i' st' tr of
                          None \<Rightarrow> (None, it\<lparr>it_stack := i' # st', it_trash := tr\<rparr>)
                        | Some (st'', tr') \<Rightarrow>
                            iterator_next mem (it\<lparr>it_stack := st'', it_trash := tr'\<rparr>)))
           else
             (case open_son mem cur st (it_trash it) of
                None \<Rightarrow> (None, it)
              | Some (st', tr) \<Rightarrow>
                  (if it_dir cur = RIGHT \<and> it_mask it AND PREFIX_MASK = PREFIX_MASK
                   then (the_node (it_tree cur), it\<lparr>it_stack := st', it_trash := tr\<rparr>)
                   else iterator_next mem (it\<lparr>it_stack := st', it_trash := tr\<rparr>)))))"
  by pat_completeness auto
termination
proof (relation "measure (\<lambda>(mem, it). work_stack (it_stack it))", goal_cases)
  case 1
  show ?case by simp
next
  case (2 mem it cur st i st' tr i' p st'' tr')
  then show ?case
    using resume_work [of "it_mask it" cur st "it_trash it" i st' tr]
      open_son_Some [of mem i' st' tr st'' tr'] by simp
next
  case (3 mem it cur st p st' tr)
  then show ?case
    using open_work [of cur st] open_son_Some [of mem cur st "it_trash it" st' tr] by simp
qed

declare iterator_next.simps [simp del]

section \<open>Building and freeing\<close>

text \<open>
  \<open>_eina_rbtree_iterator_free\<close>: a finished iterator goes to the pool
  \<open>iterator_trash\<close>, its stack emptied, while the pool has fewer than seven; above that
  it is freed (\<open>_eina_rbtree_iterator_forced_free\<close>).
\<close>

definition iterator_free :: "'a iterator list \<Rightarrow> 'a iterator \<Rightarrow> 'a iterator list" where
  "iterator_free pool it = (if 7 \<le> length pool then pool else it\<lparr>it_stack := []\<rparr> # pool)"

definition iterator_build ::
  "bool \<Rightarrow> 'a iterator list \<Rightarrow> 'a rbtree \<Rightarrow> u8 \<Rightarrow> 'a iterator option \<times> 'a iterator list" where
  "iterator_build mem pool root msk =
     (case (case pool of
              it # p \<Rightarrow> Some (it, p)
            | [] \<Rightarrow> if mem then Some (\<lparr>it_stack = [], it_trash = 0, it_mask = 0\<rparr>, []) else None) of
        None \<Rightarrow> (None, pool)
      | Some (it, p) \<Rightarrow>
          (case list_new mem (it_trash it) root of
             None \<Rightarrow> (None, iterator_free p it)
           | Some (first, tr) \<Rightarrow>
               (Some (it\<lparr>it_stack := first # it_stack it, it_trash := tr, it_mask := msk\<rparr>), p)))"

definition eina_rbtree_iterator_prefix where
  "eina_rbtree_iterator_prefix mem pool root = iterator_build mem pool root PREFIX_MASK"

definition eina_rbtree_iterator_infix where
  "eina_rbtree_iterator_infix mem pool root = iterator_build mem pool root INFIX_MASK"

definition eina_rbtree_iterator_postfix where
  "eina_rbtree_iterator_postfix mem pool root = iterator_build mem pool root POSTFIX_MASK"

text \<open>The loop of a client: up to \<open>n\<close> calls of \<open>eina_iterator_next\<close>.\<close>

fun drain :: "nat \<Rightarrow> 'a iterator \<Rightarrow> 'a list" where
  "drain 0 it = []"
| "drain (Suc n) it =
     (case iterator_next True it of (None, _) \<Rightarrow> [] | (Some x, it') \<Rightarrow> x # drain n it')"

section \<open>What an iterator still has to emit\<close>

definition pre :: "u8 \<Rightarrow> 'a \<Rightarrow> 'a list" where
  "pre m x = (if m AND PREFIX_MASK = PREFIX_MASK then [x] else [])"

definition mid :: "u8 \<Rightarrow> 'a \<Rightarrow> 'a list" where
  "mid m x = (if m AND INFIX_MASK = INFIX_MASK then [x] else [])"

definition post :: "u8 \<Rightarrow> 'a \<Rightarrow> 'a list" where
  "post m x = (if m AND POSTFIX_MASK = POSTFIX_MASK then [x] else [])"

text \<open>The right son is visited first.\<close>

fun walk :: "u8 \<Rightarrow> 'a rbtree \<Rightarrow> 'a list" where
  "walk m NIL = []"
| "walk m (Node c x l r) = pre m x @ walk m r @ mid m x @ walk m l @ post m x"

fun rem_sons :: "u8 \<Rightarrow> dir \<Rightarrow> 'a rbtree \<Rightarrow> 'a list" where
  "rem_sons m d NIL = []"
| "rem_sons m RIGHT (Node c x l r) = mid m x @ walk m l @ post m x"
| "rem_sons m LEFT (Node c x l r) = post m x"

definition rem_open :: "u8 \<Rightarrow> 'a item \<Rightarrow> 'a list" where
  "rem_open m i = rem_sons m (it_dir i) (it_tree i)"

fun rem_new :: "u8 \<Rightarrow> dir \<Rightarrow> 'a rbtree \<Rightarrow> 'a list" where
  "rem_new m d NIL = []"
| "rem_new m RIGHT (Node c x l r) = walk m (Node c x l r)"
| "rem_new m LEFT (Node c x l r) = walk m l @ post m x"

definition rem_top :: "u8 \<Rightarrow> 'a item \<Rightarrow> 'a list" where
  "rem_top m i = (if it_up i then rem_open m i else rem_new m (it_dir i) (it_tree i))"

fun rem_stack :: "u8 \<Rightarrow> 'a item list \<Rightarrow> 'a list" where
  "rem_stack m [] = []"
| "rem_stack m (i # st) = rem_top m i @ concat (map (rem_open m) st)"

definition remaining :: "'a iterator \<Rightarrow> 'a list" where
  "remaining it = rem_stack (it_mask it) (it_stack it)"

text \<open>Items below the top belong to nodes that have been opened.\<close>

definition iter_inv :: "'a iterator \<Rightarrow> bool" where
  "iter_inv it \<longleftrightarrow> (\<forall>i \<in> set (tl (it_stack it)). it_tree i \<noteq> NIL)"

lemma rem_new_RIGHT [simp]: "rem_new m RIGHT t = walk m t"
  by (cases t) auto

lemma rem_top_up [simp]: "rem_top m (i\<lparr>it_up := True\<rparr>) = rem_open m i"
  by (simp add: rem_top_def rem_open_def)

lemma unwind_spec:
  assumes "\<forall>i \<in> set st. it_tree i \<noteq> NIL" and "tree = it_tree cur"
  shows "case unwind m tree cur st tr of
      Emit t st' tr' \<Rightarrow> (\<exists>x. the_node t = Some x \<and>
         rem_open m cur @ concat (map (rem_open m) st) = x # rem_stack m st' \<and>
         (\<forall>i \<in> set (tl st'). it_tree i \<noteq> NIL))
    | Exhausted tr' \<Rightarrow> rem_open m cur @ concat (map (rem_open m) st) = []
    | Resume i st' tr' \<Rightarrow> it_dir i = RIGHT \<and> it_tree i \<noteq> NIL \<and>
         rem_open m cur @ concat (map (rem_open m) st) = rem_open m i @ concat (map (rem_open m) st') \<and>
         (\<forall>i \<in> set st'. it_tree i \<noteq> NIL)"
  using assms
proof (induction m tree cur st tr rule: unwind.induct)
  case (1 m tree cur tr)
  then show ?case
    by (cases "it_tree cur"; cases "it_dir cur") (auto simp: rem_open_def post_def)
next
  case (2 m tree cur i st tr)
  show ?case
  proof (cases "it_dir cur = LEFT \<or> it_tree cur = NIL")
    case False
    with 2 show ?thesis by (auto simp: not_LEFT)
  next
    case fin: True
    show ?thesis
    proof (cases "tree \<noteq> NIL \<and> m AND POSTFIX_MASK = POSTFIX_MASK")
      case True
      with fin 2 show ?thesis
        by (cases "it_tree cur") (auto simp: rem_open_def post_def)
    next
      case False
      with fin 2(3) have "rem_open m cur = []"
        by (cases "it_tree cur") (auto simp: rem_open_def post_def)
      with fin False 2 show ?thesis
        by (cases "unwind m (it_tree i) i st (Suc tr)") auto
    qed
  qed
qed


lemma open_son_mem: "open_son True cur st tr \<noteq> None"
  by (auto simp: open_son_def list_new_def)

lemma rem_stack_open:
  "rem_stack m (\<lparr>it_tree = t, it_dir = RIGHT, it_up = False\<rparr> # cur # st) =
     rem_new m RIGHT t @ rem_open m cur @ concat (map (rem_open m) st)"
  by (simp add: rem_top_def)

text \<open>One call emits the next node, or reports the end when there is none.\<close>

definition emits :: "'a list \<Rightarrow> 'a option \<Rightarrow> 'a list \<Rightarrow> bool" where
  "emits xs r ys \<longleftrightarrow> (case xs of [] \<Rightarrow> r = None \<and> ys = [] | x # xs' \<Rightarrow> r = Some x \<and> ys = xs')"

definition next_ok :: "'a iterator \<Rightarrow> bool" where
  "next_ok it \<longleftrightarrow> iter_inv (snd (iterator_next True it)) \<and>
    it_mask (snd (iterator_next True it)) = it_mask it \<and>
    emits (remaining it) (fst (iterator_next True it)) (remaining (snd (iterator_next True it)))"

text \<open>A call that neither emits nor ends goes on as a call on a smaller stack.\<close>

definition goes_on :: "'a iterator \<Rightarrow> 'a iterator \<Rightarrow> bool" where
  "goes_on it it' \<longleftrightarrow> iterator_next True it = iterator_next True it' \<and> iter_inv it' \<and>
    it_mask it' = it_mask it \<and> remaining it' = remaining it \<and>
    work_stack (it_stack it') < work_stack (it_stack it)"

lemma goes_on_next_ok: "goes_on it it' \<Longrightarrow> next_ok it' \<Longrightarrow> next_ok it"
  by (simp add: goes_on_def next_ok_def)

lemma next_resume:
  assumes stack: "it_stack it = cur # st" and fin: "it_tree cur = NIL \<or> it_up cur"
    and res: "unwind (it_mask it) (it_tree cur) cur st (it_trash it) = Resume i st' tr"
    and i: "it_dir i = RIGHT" "it_tree i = Node c x l r" and st': "\<forall>i \<in> set st'. it_tree i \<noteq> NIL"
    and rem: "remaining it = rem_open (it_mask it) i @ concat (map (rem_open (it_mask it)) st')"
  shows "next_ok it \<or> (\<exists>it'. goes_on it it')"
proof (cases "it_mask it AND INFIX_MASK = INFIX_MASK")
  case True
  with assms have "next_ok it"
    by (simp add: next_ok_def iterator_next.simps [of _ it] remaining_def iter_inv_def emits_def
        mid_def rem_open_def rem_top_def)
  then show ?thesis ..
next
  case False
  let ?i = "i\<lparr>it_dir := LEFT, it_up := False\<rparr>"
  obtain st'' tr' where o: "open_son True ?i st' tr = Some (st'', tr')"
    using open_son_mem by fastforce
  define it' where "it' = it\<lparr>it_stack := st'', it_trash := tr'\<rparr>"
  have "iterator_next True it = iterator_next True it'"
    using assms False o by (simp add: iterator_next.simps [of _ it] it'_def)
  moreover have "iter_inv it'" "remaining it' = remaining it"
    using open_son_Some [OF o] False i st' rem
    by (auto simp: it'_def remaining_def mid_def iter_inv_def rem_top_def rem_open_def)
  ultimately have "goes_on it it'"
    using resume_work [OF res] open_son_Some [OF o] stack by (simp add: goes_on_def it'_def)
  then show ?thesis by blast
qed

lemma next_unwind:
  assumes stack: "it_stack it = cur # st" and fin: "it_tree cur = NIL \<or> it_up cur"
    and inv: "iter_inv it"
  shows "next_ok it \<or> (\<exists>it'. goes_on it it')"
proof -
  have st: "\<forall>i \<in> set st. it_tree i \<noteq> NIL"
    using stack inv by (simp add: iter_inv_def)
  have rem: "remaining it = rem_open (it_mask it) cur @ concat (map (rem_open (it_mask it)) st)"
    using fin stack by (auto simp: remaining_def rem_top_def rem_open_def)
  note u = unwind_spec [OF st refl, of "it_mask it" cur "it_trash it"]
  show ?thesis
  proof (cases "unwind (it_mask it) (it_tree cur) cur st (it_trash it)")
    case (Emit t st' tr)
    with u rem fin stack have "next_ok it"
      by (auto simp: next_ok_def iterator_next.simps [of _ it] remaining_def iter_inv_def emits_def)
    then show ?thesis ..
  next
    case (Exhausted tr)
    with u rem have "remaining it = []" by simp
    with Exhausted fin stack have "next_ok it"
      by (simp add: next_ok_def iterator_next.simps [of _ it]
          remaining_def [of "_\<lparr>it_stack := [], it_trash := _\<rparr>"] iter_inv_def emits_def)
    then show ?thesis ..
  next
    case (Resume i st' tr)
    with u have i: "it_dir i = RIGHT" "it_tree i \<noteq> NIL" "\<forall>i \<in> set st'. it_tree i \<noteq> NIL"
      and "remaining it = rem_open (it_mask it) i @ concat (map (rem_open (it_mask it)) st')"
      using rem by auto
    moreover from i(2) obtain c x l r where "it_tree i = Node c x l r"
      by (cases "it_tree i") auto
    ultimately show ?thesis
      using next_resume [OF stack fin Resume] by blast
  qed
qed

lemma next_open:
  assumes stack: "it_stack it = cur # st" and fin: "\<not> (it_tree cur = NIL \<or> it_up cur)"
    and inv: "iter_inv it"
  shows "next_ok it \<or> (\<exists>it'. goes_on it it')"
proof -
  obtain st' tr where o: "open_son True cur st (it_trash it) = Some (st', tr)"
    using open_son_mem by fastforce
  from fin obtain c x l r where t: "it_tree cur = Node c x l r"
    by (cases "it_tree cur") auto
  define it' where "it' = it\<lparr>it_stack := st', it_trash := tr\<rparr>"
  have inv': "iter_inv it'" and
    rem: "remaining it = (if it_dir cur = RIGHT then pre (it_mask it) x else []) @ remaining it'"
    using open_son_Some [OF o] stack fin t inv
    by (cases "it_dir cur"; auto simp: it'_def iter_inv_def remaining_def rem_top_def rem_open_def)+
  show ?thesis
  proof (cases "it_dir cur = RIGHT \<and> it_mask it AND PREFIX_MASK = PREFIX_MASK")
    case True
    with fin stack o t rem inv' have "next_ok it"
      by (simp add: next_ok_def iterator_next.simps [of _ it] it'_def pre_def emits_def)
    then show ?thesis ..
  next
    case False
    then have "iterator_next True it = iterator_next True it'" "remaining it = remaining it'"
      using fin stack o rem by (auto simp: iterator_next.simps [of _ it] it'_def pre_def)
    then have "goes_on it it'"
      using open_work [OF fin] open_son_Some [OF o] stack inv' by (simp add: goes_on_def it'_def)
    then show ?thesis by blast
  qed
qed

lemma iterator_next_ok: "iter_inv it \<Longrightarrow> next_ok it"
proof (induction "work_stack (it_stack it)" arbitrary: it rule: less_induct)
  case less
  consider "it_stack it = []"
    | cur st where "it_stack it = cur # st" "it_tree cur = NIL \<or> it_up cur"
    | cur st where "it_stack it = cur # st" "\<not> (it_tree cur = NIL \<or> it_up cur)"
    by (cases "it_stack it") blast+
  then have "next_ok it \<or> (\<exists>it'. goes_on it it')"
  proof cases
    case 1
    then have "next_ok it"
      using less.prems by (simp add: next_ok_def iterator_next.simps [of _ it] remaining_def emits_def)
    then show ?thesis ..
  qed (use less.prems next_unwind next_open in blast)+
  then show ?case
    using less.hyps goes_on_next_ok by (auto simp: goes_on_def)
qed

lemma iterator_next_spec:
  assumes "iter_inv it"
  shows "iter_inv (snd (iterator_next True it)) \<and>
    it_mask (snd (iterator_next True it)) = it_mask it \<and>
    emits (remaining it) (fst (iterator_next True it)) (remaining (snd (iterator_next True it)))"
  using iterator_next_ok [OF assms] by (simp add: next_ok_def)

lemma drain_remaining: "iter_inv it \<Longrightarrow> drain n it = take n (remaining it)"
proof (induction n arbitrary: it)
  case (Suc n)
  note next_it = iterator_next_spec [OF Suc.prems]
  show ?case
  proof (cases "remaining it")
    case Nil
    with next_it show ?thesis
      by (simp add: emits_def case_prod_unfold)
  next
    case (Cons x xs)
    with next_it Suc.IH [of "snd (iterator_next True it)"] show ?thesis
      by (simp add: emits_def case_prod_unfold)
  qed
qed simp

section \<open>Iterators that the library builds\<close>

text \<open>Pooled iterators have empty stacks, so a recycled one starts afresh.\<close>

definition pool_inv :: "'a iterator list \<Rightarrow> bool" where
  "pool_inv pool \<longleftrightarrow> length pool \<le> 7 \<and> (\<forall>it \<in> set pool. it_stack it = [])"

lemma pool_inv_free: "pool_inv pool \<Longrightarrow> pool_inv (iterator_free pool it)"
  by (auto simp: pool_inv_def iterator_free_def)

lemma iterator_build_spec:
  assumes "pool_inv pool"
  shows "\<exists>it pool'. iterator_build True pool root m = (Some it, pool') \<and> pool_inv pool' \<and>
    iter_inv it \<and> remaining it = walk m root"
proof (cases pool)
  case Nil
  then show ?thesis
    by (auto simp: iterator_build_def list_new_def pool_inv_def iter_inv_def remaining_def rem_top_def)
next
  case (Cons it p)
  with assms show ?thesis
    by (auto simp: iterator_build_def list_new_def pool_inv_def iter_inv_def remaining_def rem_top_def)
qed

fun preorder_r :: "'a rbtree \<Rightarrow> 'a list" where
  "preorder_r NIL = []"
| "preorder_r (Node c x l r) = x # preorder_r r @ preorder_r l"

fun postorder_r :: "'a rbtree \<Rightarrow> 'a list" where
  "postorder_r NIL = []"
| "postorder_r (Node c x l r) = postorder_r r @ postorder_r l @ [x]"

lemma walk_masks:
  "walk PREFIX_MASK t = preorder_r t"
  "walk INFIX_MASK t = rev (inorder t)"
  "walk POSTFIX_MASK t = postorder_r t"
  by (induction t) (auto simp: pre_def mid_def post_def PREFIX_MASK_def INFIX_MASK_def POSTFIX_MASK_def)

lemma length_orders [simp]: "length (preorder_r t) = rsize t" "length (postorder_r t) = rsize t"
  by (induction t) auto

lemma set_orders [simp]: "set (preorder_r t) = set (inorder t)" "set (postorder_r t) = set (inorder t)"
  by (induction t) auto


section \<open>Properties\<close>

text \<open>
  C18. Each of the three iterators visits every node exactly once and ends after the last:
  the infix iterator from the far right to the far left, the prefix iterator every node
  before its sons, the postfix iterator every node behind them. A recycled iterator from
  the pool behaves like a new one.
\<close>

theorem iterators_visit_all:
  assumes "pool_inv pool"
  shows "\<exists>pre_it in_it post_it pool'.
    eina_rbtree_iterator_prefix True pool root = (Some pre_it, pool') \<and>
    eina_rbtree_iterator_infix True pool root = (Some in_it, pool') \<and>
    eina_rbtree_iterator_postfix True pool root = (Some post_it, pool') \<and> pool_inv pool' \<and>
    drain n pre_it = take n (preorder_r root) \<and>
    drain n in_it = take n (rev (inorder root)) \<and>
    drain n post_it = take n (postorder_r root)"
proof -
  have "snd (iterator_build True pool root m) = snd (iterator_build True pool root m')" for m m'
    by (auto simp: iterator_build_def list_new_def split: list.split option.split)
  then show ?thesis
    using iterator_build_spec [OF assms, of root PREFIX_MASK]
      iterator_build_spec [OF assms, of root INFIX_MASK]
      iterator_build_spec [OF assms, of root POSTFIX_MASK]
    unfolding eina_rbtree_iterator_prefix_def eina_rbtree_iterator_infix_def
      eina_rbtree_iterator_postfix_def
    by (metis drain_remaining snd_conv walk_masks)
qed

theorem iterators_visit_all_witness:
  "\<exists>it pool'. eina_rbtree_iterator_infix True [] sample = (Some it, pool') \<and>
     drain 100 it = [70, 60, 50, 40, 30, 20, 10]"
proof -
  have "pool_inv []" by (simp add: pool_inv_def)
  from iterators_visit_all [OF this, of sample 100] show ?thesis
    by (auto simp: sample_def)
qed

end
