(* ===== verification/Rb_Ordered.thy ===== *)
theory Rb_Ordered
  imports Eina_Rbtree
begin

text \<open>
  What a client of the tree gets when its comparison callback orders the nodes: the
  interface between \<open>eina_rbtree.c\<close> and the containers built on it. The comparison is
  an integer \<open>f a b\<close>, negative when \<open>b\<close> belongs on the left of \<open>a\<close>; nodes that are
  stored satisfy \<open>ok\<close>.
\<close>

definition rb_dcmp :: "('a \<Rightarrow> 'a \<Rightarrow> int) \<Rightarrow> 'a \<Rightarrow> 'a \<Rightarrow> dir" where
  "rb_dcmp f l r = (if f l r < 0 then LEFT else RIGHT)"

text \<open>A red-black tree whose nodes descend strictly from left to right.\<close>

definition rb_desc :: "('a \<Rightarrow> 'a \<Rightarrow> int) \<Rightarrow> ('a \<Rightarrow> bool) \<Rightarrow> 'a rbtree \<Rightarrow> bool" where
  "rb_desc f ok t \<longleftrightarrow>
     rb_inv t \<and> (\<forall>x \<in> set (inorder t). ok x) \<and> sorted_wrt (\<lambda>a b. 0 < f a b) (inorder t)"

lemma rb_desc_NIL [simp]: "rb_desc f ok NIL"
  by (simp add: rb_desc_def rb_inv_def)

locale rb_ordered =
  fixes f :: "'a \<Rightarrow> 'a \<Rightarrow> int" and ok :: "'a \<Rightarrow> bool"
  assumes f_neg: "ok a \<Longrightarrow> ok b \<Longrightarrow> f a b < 0 \<longleftrightarrow> 0 < f b a"
    and f_trans: "ok a \<Longrightarrow> ok b \<Longrightarrow> ok c \<Longrightarrow> 0 < f a b \<Longrightarrow> 0 < f b c \<Longrightarrow> 0 < f a c"
    and f_cong: "ok a \<Longrightarrow> ok b \<Longrightarrow> ok c \<Longrightarrow> f a b = 0 \<Longrightarrow> 0 < f a c \<longleftrightarrow> 0 < f b c"
begin

abbreviation dcmp :: "'a \<Rightarrow> 'a \<Rightarrow> dir" where
  "dcmp \<equiv> rb_dcmp f"

abbreviation desc :: "'a rbtree \<Rightarrow> bool" where
  "desc \<equiv> rb_desc f ok"

lemma f_refl: "ok a \<Longrightarrow> f a a = 0"
  using f_neg [of a a] by linarith

lemma desc_distinct: "desc t \<Longrightarrow> distinct (inorder t)"
proof -
  have "\<forall>x \<in> set xs. ok x \<Longrightarrow> sorted_wrt (\<lambda>a b. 0 < f a b) xs \<Longrightarrow> distinct xs" for xs
    by (induction xs) (auto simp: f_refl)
  then show "desc t \<Longrightarrow> distinct (inorder t)"
    by (simp add: rb_desc_def)
qed

text \<open>A node that compares unequal to all others cuts the sorted contents in two.\<close>

lemma cut_of_desc:
  assumes "\<forall>y \<in> set xs. ok y \<and> f y x \<noteq> 0" and "ok x" and "sorted_wrt (\<lambda>a b. 0 < f a b) xs"
  obtains as bs where "xs = as @ bs" and "\<forall>a \<in> set as. 0 < f a x" and "\<forall>b \<in> set bs. f b x < 0"
  using assms
proof (induction xs arbitrary: thesis)
  case Nil
  then show ?case by simp
next
  case (Cons y ys)
  obtain as bs where ys: "ys = as @ bs" "\<forall>a \<in> set as. 0 < f a x" "\<forall>b \<in> set bs. f b x < 0"
    using Cons.IH Cons.prems(2-4) by auto
  show ?case
  proof (cases "0 < f y x")
    case True
    with ys show ?thesis
      using Cons.prems(1) [of "y # as" bs] by simp
  next
    case False
    then have neg: "f y x < 0"
      using Cons.prems(2) by (simp add: less_le)
    have "\<forall>z \<in> set ys. f z x < 0"
    proof
      fix z assume z: "z \<in> set ys"
      then have "0 < f y z" and okz: "ok z" "ok y" "f z x \<noteq> 0"
        using Cons.prems(2,4) by auto
      have "\<not> 0 < f z x"
        using f_trans [OF okz(2,1) Cons.prems(3) \<open>0 < f y z\<close>] neg by auto
      with okz(3) show "f z x < 0" by linarith
    qed
    with neg show ?thesis
      using Cons.prems(1) [of "[]" "y # ys"] by simp
  qed
qed

lemma desc_insert:
  assumes "desc t" and "ok x" and "\<forall>y \<in> set (inorder t). f y x \<noteq> 0"
  shows "desc (rbtree_insert t x dcmp)"
    and "set (inorder (rbtree_insert t x dcmp)) = insert x (set (inorder t))"
    and "rsize (rbtree_insert t x dcmp) = Suc (rsize t)"
proof -
  obtain as bs where t: "inorder t = as @ bs" and a: "\<forall>a \<in> set as. 0 < f a x"
      and b: "\<forall>b \<in> set bs. f b x < 0"
    using cut_of_desc [of "inorder t" x] assms by (auto simp: rb_desc_def)
  have "cut_at (\<lambda>q. dcmp q x = RIGHT) as bs"
    using a b by (auto simp: cut_at_def rb_dcmp_def)
  with t have i: "inorder (rbtree_insert t x dcmp) = as @ x # bs"
    by (intro inorder_insert)
  have "\<forall>b \<in> set bs. 0 < f x b"
    using b f_neg assms(1,2) t by (auto simp: rb_desc_def)
  with i t a assms show "desc (rbtree_insert t x dcmp)"
    by (auto simp: rb_desc_def rb_inv_insert sorted_wrt_append)
  from i t show "set (inorder (rbtree_insert t x dcmp)) = insert x (set (inorder t))"
    by auto
  have "length (inorder (rbtree_insert t x dcmp)) = Suc (length (inorder t))"
    using i t by (simp del: length_inorder)
  then show "rsize (rbtree_insert t x dcmp) = Suc (rsize t)"
    by simp
qed

lemma desc_remove:
  assumes "desc t" and "x \<in> set (inorder t)"
  shows "desc (rbtree_remove t x dcmp)"
    and "set (inorder (rbtree_remove t x dcmp)) = set (inorder t) - {x}"
    and "Suc (rsize (rbtree_remove t x dcmp)) = rsize t"
proof -
  obtain as bs where t: "inorder t = as @ x # bs"
    using assms(2) by (auto simp: in_set_conv_decomp)
  have d: "distinct (as @ x # bs)"
    using desc_distinct [OF assms(1)] t by simp
  have "\<forall>a \<in> set as. 0 < f a x" "\<forall>b \<in> set bs. f b x < 0"
    using assms(1) t by (auto simp: rb_desc_def sorted_wrt_append f_neg)
  then have "\<forall>a \<in> set as. dcmp a x = RIGHT" "\<forall>b \<in> set bs. dcmp b x = LEFT"
    by (auto simp: rb_dcmp_def)
  with t d have i: "inorder (rbtree_remove t x dcmp) = as @ bs"
    by (intro inorder_remove)
  with t assms(1) show "desc (rbtree_remove t x dcmp)"
    by (auto simp: rb_desc_def rb_inv_remove sorted_wrt_append)
  from i t d show "set (inorder (rbtree_remove t x dcmp)) = set (inorder t) - {x}"
    by auto
  have "Suc (length (inorder (rbtree_remove t x dcmp))) = length (inorder t)"
    using i t by (simp del: length_inorder)
  then show "Suc (rsize (rbtree_remove t x dcmp)) = rsize t"
    by simp
qed

text \<open>
  A search for a key \<open>k\<close>, through any callback \<open>g\<close> that compares the stored nodes with
  it, finds exactly the node that is equal to it.
\<close>

lemma desc_eq_unique:
  assumes "desc t" and "ok k" and "x \<in> set (inorder t)" "f x k = 0" and "y \<in> set (inorder t)" "f y k = 0"
  shows "x = y"
proof -
  have "ok x" "ok y"
    using assms by (auto simp: rb_desc_def)
  then have "\<not> 0 < f x y" "\<not> 0 < f y x"
    using f_cong [of x k y] f_cong [of y k x] f_neg [of x k] f_neg [of y k] assms(2,4,6) by auto
  moreover have "x = y \<or> 0 < f x y \<or> 0 < f y x"
    using assms(1,3,5) sorted_wrt_iff_nth_less [of "\<lambda>a b. 0 < f a b" "inorder t"]
    unfolding rb_desc_def in_set_conv_nth by (metis linorder_neqE_nat)
  ultimately show ?thesis by auto
qed

lemma desc_lookup_None:
  assumes "desc t" and "ok k" and "\<forall>y \<in> set (inorder t). g y = f y k"
    and "eina_rbtree_inline_lookup t g = None" and "x \<in> set (inorder t)"
  shows "f x k \<noteq> 0"
proof
  assume eq: "f x k = 0"
  obtain as bs where t: "inorder t = as @ [x] @ bs"
    using assms(5) by (auto simp: in_set_conv_decomp)
  have ok: "ok x" "\<forall>y \<in> set as. ok y" "\<forall>y \<in> set bs. ok y"
    and srt: "\<forall>a \<in> set as. 0 < f a x" "\<forall>b \<in> set bs. 0 < f x b"
    using assms(1) t by (auto simp: rb_desc_def sorted_wrt_append)
  have "0 < f a k" if "a \<in> set as" for a
  proof -
    have a: "ok a" "0 < f a x"
      using ok srt that by auto
    then have "\<not> f a k < 0"
      using f_cong [of x k a] f_neg [of a k] f_neg [of a x] ok(1) assms(2) eq by auto
    moreover have "f a k \<noteq> 0"
      using f_cong [of a k x] f_neg [of x k] a ok(1) assms(2) eq by auto
    ultimately show ?thesis by linarith
  qed
  moreover have "f b k < 0" if "b \<in> set bs" for b
    using f_cong [of x k b] f_neg [of b k] ok srt that assms(2) eq by blast
  ultimately have "[x] = []"
    using lookup_None [OF t, of g] assms(3,4) t eq by auto
  then show False by simp
qed

lemma desc_lookup:
  assumes "desc t" and "ok k" and "\<forall>y \<in> set (inorder t). g y = f y k"
  shows "eina_rbtree_inline_lookup t g = Some x \<longleftrightarrow> x \<in> set (inorder t) \<and> f x k = 0"
proof
  assume "eina_rbtree_inline_lookup t g = Some x"
  from lookup_Some [OF this] assms(3) show "x \<in> set (inorder t) \<and> f x k = 0"
    by auto
next
  assume x: "x \<in> set (inorder t) \<and> f x k = 0"
  with desc_lookup_None [OF assms, of x] obtain y where y: "eina_rbtree_inline_lookup t g = Some y"
    by fastforce
  from lookup_Some [OF this] assms(3) have "y \<in> set (inorder t)" "f y k = 0"
    by auto
  with x desc_eq_unique [OF assms(1,2)] have "x = y" by blast
  with y show "eina_rbtree_inline_lookup t g = Some x" by simp
qed

end

end
