(* ===== verification/Eina_Hash.thy ===== *)
theory Eina_Hash
  imports Eina_Rbtree_Iter Rb_Ordered
begin

text \<open>
  The hash table of \<open>src/lib/shared/data/eina_hash.c\<close>: an array of buckets, each a
  red-black tree of heads ordered by further bits of the hash value, each head with a
  red-black tree of elements ordered by key. The null checks on the table pointer itself
  and the magic-number checks on it are left out: every operation here is called on an
  existing table.
\<close>

section \<open>Data\<close>

text \<open>
  \<open>struct _Eina_Hash_Element\<close> with its \<open>Eina_Hash_Tuple\<close>. \<open>el_ptr\<close> is the address
  \<open>malloc\<close> returned, which tells elements with equal keys apart.
\<close>

record ('k, 'd) element =
  el_ptr :: nat
  el_key :: 'k
  el_klen :: int
  el_data :: 'd

text \<open>\<open>struct _Eina_Hash_Head\<close>.\<close>

record ('k, 'd) head =
  hd_hash :: u32
  hd_tree :: "('k, 'd) element rbtree"

text \<open>
  \<open>struct _Eina_Hash\<close>. A null \<open>key_length_cb\<close> or \<open>data_free_cb\<close> is \<open>None\<close> or
  \<open>False\<close>. The last three fields stand for the allocator and the free callback: the
  next address it hands out, the addresses of the elements given back with \<open>free\<close>, and
  the data the callback was called on.
\<close>

record ('k, 'd) hash =
  key_length_cb :: "('k \<Rightarrow> u32) option"
  key_cmp_cb :: "'k \<Rightarrow> int \<Rightarrow> 'k \<Rightarrow> int \<Rightarrow> int"
  key_hash_cb :: "'k \<Rightarrow> int \<Rightarrow> u32"
  data_free_cb :: bool
  buckets :: "('k, 'd) head rbtree list option"
  size_of :: u32
  mask_of :: u32
  population :: u32
  buckets_power_size :: nat
  next_ptr :: nat
  freed :: "nat list"
  freed_data :: "'d list"

text \<open>Which of the allocations of an insertion succeed.\<close>

record mem =
  mem_buckets :: bool
  mem_head :: bool
  mem_element :: bool

definition mem_all :: mem where
  "mem_all = \<lparr>mem_buckets = True, mem_head = True, mem_element = True\<rparr>"

definition EINA_HASH_RBTREE_MASK :: u32 where
  "EINA_HASH_RBTREE_MASK = 0xFFFF"

section \<open>Comparisons\<close>

text \<open>\<open>_eina_hash_hash_rbtree_cmp_hash\<close> and \<open>_eina_hash_hash_rbtree_cmp_node\<close>.\<close>

definition cmp_hash :: "u32 \<Rightarrow> ('k, 'd) head \<Rightarrow> int" where
  "cmp_hash h hh = sint (hd_hash hh - h)"

definition cmp_head_node :: "('k, 'd) head \<Rightarrow> ('k, 'd) head \<Rightarrow> dir" where
  "cmp_head_node l r = (if sint (hd_hash l - hd_hash r) < 0 then LEFT else RIGHT)"

text \<open>
  \<open>_eina_hash_key_rbtree_cmp_key_data\<close>: with data in the tuple, an element with the
  same key and other data sends the search to the right.
\<close>

definition cmp_key_data ::
  "('k \<Rightarrow> int \<Rightarrow> 'k \<Rightarrow> int \<Rightarrow> int) \<Rightarrow> 'k \<Rightarrow> int \<Rightarrow> 'd option \<Rightarrow> ('k, 'd) element \<Rightarrow> int" where
  "cmp_key_data cmp key klen data e =
     (let result = cmp (el_key e) (el_klen e) key klen
      in if result = 0 \<and> data \<noteq> None \<and> data \<noteq> Some (el_data e) then 1 else result)"

text \<open>\<open>_eina_hash_key_rbtree_cmp_node\<close>.\<close>

definition cmp_element_node ::
  "('k \<Rightarrow> int \<Rightarrow> 'k \<Rightarrow> int \<Rightarrow> int) \<Rightarrow> ('k, 'd) element \<Rightarrow> ('k, 'd) element \<Rightarrow> dir" where
  "cmp_element_node cmp l r =
     (if cmp (el_key l) (el_klen l) (el_key r) (el_klen r) < 0 then LEFT else RIGHT)"

section \<open>Where a hash value leads\<close>

text \<open>
  \<open>key_hash & hash->mask\<close> selects the bucket. The head is selected by the next sixteen
  bits: \<open>>>\<close> on an \<open>int\<close> keeps the sign.
\<close>

definition bucket_index :: "('k, 'd) hash \<Rightarrow> u32 \<Rightarrow> nat" where
  "bucket_index h kh = unat (kh AND mask_of h)"

definition head_hash :: "('k, 'd) hash \<Rightarrow> u32 \<Rightarrow> u32" where
  "head_hash h kh = signed_drop_bit (buckets_power_size h) kh AND EINA_HASH_RBTREE_MASK"

text \<open>\<open>_eina_hash_compute\<close>.\<close>

definition key_len :: "('k, 'd) hash \<Rightarrow> 'k \<Rightarrow> int" where
  "key_len h key = (case key_length_cb h of None \<Rightarrow> 0 | Some f \<Rightarrow> sint (f key))"

definition key_hash :: "('k, 'd) hash \<Rightarrow> 'k \<Rightarrow> u32" where
  "key_hash h key = key_hash_cb h key (key_len h key)"

text \<open>
  Assigning to a field of a node in a tree: the node is found by what identifies it, and
  the tree keeps its shape.
\<close>

fun update_node :: "('a \<Rightarrow> bool) \<Rightarrow> ('a \<Rightarrow> 'a) \<Rightarrow> 'a rbtree \<Rightarrow> 'a rbtree" where
  "update_node p f NIL = NIL"
| "update_node p f (Node c x l r) =
     Node c (if p x then f x else x) (update_node p f l) (update_node p f r)"

definition set_head_tree ::
  "u32 \<Rightarrow> ('k, 'd) element rbtree \<Rightarrow> ('k, 'd) head rbtree \<Rightarrow> ('k, 'd) head rbtree" where
  "set_head_tree hh t b = update_node (\<lambda>x. hd_hash x = hh) (\<lambda>x. x\<lparr>hd_tree := t\<rparr>) b"

section \<open>Insertion\<close>

text \<open>\<open>eina_hash_add_alloc_by_hash\<close> after the null checks.\<close>

definition add_element ::
  "mem \<Rightarrow> ('k, 'd) hash \<Rightarrow> 'k \<Rightarrow> int \<Rightarrow> u32 \<Rightarrow> 'd \<Rightarrow> ('k, 'd) head rbtree list \<Rightarrow>
     ('k, 'd) head \<Rightarrow> bool \<times> ('k, 'd) hash" where
  "add_element mem h key klen kh data bs hdr =
     (let i = bucket_index h kh in
      if \<not> mem_element mem then (False, h\<lparr>buckets := Some bs\<rparr>)
      else
        (let e = \<lparr>el_ptr = next_ptr h, el_key = key, el_klen = klen, el_data = data\<rparr>;
             t = rbtree_insert (hd_tree hdr) e (cmp_element_node (key_cmp_cb h))
         in (True, h\<lparr>buckets := Some (bs[i := set_head_tree (hd_hash hdr) t (bs ! i)]),
                     next_ptr := Suc (next_ptr h),
                     population := population h + 1\<rparr>)))"

text \<open>The head for the hash value is looked up, or allocated and inserted.\<close>

definition add_in_buckets ::
  "mem \<Rightarrow> ('k, 'd) hash \<Rightarrow> 'k \<Rightarrow> int \<Rightarrow> u32 \<Rightarrow> 'd \<Rightarrow> ('k, 'd) head rbtree list \<Rightarrow>
     bool \<times> ('k, 'd) hash" where
  "add_in_buckets mem h key klen kh data bs =
     (let i = bucket_index h kh; hh = head_hash h kh in
      case eina_rbtree_inline_lookup (bs ! i) (cmp_hash hh) of
        Some hdr \<Rightarrow> add_element mem h key klen kh data bs hdr
      | None \<Rightarrow>
          if \<not> mem_head mem then (False, h\<lparr>buckets := Some bs\<rparr>)
          else
            (let hdr = \<lparr>hd_hash = hh, hd_tree = NIL\<rparr>
             in add_element mem h key klen kh data
                  (bs[i := rbtree_insert (bs ! i) hdr cmp_head_node]) hdr))"

definition eina_hash_add_alloc_by_hash ::
  "mem \<Rightarrow> ('k, 'd) hash \<Rightarrow> 'k option \<Rightarrow> int \<Rightarrow> u32 \<Rightarrow> 'd option \<Rightarrow> bool \<times> ('k, 'd) hash" where
  "eina_hash_add_alloc_by_hash mem h key klen kh data =
     (case (key, data) of
        (Some k, Some d) \<Rightarrow>
          (case buckets h of
             None \<Rightarrow>
               if \<not> mem_buckets mem then (False, h)
               else add_in_buckets mem h k klen kh d (replicate (unat (size_of h)) NIL)
           | Some bs \<Rightarrow> add_in_buckets mem h k klen kh d bs)
      | _ \<Rightarrow> (False, h))"

definition eina_hash_add_by_hash where
  "eina_hash_add_by_hash mem h key klen kh data = eina_hash_add_alloc_by_hash mem h key klen kh data"

definition eina_hash_add ::
  "mem \<Rightarrow> ('k, 'd) hash \<Rightarrow> 'k option \<Rightarrow> 'd option \<Rightarrow> bool \<times> ('k, 'd) hash" where
  "eina_hash_add mem h key data =
     (case (key, data) of
        (Some k, Some d) \<Rightarrow>
          eina_hash_add_alloc_by_hash mem h (Some k) (key_len h k) (key_hash h k) (Some d)
      | _ \<Rightarrow> (False, h))"

section \<open>Search\<close>

text \<open>\<open>_eina_hash_find_by_hash\<close>: the head and the element.\<close>

definition find_by_hash ::
  "('k, 'd) hash \<Rightarrow> 'k \<Rightarrow> int \<Rightarrow> 'd option \<Rightarrow> u32 \<Rightarrow> (('k, 'd) head \<times> ('k, 'd) element) option" where
  "find_by_hash h key klen data kh =
     (case buckets h of
        None \<Rightarrow> None
      | Some bs \<Rightarrow>
          (case eina_rbtree_inline_lookup (bs ! bucket_index h kh) (cmp_hash (head_hash h kh)) of
             None \<Rightarrow> None
           | Some hdr \<Rightarrow>
               map_option (Pair hdr)
                 (eina_rbtree_inline_lookup (hd_tree hdr) (cmp_key_data (key_cmp_cb h) key klen data))))"

definition eina_hash_find_by_hash :: "('k, 'd) hash \<Rightarrow> 'k option \<Rightarrow> int \<Rightarrow> u32 \<Rightarrow> 'd option" where
  "eina_hash_find_by_hash h key klen kh =
     (case key of
        None \<Rightarrow> None
      | Some k \<Rightarrow> map_option (el_data \<circ> snd) (find_by_hash h k klen None kh))"

definition eina_hash_find :: "('k, 'd) hash \<Rightarrow> 'k option \<Rightarrow> 'd option" where
  "eina_hash_find h key =
     (case key of
        None \<Rightarrow> None
      | Some k \<Rightarrow>
          if population h = 0 then None
          else eina_hash_find_by_hash h (Some k) (key_len h k) (key_hash h k))"

text \<open>
  \<open>_eina_hash_find_by_data\<close> with \<open>_eina_hash_rbtree_each\<close>: buckets in order, in each the
  heads and in each head the elements in the order of the prefix iterator.
\<close>

definition find_data_in_head :: "'d \<Rightarrow> ('k, 'd) head \<Rightarrow> (('k, 'd) head \<times> ('k, 'd) element) option" where
  "find_data_in_head d hdr =
     map_option (Pair hdr) (List.find (\<lambda>e. el_data e = d) (walk PREFIX_MASK (hd_tree hdr)))"

fun first_some :: "('a \<Rightarrow> 'b option) \<Rightarrow> 'a list \<Rightarrow> 'b option" where
  "first_some f [] = None"
| "first_some f (x # xs) = (case f x of None \<Rightarrow> first_some f xs | Some y \<Rightarrow> Some y)"

definition find_by_data :: "('k, 'd) hash \<Rightarrow> 'd \<Rightarrow> (nat \<times> ('k, 'd) head \<times> ('k, 'd) element) option" where
  "find_by_data h d =
     (case buckets h of
        None \<Rightarrow> None
      | Some bs \<Rightarrow>
          first_some
            (\<lambda>i. map_option (Pair i) (first_some (find_data_in_head d) (walk PREFIX_MASK (bs ! i))))
            [0..<unat (size_of h)])"

section \<open>Removal\<close>

text \<open>\<open>_eina_hash_el_free\<close> and \<open>_eina_hash_head_free\<close>.\<close>

definition el_free :: "('k, 'd) element \<Rightarrow> ('k, 'd) hash \<Rightarrow> ('k, 'd) hash" where
  "el_free e h =
     (let h' = (if data_free_cb h then h\<lparr>freed_data := el_data e # freed_data h\<rparr> else h)
      in h'\<lparr>freed := el_ptr e # freed h'\<rparr>)"

definition head_free :: "('k, 'd) head \<Rightarrow> ('k, 'd) hash \<Rightarrow> ('k, 'd) hash" where
  "head_free hdr h = eina_rbtree_delete (hd_tree hdr) (Some el_free) h"

text \<open>
  \<open>_eina_hash_del_by_hash_el\<close>: the element leaves its head, an empty head leaves its
  bucket, and the bucket array is freed with the last element.
\<close>

definition remove_from_head ::
  "('k, 'd) hash \<Rightarrow> ('k, 'd) element \<Rightarrow> ('k, 'd) head \<Rightarrow> ('k, 'd) head rbtree \<Rightarrow> ('k, 'd) head rbtree" where
  "remove_from_head h e hdr b =
     (let t = rbtree_remove (hd_tree hdr) e (cmp_element_node (key_cmp_cb h));
          b' = set_head_tree (hd_hash hdr) t b
      in if t = NIL then rbtree_remove b' (hdr\<lparr>hd_tree := t\<rparr>) cmp_head_node else b')"

definition del_by_hash_el ::
  "('k, 'd) hash \<Rightarrow> ('k, 'd) element \<Rightarrow> ('k, 'd) head \<Rightarrow> nat \<Rightarrow> ('k, 'd) hash" where
  "del_by_hash_el h e hdr i =
     (case buckets h of
        None \<Rightarrow> h
      | Some bs \<Rightarrow>
          (let pop = population h - 1;
               bs' = bs[i := remove_from_head h e hdr (bs ! i)]
           in el_free e (h\<lparr>population := pop, buckets := (if pop = 0 then None else Some bs')\<rparr>)))"

text \<open>\<open>_eina_hash_del_by_key_hash\<close> and the functions around it.\<close>

definition del_by_key_hash ::
  "('k, 'd) hash \<Rightarrow> 'k option \<Rightarrow> int \<Rightarrow> u32 \<Rightarrow> 'd option \<Rightarrow> bool \<times> ('k, 'd) hash" where
  "del_by_key_hash h key klen kh data =
     (case key of
        None \<Rightarrow> (False, h)
      | Some k \<Rightarrow>
          (case find_by_hash h k klen data kh of
             None \<Rightarrow> (False, h)
           | Some (hdr, e) \<Rightarrow> (True, del_by_hash_el h e hdr (bucket_index h kh))))"

definition eina_hash_del_by_key_hash where
  "eina_hash_del_by_key_hash h key klen kh = del_by_key_hash h key klen kh None"

definition eina_hash_del_by_key_data ::
  "('k, 'd) hash \<Rightarrow> 'k option \<Rightarrow> 'd option \<Rightarrow> bool \<times> ('k, 'd) hash" where
  "eina_hash_del_by_key_data h key data =
     (case key of
        None \<Rightarrow> (False, h)
      | Some k \<Rightarrow>
          if buckets h = None then (False, h)
          else del_by_key_hash h (Some k) (key_len h k) (key_hash h k) data)"

definition eina_hash_del_by_key :: "('k, 'd) hash \<Rightarrow> 'k option \<Rightarrow> bool \<times> ('k, 'd) hash" where
  "eina_hash_del_by_key h key = eina_hash_del_by_key_data h key None"

definition eina_hash_del_by_data :: "('k, 'd) hash \<Rightarrow> 'd option \<Rightarrow> bool \<times> ('k, 'd) hash" where
  "eina_hash_del_by_data h data =
     (case data of
        None \<Rightarrow> (False, h)
      | Some d \<Rightarrow>
          (case find_by_data h d of
             None \<Rightarrow> (False, h)
           | Some (i, hdr, e) \<Rightarrow>
               if el_data e \<noteq> d then (False, h)
               else (True, del_by_hash_el h e hdr (bucket_index h (of_nat i)))))"

definition eina_hash_del_by_hash ::
  "('k, 'd) hash \<Rightarrow> 'k option \<Rightarrow> int \<Rightarrow> u32 \<Rightarrow> 'd option \<Rightarrow> bool \<times> ('k, 'd) hash" where
  "eina_hash_del_by_hash h key klen kh data =
     (case key of
        None \<Rightarrow> eina_hash_del_by_data h data
      | Some k \<Rightarrow> del_by_key_hash h (Some k) klen kh data)"

definition eina_hash_del ::
  "('k, 'd) hash \<Rightarrow> 'k option \<Rightarrow> 'd option \<Rightarrow> bool \<times> ('k, 'd) hash" where
  "eina_hash_del h key data =
     (case key of
        None \<Rightarrow> eina_hash_del_by_data h data
      | Some k \<Rightarrow> eina_hash_del_by_key_data h (Some k) data)"

section \<open>Modification\<close>

text \<open>The assignment \<open>hash_element->tuple.data = data\<close>.\<close>

definition set_data ::
  "('k, 'd) hash \<Rightarrow> nat \<Rightarrow> ('k, 'd) head \<Rightarrow> ('k, 'd) element \<Rightarrow> 'd \<Rightarrow> ('k, 'd) hash" where
  "set_data h i hdr e d =
     (case buckets h of
        None \<Rightarrow> h
      | Some bs \<Rightarrow>
          h\<lparr>buckets := Some (bs[i := set_head_tree (hd_hash hdr)
              (update_node (\<lambda>x. x = e) (\<lambda>x. x\<lparr>el_data := d\<rparr>) (hd_tree hdr)) (bs ! i)])\<rparr>)"

definition eina_hash_modify_by_hash ::
  "('k, 'd) hash \<Rightarrow> 'k option \<Rightarrow> int \<Rightarrow> u32 \<Rightarrow> 'd option \<Rightarrow> 'd option \<times> ('k, 'd) hash" where
  "eina_hash_modify_by_hash h key klen kh data =
     (case (key, data) of
        (Some k, Some d) \<Rightarrow>
          (case find_by_hash h k klen None kh of
             None \<Rightarrow> (None, h)
           | Some (hdr, e) \<Rightarrow> (Some (el_data e), set_data h (bucket_index h kh) hdr e d))
      | _ \<Rightarrow> (None, h))"

definition eina_hash_modify ::
  "('k, 'd) hash \<Rightarrow> 'k option \<Rightarrow> 'd option \<Rightarrow> 'd option \<times> ('k, 'd) hash" where
  "eina_hash_modify h key data =
     (case (key, data) of
        (Some k, Some d) \<Rightarrow>
          eina_hash_modify_by_hash h (Some k) (key_len h k) (key_hash h k) (Some d)
      | _ \<Rightarrow> (None, h))"

definition eina_hash_set ::
  "mem \<Rightarrow> ('k, 'd) hash \<Rightarrow> 'k option \<Rightarrow> 'd option \<Rightarrow> 'd option \<times> ('k, 'd) hash" where
  "eina_hash_set mem h key data =
     (case key of
        None \<Rightarrow> (None, h)
      | Some k \<Rightarrow>
          (let klen = key_len h k; kh = key_hash h k in
           case find_by_hash h k klen None kh of
             Some (hdr, e) \<Rightarrow>
               (Some (el_data e),
                case data of
                  Some d \<Rightarrow> set_data h (bucket_index h kh) hdr e d
                | None \<Rightarrow>
                    (del_by_hash_el (h\<lparr>data_free_cb := False\<rparr>) e hdr (bucket_index h kh))
                      \<lparr>data_free_cb := data_free_cb h\<rparr>)
           | None \<Rightarrow>
               (None,
                case data of
                  None \<Rightarrow> h
                | Some d \<Rightarrow> snd (eina_hash_add_alloc_by_hash mem h (Some k) klen kh (Some d)))))"

definition eina_hash_move ::
  "mem \<Rightarrow> ('k, 'd) hash \<Rightarrow> 'k option \<Rightarrow> 'k option \<Rightarrow> bool \<times> ('k, 'd) hash" where
  "eina_hash_move mem h old_key new_key =
     (case (old_key, new_key) of
        (Some ok, Some nk) \<Rightarrow>
          (case eina_hash_find h (Some ok) of
             None \<Rightarrow> (False, h)
           | Some d \<Rightarrow>
               (let h1 = snd (eina_hash_del (h\<lparr>data_free_cb := False\<rparr>) (Some ok) (Some d));
                    (result, h2) = eina_hash_add mem h1 (Some nk) (Some d)
                in (result, h2\<lparr>data_free_cb := data_free_cb h\<rparr>)))
      | _ \<Rightarrow> (False, h))"

section \<open>The whole table\<close>

text \<open>
  \<open>eina_hash_new\<close>; \<open>key_cmp_cb\<close> and \<open>key_hash_cb\<close> are not null, \<open>mem\<close> is the success of
  \<open>malloc\<close>.
\<close>

definition eina_hash_new ::
  "bool \<Rightarrow> ('k \<Rightarrow> u32) option \<Rightarrow> ('k \<Rightarrow> int \<Rightarrow> 'k \<Rightarrow> int \<Rightarrow> int) \<Rightarrow> ('k \<Rightarrow> int \<Rightarrow> u32) \<Rightarrow> bool \<Rightarrow>
     nat \<Rightarrow> ('k, 'd) hash option" where
  "eina_hash_new mem len cmp hsh free_cb power_size =
     (if power_size \<le> 2 \<or> 17 \<le> power_size \<or> \<not> mem then None
      else Some \<lparr>key_length_cb = len, key_cmp_cb = cmp, key_hash_cb = hsh, data_free_cb = free_cb,
                 buckets = None, size_of = push_bit power_size 1, mask_of = push_bit power_size 1 - 1,
                 population = 0, buckets_power_size = power_size,
                 next_ptr = 0, freed = [], freed_data = []\<rparr>)"

definition eina_hash_population :: "('k, 'd) hash \<Rightarrow> u32" where
  "eina_hash_population h = population h"

definition eina_hash_free_cb_set :: "('k, 'd) hash \<Rightarrow> bool \<Rightarrow> ('k, 'd) hash" where
  "eina_hash_free_cb_set h cb = h\<lparr>data_free_cb := cb\<rparr>"

text \<open>The loop over the buckets shared by \<open>eina_hash_free\<close> and \<open>eina_hash_free_buckets\<close>.\<close>

definition free_all :: "('k, 'd) head rbtree list \<Rightarrow> ('k, 'd) hash \<Rightarrow> ('k, 'd) hash" where
  "free_all bs h = fold (\<lambda>b s. eina_rbtree_delete b (Some head_free) s) bs h"

definition eina_hash_free_buckets :: "('k, 'd) hash \<Rightarrow> ('k, 'd) hash" where
  "eina_hash_free_buckets h =
     (case buckets h of
        None \<Rightarrow> h
      | Some bs \<Rightarrow> (free_all bs h)\<lparr>buckets := None, population := 0\<rparr>)"

end
