(* ===== verification/Eina_Hash_Laws.thy ===== *)
theory Eina_Hash_Laws
  imports Eina_Hash
begin

text \<open>
  What the hash table of \<open>eina_hash.c\<close> promises: as long as no key is added twice it is a
  finite map from keys to data. The order of the keys is an interface (\<open>key_order\<close>) the
  comparison callbacks of the source are shown to implement; the invariant \<open>hash_inv\<close>
  relates the two levels of trees, the hash values and the population.
\<close>

section \<open>Heads are ordered by their hash\<close>

lemma sint_diff_small:
  fixes a b :: u32
  assumes "a \<le> 0xFFFF" and "b \<le> 0xFFFF"
  shows "sint (a - b) = uint a - uint b"
proof -
  have "uint a \<le> 65535" "uint b \<le> 65535"
    using assms by (simp_all add: word_le_def)
  moreover have "sint (a - b) = signed_take_bit 31 (take_bit 32 (uint a - uint b))"
    by (simp add: sint_uint uint_word_ariths take_bit_eq_mod)
  then have "sint (a - b) = signed_take_bit 31 (uint a - uint b)"
    by (simp add: signed_take_bit_take_bit)
  ultimately show ?thesis
    using uint_ge_0 [of a] uint_ge_0 [of b] signed_take_bit_int_eq_self [of 31 "uint a - uint b"]
    by simp
qed

interpretation hd: rb_ordered "\<lambda>l r. sint (hd_hash l - hd_hash r)" "\<lambda>x. hd_hash x \<le> 0xFFFF"
  by unfold_locales (auto simp: sint_diff_small)

lemma cmp_head_node_dcmp: "cmp_head_node = rb_dcmp (\<lambda>l r. sint (hd_hash l - hd_hash r))"
  by (simp add: fun_eq_iff rb_dcmp_def cmp_head_node_def)

section \<open>The interface to the key comparison\<close>

text \<open>
  \<open>cmp\<close> is the table's \<open>key_cmp_cb\<close>, \<open>len\<close> the length \<open>_eina_hash_compute\<close> stores with
  a key, \<open>kok\<close> the keys the callbacks are made for. The callback is a strict order in which
  only equal keys compare equal.
\<close>

locale key_order =
  fixes cmp :: "'k \<Rightarrow> int \<Rightarrow> 'k \<Rightarrow> int \<Rightarrow> int" and len :: "'k \<Rightarrow> int" and kok :: "'k \<Rightarrow> bool"
  assumes cmp_neg: "kok a \<Longrightarrow> kok b \<Longrightarrow> cmp a (len a) b (len b) < 0 \<longleftrightarrow> 0 < cmp b (len b) a (len a)"
    and cmp_trans: "kok a \<Longrightarrow> kok b \<Longrightarrow> kok c \<Longrightarrow> 0 < cmp a (len a) b (len b) \<Longrightarrow>
      0 < cmp b (len b) c (len c) \<Longrightarrow> 0 < cmp a (len a) c (len c)"
    and cmp_eq: "kok a \<Longrightarrow> kok b \<Longrightarrow> cmp a (len a) b (len b) = 0 \<longleftrightarrow> a = b"

text \<open>A stored element has a key of the right kind and that key's length.\<close>

definition eok :: "('k \<Rightarrow> int) \<Rightarrow> ('k \<Rightarrow> bool) \<Rightarrow> ('k, 'd) element \<Rightarrow> bool" where
  "eok len kok e \<longleftrightarrow> kok (el_key e) \<and> el_klen e = len (el_key e)"

sublocale key_order \<subseteq> el: rb_ordered
  "\<lambda>a b :: ('k, 'd) element. cmp (el_key a) (el_klen a) (el_key b) (el_klen b)" "eok len kok"
  by unfold_locales (auto simp: eok_def cmp_neg cmp_eq intro: cmp_trans)


section \<open>Invariant\<close>

abbreviation el_cmp :: "('k \<Rightarrow> int \<Rightarrow> 'k \<Rightarrow> int \<Rightarrow> int) \<Rightarrow> ('k, 'd) element \<Rightarrow> ('k, 'd) element \<Rightarrow> int" where
  "el_cmp cmp \<equiv> (\<lambda>a b. cmp (el_key a) (el_klen a) (el_key b) (el_klen b))"

abbreviation head_cmp :: "('k, 'd) head \<Rightarrow> ('k, 'd) head \<Rightarrow> int" where
  "head_cmp \<equiv> (\<lambda>l r. sint (hd_hash l - hd_hash r))"

abbreviation short_hash :: "('k, 'd) head \<Rightarrow> bool" where
  "short_hash \<equiv> (\<lambda>x. hd_hash x \<le> 0xFFFF)"

lemma cmp_element_node_dcmp: "cmp_element_node cmp = rb_dcmp (el_cmp cmp)"
  by (simp add: fun_eq_iff rb_dcmp_def cmp_element_node_def)

text \<open>The fields no operation changes.\<close>

definition config ::
  "('k, 'd) hash \<Rightarrow> ('k \<Rightarrow> u32) option \<times> ('k \<Rightarrow> int \<Rightarrow> 'k \<Rightarrow> int \<Rightarrow> int) \<times> ('k \<Rightarrow> int \<Rightarrow> u32) \<times> u32 \<times> nat" where
  "config h = (key_length_cb h, key_cmp_cb h, key_hash_cb h, mask_of h, buckets_power_size h)"

text \<open>
  A head's elements are ordered by key, have the head's hash bits and belong to its bucket;
  a bucket's heads are ordered by hash.
\<close>

definition head_ok :: "('k \<Rightarrow> bool) \<Rightarrow> ('k, 'd) hash \<Rightarrow> nat \<Rightarrow> ('k, 'd) head \<Rightarrow> bool" where
  "head_ok kok h i hdr \<longleftrightarrow>
     rb_desc (el_cmp (key_cmp_cb h)) (eok (key_len h) kok) (hd_tree hdr) \<and>
     (\<forall>e \<in> set (inorder (hd_tree hdr)).
        bucket_index h (key_hash h (el_key e)) = i \<and> head_hash h (key_hash h (el_key e)) = hd_hash hdr)"

definition bucket_ok :: "('k \<Rightarrow> bool) \<Rightarrow> ('k, 'd) hash \<Rightarrow> nat \<Rightarrow> ('k, 'd) head rbtree \<Rightarrow> bool" where
  "bucket_ok kok h i b \<longleftrightarrow>
     rb_desc head_cmp short_hash b \<and> (\<forall>hdr \<in> set (inorder b). head_ok kok h i hdr)"

definition bucket_elems :: "('k, 'd) head rbtree \<Rightarrow> ('k, 'd) element set" where
  "bucket_elems b = (\<Union>hdr \<in> set (inorder b). set (inorder (hd_tree hdr)))"

definition table_elems :: "('k, 'd) head rbtree list \<Rightarrow> ('k, 'd) element set" where
  "table_elems bs = (\<Union>b \<in> set bs. bucket_elems b)"

definition elems :: "('k, 'd) hash \<Rightarrow> ('k, 'd) element set" where
  "elems h = (case buckets h of None \<Rightarrow> {} | Some bs \<Rightarrow> table_elems bs)"

definition ok_buckets :: "('k \<Rightarrow> bool) \<Rightarrow> ('k, 'd) hash \<Rightarrow> ('k, 'd) head rbtree list \<Rightarrow> bool" where
  "ok_buckets kok h bs \<longleftrightarrow>
     length bs = unat (size_of h) \<and> (\<forall>i < length bs. bucket_ok kok h i (bs ! i))"

text \<open>The sizes \<open>eina_hash_new\<close> accepts, the bucket array, and the population count.\<close>

definition hash_inv :: "('k \<Rightarrow> bool) \<Rightarrow> ('k, 'd) hash \<Rightarrow> bool" where
  "hash_inv kok h \<longleftrightarrow>
     buckets_power_size h \<in> {3..16} \<and>
     size_of h = push_bit (buckets_power_size h) 1 \<and> mask_of h = size_of h - 1 \<and>
     unat (population h) = card (elems h) \<and>
     (case buckets h of None \<Rightarrow> True | Some bs \<Rightarrow> ok_buckets kok h bs)"

lemma config_update [simp]:
  "config (h\<lparr>buckets := bs\<rparr>) = config h" "config (h\<lparr>population := p\<rparr>) = config h"
  "config (h\<lparr>next_ptr := n\<rparr>) = config h" "config (h\<lparr>freed := fs\<rparr>) = config h"
  "config (h\<lparr>freed_data := ds\<rparr>) = config h" "config (h\<lparr>data_free_cb := cb\<rparr>) = config h"
  by (simp_all add: config_def)

lemma config_cong:
  assumes "config h = config h'"
  shows "key_len h = key_len h'" "key_hash h = key_hash h'" "bucket_index h = bucket_index h'"
    "head_hash h = head_hash h'" "key_cmp_cb h = key_cmp_cb h'"
proof -
  show len: "key_len h = key_len h'"
    using assms by (simp add: config_def fun_eq_iff key_len_def)
  then show "key_hash h = key_hash h'"
    using assms by (simp add: config_def fun_eq_iff key_hash_def)
  show "bucket_index h = bucket_index h'" "head_hash h = head_hash h'" "key_cmp_cb h = key_cmp_cb h'"
    using assms by (simp_all add: config_def fun_eq_iff bucket_index_def head_hash_def)
qed

lemma bucket_ok_cong: "config h = config h' \<Longrightarrow> bucket_ok kok h = bucket_ok kok h'"
  by (intro ext) (simp add: bucket_ok_def head_ok_def config_cong [of h h'])

section \<open>Updates of one node\<close>

lemma inorder_update_node [simp]:
  "inorder (update_node p f t) = map (\<lambda>x. if p x then f x else x) (inorder t)"
  by (induction t) auto

lemma is_red_update_node [simp]: "is_red (update_node p f t) = is_red t"
  by (cases t) auto

lemma bh_update_node [simp]: "bh (update_node p f t) = bh t"
  by (induction t) auto

lemma rb_inv_update_node [simp]: "rb_inv (update_node p f t) = rb_inv t"
proof -
  have "inv_bh (update_node p f t) = inv_bh t" "inv_red (update_node p f t) = inv_red t"
    by (induction t) auto
  then show ?thesis by (simp add: rb_inv_def)
qed

lemma sorted_wrt_cong_map:
  "\<forall>x \<in> set xs. \<forall>y \<in> set xs. P (g x) (g y) = P x y \<Longrightarrow> sorted_wrt P (map g xs) = sorted_wrt P xs"
  by (induction xs) auto

lemma rb_desc_update_node:
  assumes "rb_desc f ok t"
    and "\<And>x. ok x \<Longrightarrow> p x \<Longrightarrow> ok (u x)"
    and "\<And>x y. f (if p x then u x else x) (if p y then u y else y) = f x y"
  shows "rb_desc f ok (update_node p u t)"
  using assms(1) assms(2) by (auto simp: rb_desc_def sorted_wrt_cong_map assms(3) split: if_splits)

section \<open>Heads\<close>

lemma head_hash_short [simp]: "head_hash h kh \<le> 0xFFFF"
  unfolding head_hash_def EINA_HASH_RBTREE_MASK_def by (rule word_and_le1)

lemma lookup_head:
  assumes "bucket_ok kok h i b" and "hh \<le> 0xFFFF"
  shows "eina_rbtree_inline_lookup b (cmp_hash hh) = Some hdr \<longleftrightarrow> hdr \<in> set (inorder b) \<and> hd_hash hdr = hh"
proof -
  let ?k = "\<lparr>hd_hash = hh, hd_tree = NIL\<rparr>"
  have "eina_rbtree_inline_lookup b (cmp_hash hh) = Some hdr \<longleftrightarrow>
      hdr \<in> set (inorder b) \<and> sint (hd_hash hdr - hd_hash ?k) = 0"
    using assms hd.desc_lookup [of b ?k "cmp_hash hh" hdr] by (simp add: bucket_ok_def cmp_hash_def)
  then show ?thesis by (auto simp: sint_eq_0)
qed

lemma lookup_head_None:
  assumes "bucket_ok kok h i b" and "hh \<le> 0xFFFF"
  shows "eina_rbtree_inline_lookup b (cmp_hash hh) = None \<longleftrightarrow> (\<forall>hdr \<in> set (inorder b). hd_hash hdr \<noteq> hh)"
  using lookup_head [OF assms] by (metis not_Some_eq)

lemma head_unique:
  assumes "bucket_ok kok h i b" and "x \<in> set (inorder b)" "y \<in> set (inorder b)" "hd_hash x = hd_hash y"
  shows "x = y"
  using assms hd.desc_eq_unique [of b x x y] by (auto simp: bucket_ok_def rb_desc_def)

lemma set_head_tree_ok:
  assumes "bucket_ok kok h i b" and "hdr \<in> set (inorder b)" and "head_ok kok h i (hdr\<lparr>hd_tree := t\<rparr>)"
  shows "bucket_ok kok h i (set_head_tree (hd_hash hdr) t b)"
  using assms unfolding bucket_ok_def set_head_tree_def
  by (auto intro!: rb_desc_update_node dest: head_unique [OF assms(1)])


lemma set_head_tree_elems:
  assumes "bucket_ok kok h i b" and "hdr \<in> set (inorder b)"
  shows "bucket_elems (set_head_tree (hd_hash hdr) t b) =
    bucket_elems b - set (inorder (hd_tree hdr)) \<union> set (inorder t)"
proof -
  have others: "x = hdr" if "x \<in> set (inorder b)" "e \<in> set (inorder (hd_tree x))" "e \<in> set (inorder (hd_tree hdr))"
    for x e
  proof (rule head_unique [OF assms(1) that(1) assms(2)])
    have "hd_hash y = head_hash h (key_hash h (el_key e))"
      if "y \<in> set (inorder b)" "e \<in> set (inorder (hd_tree y))" for y
      using that assms(1) by (simp add: bucket_ok_def head_ok_def)
    then show "hd_hash x = hd_hash hdr"
      using that assms(2) by simp
  qed
  have same: "hd_hash x = hd_hash hdr \<longleftrightarrow> x = hdr" if "x \<in> set (inorder b)" for x
    using head_unique [OF assms(1) that assms(2)] by auto
  have "bucket_elems (set_head_tree (hd_hash hdr) t b) =
      set (inorder t) \<union> (\<Union>x \<in> set (inorder b) - {hdr}. set (inorder (hd_tree x)))"
    using assms(2) same by (auto simp: bucket_elems_def set_head_tree_def split: if_splits)
  moreover have "(\<Union>x \<in> set (inorder b) - {hdr}. set (inorder (hd_tree x))) =
      bucket_elems b - set (inorder (hd_tree hdr))"
    using others by (auto simp: bucket_elems_def)
  ultimately show ?thesis by blast
qed

lemma hdr_in_set_head_tree:
  "hdr \<in> set (inorder b) \<Longrightarrow> hdr\<lparr>hd_tree := t\<rparr> \<in> set (inorder (set_head_tree (hd_hash hdr) t b))"
  by (auto simp: set_head_tree_def)

lemma insert_head_ok:
  assumes "bucket_ok kok h i b" and "hh \<le> 0xFFFF" and "\<forall>x \<in> set (inorder b). hd_hash x \<noteq> hh"
  defines "b' \<equiv> rbtree_insert b \<lparr>hd_hash = hh, hd_tree = NIL\<rparr> cmp_head_node"
  shows "bucket_ok kok h i b'" and "bucket_elems b' = bucket_elems b"
    and "\<lparr>hd_hash = hh, hd_tree = NIL\<rparr> \<in> set (inorder b')"
proof -
  let ?x = "\<lparr>hd_hash = hh, hd_tree = NIL\<rparr> :: ('a, 'b) head"
  have d: "hd.desc b"
    using assms(1) by (simp add: bucket_ok_def)
  have n: "\<forall>y \<in> set (inorder b). head_cmp y ?x \<noteq> 0"
    using assms(3) by (auto simp: sint_eq_0)
  note ins = hd.desc_insert [OF d _ n, folded cmp_head_node_dcmp b'_def]
  show "bucket_ok kok h i b'" "bucket_elems b' = bucket_elems b" "?x \<in> set (inorder b')"
    using assms(1,2) ins by (auto simp: bucket_ok_def head_ok_def bucket_elems_def)
qed

lemma remove_head_ok:
  assumes "bucket_ok kok h i b" and "hdr \<in> set (inorder b)" and "hd_tree hdr = NIL"
  defines "b' \<equiv> rbtree_remove b hdr cmp_head_node"
  shows "bucket_ok kok h i b'" and "bucket_elems b' = bucket_elems b"
proof -
  have d: "hd.desc b"
    using assms(1) by (simp add: bucket_ok_def)
  note rem = hd.desc_remove [OF d assms(2), folded cmp_head_node_dcmp b'_def]
  show "bucket_ok kok h i b'" "bucket_elems b' = bucket_elems b"
    using assms(1,3) rem by (auto simp: bucket_ok_def bucket_elems_def)
qed


section \<open>The table\<close>

lemma table_elems_nth: "table_elems bs = (\<Union>i < length bs. bucket_elems (bs ! i))"
  by (fastforce simp: table_elems_def in_set_conv_nth)

lemma bucket_elems_index: "bucket_ok kok h i b \<Longrightarrow> e \<in> bucket_elems b \<Longrightarrow> bucket_index h (key_hash h (el_key e)) = i"
  by (auto simp: bucket_ok_def head_ok_def bucket_elems_def)

lemma table_elems_update:
  assumes "ok_buckets kok h bs" and "i < length bs"
  shows "table_elems (bs[i := b]) = table_elems bs - bucket_elems (bs ! i) \<union> bucket_elems b"
proof -
  have other: "j = i" if "j < length bs" "e \<in> bucket_elems (bs ! j)" "e \<in> bucket_elems (bs ! i)" for e j
    using bucket_elems_index [of kok h j "bs ! j" e] bucket_elems_index [of kok h i "bs ! i" e] that assms
    by (simp add: ok_buckets_def)
  have "table_elems (bs[i := b]) = bucket_elems b \<union> (\<Union>j \<in> {..<length bs} - {i}. bucket_elems (bs ! j))"
    using assms(2) by (auto simp: table_elems_nth nth_list_update split: if_splits)
  moreover have "(\<Union>j \<in> {..<length bs} - {i}. bucket_elems (bs ! j)) = table_elems bs - bucket_elems (bs ! i)"
    using other assms(2) by (auto simp: table_elems_nth)
  ultimately show ?thesis by blast
qed

lemma ok_buckets_update:
  assumes "ok_buckets kok h bs" and "bucket_ok kok h i b"
  shows "ok_buckets kok h (bs[i := b])"
proof -
  have "bucket_ok kok h j (bs[i := b] ! j)" if "j < length bs" for j
    using assms that by (cases "j = i") (simp_all add: ok_buckets_def)
  then show ?thesis
    using assms(1) by (simp add: ok_buckets_def)
qed

text \<open>A new tree for one head.\<close>

lemma put_tree:
  assumes bs: "ok_buckets kok h bs" and i: "i < length bs" and hdr: "hdr \<in> set (inorder (bs ! i))"
    and t: "head_ok kok h i (hdr\<lparr>hd_tree := t\<rparr>)"
  defines "bs' \<equiv> bs[i := set_head_tree (hd_hash hdr) t (bs ! i)]"
  shows "ok_buckets kok h bs'"
    and "table_elems bs' = table_elems bs - set (inorder (hd_tree hdr)) \<union> set (inorder t)"
proof -
  have b: "bucket_ok kok h i (bs ! i)"
    using bs i by (simp add: ok_buckets_def)
  show "ok_buckets kok h bs'"
    unfolding bs'_def by (rule ok_buckets_update [OF bs set_head_tree_ok [OF b hdr t]])
  have sub: "set (inorder (hd_tree hdr)) \<subseteq> bucket_elems (bs ! i)"
    using hdr by (auto simp: bucket_elems_def)
  have e: "e \<notin> bucket_elems (bs ! i)" if "e \<in> table_elems bs - bucket_elems (bs ! i)" for e
    using that by simp
  have "bucket_elems (bs ! i) \<subseteq> table_elems bs"
    using i by (auto simp: table_elems_nth)
  with sub show "table_elems bs' = table_elems bs - set (inorder (hd_tree hdr)) \<union> set (inorder t)"
    unfolding bs'_def table_elems_update [OF bs i] set_head_tree_elems [OF b hdr] by blast
qed

lemma finite_elems [simp]: "finite (elems h)"
  by (auto simp: elems_def table_elems_def bucket_elems_def split: option.split)

lemma unat_AND_mask: "sz \<noteq> 0 \<Longrightarrow> unat (kh AND (sz - 1)) < unat (sz :: u32)"
proof -
  assume "sz \<noteq> 0"
  have "kh AND (sz - 1) \<le> sz - 1"
    by (rule word_and_le1)
  then have "unat (kh AND (sz - 1)) \<le> unat (sz - 1)"
    by (simp add: word_le_nat_alt)
  also have "\<dots> < unat sz"
    using \<open>sz \<noteq> 0\<close> by (simp add: unat_minus_one unat_gt_0)
  finally show ?thesis .
qed

lemma size_nonzero: "hash_inv kok h \<Longrightarrow> size_of h \<noteq> 0"
  by (auto simp: hash_inv_def push_bit_eq_mult)


lemma bucket_index_less: "hash_inv kok h \<Longrightarrow> bucket_index h kh < unat (size_of h)"
  using size_nonzero [of kok h] unat_AND_mask by (auto simp: hash_inv_def bucket_index_def)

section \<open>Trees of elements\<close>

context key_order
begin

lemma insert_element:
  fixes e :: "('k, 'b) element"
  assumes "rb_desc (el_cmp cmp) (eok len kok) t" and "eok len kok e"
    and "\<forall>y \<in> set (inorder t). el_key y \<noteq> el_key e"
  shows "rb_desc (el_cmp cmp) (eok len kok) (rbtree_insert t e (cmp_element_node cmp))"
    and "set (inorder (rbtree_insert t e (cmp_element_node cmp))) = insert e (set (inorder t))"
proof -
  have "\<forall>y \<in> set (inorder t). el_cmp cmp y e \<noteq> 0"
    using assms by (auto simp: rb_desc_def eok_def cmp_eq)
  note ins = el.desc_insert [OF assms(1,2) this, folded cmp_element_node_dcmp]
  show "rb_desc (el_cmp cmp) (eok len kok) (rbtree_insert t e (cmp_element_node cmp))"
    "set (inorder (rbtree_insert t e (cmp_element_node cmp))) = insert e (set (inorder t))"
    using ins by simp_all
qed

lemma distinct_tree: "rb_desc (el_cmp cmp) (eok len kok) t \<Longrightarrow> distinct (inorder t)"
  by (rule el.desc_distinct)

lemmas remove_element = el.desc_remove [folded cmp_element_node_dcmp]

lemma lookup_element:
  fixes e :: "('k, 'b) element"
  assumes "rb_desc (el_cmp cmp) (eok len kok) t" and "kok k"
  shows "eina_rbtree_inline_lookup t (cmp_key_data cmp k (len k) None) = Some e \<longleftrightarrow>
    e \<in> set (inorder t) \<and> el_key e = k"
proof -
  let ?k = "\<lparr>el_ptr = 0, el_key = k, el_klen = len k, el_data = el_data e\<rparr>"
  have "eok len kok ?k"
    using assms(2) by (simp add: eok_def)
  from el.desc_lookup [OF assms(1) this, of "cmp_key_data cmp k (len k) None" e] show ?thesis
    using assms by (auto simp: cmp_key_data_def rb_desc_def eok_def cmp_eq)
qed

lemma element_unique:
  assumes "rb_desc (el_cmp cmp) (eok len kok) t" and "x \<in> set (inorder t)" "y \<in> set (inorder t)"
    and "el_key x = el_key y"
  shows "x = y"
  using el.desc_eq_unique [OF assms(1), of y x y] assms by (auto simp: rb_desc_def eok_def cmp_eq)

lemma lookup_element_data:
  fixes e :: "('k, 'b) element"
  assumes "rb_desc (el_cmp cmp) (eok len kok) t" and "kok k"
  shows "eina_rbtree_inline_lookup t (cmp_key_data cmp k (len k) (Some d)) = Some e \<longleftrightarrow>
    e \<in> set (inorder t) \<and> el_key e = k \<and> el_data e = d"
proof
  assume "eina_rbtree_inline_lookup t (cmp_key_data cmp k (len k) (Some d)) = Some e"
  from lookup_Some [OF this] show "e \<in> set (inorder t) \<and> el_key e = k \<and> el_data e = d"
    using assms by (auto simp: cmp_key_data_def rb_desc_def eok_def cmp_eq Let_def split: if_splits)
next
  assume e: "e \<in> set (inorder t) \<and> el_key e = k \<and> el_data e = d"
  let ?k = "\<lparr>el_ptr = 0, el_key = k, el_klen = len k, el_data = d\<rparr>"
  have "eok len kok ?k"
    using assms(2) by (simp add: eok_def)
  moreover have "\<forall>y \<in> set (inorder t). cmp_key_data cmp k (len k) (Some d) y = el_cmp cmp y ?k"
    using element_unique [OF assms(1)] e assms by (auto simp: cmp_key_data_def rb_desc_def eok_def cmp_eq Let_def)
  ultimately show "eina_rbtree_inline_lookup t (cmp_key_data cmp k (len k) (Some d)) = Some e"
    using el.desc_lookup [OF assms(1), of ?k "cmp_key_data cmp k (len k) (Some d)" e] e assms
    by (auto simp: rb_desc_def eok_def cmp_eq)
qed

end


section \<open>Contents\<close>

definition elements :: "('k, 'd) hash \<Rightarrow> ('k, 'd) element list" where
  "elements h =
     (case buckets h of
        None \<Rightarrow> []
      | Some bs \<Rightarrow> concat (map (\<lambda>b. concat (map (\<lambda>hdr. inorder (hd_tree hdr)) (inorder b))) bs))"

definition hash_map :: "('k, 'd) hash \<Rightarrow> 'k \<rightharpoonup> 'd" where
  "hash_map h k = map_option el_data (List.find (\<lambda>e. el_key e = k) (elements h))"

lemma set_elements: "set (elements h) = elems h"
  by (auto simp: elements_def elems_def table_elems_def bucket_elems_def split: option.split)

lemma find_by_hash_iff:
  assumes ko: "key_order (key_cmp_cb h) (key_len h) kok" and inv: "hash_inv kok h" and k: "kok k"
  shows "find_by_hash h k (key_len h k) data (key_hash h k) = Some (hdr, e) \<longleftrightarrow>
    (\<exists>bs. buckets h = Some bs \<and> hdr \<in> set (inorder (bs ! bucket_index h (key_hash h k))) \<and>
       hd_hash hdr = head_hash h (key_hash h k) \<and> e \<in> set (inorder (hd_tree hdr)) \<and> el_key e = k \<and>
       (data = None \<or> data = Some (el_data e)))"
proof (cases "buckets h")
  case None
  then show ?thesis by (simp add: find_by_hash_def)
next
  case (Some bs)
  let ?b = "bs ! bucket_index h (key_hash h k)"
  have b: "bucket_ok kok h (bucket_index h (key_hash h k)) ?b"
    using inv Some bucket_index_less [OF inv] by (simp add: hash_inv_def ok_buckets_def)
  have t: "rb_desc (el_cmp (key_cmp_cb h)) (eok (key_len h) kok) (hd_tree x)" if "x \<in> set (inorder ?b)" for x
    using b that by (simp add: bucket_ok_def head_ok_def)
  have "eina_rbtree_inline_lookup (hd_tree x) (cmp_key_data (key_cmp_cb h) k (key_len h k) data) = Some e \<longleftrightarrow>
      e \<in> set (inorder (hd_tree x)) \<and> el_key e = k \<and> (data = None \<or> data = Some (el_data e))"
    if "x \<in> set (inorder ?b)" for x
    using key_order.lookup_element [OF ko t k, of x e] key_order.lookup_element_data [OF ko t k, of x _ e] that
    by (cases data) auto
  moreover have "find_by_hash h k (key_len h k) data (key_hash h k) = Some (hdr, e) \<longleftrightarrow>
      eina_rbtree_inline_lookup ?b (cmp_hash (head_hash h (key_hash h k))) = Some hdr \<and>
      eina_rbtree_inline_lookup (hd_tree hdr) (cmp_key_data (key_cmp_cb h) k (key_len h k) data) = Some e"
    using Some by (auto simp: find_by_hash_def split: option.split)
  ultimately show ?thesis
    using Some lookup_head [OF b head_hash_short [of h "key_hash h k"]] by auto
qed

lemma find_by_hash_elems:
  assumes "key_order (key_cmp_cb h) (key_len h) kok" and inv: "hash_inv kok h" and "kok k"
  shows "(\<exists>hdr. find_by_hash h k (key_len h k) data (key_hash h k) = Some (hdr, e)) \<longleftrightarrow>
    e \<in> elems h \<and> el_key e = k \<and> (data = None \<or> data = Some (el_data e))"
proof (cases "buckets h")
  case None
  then show ?thesis by (simp add: find_by_hash_def elems_def)
next
  case (Some bs)
  have "(\<exists>hdr. hdr \<in> set (inorder (bs ! bucket_index h (key_hash h (el_key e)))) \<and>
      hd_hash hdr = head_hash h (key_hash h (el_key e)) \<and> e \<in> set (inorder (hd_tree hdr))) \<longleftrightarrow> e \<in> elems h"
    using Some inv bucket_index_less [OF inv]
    by (fastforce simp: hash_inv_def ok_buckets_def elems_def table_elems_nth bucket_elems_def bucket_ok_def head_ok_def)
  then show ?thesis
    using Some by (auto simp: find_by_hash_iff [OF assms])
qed

lemma elems_ok:
  assumes "hash_inv kok h" and "e \<in> elems h"
  shows "kok (el_key e)" and "el_klen e = key_len h (el_key e)"
  using assms
  by (auto simp: hash_inv_def ok_buckets_def elems_def table_elems_nth bucket_elems_def bucket_ok_def
      head_ok_def rb_desc_def eok_def split: option.splits)

lemma key_unique:
  assumes "key_order (key_cmp_cb h) (key_len h) kok" and "hash_inv kok h"
    and "e \<in> elems h" "e' \<in> elems h" "el_key e = el_key e'"
  shows "e = e'"
  using find_by_hash_elems [OF assms(1,2), of "el_key e" None e]
    find_by_hash_elems [OF assms(1,2), of "el_key e" None e'] elems_ok [OF assms(2)] assms(3-5)
  by (metis option.inject prod.inject)

lemma hash_map_iff:
  assumes "key_order (key_cmp_cb h) (key_len h) kok" and "hash_inv kok h"
  shows "hash_map h k = Some d \<longleftrightarrow> (\<exists>e \<in> elems h. el_key e = k \<and> el_data e = d)"
proof
  assume "hash_map h k = Some d"
  then show "\<exists>e \<in> elems h. el_key e = k \<and> el_data e = d"
    by (auto simp: hash_map_def find_Some_iff set_elements [symmetric])
next
  assume "\<exists>e \<in> elems h. el_key e = k \<and> el_data e = d"
  then obtain e where e: "e \<in> elems h" "el_key e = k" "el_data e = d" by blast
  then obtain e' where f: "List.find (\<lambda>e. el_key e = k) (elements h) = Some e'"
    by (cases "List.find (\<lambda>e. el_key e = k) (elements h)") (auto simp: find_None_iff set_elements)
  then have "e' \<in> elems h" "el_key e' = k"
    by (auto simp: find_Some_iff set_elements [symmetric])
  with key_unique [OF assms] e have "e' = e" by simp
  with f e show "hash_map h k = Some d"
    by (simp add: hash_map_def)
qed


section \<open>Insertion\<close>

lemma hash_inv_with:
  assumes "hash_inv kok h" and "config h' = config h" and "size_of h' = size_of h"
    and "buckets h' = Some bs" and "ok_buckets kok h bs"
    and "unat (population h') = card (table_elems bs)"
  shows "hash_inv kok h'"
  using assms bucket_ok_cong [of h' h]
  by (auto simp: hash_inv_def ok_buckets_def elems_def config_def)

lemma add_element_ok:
  assumes ko: "key_order (key_cmp_cb h) (key_len h) kok" and inv: "hash_inv kok h" and k: "kok k"
    and new: "\<forall>e \<in> elems h. el_key e \<noteq> k" and pop: "population h \<noteq> - 1"
    and bs: "ok_buckets kok h bs" "table_elems bs = elems h"
    and hdr: "hdr \<in> set (inorder (bs ! bucket_index h (key_hash h k)))"
      "hd_hash hdr = head_hash h (key_hash h k)"
    and r: "add_element mem h k (key_len h k) (key_hash h k) d bs hdr = (res, h')"
  shows "hash_inv kok h'" and "res = mem_element mem"
    and "elems h' = (if res then insert \<lparr>el_ptr = next_ptr h, el_key = k, el_klen = key_len h k, el_data = d\<rparr> (elems h)
                     else elems h)"
proof -
  let ?i = "bucket_index h (key_hash h k)"
  let ?e = "\<lparr>el_ptr = next_ptr h, el_key = k, el_klen = key_len h k, el_data = d\<rparr>"
  let ?t = "rbtree_insert (hd_tree hdr) ?e (cmp_element_node (key_cmp_cb h))"
  have i: "?i < length bs"
    using bs(1) bucket_index_less [OF inv] by (simp add: ok_buckets_def)
  have ok: "head_ok kok h ?i hdr"
    using bs(1) i hdr(1) by (simp add: ok_buckets_def bucket_ok_def)
  have sub: "set (inorder (hd_tree hdr)) \<subseteq> elems h"
    using i hdr(1) by (auto simp: bs(2) [symmetric] table_elems_nth bucket_elems_def)
  have t: "rb_desc (el_cmp (key_cmp_cb h)) (eok (key_len h) kok) ?t" "set (inorder ?t) = insert ?e (set (inorder (hd_tree hdr)))"
    using key_order.insert_element [OF ko, of "hd_tree hdr" ?e] ok k new sub by (auto simp: head_ok_def eok_def)
  have "head_ok kok h ?i (hdr\<lparr>hd_tree := ?t\<rparr>)"
    using t ok hdr(2) by (auto simp: head_ok_def)
  note put = put_tree [OF bs(1) i hdr(1) this]
  have el: "table_elems (bs[?i := set_head_tree (hd_hash hdr) ?t (bs ! ?i)]) = insert ?e (elems h)"
    using put(2) t(2) sub bs(2) by auto
  show "res = mem_element mem"
    using r by (simp add: add_element_def Let_def split: if_splits)
  then show "elems h' = (if res then insert ?e (elems h) else elems h)"
    using r el bs(2) by (auto simp: add_element_def Let_def elems_def split: if_splits)
  have "unat (population h + 1) = card (insert ?e (elems h))"
    using inv new pop by (subst card_insert_disjoint) (auto simp: unat_Suc hash_inv_def)
  then show "hash_inv kok h'"
    using r el put(1) bs inv
    by (auto simp: add_element_def Let_def config_def hash_inv_def [of kok h] split: if_splits intro!: hash_inv_with [OF inv])
qed

lemma table_elems_NIL [simp]: "table_elems (replicate n NIL) = {}"
  by (auto simp: table_elems_def bucket_elems_def)

lemma ok_buckets_NIL: "n = unat (size_of h) \<Longrightarrow> ok_buckets kok h (replicate n NIL)"
  by (simp add: ok_buckets_def bucket_ok_def)

lemma add_in_buckets_ok:
  assumes ko: "key_order (key_cmp_cb h) (key_len h) kok" and inv: "hash_inv kok h" and k: "kok k"
    and new: "\<forall>e \<in> elems h. el_key e \<noteq> k" and pop: "population h \<noteq> - 1"
    and bs: "ok_buckets kok h bs" "table_elems bs = elems h"
    and r: "add_in_buckets mem h k (key_len h k) (key_hash h k) d bs = (res, h')"
  shows "hash_inv kok h' \<and> (mem = mem_all \<longrightarrow> res) \<and>
    elems h' = (if res then insert \<lparr>el_ptr = next_ptr h, el_key = k, el_klen = key_len h k, el_data = d\<rparr> (elems h)
                else elems h)"
proof -
  let ?i = "bucket_index h (key_hash h k)" and ?hh = "head_hash h (key_hash h k)"
  have i: "?i < length bs"
    using bs(1) bucket_index_less [OF inv] by (simp add: ok_buckets_def)
  then have b: "bucket_ok kok h ?i (bs ! ?i)"
    using bs(1) by (simp add: ok_buckets_def)
  consider (found) hdr where "eina_rbtree_inline_lookup (bs ! ?i) (cmp_hash ?hh) = Some hdr"
    | (fail) "eina_rbtree_inline_lookup (bs ! ?i) (cmp_hash ?hh) = None" "\<not> mem_head mem"
    | (new) "eina_rbtree_inline_lookup (bs ! ?i) (cmp_hash ?hh) = None" "mem_head mem"
    by (cases "eina_rbtree_inline_lookup (bs ! ?i) (cmp_hash ?hh)") auto
  then show ?thesis
  proof cases
    case found
    then have r': "add_element mem h k (key_len h k) (key_hash h k) d bs hdr = (res, h')"
      using r by (simp add: add_in_buckets_def)
    have "hdr \<in> set (inorder (bs ! ?i))" "hd_hash hdr = ?hh"
      using lookup_head [OF b head_hash_short] found by blast+
    from add_element_ok [OF ko inv k new pop bs this r'] show ?thesis
      by (auto simp: mem_all_def)
  next
    case fail
    then have h': "h' = h\<lparr>buckets := Some bs\<rparr>" "\<not> res"
      using r by (auto simp: add_in_buckets_def)
    with bs inv have "hash_inv kok h'"
      by (intro hash_inv_with [OF inv]) (auto simp: config_def hash_inv_def)
    with h' bs(2) fail show ?thesis
      by (auto simp: elems_def mem_all_def)
  next
    case new
    let ?bs = "bs[?i := rbtree_insert (bs ! ?i) \<lparr>hd_hash = ?hh, hd_tree = NIL\<rparr> cmp_head_node]"
    from new r have r': "add_element mem h k (key_len h k) (key_hash h k) d ?bs \<lparr>hd_hash = ?hh, hd_tree = NIL\<rparr> = (res, h')"
      by (simp add: add_in_buckets_def Let_def)
    have "\<forall>x \<in> set (inorder (bs ! ?i)). hd_hash x \<noteq> ?hh"
      using new lookup_head_None [OF b head_hash_short] by blast
    note ins = insert_head_ok [OF b head_hash_short this]
    have "ok_buckets kok h ?bs" "table_elems ?bs = elems h"
      "\<lparr>hd_hash = ?hh, hd_tree = NIL\<rparr> \<in> set (inorder (?bs ! ?i))"
      using ok_buckets_update [OF bs(1) ins(1)] table_elems_update [OF bs(1) i] ins(2,3) bs(2) i
      by (auto simp: table_elems_nth)
    from add_element_ok [OF ko inv k assms(4) pop this _ r'] show ?thesis
      by (auto simp: mem_all_def)
  qed
qed

lemma add_alloc_ok:
  assumes ko: "key_order (key_cmp_cb h) (key_len h) kok" and inv: "hash_inv kok h" and k: "kok k"
    and new: "\<forall>e \<in> elems h. el_key e \<noteq> k" and pop: "population h \<noteq> - 1"
    and r: "eina_hash_add_alloc_by_hash mem h (Some k) (key_len h k) (key_hash h k) (Some d) = (res, h')"
  shows "hash_inv kok h'" and "mem = mem_all \<Longrightarrow> res"
    and "elems h' = (if res then insert \<lparr>el_ptr = next_ptr h, el_key = k, el_klen = key_len h k, el_data = d\<rparr> (elems h)
                     else elems h)"
proof -
  consider (fail) "buckets h = None" "\<not> mem_buckets mem" "h' = h" "\<not> res"
    | (bs) bs where "ok_buckets kok h bs" "table_elems bs = elems h"
        "add_in_buckets mem h k (key_len h k) (key_hash h k) d bs = (res, h')"
  proof (cases "buckets h")
    case None
    show thesis
    proof (cases "mem_buckets mem")
      case True
      with None r ok_buckets_NIL [of "unat (size_of h)" h kok] show thesis
        by (intro that(2) [of "replicate (unat (size_of h)) NIL"])
          (simp_all add: eina_hash_add_alloc_by_hash_def elems_def)
    next
      case False
      with None r show thesis
        by (intro that(1)) (simp_all add: eina_hash_add_alloc_by_hash_def)
    qed
  next
    case (Some bs)
    then show thesis
      using r inv that(2) [of bs] by (simp add: eina_hash_add_alloc_by_hash_def elems_def hash_inv_def)
  qed
  then have "hash_inv kok h' \<and> (mem = mem_all \<longrightarrow> res) \<and>
    elems h' = (if res then insert \<lparr>el_ptr = next_ptr h, el_key = k, el_klen = key_len h k, el_data = d\<rparr> (elems h)
                else elems h)"
  proof cases
    case fail
    with inv show ?thesis by (auto simp: mem_all_def)
  next
    case bs
    then show ?thesis by (rule add_in_buckets_ok [OF ko inv k new pop])
  qed
  then show "hash_inv kok h'" "mem = mem_all \<Longrightarrow> res"
    "elems h' = (if res then insert \<lparr>el_ptr = next_ptr h, el_key = k, el_klen = key_len h k, el_data = d\<rparr> (elems h)
                 else elems h)"
    by blast+
qed


section \<open>Removal\<close>

lemma el_free_simps [simp]:
  "config (el_free e h) = config h" "size_of (el_free e h) = size_of h" "buckets (el_free e h) = buckets h"
  "population (el_free e h) = population h" "next_ptr (el_free e h) = next_ptr h"
  "freed (el_free e h) = el_ptr e # freed h"
  "freed_data (el_free e h) = (if data_free_cb h then el_data e # freed_data h else freed_data h)"
  "data_free_cb (el_free e h) = data_free_cb h"
  by (simp_all add: el_free_def Let_def config_def)

lemma hash_inv_None:
  assumes "hash_inv kok h" and "config h' = config h" and "size_of h' = size_of h"
    and "buckets h' = None" and "population h' = 0"
  shows "hash_inv kok h'"
  using assms by (auto simp: hash_inv_def elems_def config_def)

lemma remove_from_bucket:
  assumes ko: "key_order (key_cmp_cb h) (key_len h) kok" and bs: "ok_buckets kok h bs" and i: "i < length bs"
    and hdr: "hdr \<in> set (inorder (bs ! i))" and e: "e \<in> set (inorder (hd_tree hdr))"
  defines "b' \<equiv> remove_from_head h e hdr (bs ! i)"
  shows "ok_buckets kok h (bs[i := b'])" and "table_elems (bs[i := b']) = table_elems bs - {e}"
proof -
  define t where "t = rbtree_remove (hd_tree hdr) e (cmp_element_node (key_cmp_cb h))"
  define b where "b = set_head_tree (hd_hash hdr) t (bs ! i)"
  have b'_def: "b' = (if t = NIL then rbtree_remove b (hdr\<lparr>hd_tree := t\<rparr>) cmp_head_node else b)"
    by (simp add: b'_def remove_from_head_def Let_def t_def b_def)
  have ok: "head_ok kok h i hdr" and b0: "bucket_ok kok h i (bs ! i)"
    using bs i hdr by (auto simp: ok_buckets_def bucket_ok_def)
  have t: "rb_desc (el_cmp (key_cmp_cb h)) (eok (key_len h) kok) t" "set (inorder t) = set (inorder (hd_tree hdr)) - {e}"
    using key_order.remove_element [OF ko _ e] ok by (simp_all add: head_ok_def t_def)
  have ht: "head_ok kok h i (hdr\<lparr>hd_tree := t\<rparr>)"
    using t ok by (auto simp: head_ok_def)
  have b: "bucket_ok kok h i b" "bucket_elems b = bucket_elems (bs ! i) - {e}"
    using set_head_tree_ok [OF b0 hdr ht] set_head_tree_elems [OF b0 hdr, of t] t(2) hdr e
    by (auto simp: b_def bucket_elems_def)
  have "hdr\<lparr>hd_tree := t\<rparr> \<in> set (inorder b)"
    unfolding b_def by (rule hdr_in_set_head_tree [OF hdr])
  then have b': "bucket_ok kok h i b'" "bucket_elems b' = bucket_elems (bs ! i) - {e}"
    using remove_head_ok [OF b(1), of "hdr\<lparr>hd_tree := t\<rparr>"] b by (simp_all add: b'_def)
  show "ok_buckets kok h (bs[i := b'])"
    by (rule ok_buckets_update [OF bs b'(1)])
  have "bucket_elems (bs ! i) \<subseteq> table_elems bs" "e \<in> bucket_elems (bs ! i)"
    using i hdr e by (auto simp: table_elems_nth bucket_elems_def)
  then show "table_elems (bs[i := b']) = table_elems bs - {e}"
    unfolding table_elems_update [OF bs i] b'(2) by blast
qed

lemma del_by_hash_el_ok:
  assumes ko: "key_order (key_cmp_cb h) (key_len h) kok" and inv: "hash_inv kok h"
    and bs: "buckets h = Some bs" and i: "i < length bs"
    and hdr: "hdr \<in> set (inorder (bs ! i))" and e: "e \<in> set (inorder (hd_tree hdr))"
  defines "h' \<equiv> del_by_hash_el h e hdr i"
  shows "hash_inv kok h'" and "elems h' = elems h - {e}" and "config h' = config h"
    and "freed h' = el_ptr e # freed h" and "next_ptr h' = next_ptr h"
    and "freed_data h' = (if data_free_cb h then el_data e # freed_data h else freed_data h)"
    and "data_free_cb h' = data_free_cb h"
proof -
  have ok: "ok_buckets kok h bs"
    using inv bs by (simp add: hash_inv_def)
  note rem = remove_from_bucket [OF ko ok i hdr e]
  have mem: "e \<in> elems h"
    using bs i hdr e by (auto simp: elems_def table_elems_nth bucket_elems_def)
  then have "population h \<noteq> 0"
    using inv by (metis card_eq_0_iff empty_iff finite_elems hash_inv_def unat_0)
  then have pop: "unat (population h - 1) = card (elems h - {e})"
    using inv mem by (simp add: unat_minus_one hash_inv_def)
  have none: "elems h - {e} = {}" if "population h - 1 = 0"
    using pop that by simp
  show el: "elems h' = elems h - {e}"
    using bs rem(2) none by (auto simp: h'_def del_by_hash_el_def Let_def elems_def)
  show "config h' = config h" "freed h' = el_ptr e # freed h" "next_ptr h' = next_ptr h"
    "freed_data h' = (if data_free_cb h then el_data e # freed_data h else freed_data h)"
    "data_free_cb h' = data_free_cb h"
    using bs by (simp_all add: h'_def del_by_hash_el_def Let_def)
  show "hash_inv kok h'"
  proof (cases "population h - 1 = 0")
    case True
    then show ?thesis
      using bs by (intro hash_inv_None [OF inv]) (simp_all add: h'_def del_by_hash_el_def Let_def)
  next
    case False
    show ?thesis
    proof (rule hash_inv_with [OF inv])
      show "buckets h' = Some (bs[i := remove_from_head h e hdr (bs ! i)])"
        using False bs by (simp add: h'_def del_by_hash_el_def Let_def)
      show "unat (population h') = card (table_elems (bs[i := remove_from_head h e hdr (bs ! i)]))"
        using bs pop by (simp add: rem(2) h'_def del_by_hash_el_def Let_def elems_def)
    qed (use bs rem(1) in \<open>simp_all add: h'_def del_by_hash_el_def Let_def\<close>)
  qed
qed

lemma set_data_ok:
  fixes d
  assumes ko: "key_order (key_cmp_cb h) (key_len h) kok" and inv: "hash_inv kok h"
    and bs: "buckets h = Some bs" and i: "i < length bs"
    and hdr: "hdr \<in> set (inorder (bs ! i))" and e: "e \<in> set (inorder (hd_tree hdr))"
  defines "h' \<equiv> set_data h i hdr e d"
  shows "hash_inv kok h'" and "elems h' = insert (e\<lparr>el_data := d\<rparr>) (elems h - {e})"
    and "config h' = config h"
proof -
  let ?u = "\<lambda>x. if x = e then x\<lparr>el_data := d\<rparr> else x"
  let ?t = "update_node (\<lambda>x. x = e) (\<lambda>x. x\<lparr>el_data := d\<rparr>) (hd_tree hdr)"
  have ok: "ok_buckets kok h bs"
    using inv bs by (simp add: hash_inv_def)
  then have hok: "head_ok kok h i hdr"
    using i hdr by (simp add: ok_buckets_def bucket_ok_def)
  have t: "set (inorder ?t) = insert (e\<lparr>el_data := d\<rparr>) (set (inorder (hd_tree hdr)) - {e})"
    using e by auto
  have "head_ok kok h i (hdr\<lparr>hd_tree := ?t\<rparr>)"
    using hok e unfolding head_ok_def by (auto intro!: rb_desc_update_node simp: eok_def)
  note put = put_tree [OF ok i hdr this]
  have mem: "set (inorder (hd_tree hdr)) \<subseteq> elems h"
    using bs i hdr by (auto simp: elems_def table_elems_nth bucket_elems_def)
  have h': "h' = h\<lparr>buckets := Some (bs[i := set_head_tree (hd_hash hdr) ?t (bs ! i)])\<rparr>"
    using bs by (simp add: h'_def set_data_def)
  show el: "elems h' = insert (e\<lparr>el_data := d\<rparr>) (elems h - {e})"
    using put(2) t mem bs e by (auto simp: h' elems_def)
  have "x = e" if "x \<in> elems h" "el_key x = el_key e" for x
    using key_unique [OF ko inv that(1)] that(2) mem e by auto
  moreover have "card (elems h) = Suc (card (elems h - {e}))"
    using mem e by (intro card.remove) auto
  ultimately have "card (elems h') = card (elems h)"
    unfolding el by (subst card_insert_disjoint) auto
  then show "hash_inv kok h'"
    using put(1) inv unfolding h'
    by (intro hash_inv_with [OF inv]) (auto simp: config_def elems_def hash_inv_def)
  show "config h' = config h"
    by (simp add: h' config_def)
qed

end
