(* ===== verification/Eina_Hash_Map.thy ===== *)
theory Eina_Hash_Map
  imports Eina_Hash_Laws
begin

text \<open>
  The public operations of \<open>eina_hash.c\<close> as operations on a finite map: each is shown to
  keep the table's invariant and the discipline of the addresses, and to act on the
  abstraction \<open>hash_map\<close> the way the map operation does. Sequences of calls then refine
  sequences of map operations.
\<close>

section \<open>A table as a map\<close>

definition hash_ok :: "('k \<Rightarrow> bool) \<Rightarrow> ('k, 'd) hash \<Rightarrow> bool" where
  "hash_ok kok h \<longleftrightarrow> key_order (key_cmp_cb h) (key_len h) kok \<and> hash_inv kok h"

lemma hash_okD: "hash_ok kok h \<Longrightarrow> key_order (key_cmp_cb h) (key_len h) kok" "hash_ok kok h \<Longrightarrow> hash_inv kok h"
  by (simp_all add: hash_ok_def)

lemma hash_okI: "hash_ok kok h \<Longrightarrow> config h' = config h \<Longrightarrow> hash_inv kok h' \<Longrightarrow> hash_ok kok h'"
  using config_cong [of h' h] by (simp add: hash_ok_def)

lemma hash_map_Some: "hash_ok kok h \<Longrightarrow> hash_map h k = Some d \<longleftrightarrow> (\<exists>e \<in> elems h. el_key e = k \<and> el_data e = d)"
  unfolding hash_ok_def by (elim conjE) (rule hash_map_iff)

lemma hash_map_None: "hash_ok kok h \<Longrightarrow> hash_map h k = None \<longleftrightarrow> (\<forall>e \<in> elems h. el_key e \<noteq> k)"
  using hash_map_Some [of kok h k] by (cases "hash_map h k") auto

lemma hash_map_elem: "hash_ok kok h \<Longrightarrow> e \<in> elems h \<Longrightarrow> hash_map h (el_key e) = Some (el_data e)"
  using hash_map_Some [of kok h "el_key e" "el_data e"] by blast

lemma elem_unique: "hash_ok kok h \<Longrightarrow> e \<in> elems h \<Longrightarrow> x \<in> elems h \<Longrightarrow> el_key x = el_key e \<Longrightarrow> x = e"
  by (auto simp: hash_ok_def intro: key_unique)

lemma hash_map_insert:
  assumes h: "hash_ok kok h" and h': "hash_ok kok h'"
    and e: "elems h' = insert e (elems h - E)" "\<forall>x \<in> E. el_key x = el_key e"
      "\<forall>x \<in> elems h - E. el_key x \<noteq> el_key e"
  shows "hash_map h' = (hash_map h)(el_key e \<mapsto> el_data e)"
proof
  fix k
  show "hash_map h' k = ((hash_map h)(el_key e \<mapsto> el_data e)) k"
  proof (cases "k = el_key e")
    case True
    then show ?thesis
      using hash_map_elem [OF h', of e] e(1) by simp
  next
    case False
    then have "(\<exists>x \<in> elems h'. el_key x = k \<and> el_data x = d) \<longleftrightarrow> (\<exists>x \<in> elems h. el_key x = k \<and> el_data x = d)" for d
      unfolding e(1) using e(2) by auto
    then have "hash_map h' k = Some d \<longleftrightarrow> hash_map h k = Some d" for d
      by (simp add: hash_map_Some [OF h] hash_map_Some [OF h'])
    with False show ?thesis
      by (cases "hash_map h k") auto
  qed
qed

lemma hash_map_remove:
  assumes h: "hash_ok kok h" and h': "hash_ok kok h'"
    and e: "e \<in> elems h" "elems h' = elems h - {e}"
  shows "hash_map h' = (hash_map h)(el_key e := None)"
proof
  fix k
  show "hash_map h' k = ((hash_map h)(el_key e := None)) k"
  proof (cases "k = el_key e")
    case True
    then show ?thesis
      using hash_map_None [OF h', of k] elem_unique [OF h e(1)] e(2) by auto
  next
    case False
    then have "(\<exists>x \<in> elems h'. el_key x = k \<and> el_data x = d) \<longleftrightarrow> (\<exists>x \<in> elems h. el_key x = k \<and> el_data x = d)" for d
      using e by blast
    then have "hash_map h' k = Some d \<longleftrightarrow> hash_map h k = Some d" for d
      by (simp add: hash_map_Some [OF h] hash_map_Some [OF h'])
    with False show ?thesis
      by (cases "hash_map h k") auto
  qed
qed

lemma hash_map_same:
  assumes "hash_ok kok h" and "hash_ok kok h'" and "elems h' = elems h"
  shows "hash_map h' = hash_map h"
proof
  fix k
  have "hash_map h' k = Some d \<longleftrightarrow> hash_map h k = Some d" for d
    using assms by (simp add: hash_map_Some)
  then show "hash_map h' k = hash_map h k"
    by (cases "hash_map h k") auto
qed

text \<open>What the internal search returns.\<close>

lemma find_Some:
  assumes "hash_ok kok h" and "kok k"
    and "find_by_hash h k (key_len h k) data (key_hash h k) = Some (hdr, e)"
  obtains bs where "buckets h = Some bs" "bucket_index h (key_hash h k) < length bs"
    "hdr \<in> set (inorder (bs ! bucket_index h (key_hash h k)))" "e \<in> set (inorder (hd_tree hdr))"
    "e \<in> elems h" "el_key e = k" "data = None \<or> data = Some (el_data e)"
proof -
  from assms obtain bs where bs: "buckets h = Some bs" 
    "hdr \<in> set (inorder (bs ! bucket_index h (key_hash h k)))" "e \<in> set (inorder (hd_tree hdr))"
    "el_key e = k" "data = None \<or> data = Some (el_data e)"
    by (auto simp: hash_ok_def find_by_hash_iff)
  have "bucket_index h (key_hash h k) < length bs"
    using bs(1) assms(1) bucket_index_less [of kok h] by (simp add: hash_ok_def hash_inv_def ok_buckets_def)
  moreover have "e \<in> elems h"
    using find_by_hash_elems [of h kok k data e] assms by (auto simp: hash_ok_def)
  ultimately show ?thesis
    using that bs by blast
qed

lemma find_None:
  assumes "hash_ok kok h" and "kok k"
  shows "find_by_hash h k (key_len h k) data (key_hash h k) = None \<longleftrightarrow>
    \<not> (\<exists>d. hash_map h k = Some d \<and> (data = None \<or> data = Some d))"
proof -
  have "(\<exists>hdr e. find_by_hash h k (key_len h k) data (key_hash h k) = Some (hdr, e)) \<longleftrightarrow>
      (\<exists>e. e \<in> elems h \<and> el_key e = k \<and> (data = None \<or> data = Some (el_data e)))"
    using find_by_hash_elems [of h kok k data] assms by (simp add: hash_ok_def) blast
  then show ?thesis
    by (auto simp: hash_map_Some [OF assms(1)])
qed

lemma find_map:
  assumes "hash_ok kok h" and "kok k"
  shows "map_option (el_data \<circ> snd) (find_by_hash h k (key_len h k) None (key_hash h k)) = hash_map h k"
proof (cases "find_by_hash h k (key_len h k) None (key_hash h k)")
  case None
  then show ?thesis
    using find_None [OF assms, of None] by auto
next
  case (Some a)
  then obtain hdr e where f: "find_by_hash h k (key_len h k) None (key_hash h k) = Some (hdr, e)"
    by (cases a) simp
  from assms this obtain "e \<in> elems h" "el_key e = k"
    by (rule find_Some)
  with f show ?thesis
    using hash_map_elem [OF assms(1), of e] by simp
qed

lemma find_ok:
  assumes "hash_ok kok h" and "kok k"
  shows "eina_hash_find h (Some k) = hash_map h k"
proof (cases "population h = 0")
  case True
  then have "elems h = {}"
    using assms(1) by (simp add: hash_ok_def hash_inv_def)
  then show ?thesis
    using True hash_map_None [OF assms(1)] by (simp add: eina_hash_find_def)
next
  case False
  then show ?thesis
    using find_map [OF assms] by (simp add: eina_hash_find_def eina_hash_find_by_hash_def)
qed


section \<open>Addresses\<close>

text \<open>
  Every address is given out once: those of stored elements are different, were handed out
  before and have not been freed, and nothing is freed twice.
\<close>

definition ptr_inv :: "('k, 'd) hash \<Rightarrow> bool" where
  "ptr_inv h \<longleftrightarrow>
     inj_on el_ptr (elems h) \<and> distinct (freed h) \<and>
     (\<forall>e \<in> elems h. el_ptr e < next_ptr h \<and> el_ptr e \<notin> set (freed h)) \<and>
     (\<forall>p \<in> set (freed h). p < next_ptr h)"

lemma ptr_inv_same:
  "ptr_inv h \<Longrightarrow> elems h' = elems h \<Longrightarrow> next_ptr h' = next_ptr h \<Longrightarrow> freed h' = freed h \<Longrightarrow> ptr_inv h'"
  by (simp add: ptr_inv_def)

lemma ptr_inv_insert:
  assumes "ptr_inv h" and "elems h' = insert e (elems h)" and "el_ptr e = next_ptr h"
    and "next_ptr h' = Suc (next_ptr h)" and "freed h' = freed h"
  shows "ptr_inv h'"
proof -
  have "inj_on el_ptr (insert e (elems h))"
    using assms(1,3) by (auto simp: ptr_inv_def inj_on_insert)
  then show ?thesis
    using assms by (auto simp: ptr_inv_def less_Suc_eq)
qed

lemma ptr_inv_remove:
  assumes "ptr_inv h" and "e \<in> elems h" and "elems h' = elems h - {e}"
    and "next_ptr h' = next_ptr h" and "freed h' = el_ptr e # freed h"
  shows "ptr_inv h'"
proof -
  have "inj_on el_ptr (elems h - {e})"
    using assms(1) by (auto simp: ptr_inv_def intro: inj_on_subset)
  moreover have "el_ptr x \<noteq> el_ptr e" if "x \<in> elems h - {e}" for x
    using that assms(1,2) by (auto simp: ptr_inv_def dest: inj_onD)
  ultimately show ?thesis
    using assms by (auto simp: ptr_inv_def)
qed

lemma ptr_inv_update:
  assumes "ptr_inv h" and "e \<in> elems h" and "elems h' = insert e' (elems h - {e})"
    and "el_ptr e' = el_ptr e" and "next_ptr h' = next_ptr h" and "freed h' = freed h"
  shows "ptr_inv h'"
proof -
  have "\<forall>x \<in> elems h - {e}. el_ptr x \<noteq> el_ptr e"
    using assms(1,2) by (auto simp: ptr_inv_def dest: inj_onD)
  moreover have "inj_on el_ptr (elems h - {e})"
    using assms(1) by (auto simp: ptr_inv_def intro: inj_on_subset)
  ultimately have "inj_on el_ptr (insert e' (elems h - {e}))"
    by (auto simp: inj_on_insert assms(4))
  then show ?thesis
    using assms by (auto simp: ptr_inv_def)
qed

section \<open>Operations\<close>

text \<open>Tables with a sound memory; every operation keeps this and acts on the map.\<close>

definition table :: "('k \<Rightarrow> bool) \<Rightarrow> ('k, 'd) hash \<Rightarrow> bool" where
  "table kok h \<longleftrightarrow> hash_ok kok h \<and> ptr_inv h"

lemma add_frame:
  assumes "eina_hash_add_alloc_by_hash mem h key klen kh data = (res, h')"
  shows "config h' = config h \<and> next_ptr h' = (if res then Suc (next_ptr h) else next_ptr h) \<and>
    freed h' = freed h \<and> freed_data h' = freed_data h \<and> data_free_cb h' = data_free_cb h \<and>
    population h' = (if res then population h + 1 else population h)"
  using assms
  by (auto simp: eina_hash_add_alloc_by_hash_def add_in_buckets_def add_element_def Let_def
      split: option.splits if_splits)

lemma add_ok:
  assumes "table kok h" and "kok k" and "hash_map h k = None" and "population h \<noteq> - 1"
    and r: "eina_hash_add_alloc_by_hash mem h (Some k) (key_len h k) (key_hash h k) (Some d) = (res, h')"
  shows "table kok h'" and "mem = mem_all \<Longrightarrow> res"
    and "hash_map h' = (if res then (hash_map h)(k \<mapsto> d) else hash_map h)"
proof -
  let ?e = "\<lparr>el_ptr = next_ptr h, el_key = k, el_klen = key_len h k, el_data = d\<rparr>"
  have ok: "hash_ok kok h" and ptr: "ptr_inv h"
    using assms(1) by (simp_all add: table_def)
  have new: "\<forall>e \<in> elems h. el_key e \<noteq> k"
    using assms(3) hash_map_None [OF ok] by blast
  note add = add_alloc_ok [OF hash_okD [OF ok] assms(2) new assms(4) r]
  note fr = add_frame [OF r]
  have ok': "hash_ok kok h'"
    using hash_okI [OF ok _ add(1)] fr by blast
  show "mem = mem_all \<Longrightarrow> res"
    by (rule add(2))
  show "table kok h'"
    unfolding table_def using ok' add(3) fr ptr
    by (cases res) (auto intro: ptr_inv_same ptr_inv_insert [of h h' ?e])
  show "hash_map h' = (if res then (hash_map h)(k \<mapsto> d) else hash_map h)"
    using hash_map_insert [OF ok ok', of ?e "{}"] hash_map_same [OF ok ok'] add(3) new by (cases res) auto
qed

lemma del_el_ok:
  assumes "table kok h" and "kok k"
    and f: "find_by_hash h k (key_len h k) data (key_hash h k) = Some (hdr, e)"
  defines "h' \<equiv> del_by_hash_el h e hdr (bucket_index h (key_hash h k))"
  shows "table kok h'" and "hash_map h' = (hash_map h)(k := None)" and "config h' = config h"
    and "freed h' = el_ptr e # freed h"
    and "freed_data h' = (if data_free_cb h then el_data e # freed_data h else freed_data h)"
    and "data_free_cb h' = data_free_cb h"
proof -
  have ok: "hash_ok kok h" and ptr: "ptr_inv h"
    using assms(1) by (simp_all add: table_def)
  obtain bs where bs: "buckets h = Some bs" "bucket_index h (key_hash h k) < length bs"
    "hdr \<in> set (inorder (bs ! bucket_index h (key_hash h k)))" "e \<in> set (inorder (hd_tree hdr))"
    and e: "e \<in> elems h" "el_key e = k"
    using ok assms(2) f by (rule find_Some)
  note del = del_by_hash_el_ok [OF hash_okD [OF ok] bs, folded h'_def]
  have ok': "hash_ok kok h'"
    using hash_okI [OF ok del(3,1)] .
  show "hash_map h' = (hash_map h)(k := None)"
    using hash_map_remove [OF ok ok' e(1) del(2)] e(2) by simp
  show "table kok h'"
    using ok' ptr_inv_remove [OF ptr e(1) del(2,5,4)] by (simp add: table_def)
  show "config h' = config h" "freed h' = el_ptr e # freed h" "data_free_cb h' = data_free_cb h"
    "freed_data h' = (if data_free_cb h then el_data e # freed_data h else freed_data h)"
    using del by simp_all
qed

lemma set_data_map:
  fixes d
  assumes "table kok h" and "kok k"
    and f: "find_by_hash h k (key_len h k) data (key_hash h k) = Some (hdr, e)"
  defines "h' \<equiv> set_data h (bucket_index h (key_hash h k)) hdr e d"
  shows "table kok h'" and "hash_map h' = (hash_map h)(k \<mapsto> d)" and "freed h' = freed h"
    and "freed_data h' = freed_data h" and "population h' = population h"
proof -
  have ok: "hash_ok kok h" and ptr: "ptr_inv h"
    using assms(1) by (simp_all add: table_def)
  obtain bs where bs: "buckets h = Some bs" "bucket_index h (key_hash h k) < length bs"
    "hdr \<in> set (inorder (bs ! bucket_index h (key_hash h k)))" "e \<in> set (inorder (hd_tree hdr))"
    and e: "e \<in> elems h" "el_key e = k"
    using ok assms(2) f by (rule find_Some)
  note upd = set_data_ok [OF hash_okD [OF ok] bs, of d, folded h'_def]
  have ok': "hash_ok kok h'"
    using hash_okI [OF ok upd(3,1)] .
  show fr: "freed h' = freed h" "freed_data h' = freed_data h" "population h' = population h"
    using bs(1) by (simp_all add: h'_def set_data_def)
  have np: "next_ptr h' = next_ptr h"
    using bs(1) by (simp add: h'_def set_data_def)
  show "hash_map h' = (hash_map h)(k \<mapsto> d)"
  proof -
    have "\<forall>x \<in> elems h - {e}. el_key x \<noteq> k"
    proof (intro ballI notI)
      fix x assume x: "x \<in> elems h - {e}" "el_key x = k"
      then have "x = e"
        by (intro elem_unique [OF ok e(1)]) (simp_all add: e(2))
      with x show False by simp
    qed
    with hash_map_insert [OF ok ok' upd(2)] e(2) show ?thesis by simp
  qed
  show "table kok h'"
    using ok' ptr_inv_update [OF ptr e(1) upd(2) _ np fr(1)] by (simp add: table_def)
qed


lemma table_free_cb [simp]:
  "key_len (h\<lparr>data_free_cb := cb\<rparr>) = key_len h" "key_hash (h\<lparr>data_free_cb := cb\<rparr>) = key_hash h"
  "bucket_index (h\<lparr>data_free_cb := cb\<rparr>) = bucket_index h" "head_hash (h\<lparr>data_free_cb := cb\<rparr>) = head_hash h"
  "elems (h\<lparr>data_free_cb := cb\<rparr>) = elems h" "elements (h\<lparr>data_free_cb := cb\<rparr>) = elements h"
  "table kok (h\<lparr>data_free_cb := cb\<rparr>) = table kok h" "hash_map (h\<lparr>data_free_cb := cb\<rparr>) = hash_map h"
  "find_by_hash (h\<lparr>data_free_cb := cb\<rparr>) = find_by_hash h"
proof -
  let ?h = "h\<lparr>data_free_cb := cb\<rparr>"
  show c: "key_len ?h = key_len h" "key_hash ?h = key_hash h" "bucket_index ?h = bucket_index h" "head_hash ?h = head_hash h"
    using config_cong [of ?h h] by simp_all
  show el: "elems ?h = elems h" "elements ?h = elements h"
    by (simp_all add: elems_def elements_def)
  show "table kok ?h = table kok h"
    using c el bucket_ok_cong [of ?h h]
    by (simp add: table_def hash_ok_def hash_inv_def ptr_inv_def ok_buckets_def cong: option.case_cong)
  show "hash_map ?h = hash_map h"
    by (simp add: fun_eq_iff hash_map_def el)
  show "find_by_hash ?h = find_by_hash h"
    by (intro ext) (simp add: find_by_hash_def c cong: option.case_cong)
qed

lemma del_key_ok:
  assumes "table kok h" and "kok k" and r: "eina_hash_del h (Some k) data = (res, h')"
  shows "table kok h'" and "res \<longleftrightarrow> (\<exists>d. hash_map h k = Some d \<and> (data = None \<or> data = Some d))"
    and "hash_map h' = (if res then (hash_map h)(k := None) else hash_map h)" and "config h' = config h"
    and "freed_data h' = (if res \<and> data_free_cb h then the (hash_map h k) # freed_data h else freed_data h)"
    and "data_free_cb h' = data_free_cb h"
proof -
  have ok: "hash_ok kok h"
    using assms(1) by (simp add: table_def)
  have r': "del_by_key_hash h (Some k) (key_len h k) (key_hash h k) data = (res, h')"
    using r by (auto simp: eina_hash_del_def eina_hash_del_by_key_data_def del_by_key_hash_def find_by_hash_def
        split: if_splits)
  have "table kok h' \<and> (res \<longleftrightarrow> (\<exists>d. hash_map h k = Some d \<and> (data = None \<or> data = Some d))) \<and>
    hash_map h' = (if res then (hash_map h)(k := None) else hash_map h) \<and> config h' = config h \<and>
    freed_data h' = (if res \<and> data_free_cb h then the (hash_map h k) # freed_data h else freed_data h) \<and>
    data_free_cb h' = data_free_cb h"
  proof (cases "find_by_hash h k (key_len h k) data (key_hash h k)")
    case None
    then have "h' = h" "\<not> res"
      using r' by (simp_all add: del_by_key_hash_def)
    then show ?thesis
      using None find_None [OF ok assms(2), of data] assms(1) by auto
  next
    case (Some a)
    then obtain hdr e where f: "find_by_hash h k (key_len h k) data (key_hash h k) = Some (hdr, e)"
      by (cases a) simp
    with r' have h': "h' = del_by_hash_el h e hdr (bucket_index h (key_hash h k))" "res"
      by (simp_all add: del_by_key_hash_def)
    have "hash_map h k = Some (el_data e)"
      using ok assms(2) f by (rule find_Some) (use hash_map_elem [OF ok] in blast)
    then show ?thesis
      using del_el_ok [OF assms(1,2) f, folded h'(1)] h'(2) find_None [OF ok assms(2), of data] f by auto
  qed
  then show "table kok h'" "res \<longleftrightarrow> (\<exists>d. hash_map h k = Some d \<and> (data = None \<or> data = Some d))"
    "hash_map h' = (if res then (hash_map h)(k := None) else hash_map h)" "config h' = config h"
    "freed_data h' = (if res \<and> data_free_cb h then the (hash_map h k) # freed_data h else freed_data h)"
    "data_free_cb h' = data_free_cb h"
    by blast+
qed

lemma modify_ok:
  assumes "table kok h" and "kok k" and r: "eina_hash_modify h (Some k) (Some d) = (old, h')"
  shows "table kok h' \<and> old = hash_map h k \<and> freed_data h' = freed_data h \<and>
    hash_map h' = (if hash_map h k = None then hash_map h else (hash_map h)(k \<mapsto> d))"
proof -
  have ok: "hash_ok kok h"
    using assms(1) by (simp add: table_def)
  show ?thesis
  proof (cases "find_by_hash h k (key_len h k) None (key_hash h k)")
    case None
    then show ?thesis
      using r find_map [OF ok assms(2)] assms(1)
      by (simp add: eina_hash_modify_def eina_hash_modify_by_hash_def)
  next
    case (Some a)
    then obtain hdr e where f: "find_by_hash h k (key_len h k) None (key_hash h k) = Some (hdr, e)"
      by (cases a) simp
    show ?thesis
      using r set_data_map [OF assms(1,2) f, of d] find_map [OF ok assms(2)] f
      by (auto simp: eina_hash_modify_def eina_hash_modify_by_hash_def)
  qed
qed

lemma set_ok:
  assumes "table kok h" and "kok k" and "population h \<noteq> - 1"
    and r: "eina_hash_set mem h (Some k) data = (old, h')"
  shows "table kok h' \<and> old = hash_map h k \<and> freed_data h' = freed_data h \<and>
    (mem = mem_all \<or> hash_map h k \<noteq> None \<longrightarrow> hash_map h' = (hash_map h)(k := data)) \<and>
    (hash_map h' = (hash_map h)(k := data) \<or> hash_map h' = hash_map h)"
proof -
  have ok: "hash_ok kok h"
    using assms(1) by (simp add: table_def)
  show ?thesis
  proof (cases "find_by_hash h k (key_len h k) None (key_hash h k)")
    case None
    then have new: "hash_map h k = None"
      using find_map [OF ok assms(2)] by simp
    show ?thesis
    proof (cases data)
      case None2: None
      then show ?thesis
        using r None new assms(1) by (auto simp: eina_hash_set_def Let_def)
    next
      case (Some d)
      obtain res h2 where add: "eina_hash_add_alloc_by_hash mem h (Some k) (key_len h k) (key_hash h k) (Some d) = (res, h2)"
        by (cases "eina_hash_add_alloc_by_hash mem h (Some k) (key_len h k) (key_hash h k) (Some d)")
      with r None Some have "h' = h2" "old = None"
        by (auto simp: eina_hash_set_def Let_def)
      then show ?thesis
        using add_ok [OF assms(1,2) new assms(3) add] add_frame [OF add] Some new by auto
    qed
  next
    case (Some a)
    then obtain hdr e where f: "find_by_hash h k (key_len h k) None (key_hash h k) = Some (hdr, e)"
      by (cases a) simp
    then have old: "hash_map h k = Some (el_data e)"
      using find_map [OF ok assms(2)] by simp
    show ?thesis
    proof (cases data)
      case None
      let ?h = "h\<lparr>data_free_cb := False\<rparr>"
      have f2: "find_by_hash ?h k (key_len ?h k) None (key_hash ?h k) = Some (hdr, e)"
        using f by simp
      show ?thesis
        using r f None old del_el_ok [of kok ?h k None hdr e, OF _ assms(2) f2] assms(1)
        by (auto simp: eina_hash_set_def Let_def)
    next
      case (Some d)
      then show ?thesis
        using r f old set_data_map [OF assms(1,2) f, of d] by (auto simp: eina_hash_set_def Let_def)
    qed
  qed
qed


lemma dom_hash_map: "hash_ok kok h \<Longrightarrow> dom (hash_map h) = el_key ` elems h"
  using hash_map_Some [of kok h] by auto

lemma population_ok:
  assumes "hash_ok kok h"
  shows "unat (population h) = card (dom (hash_map h))"
proof -
  have "inj_on el_key (elems h)"
    by (intro inj_onI) (auto intro: elem_unique [OF assms])
  then show ?thesis
    using assms by (simp add: dom_hash_map [OF assms] card_image hash_ok_def hash_inv_def)
qed

lemma population_max: "hash_ok kok h \<Longrightarrow> Suc (card (dom (hash_map h))) < 2 ^ 32 \<Longrightarrow> population h \<noteq> - 1"
  using population_ok [of kok h] by (auto simp: unsigned_minus_1_eq_mask mask_eq_exp_minus_1)

lemma api_add_ok:
  assumes "table kok h" and "kok k" and "hash_map h k = None" and "population h \<noteq> - 1"
    and r: "eina_hash_add mem h (Some k) (Some d) = (res, h')"
  shows "table kok h' \<and> (mem = mem_all \<longrightarrow> res) \<and>
    hash_map h' = (if res then (hash_map h)(k \<mapsto> d) else hash_map h) \<and>
    freed_data h' = freed_data h \<and> data_free_cb h' = data_free_cb h"
proof -
  have "eina_hash_add_alloc_by_hash mem h (Some k) (key_len h k) (key_hash h k) (Some d) = (res, h')"
    using r by (simp add: eina_hash_add_def)
  from add_ok [OF assms(1-4) this] add_frame [OF this] show ?thesis by blast
qed

lemma move_ok:
  assumes "table kok h" and "kok a" and "kok b" and old: "hash_map h a = Some d"
    and new: "a = b \<or> hash_map h b = None"
    and r: "eina_hash_move mem_all h (Some a) (Some b) = (res, h')"
  shows "table kok h' \<and> res \<and> hash_map h' = (hash_map h)(a := None, b \<mapsto> d) \<and> freed_data h' = freed_data h"
proof -
  let ?h = "h\<lparr>data_free_cb := False\<rparr>"
  have tab: "table kok ?h" and ok: "hash_ok kok h"
    using assms(1) by (simp_all add: table_def [of _ h])
  obtain res1 h1 where del: "eina_hash_del ?h (Some a) (Some d) = (res1, h1)"
    by (cases "eina_hash_del ?h (Some a) (Some d)")
  note d1 = del_key_ok [OF tab assms(2) del]
  have m1: "hash_map h1 = (hash_map h)(a := None)"
    using d1(2,3) old by simp
  have "hash_ok kok h1"
    using d1(1) by (simp add: table_def)
  moreover have "Suc (card (dom (hash_map h1))) < 2 ^ 32"
  proof -
    have "finite (dom (hash_map h))"
      by (simp add: dom_hash_map [OF ok])
    moreover have "a \<in> dom (hash_map h)"
      using old by blast
    ultimately have "Suc (card (dom (hash_map h1))) = card (dom (hash_map h))"
      by (simp only: m1 dom_fun_upd simp_thms if_True card_Suc_Diff1)
    also have "\<dots> = unat (population h)"
      using population_ok [OF ok] by simp
    also have "\<dots> < 2 ^ 32"
      using unsigned_less [of "population h", where ?'a = nat] by simp
    finally show ?thesis .
  qed
  ultimately have pop: "population h1 \<noteq> - 1"
    by (rule population_max)
  obtain res2 h2 where add: "eina_hash_add mem_all h1 (Some b) (Some d) = (res2, h2)"
    by (cases "eina_hash_add mem_all h1 (Some b) (Some d)")
  have "hash_map h1 b = None"
    using m1 new by auto
  note a2 = api_add_ok [OF d1(1) assms(3) this pop add]
  have "eina_hash_find h (Some a) = Some d"
    using find_ok [OF ok assms(2)] old by simp
  then have "h' = h2\<lparr>data_free_cb := data_free_cb h\<rparr>" "res = res2"
    using r del add by (auto simp: eina_hash_move_def)
  then show ?thesis
    using a2 m1 d1(5) by simp
qed

section \<open>Freeing the table\<close>

text \<open>The order in which \<open>eina_rbtree_delete\<close> visits the nodes.\<close>

fun delete_order :: "'a rbtree \<Rightarrow> 'a list" where
  "delete_order NIL = []"
| "delete_order (Node c x l r) = delete_order l @ delete_order r @ [x]"

lemma rbtree_delete_fold: "eina_rbtree_delete t (Some f) s = fold f (delete_order t) s"
  by (induction t arbitrary: s) auto

lemma mset_delete_order [simp]: "mset (delete_order t) = mset (inorder t)"
  by (induction t) auto

definition free_list :: "('k, 'd) head rbtree list \<Rightarrow> ('k, 'd) element list" where
  "free_list bs = concat (map (\<lambda>hdr. delete_order (hd_tree hdr)) (concat (map delete_order bs)))"

lemma fold_concat: "fold f (concat (map g xs)) s = fold (\<lambda>x. fold f (g x)) xs s"
  by (induction xs arbitrary: s) auto

lemma free_all_fold: "free_all bs h = fold el_free (free_list bs) h"
proof -
  have hf: "head_free = (\<lambda>hdr. fold el_free (delete_order (hd_tree hdr)))"
    by (simp add: fun_eq_iff head_free_def rbtree_delete_fold)
  show ?thesis
    unfolding free_all_def free_list_def rbtree_delete_fold hf by (simp add: fold_concat)
qed

lemma mset_concat_map: "mset (concat (map f xs)) = \<Sum>\<^sub># (image_mset (\<lambda>x. mset (f x)) (mset xs))"
  by (induction xs) auto

lemma concat_map_concat: "concat (map f (concat xss)) = concat (map (\<lambda>xs. concat (map f xs)) xss)"
  by (induction xss) auto

lemma mset_free_list:
  assumes "buckets h = Some bs"
  shows "mset (free_list bs) = mset (elements h)"
proof -
  have "mset (concat (map delete_order bs)) = mset (concat (map inorder bs))"
    by (simp add: mset_concat_map)
  moreover have "elements h = concat (map (\<lambda>hdr. inorder (hd_tree hdr)) (concat (map inorder bs)))"
    using assms by (simp add: elements_def concat_map_concat comp_def)
  ultimately show ?thesis
    by (simp add: free_list_def mset_concat_map)
qed

lemma fold_el_free:
  "config (fold el_free es h) = config h \<and> size_of (fold el_free es h) = size_of h \<and>
   next_ptr (fold el_free es h) = next_ptr h \<and> freed (fold el_free es h) = rev (map el_ptr es) @ freed h \<and>
   freed_data (fold el_free es h) = (if data_free_cb h then rev (map el_data es) @ freed_data h else freed_data h) \<and>
   data_free_cb (fold el_free es h) = data_free_cb h"
  by (induction es arbitrary: h) auto



lemma distinct_concat_keyed:
  assumes "distinct (map g xs)" and "\<forall>x \<in> set xs. distinct (f x) \<and> (\<forall>y \<in> set (f x). key y = g x)"
  shows "distinct (concat (map f xs))"
  using assms by (induction xs) fastforce+

lemma distinct_bucket:
  assumes "bucket_ok kok h i b" and "key_order (key_cmp_cb h) (key_len h) kok"
  shows "distinct (concat (map (\<lambda>hdr. inorder (hd_tree hdr)) (inorder b)))"
proof (rule distinct_concat_keyed [where g = hd_hash and key = "\<lambda>e. head_hash h (key_hash h (el_key e))"])
  have "distinct (inorder b)"
    using assms(1) by (intro hd.desc_distinct) (simp add: bucket_ok_def)
  moreover have "inj_on hd_hash (set (inorder b))"
    by (intro inj_onI head_unique [OF assms(1)])
  ultimately show "distinct (map hd_hash (inorder b))"
    by (simp add: distinct_map)
  have "distinct (inorder t)" if "rb_desc (el_cmp (key_cmp_cb h)) (eok (key_len h) kok) t" for t :: "('a, 'b) element rbtree"
    using key_order.distinct_tree [OF assms(2) that] .
  then show "\<forall>x \<in> set (inorder b). distinct (inorder (hd_tree x)) \<and>
      (\<forall>y \<in> set (inorder (hd_tree x)). head_hash h (key_hash h (el_key y)) = hd_hash x)"
    using assms(1) by (simp add: bucket_ok_def head_ok_def)
qed

lemma distinct_elements:
  assumes "hash_ok kok h"
  shows "distinct (elements h)"
proof (cases "buckets h")
  case None
  then show ?thesis by (simp add: elements_def)
next
  case (Some bs)
  let ?f = "\<lambda>b. concat (map (\<lambda>hdr. inorder (hd_tree hdr)) (inorder b))"
  have bs: "\<forall>i < length bs. bucket_ok kok h i (bs ! i)"
    using assms Some by (simp add: hash_ok_def hash_inv_def ok_buckets_def)
  have "distinct (concat (map (\<lambda>i. ?f (bs ! i)) [0..<length bs]))"
  proof (rule distinct_concat_keyed [where g = id and key = "\<lambda>e. bucket_index h (key_hash h (el_key e))"])
    have "distinct (?f (bs ! i))" if "i < length bs" for i
      using bs that by (intro distinct_bucket [OF _ hash_okD(1) [OF assms]]) blast
    then show "\<forall>i \<in> set [0..<length bs]. distinct (?f (bs ! i)) \<and>
        (\<forall>y \<in> set (?f (bs ! i)). bucket_index h (key_hash h (el_key y)) = id i)"
      using bs by (auto simp: bucket_ok_def head_ok_def)
  qed simp
  moreover have "map (\<lambda>i. ?f (bs ! i)) [0..<length bs] = map ?f bs"
    by (intro nth_equalityI) simp_all
  ultimately show ?thesis
    using Some by (simp add: elements_def)
qed

lemma free_buckets_ok:
  assumes "table kok h" 
  defines "h' \<equiv> eina_hash_free_buckets h"
  shows "table kok h'" and "hash_map h' = Map.empty" and "population h' = 0"
    and "mset (freed h') = mset (map el_ptr (elements h)) + mset (freed h)"
    and "mset (freed_data h') = (if data_free_cb h then mset (map el_data (elements h)) else {#}) + mset (freed_data h)"
proof -
  have ok: "hash_ok kok h" and ptr: "ptr_inv h"
    using assms(1) by (simp_all add: table_def)
  have facts: "mset (freed h') = mset (map el_ptr (elements h)) + mset (freed h) \<and>
    mset (freed_data h') = (if data_free_cb h then mset (map el_data (elements h)) else {#}) + mset (freed_data h) \<and>
    config h' = config h \<and> size_of h' = size_of h \<and> next_ptr h' = next_ptr h \<and> buckets h' = None \<and> population h' = 0"
  proof (cases "buckets h")
    case None
    then show ?thesis
      using ok by (simp add: h'_def eina_hash_free_buckets_def elements_def hash_ok_def hash_inv_def elems_def
          unat_eq_0)
  next
    case (Some bs)
    then show ?thesis
      using mset_free_list [OF Some] fold_el_free [of "free_list bs" h]
      by (simp add: h'_def eina_hash_free_buckets_def free_all_fold mset_map [symmetric] del: mset_map) simp
  qed
  then show "population h' = 0"
    "mset (freed h') = mset (map el_ptr (elements h)) + mset (freed h)"
    "mset (freed_data h') = (if data_free_cb h then mset (map el_data (elements h)) else {#}) + mset (freed_data h)"
    by blast+
  have ok': "hash_ok kok h'"
    using facts hash_okI [OF ok _ hash_inv_None [OF hash_okD(2) [OF ok]]] by blast
  have el: "elems h' = {}"
    using facts by (simp add: elems_def)
  then show "hash_map h' = Map.empty"
    using hash_map_None [OF ok'] by auto
  have "inj_on el_ptr (set (elements h))"
    using ptr by (simp add: ptr_inv_def set_elements)
  then have "distinct (map el_ptr (elements h) @ freed h)"
    using ptr distinct_elements [OF ok] by (auto simp: ptr_inv_def distinct_map set_elements)
  moreover have "mset (freed h') = mset (map el_ptr (elements h) @ freed h)"
    using facts by simp
  ultimately have "distinct (freed h')" "set (freed h') = el_ptr ` elems h \<union> set (freed h)"
    by (metis mset_eq_imp_distinct_iff, metis set_append set_elements set_map mset_eq_setD)
  then show "table kok h'"
    using ok' el ptr facts by (auto simp: table_def ptr_inv_def)
qed


section \<open>Removal by data\<close>

lemma bucket_index_of_nat:
  assumes "hash_inv kok h" and "i < unat (size_of h)"
  shows "bucket_index h (of_nat i) = i"
proof -
  let ?p = "buckets_power_size h"
  have p: "?p \<le> 16" and m: "mask_of h = mask ?p" and s: "size_of h = 2 ^ ?p"
    using assms(1) by (auto simp: hash_inv_def mask_eq_exp_minus_1 push_bit_eq_mult)
  have lt: "(2 :: nat) ^ ?p < 2 ^ 32"
    using p by (intro power_strict_increasing) simp_all
  have "unat (2 ^ ?p :: u32) = unat (of_nat (2 ^ ?p) :: u32)"
    by simp
  also have "\<dots> = 2 ^ ?p"
    using lt by (subst unat_of_nat) simp
  finally have i: "i < 2 ^ ?p"
    using assms(2) s by simp
  have "unat (of_nat i :: u32) = i"
    using i lt by (subst unat_of_nat) simp
  with i show ?thesis
    by (simp add: bucket_index_def m take_bit_eq_mask [symmetric] unsigned_take_bit_eq take_bit_nat_eq_self)
qed

lemma first_some_Some: "first_some f xs = Some y \<Longrightarrow> \<exists>x \<in> set xs. f x = Some y"
  by (induction xs) (auto split: option.splits)

lemma first_some_None: "first_some f xs = None \<longleftrightarrow> (\<forall>x \<in> set xs. f x = None)"
  by (induction xs) (auto split: option.splits)

lemma set_walk_prefix [simp]: "set (walk PREFIX_MASK t) = set (inorder t)"
  by (simp add: walk_masks)

lemma find_by_data_Some:
  assumes "hash_ok kok h" and "find_by_data h d = Some (i, hdr, e)"
  obtains bs where "buckets h = Some bs" "i < length bs" "hdr \<in> set (inorder (bs ! i))"
    "e \<in> set (inorder (hd_tree hdr))" "el_data e = d" "e \<in> elems h" "bucket_index h (of_nat i) = i"
proof -
  obtain bs where bs: "buckets h = Some bs"
    using assms(2) by (auto simp: find_by_data_def split: option.splits)
  have len: "length bs = unat (size_of h)"
    using assms(1) bs by (simp add: hash_ok_def hash_inv_def ok_buckets_def)
  have i: "i < length bs" "hdr \<in> set (inorder (bs ! i))" "e \<in> set (inorder (hd_tree hdr))" "el_data e = d"
    using assms(2) bs len
    by (auto simp: find_by_data_def find_data_in_head_def find_Some_iff dest!: first_some_Some)
      (metis nth_mem set_walk_prefix)
  moreover from bs i have "e \<in> elems h"
    by (auto simp: elems_def table_elems_nth bucket_elems_def)
  moreover have "bucket_index h (of_nat i) = i"
    using i(1) len bucket_index_of_nat [OF hash_okD(2) [OF assms(1)]] by simp
  ultimately show ?thesis
    using that bs by blast
qed


lemma find_by_data_None:
  assumes "hash_ok kok h" and "find_by_data h d = None"
  shows "\<forall>e \<in> elems h. el_data e \<noteq> d"
proof (cases "buckets h")
  case None
  then show ?thesis by (simp add: elems_def)
next
  case (Some bs)
  then have "length bs = unat (size_of h)"
    using assms(1) by (simp add: hash_ok_def hash_inv_def ok_buckets_def)
  then have "\<forall>i < length bs. \<forall>hdr \<in> set (inorder (bs ! i)). find_data_in_head d hdr = None"
    using assms(2) Some by (simp add: find_by_data_def first_some_None)
  then show ?thesis
    using Some by (auto simp: elems_def table_elems_nth bucket_elems_def find_data_in_head_def find_None_iff)
qed

lemma del_by_data_ok:
  assumes "table kok h" and r: "eina_hash_del_by_data h (Some d) = (res, h')"
  shows "table kok h' \<and> (res \<longleftrightarrow> d \<in> ran (hash_map h)) \<and>
    (if res then \<exists>k. hash_map h k = Some d \<and> hash_map h' = (hash_map h)(k := None) else h' = h)"
proof -
  have ok: "hash_ok kok h" and ptr: "ptr_inv h"
    using assms(1) by (simp_all add: table_def)
  show ?thesis
  proof (cases "find_by_data h d")
    case None
    then have "d \<notin> ran (hash_map h)"
      using find_by_data_None [OF ok] by (auto simp: ran_def hash_map_Some [OF ok])
    then show ?thesis
      using r None assms(1) by (simp add: eina_hash_del_by_data_def)
  next
    case (Some a)
    then obtain i hdr e where f: "find_by_data h d = Some (i, hdr, e)"
      by (cases a) simp
    from ok f obtain bs where bs: "buckets h = Some bs" "i < length bs" "hdr \<in> set (inorder (bs ! i))"
      "e \<in> set (inorder (hd_tree hdr))" and e: "el_data e = d" "e \<in> elems h" and i: "bucket_index h (of_nat i) = i"
      by (rule find_by_data_Some)
    have h': "h' = del_by_hash_el h e hdr i" "res"
      using r f e(1) i by (simp_all add: eina_hash_del_by_data_def)
    note del = del_by_hash_el_ok [OF hash_okD [OF ok] bs, folded h'(1)]
    have ok': "hash_ok kok h'"
      using hash_okI [OF ok del(3,1)] .
    have "table kok h'"
      using ok' ptr_inv_remove [OF ptr e(2) del(2,5,4)] by (simp add: table_def)
    moreover have "hash_map h (el_key e) = Some d" "hash_map h' = (hash_map h)(el_key e := None)"
      using hash_map_elem [OF ok e(2)] e(1) hash_map_remove [OF ok ok' e(2) del(2)] by simp_all
    ultimately show ?thesis
      using h'(2) by (auto intro: ranI)
  qed
qed

section \<open>The interface as a machine\<close>

text \<open>
  Calls on a table and their results, the same calls on a finite map, and the condition
  under which they agree: a key is added, or moved to, only when it is not there, and the
  32-bit population does not overflow.
\<close>

datatype ('k, 'd) call =
    Find 'k
  | Add 'k 'd
  | Del 'k "'d option"
  | Modify 'k 'd
  | Set_Data 'k "'d option"
  | Move 'k 'k
  | Free_Buckets

datatype 'd reply = Flag bool | Data "'d option" | Unit

fun exec :: "('k, 'd) call \<Rightarrow> ('k, 'd) hash \<Rightarrow> 'd reply \<times> ('k, 'd) hash" where
  "exec (Find k) h = (Data (eina_hash_find h (Some k)), h)"
| "exec (Add k d) h = map_prod Flag id (eina_hash_add mem_all h (Some k) (Some d))"
| "exec (Del k data) h = map_prod Flag id (eina_hash_del h (Some k) data)"
| "exec (Modify k d) h = map_prod Data id (eina_hash_modify h (Some k) (Some d))"
| "exec (Set_Data k data) h = map_prod Data id (eina_hash_set mem_all h (Some k) data)"
| "exec (Move a b) h = map_prod Flag id (eina_hash_move mem_all h (Some a) (Some b))"
| "exec Free_Buckets h = (Unit, eina_hash_free_buckets h)"

fun map_exec :: "('k, 'd) call \<Rightarrow> ('k \<rightharpoonup> 'd) \<Rightarrow> 'd reply \<times> ('k \<rightharpoonup> 'd)" where
  "map_exec (Find k) m = (Data (m k), m)"
| "map_exec (Add k d) m = (Flag True, m(k \<mapsto> d))"
| "map_exec (Del k data) m =
     (if m k \<noteq> None \<and> (data = None \<or> data = m k) then (Flag True, m(k := None)) else (Flag False, m))"
| "map_exec (Modify k d) m = (Data (m k), if m k = None then m else m(k \<mapsto> d))"
| "map_exec (Set_Data k data) m = (Data (m k), m(k := data))"
| "map_exec (Move a b) m =
     (case m a of None \<Rightarrow> (Flag False, m) | Some d \<Rightarrow> (Flag True, m(a := None, b \<mapsto> d)))"
| "map_exec Free_Buckets m = (Unit, Map.empty)"

fun call_ok :: "('k \<Rightarrow> bool) \<Rightarrow> ('k \<rightharpoonup> 'd) \<Rightarrow> ('k, 'd) call \<Rightarrow> bool" where
  "call_ok kok m (Find k) \<longleftrightarrow> kok k"
| "call_ok kok m (Add k d) \<longleftrightarrow> kok k \<and> m k = None \<and> Suc (card (dom m)) < 2 ^ 32"
| "call_ok kok m (Del k data) \<longleftrightarrow> kok k"
| "call_ok kok m (Modify k d) \<longleftrightarrow> kok k"
| "call_ok kok m (Set_Data k data) \<longleftrightarrow> kok k \<and> Suc (card (dom m)) < 2 ^ 32"
| "call_ok kok m (Move a b) \<longleftrightarrow> kok a \<and> kok b \<and> (a = b \<or> m b = None)"
| "call_ok kok m Free_Buckets \<longleftrightarrow> True"

fun run :: "('k, 'd) call list \<Rightarrow> ('k, 'd) hash \<Rightarrow> 'd reply list \<times> ('k, 'd) hash" where
  "run [] h = ([], h)"
| "run (c # cs) h = (let (r, h1) = exec c h; (rs, h2) = run cs h1 in (r # rs, h2))"

fun map_run :: "('k, 'd) call list \<Rightarrow> ('k \<rightharpoonup> 'd) \<Rightarrow> 'd reply list \<times> ('k \<rightharpoonup> 'd)" where
  "map_run [] m = ([], m)"
| "map_run (c # cs) m = (let (r, m1) = map_exec c m; (rs, m2) = map_run cs m1 in (r # rs, m2))"

fun calls_ok :: "('k \<Rightarrow> bool) \<Rightarrow> ('k \<rightharpoonup> 'd) \<Rightarrow> ('k, 'd) call list \<Rightarrow> bool" where
  "calls_ok kok m [] \<longleftrightarrow> True"
| "calls_ok kok m (c # cs) \<longleftrightarrow> call_ok kok m c \<and> calls_ok kok (snd (map_exec c m)) cs"

lemma move_absent:
  assumes "hash_ok kok h" "kok a" "hash_map h a = None"
  shows "eina_hash_move mem h (Some a) (Some b) = (False, h)"
  using find_ok [OF assms(1,2)] assms(3) by (simp add: eina_hash_move_def)

lemma exec_refines:
  assumes "table kok h" and "call_ok kok (hash_map h) c"
  shows "table kok (snd (exec c h)) \<and> map_exec c (hash_map h) = (fst (exec c h), hash_map (snd (exec c h)))"
proof -
  have ok: "hash_ok kok h"
    using assms(1) by (simp add: table_def)
  note pop = population_max [OF ok]
  show ?thesis
  proof (cases c)
    case (Find k)
    then show ?thesis
      using assms find_ok [OF ok] by simp
  next
    case (Add k d)
    then show ?thesis
      using assms pop api_add_ok [of kok h k mem_all d] 
      by (cases "eina_hash_add mem_all h (Some k) (Some d)") auto
  next
    case (Del k data)
    then show ?thesis
      using assms del_key_ok [of kok h k data]
      by (cases "eina_hash_del h (Some k) data") auto
  next
    case (Modify k d)
    then show ?thesis
      using assms modify_ok [of kok h k d] by (cases "eina_hash_modify h (Some k) (Some d)") auto
  next
    case (Set_Data k data)
    then show ?thesis
      using assms pop set_ok [of kok h k mem_all data] by (cases "eina_hash_set mem_all h (Some k) data") auto
  next
    case (Move a b)
    obtain res h' where m: "eina_hash_move mem_all h (Some a) (Some b) = (res, h')"
      by (cases "eina_hash_move mem_all h (Some a) (Some b)")
    show ?thesis
    proof (cases "hash_map h a")
      case None
      then show ?thesis
        using Move assms m move_absent [OF ok, of a mem_all b] by simp
    next
      case (Some d)
      then show ?thesis
        using Move assms(2) m move_ok [OF assms(1) _ _ Some _ m] by simp
    qed
  next
    case Free_Buckets
    then show ?thesis
      using free_buckets_ok [OF assms(1)] by simp
  qed
qed

lemma run_refines:
  "table kok h \<Longrightarrow> calls_ok kok (hash_map h) cs \<Longrightarrow>
   table kok (snd (run cs h)) \<and> map_run cs (hash_map h) = (fst (run cs h), hash_map (snd (run cs h)))"
proof (induction cs arbitrary: h)
  case Nil
  then show ?case by simp
next
  case (Cons c cs)
  obtain r h1 where e: "exec c h = (r, h1)"
    by (cases "exec c h")
  have "table kok h1" "map_exec c (hash_map h) = (r, hash_map h1)"
    using exec_refines [OF Cons.prems(1), of c] Cons.prems(2) e by simp_all
  then show ?case
    using Cons.IH [of h1] Cons.prems(2) e by (auto simp: Let_def split: prod.splits)
qed

end
