(* ===== verification/Eina_Hash_Keys.thy ===== *)
theory Eina_Hash_Keys
  imports Eina_Hash_Map
begin

text \<open>
  The key types \<open>eina_hash.c\<close> comes with: lengths, comparisons and hash functions for
  strings, 32- and 64-bit integers and shared strings, the constructors that choose among
  them, and the proof that each comparison implements the interface \<open>key_order\<close>.
\<close>

section \<open>Comparison callbacks\<close>

text \<open>
  A C string is the list of its bytes before the terminator. \<open>strcmp\<close> of the C library
  compares as unsigned bytes.
\<close>

fun strcmp :: "u8 list \<Rightarrow> u8 list \<Rightarrow> int" where
  "strcmp [] [] = 0"
| "strcmp [] (b # bs) = - uint b"
| "strcmp (a # as) [] = uint a"
| "strcmp (a # as) (b # bs) = (if a = b then strcmp as bs else uint a - uint b)"

definition string_key_length :: "u8 list \<Rightarrow> u32" where
  "string_key_length key = of_nat (length key) + 1"

definition string_key_cmp :: "u8 list \<Rightarrow> int \<Rightarrow> u8 list \<Rightarrow> int \<Rightarrow> int" where
  "string_key_cmp key1 key1_length key2 key2_length =
     (let delta = sint (word_of_int (key1_length - key2_length) :: u32)
      in if delta \<noteq> 0 then delta else strcmp key1 key2)"

text \<open>Shared strings are compared by address.\<close>

definition stringshared_key_cmp :: "u64 \<Rightarrow> int \<Rightarrow> u64 \<Rightarrow> int \<Rightarrow> int" where
  "stringshared_key_cmp key1 l1 key2 l2 = (if key1 = key2 then 0 else if key1 > key2 then 1 else - 1)"

definition int32_key_length :: "u32 \<Rightarrow> u32" where
  "int32_key_length key = 4"

definition int32_key_cmp :: "u32 \<Rightarrow> int \<Rightarrow> u32 \<Rightarrow> int \<Rightarrow> int" where
  "int32_key_cmp key1 l1 key2 l2 = (if key1 = key2 then 0 else if key1 > key2 then 1 else - 1)"

definition int64_key_length :: "u64 \<Rightarrow> u32" where
  "int64_key_length key = 8"

definition int64_key_cmp :: "u64 \<Rightarrow> int \<Rightarrow> u64 \<Rightarrow> int \<Rightarrow> int" where
  "int64_key_cmp key1 l1 key2 l2 = (if key1 = key2 then 0 else if key1 > key2 then 1 else - 1)"

section \<open>Hash functions\<close>

text \<open>
  \<open>eina_hash_superfast\<close>; \<open>size_t\<close> has 64 bits and \<open>char\<close> is signed. The main loop runs
  over blocks of four bytes; the key has at least \<open>len\<close> bytes.
\<close>

definition get16bits :: "u8 \<Rightarrow> u8 \<Rightarrow> u32" where
  "get16bits b0 b1 = push_bit 8 (ucast b1) + ucast b0"

fun superfast_blocks :: "nat \<Rightarrow> u8 list \<Rightarrow> u64 \<Rightarrow> u64 \<times> u8 list" where
  "superfast_blocks (Suc n) (a # b # c # d # key) hash =
     (let hash = hash + ucast (get16bits a b);
          tmp = ucast (push_bit 11 (get16bits c d)) XOR hash;
          hash = push_bit 16 hash XOR tmp
      in superfast_blocks n key (hash + drop_bit 11 hash))"
| "superfast_blocks _ key hash = (hash, key)"

fun superfast_tail :: "nat \<Rightarrow> u8 list \<Rightarrow> u64 \<Rightarrow> u64" where
  "superfast_tail (Suc (Suc (Suc 0))) (a # b # c # key) hash =
     (let hash = hash + ucast (get16bits a b);
          hash = hash XOR push_bit 16 hash;
          hash = hash XOR push_bit 18 (scast c)
      in hash + drop_bit 11 hash)"
| "superfast_tail (Suc (Suc 0)) (a # b # key) hash =
     (let hash = hash + ucast (get16bits a b);
          hash = hash XOR push_bit 11 hash
      in hash + drop_bit 17 hash)"
| "superfast_tail (Suc 0) (a # key) hash =
     (let hash = hash + scast a;
          hash = hash XOR push_bit 10 hash
      in hash + drop_bit 1 hash)"
| "superfast_tail _ key hash = hash"

definition superfast_avalanche :: "u64 \<Rightarrow> u64" where
  "superfast_avalanche hash =
     (let hash = hash XOR push_bit 3 hash;
          hash = hash + drop_bit 5 hash;
          hash = hash XOR push_bit 4 hash;
          hash = hash + drop_bit 17 hash;
          hash = hash XOR push_bit 25 hash
      in hash + drop_bit 6 hash)"

definition eina_hash_superfast :: "u8 list \<Rightarrow> int \<Rightarrow> u32" where
  "eina_hash_superfast key len =
     (case superfast_blocks (nat (len div 4)) key (word_of_int len) of
        (hash, rest) \<Rightarrow> ucast (superfast_avalanche (superfast_tail (nat (len mod 4)) rest hash)))"

text \<open>\<open>eina_hash_djb2\<close>, \<open>eina_hash_int32\<close> and \<open>eina_hash_int64\<close>; \<open>seed\<close> is \<open>eina_seed\<close>.\<close>

definition eina_hash_djb2 :: "u32 \<Rightarrow> u8 list \<Rightarrow> int \<Rightarrow> u32" where
  "eina_hash_djb2 seed key len =
     fold (\<lambda>c hash_num. (push_bit 5 hash_num + hash_num) XOR ucast c) (take (nat len) key) (5381 XOR seed)"

definition eina_hash_int32 :: "u32 \<Rightarrow> u32 \<Rightarrow> int \<Rightarrow> u32" where
  "eina_hash_int32 seed key len =
     (let key = NOT key + push_bit 15 key;
          key = key XOR drop_bit 12 key;
          key = key + push_bit 2 key;
          key = key XOR drop_bit 4 key;
          key = key * (2057 XOR seed)
      in key XOR drop_bit 16 key)"

definition eina_hash_int64 :: "u32 \<Rightarrow> u64 \<Rightarrow> int \<Rightarrow> u32" where
  "eina_hash_int64 seed key len =
     (let key = NOT key + push_bit 18 key;
          key = key XOR drop_bit 31 key;
          key = key * ucast (21 XOR seed);
          key = key XOR drop_bit 11 key;
          key = key + push_bit 6 key
      in ucast (key XOR drop_bit 22 key))"

text \<open>\<open>_eina_stringshared_hash\<close> hashes the eight bytes of the pointer, lowest first.\<close>

definition stringshared_hash :: "u64 \<Rightarrow> int \<Rightarrow> u32" where
  "stringshared_hash key len =
     eina_hash_superfast (map (\<lambda>i. ucast (drop_bit (8 * i) key)) [0..<8]) 8"

section \<open>Constructors\<close>

definition EINA_HASH_BUCKET_SIZE :: nat where "EINA_HASH_BUCKET_SIZE = 8"
definition EINA_HASH_SMALL_BUCKET_SIZE :: nat where "EINA_HASH_SMALL_BUCKET_SIZE = 5"

text \<open>The hash functions for strings read the terminator as well.\<close>

definition eina_hash_string_djb2_new :: "u32 \<Rightarrow> bool \<Rightarrow> bool \<Rightarrow> (u8 list, 'd) hash option" where
  "eina_hash_string_djb2_new seed mem free_cb =
     eina_hash_new mem (Some string_key_length) string_key_cmp
       (\<lambda>key. eina_hash_djb2 seed (key @ [0])) free_cb EINA_HASH_BUCKET_SIZE"

definition eina_hash_string_superfast_new :: "bool \<Rightarrow> bool \<Rightarrow> (u8 list, 'd) hash option" where
  "eina_hash_string_superfast_new mem free_cb =
     eina_hash_new mem (Some string_key_length) string_key_cmp
       (\<lambda>key. eina_hash_superfast (key @ [0])) free_cb EINA_HASH_BUCKET_SIZE"

definition eina_hash_string_small_new :: "bool \<Rightarrow> bool \<Rightarrow> (u8 list, 'd) hash option" where
  "eina_hash_string_small_new mem free_cb =
     eina_hash_new mem (Some string_key_length) string_key_cmp
       (\<lambda>key. eina_hash_superfast (key @ [0])) free_cb EINA_HASH_SMALL_BUCKET_SIZE"

definition eina_hash_int32_new :: "u32 \<Rightarrow> bool \<Rightarrow> bool \<Rightarrow> (u32, 'd) hash option" where
  "eina_hash_int32_new seed mem free_cb =
     eina_hash_new mem (Some int32_key_length) int32_key_cmp (eina_hash_int32 seed) free_cb
       EINA_HASH_BUCKET_SIZE"

definition eina_hash_int64_new :: "u32 \<Rightarrow> bool \<Rightarrow> bool \<Rightarrow> (u64, 'd) hash option" where
  "eina_hash_int64_new seed mem free_cb =
     eina_hash_new mem (Some int64_key_length) int64_key_cmp (eina_hash_int64 seed) free_cb
       EINA_HASH_BUCKET_SIZE"

text \<open>Pointers have 64 bits (\<open>EFL64\<close>).\<close>

definition eina_hash_pointer_new :: "u32 \<Rightarrow> bool \<Rightarrow> bool \<Rightarrow> (u64, 'd) hash option" where
  "eina_hash_pointer_new seed mem free_cb =
     eina_hash_new mem (Some int64_key_length) int64_key_cmp (eina_hash_int64 seed) free_cb
       EINA_HASH_BUCKET_SIZE"

definition eina_hash_stringshared_new :: "bool \<Rightarrow> bool \<Rightarrow> (u64, 'd) hash option" where
  "eina_hash_stringshared_new mem free_cb =
     eina_hash_new mem None stringshared_key_cmp stringshared_hash free_cb EINA_HASH_BUCKET_SIZE"

section \<open>The comparisons are orders\<close>

text \<open>Strings without a terminator inside, short enough for an \<open>int\<close> length.\<close>

definition string_ok :: "u8 list \<Rightarrow> bool" where
  "string_ok key \<longleftrightarrow> 0 \<notin> set key \<and> length key < 2 ^ 31 - 1"

lemma strcmp_neg: "strcmp a b = - strcmp b a"
  by (induction a b rule: strcmp.induct) auto

lemma strcmp_eq: "0 \<notin> set a \<Longrightarrow> 0 \<notin> set b \<Longrightarrow> strcmp a b = 0 \<longleftrightarrow> a = b"
  by (induction a b rule: strcmp.induct) (auto simp: unsigned_eq_0_iff unsigned_word_eqI)

lemma strcmp_trans:
  "length a = length b \<Longrightarrow> length b = length c \<Longrightarrow> 0 < strcmp a b \<Longrightarrow> 0 < strcmp b c \<Longrightarrow> 0 < strcmp a c"
proof (induction a b arbitrary: c rule: list_induct2)
  case Nil
  then show ?case by simp
next
  case (Cons x xs y ys)
  then obtain z zs where "c = z # zs" "length ys = length zs"
    by (cases c) auto
  with Cons show ?case
    by (auto split: if_splits)
qed

lemma string_len:
  assumes "string_ok key"
  shows "sint (string_key_length key) = int (length key) + 1"
proof -
  have "string_key_length key = word_of_int (int (length key) + 1)"
    by (simp add: string_key_length_def)
  also have "sint \<dots> = int (length key) + 1"
    using assms by (intro sint_of_int_small) (simp_all add: string_ok_def)
  finally show ?thesis .
qed

lemma string_cmp:
  assumes "string_ok a" and "string_ok b"
  shows "string_key_cmp a (sint (string_key_length a)) b (sint (string_key_length b)) =
    (if length a = length b then strcmp a b else int (length a) - int (length b))"
proof -
  have "sint (word_of_int (int (length a) - int (length b)) :: u32) = int (length a) - int (length b)"
    using assms by (intro sint_of_int_small) (auto simp: string_ok_def)
  then show ?thesis
    using assms by (simp add: string_key_cmp_def string_len Let_def)
qed

interpretation string_keys: key_order string_key_cmp "\<lambda>key. sint (string_key_length key)" string_ok
proof unfold_locales
  fix a b c
  assume a: "string_ok a" and b: "string_ok b"
  show "string_key_cmp a (sint (string_key_length a)) b (sint (string_key_length b)) < 0 \<longleftrightarrow>
      0 < string_key_cmp b (sint (string_key_length b)) a (sint (string_key_length a))"
    using strcmp_neg [of a b] by (simp add: string_cmp a b)
  show "string_key_cmp a (sint (string_key_length a)) b (sint (string_key_length b)) = 0 \<longleftrightarrow> a = b"
    using a b strcmp_eq [of a b] by (auto simp: string_cmp string_ok_def)
  assume c: "string_ok c"
    and "0 < string_key_cmp a (sint (string_key_length a)) b (sint (string_key_length b))"
    and "0 < string_key_cmp b (sint (string_key_length b)) c (sint (string_key_length c))"
  then show "0 < string_key_cmp a (sint (string_key_length a)) c (sint (string_key_length c))"
    using strcmp_trans [of a b c] by (auto simp: string_cmp a b split: if_splits)
qed

interpretation int32_keys: key_order int32_key_cmp "\<lambda>key. sint (int32_key_length key)" "\<lambda>_. True"
  by unfold_locales (auto simp: int32_key_cmp_def split: if_splits)

interpretation int64_keys: key_order int64_key_cmp "\<lambda>key. sint (int64_key_length key)" "\<lambda>_. True"
  by unfold_locales (auto simp: int64_key_cmp_def split: if_splits)

interpretation stringshared_keys: key_order stringshared_key_cmp "\<lambda>_. 0" "\<lambda>_. True"
  by unfold_locales (auto simp: stringshared_key_cmp_def split: if_splits)

section \<open>New tables\<close>

lemma new_table:
  assumes "eina_hash_new mem len cmp hsh cb p = Some h"
    and "key_order cmp (\<lambda>k. case len of None \<Rightarrow> 0 | Some f \<Rightarrow> sint (f k)) kok"
  shows "table kok h" and "hash_map h = Map.empty"
proof -
  have p: "3 \<le> p" "p \<le> 16"
    using assms(1) by (auto simp: eina_hash_new_def split: if_splits)
  have "key_len h = (\<lambda>k. case len of None \<Rightarrow> 0 | Some f \<Rightarrow> sint (f k))"
    using assms(1) by (auto simp: eina_hash_new_def key_len_def fun_eq_iff split: if_splits)
  moreover have "key_cmp_cb h = cmp"
    using assms(1) by (auto simp: eina_hash_new_def split: if_splits)
  ultimately have "key_order (key_cmp_cb h) (key_len h) kok"
    using assms(2) by simp
  then show "table kok h"
    using assms(1) p
    by (auto simp: eina_hash_new_def table_def hash_ok_def hash_inv_def ptr_inv_def elems_def split: if_splits)
  show "hash_map h = Map.empty"
    using assms(1) by (auto simp: eina_hash_new_def hash_map_def elements_def fun_eq_iff split: if_splits)
qed

lemma new_string_table:
  "eina_hash_new mem (Some string_key_length) string_key_cmp hsh cb p = Some h \<Longrightarrow>
   table string_ok h \<and> hash_map h = Map.empty"
  using new_table [of mem "Some string_key_length" string_key_cmp hsh cb p h string_ok]
    string_keys.key_order_axioms by simp

lemma new_int32_table:
  "eina_hash_new mem (Some int32_key_length) int32_key_cmp hsh cb p = Some h \<Longrightarrow>
   table (\<lambda>_. True) h \<and> hash_map h = Map.empty"
  using new_table [of mem "Some int32_key_length" int32_key_cmp hsh cb p h "\<lambda>_. True"]
    int32_keys.key_order_axioms by simp

lemma new_int64_table:
  "eina_hash_new mem (Some int64_key_length) int64_key_cmp hsh cb p = Some h \<Longrightarrow>
   table (\<lambda>_. True) h \<and> hash_map h = Map.empty"
  using new_table [of mem "Some int64_key_length" int64_key_cmp hsh cb p h "\<lambda>_. True"]
    int64_keys.key_order_axioms by simp

lemma new_stringshared_table:
  "eina_hash_new mem None stringshared_key_cmp hsh cb p = Some h \<Longrightarrow>
   table (\<lambda>_. True) h \<and> hash_map h = Map.empty"
  using new_table [of mem None stringshared_key_cmp hsh cb p h "\<lambda>_. True"]
    stringshared_keys.key_order_axioms by simp

lemmas stock_table_defs =
  eina_hash_string_djb2_new_def eina_hash_string_superfast_new_def eina_hash_string_small_new_def
  eina_hash_int32_new_def eina_hash_int64_new_def eina_hash_pointer_new_def eina_hash_stringshared_new_def


section \<open>Properties\<close>

text \<open>A table for 32-bit keys with eight buckets, used by the examples.\<close>

definition table8 :: "(u32, nat) hash" where
  "table8 = the (eina_hash_new True (Some int32_key_length) int32_key_cmp (eina_hash_int32 0) True 3)"

text \<open>One key added three times.\<close>

definition thrice :: "(u32, nat) hash" where
  "thrice = fold (\<lambda>d h. snd (eina_hash_add mem_all h (Some 1) (Some d))) [10, 20, 30] table8"

lemma table8_ok: "table (\<lambda>_. True) table8" "hash_map table8 = Map.empty" "population table8 = 0" "data_free_cb table8"
proof -
  obtain h :: "(u32, nat) hash" where h: "eina_hash_new True (Some int32_key_length) int32_key_cmp (eina_hash_int32 0) True 3 = Some h"
    by (simp add: eina_hash_new_def)
  then have t: "table8 = h"
    by (simp add: table8_def)
  with new_int32_table [OF h] show "table (\<lambda>_. True) table8" "hash_map table8 = Map.empty"
    by simp_all
  show "population table8 = 0" "data_free_cb table8"
    by (simp_all add: table8_def eina_hash_new_def)
qed

text \<open>
  C3. Refinement: on a table that satisfies the invariant, any sequence of calls of find,
  add, del, modify, set, move and free_buckets answers exactly what the same calls on a
  finite map answer, and leaves a table that satisfies the invariant and represents the
  resulting map. Keys are added, or moved to, only when absent.
\<close>

theorem hash_calls_refine_map:
  assumes "table kok h" and "calls_ok kok (hash_map h) cs"
  shows "table kok (snd (run cs h)) \<and>
    map_run cs (hash_map h) = (fst (run cs h), hash_map (snd (run cs h)))"
  using assms by (rule run_refines)

theorem hash_calls_refine_map_witness:
  "fst (run [Add 1 10, Add 9 20, Find 1, Move 1 4, Find 1, Find 4, Del 9 None] table8) =
   [Flag True, Flag True, Data (Some 10), Flag True, Data None, Data (Some 10), Flag True]"
proof -
  define cs :: "(u32, nat) call list" where "cs = [Add 1 10, Add 9 20, Find 1, Move 1 4, Find 1, Find 4, Del 9 None]"
  have "calls_ok (\<lambda>_. True) (hash_map table8) cs"
    by (simp add: cs_def table8_ok)
  from hash_calls_refine_map [OF table8_ok(1) this] have "fst (run cs table8) = fst (map_run cs Map.empty)"
    by (simp add: table8_ok)
  then show ?thesis by (simp add: cs_def del: run.simps)
qed

text \<open>
  C19. The string tables of the library, whatever their hash function, behave as finite
  maps from NUL-free byte strings of fewer than \<open>2 ^ 31 - 1\<close> bytes, from the constructor on.
\<close>

theorem string_tables_are_maps:
  assumes "Some h \<in> {eina_hash_string_djb2_new seed mem cb, eina_hash_string_superfast_new mem cb,
      eina_hash_string_small_new mem cb}"
    and "calls_ok string_ok Map.empty cs"
  shows "map_run cs Map.empty = (fst (run cs h), hash_map (snd (run cs h)))"
proof -
  have "table string_ok h \<and> hash_map h = Map.empty"
    using assms(1) by (auto simp: stock_table_defs dest!: new_string_table [OF sym])
  then show ?thesis
    using run_refines [of string_ok h cs] assms(2) by simp
qed

theorem string_tables_are_maps_witness:
  "fst (run [Add [97, 98] 1, Set_Data [97] (Some 2), Find [97, 98], Del [97] None, Find [97]]
     (the (eina_hash_string_superfast_new True False))) =
   [Flag True, Data None, Data (Some (1 :: nat)), Flag True, Data None]"
proof -
  define cs :: "(u8 list, nat) call list" where
    "cs = [Add [97, 98] 1, Set_Data [97] (Some 2), Find [97, 98], Del [97] None, Find [97]]"
  obtain h :: "(u8 list, nat) hash" where h: "eina_hash_string_superfast_new True False = Some h"
    by (simp add: stock_table_defs eina_hash_new_def EINA_HASH_BUCKET_SIZE_def)
  have "calls_ok string_ok Map.empty cs"
    by (simp add: cs_def string_ok_def)
  from string_tables_are_maps [OF _ this, of h 0 True False] h have "fst (run cs h) = fst (map_run cs Map.empty)"
    by simp
  then show ?thesis by (simp add: cs_def h del: run.simps)
qed

text \<open>
  The tables for 32-bit integers, 64-bit integers, pointers and shared strings behave as
  finite maps from those keys, from the constructor on.
\<close>

theorem integer_tables_are_maps:
  assumes "eina_hash_int32_new seed mem cb = Some h32" and "calls_ok (\<lambda>_. True) Map.empty cs32"
    and "Some h64 \<in> {eina_hash_int64_new seed mem cb, eina_hash_pointer_new seed mem cb,
      eina_hash_stringshared_new mem cb}" and "calls_ok (\<lambda>_. True) Map.empty cs64"
  shows "map_run cs32 Map.empty = (fst (run cs32 h32), hash_map (snd (run cs32 h32))) \<and>
    map_run cs64 Map.empty = (fst (run cs64 h64), hash_map (snd (run cs64 h64)))"
proof (rule conjI)
  have "table (\<lambda>_. True) h32 \<and> hash_map h32 = Map.empty"
    using assms(1) by (auto simp: stock_table_defs dest!: new_int32_table)
  then show "map_run cs32 Map.empty = (fst (run cs32 h32), hash_map (snd (run cs32 h32)))"
    using run_refines [of "\<lambda>_. True" h32 cs32] assms(2) by simp
  have "table (\<lambda>_. True) h64 \<and> hash_map h64 = Map.empty"
    using assms(3) by (auto simp: stock_table_defs dest!: new_int64_table [OF sym] new_stringshared_table [OF sym])
  then show "map_run cs64 Map.empty = (fst (run cs64 h64), hash_map (snd (run cs64 h64)))"
    using run_refines [of "\<lambda>_. True" h64 cs64] assms(4) by simp
qed

theorem integer_tables_are_maps_witness:
  "fst (run [Add 7 1, Find 7] (the (eina_hash_int32_new 3 True False))) = [Flag True, Data (Some (1 :: nat))] \<and>
   fst (run [Add 7 1, Move 7 8, Find 7] (the (eina_hash_stringshared_new True False))) =
     [Flag True, Flag True, Data (None :: nat option)]"
proof -
  define cs :: "(u32, nat) call list" where "cs = [Add 7 1, Find 7]"
  define ds :: "(u64, nat) call list" where "ds = [Add 7 1, Move 7 8, Find 7]"
  obtain h32 :: "(u32, nat) hash" where h32: "eina_hash_int32_new 3 True False = Some h32"
    by (simp add: stock_table_defs eina_hash_new_def EINA_HASH_BUCKET_SIZE_def)
  obtain h64 :: "(u64, nat) hash" where h64: "eina_hash_stringshared_new True False = Some h64"
    by (simp add: stock_table_defs eina_hash_new_def EINA_HASH_BUCKET_SIZE_def)
  have ok: "calls_ok (\<lambda>_. True) Map.empty cs" "calls_ok (\<lambda>_. True) Map.empty ds"
    by (simp_all add: cs_def ds_def)
  have "fst (run cs h32) = fst (map_run cs Map.empty) \<and> fst (run ds h64) = fst (map_run ds Map.empty)"
    using integer_tables_are_maps [OF h32 ok(1) _ ok(2), of h64] h64 by simp
  then show ?thesis by (simp add: cs_def ds_def h32 h64 del: run.simps)
qed

text \<open>
  C11. Memory discipline: after any legal sequence of calls, no stored element has been given
  back to the allocator, no element was given back twice, and no two elements share an address.
\<close>

theorem no_use_after_free:
  assumes "table kok h" and "calls_ok kok (hash_map h) cs"
  defines "h' \<equiv> snd (run cs h)"
  shows "(\<forall>e \<in> set (elements h'). el_ptr e \<notin> set (freed h')) \<and> distinct (freed h') \<and>
    distinct (map el_ptr (elements h'))"
proof -
  have "table kok h'"
    using run_refines [OF assms(1,2)] by (simp add: h'_def)
  then show ?thesis
    using distinct_elements [of kok h'] by (auto simp: table_def ptr_inv_def distinct_map set_elements)
qed

theorem no_use_after_free_witness:
  "distinct (freed (snd (run [Add 1 10, Add 9 20, Del 1 None, Add 1 30, Free_Buckets] table8)))"
proof -
  define cs :: "(u32, nat) call list" where "cs = [Add 1 10, Add 9 20, Del 1 None, Add 1 30, Free_Buckets]"
  have "calls_ok (\<lambda>_. True) (hash_map table8) cs"
    by (simp add: cs_def table8_ok)
  from no_use_after_free [OF table8_ok(1) this] show ?thesis
    by (simp add: cs_def del: run.simps)
qed

text \<open>
  C20. Adding a new key, with or without memory: the table keeps its invariant, the map gains
  the entry exactly when the call returns true, which it does when every allocation succeeds,
  and no data is freed.
\<close>

theorem add_new_key:
  assumes "table kok h" and "kok k" and "hash_map h k = None" and "population h \<noteq> - 1"
    and "eina_hash_add mem h (Some k) (Some d) = (res, h')"
  shows "table kok h' \<and> (mem = mem_all \<longrightarrow> res) \<and>
    hash_map h' = (if res then (hash_map h)(k \<mapsto> d) else hash_map h) \<and> freed_data h' = freed_data h"
  using api_add_ok [OF assms] by blast

theorem add_new_key_witness:
  "let (res, h') = eina_hash_add (mem_all\<lparr>mem_element := False\<rparr>) table8 (Some 5) (Some 1)
   in \<not> res \<and> hash_map h' = Map.empty \<and> population h' = 0"
proof -
  obtain res h' where a: "eina_hash_add (mem_all\<lparr>mem_element := False\<rparr>) table8 (Some 5) (Some 1) = (res, h')"
    by (cases "eina_hash_add (mem_all\<lparr>mem_element := False\<rparr>) table8 (Some 5) (Some 1)")
  have "\<not> fst (eina_hash_add (mem_all\<lparr>mem_element := False\<rparr>) table8 (Some 5) (Some 1)) \<and>
      population (snd (eina_hash_add (mem_all\<lparr>mem_element := False\<rparr>) table8 (Some 5) (Some 1))) = 0"
    by code_simp
  then show ?thesis
    using add_new_key [OF table8_ok(1) _ _ _ a] a by (simp add: table8_ok)
qed

text \<open>
  Deleting a key (with the data asked for, or with any): it succeeds exactly when the key
  is stored (with that data), removes that entry only, and calls the free callback exactly
  once, on the data removed.
\<close>

theorem del_removes_and_frees:
  assumes "table kok h" and "kok k" and "eina_hash_del h (Some k) data = (res, h')"
  shows "table kok h' \<and> (res \<longleftrightarrow> (\<exists>d. hash_map h k = Some d \<and> (data = None \<or> data = Some d))) \<and>
    hash_map h' = (if res then (hash_map h)(k := None) else hash_map h) \<and>
    freed_data h' = (if res \<and> data_free_cb h then the (hash_map h k) # freed_data h else freed_data h)"
  using del_key_ok [OF assms] by blast

theorem del_removes_and_frees_witness:
  "let (res, h') = eina_hash_del (snd (eina_hash_add mem_all table8 (Some 5) (Some 1))) (Some 5) (Some 1)
   in res \<and> freed_data h' = [1]"
proof -
  let ?h = "snd (eina_hash_add mem_all table8 (Some 5) (Some 1))"
  obtain r h1 where a: "eina_hash_add mem_all table8 (Some 5) (Some 1) = (r, h1)"
    by (cases "eina_hash_add mem_all table8 (Some 5) (Some 1)")
  have h1: "table (\<lambda>_. True) h1" "hash_map h1 5 = Some 1" "data_free_cb h1"
    using api_add_ok [OF table8_ok(1) _ _ _ a] by (simp_all add: table8_ok)
  obtain res h' where d: "eina_hash_del h1 (Some 5) (Some 1) = (res, h')"
    by (cases "eina_hash_del h1 (Some 5) (Some 1)")
  have "freed_data h1 = []"
    using api_add_ok [OF table8_ok(1) _ _ _ a] by (simp add: table8_ok) (simp add: table8_def eina_hash_new_def)
  with del_removes_and_frees [OF h1(1) _ d] h1 a d show ?thesis by simp
qed


text \<open>
  \<open>eina_hash_set\<close> in all its branches: it returns what the key held before, stores the
  new data or, for null data, removes the key, and never calls the free callback. With a
  failed allocation the map stays as it was.
\<close>

theorem set_replaces:
  assumes "table kok h" and "kok k" and "population h \<noteq> - 1"
    and "eina_hash_set mem h (Some k) data = (old, h')"
  shows "table kok h' \<and> old = hash_map h k \<and> freed_data h' = freed_data h \<and>
    (mem = mem_all \<or> hash_map h k \<noteq> None \<longrightarrow> hash_map h' = (hash_map h)(k := data)) \<and>
    (hash_map h' = (hash_map h)(k := data) \<or> hash_map h' = hash_map h)"
  using assms by (rule set_ok)

theorem set_replaces_witness:
  "let (old, h') = eina_hash_set mem_all table8 (Some 6) (Some 60)
   in old = None \<and> hash_map h' = [6 \<mapsto> 60]"
proof -
  obtain old h' where r: "eina_hash_set mem_all table8 (Some 6) (Some 60) = (old, h')"
    by (cases "eina_hash_set mem_all table8 (Some 6) (Some 60)")
  with set_replaces [OF table8_ok(1) _ _ r] show ?thesis
    by (simp add: table8_ok)
qed

text \<open>
  \<open>eina_hash_free_buckets\<close> empties the table, gives every element back exactly once and,
  when there is a free callback, calls it exactly once on every stored data.
\<close>

theorem free_buckets_frees_all:
  assumes "table kok h"
  defines "h' \<equiv> eina_hash_free_buckets h"
  shows "table kok h' \<and> hash_map h' = Map.empty \<and> population h' = 0 \<and>
    mset (freed h') = mset (map el_ptr (elements h)) + mset (freed h) \<and>
    mset (freed_data h') = (if data_free_cb h then mset (map el_data (elements h)) else {#}) + mset (freed_data h)"
  using free_buckets_ok [OF assms(1)] unfolding h'_def by blast

theorem free_buckets_frees_all_witness:
  "mset (freed_data (eina_hash_free_buckets (snd (eina_hash_add mem_all table8 (Some 5) (Some 1))))) = {#1#}"
proof -
  obtain r h1 where a: "eina_hash_add mem_all table8 (Some 5) (Some 1) = (r, h1)"
    by (cases "eina_hash_add mem_all table8 (Some 5) (Some 1)")
  have "table (\<lambda>_. True) h1"
    using api_add_ok [OF table8_ok(1) _ _ _ a] by (simp add: table8_ok)
  moreover have "map el_data (elements (snd (eina_hash_add mem_all table8 (Some 5) (Some 1)))) = [1]"
    "data_free_cb (snd (eina_hash_add mem_all table8 (Some 5) (Some 1)))"
    "freed_data (snd (eina_hash_add mem_all table8 (Some 5) (Some 1))) = []"
    by code_simp+
  ultimately show ?thesis
    using free_buckets_frees_all [of "\<lambda>_. True" h1] a by (simp add: mset_map [symmetric] del: mset_map)
qed

text \<open>
  \<open>eina_hash_del_by_data\<close> on a table with distinct keys succeeds exactly when some key
  holds the data, and then removes one such key.
\<close>

theorem del_by_data_removes_one:
  assumes "table kok h" and "eina_hash_del_by_data h (Some d) = (res, h')"
  shows "table kok h' \<and> (res \<longleftrightarrow> d \<in> ran (hash_map h)) \<and>
    (if res then \<exists>k. hash_map h k = Some d \<and> hash_map h' = (hash_map h)(k := None) else h' = h)"
  using assms by (rule del_by_data_ok)

theorem del_by_data_removes_one_witness:
  "\<not> fst (eina_hash_del_by_data table8 (Some 4))"
proof -
  obtain res h' where r: "eina_hash_del_by_data table8 (Some 4) = (res, h')"
    by (cases "eina_hash_del_by_data table8 (Some 4)")
  with del_by_data_removes_one [OF table8_ok(1) r] show ?thesis
    by (simp add: table8_ok)
qed

text \<open>
  The population is the number of keys.
\<close>

theorem population_counts_keys:
  assumes "table kok h"
  shows "unat (eina_hash_population h) = card (dom (hash_map h))"
  using assms population_ok [of kok h] by (simp add: table_def eina_hash_population_def)

theorem population_counts_keys_witness:
  "unat (eina_hash_population table8) = card (dom (hash_map table8))"
  by (rule population_counts_keys [OF table8_ok(1)])

text \<open>
  The table accepts several elements with one key, but the trees do not: when a
  rotation has moved an equal key to the left, a removal that searches to the right does not
  find the node. After three additions of one key, \<open>eina_hash_del_by_data\<close> on the first
  data frees the element and reports success while the tree still holds it, and
  \<open>eina_hash_del\<close> with that key and data reports that it is absent.
\<close>

theorem duplicate_keys_dangle:
  "let (res, h') = eina_hash_del_by_data thrice (Some 10)
   in map el_data (elements thrice) = [10, 20, 30] \<and> res \<and>
      freed_data h' = [10] \<and> (\<exists>e \<in> set (elements h'). el_ptr e \<in> set (freed h')) \<and>
      eina_hash_del thrice (Some 1) (Some 10) = (False, thrice)"
proof -
  have "eina_hash_del thrice (Some 1) (Some 10) = (False, thrice)"
  proof -
    have "find_by_hash thrice 1 (key_len thrice 1) (Some 10) (key_hash thrice 1) = None"
      by code_simp
    then show ?thesis
      by (simp add: eina_hash_del_def eina_hash_del_by_key_data_def del_by_key_hash_def)
  qed
  moreover have "let (res, h') = eina_hash_del_by_data thrice (Some 10)
     in map el_data (elements thrice) = [10, 20, 30] \<and> res \<and>
      freed_data h' = [10] \<and> (\<exists>e \<in> set (elements h'). el_ptr e \<in> set (freed h'))"
    by code_simp
  ultimately show ?thesis
    by (simp add: Let_def split_beta)
qed

end
