(* ===== verification/Compare.thy ===== *)
theory Compare
  imports Prelude
begin

text \<open>
  The contract of the comparison callbacks (\<open>Eina_Compare_Cb\<close>) that the sorted containers
  rely on: a total preorder, read off the sign of the result. \<open>memcmp\<close> of the C library
  meets it.
\<close>

locale compare_cb =
  fixes c :: "'a \<Rightarrow> 'a \<Rightarrow> int"
  assumes c_anti: "c x y < 0 \<longleftrightarrow> 0 < c y x"
    and c_trans: "c x y \<le> 0 \<Longrightarrow> c y z \<le> 0 \<Longrightarrow> c x z \<le> 0"
begin

abbreviation ascending :: "'a list \<Rightarrow> bool" where
  "ascending \<equiv> sorted_wrt (\<lambda>x y. c x y \<le> 0)"

lemma c_le: "c x y \<le> 0 \<longleftrightarrow> 0 \<le> c y x"
  using c_anti [of y x] by linarith

lemma c_less_le: "0 < c d y \<Longrightarrow> c x y \<le> 0 \<Longrightarrow> 0 < c d x"
  using c_trans [of d x y] by linarith

lemma c_le_less: "c d x < 0 \<Longrightarrow> c x y \<le> 0 \<Longrightarrow> c d y < 0"
  using c_trans [of x y d] c_le [of x y] c_anti [of d y] c_anti [of d x] c_le [of y d] by linarith

lemma ascending_insert:
  assumes "ascending (as @ bs)" and "\<forall>x \<in> set as. 0 \<le> c d x" and "\<forall>x \<in> set bs. c d x \<le> 0"
  shows "ascending (as @ d # bs)"
  using assms by (auto simp: sorted_wrt_append c_le [of _ d])

end

section \<open>Places in an ordered list\<close>

text \<open>
  A position splits the members for \<open>d\<close>: those before it compare as \<open>d\<close> being greater or
  equal, those from it on as \<open>d\<close> being less or equal.
\<close>

definition splits_at :: "('a \<Rightarrow> 'a \<Rightarrow> int) \<Rightarrow> 'a \<Rightarrow> 'a list \<Rightarrow> nat \<Rightarrow> bool" where
  "splits_at c d xs i \<longleftrightarrow>
     i \<le> length xs \<and> (\<forall>j < i. 0 \<le> c d (xs ! j)) \<and> (\<forall>j. i \<le> j \<and> j < length xs \<longrightarrow> c d (xs ! j) \<le> 0)"

text \<open>What the binary search returns: a member equal to \<open>d\<close>, or one next to the gap.\<close>

definition near :: "('a \<Rightarrow> 'a \<Rightarrow> int) \<Rightarrow> 'a \<Rightarrow> 'a list \<Rightarrow> nat \<Rightarrow> int \<Rightarrow> bool" where
  "near c d xs m cmp \<longleftrightarrow> m < length xs \<and> cmp = c d (xs ! m) \<and>
     (cmp > 0 \<longrightarrow> (\<forall>j < length xs. m < j \<longrightarrow> c d (xs ! j) < 0)) \<and>
     (cmp < 0 \<longrightarrow> (\<forall>j < m. 0 < c d (xs ! j)))"

context compare_cb
begin

lemma ascending_below:
  assumes "ascending xs" "i \<le> j" "j < length xs" "0 < c d (xs ! j)"
  shows "0 < c d (xs ! i)"
proof (cases "i = j")
  case False
  then have "c (xs ! i) (xs ! j) \<le> 0"
    using assms by (intro sorted_wrt_nth_less [of "\<lambda>x y. c x y \<le> 0"]) simp_all
  then show ?thesis
    using assms(4) by (rule c_less_le [rotated])
qed (use assms in simp)

lemma ascending_above:
  assumes "ascending xs" "i \<le> j" "j < length xs" "c d (xs ! i) < 0"
  shows "c d (xs ! j) < 0"
proof (cases "i = j")
  case False
  then have "c (xs ! i) (xs ! j) \<le> 0"
    using assms by (intro sorted_wrt_nth_less [of "\<lambda>x y. c x y \<le> 0"]) simp_all
  then show ?thesis
    using assms(4) by (rule c_le_less [rotated])
qed (use assms in simp)

lemma near_splits:
  assumes "ascending xs" and "near c d xs m cmp"
  shows "splits_at c d xs (if cmp > 0 then Suc m else m)"
proof -
  have m: "m < length xs" "cmp = c d (xs ! m)"
    using assms(2) by (auto simp: near_def)
  consider "cmp > 0" | "cmp < 0" | "cmp = 0" by linarith
  then show ?thesis
  proof cases
    case 1
    then have "\<forall>j \<le> m. 0 < c d (xs ! j)"
      using ascending_below [OF assms(1) _ m(1)] m(2) by simp
    then show ?thesis
      using 1 assms(2) m(1) by (fastforce simp: near_def splits_at_def less_Suc_eq_le Suc_le_eq)
  next
    case 2
    then have "\<forall>j. m \<le> j \<and> j < length xs \<longrightarrow> c d (xs ! j) < 0"
      using ascending_above [OF assms(1)] m(2) by blast
    then show ?thesis
      using 2 assms(2) m(1) by (fastforce simp: near_def splits_at_def)
  next
    case 3
    have "0 \<le> c d (xs ! j)" if "j < m" for j
      using ascending_above [OF assms(1), of j m d] that m 3 by force
    moreover have "c d (xs ! j) \<le> 0" if "m \<le> j" "j < length xs" for j
      using ascending_below [OF assms(1) that, of d] m 3 by force
    ultimately show ?thesis
      using 3 m(1) by (auto simp: splits_at_def)
  qed
qed

lemma splits_insert:
  assumes "ascending xs" and "splits_at c d xs i"
  shows "ascending (take i xs @ d # drop i xs)"
proof (rule ascending_insert)
  show "\<forall>x \<in> set (take i xs). 0 \<le> c d x" "\<forall>x \<in> set (drop i xs). c d x \<le> 0"
    using assms(2) by (auto simp: splits_at_def in_set_conv_nth)
qed (use assms(1) in simp)

end

section \<open>Dichotomic search\<close>

text \<open>
  The search that the inline list runs twice: \<open>get j\<close> compares element \<open>j\<close> with the one
  looked for; the result is the last position looked at and how it compared.
\<close>

function bsearch :: "(int \<Rightarrow> int) \<Rightarrow> int \<Rightarrow> int \<Rightarrow> int \<times> int \<Rightarrow> int \<times> int" where
  "bsearch get lo hi r =
     (if lo \<le> hi then
        (let cur = lo + (hi - lo) div 2; v = get cur in
         if v = 0 then (cur, v)
         else if v < 0 then bsearch get (cur + 1) hi (cur, v)
         else if cur > 0 then bsearch get lo (cur - 1) (cur, v)
         else (cur, v))
      else r)"
  by auto
termination
  by (relation "measure (\<lambda>(g, lo, hi, r). nat (hi + 1 - lo))") auto

declare bsearch.simps [simp del]

definition beside :: "(int \<Rightarrow> int) \<Rightarrow> int \<Rightarrow> int \<times> int \<Rightarrow> bool" where
  "beside get n r \<longleftrightarrow> 0 \<le> fst r \<and> fst r < n \<and> snd r = get (fst r) \<and>
     (snd r < 0 \<longrightarrow> (\<forall>j. fst r < j \<and> j < n \<longrightarrow> 0 \<le> get j)) \<and>
     (snd r > 0 \<longrightarrow> (\<forall>j. 0 \<le> j \<and> j < fst r \<longrightarrow> get j \<le> 0))"

definition sign_mono :: "(int \<Rightarrow> int) \<Rightarrow> int \<Rightarrow> bool" where
  "sign_mono get n \<longleftrightarrow> (\<forall>i j. 0 \<le> i \<and> i \<le> j \<and> j < n \<longrightarrow> (get j < 0 \<longrightarrow> get i < 0) \<and> (0 < get i \<longrightarrow> 0 < get j))"

lemma bsearch_beside:
  assumes "sign_mono get n" and "0 \<le> lo" and "hi < n" and "\<forall>j. 0 \<le> j \<and> j < lo \<longrightarrow> get j \<le> 0"
    and "\<forall>j. hi < j \<and> j < n \<longrightarrow> 0 \<le> get j" and "lo \<le> hi \<or> beside get n r"
  shows "beside get n (bsearch get lo hi r)"
  using assms
proof (induction get lo hi r rule: bsearch.induct)
  case (1 get lo hi r)
  define cur where "cur = lo + (hi - lo) div 2"
  show ?case
  proof (cases "lo \<le> hi")
    case True
    then have cur: "lo \<le> cur" "cur \<le> hi"
      by (auto simp: cur_def)
    consider "get cur = 0" | "get cur < 0" | "get cur > 0" "cur > 0" | "get cur > 0" "cur \<le> 0" by linarith
    then show ?thesis
    proof cases
      case 1
      then show ?thesis
        using True cur "1.prems" by (subst bsearch.simps) (simp add: beside_def Let_def flip: cur_def)
    next
      case 2
      have "\<forall>j. 0 \<le> j \<and> j < cur + 1 \<longrightarrow> get j \<le> 0"
        using "1.prems"(1,3) cur 2 unfolding sign_mono_def by (metis add1_zle_eq add_le_cancel_right le_less_trans less_le)
      moreover have "beside get n (cur, get cur)" if "\<not> cur + 1 \<le> hi"
        using that 2 cur "1.prems" by (auto simp: beside_def)
      ultimately show ?thesis
        using "1.IH"(1) [OF True cur_def refl] 2 "1.prems" True cur
        by (subst bsearch.simps) (auto simp: Let_def simp flip: cur_def)
    next
      case 3
      have "\<forall>j. cur - 1 < j \<and> j < n \<longrightarrow> 0 \<le> get j"
        using "1.prems"(1,2) cur 3 unfolding sign_mono_def by (metis diff_add_cancel less_le zle_diff1_eq zless_add1_eq linorder_not_le)
      moreover have "lo \<le> cur - 1 \<or> beside get n (cur, get cur)"
        using 3 cur "1.prems" by (cases "lo \<le> cur - 1") (auto simp: beside_def)
      ultimately show ?thesis
        using "1.IH"(2) [OF True cur_def refl] 3 "1.prems" True cur
        by (subst bsearch.simps) (auto simp: Let_def simp flip: cur_def)
    next
      case 4
      then show ?thesis
        using True cur "1.prems" by (subst bsearch.simps) (simp add: beside_def Let_def flip: cur_def)
    qed
  next
    case False
    then show ?thesis
      using "1.prems" by (subst bsearch.simps) simp
  qed
qed

context compare_cb
begin

lemma sign_mono_ascending:
  assumes "ascending xs"
  shows "sign_mono (\<lambda>j. c (xs ! nat j) d) (int (length xs))"
  unfolding sign_mono_def
proof (intro allI impI)
  fix i j :: int assume ij: "0 \<le> i \<and> i \<le> j \<and> j < int (length xs)"
  then have n: "nat i \<le> nat j" "nat j < length xs" by auto
  show "(c (xs ! nat j) d < 0 \<longrightarrow> c (xs ! nat i) d < 0) \<and> (0 < c (xs ! nat i) d \<longrightarrow> 0 < c (xs ! nat j) d)"
    using ascending_below [OF assms n, of d] ascending_above [OF assms n, of d] by (simp add: c_anti [of _ d] c_anti [of d])
qed

lemma beside_splits:
  assumes "ascending xs" and "beside (\<lambda>j. c (xs ! nat j) d) (int (length xs)) (m, v)"
  shows "splits_at c d xs (if v \<le> 0 then Suc (nat m) else nat m)"
proof -
  let ?m = "nat m"
  have m: "?m < length xs" "v = c (xs ! ?m) d" "0 \<le> m"
    using assms(2) by (auto simp: beside_def)
  have le: "c (xs ! i) (xs ! j) \<le> 0" if "i < j" "j < length xs" for i j
    using assms(1) that by (rule sorted_wrt_nth_less)
  have lo: "0 \<le> c d (xs ! j)" if "j \<le> ?m" "v \<le> 0" for j
    using le [of j ?m] m that c_trans [of "xs ! j" "xs ! ?m" d] c_le [of "xs ! j" d] by (cases "j = ?m") auto
  have hi: "c d (xs ! j) \<le> 0" if "?m < j" "j < length xs" "0 \<le> v" for j
    using le [of ?m j] m that c_trans [of d "xs ! ?m" "xs ! j"] c_le [of d "xs ! ?m"] by auto
  have b: "v < 0 \<Longrightarrow> ?m < j \<Longrightarrow> j < length xs \<Longrightarrow> 0 \<le> c (xs ! j) d"
      "0 < v \<Longrightarrow> j < ?m \<Longrightarrow> c (xs ! j) d \<le> 0" for j
    using assms(2) m(3) unfolding beside_def fst_conv snd_conv
    by (metis nat_int nat_less_iff zless_nat_conj of_nat_0_le_iff of_nat_less_iff int_nat_eq)+
  show ?thesis
  proof (cases "v \<le> 0")
    case True
    have "c d (xs ! j) \<le> 0" if "Suc ?m \<le> j" "j < length xs" for j
      using b(1) [of j] hi [of j] that True c_le [of d "xs ! j"] by (cases "v = 0") auto
    then show ?thesis
      using True lo m by (auto simp: splits_at_def)
  next
    case False
    have "0 \<le> c d (xs ! j)" if "j < ?m" for j
      using b(2) [of j] that False c_le [of "xs ! j" d] by auto
    moreover have "c d (xs ! j) \<le> 0" if "?m \<le> j" "j < length xs" for j
      using hi [of j] that False m c_le [of d "xs ! ?m"] by (cases "j = ?m") auto
    ultimately show ?thesis
      using False m by (auto simp: splits_at_def)
  qed
qed

end

section \<open>Bytes\<close>

fun memcmp :: "u8 list \<Rightarrow> u8 list \<Rightarrow> int" where
  "memcmp [] [] = 0"
| "memcmp [] (b # bs) = - 1"
| "memcmp (a # as) [] = 1"
| "memcmp (a # as) (b # bs) = (if a = b then memcmp as bs else uint a - uint b)"

lemma memcmp_neg: "memcmp a b = - memcmp b a"
  by (induction a b rule: memcmp.induct) auto

lemma memcmp_eq: "memcmp a b = 0 \<longleftrightarrow> a = b"
  by (induction a b rule: memcmp.induct) (auto simp: unsigned_word_eqI)

lemma memcmp_trans: "memcmp a b \<le> 0 \<Longrightarrow> memcmp b c \<le> 0 \<Longrightarrow> memcmp a c \<le> 0"
proof (induction a b arbitrary: c rule: memcmp.induct)
  case (2 b bs)
  show ?case by (cases c) auto
next
  case (4 a as b bs)
  then show ?case
    by (cases c) (auto split: if_splits dest: unsigned_word_eqI)
qed (auto elim: memcmp.elims)

interpretation mem: compare_cb memcmp
  using memcmp_neg memcmp_trans by unfold_locales (metis neg_less_0_iff_less, blast)

end
