(* ===== verification/Memory.thy ===== *)
theory Memory
  imports Prelude
begin

text \<open>
  Buffers and the C library's memory functions, for the components that are modelled
  down to their arrays: checked reads, writes and moves, and the allocator.
\<close>

section \<open>Buffers and the allocator\<close>

text \<open>\<open>memcpy\<close> from and to, and \<open>memmove\<close> within, a buffer.\<close>

definition mem_read :: "'a list \<Rightarrow> nat \<Rightarrow> nat \<Rightarrow> 'a list option" where
  "mem_read m off n = (if off + n \<le> length m then Some (take n (drop off m)) else None)"

definition mem_write :: "'a list \<Rightarrow> nat \<Rightarrow> 'a list \<Rightarrow> 'a list option" where
  "mem_write m off bs =
     (if off + length bs \<le> length m then Some (take off m @ bs @ drop (off + length bs) m) else None)"

definition mem_move :: "'a list \<Rightarrow> nat \<Rightarrow> nat \<Rightarrow> nat \<Rightarrow> 'a list option" where
  "mem_move m dst src n = do { bs \<leftarrow> mem_read m src n; mem_write m dst bs }"

text \<open>
  The allocator: which sizes it can serve and what fresh bytes hold. \<open>realloc\<close> to no bytes
  frees the buffer and returns null.
\<close>

record allocator =
  can_alloc :: "nat \<Rightarrow> bool"
  junk :: "nat \<Rightarrow> u8"

definition realloc :: "allocator \<Rightarrow> u8 list \<Rightarrow> nat \<Rightarrow> u8 list option" where
  "realloc al old n =
     (if n = 0 \<or> \<not> can_alloc al n then None
      else Some (take n old @ map (junk al) [length old..<n]))"

section \<open>Laws\<close>

lemma split_list_at:
  assumes "n \<le> length xs"
  obtains X Y where "xs = X @ Y" "length X = n" "length Y = length xs - n"
proof
  show "xs = take n xs @ drop n xs" by simp
qed (use assms in simp_all)

lemma mem_read_mid: "length A = off \<Longrightarrow> length B = n \<Longrightarrow> mem_read (A @ B @ C) off n = Some B"
  by (auto simp: mem_read_def)

lemma mem_write_mid: "length A = off \<Longrightarrow> length B = length bs \<Longrightarrow> mem_write (A @ B @ C) off bs = Some (A @ bs @ C)"
  by (auto simp: mem_write_def)

text \<open>Opening a gap of \<open>sz\<close> bytes and filling it, and closing one.\<close>

lemma mem_insert_gap:
  assumes "length A = p" "length B = n" "length r1 = sz" "length d = sz"
  shows "(do { m \<leftarrow> mem_move (A @ B @ r1 @ r2) (p + sz) p n; mem_write m p d }) = Some (A @ d @ B @ r2)"
proof -
  have "sz \<le> length (B @ r1)"
    using assms by simp
  then obtain X Y where XY: "B @ r1 = X @ Y" "length X = sz" "length Y = length (B @ r1) - sz"
    by (rule split_list_at)
  have lY: "length Y = length B"
    using XY(3) assms by simp
  from XY(1) have m: "A @ B @ r1 @ r2 = (A @ X) @ Y @ r2"
    by (metis append.assoc)
  have "mem_write ((A @ X) @ Y @ r2) (p + sz) B = Some ((A @ X) @ B @ r2)"
    using assms XY(2) lY by (intro mem_write_mid) simp_all
  moreover have "mem_write (A @ X @ B @ r2) p d = Some (A @ d @ B @ r2)"
    using assms XY(2) by (intro mem_write_mid) simp_all
  moreover have "mem_read ((A @ X) @ Y @ r2) p n = Some B"
    unfolding m [symmetric] using assms by (intro mem_read_mid) simp_all
  ultimately show ?thesis
    unfolding mem_move_def m by simp
qed

lemma mem_close_gap:
  assumes "length A = p" "length x = sz" "length B = n"
  obtains E where "mem_move (A @ x @ B @ C) p (p + sz) n = Some (A @ B @ E @ C)" "length E = sz"
proof -
  have "n \<le> length (x @ B)"
    using assms by simp
  then obtain X Y where XY: "x @ B = X @ Y" "length X = n" "length Y = length (x @ B) - n"
    by (rule split_list_at)
  from XY(1) have m: "A @ x @ B @ C = A @ X @ Y @ C"
    by (metis append.assoc)
  have "mem_write (A @ X @ Y @ C) p B = Some (A @ B @ Y @ C)"
    using assms XY(2) by (intro mem_write_mid) simp_all
  moreover have "mem_read (A @ X @ Y @ C) (p + sz) n = Some B"
    unfolding m [symmetric] using assms mem_read_mid [of "A @ x" "p + sz" B n C] by simp
  ultimately have "mem_move (A @ x @ B @ C) p (p + sz) n = Some (A @ B @ Y @ C)"
    unfolding mem_move_def m by simp
  moreover have "length Y = sz"
    using XY(3) assms by simp
  ultimately show ?thesis by (rule that)
qed

end
