(* ===== verification/Eina_Inarray.thy ===== *)
theory Eina_Inarray
  imports Compare Memory
begin

text \<open>
  The inline array of \<open>src/lib/shared/data/eina_inarray.c\<close>, down to its bytes: members of
  \<open>member_size\<close> bytes are stored one behind the other in one buffer that grows in steps.
  Sizes are 32-bit and wrap; every access to the buffer is checked, so that \<open>None\<close> stands
  for an access outside the allocated bytes. Arrays are never null and carry the right
  magic number.
\<close>

section \<open>State\<close>

text \<open>\<open>struct _Eina_Inarray\<close>. A null \<open>members\<close> is the empty buffer.\<close>

record inarray =
  ia_member_size :: u32
  ia_len :: u32
  ia_max :: u32
  ia_step :: u32
  ia_members :: "u8 list"

text \<open>\<open>_eina_inarray_setup\<close>.\<close>

definition inarray_setup :: "u32 \<Rightarrow> u32 \<Rightarrow> inarray" where
  "inarray_setup msize stp =
     \<lparr>ia_member_size = msize, ia_len = 0, ia_max = 0, ia_step = (if stp > 0 then stp else 32), ia_members = []\<rparr>"

text \<open>
  \<open>_eina_inarray_resize\<close>. The product of the new capacity and the member size is computed in
  32 bits. Where it wraps to 0 the members are freed and the call fails; that state is not
  described here, and the laws exclude it by the bound on the product.
\<close>

definition new_capacity :: "inarray \<Rightarrow> u32 \<Rightarrow> u32" where
  "new_capacity a new_size =
     (if new_size mod ia_step a = 0 then new_size else (new_size div ia_step a + 1) * ia_step a)"

definition inarray_resize :: "allocator \<Rightarrow> inarray \<Rightarrow> u32 \<Rightarrow> inarray option" where
  "inarray_resize al a new_size =
     (if new_size < ia_max a then Some a
      else
        (let new_max = new_capacity a new_size in
         case realloc al (ia_members a) (unat (new_max * ia_member_size a)) of
           None \<Rightarrow> if new_max > 0 then None else Some (a\<lparr>ia_members := [], ia_max := new_max\<rparr>)
         | Some tmp \<Rightarrow> Some (a\<lparr>ia_members := tmp, ia_max := new_max\<rparr>)))"

text \<open>\<open>_eina_inarray_get\<close>, as an offset into \<open>members\<close>, and the member found there.\<close>

definition inarray_get :: "inarray \<Rightarrow> u32 \<Rightarrow> nat" where
  "inarray_get a position = unat (position * ia_member_size a)"

definition member_at :: "inarray \<Rightarrow> u32 \<Rightarrow> u8 list option" where
  "member_at a position = mem_read (ia_members a) (inarray_get a position) (unat (ia_member_size a))"

section \<open>Creation and capacity\<close>

definition eina_inarray_new :: "bool \<Rightarrow> u32 \<Rightarrow> u32 \<Rightarrow> inarray option" where
  "eina_inarray_new mem msize stp =
     (if msize = 0 \<or> \<not> mem then None else Some (inarray_setup msize stp))"

text \<open>\<open>eina_inarray_step_set\<close> called with the right structure size.\<close>

definition eina_inarray_step_set :: "inarray \<Rightarrow> u32 \<Rightarrow> u32 \<Rightarrow> inarray" where
  "eina_inarray_step_set a msize stp = (if msize = 0 then a else inarray_setup msize stp)"

definition eina_inarray_flush :: "inarray \<Rightarrow> inarray" where
  "eina_inarray_flush a = a\<lparr>ia_len := 0, ia_max := 0, ia_members := []\<rparr>"

definition eina_inarray_resize :: "allocator \<Rightarrow> inarray \<Rightarrow> u32 \<Rightarrow> bool \<times> inarray" where
  "eina_inarray_resize al a new_size =
     (case inarray_resize al a new_size of
        None \<Rightarrow> (False, a)
      | Some a' \<Rightarrow> (True, a'\<lparr>ia_len := new_size\<rparr>))"

definition eina_inarray_count :: "inarray \<Rightarrow> u32" where
  "eina_inarray_count a = ia_len a"

definition eina_inarray_nth :: "inarray \<Rightarrow> u32 \<Rightarrow> nat option" where
  "eina_inarray_nth a position = (if position \<ge> ia_len a then None else Some (inarray_get a position))"

section \<open>Insertion\<close>

text \<open>
  The result is \<open>None\<close> for an access outside a buffer, otherwise what the function returns
  and the array. \<open>data\<close> is the buffer the caller passes.
\<close>

definition eina_inarray_push :: "allocator \<Rightarrow> inarray \<Rightarrow> u8 list option \<Rightarrow> (int \<times> inarray) option" where
  "eina_inarray_push al a data =
     (case data of
        None \<Rightarrow> Some (- 1, a)
      | Some d \<Rightarrow>
          (case inarray_resize al a (ia_len a + 1) of
             None \<Rightarrow> Some (- 1, a)
           | Some a1 \<Rightarrow> do {
               bs \<leftarrow> mem_read d 0 (unat (ia_member_size a1));
               m \<leftarrow> mem_write (ia_members a1) (inarray_get a1 (ia_len a1)) bs;
               Some (sint (ia_len a1 + 1 - 1), a1\<lparr>ia_members := m, ia_len := ia_len a1 + 1\<rparr>) }))"

definition eina_inarray_grow :: "allocator \<Rightarrow> inarray \<Rightarrow> u32 \<Rightarrow> nat option \<times> inarray" where
  "eina_inarray_grow al a n =
     (if n = 0 then (None, a)
      else case inarray_resize al a (ia_len a + n) of
             None \<Rightarrow> (None, a)
           | Some a1 \<Rightarrow> (Some (inarray_get a1 (ia_len a1)), a1\<lparr>ia_len := ia_len a1 + n\<rparr>))"

definition eina_inarray_insert_at ::
  "allocator \<Rightarrow> inarray \<Rightarrow> u32 \<Rightarrow> u8 list \<Rightarrow> (bool \<times> inarray) option" where
  "eina_inarray_insert_at al a position data =
     (if position > ia_len a then Some (False, a)
      else case inarray_resize al a (ia_len a + 1) of
             None \<Rightarrow> Some (False, a)
           | Some a1 \<Rightarrow>
               (let p = inarray_get a1 position; sz = unat (ia_member_size a1) in do {
                  m \<leftarrow> (if ia_len a1 > position
                         then mem_move (ia_members a1) (p + sz) p (unat ((ia_len a1 - position) * ia_member_size a1))
                         else Some (ia_members a1));
                  bs \<leftarrow> mem_read data 0 sz;
                  m \<leftarrow> mem_write m p bs;
                  Some (True, a1\<lparr>ia_members := m, ia_len := ia_len a1 + 1\<rparr>) }))"

definition eina_inarray_alloc_at ::
  "allocator \<Rightarrow> inarray \<Rightarrow> u32 \<Rightarrow> u32 \<Rightarrow> (nat option \<times> inarray) option" where
  "eina_inarray_alloc_at al a position member_count =
     (if position > ia_len a \<or> member_count = 0 then Some (None, a)
      else case inarray_resize al a (ia_len a + member_count) of
             None \<Rightarrow> Some (None, a)
           | Some a1 \<Rightarrow>
               (let p = inarray_get a1 position in do {
                  m \<leftarrow> (if ia_len a1 > position
                         then mem_move (ia_members a1) (p + unat (member_count * ia_member_size a1)) p
                                (unat ((ia_len a1 - position) * ia_member_size a1))
                         else Some (ia_members a1));
                  Some (Some p, a1\<lparr>ia_members := m, ia_len := ia_len a1 + member_count\<rparr>) }))"

definition eina_inarray_replace_at ::
  "inarray \<Rightarrow> u32 \<Rightarrow> u8 list \<Rightarrow> (bool \<times> inarray) option" where
  "eina_inarray_replace_at a position data =
     (if position \<ge> ia_len a then Some (False, a)
      else do {
        bs \<leftarrow> mem_read data 0 (unat (ia_member_size a));
        m \<leftarrow> mem_write (ia_members a) (inarray_get a position) bs;
        Some (True, a\<lparr>ia_members := m\<rparr>) })"

section \<open>Removal\<close>

definition eina_inarray_remove_at :: "allocator \<Rightarrow> inarray \<Rightarrow> u32 \<Rightarrow> (bool \<times> inarray) option" where
  "eina_inarray_remove_at al a position =
     (if position \<ge> ia_len a then Some (False, a)
      else do {
        m \<leftarrow> (if position + 1 < ia_len a
               then (let p = inarray_get a position in
                     mem_move (ia_members a) p (p + unat (ia_member_size a))
                       (unat ((ia_len a - position - 1) * ia_member_size a)))
               else Some (ia_members a));
        (let a1 = a\<lparr>ia_members := m\<rparr> in
         case inarray_resize al a1 (ia_len a1 - 1) of
           None \<Rightarrow> Some (False, a1)
         | Some a2 \<Rightarrow> Some (True, a2\<lparr>ia_len := ia_len a2 - 1\<rparr>)) })"

definition eina_inarray_pop :: "allocator \<Rightarrow> inarray \<Rightarrow> nat option \<times> inarray" where
  "eina_inarray_pop al a =
     (if ia_len a = 0 then (None, a)
      else case inarray_resize al a (ia_len a - 1) of
             None \<Rightarrow> (None, a)
           | Some a1 \<Rightarrow> (Some (inarray_get a1 (ia_len a1 - 1)), a1\<lparr>ia_len := ia_len a1 - 1\<rparr>))"

text \<open>
  The end of the members as the loops over raw pointers compute it: \<open>array->len * sz\<close> in 32 bits.
\<close>

definition itr_end :: "inarray \<Rightarrow> nat" where
  "itr_end a = unat (ia_len a * ia_member_size a)"

lemma itr_end_step:
  assumes "i < itr_end a"
  shows "itr_end a - (i + unat (ia_member_size a)) < itr_end a - i"
proof -
  have "ia_member_size a \<noteq> 0"
    using assms by (auto simp: itr_end_def)
  then have "0 < unat (ia_member_size a)"
    by (simp add: unat_gt_0)
  then show ?thesis
    using assms by linarith
qed

text \<open>
  \<open>eina_inarray_remove\<close>: \<open>data\<close> points at a member (\<open>Inside\<close> its byte offset) or at a copy
  of one. The search loop compares the bytes from the member at offset \<open>itr\<close> on.
\<close>

datatype member_arg = Inside nat | Copy "u8 list"

function remove_scan :: "inarray \<Rightarrow> u8 list \<Rightarrow> nat \<Rightarrow> nat option option" where
  "remove_scan a data itr =
     (if itr < itr_end a then do {
        d \<leftarrow> mem_read data 0 (unat (ia_member_size a));
        p \<leftarrow> mem_read (ia_members a) itr (unat (ia_member_size a));
        (if memcmp d p = 0 then Some (Some itr) else remove_scan a data (itr + unat (ia_member_size a))) }
      else Some None)"
  by auto
termination
  by (relation "measure (\<lambda>(a, d, i). itr_end a - i)") (auto dest: itr_end_step)

definition eina_inarray_remove :: "allocator \<Rightarrow> inarray \<Rightarrow> member_arg \<Rightarrow> (int \<times> inarray) option" where
  "eina_inarray_remove al a data = do {
     found \<leftarrow> (case data of
               Inside off \<Rightarrow>
                 if off < inarray_get a (ia_len a) then Some (Some off)
                 else remove_scan a (drop off (ia_members a)) 0
             | Copy bs \<Rightarrow> remove_scan a bs 0);
     (case found of
        None \<Rightarrow> Some (- 1, a)
      | Some off \<Rightarrow>
          (let position = of_nat off div ia_member_size a in do {
             (ok, a') \<leftarrow> eina_inarray_remove_at al a position;
             Some (if ok then sint position else - 1, a') })) }"

section \<open>Search\<close>

text \<open>The loop of \<open>_eina_inarray_search\<close> from position \<open>pos\<close> on; \<open>compare\<close> may return anything.\<close>

function search_from :: "inarray \<Rightarrow> u8 list \<Rightarrow> (u8 list \<Rightarrow> u8 list \<Rightarrow> int) \<Rightarrow> u32 \<Rightarrow> u32 option" where
  "search_from a data compare pos =
     (if pos < ia_len a then do {
        p \<leftarrow> member_at a pos;
        (if compare data p = 0 then Some pos else search_from a data compare (pos + 1)) }
      else Some pos)"
  by auto
termination
  by (relation "measure (\<lambda>(a, d, c, i). unat (ia_len a) - unat i)")
    (auto simp: unat_inc word_less_nat_alt)

definition inarray_search :: "inarray \<Rightarrow> u8 list \<Rightarrow> (u8 list \<Rightarrow> u8 list \<Rightarrow> int) \<Rightarrow> int option" where
  "inarray_search a data compare =
     (if ia_len a = 0 then Some (- 1)
      else do {
        pos \<leftarrow> search_from a data compare 0;
        Some (if pos < ia_len a then sint pos else - 1) })"

definition eina_inarray_search ::
  "inarray \<Rightarrow> u8 list option \<Rightarrow> (u8 list \<Rightarrow> u8 list \<Rightarrow> int) option \<Rightarrow> int option" where
  "eina_inarray_search a data compare =
     (case (data, compare) of
        (Some d, Some c) \<Rightarrow> inarray_search a d c
      | _ \<Rightarrow> Some (- 1))"

lemma unat_middle:
  assumes "start \<le> (fin :: u32)"
  shows "unat (start + (fin - start) div 2) = unat start + (unat fin - unat start) div 2"
    and "start \<le> start + (fin - start) div 2" and "start + (fin - start) div 2 \<le> fin"
proof -
  have d: "unat ((fin - start) div 2) = (unat fin - unat start) div 2"
    using assms by (simp add: unat_div unat_sub)
  moreover have "unat start \<le> unat fin" "unat fin < 2 ^ 32"
    using assms unsigned_less [of fin, where ?'a = nat] by (simp_all add: word_le_nat_alt)
  ultimately show "unat (start + (fin - start) div 2) = unat start + (unat fin - unat start) div 2"
    by (subst unat_add_lem [THEN iffD1]) simp_all
  then show "start \<le> start + (fin - start) div 2" "start + (fin - start) div 2 \<le> fin"
    using \<open>unat start \<le> unat fin\<close> by (simp_all add: word_le_nat_alt)
qed

text \<open>
  \<open>_eina_inarray_search_sorted_near\<close>: the binary search returns the last member looked at
  and how it compared. The loop runs with \<open>start <= last\<close>; the last position is below the
  length, so \<open>middle + 1\<close> does not wrap and \<open>middle + 1 <= last\<close> is \<open>middle < last\<close>.
\<close>

function bisect ::
  "inarray \<Rightarrow> u8 list \<Rightarrow> (u8 list \<Rightarrow> u8 list \<Rightarrow> int) \<Rightarrow> u32 \<Rightarrow> u32 \<Rightarrow> (u32 \<times> int) option" where
  "bisect a data compare start fin =
     (if \<not> start \<le> fin then None
      else
        (let middle = start + (fin - start) div 2 in do {
           p \<leftarrow> member_at a middle;
           (let cmp = compare data p in
            if cmp = 0 then Some (middle, cmp)
            else if cmp > 0 then
              (if middle < fin then bisect a data compare (middle + 1) fin else Some (middle, cmp))
            else if middle > 0 then
              (if start \<le> middle - 1 then bisect a data compare start (middle - 1) else Some (middle, cmp))
            else Some (middle, cmp)) }))"
  by auto
termination
proof (relation "measure (\<lambda>(a, d, c, s, f). Suc (unat f) - unat s)", goal_cases)
  case 1
  then show ?case by simp
next
  case (2 a data compare start fin x aa xa)
  then show ?case
    using unat_middle [of start fin] by (auto simp: unat_inc word_less_nat_alt word_le_nat_alt)
next
  case (3 a data compare start fin x aa xa)
  then show ?case
  proof -
    have x: "x = start + (fin - start) div 2" "start \<le> fin" "x \<noteq> 0"
      using 3 by (auto simp: Let_def)
    have "unat x \<le> unat fin" "unat start \<le> unat fin"
      using unat_middle(3) [OF x(2)] x(1,2) by (simp_all add: word_le_nat_alt)
    moreover have "unat x \<noteq> 0"
      using x(3) by (simp add: unat_eq_0)
    moreover have "unat (x - 1) = unat x - 1"
      using x(3) by (rule unat_minus_one)
    ultimately show ?thesis by simp
  qed
qed

definition inarray_search_sorted_near ::
  "inarray \<Rightarrow> u8 list \<Rightarrow> (u8 list \<Rightarrow> u8 list \<Rightarrow> int) \<Rightarrow> (u32 \<times> int) option" where
  "inarray_search_sorted_near a data compare =
     (if ia_len a = 0 then Some (0, - 1)
      else if ia_len a = 1 then do { p \<leftarrow> member_at a 0; Some (0, compare data p) }
      else bisect a data compare 0 (ia_len a - 1))"

definition eina_inarray_search_sorted ::
  "inarray \<Rightarrow> u8 list option \<Rightarrow> (u8 list \<Rightarrow> u8 list \<Rightarrow> int) option \<Rightarrow> int option" where
  "eina_inarray_search_sorted a data compare =
     (case (data, compare) of
        (Some d, Some c) \<Rightarrow> do {
          (pos, cmp) \<leftarrow> inarray_search_sorted_near a d c;
          Some (if cmp = 0 then sint pos else - 1) }
      | _ \<Rightarrow> Some (- 1))"

definition eina_inarray_insert_sorted ::
  "allocator \<Rightarrow> inarray \<Rightarrow> u8 list option \<Rightarrow> (u8 list \<Rightarrow> u8 list \<Rightarrow> int) option \<Rightarrow> (int \<times> inarray) option" where
  "eina_inarray_insert_sorted al a data compare =
     (case (data, compare) of
        (Some d, Some c) \<Rightarrow> do {
          (pos, cmp) \<leftarrow> inarray_search_sorted_near a d c;
          (let pos = (if cmp > 0 then pos + 1 else pos) in do {
             (ok, a') \<leftarrow> eina_inarray_insert_at al a pos d;
             Some (if ok then sint pos else - 1, a') }) }
      | _ \<Rightarrow> Some (- 1, a))"

text \<open>
  \<open>eina_inarray_insert\<close>: the new member goes before the first that compares greater.
\<close>

function insert_scan :: "inarray \<Rightarrow> u8 list \<Rightarrow> (u8 list \<Rightarrow> u8 list \<Rightarrow> int) \<Rightarrow> nat \<Rightarrow> nat option option" where
  "insert_scan a data compare itr =
     (if itr < itr_end a then do {
        p \<leftarrow> mem_read (ia_members a) itr (unat (ia_member_size a));
        (if compare p data \<le> 0 then insert_scan a data compare (itr + unat (ia_member_size a)) else Some (Some itr)) }
      else Some None)"
  by auto
termination
  by (relation "measure (\<lambda>(a, d, c, i). itr_end a - i)") (auto dest: itr_end_step)

definition eina_inarray_insert ::
  "allocator \<Rightarrow> inarray \<Rightarrow> u8 list option \<Rightarrow> (u8 list \<Rightarrow> u8 list \<Rightarrow> int) option \<Rightarrow> (int \<times> inarray) option" where
  "eina_inarray_insert al a data compare =
     (case (data, compare) of
        (Some d, Some c) \<Rightarrow> do {
          found \<leftarrow> insert_scan a d c 0;
          (case found of
             Some offset \<Rightarrow>
               (let position = of_nat offset div ia_member_size a in do {
                  (ok, a') \<leftarrow> eina_inarray_insert_at al a position d;
                  Some (if ok then sint position else - 1, a') })
           | None \<Rightarrow> eina_inarray_push al a (Some d)) }
      | _ \<Rightarrow> Some (- 1, a))"

section \<open>Whole-array operations\<close>

text \<open>
  The loop of \<open>eina_inarray_reverse\<close>: \<open>fwd\<close>, \<open>fwd_end\<close> and \<open>bwd\<close> (\<open>rev\<close> in the code) are
  byte offsets. With members of no bytes \<open>fwd_end\<close> is 0 and the loop does not run. The products
  are of type \<open>size_t\<close> here, which holds the product of any two 32-bit numbers.
\<close>

function reverse_loop :: "nat \<Rightarrow> nat \<Rightarrow> nat \<Rightarrow> nat \<Rightarrow> u8 list \<Rightarrow> u8 list option" where
  "reverse_loop sz fwd fwd_end bwd m =
     (if fwd < fwd_end \<and> sz \<noteq> 0 then do {
        tmp \<leftarrow> mem_read m fwd sz;
        r \<leftarrow> mem_read m bwd sz;
        m \<leftarrow> mem_write m fwd r;
        m \<leftarrow> mem_write m bwd tmp;
        reverse_loop sz (fwd + sz) fwd_end (bwd - sz) m }
      else Some m)"
  by auto
termination
  by (relation "measure (\<lambda>(sz, fwd, fwd_end, bwd, m). fwd_end - fwd)") auto

definition eina_inarray_reverse :: "inarray \<Rightarrow> inarray option" where
  "eina_inarray_reverse a =
     (if ia_len a < 2 then Some a
      else
        (let sz = ia_member_size a in do {
           m \<leftarrow> reverse_loop (unat sz) 0 (unat (ia_len a div 2) * unat sz) (unat (ia_len a - 1) * unat sz) (ia_members a);
           Some (a\<lparr>ia_members := m\<rparr>) }))"

text \<open>\<open>eina_inarray_foreach\<close>: the callback changes a state \<open>'s\<close> and may stop the walk.\<close>

function foreach_from :: "inarray \<Rightarrow> (u8 list \<Rightarrow> 's \<Rightarrow> bool \<times> 's) \<Rightarrow> nat \<Rightarrow> 's \<Rightarrow> (bool \<times> 's) option" where
  "foreach_from a f itr s =
     (if itr < itr_end a then do {
        p \<leftarrow> mem_read (ia_members a) itr (unat (ia_member_size a));
        (case f p s of (ret, s') \<Rightarrow>
           if ret then foreach_from a f (itr + unat (ia_member_size a)) s' else Some (False, s')) }
      else Some (True, s))"
  by auto
termination
  by (relation "measure (\<lambda>(a, f, i, s). itr_end a - i)") (auto dest: itr_end_step)

definition eina_inarray_foreach ::
  "inarray \<Rightarrow> (u8 list \<Rightarrow> 's \<Rightarrow> bool \<times> 's) option \<Rightarrow> 's \<Rightarrow> (bool \<times> 's) option" where
  "eina_inarray_foreach a f s = (case f of None \<Rightarrow> Some (False, s) | Some g \<Rightarrow> foreach_from a g 0 s)"

text \<open>
  \<open>eina_inarray_foreach_remove\<close>. A failed removal would repeat the round for ever; \<open>None\<close>
  stands for that too.
\<close>

lemma resize_fields:
  "inarray_resize al a n = Some a' \<Longrightarrow>
   ia_len a' = ia_len a \<and> ia_member_size a' = ia_member_size a \<and> ia_step a' = ia_step a"
  by (auto simp: inarray_resize_def Let_def split: if_splits option.splits)

lemma remove_at_len:
  assumes "eina_inarray_remove_at al a i = Some (True, a')"
  shows "i < ia_len a" and "ia_len a' = ia_len a - 1" and "unat (ia_len a') < unat (ia_len a)"
proof -
  obtain a1 a2 where "i < ia_len a" "inarray_resize al a1 (ia_len a - 1) = Some a2" "ia_len a1 = ia_len a"
    "a' = a2\<lparr>ia_len := ia_len a2 - 1\<rparr>"
    using assms unfolding eina_inarray_remove_at_def Let_def
    by (auto simp: bind_eq_Some_conv not_le split: if_splits option.splits)
  with resize_fields [OF this(2)] show i: "i < ia_len a" and l: "ia_len a' = ia_len a - 1"
    by simp_all
  from i have "ia_len a \<noteq> 0" by auto
  with l show "unat (ia_len a') < unat (ia_len a)"
    by (simp add: unat_minus_one unat_gt_0)
qed

function foreach_remove_loop ::
  "allocator \<Rightarrow> inarray \<Rightarrow> (u8 list \<Rightarrow> bool) \<Rightarrow> u32 \<Rightarrow> u32 \<Rightarrow> (u32 \<times> inarray) option" where
  "foreach_remove_loop al a match i cnt =
     (if i < ia_len a then do {
        p \<leftarrow> member_at a i;
        (if \<not> match p then foreach_remove_loop al a match (i + 1) cnt
         else case eina_inarray_remove_at al a i of
                Some (True, a') \<Rightarrow> foreach_remove_loop al a' match i (cnt + 1)
              | _ \<Rightarrow> None) }
      else Some (cnt, a))"
  by auto
termination
  by (relation "measure (\<lambda>(al, a, m, i, c). unat (ia_len a) - unat i)")
    (auto simp: unat_inc word_less_nat_alt dest!: remove_at_len)

definition eina_inarray_foreach_remove ::
  "allocator \<Rightarrow> inarray \<Rightarrow> (u8 list \<Rightarrow> bool) option \<Rightarrow> (int \<times> inarray) option" where
  "eina_inarray_foreach_remove al a match =
     (case match of
        None \<Rightarrow> Some (- 1, a)
      | Some f \<Rightarrow> do { (cnt, a') \<leftarrow> foreach_remove_loop al a f 0 0; Some (sint cnt, a') })"

text \<open>The iterators and the accessor: the position, and the member returned as an offset.\<close>

definition inarray_iterator_next :: "inarray \<Rightarrow> u32 \<Rightarrow> nat option \<times> u32" where
  "inarray_iterator_next a pos =
     (if pos \<ge> ia_len a then (None, pos) else (Some (inarray_get a pos), pos + 1))"

definition inarray_iterator_prev :: "inarray \<Rightarrow> u32 \<Rightarrow> nat option \<times> u32" where
  "inarray_iterator_prev a pos =
     (if pos = 0 then (None, pos) else (Some (inarray_get a (pos - 1)), pos - 1))"

definition inarray_accessor_get_at :: "inarray \<Rightarrow> u32 \<Rightarrow> nat option" where
  "inarray_accessor_get_at a pos = (if pos \<ge> ia_len a then None else Some (inarray_get a pos))"

declare reverse_loop.simps [simp del] search_from.simps [simp del] bisect.simps [simp del] insert_scan.simps [simp del]
  remove_scan.simps [simp del] foreach_from.simps [simp del] foreach_remove_loop.simps [simp del]

end
