(* ===== verification/Eina_Inarray_Laws.thy ===== *)
theory Eina_Inarray_Laws
  imports Eina_Inarray
begin

text \<open>
  What the inline array promises: its bytes are the concatenation of a list of members
  (\<open>items\<close>), every operation stays inside the buffer and acts on that list.
\<close>

section \<open>Buffers made of members\<close>

lemma length_concat_members: "\<forall>x \<in> set xs. length x = sz \<Longrightarrow> length (concat xs) = length xs * sz"
  by (induction xs) auto

lemma concat_member:
  "\<forall>x \<in> set xs. length x = sz \<Longrightarrow> i < length xs \<Longrightarrow> take sz (drop (i * sz) (concat xs @ rest)) = xs ! i"
  by (induction xs arbitrary: i) (auto simp: nth_Cons split: nat.split)

lemma concat_chunks:
  "n * sz \<le> length m \<Longrightarrow> concat (map (\<lambda>i. take sz (drop (i * sz) m)) [0..<n]) = take (n * sz) m"
proof (induction n)
  case 0
  then show ?case by simp
next
  case (Suc n)
  then show ?case
    using take_add [of "n * sz" sz m] by (simp add: add.commute)
qed

section \<open>Invariant and contents\<close>

definition inarray_wf :: "inarray \<Rightarrow> bool" where
  "inarray_wf a \<longleftrightarrow>
     ia_member_size a \<noteq> 0 \<and> ia_step a \<noteq> 0 \<and> ia_len a \<le> ia_max a \<and>
     unat (ia_max a) * unat (ia_member_size a) < 2 ^ 32 \<and>
     length (ia_members a) = unat (ia_max a) * unat (ia_member_size a)"

definition items :: "inarray \<Rightarrow> u8 list list" where
  "items a =
     map (\<lambda>i. take (unat (ia_member_size a)) (drop (i * unat (ia_member_size a)) (ia_members a)))
       [0..<unat (ia_len a)]"

text \<open>Room for \<open>n\<close> members without overflow of the 32-bit byte count.\<close>

definition fits :: "inarray \<Rightarrow> u32 \<Rightarrow> bool" where
  "fits a n \<longleftrightarrow> (unat n + unat (ia_step a)) * unat (ia_member_size a) < 2 ^ 32"

lemma length_items [simp]: "length (items a) = unat (ia_len a)"
  by (simp add: items_def)

lemma wf_bytes:
  assumes "inarray_wf a"
  shows "unat (ia_len a) * unat (ia_member_size a) \<le> length (ia_members a)" and "0 < unat (ia_member_size a)"
    and "unat (ia_len a) \<le> unat (ia_max a)"
  using assms by (auto simp: inarray_wf_def word_le_nat_alt unat_gt_0)

lemma items_sizes:
  assumes "inarray_wf a"
  shows "\<forall>x \<in> set (items a). length x = unat (ia_member_size a)"
proof
  fix x assume "x \<in> set (items a)"
  then obtain i where i: "i < unat (ia_len a)"
      "x = take (unat (ia_member_size a)) (drop (i * unat (ia_member_size a)) (ia_members a))"
    by (auto simp: items_def)
  have "Suc i * unat (ia_member_size a) \<le> unat (ia_len a) * unat (ia_member_size a)"
    using i(1) by (intro mult_le_mono1) simp
  with wf_bytes(1) [OF assms] show "length x = unat (ia_member_size a)"
    by (simp add: i(2))
qed

lemma members_eq:
  assumes "inarray_wf a"
  obtains rest where "ia_members a = concat (items a) @ rest"
proof
  show "ia_members a = concat (items a) @ drop (unat (ia_len a) * unat (ia_member_size a)) (ia_members a)"
    using concat_chunks [OF wf_bytes(1) [OF assms]] by (simp add: items_def)
qed

lemma items_eqI:
  assumes "ia_members a = concat xs @ rest" and "\<forall>x \<in> set xs. length x = unat (ia_member_size a)"
    and "length xs = unat (ia_len a)"
  shows "items a = xs"
  using assms concat_member [OF assms(2)] by (intro nth_equalityI) (simp_all add: items_def)

section \<open>Offsets\<close>

lemma unat_mult_small: "unat a * unat b < 2 ^ 32 \<Longrightarrow> unat (a * b :: u32) = unat a * unat b"
  by (simp add: unat_word_ariths)

lemma get_offset:
  assumes "inarray_wf a" and "i \<le> ia_max a"
  shows "inarray_get a i = unat i * unat (ia_member_size a)"
proof -
  have "unat i * unat (ia_member_size a) \<le> unat (ia_max a) * unat (ia_member_size a)"
    using assms(2) by (intro mult_le_mono1) (simp add: word_le_nat_alt)
  also have "\<dots> < 2 ^ 32"
    using assms(1) by (simp add: inarray_wf_def)
  finally show ?thesis
    by (simp add: inarray_get_def unat_mult_small)
qed

lemma member_at_ok:
  assumes "inarray_wf a" and "i < ia_len a"
  shows "member_at a i = Some (items a ! unat i)"
proof -
  let ?sz = "unat (ia_member_size a)"
  have i: "unat i < unat (ia_len a)" "i \<le> ia_max a"
    using assms wf_bytes(3) [OF assms(1)] by (simp_all add: word_less_nat_alt word_le_nat_alt)
  have "Suc (unat i) * ?sz \<le> unat (ia_len a) * ?sz"
    using i(1) by (intro mult_le_mono1) simp
  with wf_bytes(1) [OF assms(1)] show ?thesis
    using i get_offset [OF assms(1) i(2)] by (simp add: member_at_def mem_read_def items_def add.commute)
qed

section \<open>Growing\<close>

lemma new_capacity_bounds:
  assumes "inarray_wf a" and "fits a n"
  shows "unat n \<le> unat (new_capacity a n)" and "unat (new_capacity a n) < unat n + unat (ia_step a)"
    and "unat (new_capacity a n) * unat (ia_member_size a) < 2 ^ 32"
proof -
  let ?s = "unat (ia_step a)" and ?z = "unat (ia_member_size a)"
  have s: "0 < ?s" "0 < ?z"
    using assms(1) by (simp_all add: inarray_wf_def unat_gt_0)
  have lt: "unat n + ?s < 2 ^ 32"
    using assms(2) s(2) unfolding fits_def
    by (metis le_less_trans mult.right_neutral mult_le_mono2 Suc_leI One_nat_def)
  have div: "unat n = unat n div ?s * ?s + unat n mod ?s" "unat n mod ?s < ?s"
    using s(1) by simp_all
  have "Suc (unat n div ?s) < 2 ^ 32"
    using lt s(1) div_le_dividend [of "unat n" ?s] by linarith
  then have d: "unat (n div ia_step a + 1) = unat n div ?s + 1"
    by (subst unat_Suc_less) (simp_all add: unat_div)
  have "unat n \<le> unat (new_capacity a n) \<and> unat (new_capacity a n) < unat n + ?s"
  proof (cases "n mod ia_step a = 0")
    case True
    then show ?thesis
      using s by (simp add: new_capacity_def)
  next
    case False
    have q: "(unat n div ?s + 1) * ?s = unat n div ?s * ?s + ?s"
      by simp
    then have "(unat n div ?s + 1) * ?s < 2 ^ 32"
      using lt div_times_less_eq_dividend [of "unat n" ?s] by linarith
    then have "unat (new_capacity a n) = (unat n div ?s + 1) * ?s"
      using False d by (simp add: new_capacity_def unat_mult_small)
    moreover have "0 < unat n mod ?s"
      using False by (metis gr0I unat_eq_zero unat_mod)
    ultimately show ?thesis
      using div q by linarith
  qed
  then show "unat n \<le> unat (new_capacity a n)" "unat (new_capacity a n) < unat n + ?s"
    by simp_all
  then have "unat (new_capacity a n) * ?z \<le> (unat n + ?s) * ?z"
    by (intro mult_le_mono1) simp
  also have "\<dots> < 2 ^ 32"
    using assms(2) by (simp add: fits_def)
  finally show "unat (new_capacity a n) * ?z < 2 ^ 32" .
qed

lemma resize_ok:
  assumes wf: "inarray_wf a" and f: "fits a n" and r: "inarray_resize al a n = Some a'"
  shows "inarray_wf a'" and "items a' = items a" and "n \<le> ia_max a'" and "ia_len a' = ia_len a"
    and "ia_member_size a' = ia_member_size a" and "ia_step a' = ia_step a"
proof -
  let ?c = "new_capacity a n" and ?z = "unat (ia_member_size a)"
  note cap = new_capacity_bounds [OF wf f]
  have bytes: "unat (?c * ia_member_size a) = unat ?c * ?z"
    by (rule unat_mult_small [OF cap(3)])
  show fields: "ia_len a' = ia_len a" "ia_member_size a' = ia_member_size a" "ia_step a' = ia_step a"
    using resize_fields [OF r] by simp_all
  have "inarray_wf a' \<and> n \<le> ia_max a' \<and> (\<exists>more. ia_members a' = ia_members a @ more)"
  proof (cases "n < ia_max a")
    case True
    then show ?thesis
      using r wf by (auto simp: inarray_resize_def)
  next
    case False
    then have ge: "unat (ia_max a) \<le> unat ?c" "unat n \<le> unat ?c"
      using cap(1) by (simp_all add: word_less_nat_alt)
    then have le: "length (ia_members a) \<le> unat ?c * ?z"
      using wf by (simp add: inarray_wf_def)
    have "ia_max a' = ?c \<and> (\<exists>more. ia_members a' = ia_members a @ more) \<and> length (ia_members a') = unat ?c * ?z"
    proof (cases "?c = 0")
      case True
      then show ?thesis
        using r False le by (auto simp: inarray_resize_def realloc_def Let_def split: if_splits)
    next
      case c: False
      then have "unat ?c * ?z \<noteq> 0"
        using wf by (simp add: inarray_wf_def unat_eq_0)
      then show ?thesis
        using r False c le bytes
        by (auto simp: inarray_resize_def realloc_def Let_def word_neq_0_conv split: if_splits)
    qed
    moreover have "unat (ia_len a) \<le> unat ?c"
      using wf_bytes(3) [OF wf] ge(1) by simp
    ultimately show ?thesis
      using wf fields ge(2) cap(3) by (auto simp: inarray_wf_def word_le_nat_alt)
  qed
  then obtain more where "inarray_wf a'" "n \<le> ia_max a'" and more: "ia_members a' = ia_members a @ more"
    by blast
  then show "inarray_wf a'" "n \<le> ia_max a'"
    by simp_all
  obtain rest where "ia_members a = concat (items a) @ rest"
    using members_eq [OF wf] .
  with more fields items_sizes [OF wf] show "items a' = items a"
    by (intro items_eqI [of _ _ "rest @ more"]) simp_all
qed


section \<open>Insertion and removal\<close>

text \<open>Room for \<open>k\<close> more members.\<close>

definition room :: "inarray \<Rightarrow> u32 \<Rightarrow> bool" where
  "room a k \<longleftrightarrow> (unat (ia_len a) + unat k + unat (ia_step a)) * unat (ia_member_size a) < 2 ^ 32"

lemma fits_add:
  assumes "inarray_wf a" and "room a k"
  shows "unat (ia_len a + k) = unat (ia_len a) + unat k" and "fits a (ia_len a + k)"
proof -
  have "unat (ia_len a) + unat k + unat (ia_step a) \<le> (unat (ia_len a) + unat k + unat (ia_step a)) * unat (ia_member_size a)"
    using wf_bytes(2) [OF assms(1)] by simp
  with assms(2) have "unat (ia_len a) + unat k < 2 ^ 32"
    unfolding room_def by linarith
  then show "unat (ia_len a + k) = unat (ia_len a) + unat k"
    by (simp add: unat_word_ariths)
  with assms(2) show "fits a (ia_len a + k)"
    by (simp add: fits_def room_def)
qed

text \<open>The buffer around a position.\<close>

lemma split_members:
  assumes wf: "inarray_wf a" and i: "i \<le> unat (ia_len a)"
  obtains rest where
    "ia_members a = concat (take i (items a)) @ concat (drop i (items a)) @ rest"
    "length (concat (take i (items a))) = i * unat (ia_member_size a)"
    "length (concat (drop i (items a))) = (unat (ia_len a) - i) * unat (ia_member_size a)"
    "length rest = length (ia_members a) - unat (ia_len a) * unat (ia_member_size a)"
proof -
  obtain rest where r: "ia_members a = concat (items a) @ rest"
    using members_eq [OF wf] .
  have l: "length (concat (take i (items a))) = i * unat (ia_member_size a)"
    "length (concat (drop i (items a))) = (unat (ia_len a) - i) * unat (ia_member_size a)"
    using i items_sizes [OF wf] by (subst length_concat_members [where sz = "unat (ia_member_size a)"]; auto dest: in_set_takeD in_set_dropD)+
  moreover have "ia_members a = concat (take i (items a)) @ concat (drop i (items a)) @ rest"
    by (simp add: r concat_append [symmetric] del: concat_append)
  moreover have "length (concat (items a)) = unat (ia_len a) * unat (ia_member_size a)"
    using items_sizes [OF wf] by (simp add: length_concat_members [where sz = "unat (ia_member_size a)"])
  ultimately show ?thesis
    using that r by simp
qed

lemma insert_at_ok:
  assumes wf: "inarray_wf a" and room: "room a 1" and d: "unat (ia_member_size a) \<le> length data"
  shows "\<exists>ok a'. eina_inarray_insert_at al a i data = Some (ok, a') \<and> inarray_wf a' \<and>
    (ok \<longleftrightarrow> i \<le> ia_len a \<and> inarray_resize al a (ia_len a + 1) \<noteq> None) \<and>
    ia_member_size a' = ia_member_size a \<and> ia_step a' = ia_step a \<and>
    items a' = (if ok then take (unat i) (items a) @ take (unat (ia_member_size a)) data # drop (unat i) (items a)
                else items a)"
proof (cases "i \<le> ia_len a \<and> inarray_resize al a (ia_len a + 1) \<noteq> None")
  case False
  then show ?thesis
    using wf by (auto simp: eina_inarray_insert_at_def not_le split: option.split)
next
  case True
  then obtain b where b: "inarray_resize al a (ia_len a + 1) = Some b" and i: "i \<le> ia_len a"
    by auto
  have n1: "unat (ia_len a + 1) = Suc (unat (ia_len a))" and f: "fits a (ia_len a + 1)"
    using fits_add [OF wf room] by simp_all
  note rs = resize_ok [OF wf f b]
  let ?sz = "unat (ia_member_size a)" and ?i = "unat i" and ?n = "unat (ia_len a)"
  have le: "?i \<le> ?n"
    using i by (simp add: word_le_nat_alt)
  have cap: "?n * ?sz + ?sz \<le> length (ia_members b)"
  proof -
    have "Suc ?n * ?sz \<le> unat (ia_max b) * ?sz"
      using rs(3) n1 by (intro mult_le_mono1) (simp add: word_le_nat_alt)
    then show ?thesis
      using rs(1,5) by (simp add: inarray_wf_def add.commute)
  qed
  obtain rest where m: "ia_members b = concat (take ?i (items a)) @ concat (drop ?i (items a)) @ rest"
    and l: "length (concat (take ?i (items a))) = ?i * ?sz"
      "length (concat (drop ?i (items a))) = (?n - ?i) * ?sz"
      "length rest = length (ia_members b) - ?n * ?sz"
    using split_members [OF rs(1), of ?i] le unfolding rs(2,4,5) by blast
  define r1 r2 where "r1 = take ?sz rest" and "r2 = drop ?sz rest"
  have r: "rest = r1 @ r2" "length r1 = ?sz"
    using l(3) cap by (simp_all add: r1_def r2_def)
  have off: "inarray_get b i = ?i * ?sz"
    using get_offset [OF rs(1)] i rs(1,4,5) by (auto simp: inarray_wf_def)
  have cnt: "unat ((ia_len b - i) * ia_member_size b) = (?n - ?i) * ?sz"
  proof -
    have "(?n - ?i) * ?sz \<le> ?n * ?sz"
      by (intro mult_le_mono1) simp
    also have "\<dots> < 2 ^ 32"
      using cap rs(1,5) by (simp add: inarray_wf_def)
    finally show ?thesis
      using i by (simp add: rs(4,5) unat_mult_small unat_sub)
  qed
  let ?d = "take ?sz data"
  have dr: "mem_read data 0 ?sz = Some ?d"
    using d by (simp add: mem_read_def)
  have gap: "(do { m \<leftarrow> mem_move (ia_members b) (?i * ?sz + ?sz) (?i * ?sz) ((?n - ?i) * ?sz);
         mem_write m (?i * ?sz) ?d }) = Some (concat (take ?i (items a)) @ ?d @ concat (drop ?i (items a)) @ r2)"
    unfolding m r(1) using l(1,2) r(2) d by (intro mem_insert_gap) simp_all
  let ?m = "concat (take ?i (items a)) @ ?d @ concat (drop ?i (items a)) @ r2"
  let ?b = "b\<lparr>ia_members := ?m, ia_len := ia_len b + 1\<rparr>"
  have "eina_inarray_insert_at al a i data = Some (True, ?b)"
  proof (cases "?i < ?n")
    case True
    then show ?thesis
      using b i gap cnt off dr
      by (auto simp: eina_inarray_insert_at_def rs(4,5) not_less word_less_nat_alt Let_def bind_eq_Some_conv)
  next
    case False
    then have "mem_write (ia_members b) (?i * ?sz) ?d = Some ?m"
      using le l r d unfolding m r(1) by (auto simp: mem_write_mid)
    moreover have "\<not> i < ia_len a" "\<not> ia_len a < i"
      using False le by (simp_all add: word_less_nat_alt not_less)
    ultimately show ?thesis
      using b off dr
      by (simp add: eina_inarray_insert_at_def rs(4,5) Let_def)
  qed
  moreover have "inarray_wf ?b"
    using rs(1,3,5) l r d m n1 by (auto simp: inarray_wf_def rs(4))
  moreover have "items ?b = take ?i (items a) @ ?d # drop ?i (items a)"
    using items_sizes [OF wf] d le n1 rs(5)
    by (intro items_eqI [of _ _ r2]) (auto simp: rs(4) dest: in_set_takeD in_set_dropD)
  ultimately show ?thesis
    using True rs(5,6) by auto
qed


lemma push_ok:
  assumes wf: "inarray_wf a" and room: "room a 1" and d: "unat (ia_member_size a) \<le> length data"
  shows "\<exists>r a'. eina_inarray_push al a (Some data) = Some (r, a') \<and> inarray_wf a' \<and>
    ia_member_size a' = ia_member_size a \<and> ia_step a' = ia_step a \<and>
    (case inarray_resize al a (ia_len a + 1) of
       None \<Rightarrow> r = - 1 \<and> items a' = items a
     | Some _ \<Rightarrow> r = sint (ia_len a) \<and> items a' = items a @ [take (unat (ia_member_size a)) data])"
proof (cases "inarray_resize al a (ia_len a + 1)")
  case None
  then show ?thesis
    using wf by (simp add: eina_inarray_push_def)
next
  case (Some b)
  have "eina_inarray_push al a (Some data) =
      (do { (ok, a') \<leftarrow> eina_inarray_insert_at al a (ia_len a) data; Some (sint (ia_len a), a') })"
    using Some resize_fields [OF Some]
    by (auto simp: eina_inarray_push_def eina_inarray_insert_at_def Let_def split: Option.bind_splits)
  then show ?thesis
    using insert_at_ok [OF wf room d, of al "ia_len a"] Some by auto
qed

lemma remove_at_ok:
  assumes wf: "inarray_wf a" and i: "i < ia_len a"
  shows "\<exists>a'. eina_inarray_remove_at al a i = Some (True, a') \<and> inarray_wf a' \<and>
    ia_member_size a' = ia_member_size a \<and> ia_step a' = ia_step a \<and> ia_len a' = ia_len a - 1 \<and>
    items a' = take (unat i) (items a) @ drop (Suc (unat i)) (items a)"
proof -
  let ?sz = "unat (ia_member_size a)" and ?i = "unat i" and ?n = "unat (ia_len a)"
  let ?x = "items a ! ?i" and ?B = "concat (drop (Suc ?i) (items a))"
  have lt: "?i < ?n" "ia_len a \<noteq> 0" "ia_len a - 1 < ia_max a"
  proof -
    show "?i < ?n" and nz: "ia_len a \<noteq> 0"
      using i by (auto simp: word_less_nat_alt)
    then show "ia_len a - 1 < ia_max a"
      using wf_bytes(3) [OF wf] by (simp add: word_less_nat_alt unat_minus_one)
  qed
  have n1: "unat (ia_len a - 1) = ?n - 1"
    using lt(2) by (rule unat_minus_one)
  obtain rest where m: "ia_members a = concat (take ?i (items a)) @ concat (drop ?i (items a)) @ rest"
    and l: "length (concat (take ?i (items a))) = ?i * ?sz"
    using split_members [OF wf, of ?i] lt(1) by (metis less_imp_le)
  have x: "concat (drop ?i (items a)) = ?x @ ?B" "length ?x = ?sz"
    using lt(1) items_sizes [OF wf] by (simp_all add: Cons_nth_drop_Suc [symmetric])
  have B: "length ?B = (?n - Suc ?i) * ?sz"
    using items_sizes [OF wf] by (subst length_concat_members [where sz = ?sz]) (auto dest: in_set_dropD)
  have off: "inarray_get a i = ?i * ?sz"
    using get_offset [OF wf] lt(1) wf_bytes(3) [OF wf] by (simp add: word_le_nat_alt)
  obtain E where move: "(if i + 1 < ia_len a
               then mem_move (ia_members a) (inarray_get a i) (inarray_get a i + ?sz)
                       (unat ((ia_len a - i - 1) * ia_member_size a))
               else Some (ia_members a)) = Some (concat (take ?i (items a)) @ ?B @ E @ rest)" "length E = ?sz"
  proof (cases "i + 1 < ia_len a")
    case True
    have "unat (ia_len a - i) = ?n - ?i"
      using lt(1) by (intro unat_sub) (simp add: word_le_nat_alt)
    moreover from this lt(1) have "ia_len a - i \<noteq> 0"
      by auto
    ultimately have "unat (ia_len a - i - 1) = ?n - Suc ?i"
      by (simp add: unat_minus_one)
    moreover have "(?n - Suc ?i) * ?sz < 2 ^ 32"
    proof -
      have "(?n - Suc ?i) * ?sz \<le> unat (ia_max a) * ?sz"
        using wf_bytes(3) [OF wf] by (intro mult_le_mono1) simp
      also have "\<dots> < 2 ^ 32"
        using wf by (simp add: inarray_wf_def)
      finally show ?thesis .
    qed
    ultimately have cnt: "unat ((ia_len a - i - 1) * ia_member_size a) = (?n - Suc ?i) * ?sz"
      by (simp add: unat_mult_small)
    obtain E where "mem_move (concat (take ?i (items a)) @ ?x @ ?B @ rest) (?i * ?sz) (?i * ?sz + ?sz)
        ((?n - Suc ?i) * ?sz) = Some (concat (take ?i (items a)) @ ?B @ E @ rest)" "length E = ?sz"
      using l x(2) B by (rule mem_close_gap)
    then show ?thesis
      using True that m x(1) off cnt by simp
  next
    case False
    then have "?n = Suc ?i"
      using lt(1) unat_inc [OF i] by (simp add: word_less_nat_alt)
    then have "drop (Suc ?i) (items a) = []" by simp
    then show ?thesis
      using False that [of ?x] m x by simp
  qed
  let ?m = "concat (take ?i (items a)) @ ?B @ E @ rest"
  let ?a = "a\<lparr>ia_members := ?m, ia_len := ia_len a - 1\<rparr>"
  have "inarray_resize al (a\<lparr>ia_members := ?m\<rparr>) (ia_len a - 1) = Some (a\<lparr>ia_members := ?m\<rparr>)"
    using lt(3) by (simp add: inarray_resize_def)
  moreover have "\<not> ia_len a \<le> i"
    using i by simp
  ultimately have "eina_inarray_remove_at al a i = Some (True, ?a)"
    unfolding eina_inarray_remove_at_def Let_def move(1) by simp
  moreover have "length ?m = length (ia_members a)"
    using m x move(2) by simp
  then have "inarray_wf ?a"
    using wf lt(3) by (simp add: inarray_wf_def)
  moreover have "items ?a = take ?i (items a) @ drop (Suc ?i) (items a)"
    using items_sizes [OF wf] lt(1) n1
    by (intro items_eqI [of _ _ "E @ rest"]) (auto dest: in_set_takeD in_set_dropD)
  ultimately show ?thesis by auto
qed

lemma replace_at_ok:
  assumes wf: "inarray_wf a" and d: "unat (ia_member_size a) \<le> length data"
  shows "\<exists>a'. eina_inarray_replace_at a i data = Some (i < ia_len a, a') \<and> inarray_wf a' \<and>
    items a' = (if i < ia_len a then (items a)[unat i := take (unat (ia_member_size a)) data] else items a)"
proof (cases "i < ia_len a")
  case False
  then show ?thesis
    using wf by (auto simp: eina_inarray_replace_at_def not_less)
next
  case True
  let ?sz = "unat (ia_member_size a)" and ?i = "unat i" and ?n = "unat (ia_len a)"
  let ?x = "items a ! ?i" and ?B = "concat (drop (Suc ?i) (items a))" and ?d = "take (unat (ia_member_size a)) data"
  have lt: "?i < ?n"
    using True by (simp add: word_less_nat_alt)
  obtain rest where m: "ia_members a = concat (take ?i (items a)) @ concat (drop ?i (items a)) @ rest"
    and l: "length (concat (take ?i (items a))) = ?i * ?sz"
    using split_members [OF wf, of ?i] lt by (metis less_imp_le)
  have x: "concat (drop ?i (items a)) = ?x @ ?B" "length ?x = ?sz"
    using lt items_sizes [OF wf] by (simp_all add: Cons_nth_drop_Suc [symmetric])
  have off: "inarray_get a i = ?i * ?sz"
    using get_offset [OF wf] lt wf_bytes(3) [OF wf] by (simp add: word_le_nat_alt)
  let ?m = "concat (take ?i (items a)) @ ?d @ ?B @ rest"
  have "mem_write (ia_members a) (?i * ?sz) ?d = Some ?m"
    unfolding m x(1) append.assoc using l x(2) d by (intro mem_write_mid) simp_all
  then have "eina_inarray_replace_at a i data = Some (True, a\<lparr>ia_members := ?m\<rparr>)"
    using True d off by (simp add: eina_inarray_replace_at_def mem_read_def not_le)
  moreover have "inarray_wf (a\<lparr>ia_members := ?m\<rparr>)"
    using wf m x d by (auto simp: inarray_wf_def)
  moreover have "items (a\<lparr>ia_members := ?m\<rparr>) = (items a)[?i := ?d]"
    using items_sizes [OF wf] lt d
    by (intro items_eqI [of _ _ rest])
      (auto simp: upd_conv_take_nth_drop dest: in_set_takeD in_set_dropD)
  ultimately show ?thesis
    using True by auto
qed

lemma pop_ok:
  assumes wf: "inarray_wf a" and nz: "ia_len a \<noteq> 0"
  shows "\<exists>off a'. eina_inarray_pop al a = (Some off, a') \<and> inarray_wf a' \<and> items a' = butlast (items a) \<and>
    mem_read (ia_members a') off (unat (ia_member_size a)) = Some (last (items a))"
proof -
  have lt: "ia_len a - 1 < ia_len a" "ia_len a - 1 < ia_max a"
  proof -
    have "0 < unat (ia_len a)" "unat (ia_len a - 1) = unat (ia_len a) - 1"
      using nz by (simp_all add: unat_gt_0 unat_minus_one)
    with wf_bytes(3) [OF wf] show "ia_len a - 1 < ia_len a" "ia_len a - 1 < ia_max a"
      by (simp_all add: word_less_nat_alt)
  qed
  have n1: "unat (ia_len a - 1) = unat (ia_len a) - 1"
    using nz by (rule unat_minus_one)
  let ?a = "a\<lparr>ia_len := ia_len a - 1\<rparr>"
  have "inarray_wf ?a"
    using wf lt(2) by (simp add: inarray_wf_def)
  moreover have "items ?a = butlast (items a)"
    by (simp add: items_def n1 butlast_conv_take take_map)
  moreover have "member_at a (ia_len a - 1) = Some (last (items a))"
    using member_at_ok [OF wf lt(1)] nz n1 by (subst last_conv_nth) (auto simp: unat_eq_0 items_def)
  ultimately show ?thesis
    using nz lt(2) by (simp add: eina_inarray_pop_def inarray_resize_def member_at_def inarray_get_def)
qed


section \<open>Search\<close>

lemma unat_le_trans: "unat i < n \<Longrightarrow> n \<le> unat j \<Longrightarrow> i < (j :: u32)"
  by (simp add: word_less_nat_alt)

lemma sint_small_pos: "unat (w :: u32) < 2 ^ 31 \<Longrightarrow> sint w = int (unat w)"
proof -
  assume "unat w < 2 ^ 31"
  then have "int (unat w) < int (2 ^ 31)"
    by (simp only: of_nat_less_iff)
  moreover have "int (unat w) = uint w" by simp
  ultimately have "uint w < 2 ^ 31"
    by (simp only: of_nat_power of_nat_numeral)
  moreover have "- (2 ^ 31) \<le> uint w"
    by (rule order_trans [OF _ uint_ge_0]) simp
  ultimately have "signed_take_bit 31 (uint w) = uint w"
    by (intro signed_take_bit_int_eq_self)
  then show ?thesis
    by (simp add: sint_uint)
qed

lemma search_from_ok:
  assumes "inarray_wf a" and "i \<le> ia_len a"
  shows "\<exists>p. search_from a d c i = Some p \<and>
    unat p = unat i + length (takeWhile (\<lambda>x. c d x \<noteq> 0) (drop (unat i) (items a)))"
  using assms
proof (induction a d c i rule: search_from.induct)
  case (1 a d c i)
  show ?case
  proof (cases "i < ia_len a")
    case False
    then have "i = ia_len a"
      using 1(3) by simp
    then show ?thesis
      by (subst search_from.simps) simp
  next
    case True
    let ?x = "items a ! unat i"
    have m: "member_at a i = Some ?x"
      by (rule member_at_ok [OF 1(2) True])
    have lt: "unat i < unat (ia_len a)"
      using True by (simp add: word_less_nat_alt)
    then have d: "drop (unat i) (items a) = ?x # drop (Suc (unat i)) (items a)"
      by (simp add: Cons_nth_drop_Suc)
    show ?thesis
    proof (cases "c d ?x = 0")
      case z: True
      then show ?thesis
        using True m d by (subst search_from.simps) simp
    next
      case nz: False
      have "i + 1 \<le> ia_len a"
        using True by (simp add: word_le_nat_alt unat_inc Suc_leI word_less_nat_alt)
      with 1(1) [OF True m _ 1(2)] nz obtain p where
        "search_from a d c (i + 1) = Some p"
        "unat p = unat (i + 1) + length (takeWhile (\<lambda>x. c d x \<noteq> 0) (drop (unat (i + 1)) (items a)))"
        by auto
      then show ?thesis
        using True m d nz by (subst search_from.simps) (simp add: unat_inc [OF True])
    qed
  qed
qed

lemma search_ok:
  assumes "inarray_wf a" and "unat (ia_len a) < 2 ^ 31"
  shows "eina_inarray_search a (Some d) (Some c) =
    Some (let i = length (takeWhile (\<lambda>x. c d x \<noteq> 0) (items a))
          in if i < length (items a) then int i else - 1)"
proof (cases "ia_len a = 0")
  case True
  then show ?thesis
    by (simp add: eina_inarray_search_def inarray_search_def items_def)
next
  case False
  obtain p where p: "search_from a d c 0 = Some p"
      "unat p = length (takeWhile (\<lambda>x. c d x \<noteq> 0) (items a))"
    using search_from_ok [OF assms(1), of 0 d c] by auto
  then show ?thesis
    using False assms(2) sint_small_pos [of p]
    by (auto simp: eina_inarray_search_def inarray_search_def Let_def word_less_nat_alt)
qed



lemma bisect_ok:
  assumes "compare_cb c" and "inarray_wf a" and "sorted_wrt (\<lambda>x y. c x y \<le> 0) (items a)"
    and "start \<le> fin" and "fin < ia_len a"
    and "\<forall>j < unat start. 0 < c d (items a ! j)"
    and "\<forall>j. unat fin < j \<and> j < unat (ia_len a) \<longrightarrow> c d (items a ! j) < 0"
  shows "\<exists>m cmp. bisect a d c start fin = Some (m, cmp) \<and> near c d (items a) (unat m) cmp"
  using assms
proof (induction a d c start fin rule: bisect.induct)
  case (1 a d c start fin)
  let ?m = "start + (fin - start) div 2"
  let ?x = "items a ! unat ?m"
  note mid = unat_middle [OF 1(6)]
  have lt: "?m < ia_len a" "unat ?m < unat (ia_len a)"
    using mid(3) 1(7) by (auto simp: word_less_nat_alt word_le_nat_alt)
  have mem: "member_at a ?m = Some ?x"
    by (rule member_at_ok [OF 1(4) lt(1)])
  note IH = 1(1) [OF _ refl mem refl] and IH2 = 1(2) [OF _ refl mem refl]
  consider (eq) "c d ?x = 0" | (gt) "c d ?x > 0" | (less) "c d ?x < 0" by linarith
  then show ?case
  proof cases
    case eq
    then show ?thesis
      using 1(6) mem lt by (subst bisect.simps) (simp add: Let_def near_def)
  next
    case gt
    have below: "\<forall>j < Suc (unat ?m). 0 < c d (items a ! j)"
      using compare_cb.ascending_below [OF 1(3) 1(5), of _ "unat ?m" d] gt lt(2) by (simp add: less_Suc_eq_le)
    show ?thesis
    proof (cases "?m < fin")
      case True
      have "?m + 1 \<le> fin" "unat (?m + 1) = Suc (unat ?m)"
        using True unat_inc [OF True] by (simp_all add: word_le_nat_alt word_less_nat_alt)
      then have "\<exists>m cmp. bisect a d c (?m + 1) fin = Some (m, cmp) \<and> near c d (items a) (unat m) cmp"
        using gt gt [THEN less_imp_neq, symmetric] below True 1(3-9) by (intro IH) auto
      then show ?thesis
        using 1(6) mem gt True by (subst bisect.simps) (simp add: Let_def)
    next
      case False
      then have "?m = fin"
        using mid(3) by simp
      then have "near c d (items a) (unat ?m) (c d ?x)"
        using 1(9) gt lt(2) by (simp add: near_def)
      then show ?thesis
        using 1(6) mem gt False by (subst bisect.simps) (simp add: Let_def)
    qed
  next
    case less
    have above: "\<forall>j. unat ?m \<le> j \<and> j < unat (ia_len a) \<longrightarrow> c d (items a ! j) < 0"
      using compare_cb.ascending_above [OF 1(3) 1(5), of "unat ?m" _ d] less by simp
    show ?thesis
    proof (cases "?m > 0 \<and> start \<le> ?m - 1")
      case True
      then have "?m \<noteq> 0" by auto
      then have m1: "unat (?m - 1) = unat ?m - 1" "0 < unat ?m"
        by (rule unat_minus_one, simp add: unat_gt_0)
      have "\<exists>m cmp. bisect a d c start (?m - 1) = Some (m, cmp) \<and> near c d (items a) (unat m) cmp"
        using less above True m1 lt(2) 1(3-9) by (intro IH2) (auto simp: word_less_nat_alt)
      then show ?thesis
        using 1(6) mem less True by (subst bisect.simps) (simp add: Let_def)
    next
      case False
      have "unat ?m = unat start"
      proof (cases "?m > 0")
        case True
        with False have "\<not> unat start \<le> unat ?m - 1" "0 < unat ?m"
          by (simp_all add: word_le_nat_alt unat_minus_one word_less_nat_alt)
        then show ?thesis
          using mid(2) by (simp add: word_le_nat_alt)
      next
        case False
        then show ?thesis
          using mid(2) by (simp add: word_le_nat_alt word_less_nat_alt)
      qed
      then have "near c d (items a) (unat ?m) (c d ?x)"
        using 1(8) less lt(2) by (simp add: near_def)
      then show ?thesis
        using 1(6) mem less False by (subst bisect.simps) (auto simp: Let_def)
    qed
  qed
qed


lemma sorted_near_ok:
  assumes "compare_cb c" and "inarray_wf a" and "sorted_wrt (\<lambda>x y. c x y \<le> 0) (items a)"
    and "ia_len a \<noteq> 0"
  shows "\<exists>m cmp. inarray_search_sorted_near a d c = Some (m, cmp) \<and> near c d (items a) (unat m) cmp"
proof (cases "ia_len a = 1")
  case True
  then show ?thesis
    using member_at_ok [OF assms(2), of 0] by (simp add: inarray_search_sorted_near_def near_def)
next
  case False
  have "ia_len a - 1 < ia_len a"
    using assms(4) by (simp add: word_less_nat_alt unat_minus_one unat_gt_0)
  moreover have "\<forall>j. unat (ia_len a - 1) < j \<and> j < unat (ia_len a) \<longrightarrow> c d (items a ! j) < 0"
    using assms(4) by (auto simp: unat_minus_one)
  ultimately show ?thesis
    using False assms bisect_ok [OF assms(1-3), of 0 "ia_len a - 1" d]
    by (simp add: inarray_search_sorted_near_def)
qed

lemma near_found:
  assumes "compare_cb c" and "sorted_wrt (\<lambda>x y. c x y \<le> 0) xs" and "near c d xs m cmp"
    and "i < length xs" and "c d (xs ! i) = 0"
  shows "cmp = 0"
proof (rule ccontr)
  have m: "m < length xs" "cmp = c d (xs ! m)"
    using assms(3) by (auto simp: near_def)
  assume "cmp \<noteq> 0"
  then consider "cmp > 0" | "cmp < 0" by linarith
  then show False
  proof cases
    case 1
    then have "0 < c d (xs ! i) \<or> c d (xs ! i) < 0"
      using compare_cb.ascending_below [OF assms(1,2), of i m d] assms(3,4) m
      by (cases "i \<le> m") (auto simp: near_def)
    with assms(5) show False by simp
  next
    case 2
    then have "0 < c d (xs ! i) \<or> c d (xs ! i) < 0"
      using compare_cb.ascending_above [OF assms(1,2), of m i d] assms(3,4) m(2)
      by (cases "i < m") (auto simp: near_def)
    with assms(5) show False by simp
  qed
qed

lemma search_sorted_ok:
  assumes "compare_cb c" and "inarray_wf a" and "sorted_wrt (\<lambda>x y. c x y \<le> 0) (items a)"
    and "unat (ia_len a) < 2 ^ 31"
  shows "\<exists>r. eina_inarray_search_sorted a (Some d) (Some c) = Some r \<and>
    (if \<exists>x \<in> set (items a). c d x = 0
     then 0 \<le> r \<and> nat r < length (items a) \<and> c d (items a ! nat r) = 0 else r = - 1)"
proof (cases "ia_len a = 0")
  case True
  then show ?thesis
    by (simp add: eina_inarray_search_sorted_def inarray_search_sorted_near_def items_def)
next
  case False
  obtain m cmp where n: "inarray_search_sorted_near a d c = Some (m, cmp)" "near c d (items a) (unat m) cmp"
    using sorted_near_ok [OF assms(1-3) False, of d] by blast
  have m: "unat m < unat (ia_len a)" "cmp = c d (items a ! unat m)"
    using n(2) by (simp_all add: near_def)
  then have sm: "sint m = int (unat m)"
    using assms(4) by (intro sint_small_pos) simp
  show ?thesis
  proof (cases "\<exists>x \<in> set (items a). c d x = 0")
    case True
    then obtain j where "j < length (items a)" "c d (items a ! j) = 0"
      by (auto simp: in_set_conv_nth)
    then have "cmp = 0"
      by (rule near_found [OF assms(1,3) n(2)])
    then show ?thesis
      using True n(1) m sm by (simp add: eina_inarray_search_sorted_def)
  next
    case none: False
    then have "cmp \<noteq> 0"
      using m by (metis length_items nth_mem)
    then show ?thesis
      using none n(1) by (simp add: eina_inarray_search_sorted_def)
  qed
qed

lemma insert_sorted_ok:
  assumes "compare_cb c" and wf: "inarray_wf a" and srt: "sorted_wrt (\<lambda>x y. c x y \<le> 0) (items a)"
    and room: "room a 1" and d: "length d = unat (ia_member_size a)"
  shows "\<exists>r a'. eina_inarray_insert_sorted al a (Some d) (Some c) = Some (r, a') \<and> inarray_wf a' \<and>
    sorted_wrt (\<lambda>x y. c x y \<le> 0) (items a') \<and>
    mset (items a') = (if inarray_resize al a (ia_len a + 1) = None then mset (items a) else add_mset d (mset (items a)))"
proof -
  obtain m cmp where n: "inarray_search_sorted_near a d c = Some (m, cmp)"
      and sp: "splits_at c d (items a) (unat (if cmp > 0 then m + 1 else m))"
  proof (cases "ia_len a = 0")
    case True
    then show ?thesis
      using that [of 0 "- 1"] by (simp add: inarray_search_sorted_near_def splits_at_def)
  next
    case False
    obtain m cmp where n: "inarray_search_sorted_near a d c = Some (m, cmp)" "near c d (items a) (unat m) cmp"
      using sorted_near_ok [OF assms(1-3) False, of d] by blast
    have "unat (m + 1) = Suc (unat m)"
      using n(2) by (intro unat_inc [of _ "ia_len a"]) (simp add: near_def word_less_nat_alt)
    then show ?thesis
      using that [OF n(1)] compare_cb.near_splits [OF assms(1) srt n(2)] by (auto split: if_splits)
  qed
  let ?pos = "if cmp > 0 then m + 1 else m"
  have le: "?pos \<le> ia_len a"
    using sp by (simp add: splits_at_def word_le_nat_alt)
  obtain ok a' where ins: "eina_inarray_insert_at al a ?pos d = Some (ok, a')" "inarray_wf a'"
      "ok \<longleftrightarrow> inarray_resize al a (ia_len a + 1) \<noteq> None"
      "items a' = (if ok then take (unat ?pos) (items a) @ d # drop (unat ?pos) (items a) else items a)"
    using insert_at_ok [OF wf room, of d al ?pos] d le by auto
  have "mset (take n xs) + mset (drop n xs) = mset xs" for n and xs :: "u8 list list"
    by (metis append_take_drop_id mset_append)
  then show ?thesis
    using n ins compare_cb.splits_insert [OF assms(1) srt sp] srt
    by (auto simp: eina_inarray_insert_sorted_def Let_def)
qed


text \<open>The scans over raw pointers stop at the first member with a property, or at the end.\<close>

lemma itr_end_ok:
  assumes "inarray_wf a"
  shows "itr_end a = unat (ia_len a) * unat (ia_member_size a)"
  using get_offset [OF assms, of "ia_len a"] assms by (simp add: itr_end_def inarray_get_def inarray_wf_def)

lemma scan_step:
  assumes "inarray_wf a" and "k < unat (ia_len a)"
  shows "k * unat (ia_member_size a) < itr_end a"
    and "mem_read (ia_members a) (k * unat (ia_member_size a)) (unat (ia_member_size a)) = Some (items a ! k)"
proof -
  let ?i = "of_nat k :: u32"
  have i: "unat ?i = k"
    using assms(2) unsigned_less [of "ia_len a", where ?'a = nat] by (simp add: unat_of_nat)
  then have "?i < ia_len a" "?i \<le> ia_max a"
    using assms by (auto simp: word_less_nat_alt word_le_nat_alt inarray_wf_def)
  then show "mem_read (ia_members a) (k * unat (ia_member_size a)) (unat (ia_member_size a)) = Some (items a ! k)"
    using member_at_ok [OF assms(1), of ?i] get_offset [OF assms(1), of ?i] i by (simp add: member_at_def)
  show "k * unat (ia_member_size a) < itr_end a"
    using assms wf_bytes(2) [OF assms(1)] by (simp add: itr_end_ok)
qed

lemma scan_end:
  assumes "inarray_wf a" and "\<not> k < unat (ia_len a)"
  shows "\<not> k * unat (ia_member_size a) < itr_end a"
  using assms by (simp add: itr_end_ok)

definition first_from :: "inarray \<Rightarrow> (u8 list \<Rightarrow> bool) \<Rightarrow> nat \<Rightarrow> nat option" where
  "first_from a P k =
     (let n = k + length (takeWhile (\<lambda>x. \<not> P x) (drop k (items a))) in
      if n < length (items a) then Some (n * unat (ia_member_size a)) else None)"

lemma first_from_step:
  assumes "k < unat (ia_len a)"
  shows "first_from a P k = (if P (items a ! k) then Some (k * unat (ia_member_size a)) else first_from a P (Suc k))"
proof -
  have "drop k (items a) = items a ! k # drop (Suc k) (items a)"
    using assms by (simp add: Cons_nth_drop_Suc)
  then show ?thesis
    using assms by (simp add: first_from_def)
qed

lemma first_from_end: "\<not> k < unat (ia_len a) \<Longrightarrow> first_from a P k = None"
  by (simp add: first_from_def)

lemma insert_scan_ok:
  assumes "inarray_wf a"
  shows "insert_scan a d c (k * unat (ia_member_size a)) = Some (first_from a (\<lambda>x. \<not> c x d \<le> 0) k)"
proof (induction "unat (ia_len a) - k" arbitrary: k)
  case 0
  then show ?case
    using scan_end [OF assms, of k] by (subst insert_scan.simps) (simp add: first_from_end)
next
  case (Suc n)
  then have k: "k < unat (ia_len a)" "n = unat (ia_len a) - Suc k" by simp_all
  then show ?case
    using Suc(1) [OF k(2)] scan_step [OF assms k(1)]
    by (subst insert_scan.simps) (simp add: first_from_step add.commute)
qed

lemma remove_scan_ok:
  assumes "inarray_wf a" and "unat (ia_member_size a) \<le> length d"
  shows "remove_scan a d (k * unat (ia_member_size a)) =
    Some (first_from a (\<lambda>x. take (unat (ia_member_size a)) d = x) k)"
proof (induction "unat (ia_len a) - k" arbitrary: k)
  case 0
  then show ?case
    using scan_end [OF assms(1), of k] by (subst remove_scan.simps) (simp add: first_from_end)
next
  case (Suc n)
  then have k: "k < unat (ia_len a)" "n = unat (ia_len a) - Suc k" by simp_all
  have rd: "mem_read d 0 (unat (ia_member_size a)) = Some (take (unat (ia_member_size a)) d)"
    using assms(2) by (simp add: mem_read_def)
  show ?case
    using Suc(1) [OF k(2)] scan_step [OF assms(1) k(1)] k(1) rd
    by (subst remove_scan.simps) (simp add: first_from_step memcmp_eq add.commute)
qed

text \<open>The position that the scans compute from the offset found.\<close>

lemma first_from_start:
  assumes "inarray_wf a"
  obtains p where "unat p = length (takeWhile (\<lambda>x. \<not> P x) (items a))"
    and "first_from a P 0 = (if p < ia_len a then Some (unat p * unat (ia_member_size a)) else None)"
    and "p < ia_len a \<longrightarrow> of_nat (unat p * unat (ia_member_size a)) div ia_member_size a = p"
proof
  let ?n = "length (takeWhile (\<lambda>x. \<not> P x) (items a))" and ?p = "of_nat (length (takeWhile (\<lambda>x. \<not> P x) (items a))) :: u32"
  have "?n \<le> unat (ia_len a)"
    using length_takeWhile_le [of "\<lambda>x. \<not> P x" "items a"] by simp
  then show n: "unat ?p = ?n"
    using unsigned_less [of "ia_len a", where ?'a = nat] by (simp add: unat_of_nat)
  then show "first_from a P 0 = (if ?p < ia_len a then Some (unat ?p * unat (ia_member_size a)) else None)"
    by (simp add: first_from_def word_less_nat_alt)
  show "?p < ia_len a \<longrightarrow> of_nat (unat ?p * unat (ia_member_size a)) div ia_member_size a = ?p"
  proof
    assume "?p < ia_len a"
    then have lt: "unat ?p * unat (ia_member_size a) < 2 ^ 32"
      using scan_step(1) [OF assms, of "unat ?p"] unsigned_less [of "ia_len a * ia_member_size a", where ?'a = nat]
      by (simp add: itr_end_def word_less_nat_alt)
    have "unat (of_nat (unat ?p * unat (ia_member_size a)) div ia_member_size a) = unat ?p"
      using lt wf_bytes(2) [OF assms] by (simp only: unat_div unat_of_nat) simp
    then show "of_nat (unat ?p * unat (ia_member_size a)) div ia_member_size a = ?p"
      by (simp only: word_unat_eq_iff)
  qed
qed

lemma insert_linear_ok:
  assumes wf: "inarray_wf a" and room: "room a 1" and d: "length d = unat (ia_member_size a)"
    and ok: "inarray_resize al a (ia_len a + 1) \<noteq> None"
  shows "\<exists>r a'. eina_inarray_insert al a (Some d) (Some c) = Some (r, a') \<and> inarray_wf a' \<and>
    items a' = takeWhile (\<lambda>x. c x d \<le> 0) (items a) @ d # dropWhile (\<lambda>x. c x d \<le> 0) (items a)"
proof -
  obtain p where p: "unat p = length (takeWhile (\<lambda>x. c x d \<le> 0) (items a))"
      "insert_scan a d c 0 = Some (if p < ia_len a then Some (unat p * unat (ia_member_size a)) else None)"
      "p < ia_len a \<longrightarrow> of_nat (unat p * unat (ia_member_size a)) div ia_member_size a = p"
    using first_from_start [OF wf, of "\<lambda>x. \<not> c x d \<le> 0"] insert_scan_ok [OF wf, of d c 0] by auto
  have tk: "take (unat p) (items a) = takeWhile (\<lambda>x. c x d \<le> 0) (items a)"
    "drop (unat p) (items a) = dropWhile (\<lambda>x. c x d \<le> 0) (items a)"
    by (simp_all only: p(1) takeWhile_eq_take [symmetric] dropWhile_eq_drop [symmetric])
  have "p \<le> ia_len a"
    using p(1) length_takeWhile_le [of "\<lambda>x. c x d \<le> 0" "items a"] by (simp add: word_le_nat_alt)
  then consider "p < ia_len a" | "p = ia_len a" by fastforce
  then show ?thesis
  proof cases
    case 1
    then show ?thesis
      using insert_at_ok [OF wf room, of d al p] d ok p(2,3) tk
      by (auto simp: eina_inarray_insert_def Let_def)
  next
    case 2
    obtain r a' where ps: "eina_inarray_push al a (Some d) = Some (r, a')" "inarray_wf a'" "items a' = items a @ [d]"
      using push_ok [OF wf room, of d al] d ok by auto
    have tw: "takeWhile (\<lambda>x. c x d \<le> 0) (items a) = items a" "dropWhile (\<lambda>x. c x d \<le> 0) (items a) = []"
      using 2 tk by simp_all
    show ?thesis
      unfolding tw using ps 2 p(2) by (simp add: eina_inarray_insert_def)
  qed
qed

lemma remove_copy_ok:
  assumes wf: "inarray_wf a" and d: "unat (ia_member_size a) \<le> length d" and len: "unat (ia_len a) < 2 ^ 31"
  defines "x \<equiv> take (unat (ia_member_size a)) d"
  shows "\<exists>r a'. eina_inarray_remove al a (Copy d) = Some (r, a') \<and> inarray_wf a' \<and>
    items a' = remove1 x (items a) \<and> (if x \<in> set (items a) then 0 \<le> r \<and> items a ! nat r = x else r = - 1)"
proof -
  obtain p where p: "remove_scan a d 0 = Some (if p < ia_len a then Some (unat p * unat (ia_member_size a)) else None)"
      "unat p = length (takeWhile (\<lambda>y. x \<noteq> y) (items a))"
      "p < ia_len a \<longrightarrow> of_nat (unat p * unat (ia_member_size a)) div ia_member_size a = p"
    using first_from_start [OF wf, of "\<lambda>y. x = y"] remove_scan_ok [OF wf d, of 0] by (auto simp: x_def)
  show ?thesis
  proof (cases "x \<in> set (items a)")
    case False
    then have "takeWhile (\<lambda>y. x \<noteq> y) (items a) = items a"
      by (auto simp: takeWhile_eq_all_conv)
    with p(2) have "unat p = unat (ia_len a)"
      by (simp only: length_items)
    then have "\<not> p < ia_len a"
      by (simp add: word_less_nat_alt)
    then show ?thesis
      using p(1) wf False by (simp add: eina_inarray_remove_def remove1_idem)
  next
    case True
    then obtain as bs where ab: "items a = as @ x # bs" "x \<notin> set as"
      by (meson split_list_first)
    have "\<forall>z \<in> set as. x \<noteq> z"
      using ab(2) by blast
    then have tw: "takeWhile (\<lambda>y. x \<noteq> y) (items a) = as"
      by (simp add: ab(1) takeWhile_append2)
    then have up: "unat p = length as" "length as < unat (ia_len a)"
      using p(2) ab(1) length_items [of a] by (simp_all del: length_items)
    then have lt: "p < ia_len a"
      by (simp add: word_less_nat_alt)
    obtain a' where a': "eina_inarray_remove_at al a p = Some (True, a')" "inarray_wf a'"
        "items a' = take (unat p) (items a) @ drop (Suc (unat p)) (items a)"
      using remove_at_ok [OF wf lt, of al] by blast
    moreover have "items a' = remove1 x (items a)" "items a ! unat p = x"
      using a'(3) ab up(1) by (simp_all add: remove1_append)
    moreover have "sint p = int (unat p)"
      using up len by (intro sint_small_pos) simp
    ultimately show ?thesis
      using p(1,3) lt True by (simp add: eina_inarray_remove_def Let_def)
  qed
qed

section \<open>Reversal\<close>

lemma reverse_loop_ok:
  assumes "\<forall>x \<in> set (A @ M @ B). length x = sz" and "length M div 2 = n" and "sz \<noteq> 0"
  shows "reverse_loop sz (length A * sz) ((length A + n) * sz) ((length A + length M - 1) * sz) (concat (A @ M @ B) @ rest) =
    Some (concat (A @ rev M @ B) @ rest)"
  using assms
proof (induction n arbitrary: A M B)
  case 0
  then have "length M \<le> 1" by simp
  then have "rev M = M"
    by (cases M) auto
  then show ?case by (subst reverse_loop.simps) simp
next
  case (Suc n)
  then have "2 \<le> length M" by simp
  then obtain x M' y where M: "M = x # M' @ [y]"
    by (metis One_nat_def Suc_1 append_Nil append_butlast_last_id butlast.simps(2) last.simps length_0_conv
        length_Cons list.exhaust not_less_eq_eq numeral_2_eq_2 zero_le)
  have sz: "length x = sz" "length y = sz" "length (concat A) = length A * sz" "length (concat M') = length M' * sz"
    using Suc.prems(1) M by (simp_all add: length_concat_members)
  let ?m = "concat A @ x @ concat M' @ y @ concat B @ rest"
  let ?r = "(length A + length M - 1) * sz"
  have r: "?r = length (concat A @ x @ concat M')"
    using sz M by (simp add: algebra_simps)
  have "mem_read ?m (length A * sz) sz = Some x" "mem_write ?m (length A * sz) y = Some (concat A @ y @ concat M' @ y @ concat B @ rest)"
    using sz by (auto intro!: mem_read_mid mem_write_mid)
  moreover have "mem_read ?m ?r sz = Some y"
    using mem_read_mid [of "concat A @ x @ concat M'" ?r y sz "concat B @ rest"] sz r by simp
  moreover have "mem_write (concat A @ y @ concat M' @ y @ concat B @ rest) ?r x =
      Some (concat ((A @ [y]) @ M' @ (x # B)) @ rest)"
    using mem_write_mid [of "concat A @ y @ concat M'" ?r y x "concat B @ rest"] sz r by simp
  moreover have "reverse_loop sz (length (A @ [y]) * sz) ((length (A @ [y]) + n) * sz) ((length (A @ [y]) + length M' - 1) * sz)
      (concat ((A @ [y]) @ M' @ (x # B)) @ rest) = Some (concat ((A @ [y]) @ rev M' @ (x # B)) @ rest)"
    using Suc.prems M by (intro Suc.IH) auto
  moreover have "length (A @ [y]) * sz = length A * sz + sz" "(length (A @ [y]) + length M' - 1) * sz = ?r - sz"
      "(length (A @ [y]) + n) * sz = (length A + Suc n) * sz"
    using M by (simp_all add: algebra_simps)
  moreover have "length A * sz < (length A + Suc n) * sz"
    using Suc.prems(3) by (intro mult_less_mono1) simp_all
  ultimately show ?case
    using M Suc.prems(3) by (subst reverse_loop.simps) (simp add: add.commute)
qed

lemma reverse_ok:
  assumes wf: "inarray_wf a"
  shows "\<exists>a'. eina_inarray_reverse a = Some a' \<and> inarray_wf a' \<and> items a' = rev (items a)"
proof (cases "ia_len a < 2")
  case True
  then have "unat (ia_len a) \<le> 1"
    by (simp add: word_less_nat_alt)
  then have "rev (items a) = items a"
    by (cases "items a") (auto simp: items_def dest!: arg_cong [of _ _ length])
  then show ?thesis
    using True wf by (simp add: eina_inarray_reverse_def)
next
  case False
  let ?sz = "unat (ia_member_size a)"
  have len: "ia_len a \<noteq> 0"
    using False by auto
  obtain rest where m: "ia_members a = concat (items a) @ rest"
    using members_eq [OF wf] .
  have "reverse_loop ?sz 0 (unat (ia_len a) div 2 * ?sz) ((unat (ia_len a) - 1) * ?sz) (ia_members a) =
      Some (concat (rev (items a)) @ rest)"
    using reverse_loop_ok [of "[]" "items a" "[]" ?sz "unat (ia_len a) div 2" rest] items_sizes [OF wf] m
      wf_bytes(2) [OF wf] by simp
  moreover have "unat (ia_len a div 2) = unat (ia_len a) div 2" "unat (ia_len a - 1) = unat (ia_len a) - 1"
    using len by (simp_all add: unat_div unat_minus_one)
  ultimately have "eina_inarray_reverse a = Some (a\<lparr>ia_members := concat (rev (items a)) @ rest\<rparr>)"
    using False by (simp add: eina_inarray_reverse_def Let_def)
  moreover have "length (concat (rev (items a))) = length (concat (items a))"
    using items_sizes [OF wf] by (simp add: length_concat_members [where sz = ?sz])
  then have "inarray_wf (a\<lparr>ia_members := concat (rev (items a)) @ rest\<rparr>)"
    using wf m by (simp add: inarray_wf_def)
  moreover have "items (a\<lparr>ia_members := concat (rev (items a)) @ rest\<rparr>) = rev (items a)"
    using items_sizes [OF wf] by (intro items_eqI [of _ _ rest]) simp_all
  ultimately show ?thesis by simp
qed

section \<open>Removal by predicate\<close>

lemma foreach_remove_loop_ok:
  assumes "inarray_wf a" and "i \<le> ia_len a"
  shows "\<exists>a'. foreach_remove_loop al a f i n =
      Some (n + of_nat (length (filter f (drop (unat i) (items a)))), a') \<and> inarray_wf a' \<and>
    items a' = take (unat i) (items a) @ filter (\<lambda>x. \<not> f x) (drop (unat i) (items a))"
  using assms
proof (induction al a f i n rule: foreach_remove_loop.induct)
  case (1 al a f i n)
  show ?case
  proof (cases "i < ia_len a")
    case False
    then have "i = ia_len a"
      using 1(4) by simp
    then show ?thesis
      using 1(3) by (subst foreach_remove_loop.simps) simp
  next
    case True
    let ?x = "items a ! unat i"
    have m: "member_at a i = Some ?x"
      by (rule member_at_ok [OF 1(3) True])
    have lt: "unat i < length (items a)"
      using True by (simp add: word_less_nat_alt)
    have d: "drop (unat i) (items a) = ?x # drop (Suc (unat i)) (items a)"
      "take (Suc (unat i)) (items a) = take (unat i) (items a) @ [?x]"
      using lt by (simp_all add: Cons_nth_drop_Suc take_Suc_conv_app_nth)
    show ?thesis
    proof (cases "f ?x")
      case nf: False
      have "i + 1 \<le> ia_len a"
        using True by (simp add: word_le_nat_alt unat_inc word_less_nat_alt)
      with 1(1) [OF True m _ 1(3)] nf show ?thesis
        using True m by (subst foreach_remove_loop.simps) (auto simp: unat_inc [OF True] d)
    next
      case pf: True
      obtain b where b: "eina_inarray_remove_at al a i = Some (True, b)" "inarray_wf b"
          "items b = take (unat i) (items a) @ drop (Suc (unat i)) (items a)" "ia_len b = ia_len a - 1"
        using remove_at_ok [OF 1(3) True, of al] by blast
      have "unat (ia_len a - 1) = unat (ia_len a) - 1"
        using True by (intro unat_minus_one) auto
      then have "i \<le> ia_len b"
        using lt b(4) by (simp add: word_le_nat_alt)
      moreover have "drop (unat i) (items b) = drop (Suc (unat i)) (items a)"
        "take (unat i) (items b) = take (unat i) (items a)"
        using b(3) lt by simp_all
      ultimately show ?thesis
        using 1(2) [OF True m _ b(1) refl _ b(2)] pf True m b(1)
        by (subst foreach_remove_loop.simps) (auto simp: d)
    qed
  qed
qed


section \<open>Properties\<close>

text \<open>An array of three two-byte members with room for a fourth, used by the examples.\<close>

definition pairs :: inarray where
  "pairs = \<lparr>ia_member_size = 2, ia_len = 3, ia_max = 4, ia_step = 4, ia_members = [0, 1, 0, 3, 0, 5, 9, 9]\<rparr>"

definition plenty :: allocator where
  "plenty = \<lparr>can_alloc = (\<lambda>_. True), junk = (\<lambda>_. 7)\<rparr>"

lemma pairs_ok: "inarray_wf pairs" "items pairs = [[0, 1], [0, 3], [0, 5]]" "room pairs 1"
  by (simp_all add: inarray_wf_def items_def room_def pairs_def upt_rec)

lemma pairs_fields: "ia_member_size pairs = 2" "ia_len pairs = 3"
  by (simp_all add: pairs_def)

text \<open>
  C21. \<open>eina_inarray_insert_at\<close> never accesses memory outside its buffers and keeps the
  array well formed; when the position is at most the length and memory suffices it returns
  true with the member inserted at the position, otherwise false with the members unchanged.
\<close>

theorem inarray_insert_at_inserts:
  assumes "inarray_wf a" and "room a 1" and "unat (ia_member_size a) \<le> length data"
  shows "\<exists>ok a'. eina_inarray_insert_at al a i data = Some (ok, a') \<and> inarray_wf a' \<and>
    (ok \<longleftrightarrow> i \<le> ia_len a \<and> inarray_resize al a (ia_len a + 1) \<noteq> None) \<and>
    items a' = (if ok then take (unat i) (items a) @ take (unat (ia_member_size a)) data # drop (unat i) (items a)
                else items a)"
  using insert_at_ok [OF assms] by blast

theorem inarray_insert_at_inserts_witness:
  "\<exists>a'. eina_inarray_insert_at plenty pairs 1 [0, 2] = Some (True, a') \<and>
     items a' = [[0, 1], [0, 2], [0, 3], [0, 5]]"
proof -
  obtain ok a' where r: "eina_inarray_insert_at plenty pairs 1 [0, 2] = Some (ok, a')"
      "ok \<longleftrightarrow> inarray_resize plenty pairs (ia_len pairs + 1) \<noteq> None"
      "items a' = (if ok then [[0, 1], [0, 2], [0, 3], [0, 5]] else items pairs)"
    using inarray_insert_at_inserts [OF pairs_ok(1,3), of "[0, 2]" plenty 1]
    by (auto simp: pairs_ok pairs_fields)
  moreover have "inarray_resize plenty pairs (ia_len pairs + 1) \<noteq> None"
    by code_simp
  ultimately show ?thesis by simp
qed

text \<open>
  \<open>eina_inarray_remove_at\<close> at a valid position always succeeds, stays inside the buffer
  and removes that member only; an invalid position changes nothing.
\<close>

theorem inarray_remove_at_removes:
  assumes "inarray_wf a"
  shows "\<exists>a'. eina_inarray_remove_at al a i = Some (i < ia_len a, a') \<and> inarray_wf a' \<and>
    items a' = take (unat i) (items a) @ drop (Suc (unat i)) (items a)"
proof (cases "i < ia_len a")
  case True
  then show ?thesis
    using remove_at_ok [OF assms True, of al] by auto
next
  case False
  then have "unat (ia_len a) \<le> unat i"
    by (simp add: word_less_nat_alt)
  then show ?thesis
    using False assms by (simp add: eina_inarray_remove_at_def not_less)
qed

theorem inarray_remove_at_removes_witness:
  "\<exists>a'. eina_inarray_remove_at plenty pairs 1 = Some (True, a') \<and> items a' = [[0, 1], [0, 5]]"
  using inarray_remove_at_removes [OF pairs_ok(1), of plenty 1] by (auto simp: pairs_ok pairs_fields)

text \<open>
  \<open>eina_inarray_insert_sorted\<close> keeps an ordered array ordered: for a comparison that is a
  total preorder, the binary search ends, and the new member is added to the others at a place
  that keeps the order. Without memory the members stay as they are.
\<close>

theorem inarray_insert_sorted_keeps_order:
  assumes "compare_cb c" and "inarray_wf a" and "sorted_wrt (\<lambda>x y. c x y \<le> 0) (items a)"
    and "room a 1" and "length d = unat (ia_member_size a)"
  shows "\<exists>r a'. eina_inarray_insert_sorted al a (Some d) (Some c) = Some (r, a') \<and> inarray_wf a' \<and>
    sorted_wrt (\<lambda>x y. c x y \<le> 0) (items a') \<and>
    mset (items a') = (if inarray_resize al a (ia_len a + 1) = None then mset (items a) else add_mset d (mset (items a)))"
  using assms by (rule insert_sorted_ok)

theorem inarray_insert_sorted_keeps_order_witness:
  "\<exists>r a'. eina_inarray_insert_sorted plenty pairs (Some [0, 4]) (Some memcmp) = Some (r, a') \<and>
     sorted_wrt (\<lambda>x y. memcmp x y \<le> 0) (items a')"
  using inarray_insert_sorted_keeps_order [OF mem.compare_cb_axioms pairs_ok(1) _ pairs_ok(3), of "[0, 4]" plenty]
  by (auto simp: pairs_ok pairs_fields)

text \<open>
  \<open>eina_inarray_search_sorted\<close> on an ordered array finds a member equal to the one asked
  for if and only if there is one, and returns its position.
\<close>

theorem inarray_search_sorted_finds:
  assumes "compare_cb c" and "inarray_wf a" and "sorted_wrt (\<lambda>x y. c x y \<le> 0) (items a)"
    and "unat (ia_len a) < 2 ^ 31"
  shows "\<exists>r. eina_inarray_search_sorted a (Some d) (Some c) = Some r \<and>
    (if \<exists>x \<in> set (items a). c d x = 0
     then 0 \<le> r \<and> nat r < length (items a) \<and> c d (items a ! nat r) = 0 else r = - 1)"
  using assms by (rule search_sorted_ok)

theorem inarray_search_sorted_finds_witness:
  "\<exists>r. eina_inarray_search_sorted pairs (Some [0, 3]) (Some memcmp) = Some r \<and> 0 \<le> r \<and>
     items pairs ! nat r = [0, 3]"
  using inarray_search_sorted_finds [OF mem.compare_cb_axioms pairs_ok(1), of "[0, 3]"]
  by (auto simp: pairs_ok(2) pairs_fields memcmp_eq)

text \<open>
  \<open>eina_inarray_reverse\<close> reverses the members in place.
\<close>

theorem inarray_reverse_reverses:
  assumes "inarray_wf a"
  shows "\<exists>a'. eina_inarray_reverse a = Some a' \<and> inarray_wf a' \<and> items a' = rev (items a)"
  using assms by (rule reverse_ok)

theorem inarray_reverse_reverses_witness:
  "\<exists>a'. eina_inarray_reverse pairs = Some a' \<and> items a' = [[0, 5], [0, 3], [0, 1]]"
  using inarray_reverse_reverses [OF pairs_ok(1)] by (auto simp: pairs_ok)

text \<open>
  C22. \<open>eina_inarray_foreach_remove\<close> ends, removes exactly the members the callback matches,
  keeps the order of the others and returns how many it removed.
\<close>

theorem inarray_foreach_remove_filters:
  assumes "inarray_wf a" and "unat (ia_len a) < 2 ^ 31"
  shows "\<exists>a'. eina_inarray_foreach_remove al a (Some f) = Some (int (length (filter f (items a))), a') \<and>
    inarray_wf a' \<and> items a' = filter (\<lambda>x. \<not> f x) (items a)"
proof -
  let ?n = "length (filter f (items a))"
  have "?n < 2 ^ 31"
    using assms(2) length_filter_le [of f "items a"] by simp
  then have "sint (of_nat ?n :: u32) = int ?n"
    by (subst sint_small_pos) (simp_all add: unat_of_nat)
  then show ?thesis
    using foreach_remove_loop_ok [OF assms(1), of 0 al f 0] by (auto simp: eina_inarray_foreach_remove_def)
qed

theorem inarray_foreach_remove_filters_witness:
  "\<exists>a'. eina_inarray_foreach_remove plenty pairs (Some (\<lambda>x. x ! 1 < 4)) = Some (2, a') \<and> items a' = [[0, 5]]"
  using inarray_foreach_remove_filters [OF pairs_ok(1), of plenty "\<lambda>x. x ! 1 < 4"]
  by (auto simp: pairs_ok pairs_fields)

text \<open>
  Round trip: \<open>eina_inarray_pop\<close> after a successful \<open>eina_inarray_push\<close> returns the pushed
  member and restores the array's members.
\<close>

theorem inarray_push_pop:
  assumes "inarray_wf a" and "room a 1" and "length d = unat (ia_member_size a)"
    and "eina_inarray_push al a (Some d) = Some (r, a1)" and "inarray_resize al a (ia_len a + 1) \<noteq> None"
  shows "\<exists>off a2. eina_inarray_pop al a1 = (Some off, a2) \<and> inarray_wf a2 \<and> items a2 = items a \<and>
    mem_read (ia_members a2) off (unat (ia_member_size a)) = Some d"
proof -
  have a1: "inarray_wf a1" "ia_member_size a1 = ia_member_size a" "items a1 = items a @ [d]"
    using push_ok [OF assms(1,2), of d al] assms(3-5) by auto
  then have "ia_len a1 \<noteq> 0"
    using length_items [of a1] by (auto simp del: length_items)
  then show ?thesis
    using pop_ok [OF a1(1), of al] a1 by auto
qed

theorem inarray_push_pop_witness:
  "\<exists>a1 off a2. eina_inarray_push plenty pairs (Some [0, 8]) = Some (3, a1) \<and>
     eina_inarray_pop plenty a1 = (Some off, a2) \<and> items a2 = items pairs"
proof -
  have "inarray_resize plenty pairs (ia_len pairs + 1) \<noteq> None"
    by code_simp
  moreover from this obtain a1 where "eina_inarray_push plenty pairs (Some [0, 8]) = Some (3, a1)"
    using push_ok [OF pairs_ok(1,3), of "[0, 8]" plenty] by (auto simp: pairs_fields)
  ultimately show ?thesis
    using inarray_push_pop [OF pairs_ok(1,3), of "[0, 8]" plenty 3 a1] by (auto simp: pairs_fields)
qed

text \<open>
  C23. The byte count is computed in 32 bits: an array of 65535 members of 65537 bytes is well
  formed, but the next \<open>eina_inarray_push\<close> asks for 65536 bytes in all and then writes the new
  member outside of them.
\<close>

theorem inarray_push_overflows:
  assumes "inarray_wf a" and "ia_member_size a = 0x10001" and "ia_len a = 0xFFFF" and "ia_max a = 0xFFFF"
    and "ia_step a = 1" and "can_alloc al 0x10000" and "length d = 0x10001"
  shows "eina_inarray_push al a (Some d) = None"
proof -
  have c: "new_capacity a (ia_len a + 1) = 0x10000"
    using assms by (simp add: new_capacity_def)
  have len: "length (ia_members a) = 0xFFFF * 0x10001"
    using assms by (simp add: inarray_wf_def)
  have "inarray_resize al a (ia_len a + 1) =
      Some (a\<lparr>ia_members := take 0x10000 (ia_members a) @ map (junk al) [length (ia_members a)..<0x10000], ia_max := 0x10000\<rparr>)"
    using assms c by (simp add: inarray_resize_def realloc_def Let_def)
  moreover have "length (take 0x10000 (ia_members a) @ map (junk al) [length (ia_members a)..<0x10000]) = 0x10000"
    using len by simp
  ultimately show ?thesis
    using assms by (simp add: eina_inarray_push_def mem_read_def mem_write_def inarray_get_def)
qed

theorem inarray_push_overflows_witness:
  "eina_inarray_push plenty
     \<lparr>ia_member_size = 0x10001, ia_len = 0xFFFF, ia_max = 0xFFFF, ia_step = 1, ia_members = replicate (0xFFFF * 0x10001) 0\<rparr>
     (Some (replicate 0x10001 0)) = None"
  by (intro inarray_push_overflows) (simp_all add: inarray_wf_def plenty_def)

end
