(* ===== verification/Linked.thy ===== *)
theory Linked
  imports Compare
begin

text \<open>
  Doubly linked lists in an explicit heap, as \<open>eina_inlist.c\<close> and \<open>eina_list.c\<close> both build
  them. A heap maps addresses to nodes; a pointer is \<open>None\<close> (null) or an address; reading or
  writing through a null or dangling pointer gives \<open>None\<close>. The locale \<open>linked\<close> has the
  segments of a list, for any node layout with a next and a previous pointer.
\<close>

section \<open>Heaps\<close>

type_synonym addr = nat
type_synonym ptr = "addr option"
type_synonym 'n heap = "addr \<rightharpoonup> 'n"

definition deref :: "'n heap \<Rightarrow> ptr \<Rightarrow> 'n option" where
  "deref h p = Option.bind p h"

definition store :: "'n heap \<Rightarrow> ptr \<Rightarrow> ('n \<Rightarrow> 'n) \<Rightarrow> 'n heap option" where
  "store h p f = do { a \<leftarrow> p; n \<leftarrow> h a; Some (h(a \<mapsto> f n)) }"

lemma deref_simps [simp]: "deref h None = None" "deref h (Some a) = h a"
  by (simp_all add: deref_def)

lemma store_Some [simp]: "h a = Some n \<Longrightarrow> store h (Some a) f = Some (h(a \<mapsto> f n))"
  by (simp add: store_def)

fun ptr_hd :: "addr list \<Rightarrow> ptr \<Rightarrow> ptr" where
  "ptr_hd [] q = q"
| "ptr_hd (x # xs) q = Some x"

definition ptr_last :: "ptr \<Rightarrow> addr list \<Rightarrow> ptr" where
  "ptr_last p xs = (if xs = [] then p else Some (last xs))"

lemma ptr_last_simps [simp]:
  "ptr_last p [] = p" "ptr_last p (xs @ [x]) = Some x" "ptr_last p (x # xs) = ptr_last (Some x) xs"
  by (auto simp: ptr_last_def)

lemma ptr_last_append [simp]: "ptr_last p (xs @ ys) = ptr_last (ptr_last p xs) ys"
  by (simp add: ptr_last_def)

lemma ptr_hd_append [simp]: "ptr_hd (xs @ ys) q = ptr_hd xs (ptr_hd ys q)"
  by (cases xs) simp_all

lemma ptr_hd_eq_None [simp]: "ptr_hd xs None = None \<longleftrightarrow> xs = []"
  by (cases xs) simp_all

lemma ends_cases:
  obtains "xs = []" | x where "xs = [x]" | x ys y where "xs = x # ys @ [y]"
  by (metis append_butlast_last_id list.exhaust)

text \<open>The edits of a list, on a plain sequence: next to the first element that is \<open>r\<close>.\<close>

fun insert_after :: "'a \<Rightarrow> 'a \<Rightarrow> 'a list \<Rightarrow> 'a list" where
  "insert_after r x [] = []"
| "insert_after r x (y # ys) = (if y = r then y # x # ys else y # insert_after r x ys)"

fun insert_before :: "'a \<Rightarrow> 'a \<Rightarrow> 'a list \<Rightarrow> 'a list" where
  "insert_before r x [] = []"
| "insert_before r x (y # ys) = (if y = r then x # y # ys else y # insert_before r x ys)"

lemma seq_edits_at [simp]:
  "r \<notin> set as \<Longrightarrow> insert_after r x (as @ r # bs) = as @ r # x # bs"
  "r \<notin> set as \<Longrightarrow> insert_before r x (as @ r # bs) = as @ x # r # bs"
  "r \<notin> set as \<Longrightarrow> remove1 r (as @ r # bs) = as @ bs"
  by (induction as) auto

lemma set_inserts: "set (insert_after r x xs) \<subseteq> insert x (set xs)" "set (insert_before r x xs) \<subseteq> insert x (set xs)"
  by (induction xs) auto

section \<open>Segments\<close>

locale linked =
  fixes nx pv :: "'n \<Rightarrow> ptr"
begin

primrec dseg :: "'n heap \<Rightarrow> ptr \<Rightarrow> addr list \<Rightarrow> ptr \<Rightarrow> bool" where
  "dseg h p [] q \<longleftrightarrow> True"
| "dseg h p (x # xs) q \<longleftrightarrow> (\<exists>n. h x = Some n \<and> pv n = p \<and> nx n = ptr_hd xs q) \<and> dseg h (Some x) xs q"

lemma dseg_append [simp]:
  "dseg h p (xs @ ys) q \<longleftrightarrow> dseg h p xs (ptr_hd ys q) \<and> dseg h (ptr_last p xs) ys q"
  by (induction xs arbitrary: p) auto

lemma dseg_cong:
  "(\<And>x. x \<in> set xs \<Longrightarrow> h x = h' x) \<Longrightarrow> dseg h p xs q = dseg h' p xs q"
  by (induction xs arbitrary: p) auto

lemma dseg_upd [simp]: "x \<notin> set xs \<Longrightarrow> dseg (h(x := v)) p xs q = dseg h p xs q"
  by (rule dseg_cong) auto

lemma dseg_upd_same:
  assumes "h x = Some n" and "nx m = nx n" and "pv m = pv n"
  shows "dseg (h(x \<mapsto> m)) p xs q = dseg h p xs q"
  using assms by (induction xs arbitrary: p) auto

lemma dseg_dom: "dseg h p xs q \<Longrightarrow> x \<in> set xs \<Longrightarrow> \<exists>n. h x = Some n"
  by (induction xs arbitrary: p) auto

text \<open>The chain of next pointers alone.\<close>

primrec chain :: "'n heap \<Rightarrow> addr list \<Rightarrow> ptr \<Rightarrow> bool" where
  "chain h [] p \<longleftrightarrow> p = None"
| "chain h (x # xs) p \<longleftrightarrow> p = Some x \<and> (\<exists>n. h x = Some n \<and> chain h xs (nx n))"

lemma chain_cong: "(\<And>x. x \<in> set xs \<Longrightarrow> h x = h' x) \<Longrightarrow> chain h xs p = chain h' xs p"
  by (induction xs arbitrary: p) auto

lemma chain_upd [simp]: "x \<notin> set xs \<Longrightarrow> chain (h(x := v)) xs p = chain h xs p"
  by (rule chain_cong) auto

lemma chain_dom: "chain h xs p \<Longrightarrow> x \<in> set xs \<Longrightarrow> \<exists>n. h x = Some n"
  by (induction xs arbitrary: p) auto

lemma chain_head: "chain h xs p \<Longrightarrow> p = ptr_hd xs None"
  by (cases xs) auto

lemma dseg_chain: "dseg h p xs None \<Longrightarrow> chain h xs (ptr_hd xs None)"
  by (induction xs arbitrary: p) (auto dest: chain_head)

text \<open>A node of a segment and its neighbours.\<close>

lemma dseg_node:
  assumes "dseg h p xs q" and "i < length xs"
  obtains n where "h (xs ! i) = Some n" "nx n = (if Suc i < length xs then Some (xs ! Suc i) else q)"
    "pv n = (if i = 0 then p else Some (xs ! (i - 1)))"
proof -
  have "xs = take i xs @ xs ! i # drop (Suc i) xs"
    using assms(2) by (simp add: id_take_nth_drop)
  then have "dseg h p (take i xs @ xs ! i # drop (Suc i) xs) q"
    using assms(1) by simp
  then obtain n where n: "h (xs ! i) = Some n" "pv n = ptr_last p (take i xs)" "nx n = ptr_hd (drop (Suc i) xs) q"
    by auto
  moreover have "ptr_hd (drop (Suc i) xs) q = (if Suc i < length xs then Some (xs ! Suc i) else q)"
    by (auto simp: Cons_nth_drop_Suc [symmetric])
  moreover have "ptr_last p (take i xs) = (if i = 0 then p else Some (xs ! (i - 1)))"
    using assms(2) by (auto simp: ptr_last_def last_conv_nth)
  ultimately show ?thesis
    using that by simp
qed

end

section \<open>Surgery\<close>

text \<open>
  Layouts with setters. \<open>setn\<close> and \<open>setp\<close> write a link through a pointer that may be null;
  a node is taken out of a list, or put into one, by two such writes.
\<close>

locale links = linked nx pv for nx pv :: "'n \<Rightarrow> ptr" +
  fixes set_nx set_pv :: "ptr \<Rightarrow> 'n \<Rightarrow> 'n"
  assumes get_set [simp]:
      "nx (set_nx p n) = p" "nx (set_pv p n) = nx n" "pv (set_nx p n) = pv n" "pv (set_pv p n) = p"
    and set_same [simp]: "set_nx (nx n) n = n" "set_pv (pv n) n = n"
    and set_set [simp]: "set_nx p (set_nx q n) = set_nx p n" "set_pv p (set_pv q n) = set_pv p n"
      "set_nx p (set_pv q n) = set_pv q (set_nx p n)"
begin

definition setn :: "'n heap \<Rightarrow> ptr \<Rightarrow> ptr \<Rightarrow> 'n heap" where
  "setn h p q = (case p of None \<Rightarrow> h | Some x \<Rightarrow> h(x := map_option (set_nx q) (h x)))"

definition setp :: "'n heap \<Rightarrow> ptr \<Rightarrow> ptr \<Rightarrow> 'n heap" where
  "setp h p q = (case p of None \<Rightarrow> h | Some x \<Rightarrow> h(x := map_option (set_pv q) (h x)))"

lemma set_null [simp]: "setn h None q = h" "setp h None q = h"
  by (simp_all add: setn_def setp_def)

lemma set_Some: "h x = Some n \<Longrightarrow> setn h (Some x) q = h(x \<mapsto> set_nx q n)" "h x = Some n \<Longrightarrow> setp h (Some x) q = h(x \<mapsto> set_pv q n)"
  by (simp_all add: setn_def setp_def)

lemma set_other [simp]: "p \<noteq> Some x \<Longrightarrow> setn h p q x = h x" "p \<noteq> Some x \<Longrightarrow> setp h p q x = h x"
  by (auto simp: setn_def setp_def split: option.split)

lemma set_None_iff [simp]: "setn h p q x = None \<longleftrightarrow> h x = None" "setp h p q x = None \<longleftrightarrow> h x = None"
  by (auto simp: setn_def setp_def split: option.split)

lemma dseg_set_frame:
  assumes "\<forall>x. l = Some x \<longrightarrow> x \<notin> set xs"
  shows "dseg (setn h l q) p xs r = dseg h p xs r" and "dseg (setp h l q) p xs r = dseg h p xs r"
  using assms by (auto simp: setn_def setp_def intro!: dseg_cong split: option.split)

lemma dseg_setn_last:
  assumes "dseg h p xs q" and "distinct xs"
  shows "dseg (setn h (ptr_last None xs) q') p xs q'"
proof (cases xs rule: rev_cases)
  case (snoc ys y)
  then show ?thesis
    using assms by (auto simp: setn_def)
qed simp

lemma dseg_setp_hd:
  assumes "dseg h p xs q" and "distinct xs"
  shows "dseg (setp h (ptr_hd xs None) p') p' xs q"
  using assms by (cases xs) (auto simp: setp_def)

text \<open>A node \<open>r\<close> between \<open>us\<close> and \<open>ws\<close> is unlinked.\<close>

definition unlink :: "'n heap \<Rightarrow> ptr \<Rightarrow> ptr \<Rightarrow> 'n heap" where
  "unlink h l r = setn (setp h r l) l r"

lemma ptr_ends: "ptr_last None us = Some x \<Longrightarrow> x \<in> set us" "ptr_hd ws None = Some x \<Longrightarrow> x \<in> set ws"
  by (auto simp: ptr_last_def split: if_splits) (cases ws; simp)

lemma dseg_unlink:
  assumes "dseg h None (us @ r # ws) None" and "distinct (us @ r # ws)"
  shows "dseg (unlink h (ptr_last None us) (ptr_hd ws None)) None (us @ ws) None"
proof -
  let ?l = "ptr_last None us" and ?r = "ptr_hd ws None"
  have "dseg h None us (Some r)" "dseg h (Some r) ws None"
    using assms(1) by simp_all
  moreover have "distinct us" "distinct ws" "\<forall>x. ?l = Some x \<longrightarrow> x \<notin> set ws" "\<forall>x. ?r = Some x \<longrightarrow> x \<notin> set us"
    using assms(2) by (auto dest: ptr_ends)
  ultimately show ?thesis
    unfolding unlink_def
    by (simp add: dseg_set_frame) (metis dseg_set_frame(2) dseg_setn_last dseg_setp_hd)
qed

text \<open>A node \<open>x\<close> is linked in between \<open>us\<close> and \<open>ws\<close>.\<close>

definition link_in :: "'n heap \<Rightarrow> ptr \<Rightarrow> addr \<Rightarrow> ptr \<Rightarrow> 'n heap" where
  "link_in h l x r = setn (setp (h(x := map_option (\<lambda>n. set_pv l (set_nx r n)) (h x))) r (Some x)) l (Some x)"

lemma dseg_link_in:
  assumes "dseg h None (us @ ws) None" and "distinct (us @ ws)" and "x \<notin> set (us @ ws)" and "h x = Some n"
  shows "dseg (link_in h (ptr_last None us) x (ptr_hd ws None)) None (us @ x # ws) None"
proof -
  let ?l = "ptr_last None us" and ?r = "ptr_hd ws None"
  let ?h = "h(x \<mapsto> set_pv ?l (set_nx ?r n))"
  have d: "dseg ?h None us ?r" "dseg ?h ?l ws None" "distinct us" "distinct ws"
      "\<forall>y. ?l = Some y \<longrightarrow> y \<notin> set ws" "\<forall>y. ?r = Some y \<longrightarrow> y \<notin> set us" "?l \<noteq> Some x" "?r \<noteq> Some x"
    using assms by (auto dest: ptr_ends)
  have "dseg (setn (setp ?h ?r (Some x)) ?l (Some x)) None us (Some x)"
    using d by (metis dseg_set_frame(2) dseg_setn_last)
  moreover have "dseg (setn (setp ?h ?r (Some x)) ?l (Some x)) (Some x) ws None"
    using d by (metis dseg_set_frame(1) dseg_setp_hd)
  ultimately show ?thesis
    using d(7,8) assms(4) by (simp add: link_in_def)
qed

text \<open>Two lists are joined, or one is cut.\<close>

lemma dseg_join:
  assumes "dseg h None xs q" and "dseg h p ys None" and "distinct (xs @ ys)" and "xs \<noteq> []" and "ys \<noteq> []"
  shows "dseg (setp (setn h (ptr_last None xs) (ptr_hd ys None)) (ptr_hd ys None) (ptr_last None xs)) None (xs @ ys) None"
proof -
  let ?l = "ptr_last None xs" and ?r = "ptr_hd ys None"
  have d: "distinct xs" "distinct ys" "\<forall>x. ?l = Some x \<longrightarrow> x \<notin> set ys" "\<forall>x. ?r = Some x \<longrightarrow> x \<notin> set xs"
    using assms(3) by (auto dest: ptr_ends)
  have "dseg (setn h ?l ?r) p ys None"
    using assms(2) d(3) by (simp add: dseg_set_frame)
  then have "dseg (setp (setn h ?l ?r) ?r ?l) ?l ys None"
    using d(2) by (rule dseg_setp_hd)
  moreover have "dseg (setp (setn h ?l ?r) ?r ?l) None xs ?r"
    using dseg_setn_last [OF assms(1) d(1), of ?r] d(4) by (simp add: dseg_set_frame)
  ultimately show ?thesis
    by simp
qed

lemma dseg_cut:
  assumes "dseg h None (xs @ ys) None" and "distinct (xs @ ys)"
  shows "dseg (setn (setp h (ptr_hd ys None) None) (ptr_last None xs) None) None xs None"
    and "dseg (setn (setp h (ptr_hd ys None) None) (ptr_last None xs) None) None ys None"
proof -
  let ?l = "ptr_last None xs" and ?r = "ptr_hd ys None"
  have d: "distinct xs" "distinct ys" "\<forall>x. ?l = Some x \<longrightarrow> x \<notin> set ys" "\<forall>x. ?r = Some x \<longrightarrow> x \<notin> set xs"
    using assms(2) by (auto dest: ptr_ends)
  have h: "dseg h None xs ?r" "dseg h ?l ys None"
    using assms(1) by simp_all
  show "dseg (setn (setp h ?r None) ?l None) None ys None"
    using dseg_setp_hd [OF h(2) d(2), of None] d(3) by (simp add: dseg_set_frame)
  have "dseg (setp h ?r None) None xs ?r"
    using h(1) d(4) by (simp add: dseg_set_frame)
  then show "dseg (setn (setp h ?r None) ?l None) None xs None"
    using d(1) by (rule dseg_setn_last)
qed

text \<open>What taking out and putting in leave alone, and link writes in another order.\<close>

lemma unlink_other:
  "y \<notin> set us \<Longrightarrow> y \<notin> set ws \<Longrightarrow> unlink h (ptr_last None us) (ptr_hd ws None) y = h y"
  unfolding unlink_def by (metis ptr_ends set_other)

lemma link_in_other:
  "y \<notin> set us \<Longrightarrow> y \<notin> set ws \<Longrightarrow> y \<noteq> x \<Longrightarrow> link_in h (ptr_last None us) x (ptr_hd ws None) y = h y"
  unfolding link_in_def by (metis fun_upd_other ptr_ends set_other)

lemma surgery_None_iff [simp]:
  "unlink h l r y = None \<longleftrightarrow> h y = None" "link_in h l x r y = None \<longleftrightarrow> h y = None"
  by (auto simp: unlink_def link_in_def)

lemma link_in_node:
  "h x = Some n \<Longrightarrow> l \<noteq> Some x \<Longrightarrow> r \<noteq> Some x \<Longrightarrow> link_in h l x r x = Some (set_pv l (set_nx r n))"
  by (simp add: link_in_def)

lemma set_comm: "setp (setn h p q) p' q' = setn (setp h p' q') p q"
  by (auto simp: setn_def setp_def fun_eq_iff option.map_comp comp_def intro!: option.map_cong split: option.split)

lemma link_in_sets:
  assumes "l \<noteq> Some x" and "r \<noteq> Some x"
  shows "setn (setn (setp (setp h (Some x) l) r (Some x)) (Some x) r) l (Some x) = link_in h l x r"
    and "setn (setn (setp (setp h r (Some x)) (Some x) l) (Some x) r) l (Some x) = link_in h l x r"
    and "setn (setn (setp (setp h r (Some x)) (Some x) l) l (Some x)) (Some x) r = link_in h l x r"
  using assms
  by (auto simp: link_in_def setn_def setp_def fun_eq_iff option.map_comp comp_def intro!: option.map_cong split: option.split)

end

end
