(* ===== verification/Eina_Inlist.thy ===== *)
theory Eina_Inlist
  imports Linked
begin

text \<open>
  The inline list of \<open>src/lib/shared/data/eina_inlist.c\<close>: nodes that live inside the items
  and are linked in both directions; the head caches the last node. Every function takes the
  heap of nodes and returns it changed. \<open>None\<close> is an access through a null or dangling
  pointer, an access outside a local array, or a loop that does not end. Comparison
  callbacks are functions of the two items, named by the addresses of their nodes.
\<close>

unbundle bit_operations_syntax

section \<open>Nodes\<close>

record inode =
  il_next :: ptr
  il_prev :: ptr
  il_last :: ptr

abbreviation set_next :: "ptr \<Rightarrow> inode \<Rightarrow> inode" where
  "set_next p \<equiv> il_next_update (\<lambda>_. p)"

abbreviation set_prev :: "ptr \<Rightarrow> inode \<Rightarrow> inode" where
  "set_prev p \<equiv> il_prev_update (\<lambda>_. p)"

abbreviation set_last :: "ptr \<Rightarrow> inode \<Rightarrow> inode" where
  "set_last p \<equiv> il_last_update (\<lambda>_. p)"

type_synonym iheap = "inode heap"

section \<open>Editing\<close>

text \<open>\<open>for (l = list; l->next; l = l->next);\<close>\<close>

partial_function (option) inlist_walk_to_last :: "iheap \<Rightarrow> ptr \<Rightarrow> ptr option" where
  [code]: "inlist_walk_to_last h l =
     do { n \<leftarrow> deref h l; (if il_next n = None then Some l else inlist_walk_to_last h (il_next n)) }"

definition eina_inlist_append :: "iheap \<Rightarrow> ptr \<Rightarrow> ptr \<Rightarrow> (ptr \<times> iheap) option" where
  "eina_inlist_append h lst new_l =
     (if new_l = None then Some (lst, h)
      else do {
        h \<leftarrow> store h new_l (set_next None);
        (if lst = None then do {
           h \<leftarrow> store h new_l (set_prev None);
           h \<leftarrow> store h new_l (set_last new_l);
           Some (new_l, h) }
         else do {
           n \<leftarrow> deref h lst;
           l \<leftarrow> (if il_last n \<noteq> None then Some (il_last n) else inlist_walk_to_last h lst);
           h \<leftarrow> store h l (set_next new_l);
           h \<leftarrow> store h new_l (set_prev l);
           h \<leftarrow> store h lst (set_last new_l);
           Some (lst, h) }) })"

definition eina_inlist_prepend :: "iheap \<Rightarrow> ptr \<Rightarrow> ptr \<Rightarrow> (ptr \<times> iheap) option" where
  "eina_inlist_prepend h lst new_l =
     (if new_l = None then Some (lst, h)
      else do {
        h \<leftarrow> store h new_l (set_prev None);
        (if lst = None then do {
           h \<leftarrow> store h new_l (set_next None);
           h \<leftarrow> store h new_l (set_last new_l);
           Some (new_l, h) }
         else do {
           h \<leftarrow> store h new_l (set_next lst);
           h \<leftarrow> store h lst (set_prev new_l);
           n \<leftarrow> deref h lst;
           h \<leftarrow> store h new_l (set_last (il_last n));
           h \<leftarrow> store h lst (set_last None);
           Some (new_l, h) }) })"

definition eina_inlist_append_relative :: "iheap \<Rightarrow> ptr \<Rightarrow> ptr \<Rightarrow> ptr \<Rightarrow> (ptr \<times> iheap) option" where
  "eina_inlist_append_relative h lst new_l relative =
     (if new_l = None then Some (lst, h)
      else if relative \<noteq> None \<and> lst \<noteq> None then do {
        r \<leftarrow> deref h relative;
        h \<leftarrow> (if il_next r \<noteq> None
               then do {
                 h \<leftarrow> store h new_l (set_next (il_next r));
                 r \<leftarrow> deref h relative;
                 store h (il_next r) (set_prev new_l) }
               else store h new_l (set_next None));
        h \<leftarrow> store h relative (set_next new_l);
        h \<leftarrow> store h new_l (set_prev relative);
        n \<leftarrow> deref h new_l;
        h \<leftarrow> (if il_next n = None then store h lst (set_last new_l) else Some h);
        Some (lst, h) }
      else eina_inlist_append h lst new_l)"

definition eina_inlist_prepend_relative :: "iheap \<Rightarrow> ptr \<Rightarrow> ptr \<Rightarrow> ptr \<Rightarrow> (ptr \<times> iheap) option" where
  "eina_inlist_prepend_relative h lst new_l relative =
     (if new_l = None then Some (lst, h)
      else if relative \<noteq> None \<and> lst \<noteq> None then do {
        r \<leftarrow> deref h relative;
        h \<leftarrow> store h new_l (set_prev (il_prev r));
        h \<leftarrow> store h new_l (set_next relative);
        h \<leftarrow> store h relative (set_prev new_l);
        n \<leftarrow> deref h new_l;
        (if il_prev n \<noteq> None then do {
           h \<leftarrow> store h (il_prev n) (set_next new_l);
           Some (lst, h) }
         else do {
           l \<leftarrow> deref h lst;
           h \<leftarrow> store h new_l (set_last (il_last l));
           h \<leftarrow> store h lst (set_last None);
           Some (new_l, h) }) }
      else eina_inlist_prepend h lst new_l)"

definition eina_inlist_remove :: "iheap \<Rightarrow> ptr \<Rightarrow> ptr \<Rightarrow> (ptr \<times> iheap) option" where
  "eina_inlist_remove h lst item =
     (if lst = None then Some (None, h)
      else if item = None then Some (lst, h)
      else do {
        n \<leftarrow> deref h item;
        (if item \<noteq> lst \<and> il_prev n = None \<and> il_next n = None then Some (lst, h)
         else do {
           h \<leftarrow> (if il_next n \<noteq> None then store h (il_next n) (set_prev (il_prev n)) else Some h);
           n \<leftarrow> deref h item;
           (return_l, h) \<leftarrow>
             (if il_prev n \<noteq> None
              then do { h \<leftarrow> store h (il_prev n) (set_next (il_next n)); Some (lst, h) }
              else if il_next n \<noteq> None
              then do { l \<leftarrow> deref h lst; h \<leftarrow> store h (il_next n) (set_last (il_last l)); Some (il_next n, h) }
              else Some (il_next n, h));
           l \<leftarrow> deref h lst;
           n \<leftarrow> deref h item;
           h \<leftarrow> (if item = il_last l then store h lst (set_last (il_prev n)) else Some h);
           h \<leftarrow> store h item (set_next None);
           h \<leftarrow> store h item (set_prev None);
           Some (return_l, h) }) })"

definition eina_inlist_promote :: "iheap \<Rightarrow> ptr \<Rightarrow> ptr \<Rightarrow> (ptr \<times> iheap) option" where
  "eina_inlist_promote h lst item =
     (if lst = None then Some (None, h)
      else if item = None then Some (lst, h)
      else if item = lst then Some (lst, h)
      else do {
        n \<leftarrow> deref h item;
        h \<leftarrow> (if il_next n \<noteq> None then store h (il_next n) (set_prev (il_prev n)) else Some h);
        n \<leftarrow> deref h item;
        h \<leftarrow> store h (il_prev n) (set_next (il_next n));
        l \<leftarrow> deref h lst;
        n \<leftarrow> deref h item;
        h \<leftarrow> (if il_last l = item then store h lst (set_last (il_prev n)) else Some h);
        h \<leftarrow> store h item (set_next lst);
        h \<leftarrow> store h item (set_prev None);
        l \<leftarrow> deref h lst;
        h \<leftarrow> store h item (set_last (il_last l));
        h \<leftarrow> store h lst (set_prev item);
        h \<leftarrow> store h lst (set_last None);
        Some (item, h) })"

definition eina_inlist_demote :: "iheap \<Rightarrow> ptr \<Rightarrow> ptr \<Rightarrow> (ptr \<times> iheap) option" where
  "eina_inlist_demote h lst item =
     (if lst = None then Some (None, h)
      else if item = None then Some (lst, h)
      else do {
        l0 \<leftarrow> deref h lst;
        (if il_last l0 = item then Some (lst, h)
         else do {
           h \<leftarrow> (if il_last l0 = None then do { l \<leftarrow> inlist_walk_to_last h lst; store h lst (set_last l) } else Some h);
           n \<leftarrow> deref h item;
           h \<leftarrow> (if il_prev n \<noteq> None then store h (il_prev n) (set_next (il_next n)) else Some h);
           (let l = (if il_prev n \<noteq> None then lst else il_next n) in do {
              n \<leftarrow> deref h item;
              h \<leftarrow> store h (il_next n) (set_prev (il_prev n));
              l1 \<leftarrow> deref h lst;
              h \<leftarrow> store h (il_last l1) (set_next item);
              l2 \<leftarrow> deref h lst;
              h \<leftarrow> store h item (set_prev (il_last l2));
              h \<leftarrow> store h item (set_next None);
              h \<leftarrow> store h l (set_last item);
              Some (l, h) }) }) })"

section \<open>Looking up and counting\<close>

partial_function (option) eina_inlist_find :: "iheap \<Rightarrow> ptr \<Rightarrow> ptr \<Rightarrow> ptr option" where
  [code]: "eina_inlist_find h l item =
     (if item = None \<or> l = None then Some None
      else if l = item then Some item
      else do { n \<leftarrow> deref h l; eina_inlist_find h (il_next n) item })"

partial_function (option) inlist_count_from :: "iheap \<Rightarrow> ptr \<Rightarrow> u32 \<Rightarrow> u32 option" where
  [code]: "inlist_count_from h l i =
     (if l = None then Some i else do { n \<leftarrow> deref h l; inlist_count_from h (il_next n) (i + 1) })"

definition eina_inlist_count :: "iheap \<Rightarrow> ptr \<Rightarrow> u32 option" where
  "eina_inlist_count h lst = inlist_count_from h lst 0"

partial_function (option) inlist_walk_to_first :: "iheap \<Rightarrow> ptr \<Rightarrow> ptr option" where
  [code]: "inlist_walk_to_first h l =
     do { n \<leftarrow> deref h l; (if il_prev n = None then Some l else inlist_walk_to_first h (il_prev n)) }"

definition eina_inlist_first :: "iheap \<Rightarrow> ptr \<Rightarrow> ptr option" where
  "eina_inlist_first h lst = (if lst = None then Some None else inlist_walk_to_first h lst)"

definition eina_inlist_last :: "iheap \<Rightarrow> ptr \<Rightarrow> ptr option" where
  "eina_inlist_last h lst = (if lst = None then Some None else inlist_walk_to_last h lst)"

section \<open>Iterator and accessor\<close>

record inlist_iterator =
  ilit_head :: ptr
  ilit_current :: ptr

definition eina_inlist_iterator_new :: "ptr \<Rightarrow> inlist_iterator" where
  "eina_inlist_iterator_new lst = \<lparr>ilit_head = lst, ilit_current = lst\<rparr>"

definition eina_inlist_iterator_next :: "iheap \<Rightarrow> inlist_iterator \<Rightarrow> (ptr \<times> inlist_iterator) option" where
  "eina_inlist_iterator_next h it =
     (if ilit_current it = None then Some (None, it)
      else do {
        n \<leftarrow> deref h (ilit_current it);
        Some (ilit_current it, it\<lparr>ilit_current := il_next n\<rparr>) })"

record inlist_accessor =
  ilac_head :: ptr
  ilac_current :: ptr
  ilac_index :: u32

definition eina_inlist_accessor_new :: "ptr \<Rightarrow> inlist_accessor" where
  "eina_inlist_accessor_new lst = \<lparr>ilac_head = lst, ilac_current = lst, ilac_index = 0\<rparr>"

text \<open>
  The two walks of \<open>eina_inlist_accessor_get_at\<close>: \<open>n\<close> steps along the next or the previous
  pointers, or fewer when a null pointer is met.
\<close>

fun inlist_walk_next :: "iheap \<Rightarrow> nat \<Rightarrow> ptr \<Rightarrow> ptr option" where
  "inlist_walk_next h 0 p = Some p"
| "inlist_walk_next h (Suc n) p = (if p = None then Some None else do { x \<leftarrow> deref h p; inlist_walk_next h n (il_next x) })"

fun inlist_walk_prev :: "iheap \<Rightarrow> nat \<Rightarrow> ptr \<Rightarrow> ptr option" where
  "inlist_walk_prev h 0 p = Some p"
| "inlist_walk_prev h (Suc n) p = (if p = None then Some None else do { x \<leftarrow> deref h p; inlist_walk_prev h n (il_prev x) })"

definition eina_inlist_accessor_get_at :: "iheap \<Rightarrow> inlist_accessor \<Rightarrow> u32 \<Rightarrow> (ptr \<times> inlist_accessor) option" where
  "eina_inlist_accessor_get_at h ac idx = do {
     over \<leftarrow>
       (if ilac_index ac = idx then Some (ilac_current ac)
        else if idx > ilac_index ac then inlist_walk_next h (unat (idx - ilac_index ac)) (ilac_current ac)
        else if idx > drop_bit 1 (ilac_index ac) then inlist_walk_prev h (unat (ilac_index ac - idx)) (ilac_current ac)
        else inlist_walk_next h (unat idx) (ilac_head ac));
     Some (if over = None then (None, ac) else (over, ac\<lparr>ilac_current := over, ilac_index := idx\<rparr>)) }"

section \<open>Sorting\<close>

text \<open>\<open>eina_inlist_sort_merge\<close>, its \<open>while (a && b)\<close> loop first.\<close>

type_synonym item_cmp = "addr \<Rightarrow> addr \<Rightarrow> int"

partial_function (option) inlist_merge_loop :: "item_cmp \<Rightarrow> iheap \<Rightarrow> ptr \<Rightarrow> ptr \<Rightarrow> ptr \<Rightarrow> iheap option" where
  [code]: "inlist_merge_loop func h l a b =
     (case (a, b) of
        (Some x, Some y) \<Rightarrow>
          (if func x y < 0
           then do { h \<leftarrow> store h l (set_next a); n \<leftarrow> deref h a; inlist_merge_loop func h a (il_next n) b }
           else do { h \<leftarrow> store h l (set_next b); n \<leftarrow> deref h b; inlist_merge_loop func h b a (il_next n) })
      | _ \<Rightarrow> store h l (set_next (if a = None then b else a)))"

definition eina_inlist_sort_merge :: "item_cmp \<Rightarrow> iheap \<Rightarrow> ptr \<Rightarrow> ptr \<Rightarrow> (ptr \<times> iheap) option" where
  "eina_inlist_sort_merge func h a b = do {
     x \<leftarrow> a;
     y \<leftarrow> b;
     (if func x y < 0
      then do { n \<leftarrow> deref h a; h \<leftarrow> inlist_merge_loop func h a (il_next n) b; Some (a, h) }
      else do { n \<leftarrow> deref h b; h \<leftarrow> inlist_merge_loop func h b a (il_next n); Some (b, h) }) }"

partial_function (option) inlist_rebuild_prev :: "iheap \<Rightarrow> ptr \<Rightarrow> ptr \<Rightarrow> (ptr \<times> iheap) option" where
  [code]: "inlist_rebuild_prev h l prev =
     (if l = None then Some (prev, h)
      else do {
        h \<leftarrow> store h l (set_prev prev);
        n \<leftarrow> deref h l;
        inlist_rebuild_prev h (il_next n) l })"

definition eina_inlist_sort_rebuild_prev :: "iheap \<Rightarrow> ptr \<Rightarrow> (ptr \<times> iheap) option" where
  "eina_inlist_sort_rebuild_prev h lst = inlist_rebuild_prev h lst None"

text \<open>
  The loops of \<open>eina_inlist_sort\<close>. The local array \<open>stack\<close> is a list with its top first;
  writing an element beyond \<open>EINA_INLIST_SORT_STACK_SIZE\<close> is \<open>None\<close>.
\<close>

definition EINA_INLIST_SORT_STACK_SIZE :: nat where
  "EINA_INLIST_SORT_STACK_SIZE = 32"

definition stack_push :: "ptr \<Rightarrow> ptr list \<Rightarrow> ptr list option" where
  "stack_push p st = (if length st < EINA_INLIST_SORT_STACK_SIZE then Some (p # st) else None)"

text \<open>\<open>for (idx = n ^ tmp; idx &= idx - 1; i--)\<close>\<close>

partial_function (option) inlist_collapse :: "item_cmp \<Rightarrow> u32 \<Rightarrow> iheap \<Rightarrow> ptr list \<Rightarrow> (iheap \<times> ptr list) option" where
  [code]: "inlist_collapse func idx h st =
     (let idx = idx AND (idx - 1) in
      if idx = 0 then Some (h, st)
      else case st of
             b # a # st' \<Rightarrow> do { (p, h) \<leftarrow> eina_inlist_sort_merge func h a b; inlist_collapse func idx h (p # st') }
           | _ \<Rightarrow> None)"

partial_function (option) inlist_sort_loop :: "item_cmp \<Rightarrow> iheap \<Rightarrow> ptr \<Rightarrow> u32 \<Rightarrow> ptr list \<Rightarrow> (iheap \<times> ptr list) option" where
  [code]: "inlist_sort_loop func h tail n st =
     (case tail of
        None \<Rightarrow> Some (h, st)
      | Some a \<Rightarrow> do {
          na \<leftarrow> h a;
          (case il_next na of
             None \<Rightarrow> do { st \<leftarrow> stack_push (Some a) st; Some (h, st) }
           | Some b \<Rightarrow> do {
               nb \<leftarrow> h b;
               (st, h) \<leftarrow>
                 (if func a b < 0 then do {
                    st \<leftarrow> stack_push (Some a) st;
                    h \<leftarrow> store h (Some a) (set_next (Some b));
                    h \<leftarrow> store h (Some b) (set_next None);
                    Some (st, h) }
                  else do {
                    st \<leftarrow> stack_push (Some b) st;
                    h \<leftarrow> store h (Some b) (set_next (Some a));
                    h \<leftarrow> store h (Some a) (set_next None);
                    Some (st, h) });
               (h, st) \<leftarrow> inlist_collapse func ((n + 1) XOR n) h st;
               inlist_sort_loop func h (il_next nb) (n + 1) st }) })"

text \<open>\<open>while (i-- > 1)\<close>\<close>

partial_function (option) inlist_merge_all :: "item_cmp \<Rightarrow> iheap \<Rightarrow> ptr list \<Rightarrow> (ptr \<times> iheap) option" where
  [code]: "inlist_merge_all func h st =
     (case st of
        [] \<Rightarrow> None
      | [p] \<Rightarrow> Some (p, h)
      | b # a # st' \<Rightarrow> do { (p, h) \<leftarrow> eina_inlist_sort_merge func h a b; inlist_merge_all func h (p # st') })"

definition eina_inlist_sort :: "item_cmp option \<Rightarrow> iheap \<Rightarrow> ptr \<Rightarrow> (ptr \<times> iheap) option" where
  "eina_inlist_sort func h head =
     (case func of
        None \<Rightarrow> Some (if head = None then None else head, h)
      | Some f \<Rightarrow>
          if head = None then Some (None, h)
          else do {
            (h, st) \<leftarrow> inlist_sort_loop f h head 0 [];
            (head, h) \<leftarrow> inlist_merge_all f h st;
            (tail, h) \<leftarrow> eina_inlist_sort_rebuild_prev h head;
            h \<leftarrow> store h head (set_last tail);
            Some (head, h) })"

section \<open>Sorted insertion\<close>

text \<open>
  \<open>struct _Eina_Inlist_Sorted_State\<close>: every \<open>jump_div\<close>-th node of the list, in a table of
  \<open>EINA_INLIST_JUMP_SIZE\<close> entries of which the first \<open>jump_limit\<close> are in use. An \<open>int\<close>
  that overflows has no result; \<open>jump_limit\<close>, an \<open>unsigned short\<close>, is at most the size of the table.
\<close>

definition EINA_INLIST_JUMP_SIZE :: nat where
  "EINA_INLIST_JUMP_SIZE = 256"

record sorted_state =
  jump_table :: "ptr list"
  jump_limit :: nat
  jump_div :: nat
  inserted :: nat

definition sorted_state_compact :: "sorted_state \<Rightarrow> sorted_state option" where
  "sorted_state_compact st = do {
     dv \<leftarrow> c_int (jump_div st * 2);
     Some (st\<lparr>jump_div := dv, jump_limit := jump_limit st div 2,
        jump_table := fold (\<lambda>j t. t[j := t ! (2 * j)]) [1..<EINA_INLIST_JUMP_SIZE div 2] (jump_table st)\<rparr>) }"

text \<open>\<open>state->jump_table[state->jump_limit] = ct; state->jump_limit++;\<close>\<close>

definition jump_add :: "sorted_state \<Rightarrow> ptr \<Rightarrow> sorted_state option" where
  "jump_add st ct =
     (if jump_limit st < length (jump_table st)
      then Some (st\<lparr>jump_table := (jump_table st)[jump_limit st := ct], jump_limit := jump_limit st + 1\<rparr>)
      else None)"

partial_function (option) state_init_loop ::
  "iheap \<Rightarrow> ptr \<Rightarrow> sorted_state \<Rightarrow> nat \<Rightarrow> nat \<Rightarrow> (nat \<times> sorted_state) option" where
  [code]: "state_init_loop h ct st jump_count cnt =
     (if ct = None then Some (cnt, st\<lparr>inserted := cnt\<rparr>)
      else do {
        (st, jump_count) \<leftarrow>
          (if jump_count = jump_div st then do {
             st \<leftarrow> (if jump_limit st = EINA_INLIST_JUMP_SIZE then sorted_state_compact st else Some st);
             st \<leftarrow> jump_add st ct;
             Some (st, 0) }
           else Some (st, jump_count));
        n \<leftarrow> deref h ct;
        jump_count \<leftarrow> c_int (jump_count + 1);
        cnt \<leftarrow> c_int (cnt + 1);
        state_init_loop h (il_next n) st jump_count cnt })"

definition eina_inlist_sorted_state_init :: "iheap \<Rightarrow> sorted_state \<Rightarrow> ptr \<Rightarrow> (nat \<times> sorted_state) option" where
  "eina_inlist_sorted_state_init h st lst = state_init_loop h lst st 1 0"

definition eina_inlist_sorted_state_new :: sorted_state where
  "eina_inlist_sorted_state_new =
     \<lparr>jump_table = replicate EINA_INLIST_JUMP_SIZE None, jump_limit = 0, jump_div = 1, inserted = 0\<rparr>"

text \<open>The dichotomic search in the table: \<open>cur\<close>, \<open>ct\<close> and \<open>cmp\<close> of the last round.\<close>

function table_search ::
  "item_cmp \<Rightarrow> ptr list \<Rightarrow> addr \<Rightarrow> int \<Rightarrow> int \<Rightarrow> int \<times> ptr \<times> int \<Rightarrow> (int \<times> ptr \<times> int) option" where
  "table_search func table item lo hi found =
     (if \<not> lo \<le> hi then Some found
      else if \<not> in_int (hi - lo) then None
      else
        (let cur = lo + (hi - lo) div 2 in do {
           ct \<leftarrow> (if 0 \<le> cur \<and> nat cur < length table then table ! nat cur else None);
           (let cmp = func ct item in
            if cmp = 0 then Some (cur, Some ct, cmp)
            else if cmp < 0 then (if in_int (cur + 1) then table_search func table item (cur + 1) hi (cur, Some ct, cmp) else None)
            else if cur > 0 then table_search func table item lo (cur - 1) (cur, Some ct, cmp)
            else Some (cur, Some ct, cmp)) }))"
  by auto
termination
  by (relation "measure (\<lambda>(f, t, i, lo, hi, p). nat (hi + 1 - lo))") auto

text \<open>The dichotomic search between two entries of the table, which walks from node to node.\<close>

function node_search ::
  "item_cmp \<Rightarrow> iheap \<Rightarrow> addr \<Rightarrow> int \<Rightarrow> int \<Rightarrow> int \<times> ptr \<times> int \<Rightarrow> (int \<times> ptr \<times> int) option" where
  "node_search func h item lo hi found =
     (if \<not> lo \<le> hi then Some found
      else if \<not> in_int (hi - lo) then None
      else
        (case found of (tmp, ct, _) \<Rightarrow>
           (let cur = lo + (hi - lo) div 2 in do {
              p \<leftarrow> (if tmp < cur then inlist_walk_next h (nat (cur - tmp)) ct
                    else inlist_walk_prev h (nat (tmp - cur)) ct);
              ct \<leftarrow> p;
              (let cmp = func ct item in
               if cmp = 0 then Some (cur, Some ct, cmp)
               else if cmp < 0 then (if in_int (cur + 1) then node_search func h item (cur + 1) hi (cur, Some ct, cmp) else None)
               else if cur > 0 then node_search func h item lo (cur - 1) (cur, Some ct, cmp)
               else Some (cur, Some ct, cmp)) })))"
  by auto
termination
  by (relation "measure (\<lambda>(f, t, i, lo, hi, p). nat (hi + 1 - lo))") auto

declare table_search.simps [simp del] node_search.simps [simp del]

definition eina_inlist_sorted_insert :: "item_cmp option \<Rightarrow> iheap \<Rightarrow> ptr \<Rightarrow> ptr \<Rightarrow> (ptr \<times> iheap) option" where
  "eina_inlist_sorted_insert callback h lst item =
     (case (item, callback) of
        (Some it, Some func) \<Rightarrow>
          (case lst of
             None \<Rightarrow> eina_inlist_append h None item
           | Some l \<Rightarrow> do {
               n \<leftarrow> h l;
               (if il_next n = None then
                  (if func l it < 0 then eina_inlist_append h lst item else eina_inlist_prepend h lst item)
                else do {
                  (cnt, state) \<leftarrow> eina_inlist_sorted_state_init h eina_inlist_sorted_state_new lst;
                  ct0 \<leftarrow> jump_table state ! 0;
                  (cur, ct, cmp) \<leftarrow> table_search func (jump_table state) it 0 (int (jump_limit state) - 1)
                    (0, Some ct0, func ct0 it);
                  (if cur = 0 \<and> cmp > 0 then eina_inlist_prepend_relative h lst item ct
                   else if cmp < 0 \<and> ct = il_last n then eina_inlist_append h lst item
                   else
                     (let dv = int (jump_div state);
                          cur = cur * dv;
                          lo = cur - dv - 1;
                          hi = cur + dv + 1;
                          ok = in_int cur \<and> in_int lo \<and> in_int hi;
                          hi = min (int cnt - 1) hi;
                          lo = max 0 lo in
                      if \<not> ok then None
                      else do {
                        (cur, ct, cmp) \<leftarrow> node_search func h it lo hi (cur, ct, cmp);
                        (if cmp \<le> 0 then eina_inlist_append_relative h lst item ct
                         else eina_inlist_prepend_relative h lst item ct) })) }) })
      | _ \<Rightarrow> Some (lst, h))"

end
