(* ===== verification/Linked_Sort.thy ===== *)
theory Linked_Sort
  imports Linked
begin

unbundle bit_operations_syntax

text \<open>
  The merge sort that \<open>eina_inlist_sort\<close> and \<open>eina_list_sort\<close> share: pairs of nodes are
  pushed on a stack of sorted runs, and a binary counter says how many runs to merge after
  each push. The locale states the equations of its loops; both source files provide them.
\<close>

section \<open>Merging lists\<close>

fun merge_by :: "('a \<Rightarrow> 'a \<Rightarrow> bool) \<Rightarrow> 'a list \<Rightarrow> 'a list \<Rightarrow> 'a list" where
  "merge_by lt [] ys = ys"
| "merge_by lt (x # xs) [] = x # xs"
| "merge_by lt (x # xs) (y # ys) =
     (if lt x y then x # merge_by lt xs (y # ys) else y # merge_by lt (x # xs) ys)"

lemma merge_by_Nil2 [simp]: "merge_by lt xs [] = xs"
  by (cases xs) simp_all

lemma mset_merge_by [simp]: "mset (merge_by lt xs ys) = mset xs + mset ys"
  by (induction lt xs ys rule: merge_by.induct) auto

lemma set_merge_by [simp]: "set (merge_by lt xs ys) = set xs \<union> set ys"
  by (metis mset_merge_by set_mset_mset set_mset_union)

lemma merge_by_eq_Nil [simp]: "merge_by lt xs ys = [] \<longleftrightarrow> xs = [] \<and> ys = []"
  by (cases "(lt, xs, ys)" rule: merge_by.cases) auto

context compare_cb
begin

lemma ascending_merge_by:
  "ascending xs \<Longrightarrow> ascending ys \<Longrightarrow> ascending (merge_by (\<lambda>x y. c x y < 0) xs ys)"
proof (induction "\<lambda>x y. c x y < 0" xs ys rule: merge_by.induct)
  case (3 x xs y ys)
  have "c x z \<le> 0" if "c x y < 0" "z \<in> set ys" for z
    using 3(4) that c_trans [of x y z] by auto
  moreover have "c y z \<le> 0" if "\<not> c x y < 0" "z \<in> set xs" for z
    using 3(3) that c_trans [of y x z] c_le [of y x] by auto
  ultimately show ?case
    using 3 c_le [of y x] by auto
qed simp_all

end

section \<open>The binary counter\<close>

text \<open>The number of one bits, and of trailing one bits.\<close>

fun ones :: "nat \<Rightarrow> nat" where
  "ones n = (if n = 0 then 0 else n mod 2 + ones (n div 2))"

function carries :: "nat \<Rightarrow> nat" where
  "carries n = (if odd n then Suc (carries (n div 2)) else 0)"
  by auto
termination
  by (relation "measure id") (auto elim: oddE)

declare ones.simps [simp del] carries.simps [simp del]

lemma ones_0 [simp]: "ones 0 = 0" by (simp add: ones.simps)

lemma ones_double: "ones (2 * n) = ones n"
  by (cases "n = 0") (simp_all add: ones.simps [of "2 * n"])

lemma ones_double_Suc: "ones (Suc (2 * n)) = Suc (ones n)"
  by (simp add: ones.simps [of "Suc (2 * n)"])

lemma carries_double [simp]: "carries (2 * n) = 0"
  by (subst carries.simps) simp

lemma carries_double_Suc [simp]: "carries (Suc (2 * n)) = Suc (carries n)"
  by (subst carries.simps) simp

lemma ones_Suc: "ones (Suc n) + carries n = Suc (ones n)"
proof (induction n rule: carries.induct)
  case (1 n)
  show ?case
  proof (cases "odd n")
    case True
    then obtain m where m: "n = Suc (2 * m)" by (auto elim: oddE)
    have "ones (Suc n) = ones (Suc m)"
      using ones_double [of "Suc m"] m by simp
    moreover have "carries n = Suc (carries m)" "ones n = Suc (ones m)"
      using m by (simp_all add: ones_double_Suc)
    moreover have "ones (Suc m) + carries m = Suc (ones m)"
      using 1 True m by simp
    ultimately show ?thesis by simp
  next
    case False
    then obtain m where m: "n = 2 * m" by (auto elim: evenE)
    then show ?thesis
      by (simp add: ones_double ones_double_Suc)
  qed
qed

lemma ones_bound: "n < 2 ^ k \<Longrightarrow> ones n \<le> k"
proof (induction k arbitrary: n)
  case 0
  then show ?case by simp
next
  case (Suc k)
  then have "ones (n div 2) \<le> k" by (intro Suc.IH) simp
  moreover have "n mod 2 \<le> 1" by simp
  ultimately have "n mod 2 + ones (n div 2) \<le> Suc k" by linarith
  then show ?case by (subst ones.simps) simp
qed

lemma pow_pred: "(2 :: nat) ^ Suc k - 1 = Suc (2 * (2 ^ k - 1))" "(2 :: nat) ^ Suc k - 2 = 2 * (2 ^ k - 1)"
proof -
  obtain m where m: "(2 :: nat) ^ k = Suc m"
    by (cases "(2 :: nat) ^ k") auto
  show "(2 :: nat) ^ Suc k - 1 = Suc (2 * (2 ^ k - 1))" "(2 :: nat) ^ Suc k - 2 = 2 * (2 ^ k - 1)"
    by (simp_all add: m)
qed

lemma xor_Suc: "n XOR Suc n = 2 ^ Suc (carries n) - (1 :: nat)"
proof (induction n rule: carries.induct)
  case (1 n)
  show ?case
  proof (cases "odd n")
    case True
    then obtain m where m: "n = Suc (2 * m)" by (auto elim: oddE)
    have "n XOR Suc n = Suc (2 * (m XOR Suc m))"
      using m by (subst xor_rec) simp
    also have "m XOR Suc m = 2 ^ Suc (carries m) - 1"
      using 1 True m by simp
    finally have "n XOR Suc n = Suc (2 * (2 ^ Suc (carries m) - 1))" .
    also have "\<dots> = 2 ^ Suc (Suc (carries m)) - 1"
      by (rule pow_pred(1) [symmetric])
    finally show ?thesis
      using m by simp
  next
    case False
    then obtain m where m: "n = 2 * m" by (auto elim: evenE)
    then show ?thesis
      by (subst xor_rec) simp
  qed
qed

text \<open>The loop \<open>for (idx = n ^ tmp; idx &= idx - 1; i--)\<close> runs once for each carry.\<close>

lemma and_pred:
  assumes "j \<le> k"
  shows "(2 ^ Suc k - 2 ^ j) AND (2 ^ Suc k - 2 ^ j - 1) = 2 ^ Suc k - (2 ^ Suc j :: nat)"
  using assms
proof (induction j arbitrary: k)
  case 0
  have "Suc (2 * m) AND (2 * m) = 2 * m" for m :: nat
    by (subst and_rec) simp
  moreover have "(2 :: nat) ^ Suc k - 2 ^ 0 - 1 = 2 ^ Suc k - 2" by simp
  ultimately show ?case
    using pow_pred [of k] by simp
next
  case (Suc j)
  then obtain i where k: "k = Suc i" "j \<le> i" by (cases k) auto
  have lt: "(2 :: nat) ^ j < 2 ^ Suc i"
    using k(2) by (intro power_strict_increasing) auto
  let ?x = "2 ^ Suc i - (2 :: nat) ^ j"
  obtain m where m: "?x = Suc m"
    using lt by (cases ?x) auto
  have "(2 * Suc m) AND (2 * Suc m - 1) = 2 * (Suc m AND m)"
    by (subst and_rec) simp
  then have "(2 * ?x) AND (2 * ?x - 1) = 2 * (?x AND (?x - 1))"
    by (simp only: m diff_Suc_1)
  also have "\<dots> = 2 * (2 ^ Suc i - 2 ^ Suc j)"
    using Suc.IH [OF k(2)] by simp
  finally show ?case
    using k(1) by (simp add: right_diff_distrib')
qed

section \<open>The sort\<close>

locale list_sort = links nx pv set_nx set_pv for nx pv :: "'n \<Rightarrow> ptr" and set_nx set_pv +
  fixes key :: "addr \<Rightarrow> 'n \<Rightarrow> 'k"
    and merge_loop :: "('k \<Rightarrow> 'k \<Rightarrow> int) \<Rightarrow> 'n heap \<Rightarrow> ptr \<Rightarrow> ptr \<Rightarrow> ptr \<Rightarrow> 'n heap option"
    and sort_merge :: "('k \<Rightarrow> 'k \<Rightarrow> int) \<Rightarrow> 'n heap \<Rightarrow> ptr \<Rightarrow> ptr \<Rightarrow> (ptr \<times> 'n heap) option"
    and collapse :: "('k \<Rightarrow> 'k \<Rightarrow> int) \<Rightarrow> u32 \<Rightarrow> 'n heap \<Rightarrow> ptr list \<Rightarrow> ('n heap \<times> ptr list) option"
    and sort_loop :: "('k \<Rightarrow> 'k \<Rightarrow> int) \<Rightarrow> 'n heap \<Rightarrow> ptr \<Rightarrow> u32 \<Rightarrow> ptr list \<Rightarrow> ('n heap \<times> ptr list) option"
    and merge_all :: "('k \<Rightarrow> 'k \<Rightarrow> int) \<Rightarrow> 'n heap \<Rightarrow> ptr list \<Rightarrow> (ptr \<times> 'n heap) option"
    and rebuild_prev :: "'n heap \<Rightarrow> ptr \<Rightarrow> ptr \<Rightarrow> (ptr \<times> 'n heap) option"
  assumes key_set [simp]: "key x (set_nx p n) = key x n" "key x (set_pv p n) = key x n"
    and merge_loop_end: "a = None \<or> b = None \<Longrightarrow>
      merge_loop func h l a b = store h l (set_nx (if a = None then b else a))"
    and merge_loop_step: "h x = Some n \<Longrightarrow> h y = Some m \<Longrightarrow>
      merge_loop func h l (Some x) (Some y) =
        (if func (key x n) (key y m) < 0
         then do { h' \<leftarrow> store h l (set_nx (Some x)); n' \<leftarrow> h' x; merge_loop func h' (Some x) (nx n') (Some y) }
         else do { h' \<leftarrow> store h l (set_nx (Some y)); m' \<leftarrow> h' y; merge_loop func h' (Some y) (Some x) (nx m') })"
    and sort_merge_eq: "h x = Some n \<Longrightarrow> h y = Some m \<Longrightarrow>
      sort_merge func h (Some x) (Some y) =
        (if func (key x n) (key y m) < 0
         then map_option (Pair (Some x)) (merge_loop func h (Some x) (nx n) (Some y))
         else map_option (Pair (Some y)) (merge_loop func h (Some y) (Some x) (nx m)))"
    and collapse_eq: "collapse func i h st =
        (let j = i AND (i - 1) in
         if j = 0 then Some (h, st)
         else case st of
                b # a # st' \<Rightarrow> do { (q, h') \<leftarrow> sort_merge func h a b; collapse func j h' (q # st') }
              | _ \<Rightarrow> None)"
    and sort_loop_None: "sort_loop func h None k st = Some (h, st)"
    and sort_loop_one: "h x = Some n \<Longrightarrow> nx n = None \<Longrightarrow>
      sort_loop func h (Some x) k st = (if length st < 32 then Some (h, Some x # st) else None)"
    and sort_loop_two: "h x = Some n \<Longrightarrow> nx n = Some y \<Longrightarrow> h y = Some m \<Longrightarrow> x \<noteq> y \<Longrightarrow>
      sort_loop func h (Some x) k st =
        (if length st < 32
         then do { (h', st') \<leftarrow> collapse func ((k + 1) XOR k)
                    (if func (key x n) (key y m) < 0 then h(x \<mapsto> set_nx (Some y) n, y \<mapsto> set_nx None m)
                     else h(y \<mapsto> set_nx (Some x) m, x \<mapsto> set_nx None n))
                    ((if func (key x n) (key y m) < 0 then Some x else Some y) # st);
                   sort_loop func h' (nx m) (k + 1) st' }
         else None)"
    and merge_all_one: "merge_all func h [q] = Some (q, h)"
    and merge_all_more: "merge_all func h (b # a # st) =
      do { (q, h') \<leftarrow> sort_merge func h a b; merge_all func h' (q # st) }"
    and rebuild_None: "rebuild_prev h None p = Some (p, h)"
    and rebuild_Some: "h x = Some n \<Longrightarrow>
      rebuild_prev h (Some x) p = rebuild_prev (h(x \<mapsto> set_pv p n)) (nx n) (Some x)"
begin

text \<open>The sort changes nothing but the links of the nodes of the list.\<close>

definition relinked :: "addr set \<Rightarrow> 'n heap \<Rightarrow> 'n heap \<Rightarrow> bool" where
  "relinked S h h' \<longleftrightarrow> (\<forall>x. (x \<notin> S \<longrightarrow> h' x = h x) \<and> (h x = None \<longrightarrow> h' x = None) \<and>
     (\<forall>n. h x = Some n \<longrightarrow> (\<exists>p q. h' x = Some (set_pv q (set_nx p n)))))"

definition kf :: "'n heap \<Rightarrow> addr \<Rightarrow> 'k" where
  "kf h x = key x (the (h x))"

lemma relinked_refl [simp]: "relinked S h h"
  unfolding relinked_def by (metis get_set(3) set_same)

lemma relinked_trans:
  assumes "relinked S h h'" and "relinked T h' h''"
  shows "relinked (S \<union> T) h h''"
  unfolding relinked_def
proof (intro allI conjI impI)
  fix x n assume "h x = Some n"
  then obtain p q p' q' where "h' x = Some (set_pv q (set_nx p n))"
      "h'' x = Some (set_pv q' (set_nx p' (set_pv q (set_nx p n))))"
    using assms unfolding relinked_def by meson
  then show "\<exists>p q. h'' x = Some (set_pv q (set_nx p n))"
    by auto
qed (use assms in \<open>auto simp: relinked_def\<close>)

lemma relinked_mono: "relinked S h h' \<Longrightarrow> S \<subseteq> T \<Longrightarrow> relinked T h h'"
  unfolding relinked_def by blast

lemma relinked_upd_nx: "h x = Some n \<Longrightarrow> x \<in> S \<Longrightarrow> relinked S h (h(x \<mapsto> set_nx p n))"
  unfolding relinked_def by (metis fun_upd_apply get_set(3) option.distinct(1) option.inject set_same set_set(3))

lemma relinked_upd_pv: "h x = Some n \<Longrightarrow> x \<in> S \<Longrightarrow> relinked S h (h(x \<mapsto> set_pv p n))"
  unfolding relinked_def by (metis fun_upd_apply get_set(3) option.distinct(1) option.inject set_same set_set(3))

lemma relinked_kf [simp]: "relinked S h h' \<Longrightarrow> kf h' x = kf h x"
proof (cases "h x")
  case (Some n)
  moreover assume "relinked S h h'"
  ultimately obtain p q where "h' x = Some (set_pv q (set_nx p n))"
    unfolding relinked_def by blast
  with Some show ?thesis by (simp add: kf_def)
qed (simp add: relinked_def kf_def)

lemma relinked_frame: "relinked S h h' \<Longrightarrow> x \<notin> S \<Longrightarrow> h' x = h x"
  by (simp add: relinked_def)

lemma relinked_dom: "relinked S h h' \<Longrightarrow> h x = Some n \<Longrightarrow> \<exists>m. h' x = Some m"
  unfolding relinked_def by blast

lemma relinked_chain: "relinked S h h' \<Longrightarrow> set xs \<inter> S = {} \<Longrightarrow> chain h' xs p = chain h xs p"
  by (rule chain_cong) (auto dest: relinked_frame)

text \<open>Merging two chains.\<close>

lemma merge_loop_ok:
  assumes "chain h xs a" and "chain h ys b" and "distinct (l # xs @ ys)" and "h l = Some n"
  shows "\<exists>h' m. merge_loop func h (Some l) a b = Some h' \<and> relinked (insert l (set xs \<union> set ys)) h h' \<and>
    h' l = Some m \<and> chain h' (merge_by (\<lambda>x y. func (kf h x) (kf h y) < 0) xs ys) (nx m)"
  using assms
proof (induction "\<lambda>x y. func (kf h x) (kf h y) < 0" xs ys arbitrary: h l n a b rule: merge_by.induct)
  case (1 ys)
  then show ?case
    by (auto simp: merge_loop_end relinked_upd_nx)
next
  case (2 x xs)
  then show ?case
    by (auto simp: merge_loop_end relinked_upd_nx)
next
  case (3 x xs y ys h l n a b)
  obtain nx' ny where xy: "a = Some x" "b = Some y" "h x = Some nx'" "h y = Some ny" "chain h xs (nx nx')" "chain h ys (nx ny)"
    using 3(3,4) by auto
  define z where "z = (if func (kf h x) (kf h y) < 0 then x else y)"
  define h1 where "h1 = h(l \<mapsto> set_nx (Some z) n)"
  have r1: "relinked {l} h h1"
    using 3(6) by (simp add: h1_def relinked_upd_nx)
  then have k: "kf h1 = kf h"
    by auto
  have c1: "chain h1 xs (nx nx')" "chain h1 ys (nx ny)" "h1 x = Some nx'" "h1 y = Some ny"
    using xy 3(5) by (auto simp: h1_def)
  have st: "store h (Some l) (set_nx (Some z)) = Some h1"
    using 3(6) by (simp add: h1_def)
  show ?case
  proof (cases "func (kf h x) (kf h y) < 0")
    case True
    then obtain h' m where h': "merge_loop func h1 (Some x) (nx nx') b = Some h'"
        "relinked (insert x (set xs \<union> set (y # ys))) h1 h'" "h' x = Some m"
        "chain h' (merge_by (\<lambda>x y. func (kf h x) (kf h y) < 0) xs (y # ys)) (nx m)"
      using 3(1) [of h1 "nx nx'" b x nx'] k c1 xy 3(5) by auto
    have "h' l = h1 l"
      using h'(2) 3(5) by (intro relinked_frame) auto
    moreover have "merge_loop func h (Some l) a b = Some h'"
      using True st h'(1) c1(3) xy merge_loop_step [of h x nx' y ny func "Some l"] by (simp add: kf_def z_def)
    moreover have "relinked (insert l (set (x # xs) \<union> set (y # ys))) h h'"
      using relinked_trans [OF r1 h'(2)] by (rule relinked_mono) auto
    ultimately show ?thesis
      using True h' by (auto simp: h1_def z_def)
  next
    case False
    then obtain h' m where h': "merge_loop func h1 (Some y) a (nx ny) = Some h'"
        "relinked (insert y (set (x # xs) \<union> set ys)) h1 h'" "h' y = Some m"
        "chain h' (merge_by (\<lambda>x y. func (kf h x) (kf h y) < 0) (x # xs) ys) (nx m)"
      using 3(2) [of h1 a "nx ny" y ny] k c1 xy 3(5) by auto
    have "h' l = h1 l"
      using h'(2) 3(5) by (intro relinked_frame) auto
    moreover have "merge_loop func h (Some l) a b = Some h'"
      using False st h'(1) c1(4) xy merge_loop_step [of h x nx' y ny func "Some l"] by (simp add: kf_def z_def)
    moreover have "relinked (insert l (set (x # xs) \<union> set (y # ys))) h h'"
      using relinked_trans [OF r1 h'(2)] by (rule relinked_mono) auto
    ultimately show ?thesis
      using False h' by (auto simp: h1_def z_def)
  qed
qed

lemma sort_merge_ok:
  assumes "chain h xs a" and "chain h ys b" and "distinct (xs @ ys)" and "xs \<noteq> []" and "ys \<noteq> []"
  shows "\<exists>q h'. sort_merge func h a b = Some (q, h') \<and> relinked (set xs \<union> set ys) h h' \<and>
    chain h' (merge_by (\<lambda>x y. func (kf h x) (kf h y) < 0) xs ys) q"
proof -
  obtain x xs' y ys' n m where xy: "xs = x # xs'" "ys = y # ys'" "a = Some x" "b = Some y"
      "h x = Some n" "h y = Some m" "chain h xs' (nx n)" "chain h ys' (nx m)"
    using assms by (cases xs; cases ys) auto
  note eq = sort_merge_eq [of h x n y m func]
  show ?thesis
  proof (cases "func (kf h x) (kf h y) < 0")
    case True
    then show ?thesis
      using merge_loop_ok [of h xs' "nx n" ys b x n func] eq xy assms(2,3) by (auto simp: kf_def insert_commute)
  next
    case False
    then show ?thesis
      using merge_loop_ok [of h xs a ys' "nx m" y m func] eq xy assms(1,3) by (auto simp: kf_def)
  qed
qed

text \<open>The stack holds disjoint sorted runs.\<close>

definition runs :: "'n heap \<Rightarrow> ptr list \<Rightarrow> addr list list \<Rightarrow> bool" where
  "runs h st rs \<longleftrightarrow> list_all2 (\<lambda>r q. r \<noteq> [] \<and> chain h r q) rs st \<and> distinct (concat rs)"

definition asc :: "('k \<Rightarrow> 'k \<Rightarrow> int) \<Rightarrow> (addr \<Rightarrow> 'k) \<Rightarrow> addr list \<Rightarrow> bool" where
  "asc func K r \<longleftrightarrow> sorted_wrt (\<lambda>x y. func (K x) (K y) \<le> 0) r"

lemma asc_merge:
  assumes "compare_cb func" and "asc func K r" and "asc func K s"
  shows "asc func K (merge_by (\<lambda>x y. func (K x) (K y) < 0) r s)"
proof -
  have "compare_cb (\<lambda>x y. func (K x) (K y))"
    using assms(1) unfolding compare_cb_def by blast
  then show ?thesis
    using assms(2,3) compare_cb.ascending_merge_by unfolding asc_def by blast
qed

lemma runs_frame:
  assumes "runs h st rs" and "relinked S h h'" and "set (concat rs) \<inter> S = {}"
  shows "runs h' st rs"
  using assms relinked_chain [OF assms(2)] unfolding runs_def
  by (force elim!: list.rel_mono_strong dest: set_zip_leftD)

lemma runs_length: "runs h st rs \<Longrightarrow> length st = length rs"
  unfolding runs_def by (auto dest: list_all2_lengthD)

lemma merge_top:
  assumes "runs h (b # a # st) (r # s # rs)"
  shows "\<exists>q h'. sort_merge func h a b = Some (q, h') \<and> relinked (set (concat (r # s # rs))) h h' \<and>
    runs h' (q # st) (merge_by (\<lambda>x y. func (kf h x) (kf h y) < 0) s r # rs)"
proof -
  have d: "distinct (s @ r)" "s \<noteq> []" "r \<noteq> []" "chain h s a" "chain h r b" "runs h st rs"
      "set (concat rs) \<inter> (set s \<union> set r) = {}" "distinct (concat rs)"
    using assms by (auto simp: runs_def)
  obtain q h' where q: "sort_merge func h a b = Some (q, h')" "relinked (set s \<union> set r) h h'"
      "chain h' (merge_by (\<lambda>x y. func (kf h x) (kf h y) < 0) s r) q"
    using sort_merge_ok [OF d(4,5,1,2,3), of func] by blast
  have "distinct (merge_by (\<lambda>x y. func (kf h x) (kf h y) < 0) s r)"
    using d(1) by (metis mset_append mset_eq_imp_distinct_iff mset_merge_by)
  moreover have "runs h' st rs"
    by (rule runs_frame [OF d(6) q(2) d(7)])
  ultimately have "runs h' (q # st) (merge_by (\<lambda>x y. func (kf h x) (kf h y) < 0) s r # rs)"
    using d q(3) by (auto simp: runs_def)
  moreover have "relinked (set (concat (r # s # rs))) h h'"
    using q(2) by (rule relinked_mono) auto
  ultimately show ?thesis
    using q(1) by blast
qed

definition refines_runs :: "('k \<Rightarrow> 'k \<Rightarrow> int) \<Rightarrow> 'n heap \<Rightarrow> addr list list \<Rightarrow> 'n heap \<Rightarrow> addr list list \<Rightarrow> bool" where
  "refines_runs func h rs h' rs' \<longleftrightarrow> relinked (set (concat rs)) h h' \<and> mset (concat rs') = mset (concat rs) \<and>
     (compare_cb func \<longrightarrow> (\<forall>r \<in> set rs. asc func (kf h) r) \<longrightarrow> (\<forall>r \<in> set rs'. asc func (kf h) r))"

lemma refines_runs_refl [simp]: "refines_runs func h rs h rs"
  by (simp add: refines_runs_def)

lemma refines_runs_trans:
  assumes "refines_runs func h rs h' rs'" and "refines_runs func h' rs' h'' rs''"
  shows "refines_runs func h rs h'' rs''"
proof -
  have "set (concat rs') = set (concat rs)"
    using assms(1) unfolding refines_runs_def by (metis set_mset_mset)
  moreover have "kf h' = kf h"
    using assms(1) by (auto simp: refines_runs_def)
  ultimately show ?thesis
    using assms relinked_trans [of "set (concat rs)" h h' "set (concat rs')" h''] unfolding refines_runs_def
    by simp
qed

lemma merge_top_refines:
  assumes "runs h (b # a # st) (r # s # rs)"
  shows "\<exists>q h' t. sort_merge func h a b = Some (q, h') \<and> runs h' (q # st) (t # rs) \<and>
    refines_runs func h (r # s # rs) h' (t # rs)"
proof -
  obtain q h' where "sort_merge func h a b = Some (q, h')" "relinked (set (concat (r # s # rs))) h h'"
    "runs h' (q # st) (merge_by (\<lambda>x y. func (kf h x) (kf h y) < 0) s r # rs)"
    using merge_top [OF assms] by blast
  moreover from this(2) have "refines_runs func h (r # s # rs) h' (merge_by (\<lambda>x y. func (kf h x) (kf h y) < 0) s r # rs)"
    by (auto simp: refines_runs_def asc_merge)
  ultimately show ?thesis
    by blast
qed

text \<open>The inner loop merges as many runs as the counter carries.\<close>

lemma collapse_ok:
  assumes "unat i = 2 ^ Suc k - 2 ^ j" and "j \<le> k" and "runs h st rs" and "k - j < length rs"
  shows "\<exists>h' st' rs'. collapse func i h st = Some (h', st') \<and> runs h' st' rs' \<and>
    refines_runs func h rs h' rs' \<and> length rs' = length rs - (k - j)"
  using assms
proof (induction "k - j" arbitrary: i j h st rs)
  case 0
  have "2 ^ j < (2 :: nat) ^ Suc k"
    using 0(3) by (intro power_strict_increasing) auto
  then have "i \<noteq> 0"
    using 0(2) by auto
  then have "unat (i AND (i - 1)) = 0"
    using and_pred [OF 0(3)] 0(1,2,3) by (simp add: unsigned_and_eq unat_minus_one)
  then have "i AND (i - 1) = 0"
    by (simp add: unat_eq_0)
  then show ?case
    using 0 by (subst collapse_eq) auto
next
  case (Suc d)
  have "2 ^ j < (2 :: nat) ^ Suc k" "2 ^ Suc j < (2 :: nat) ^ Suc k"
    using Suc(2) by (intro power_strict_increasing; simp)+
  then have "i \<noteq> 0" "2 ^ Suc k - 2 ^ Suc j \<noteq> (0 :: nat)"
    using Suc(3) by auto
  then have u: "unat (i AND (i - 1)) = 2 ^ Suc k - 2 ^ Suc j"
    using and_pred [OF Suc(4)] Suc(3) by (simp add: unsigned_and_eq unat_minus_one)
  then have nz: "i AND (i - 1) \<noteq> 0"
    using \<open>2 ^ Suc k - 2 ^ Suc j \<noteq> (0 :: nat)\<close> by (metis unsigned_0)
  obtain r s rs0 where rs: "rs = r # s # rs0"
    using Suc(2,6) by (cases rs; cases "tl rs") auto
  obtain b a st0 where st: "st = b # a # st0"
    using Suc(5) rs by (auto simp: runs_def list_all2_Cons1)
  obtain q h1 t where m: "sort_merge func h a b = Some (q, h1)" "runs h1 (q # st0) (t # rs0)"
      "refines_runs func h rs h1 (t # rs0)"
    using merge_top_refines [OF Suc(5) [unfolded st rs], of func] rs by blast
  obtain h' st' rs' where c: "collapse func (i AND (i - 1)) h1 (q # st0) = Some (h', st')" "runs h' st' rs'"
      "refines_runs func h1 (t # rs0) h' rs'" "length rs' = length (t # rs0) - (k - Suc j)"
  proof -
    have "d = k - Suc j" "Suc j \<le> k" "k - Suc j < length (t # rs0)"
      using Suc(2,6) rs by auto
    then show ?thesis
      using Suc(1) [OF _ u _ m(2)] that by blast
  qed
  have "collapse func i h st = Some (h', st')"
    using nz m(1) c(1) st by (subst collapse_eq) simp
  moreover have "length rs' = length rs - (k - j)"
    using c(4) rs Suc(2) by simp
  ultimately show ?case
    using refines_runs_trans [OF m(3) c(3)] c(2) by blast
qed

text \<open>The outer loop; nodes not yet looked at count as runs of one node.\<close>

abbreviation singles :: "addr list \<Rightarrow> addr list list" where
  "singles xs \<equiv> map (\<lambda>x. [x]) xs"

lemma concat_singles [simp]: "concat (singles xs) = xs"
  by (induction xs) simp_all

lemma refines_runs_prefix:
  assumes "refines_runs func h rs h' rs'"
  shows "refines_runs func h (ss @ rs) h' (ss @ rs')"
proof -
  note a = assms [unfolded refines_runs_def]
  have "relinked (set (concat (ss @ rs))) h h'"
    by (rule relinked_mono [OF a [THEN conjunct1]]) auto
  moreover have "mset (concat (ss @ rs')) = mset (concat (ss @ rs))"
    using a by simp
  moreover have "compare_cb func \<longrightarrow> (\<forall>r \<in> set (ss @ rs). asc func (kf h) r) \<longrightarrow> (\<forall>r \<in> set (ss @ rs'). asc func (kf h) r)"
    using a by auto
  ultimately show ?thesis
    unfolding refines_runs_def by blast
qed

lemma first_pair:
  assumes "chain h (x # y # zs) p" and "distinct (concat rs @ x # y # zs)" and "runs h st rs"
  obtains n m h2 r where "p = Some x" "h x = Some n" "nx n = Some y" "h y = Some m"
    "h2 = (if func (key x n) (key y m) < 0 then h(x \<mapsto> set_nx (Some y) n, y \<mapsto> set_nx None m)
           else h(y \<mapsto> set_nx (Some x) m, x \<mapsto> set_nx None n))"
    "chain h2 zs (nx m)" "runs h2 ((if func (key x n) (key y m) < 0 then Some x else Some y) # st) (r # rs)"
    "refines_runs func h (singles (x # y # zs) @ rs) h2 (singles zs @ r # rs)" "set r = {x, y}"
proof -
  obtain n m where nm: "p = Some x" "h x = Some n" "nx n = Some y" "h y = Some m" "chain h zs (nx m)"
    using assms(1) by auto
  define h2 where "h2 = (if func (key x n) (key y m) < 0 then h(x \<mapsto> set_nx (Some y) n, y \<mapsto> set_nx None m)
      else h(y \<mapsto> set_nx (Some x) m, x \<mapsto> set_nx None n))"
  define r where "r = (if func (key x n) (key y m) < 0 then [x, y] else [y, x])"
  have xy: "x \<noteq> y" "x \<notin> set zs" "y \<notin> set zs" "{x, y} \<inter> set (concat rs) = {}"
    using assms(2) by auto
  have "relinked {x, y} h h2"
    using relinked_trans [OF relinked_upd_nx [of h x n "{x, y}" "Some y"] relinked_upd_nx [of _ y m "{x, y}" None]]
      relinked_trans [OF relinked_upd_nx [of h y m "{x, y}" "Some x"] relinked_upd_nx [of _ x n "{x, y}" None]]
      nm xy(1) by (auto simp: h2_def)
  then have rel: "relinked {x, y} h h2" .
  have "runs h2 st rs"
    using xy(4) by (intro runs_frame [OF assms(3) rel]) auto
  moreover have "chain h2 r (if func (key x n) (key y m) < 0 then Some x else Some y)"
    using nm xy(1) by (auto simp: h2_def r_def)
  ultimately have "runs h2 ((if func (key x n) (key y m) < 0 then Some x else Some y) # st) (r # rs)"
    using xy by (auto simp: runs_def r_def)
  moreover have "refines_runs func h (singles (x # y # zs) @ rs) h2 (singles zs @ r # rs)"
    unfolding refines_runs_def
  proof (intro conjI impI)
    show "relinked (set (concat (singles (x # y # zs) @ rs))) h h2"
      using rel by (rule relinked_mono) auto
    assume c: "compare_cb func" and "\<forall>r \<in> set (singles (x # y # zs) @ rs). asc func (kf h) r"
    then have "\<forall>r \<in> set rs. asc func (kf h) r" by auto
    moreover have "asc func (kf h) r"
      using nm compare_cb.c_le [OF c, of "key y m" "key x n"] by (auto simp: r_def asc_def kf_def)
    ultimately show "\<forall>s \<in> set (singles zs @ r # rs). asc func (kf h) s"
      by (auto simp: asc_def)
  qed (auto simp: r_def)
  moreover have "chain h2 zs (nx m)"
    using nm(5) xy by (simp add: h2_def)
  moreover have "set r = {x, y}"
    by (auto simp: r_def)
  ultimately show ?thesis
    using that [OF nm(1-4) h2_def] by blast
qed

lemma ones_pos: "0 < n \<Longrightarrow> 0 < ones n"
proof (induction n rule: ones.induct)
  case (1 n)
  then show ?case
    by (subst ones.simps) (cases "n mod 2 = 0"; auto)
qed

lemma count_step:
  assumes "unat (k :: u32) < 2 ^ 31"
  shows "unat (k + 1) = Suc (unat k)" and "ones (unat k) < 32" and "carries (unat k) < Suc (ones (unat k))"
    and "unat ((k + 1) XOR k) = 2 ^ Suc (carries (unat k)) - 2 ^ 0"
    and "Suc (ones (unat k)) - carries (unat k) = ones (Suc (unat k))"
proof -
  show u: "unat (k + 1) = Suc (unat k)"
    using assms by (intro unat_Suc_less) simp
  show "ones (unat k) < 32"
    using ones_bound [OF assms] by simp
  show "carries (unat k) < Suc (ones (unat k))" "Suc (ones (unat k)) - carries (unat k) = ones (Suc (unat k))"
    using ones_Suc [of "unat k"] ones_pos [of "Suc (unat k)"] by linarith+
  have "unat ((k + 1) XOR k) = unat k XOR Suc (unat k)"
    by (simp add: unsigned_xor_eq u xor.commute)
  then show "unat ((k + 1) XOR k) = 2 ^ Suc (carries (unat k)) - 2 ^ 0"
    by (simp only: xor_Suc power_0)
qed

lemma sort_loop_ok:
  assumes "chain h xs p" and "runs h st rs" and "distinct (concat rs @ xs)" and "length rs = ones (unat k)"
    and "2 * unat k + length xs < 2 ^ 32"
  shows "\<exists>h' st' rs'. sort_loop func h p k st = Some (h', st') \<and> runs h' st' rs' \<and>
    refines_runs func h (singles xs @ rs) h' rs'"
  using assms
proof (induction xs arbitrary: h p st rs k rule: induct_list012)
  case 1
  then show ?case by (auto simp: sort_loop_None)
next
  case (2 x)
  then obtain n where n: "p = Some x" "h x = Some n" "nx n = None" by auto
  have "length st < 32"
    using count_step(2) [of k] 2(4,5) runs_length [OF 2(2)] by simp
  moreover have "runs h (Some x # st) ([x] # rs)"
    using 2 n by (auto simp: runs_def)
  ultimately show ?case
    using n sort_loop_one [of h x n func k st] by auto
next
  case (3 x y zs)
  obtain n m h2 r where f: "p = Some x" "h x = Some n" "nx n = Some y" "h y = Some m"
      "h2 = (if func (key x n) (key y m) < 0 then h(x \<mapsto> set_nx (Some y) n, y \<mapsto> set_nx None m)
             else h(y \<mapsto> set_nx (Some x) m, x \<mapsto> set_nx None n))"
      "chain h2 zs (nx m)" "runs h2 ((if func (key x n) (key y m) < 0 then Some x else Some y) # st) (r # rs)"
      "refines_runs func h (singles (x # y # zs) @ rs) h2 (singles zs @ r # rs)" "set r = {x, y}"
    using first_pair [OF 3(3,5,4), of func] .
  have k: "unat k < 2 ^ 31"
    using 3(7) by simp
  note cs = count_step [OF k]
  have "carries (unat k) - 0 < length (r # rs)"
    using cs(3) 3(6) by simp
  then obtain h3 st3 rs3 where c: "collapse func ((k + 1) XOR k) h2 ((if func (key x n) (key y m) < 0 then Some x else Some y) # st) = Some (h3, st3)"
      "runs h3 st3 rs3" "refines_runs func h2 (r # rs) h3 rs3" "length rs3 = length (r # rs) - (carries (unat k) - 0)"
    using collapse_ok [OF cs(4) _ f(7), of func] by blast
  have m3: "mset (concat rs3) = mset (concat (r # rs))"
    using c(3) by (simp add: refines_runs_def)
  then have s3: "set (concat rs3) = set (concat (r # rs))"
    by (metis set_mset_mset)
  have "chain h3 zs (nx m)"
  proof -
    have "relinked (set (concat (r # rs))) h2 h3"
      using c(3) unfolding refines_runs_def by blast
    moreover have "set zs \<inter> set (concat (r # rs)) = {}"
      using 3(5) f(9) by auto
    ultimately show ?thesis
      using f(6) relinked_chain by blast
  qed
  moreover have "distinct (concat rs3 @ zs)"
    using 3(5) c(2) s3 f(9) by (auto simp: runs_def)
  moreover have "length rs3 = ones (unat (k + 1))" "2 * unat (k + 1) + length zs < 2 ^ 32"
    using c(4) cs(1,5) 3(6,7) by simp_all
  ultimately obtain h' st' rs' where l: "sort_loop func h3 (nx m) (k + 1) st3 = Some (h', st')" "runs h' st' rs'"
      "refines_runs func h3 (singles zs @ rs3) h' rs'"
    using 3(1) [of h3 "nx m" st3 rs3 "k + 1"] c(2) by blast
  have "refines_runs func h (singles (x # y # zs) @ rs) h' rs'"
    using refines_runs_trans [OF refines_runs_trans [OF f(8) refines_runs_prefix [OF c(3)]] l(3)] .
  moreover have "length st < 32"
    using cs(2) 3(6) runs_length [OF 3(4)] by simp
  moreover have "x \<noteq> y"
    using 3(5) by auto
  ultimately have "sort_loop func h p k st = Some (h', st')"
    using sort_loop_two [of h x n y m func k st] f(2-4) c(1) l(1) by (simp only: f(1) f(5) [symmetric]) simp
  then show ?case
    using l(2) \<open>refines_runs func h (singles (x # y # zs) @ rs) h' rs'\<close> by blast
qed

lemma merge_all_ok:
  assumes "runs h st rs" and "rs \<noteq> []"
  shows "\<exists>q h' ys. merge_all func h st = Some (q, h') \<and> runs h' [q] [ys] \<and> refines_runs func h rs h' [ys]"
  using assms
proof (induction "length rs" arbitrary: h st rs rule: less_induct)
  case less
  then obtain q st0 r rs0 where st: "st = q # st0" "rs = r # rs0" "list_all2 (\<lambda>r q. r \<noteq> [] \<and> chain h r q) rs0 st0"
    by (cases rs) (auto simp: runs_def list_all2_Cons1)
  show ?case
  proof (cases rs0)
    case Nil
    then show ?thesis
      using st less.prems by (auto simp: merge_all_one)
  next
    case (Cons s rs1)
    then obtain a st1 where st0: "st0 = a # st1"
      using st(3) by (auto simp: list_all2_Cons1)
    obtain q' h1 t where m: "sort_merge func h a q = Some (q', h1)" "runs h1 (q' # st1) (t # rs1)"
        "refines_runs func h rs h1 (t # rs1)"
      using merge_top_refines [of h q a st1 r s rs1 func] less.prems(1) st st0 Cons by auto
    obtain q2 h' ys where "merge_all func h1 (q' # st1) = Some (q2, h')" "runs h' [q2] [ys]"
        "refines_runs func h1 (t # rs1) h' [ys]"
      using less.hyps [OF _ m(2)] st Cons by auto
    then show ?thesis
      using m refines_runs_trans [OF m(3)] st st0 by (auto simp: merge_all_more)
  qed
qed

lemma rebuild_ok:
  assumes "chain h xs p" and "distinct xs"
  shows "\<exists>h'. rebuild_prev h p q = Some (ptr_last q xs, h') \<and> dseg h' q xs None \<and> chain h' xs p \<and> relinked (set xs) h h'"
  using assms
proof (induction xs arbitrary: h p q)
  case Nil
  then show ?case by (simp add: rebuild_None)
next
  case (Cons x xs)
  then obtain n where n: "p = Some x" "h x = Some n" "chain h xs (nx n)" "x \<notin> set xs" "distinct xs" by auto
  define h1 where "h1 = h(x \<mapsto> set_pv q n)"
  have "chain h1 xs (nx n)"
    using n by (simp add: h1_def)
  then obtain h' where h': "rebuild_prev h1 (nx n) (Some x) = Some (ptr_last (Some x) xs, h')" "dseg h' (Some x) xs None"
      "chain h' xs (nx n)" "relinked (set xs) h1 h'"
    using Cons.IH n(5) by blast
  have "h' x = h1 x"
    using h'(4) n(4) by (rule relinked_frame)
  moreover have "relinked (set (x # xs)) h h'"
    using relinked_trans [OF relinked_upd_pv [of h x n "{x}" q] h'(4) [unfolded h1_def]] n(2) by simp
  ultimately show ?case
    using n h' rebuild_Some [of h x n q] chain_head [OF n(3)] by (auto simp: h1_def)
qed

text \<open>The whole sort.\<close>

lemma sort_ok:
  assumes "chain h xs p" and "distinct xs" and "xs \<noteq> []" and "length xs < 2 ^ 32"
  shows "\<exists>h1 st q h2 h3 ys. sort_loop func h p 0 [] = Some (h1, st) \<and> merge_all func h1 st = Some (q, h2) \<and>
    rebuild_prev h2 q None = Some (Some (last ys), h3) \<and> q = ptr_hd ys None \<and> dseg h3 None ys None \<and> mset ys = mset xs \<and>
    relinked (set xs) h h3 \<and> (compare_cb func \<longrightarrow> asc func (kf h) ys)"
proof -
  obtain h1 st rs where l: "sort_loop func h p 0 [] = Some (h1, st)" "runs h1 st rs" "refines_runs func h (singles xs) h1 rs"
    using sort_loop_ok [of h xs p "[]" "[]" 0 func] assms by (auto simp: runs_def)
  have "rs \<noteq> []"
    using l(3) assms(3) by (auto simp: refines_runs_def)
  then obtain q h2 ys where m: "merge_all func h1 st = Some (q, h2)" "runs h2 [q] [ys]" "refines_runs func h1 rs h2 [ys]"
    using merge_all_ok [OF l(2)] by blast
  have r: "refines_runs func h (singles xs) h2 [ys]"
    by (rule refines_runs_trans [OF l(3) m(3)])
  have ys: "chain h2 ys q" "distinct ys" "ys \<noteq> []" "mset ys = mset xs"
    using m(2) r by (auto simp: runs_def refines_runs_def)
  obtain h3 where b: "rebuild_prev h2 q None = Some (ptr_last None ys, h3)" "dseg h3 None ys None" "relinked (set ys) h2 h3"
    using rebuild_ok [OF ys(1,2), of None] by blast
  have "set ys = set xs"
    using ys(4) by (metis set_mset_mset)
  then have "relinked (set xs) h h3"
    using relinked_trans [of "set xs" h h2 "set ys" h3] r b(3) by (simp add: refines_runs_def)
  moreover have "compare_cb func \<longrightarrow> asc func (kf h) ys"
    using r by (auto simp: refines_runs_def asc_def)
  ultimately show ?thesis
    using l(1) m(1) b ys chain_head [OF ys(1)] by (auto simp: ptr_last_def)
qed

end

end
