(* ===== verification/Eina_Inlist_Laws.thy ===== *)
theory Eina_Inlist_Laws
  imports Eina_Inlist Linked_Sort
begin

text \<open>
  What the operations of the inline list do to the sequence of nodes: \<open>inlist h p xs\<close> says
  that \<open>p\<close> is the head of a well-formed list of the nodes \<open>xs\<close>. Each edit keeps the list
  well formed, performs the corresponding edit of the sequence, and touches no other node;
  the sort instantiates the merge sort of the locale \<open>list_sort\<close>.
\<close>

section \<open>Well-formed lists\<close>

interpretation il: links il_next il_prev set_next set_prev
  by unfold_locales auto

definition inlist :: "iheap \<Rightarrow> ptr \<Rightarrow> addr list \<Rightarrow> bool" where
  "inlist h p xs \<longleftrightarrow> distinct xs \<and> p = ptr_hd xs None \<and> il.dseg h None xs None \<and>
     (xs \<noteq> [] \<longrightarrow> (\<exists>n. h (hd xs) = Some n \<and> il_last n = Some (last xs)))"

definition edited :: "iheap \<Rightarrow> addr set \<Rightarrow> (ptr \<times> iheap) option \<Rightarrow> addr list \<Rightarrow> bool" where
  "edited h S r ys \<longleftrightarrow> (\<exists>p' h'. r = Some (p', h') \<and> inlist h' p' ys \<and> (\<forall>y. y \<notin> S \<longrightarrow> h' y = h y) \<and> dom h' = dom h)"

section \<open>Edits\<close>

text \<open>A list is empty, has one element, or has two different ends.\<close>

lemmas edit_defs = inlist_def edited_def eina_inlist_append_def eina_inlist_prepend_def
  eina_inlist_append_relative_def eina_inlist_prepend_relative_def eina_inlist_remove_def
  eina_inlist_promote_def eina_inlist_demote_def Let_def

lemma append_ok:
  assumes "inlist h p xs" and "x \<notin> set xs" and "h x = Some n"
  shows "edited h (insert x (set xs)) (eina_inlist_append h p (Some x)) (xs @ [x])"
  using assms by (cases xs rule: ends_cases) (auto simp: edit_defs)

lemma prepend_ok:
  assumes "inlist h p xs" and "x \<notin> set xs" and "h x = Some n"
  shows "edited h (insert x (set xs)) (eina_inlist_prepend h p (Some x)) (x # xs)"
  using assms by (cases xs) (auto simp: edit_defs)

lemma append_relative_ok:
  assumes "inlist h p (as @ r # bs)" and "x \<notin> set (as @ r # bs)" and "h x = Some n"
  shows "edited h (insert x (set (as @ r # bs))) (eina_inlist_append_relative h p (Some x) (Some r)) (as @ r # x # bs)"
  using assms by (cases as; cases bs) (auto simp: edit_defs)

lemma prepend_relative_ok:
  assumes "inlist h p (as @ r # bs)" and "x \<notin> set (as @ r # bs)" and "h x = Some n"
  shows "edited h (insert x (set (as @ r # bs))) (eina_inlist_prepend_relative h p (Some x) (Some r)) (as @ x # r # bs)"
  using assms by (cases as rule: ends_cases) (auto simp: edit_defs)

lemma remove_ok:
  assumes "inlist h p (as @ x # bs)"
  shows "edited h (set (as @ x # bs)) (eina_inlist_remove h p (Some x)) (as @ bs)"
  using assms by (cases as rule: ends_cases; cases bs) (auto simp: edit_defs)

lemma promote_ok:
  assumes "inlist h p (as @ x # bs)"
  shows "edited h (set (as @ x # bs)) (eina_inlist_promote h p (Some x)) (x # as @ bs)"
  using assms by (cases as rule: ends_cases; cases bs) (auto simp: edit_defs)

lemma demote_ok:
  assumes "inlist h p (as @ x # bs)"
  shows "edited h (set (as @ x # bs)) (eina_inlist_demote h p (Some x)) (as @ bs @ [x])"
  using assms by (cases as rule: ends_cases; cases bs rule: ends_cases) (auto simp: edit_defs)

section \<open>Reading\<close>

lemma inlist_chain: "inlist h p xs \<Longrightarrow> il.chain h xs p"
  by (auto simp: inlist_def intro: il.dseg_chain)

lemma find_chain:
  "il.chain h xs p \<Longrightarrow> eina_inlist_find h p (Some x) = Some (if x \<in> set xs then Some x else None)"
proof (induction xs arbitrary: p)
  case Nil
  then show ?case by (subst eina_inlist_find.simps) simp
next
  case (Cons y ys)
  then show ?case by (subst eina_inlist_find.simps) auto
qed

lemma count_chain: "il.chain h xs p \<Longrightarrow> inlist_count_from h p i = Some (i + of_nat (length xs))"
proof (induction xs arbitrary: p i)
  case Nil
  then show ?case by (subst inlist_count_from.simps) simp
next
  case (Cons y ys)
  then show ?case by (subst inlist_count_from.simps) (auto simp: add_ac)
qed

lemma walk_to_last_ok: "il.chain h (x # xs) p \<Longrightarrow> inlist_walk_to_last h p = Some (Some (last (x # xs)))"
proof (induction xs arbitrary: x p)
  case Nil
  then show ?case by (subst inlist_walk_to_last.simps) auto
next
  case (Cons y ys)
  then obtain n where "p = Some x" "h x = Some n" "il_next n = Some y" "il.chain h (y # ys) (il_next n)" by auto
  then show ?case
    using Cons.IH [of y "Some y"] by (subst inlist_walk_to_last.simps) auto
qed

lemma walk_next_ok:
  assumes "il.dseg h None xs None" and "i < length xs"
  shows "inlist_walk_next h k (Some (xs ! i)) = Some (if i + k < length xs then Some (xs ! (i + k)) else None)"
  using assms
proof (induction k arbitrary: i)
  case (Suc k)
  obtain n where n: "h (xs ! i) = Some n" "il_next n = (if Suc i < length xs then Some (xs ! Suc i) else None)"
    using il.dseg_node [OF Suc.prems] by metis
  show ?case
  proof (cases "Suc i < length xs")
    case True
    then show ?thesis
      using Suc n by simp
  next
    case False
    moreover have "inlist_walk_next h k None = Some None"
      by (cases k) simp_all
    ultimately show ?thesis
      using n by simp
  qed
qed simp

lemma walk_prev_ok:
  assumes "il.dseg h None xs None" and "i < length xs" and "k \<le> i"
  shows "inlist_walk_prev h k (Some (xs ! i)) = Some (Some (xs ! (i - k)))"
  using assms
proof (induction k arbitrary: i)
  case (Suc k)
  obtain n where n: "h (xs ! i) = Some n" "il_prev n = (if i = 0 then None else Some (xs ! (i - 1)))"
    using il.dseg_node [OF Suc.prems(1,2)] by metis
  then show ?case
    using Suc by simp
qed simp

text \<open>The accessor's cached position is a position of its list.\<close>

definition accessor_ok :: "iheap \<Rightarrow> addr list \<Rightarrow> inlist_accessor \<Rightarrow> bool" where
  "accessor_ok h xs ac \<longleftrightarrow> inlist h (ilac_head ac) xs \<and>
     (xs = [] \<longrightarrow> ilac_current ac = None) \<and>
     (xs \<noteq> [] \<longrightarrow> unat (ilac_index ac) < length xs \<and> ilac_current ac = Some (xs ! unat (ilac_index ac)))"

lemma accessor_new_ok: "inlist h p xs \<Longrightarrow> accessor_ok h xs (eina_inlist_accessor_new p)"
  by (cases xs) (auto simp: accessor_ok_def eina_inlist_accessor_new_def inlist_def)

lemma accessor_get_at_ok:
  assumes "accessor_ok h xs ac" 
  shows "\<exists>ac'. eina_inlist_accessor_get_at h ac idx =
      Some (if unat idx < length xs then Some (xs ! unat idx) else None, ac') \<and> accessor_ok h xs ac'"
proof (cases "xs = []")
  case True
  have "inlist_walk_next h k None = Some None" "inlist_walk_prev h k None = Some None" for k
    by (cases k; simp)+
  moreover have "ilac_current ac = None" "ilac_head ac = None"
    using assms True by (simp_all add: accessor_ok_def inlist_def)
  ultimately show ?thesis
    using True assms by (auto simp: eina_inlist_accessor_get_at_def)
next
  case False
  let ?i = "unat (ilac_index ac)" and ?k = "unat idx"
  have ac: "?i < length xs" "ilac_current ac = Some (xs ! ?i)" "il.dseg h None xs None" "ilac_head ac = Some (xs ! 0)"
    using assms False by (auto simp: accessor_ok_def inlist_def neq_Nil_conv)
  have gt: "inlist_walk_next h (unat (idx - ilac_index ac)) (ilac_current ac) =
      Some (if ?k < length xs then Some (xs ! ?k) else None)" if "ilac_index ac < idx"
    using walk_next_ok [OF ac(3,1), of "unat (idx - ilac_index ac)"] that ac(2)
    by (simp add: unat_sub word_less_nat_alt word_le_nat_alt)
  have lt: "inlist_walk_prev h (unat (ilac_index ac - idx)) (ilac_current ac) = Some (Some (xs ! ?k))"
      "?k < length xs" if "idx < ilac_index ac"
    using walk_prev_ok [OF ac(3,1), of "unat (ilac_index ac - idx)"] that ac(1,2)
    by (simp_all add: unat_sub word_less_nat_alt word_le_nat_alt)
  have st: "inlist_walk_next h ?k (ilac_head ac) = Some (if ?k < length xs then Some (xs ! ?k) else None)"
    using walk_next_ok [OF ac(3), of 0 ?k] ac(1,4) by (cases xs) auto
  have "ilac_index ac = idx \<Longrightarrow> ?k < length xs"
    using ac(1) by simp
  then show ?thesis
    using gt lt st ac assms False unfolding eina_inlist_accessor_get_at_def
    by (auto simp: accessor_ok_def linorder_not_less order_le_less)
qed

section \<open>Sorting\<close>

interpretation il_sort: list_sort il_next il_prev set_next set_prev "\<lambda>x n. x"
  inlist_merge_loop eina_inlist_sort_merge inlist_collapse inlist_sort_loop inlist_merge_all inlist_rebuild_prev
proof (unfold_locales, goal_cases)
  case (2 a b func h l)
  then show ?case by (subst inlist_merge_loop.simps) (auto split: option.split)
next
  case (3 h x n y m func l)
  then show ?case by (subst inlist_merge_loop.simps) simp
next
  case (4 h x n y m func)
  then show ?case by (simp add: eina_inlist_sort_merge_def map_conv_bind_option comp_def)
next
  case (5 func i h st)
  show ?case by (subst inlist_collapse.simps) (rule refl)
next
  case (6 func h k st)
  show ?case by (subst inlist_sort_loop.simps) simp
next
  case (7 h x n func k st)
  then show ?case by (subst inlist_sort_loop.simps) (simp add: stack_push_def EINA_INLIST_SORT_STACK_SIZE_def)
next
  case (8 h x n y m func k st)
  then show ?case
    by (subst inlist_sort_loop.simps) (simp add: stack_push_def EINA_INLIST_SORT_STACK_SIZE_def)
next
  case (9 func h q)
  show ?case by (subst inlist_merge_all.simps) simp
next
  case (10 func h b a st)
  show ?case by (subst inlist_merge_all.simps) simp
next
  case (11 h p)
  show ?case by (subst inlist_rebuild_prev.simps) simp
next
  case (12 h x n p)
  then show ?case by (subst inlist_rebuild_prev.simps) simp
qed auto

lemma inlist_sort_ok:
  assumes "inlist h p xs" and "length xs < 2 ^ 32"
  shows "\<exists>p' h' ys. eina_inlist_sort (Some func) h p = Some (p', h') \<and> inlist h' p' ys \<and> mset ys = mset xs \<and>
    (compare_cb func \<longrightarrow> sorted_wrt (\<lambda>x y. func x y \<le> 0) ys) \<and> (\<forall>y. y \<notin> set xs \<longrightarrow> h' y = h y)"
proof (cases "xs = []")
  case True
  then show ?thesis
    using assms by (auto simp: eina_inlist_sort_def inlist_def)
next
  case False
  have d: "distinct xs" "p \<noteq> None"
    using assms(1) False by (auto simp: inlist_def)
  obtain h1 st q h2 h3 ys where s: "inlist_sort_loop func h p 0 [] = Some (h1, st)"
      "inlist_merge_all func h1 st = Some (q, h2)" "inlist_rebuild_prev h2 q None = Some (Some (last ys), h3)"
      "q = ptr_hd ys None" "il.dseg h3 None ys None" "mset ys = mset xs" "il_sort.relinked (set xs) h h3"
      "compare_cb func \<longrightarrow> il_sort.asc func (il_sort.kf h) ys"
    using il_sort.sort_ok [OF inlist_chain [OF assms(1)] d(1) False assms(2), of func] by blast
  have ys: "ys \<noteq> []" "distinct ys" "set ys = set xs"
    using s(6) False d(1) by (auto dest: mset_eq_imp_distinct_iff mset_eq_setD)
  then obtain y ys' n where y: "ys = y # ys'" "h3 y = Some n" "q = Some y"
    using s(4,5) by (cases ys) auto
  define h' where "h' = h3(y \<mapsto> set_last (Some (last ys)) n)"
  have "eina_inlist_sort (Some func) h p = Some (q, h')"
    using s(1-3) d(2) y by (auto simp: eina_inlist_sort_def eina_inlist_sort_rebuild_prev_def h'_def)
  moreover have "il.dseg h' None ys None"
    using s(5) il.dseg_upd_same [of h3 y n "set_last (Some (last ys)) n"] y by (simp add: h'_def)
  then have "inlist h' q ys"
    using ys y s(4) by (auto simp: inlist_def h'_def)
  moreover have "\<forall>z. z \<notin> set xs \<longrightarrow> h' z = h z"
    using il_sort.relinked_frame [OF s(7)] ys(3) y(1) by (auto simp: h'_def)
  ultimately show ?thesis
    using s(6,8) by (auto simp: il_sort.asc_def il_sort.kf_def)
qed

end
