(* ===== verification/Eina_Inlist_Sorted.thy ===== *)
theory Eina_Inlist_Sorted
  imports Eina_Inlist_Laws
begin

text \<open>
  Sorted insertion into an inline list: the jump table holds every \<open>jump_div\<close>-th node, the
  search in the table and the search from node to node are the same dichotomic search, and
  the item goes to a place that keeps the order.
\<close>

section \<open>The jump table\<close>

lemma compact_fold:
  assumes "m \<le> length t div 2"
  shows "length (fold (\<lambda>j t. t[j := t ! (2 * j)]) [1..<m] t) = length t" (is "length ?t = _")
    and "k < length t \<Longrightarrow> fold (\<lambda>j t. t[j := t ! (2 * j)]) [1..<m] t ! k = (if 1 \<le> k \<and> k < m then t ! (2 * k) else t ! k)"
  using assms
proof (induction m arbitrary: k)
  case (Suc m)
  {
    case 1
    then show ?case
      using Suc.IH(1) by (cases "m = 0") simp_all
  next
    case 2
    show ?case
    proof (cases "m = 0")
      case False
      then have "2 * m < length t" "m < length t" "\<not> (1 \<le> 2 * m \<and> 2 * m < m)"
        using 2 by auto
      then show ?thesis
        using False 2 Suc.IH(1) Suc.IH(2) [of k] Suc.IH(2) [of "2 * m"] by (auto simp: nth_list_update)
    qed simp
  }
qed simp_all

text \<open>After \<open>i\<close> nodes: the entries in use, and where the next one comes.\<close>

definition table_ok :: "addr list \<Rightarrow> nat \<Rightarrow> sorted_state \<Rightarrow> bool" where
  "table_ok xs i st \<longleftrightarrow> length (jump_table st) = EINA_INLIST_JUMP_SIZE \<and> jump_limit st \<le> EINA_INLIST_JUMP_SIZE \<and>
     0 < jump_div st \<and> jump_div st \<le> max 1 i \<and> i \<le> jump_limit st * jump_div st \<and> jump_limit st * jump_div st < i + jump_div st \<and>
     (\<forall>k < jump_limit st. jump_table st ! k = Some (xs ! (k * jump_div st)))"

lemma compact_ok:
  assumes "table_ok xs i st" and "jump_limit st = EINA_INLIST_JUMP_SIZE" and "i = jump_limit st * jump_div st"
    and "i \<le> INT_MAX"
  obtains st' where "sorted_state_compact st = Some st'" "table_ok xs i st'" "jump_limit st' < EINA_INLIST_JUMP_SIZE"
    "i = jump_limit st' * jump_div st'"
proof -
  have l: "length (jump_table st) = 256" "jump_limit st = 256" "0 < jump_div st"
      "\<forall>k < 256. jump_table st ! k = Some (xs ! (k * jump_div st))"
    using assms by (simp_all add: table_ok_def EINA_INLIST_JUMP_SIZE_def)
  have f: "fold (\<lambda>j t. t[j := t ! (2 * j)]) [1..<128] (jump_table st) ! k = jump_table st ! (2 * k)" if "k < 128" for k
    using compact_fold(2) [of 128 "jump_table st" k] l(1) that by (cases "k = 0") simp_all
  let ?t = "fold (\<lambda>j t. t[j := t ! (2 * j)]) [1..<EINA_INLIST_JUMP_SIZE div 2] (jump_table st)"
  let ?st = "st\<lparr>jump_div := jump_div st * 2, jump_limit := jump_limit st div 2, jump_table := ?t\<rparr>"
  have "jump_div st * 2 \<le> INT_MAX" using assms(3,4) l(2) by simp
  then have "sorted_state_compact st = Some ?st" by (simp add: sorted_state_compact_def)
  moreover have "table_ok xs i ?st"
    using l f assms(3) compact_fold(1) [of 128 "jump_table st"]
    by (simp add: table_ok_def EINA_INLIST_JUMP_SIZE_def mult_ac)
  ultimately show thesis
    using that [of ?st] l assms(3) by (simp add: EINA_INLIST_JUMP_SIZE_def)
qed

lemma jump_add_ok:
  assumes "table_ok xs i st" and "jump_limit st < EINA_INLIST_JUMP_SIZE" and "i = jump_limit st * jump_div st"
  shows "\<exists>st'. jump_add st (Some (xs ! i)) = Some st' \<and> table_ok xs (Suc i) st' \<and>
    Suc i + jump_div st' - jump_limit st' * jump_div st' = 1"
  using assms by (auto simp: jump_add_def table_ok_def nth_list_update less_Suc_eq)

lemma init_loop_ok:
  assumes "il.chain h (drop i xs) p" and "i \<le> length xs" and "table_ok xs i st"
    and "jc = i + jump_div st - jump_limit st * jump_div st" and "length xs < INT_MAX"
  shows "\<exists>st'. state_init_loop h p st jc i = Some (length xs, st') \<and> table_ok xs (length xs) st'"
  using assms
proof (induction "length xs - i" arbitrary: i p st jc)
  case 0
  then have "i = length xs" "p = None" by auto
  then show ?case
    using 0 by (subst state_init_loop.simps) (auto simp: table_ok_def)
next
  case (Suc d)
  then have i: "i < length xs" by simp
  then have dr: "drop i xs = xs ! i # drop (Suc i) xs"
    by (simp add: Cons_nth_drop_Suc)
  then obtain n where n: "p = Some (xs ! i)" "h (xs ! i) = Some n" "il.chain h (drop (Suc i) xs) (il_next n)"
    using Suc.prems(1) by auto
  have d: "d = length xs - Suc i" "Suc i \<le> length xs"
    using Suc(2) i by auto
  show ?case
  proof (cases "jc = jump_div st")
    case True
    then have hit: "i = jump_limit st * jump_div st"
      using Suc.prems(3,4) by (auto simp: table_ok_def)
    obtain st0 where st0: "(if jump_limit st = EINA_INLIST_JUMP_SIZE then sorted_state_compact st else Some st) = Some st0"
        "table_ok xs i st0" "jump_limit st0 < EINA_INLIST_JUMP_SIZE" "i = jump_limit st0 * jump_div st0"
    proof (cases "jump_limit st = EINA_INLIST_JUMP_SIZE")
      case True
      have le: "i \<le> INT_MAX" using i Suc.prems(5) by simp
      show thesis
        by (rule compact_ok [OF Suc.prems(3) True hit le]) (use True that in auto)
    next
      case False
      then show thesis using Suc.prems(3) hit by (intro that) (auto simp: table_ok_def)
    qed
    then obtain st' where st': "jump_add st0 (Some (xs ! i)) = Some st'" "table_ok xs (Suc i) st'"
        "Suc i + jump_div st' - jump_limit st' * jump_div st' = 1"
      using jump_add_ok by blast
    have "Suc i \<le> INT_MAX" "Suc 0 \<le> INT_MAX" using i Suc.prems(5) by simp_all
    then show ?thesis
      using Suc.hyps(1) [OF d(1) n(3) d(2) st'(2) st'(3) [symmetric] Suc.prems(5)] True n st0(1) st'(1)
      by (subst state_init_loop.simps) simp
  next
    case False
    then have "table_ok xs (Suc i) st"
      using Suc.prems(3,4) by (auto simp: table_ok_def)
    moreover have jc: "Suc jc = Suc i + jump_div st - jump_limit st * jump_div st"
      using Suc.prems(3,4) by (auto simp: table_ok_def)
    moreover have "Suc jc \<le> Suc i" "Suc i \<le> INT_MAX"
      using Suc.prems(3-5) i False by (auto simp: table_ok_def)
    ultimately show ?thesis
      using Suc.hyps(1) [OF d(1) n(3) d(2) _ _ Suc.prems(5)] False n by (subst state_init_loop.simps) simp
  qed
qed

lemma state_init_ok:
  assumes "inlist h p xs" and "length xs < INT_MAX"
  shows "\<exists>st. eina_inlist_sorted_state_init h eina_inlist_sorted_state_new p = Some (length xs, st) \<and>
    table_ok xs (length xs) st"
  using init_loop_ok [of h 0 xs p eina_inlist_sorted_state_new 1] inlist_chain [OF assms(1)] assms(2)
  by (simp add: eina_inlist_sorted_state_init_def eina_inlist_sorted_state_new_def table_ok_def EINA_INLIST_JUMP_SIZE_def)

section \<open>The searches\<close>

lemma table_search_ok:
  assumes "\<forall>k < n. table ! k = Some (T k)" and "n \<le> length table" and "0 \<le> lo" and "hi < int n" and "n \<le> INT_MAX"
  shows "table_search func table it lo hi (cur, Some (T (nat cur)), cmp) =
    (case bsearch (\<lambda>j. func (T (nat j)) it) lo hi (cur, cmp) of (m, v) \<Rightarrow> Some (m, Some (T (nat m)), v))"
  using assms
proof (induction "\<lambda>j. func (T (nat j)) it" lo hi "(cur, cmp)" arbitrary: cur cmp rule: bsearch.induct)
  case (1 lo hi cur cmp)
  define k where "k = lo + (hi - lo) div 2"
  show ?case
  proof (cases "lo \<le> hi")
    case True
    then have k: "0 \<le> k" "nat k < n" "lo \<le> k" "k \<le> hi"
      using 1(5,6) by (auto simp: k_def)
    then have t: "table ! nat k = Some (T (nat k))" "nat k < length table"
      using 1(3,4) by auto
    have "in_int (hi - lo)" "in_int (k + 1)"
      using 1(5-7) k True by (auto simp: in_int_def)
    then show ?thesis
      using 1(1) [OF True k_def refl] 1(2) [OF True k_def refl] k t True 1(3-7)
      by (subst table_search.simps, subst bsearch.simps) (simp add: Let_def flip: k_def)
  next
    case False
    then show ?thesis
      by (subst table_search.simps, subst bsearch.simps) simp
  qed
qed

lemma node_search_ok:
  assumes "il.dseg h None xs None" and "0 \<le> lo" and "hi < int (length xs)" and "0 \<le> cur" and "cur < int (length xs)"
    and "length xs \<le> INT_MAX"
  shows "node_search func h it lo hi (cur, Some (xs ! nat cur), cmp) =
    (case bsearch (\<lambda>j. func (xs ! nat j) it) lo hi (cur, cmp) of (m, v) \<Rightarrow> Some (m, Some (xs ! nat m), v))"
  using assms
proof (induction "\<lambda>j. func (xs ! nat j) it" lo hi "(cur, cmp)" arbitrary: cur cmp rule: bsearch.induct)
  case (1 lo hi cur cmp)
  define k where "k = lo + (hi - lo) div 2"
  show ?case
  proof (cases "lo \<le> hi")
    case True
    then have k: "0 \<le> k" "nat k < length xs" "lo \<le> k" "k \<le> hi" "k < int (length xs)"
      using 1(4,5) by (auto simp: k_def)
    have w: "(if cur < k then inlist_walk_next h (nat (k - cur)) (Some (xs ! nat cur))
        else inlist_walk_prev h (nat (cur - k)) (Some (xs ! nat cur))) = Some (Some (xs ! nat k))"
    proof -
      have "nat cur < length xs" "cur < k \<Longrightarrow> nat cur + nat (k - cur) = nat k"
          "\<not> cur < k \<Longrightarrow> nat (cur - k) \<le> nat cur \<and> nat cur - nat (cur - k) = nat k"
        using 1(6,7) k by linarith+
      then show ?thesis
        using walk_next_ok [OF 1(3), of "nat cur" "nat (k - cur)"] walk_prev_ok [OF 1(3), of "nat cur" "nat (cur - k)"] k
        by simp
    qed
    have "in_int (hi - lo)" "in_int (k + 1)"
      using 1(4,5,8) k True by (auto simp: in_int_def)
    then show ?thesis
      using 1(1) [OF True k_def refl] 1(2) [OF True k_def refl] k w True 1(3-8)
      by (subst node_search.simps, subst bsearch.simps) (simp add: Let_def flip: k_def)
  next
    case False
    then show ?thesis
      by (subst node_search.simps, subst bsearch.simps) simp
  qed
qed

section \<open>Insertion\<close>

context compare_cb
begin

lemma after_ge:
  assumes "ascending xs" "i \<le> j" "j < length xs" "0 \<le> c (xs ! i) d"
  shows "0 \<le> c (xs ! j) d"
proof (cases "i = j")
  case False
  then have "c (xs ! i) (xs ! j) \<le> 0"
    using assms by (intro sorted_wrt_nth_less [of "\<lambda>x y. c x y \<le> 0"]) simp_all
  then show ?thesis
    using assms(4) c_trans [of d "xs ! i" "xs ! j"] by (simp add: c_le [of d])
qed (use assms in simp)

lemma before_le:
  assumes "ascending xs" "i \<le> j" "j < length xs" "c (xs ! j) d \<le> 0"
  shows "c (xs ! i) d \<le> 0"
proof (cases "i = j")
  case False
  then have "c (xs ! i) (xs ! j) \<le> 0"
    using assms by (intro sorted_wrt_nth_less [of "\<lambda>x y. c x y \<le> 0"]) simp_all
  then show ?thesis
    using assms(4) c_trans by blast
qed (use assms in simp)

text \<open>What the search in the table says about the window of the second search.\<close>

lemma window_ok:
  assumes xs: "ascending xs" and D: "0 < D" "length xs \<le> L * D" "L * D < length xs + D"
    and b: "beside (\<lambda>j. c (xs ! (nat j * D)) d) (int L) (m, v)" and nz: "\<not> (m = 0 \<and> v > 0)"
  defines "lo \<equiv> max 0 (m * int D - int D - 1)"
    and "hi \<equiv> min (int (length xs) - 1) (m * int D + int D + 1)"
  shows "\<forall>j. 0 \<le> j \<and> j < lo \<longrightarrow> c (xs ! nat j) d \<le> 0"
    and "\<forall>j. hi < j \<and> j < int (length xs) \<longrightarrow> 0 \<le> c (xs ! nat j) d"
    and "0 \<le> lo" "hi < int (length xs)" "lo \<le> hi" "m * int D < int (length xs)"
proof -
  obtain M where M: "m = int M"
    using b by (auto simp: beside_def intro: nonneg_int_cases)
  then have m: "0 \<le> m" "M < L" "v = c (xs ! (M * D)) d" "m = int M"
    using b by (auto simp: beside_def)
  have "Suc M * D \<le> L * D"
    using m(2) by (intro mult_le_mono1) simp
  then have MD: "M * D < length xs"
    using D(3) by simp
  have mD: "m * int D = int (M * D)"
    using m(4) by simp
  then show "m * int D < int (length xs)" "0 \<le> lo" "hi < int (length xs)" "lo \<le> hi"
    using MD by (auto simp: lo_def hi_def M simp flip: of_nat_mult)
  show "\<forall>j. 0 \<le> j \<and> j < lo \<longrightarrow> c (xs ! nat j) d \<le> 0"
  proof (intro allI impI)
    fix j assume "0 \<le> j \<and> j < lo"
    then have j: "0 \<le> j \<and> j < int (M * D) - int D - 1"
      unfolding lo_def mD by linarith
    show "c (xs ! nat j) d \<le> 0"
    proof (cases "v \<le> 0")
      case True
      then show ?thesis
        using before_le [OF xs _ MD, of "nat j" d] j m(3) True by (simp add: nat_le_iff)
    next
      case False
      then obtain k where k: "M = Suc k"
        using nz m(4) by (cases M) auto
      have "c (xs ! (nat (int k) * D)) d \<le> 0"
        using b False k m(1) unfolding beside_def by (metis fst_conv snd_conv less_Suc_eq m(4) not_le of_nat_0_le_iff of_nat_less_iff)
      moreover have "nat j \<le> k * D"
        using j k by (simp add: nat_le_iff)
      moreover have "k * D < length xs"
        using MD k by simp
      ultimately show ?thesis
        using before_le [OF xs, of "nat j" "k * D" d] by simp
    qed
  qed
  show "\<forall>j. hi < j \<and> j < int (length xs) \<longrightarrow> 0 \<le> c (xs ! nat j) d"
  proof (intro allI impI)
    fix j assume j: "hi < j \<and> j < int (length xs)"
    then have "int (M * D + D) + 1 < j" "j < int (length xs)"
      unfolding hi_def mD by linarith+
    then obtain J where "j = int J" "M * D + D < J" "J < length xs"
      by (cases j) (auto simp flip: of_nat_mult of_nat_add)
    then have jM: "nat j < length xs" "M * D \<le> nat j" "Suc M * D \<le> nat j"
      by simp_all
    show "0 \<le> c (xs ! nat j) d"
    proof (cases "v \<ge> 0")
      case True
      then show ?thesis
        using after_ge [OF xs jM(2,1), of d] m(3) by simp
    next
      case False
      have "Suc M < L"
      proof (rule ccontr)
        assume "\<not> Suc M < L"
        then have "Suc M = L" using m(2) by simp
        then show False
          using jM(1,3) D(2) by simp
      qed
      then have "0 \<le> c (xs ! (nat (int (Suc M)) * D)) d"
        using b False m(4) unfolding beside_def fst_conv snd_conv
        by (metis lessI linorder_not_le of_nat_less_iff)
      then have "0 \<le> c (xs ! (Suc M * D)) d"
        by (simp only: nat_int)
      then show ?thesis
        by (rule after_ge [OF xs jM(3,1)])
    qed
  qed
qed

end

lemma insert_at_split:
  assumes "inlist h p xs" and "x \<notin> set xs" and "h x = Some n" and "m < length xs"
  shows "edited h (insert x (set xs)) (eina_inlist_append_relative h p (Some x) (Some (xs ! m)))
      (take (Suc m) xs @ x # drop (Suc m) xs)"
    and "edited h (insert x (set xs)) (eina_inlist_prepend_relative h p (Some x) (Some (xs ! m)))
      (take m xs @ x # drop m xs)"
proof -
  have e: "xs = take m xs @ xs ! m # drop (Suc m) xs"
    using assms(4) by (rule id_take_nth_drop)
  have "edited h (insert x (set xs)) (eina_inlist_append_relative h p (Some x) (Some (xs ! m)))
      (take m xs @ xs ! m # x # drop (Suc m) xs)"
    using append_relative_ok [of h p "take m xs" "xs ! m" "drop (Suc m) xs" x n] assms(1-3) e by metis
  then show "edited h (insert x (set xs)) (eina_inlist_append_relative h p (Some x) (Some (xs ! m)))
      (take (Suc m) xs @ x # drop (Suc m) xs)"
    using assms(4) by (simp add: take_Suc_conv_app_nth)
  have "edited h (insert x (set xs)) (eina_inlist_prepend_relative h p (Some x) (Some (xs ! m)))
      (take m xs @ x # xs ! m # drop (Suc m) xs)"
    using prepend_relative_ok [of h p "take m xs" "xs ! m" "drop (Suc m) xs" x n] assms(1-3) e by metis
  then show "edited h (insert x (set xs)) (eina_inlist_prepend_relative h p (Some x) (Some (xs ! m)))
      (take m xs @ x # drop m xs)"
    using assms(4) by (simp add: Cons_nth_drop_Suc)
qed

lemma sorted_insert_many:
  assumes c: "compare_cb func" and l: "inlist h p xs" and srt: "sorted_wrt (\<lambda>x y. func x y \<le> 0) xs"
    and x: "x \<notin> set xs" "h x = Some n" and len: "2 \<le> length xs" and small: "length xs < 2 ^ 30"
  shows "\<exists>i. splits_at func x xs i \<and>
    edited h (insert x (set xs)) (eina_inlist_sorted_insert (Some func) h p (Some x)) (take i xs @ x # drop i xs)"
proof -
  obtain y z zs where xs: "xs = y # z # zs"
    using len by (cases xs; cases "tl xs") auto
  obtain ny where y: "p = Some y" "h y = Some ny" "il_next ny = Some z" "il_last ny = Some (last xs)"
    using l xs by (auto simp: inlist_def)
  obtain st where st: "eina_inlist_sorted_state_init h eina_inlist_sorted_state_new p = Some (length xs, st)"
      "table_ok xs (length xs) st"
    using state_init_ok [OF l] small by (auto simp: INT_MAX_def)
  let ?D = "jump_div st" and ?L = "jump_limit st"
  have t: "0 < ?D" "length xs \<le> ?L * ?D" "?L * ?D < length xs + ?D" "?L \<le> length (jump_table st)"
      "\<forall>k < ?L. jump_table st ! k = Some (xs ! (k * ?D))"
    using st(2) by (auto simp: table_ok_def)
  have DL: "?D \<le> length xs" "?L \<le> INT_MAX" "length xs \<le> INT_MAX"
    using st(2) len small by (auto simp: table_ok_def EINA_INLIST_JUMP_SIZE_def INT_MAX_def)
  have L: "0 < ?L"
    using t(2) len by (cases "?L = 0") auto
  let ?g = "\<lambda>j. func (xs ! (nat j * ?D)) x"
  obtain m v where mv: "bsearch ?g 0 (int ?L - 1) (0, func (xs ! 0) x) = (m, v)" by fastforce
  have sm: "sign_mono (\<lambda>j. func (xs ! nat j) x) (int (length xs))"
    by (rule compare_cb.sign_mono_ascending [OF c srt])
  have "sign_mono ?g (int ?L)"
    unfolding sign_mono_def
  proof (intro allI impI)
    fix i j assume ij: "0 \<le> i \<and> i \<le> j \<and> j < int ?L"
    then have "nat i \<le> nat j" "Suc (nat j) \<le> ?L"
      by linarith+
    then have "nat i * ?D \<le> nat j * ?D" "Suc (nat j) * ?D \<le> ?L * ?D"
      by (simp_all only: mult_le_mono1)
    then have "0 \<le> int (nat i * ?D)" "int (nat i * ?D) \<le> int (nat j * ?D)" "int (nat j * ?D) < int (length xs)"
      using t(3) by (simp_all flip: of_nat_mult)
    then show "(?g j < 0 \<longrightarrow> ?g i < 0) \<and> (0 < ?g i \<longrightarrow> 0 < ?g j)"
      using sm [unfolded sign_mono_def, rule_format, of "int (nat i * ?D)" "int (nat j * ?D)"] by (simp only: nat_int) blast
  qed
  then have b: "beside ?g (int ?L) (m, v)"
    using bsearch_beside [of ?g "int ?L" 0 "int ?L - 1" "(0, func (xs ! 0) x)"] L mv by simp
  have ts: "table_search func (jump_table st) x 0 (int ?L - 1) (0, Some (xs ! 0), func (xs ! 0) x) =
      Some (m, Some (xs ! (nat m * ?D)), v)"
    using table_search_ok [OF t(5,4), of 0 "int ?L - 1" func x 0 "func (xs ! 0) x"] mv DL(2) by simp
  let ?r = "eina_inlist_sorted_insert (Some func) h p (Some x)"
  let ?lo = "max 0 (m * int ?D - int ?D - 1)" and ?hi = "min (int (length xs) - 1) (m * int ?D + int ?D + 1)"
  have t0: "jump_table st ! 0 = Some (xs ! 0)" and m: "0 \<le> m" "v = func (xs ! (nat m * ?D)) x"
    using t(5) L b by (auto simp: beside_def)
  have r: "?r = (if m = 0 \<and> v > 0 then eina_inlist_prepend_relative h p (Some x) (Some (xs ! (nat m * ?D)))
      else if v < 0 \<and> xs ! (nat m * ?D) = last xs then eina_inlist_append h p (Some x)
      else if \<not> (in_int (m * int ?D) \<and> in_int (m * int ?D - int ?D - 1) \<and> in_int (m * int ?D + int ?D + 1)) then None
      else do {
        (cur, ct, cmp) \<leftarrow> node_search func h x ?lo ?hi (m * int ?D, Some (xs ! (nat m * ?D)), v);
        (if cmp \<le> 0 then eina_inlist_append_relative h p (Some x) ct
         else eina_inlist_prepend_relative h p (Some x) ct) })"
    using st(1) y t0 ts by (simp add: eina_inlist_sorted_insert_def Let_def cong: if_cong split del: if_split)
  consider "m = 0" "v > 0" | "\<not> (m = 0 \<and> v > 0)" "v < 0" "xs ! (nat m * ?D) = last xs"
    | "\<not> (m = 0 \<and> v > 0)" "\<not> (v < 0 \<and> xs ! (nat m * ?D) = last xs)" by blast
  then show ?thesis
  proof cases
    case 1
    have "beside (\<lambda>j. func (xs ! nat j) x) (int (length xs)) (0, v)"
      using 1 m len by (auto simp: beside_def)
    then have "splits_at func x xs 0"
      using compare_cb.beside_splits [OF c srt] 1(2) by fastforce
    then show ?thesis
      using insert_at_split(2) [OF l x, of 0] 1 len r by (intro exI [of _ 0]) (cases "xs = []"; simp)
  next
    case 2
    note w = compare_cb.window_ok [OF c srt t(1-3) b 2(1)]
    have "nat m * ?D < length xs"
      using w(6) m(1) by (cases m) (auto simp flip: of_nat_mult)
    then have e: "nat m * ?D = length xs - 1"
      using 2(3) l len by (metis diff_less inlist_def last_conv_nth length_greater_0_conv nth_eq_iff_index_eq less_numeral_extra(1) list.size(3) not_numeral_le_zero)
    have "nat (int (length xs - 1)) = nat m * ?D"
      by (simp only: nat_int e)
    then have "beside (\<lambda>j. func (xs ! nat j) x) (int (length xs)) (int (length xs - 1), v)"
      using 2(2) m(2) len unfolding beside_def fst_conv snd_conv by (auto simp: of_nat_diff)
    then have "splits_at func x xs (if v \<le> 0 then Suc (nat (int (length xs - 1))) else nat (int (length xs - 1)))"
      by (rule compare_cb.beside_splits [OF c srt])
    moreover have "Suc (length xs - 1) = length xs"
      using len by simp
    ultimately have "splits_at func x xs (length xs)"
      using 2(2) by (simp only: nat_int) simp
    then show ?thesis
      using append_ok [OF l x] 2 r by (intro exI [of _ "length xs"]) simp
  next
    case 3
    note w = compare_cb.window_ok [OF c srt t(1-3) b 3(1)]
    obtain k u where ku: "bsearch (\<lambda>j. func (xs ! nat j) x) ?lo ?hi (m * int ?D, v) = (k, u)" by fastforce
    have nb: "beside (\<lambda>j. func (xs ! nat j) x) (int (length xs)) (k, u)"
      using bsearch_beside [OF sm w(3,4,1,2), of "(m * int ?D, v)"] w(5) ku by simp
    then have k: "nat k < length xs" "splits_at func x xs (if u \<le> 0 then Suc (nat k) else nat k)"
      using compare_cb.beside_splits [OF c srt nb] by (auto simp: beside_def)
    have "nat (m * int ?D) = nat m * ?D"
      using m(1) by (simp add: nat_mult_distrib)
    then have ns: "node_search func h x ?lo ?hi (m * int ?D, Some (xs ! (nat m * ?D)), v) = Some (k, Some (xs ! nat k), u)"
      using node_search_ok [of h xs ?lo ?hi "m * int ?D" func x v] w l m(1) ku DL(3) by (simp add: inlist_def)
    have "0 \<le> m * int ?D" using m(1) by simp
    then have "in_int (m * int ?D) \<and> in_int (m * int ?D - int ?D - 1) \<and> in_int (m * int ?D + int ?D + 1)"
      using w(6) DL(1) small by (simp add: in_int_def INT_MAX_def)
    then show ?thesis
      using insert_at_split [OF l x k(1)] k(2) 3 r ns by (cases "u \<le> 0") auto
  qed
qed

lemma sorted_insert_ok:
  assumes c: "compare_cb func" and l: "inlist h p xs" and srt: "sorted_wrt (\<lambda>x y. func x y \<le> 0) xs"
    and x: "x \<notin> set xs" "h x = Some n" and small: "length xs < 2 ^ 30"
  shows "\<exists>i. splits_at func x xs i \<and>
    edited h (insert x (set xs)) (eina_inlist_sorted_insert (Some func) h p (Some x)) (take i xs @ x # drop i xs)"
proof (cases "2 \<le> length xs")
  case True
  then show ?thesis
    by (rule sorted_insert_many [OF c l srt x _ small])
next
  case False
  show ?thesis
  proof (cases xs)
    case Nil
    then show ?thesis
      using append_ok [OF l x] l by (auto simp: splits_at_def eina_inlist_sorted_insert_def inlist_def)
  next
    case (Cons y ys)
    then have y: "xs = [y]"
      using False by (cases ys) auto
    then obtain ny where ny: "p = Some y" "h y = Some ny" "il_next ny = None"
      using l by (auto simp: inlist_def)
    have "0 \<le> func x y" if "func y x < 0"
      using that compare_cb.c_anti [OF c, of y x] by simp
    moreover have "func x y \<le> 0" if "\<not> func y x < 0"
      using that compare_cb.c_le [OF c, of x y] by simp
    ultimately show ?thesis
      using append_ok [OF l x] prepend_ok [OF l x] ny y
      by (cases "func y x < 0") (auto simp: splits_at_def eina_inlist_sorted_insert_def intro: exI [of _ "Suc 0"] exI [of _ 0])
  qed
qed

end
