(* ===== verification/Eina_Inlist_Props.thy ===== *)
theory Eina_Inlist_Props
  imports Eina_Inlist_Sorted
begin

text \<open>
  The properties of the inline list: sequences of edits refine edits of a sequence, the sort
  sorts within its stack, sorted insertion keeps the order, and iterator and accessor reach
  the nodes in order and by index.
\<close>

section \<open>Sequences of edits\<close>

datatype edit =
    Append addr
  | Prepend addr
  | Append_Relative addr addr
  | Prepend_Relative addr addr
  | Remove addr
  | Promote addr
  | Demote addr

fun apply_edit :: "edit \<Rightarrow> iheap \<Rightarrow> ptr \<Rightarrow> (ptr \<times> iheap) option" where
  "apply_edit (Append x) h p = eina_inlist_append h p (Some x)"
| "apply_edit (Prepend x) h p = eina_inlist_prepend h p (Some x)"
| "apply_edit (Append_Relative x r) h p = eina_inlist_append_relative h p (Some x) (Some r)"
| "apply_edit (Prepend_Relative x r) h p = eina_inlist_prepend_relative h p (Some x) (Some r)"
| "apply_edit (Remove x) h p = eina_inlist_remove h p (Some x)"
| "apply_edit (Promote x) h p = eina_inlist_promote h p (Some x)"
| "apply_edit (Demote x) h p = eina_inlist_demote h p (Some x)"

fun run_edits :: "edit list \<Rightarrow> iheap \<Rightarrow> ptr \<Rightarrow> (ptr \<times> iheap) option" where
  "run_edits [] h p = Some (p, h)"
| "run_edits (e # es) h p = do { (p', h') \<leftarrow> apply_edit e h p; run_edits es h' p' }"

text \<open>The same edits on a plain sequence.\<close>

fun seq_edit :: "edit \<Rightarrow> addr list \<Rightarrow> addr list" where
  "seq_edit (Append x) xs = xs @ [x]"
| "seq_edit (Prepend x) xs = x # xs"
| "seq_edit (Append_Relative x r) xs = insert_after r x xs"
| "seq_edit (Prepend_Relative x r) xs = insert_before r x xs"
| "seq_edit (Remove x) xs = remove1 x xs"
| "seq_edit (Promote x) xs = x # remove1 x xs"
| "seq_edit (Demote x) xs = remove1 x xs @ [x]"

text \<open>New nodes exist and are not in the list; the others are.\<close>

fun legal :: "addr set \<Rightarrow> edit \<Rightarrow> addr list \<Rightarrow> bool" where
  "legal D (Append x) xs \<longleftrightarrow> x \<in> D \<and> x \<notin> set xs"
| "legal D (Prepend x) xs \<longleftrightarrow> x \<in> D \<and> x \<notin> set xs"
| "legal D (Append_Relative x r) xs \<longleftrightarrow> x \<in> D \<and> x \<notin> set xs \<and> r \<in> set xs"
| "legal D (Prepend_Relative x r) xs \<longleftrightarrow> x \<in> D \<and> x \<notin> set xs \<and> r \<in> set xs"
| "legal D (Remove x) xs \<longleftrightarrow> x \<in> set xs"
| "legal D (Promote x) xs \<longleftrightarrow> x \<in> set xs"
| "legal D (Demote x) xs \<longleftrightarrow> x \<in> set xs"

fun legal_run :: "addr set \<Rightarrow> edit list \<Rightarrow> addr list \<Rightarrow> bool" where
  "legal_run D [] xs \<longleftrightarrow> True"
| "legal_run D (e # es) xs \<longleftrightarrow> legal D e xs \<and> legal_run D es (seq_edit e xs)"

fun nodes_of :: "edit \<Rightarrow> addr set" where
  "nodes_of (Append x) = {x}"
| "nodes_of (Prepend x) = {x}"
| "nodes_of (Append_Relative x r) = {x}"
| "nodes_of (Prepend_Relative x r) = {x}"
| "nodes_of _ = {}"

lemma edited_mono: "edited h S r ys \<Longrightarrow> S \<subseteq> T \<Longrightarrow> edited h T r ys"
  unfolding edited_def by blast

lemma edit_ok:
  assumes "inlist h p xs" and "legal (dom h) e xs"
  shows "edited h (set xs \<union> nodes_of e) (apply_edit e h p) (seq_edit e xs)"
proof -
  have at: "\<exists>as bs. xs = as @ r # bs \<and> r \<notin> set as" if "r \<in> set xs" for r
    using that by (meson split_list_first)
  show ?thesis
  proof (cases e)
    case (Append x)
    then show ?thesis
      using assms append_ok [OF assms(1), of x] by auto
  next
    case (Prepend x)
    then show ?thesis
      using assms prepend_ok [OF assms(1), of x] by auto
  next
    case (Append_Relative x r)
    then obtain as bs n where "xs = as @ r # bs" "r \<notin> set as" "x \<notin> set xs" "h x = Some n"
      using assms(2) at [of r] by auto
    then show ?thesis
      using assms(1) Append_Relative append_relative_ok [of h p as r bs x n] by simp
  next
    case (Prepend_Relative x r)
    then obtain as bs n where "xs = as @ r # bs" "r \<notin> set as" "x \<notin> set xs" "h x = Some n"
      using assms(2) at [of r] by auto
    then show ?thesis
      using assms(1) Prepend_Relative prepend_relative_ok [of h p as r bs x n] by simp
  next
    case (Remove x)
    then obtain as bs where "xs = as @ x # bs" "x \<notin> set as"
      using assms(2) at [of x] by auto
    then show ?thesis
      using assms(1) Remove remove_ok [of h p as x bs] by simp
  next
    case (Promote x)
    then obtain as bs where "xs = as @ x # bs" "x \<notin> set as"
      using assms(2) at [of x] by auto
    then show ?thesis
      using assms(1) Promote promote_ok [of h p as x bs] by simp
  next
    case (Demote x)
    then obtain as bs where "xs = as @ x # bs" "x \<notin> set as"
      using assms(2) at [of x] by auto
    then show ?thesis
      using assms(1) Demote demote_ok [of h p as x bs] by simp
  qed
qed

lemma seq_edit_nodes: "legal D e xs \<Longrightarrow> set (seq_edit e xs) \<subseteq> set xs \<union> nodes_of e"
  by (cases e) (auto dest: set_inserts [THEN subsetD] set_remove1_subset [THEN subsetD])

lemma run_edits_ok:
  assumes "inlist h p xs" and "legal_run (dom h) es xs"
  shows "edited h (set xs \<union> (\<Union>e \<in> set es. nodes_of e)) (run_edits es h p) (fold seq_edit es xs)"
  using assms
proof (induction es arbitrary: h p xs)
  case Nil
  then show ?case by (auto simp: edited_def)
next
  case (Cons e es)
  obtain p' h' where s: "apply_edit e h p = Some (p', h')" "inlist h' p' (seq_edit e xs)"
      "\<forall>y. y \<notin> set xs \<union> nodes_of e \<longrightarrow> h' y = h y" "dom h' = dom h"
    using edit_ok [of h p xs e] Cons.prems unfolding edited_def by auto
  have "edited h' (set (seq_edit e xs) \<union> (\<Union>e \<in> set es. nodes_of e)) (run_edits es h' p') (fold seq_edit es (seq_edit e xs))"
    using Cons.IH [OF s(2)] Cons.prems s(4) by simp
  moreover have "set (seq_edit e xs) \<subseteq> set xs \<union> nodes_of e"
    using Cons.prems by (auto dest!: seq_edit_nodes)
  ultimately show ?case
    using s unfolding edited_def by fastforce
qed

section \<open>Properties\<close>

text \<open>A heap of unlinked nodes, for the witnesses.\<close>

definition fresh :: iheap where
  "fresh = (\<lambda>a. if a < 8 then Some \<lparr>il_next = None, il_prev = None, il_last = None\<rparr> else None)"

lemma inlist_Nil [simp]: "inlist h None []"
  by (simp add: inlist_def)

lemma dom_fresh [simp]: "dom fresh = {..<8}"
  by (auto simp: fresh_def split: if_splits)

definition three :: "ptr \<times> iheap" where
  "three = the (run_edits [Append 3, Append 1, Append 2] fresh None)"

lemma three_ok: "inlist (snd three) (fst three) [3, 1, 2]" "dom (snd three) = {..<8}"
proof -
  obtain p h where "run_edits [Append 3, Append 1, Append 2] fresh None = Some (p, h)" "inlist h p [3, 1, 2]" "dom h = {..<8}"
    using run_edits_ok [of fresh None "[]" "[Append 3, Append 1, Append 2]"]
    by (auto simp: edited_def simp del: run_edits.simps)
  then show "inlist (snd three) (fst three) [3, 1, 2]" "dom (snd three) = {..<8}"
    by (simp_all add: three_def del: run_edits.simps)
qed

text \<open>
  C8. Any sequence of legal \<open>append\<close>, \<open>prepend\<close>, \<open>append_relative\<close>, \<open>prepend_relative\<close>,
  \<open>remove\<close>, \<open>promote\<close> and \<open>demote\<close> calls runs without touching a null or dangling pointer,
  leaves a well-formed list whose nodes are those of the same edits on a plain sequence, and
  changes no node that is neither in the list nor inserted.
\<close>

theorem inlist_edits_refine_sequence:
  assumes "inlist h p xs" and "legal_run (dom h) es xs"
  shows "\<exists>p' h'. run_edits es h p = Some (p', h') \<and> inlist h' p' (fold seq_edit es xs) \<and>
    (\<forall>y. y \<notin> set xs \<union> (\<Union>e \<in> set es. nodes_of e) \<longrightarrow> h' y = h y)"
  using run_edits_ok [OF assms] unfolding edited_def by blast

theorem inlist_edits_refine_sequence_witness:
  "\<exists>p' h'. run_edits [Append 3, Prepend 1, Append_Relative 2 1, Prepend_Relative 5 1, Promote 3, Demote 5, Remove 1]
     fresh None = Some (p', h') \<and> inlist h' p' [3, 2, 5]"
  using inlist_edits_refine_sequence [of fresh None "[]"
      "[Append 3, Prepend 1, Append_Relative 2 1, Prepend_Relative 5 1, Promote 3, Demote 5, Remove 1]"]
  by (simp del: run_edits.simps) blast

text \<open>
  C12. \<open>eina_inlist_sort\<close> never overruns its stack of 32 pointers for a list below \<open>2 ^ 32\<close>
  nodes, ends for every callback with a well-formed list of the same nodes and no other node
  changed, and sorts them when the callback is a total preorder.
\<close>

theorem inlist_sort_sorts:
  assumes "inlist h p xs" and "length xs < 2 ^ 32"
  shows "\<exists>p' h' ys. eina_inlist_sort (Some func) h p = Some (p', h') \<and> inlist h' p' ys \<and> mset ys = mset xs \<and>
    (compare_cb func \<longrightarrow> sorted_wrt (\<lambda>x y. func x y \<le> 0) ys) \<and> (\<forall>y. y \<notin> set xs \<longrightarrow> h' y = h y)"
  using assms by (rule inlist_sort_ok)

lemma int_diff_compare: "compare_cb (\<lambda>x y. int x - int y)"
  by unfold_locales auto

theorem inlist_sort_sorts_witness:
  "\<exists>p' h' ys. eina_inlist_sort (Some (\<lambda>x y. int x - int y)) (snd three) (fst three) = Some (p', h') \<and>
     inlist h' p' ys \<and> mset ys = {#1, 2, 3#} \<and> sorted ys"
  using inlist_sort_sorts [OF three_ok(1), of "\<lambda>x y. int x - int y"] int_diff_compare
  by (auto simp: add_mset_commute)

text \<open>
  C24. \<open>eina_inlist_sorted_insert\<close> on an ordered list ends, links the item into the list and
  keeps it ordered, for lists of fewer than \<open>2^30\<close> nodes: the jump table and the \<open>int\<close>s that count
  nodes never overflow, and both dichotomic searches stay inside the list.
\<close>

theorem inlist_sorted_insert_keeps_order:
  assumes "compare_cb func" and "inlist h p xs" and "sorted_wrt (\<lambda>x y. func x y \<le> 0) xs"
    and "x \<notin> set xs" and "x \<in> dom h" and "length xs < 2 ^ 30"
  shows "\<exists>p' h' ys. eina_inlist_sorted_insert (Some func) h p (Some x) = Some (p', h') \<and> inlist h' p' ys \<and>
    mset ys = add_mset x (mset xs) \<and> sorted_wrt (\<lambda>x y. func x y \<le> 0) ys"
proof -
  obtain n where "h x = Some n"
    using assms(5) by auto
  then obtain i where i: "splits_at func x xs i"
      "edited h (insert x (set xs)) (eina_inlist_sorted_insert (Some func) h p (Some x)) (take i xs @ x # drop i xs)"
    using sorted_insert_ok [OF assms(1-4)] assms(6) by blast
  have "mset (take i xs @ x # drop i xs) = add_mset x (mset xs)"
    by (metis append_take_drop_id mset.simps(2) mset_append union_mset_add_mset_right)
  then show ?thesis
    using i(2) compare_cb.splits_insert [OF assms(1,3) i(1)] unfolding edited_def by blast
qed

theorem inlist_sorted_insert_keeps_order_witness:
  "\<exists>p' h' ys. eina_inlist_sorted_insert (Some (\<lambda>x y. int (x mod 3) - int (y mod 3))) (snd three) (fst three) (Some 4) =
     Some (p', h') \<and> inlist h' p' ys \<and> mset ys = {#1, 2, 3, 4#} \<and> sorted (map (\<lambda>x. x mod 3) ys)"
proof -
  have "compare_cb (\<lambda>x y. int (x mod 3) - int (y mod 3))"
    by unfold_locales auto
  then show ?thesis
    using inlist_sorted_insert_keeps_order [OF _ three_ok(1), of "\<lambda>x y. int (x mod 3) - int (y mod 3)" 4] three_ok(2)
    by (auto simp: sorted_wrt_map add_mset_commute)
qed

text \<open>
  The accessor: whatever positions were asked for before, \<open>eina_inlist_accessor_get_at\<close>
  returns the node at the index asked for, or nothing past the end of the list.
\<close>

fun get_all :: "iheap \<Rightarrow> inlist_accessor \<Rightarrow> u32 list \<Rightarrow> ptr list option" where
  "get_all h ac [] = Some []"
| "get_all h ac (i # is) = do {
     (r, ac) \<leftarrow> eina_inlist_accessor_get_at h ac i;
     rs \<leftarrow> get_all h ac is;
     Some (r # rs) }"

lemma get_all_ok:
  assumes "accessor_ok h xs ac"
  shows "get_all h ac is = Some (map (\<lambda>i. if unat i < length xs then Some (xs ! unat i) else None) is)"
  using assms
proof (induction "is" arbitrary: ac)
  case (Cons i "is")
  then show ?case
    using accessor_get_at_ok [OF Cons.prems, of i] by auto
qed simp

theorem inlist_accessor_gets_nth:
  assumes "inlist h p xs"
  shows "get_all h (eina_inlist_accessor_new p) is =
    Some (map (\<lambda>i. if unat i < length xs then Some (xs ! unat i) else None) is)"
  using get_all_ok [OF accessor_new_ok [OF assms]] .

theorem inlist_accessor_gets_nth_witness:
  "get_all (snd three) (eina_inlist_accessor_new (fst three)) [2, 1, 0, 7] = Some [Some 2, Some 1, Some 3, None]"
  using inlist_accessor_gets_nth [OF three_ok(1), of "[2, 1, 0, 7]"] by simp

text \<open>
  C25. The iterator ends: a loop over \<open>eina_inlist_iterator_next\<close> visits every node once, in
  order, and stops.
\<close>

partial_function (option) iterate :: "iheap \<Rightarrow> inlist_iterator \<Rightarrow> addr list option" where
  [code]: "iterate h it = do {
     (r, it) \<leftarrow> eina_inlist_iterator_next h it;
     (case r of None \<Rightarrow> Some [] | Some x \<Rightarrow> do { xs \<leftarrow> iterate h it; Some (x # xs) }) }"

lemma iterate_chain: "il.chain h xs p \<Longrightarrow> iterate h \<lparr>ilit_head = q, ilit_current = p\<rparr> = Some xs"
proof (induction xs arbitrary: p)
  case Nil
  then show ?case by (subst iterate.simps) (simp add: eina_inlist_iterator_next_def)
next
  case (Cons x xs)
  then show ?case by (subst iterate.simps) (auto simp: eina_inlist_iterator_next_def)
qed

theorem inlist_iterator_visits_all:
  assumes "inlist h p xs"
  shows "iterate h (eina_inlist_iterator_new p) = Some xs"
  using iterate_chain [OF inlist_chain [OF assms]] by (simp add: eina_inlist_iterator_new_def)

theorem inlist_iterator_visits_all_witness:
  "iterate (snd three) (eina_inlist_iterator_new (fst three)) = Some [3, 1, 2]"
  by (rule inlist_iterator_visits_all [OF three_ok(1)])

end
