(* ===== verification/Eina_List.thy ===== *)
theory Eina_List
  imports Linked
begin

text \<open>
  The list of \<open>src/lib/shared/data/eina_list.c\<close>: nodes that hold a data pointer and are linked
  in both directions, and one accounting record per list, with the last node and the number of
  nodes. The state has a heap for the nodes and one for the accountings, and the addresses the
  memory pools will hand out; an exhausted pool is out of memory. Freed cells leave the heap, so
  that using one is \<open>None\<close>, like any access through a null pointer. Magic numbers are right.
\<close>

unbundle bit_operations_syntax

section \<open>State\<close>

record 'd lnode =
  l_data :: 'd
  l_next :: ptr
  l_prev :: ptr
  l_acc :: ptr

record acct =
  a_last :: ptr
  a_count :: u32

record 'd lstate =
  l_nodes :: "'d lnode heap"
  l_accts :: "acct heap"
  l_pool :: "addr list"
  l_apool :: "addr list"

definition node_at :: "'d lstate \<Rightarrow> ptr \<Rightarrow> 'd lnode option" where
  "node_at s p = deref (l_nodes s) p"

definition acct_at :: "'d lstate \<Rightarrow> ptr \<Rightarrow> acct option" where
  "acct_at s p = deref (l_accts s) p"

definition set_node :: "'d lstate \<Rightarrow> ptr \<Rightarrow> ('d lnode \<Rightarrow> 'd lnode) \<Rightarrow> 'd lstate option" where
  "set_node s p f = map_option (\<lambda>h. s\<lparr>l_nodes := h\<rparr>) (store (l_nodes s) p f)"

definition set_acct :: "'d lstate \<Rightarrow> ptr \<Rightarrow> (acct \<Rightarrow> acct) \<Rightarrow> 'd lstate option" where
  "set_acct s p f = map_option (\<lambda>h. s\<lparr>l_accts := h\<rparr>) (store (l_accts s) p f)"

text \<open>\<open>if (p) p->field = v;\<close>\<close>

definition set_if :: "'d lstate \<Rightarrow> ptr \<Rightarrow> ('d lnode \<Rightarrow> 'd lnode) \<Rightarrow> 'd lstate option" where
  "set_if s p f = (if p \<noteq> None then set_node s p f else Some s)"

abbreviation to_next :: "ptr \<Rightarrow> 'd lnode \<Rightarrow> 'd lnode" where
  "to_next p \<equiv> l_next_update (\<lambda>_. p)"

abbreviation to_prev :: "ptr \<Rightarrow> 'd lnode \<Rightarrow> 'd lnode" where
  "to_prev p \<equiv> l_prev_update (\<lambda>_. p)"

abbreviation to_acc :: "ptr \<Rightarrow> 'd lnode \<Rightarrow> 'd lnode" where
  "to_acc p \<equiv> l_acc_update (\<lambda>_. p)"

abbreviation to_last :: "ptr \<Rightarrow> acct \<Rightarrow> acct" where
  "to_last p \<equiv> a_last_update (\<lambda>_. p)"

section \<open>Memory pools and accounting\<close>

text \<open>\<open>_eina_list_mempool_list_new\<close>; the callers store \<open>data\<close> in the node before they read it.\<close>

definition list_new :: "'d lstate \<Rightarrow> 'd \<Rightarrow> ptr \<times> 'd lstate" where
  "list_new s data =
     (case l_pool s of
        [] \<Rightarrow> (None, s)
      | a # as \<Rightarrow>
          (Some a, s\<lparr>l_pool := as,
             l_nodes := (l_nodes s)(a \<mapsto> \<lparr>l_data = data, l_next = None, l_prev = None, l_acc = None\<rparr>)\<rparr>))"

definition accounting_new :: "'d lstate \<Rightarrow> ptr \<times> 'd lstate" where
  "accounting_new s =
     (case l_apool s of
        [] \<Rightarrow> (None, s)
      | a # as \<Rightarrow> (Some a, s\<lparr>l_apool := as, l_accts := (l_accts s)(a \<mapsto> \<lparr>a_last = None, a_count = 0\<rparr>)\<rparr>))"

definition accounting_free :: "'d lstate \<Rightarrow> ptr \<Rightarrow> 'd lstate option" where
  "accounting_free s p = do { a \<leftarrow> p; _ \<leftarrow> l_accts s a; Some (s\<lparr>l_accts := (l_accts s)(a := None)\<rparr>) }"

text \<open>\<open>_eina_list_mempool_list_free\<close>.\<close>

definition list_free :: "'d lstate \<Rightarrow> ptr \<Rightarrow> 'd lstate option" where
  "list_free s p = do {
     n \<leftarrow> node_at s p;
     s \<leftarrow> (if l_acc n \<noteq> None then do {
             s \<leftarrow> set_acct s (l_acc n) (a_count_update (\<lambda>c. c - 1));
             a \<leftarrow> acct_at s (l_acc n);
             (if a_count a = 0 then accounting_free s (l_acc n) else Some s) }
           else Some s);
     a \<leftarrow> p;
     Some (s\<lparr>l_nodes := (l_nodes s)(a := None)\<rparr>) }"

definition setup_accounting :: "'d lstate \<Rightarrow> ptr \<Rightarrow> (ptr \<times> 'd lstate) option" where
  "setup_accounting s l =
     (case accounting_new s of (a, s) \<Rightarrow> do {
        s \<leftarrow> set_node s l (to_acc a);
        (if a = None then do { s \<leftarrow> list_free s l; Some (None, s) }
         else do {
           s \<leftarrow> set_acct s a (to_last l);
           s \<leftarrow> set_acct s a (a_count_update (\<lambda>_. 1));
           Some (l, s) }) })"

definition update_accounting :: "'d lstate \<Rightarrow> ptr \<Rightarrow> ptr \<Rightarrow> 'd lstate option" where
  "update_accounting s l new_l = do {
     n \<leftarrow> node_at s l;
     s \<leftarrow> set_acct s (l_acc n) (a_count_update (\<lambda>c. c + 1));
     set_node s new_l (to_acc (l_acc n)) }"

section \<open>Editing\<close>

definition eina_list_append :: "'d lstate \<Rightarrow> ptr \<Rightarrow> 'd \<Rightarrow> (ptr \<times> 'd lstate) option" where
  "eina_list_append s l data =
     (case list_new s data of (new_l, s) \<Rightarrow>
        if new_l = None then Some (l, s)
        else do {
          s \<leftarrow> set_node s new_l (to_next None);
          (if l = None then do {
             s \<leftarrow> set_node s new_l (to_prev None);
             setup_accounting s new_l }
           else do {
             n \<leftarrow> node_at s l;
             a \<leftarrow> acct_at s (l_acc n);
             s \<leftarrow> set_acct s (l_acc n) (to_last new_l);
             s \<leftarrow> set_node s (a_last a) (to_next new_l);
             s \<leftarrow> set_node s new_l (to_prev (a_last a));
             s \<leftarrow> update_accounting s l new_l;
             Some (l, s) }) })"

definition eina_list_prepend :: "'d lstate \<Rightarrow> ptr \<Rightarrow> 'd \<Rightarrow> (ptr \<times> 'd lstate) option" where
  "eina_list_prepend s l data =
     (case list_new s data of (new_l, s) \<Rightarrow>
        if new_l = None then Some (l, s)
        else do {
          s \<leftarrow> set_node s new_l (to_prev None);
          s \<leftarrow> set_node s new_l (to_next l);
          (if l = None then setup_accounting s new_l
           else do {
             s \<leftarrow> set_node s l (to_prev new_l);
             s \<leftarrow> update_accounting s l new_l;
             Some (new_l, s) }) })"

definition eina_list_append_relative_list :: "'d lstate \<Rightarrow> ptr \<Rightarrow> 'd \<Rightarrow> ptr \<Rightarrow> (ptr \<times> 'd lstate) option" where
  "eina_list_append_relative_list s l data relative =
     (if l = None \<or> relative = None then eina_list_append s l data
      else
        (case list_new s data of (new_l, s) \<Rightarrow>
           if new_l = None then Some (l, s)
           else do {
             r \<leftarrow> node_at s relative;
             s \<leftarrow> set_node s new_l (to_next (l_next r));
             s \<leftarrow> set_if s (l_next r) (to_prev new_l);
             s \<leftarrow> set_node s relative (to_next new_l);
             s \<leftarrow> set_node s new_l (to_prev relative);
             s \<leftarrow> update_accounting s l new_l;
             n \<leftarrow> node_at s new_l;
             s \<leftarrow> (if l_next n = None then set_acct s (l_acc n) (to_last new_l) else Some s);
             Some (l, s) }))"

definition eina_list_prepend_relative_list :: "'d lstate \<Rightarrow> ptr \<Rightarrow> 'd \<Rightarrow> ptr \<Rightarrow> (ptr \<times> 'd lstate) option" where
  "eina_list_prepend_relative_list s l data relative =
     (if l = None \<or> relative = None then eina_list_prepend s l data
      else
        (case list_new s data of (new_l, s) \<Rightarrow>
           if new_l = None then Some (l, s)
           else do {
             r \<leftarrow> node_at s relative;
             s \<leftarrow> set_node s new_l (to_prev (l_prev r));
             s \<leftarrow> set_node s new_l (to_next relative);
             s \<leftarrow> set_if s (l_prev r) (to_next new_l);
             s \<leftarrow> set_node s relative (to_prev new_l);
             s \<leftarrow> update_accounting s l new_l;
             n \<leftarrow> node_at s new_l;
             Some (if l_prev n \<noteq> None then l else new_l, s) }))"

text \<open>\<open>EINA_LIST_FOREACH\<close> up to the first node whose data satisfies the predicate.\<close>

partial_function (option) list_find_node :: "'d lstate \<Rightarrow> ptr \<Rightarrow> ('d \<Rightarrow> bool) \<Rightarrow> ptr option" where
  [code]: "list_find_node s l P =
     (if l = None then Some None
      else do {
        n \<leftarrow> node_at s l;
        (if P (l_data n) then Some l else list_find_node s (l_next n) P) })"

definition eina_list_data_find_list :: "'d lstate \<Rightarrow> ptr \<Rightarrow> 'd \<Rightarrow> ptr option" where
  "eina_list_data_find_list s l data = list_find_node s l (\<lambda>d. d = data)"

definition eina_list_append_relative :: "'d lstate \<Rightarrow> ptr \<Rightarrow> 'd \<Rightarrow> 'd \<Rightarrow> (ptr \<times> 'd lstate) option" where
  "eina_list_append_relative s l data relative = do {
     r \<leftarrow> list_find_node s l (\<lambda>d. d = relative);
     (if r \<noteq> None then eina_list_append_relative_list s l data r else eina_list_append s l data) }"

definition eina_list_prepend_relative :: "'d lstate \<Rightarrow> ptr \<Rightarrow> 'd \<Rightarrow> 'd \<Rightarrow> (ptr \<times> 'd lstate) option" where
  "eina_list_prepend_relative s l data relative = do {
     r \<leftarrow> list_find_node s l (\<lambda>d. d = relative);
     (if r \<noteq> None then eina_list_prepend_relative_list s l data r else eina_list_prepend s l data) }"

definition eina_list_remove_list :: "'d lstate \<Rightarrow> ptr \<Rightarrow> ptr \<Rightarrow> (ptr \<times> 'd lstate) option" where
  "eina_list_remove_list s l remove_list =
     (if l = None then Some (None, s)
      else if remove_list = None then Some (l, s)
      else do {
        r \<leftarrow> node_at s remove_list;
        s \<leftarrow> set_if s (l_next r) (to_prev (l_prev r));
        r \<leftarrow> node_at s remove_list;
        s \<leftarrow> set_if s (l_prev r) (to_next (l_next r));
        (let return_l = (if l_prev r \<noteq> None then l else l_next r) in do {
           r \<leftarrow> node_at s remove_list;
           a \<leftarrow> acct_at s (l_acc r);
           n \<leftarrow> node_at s l;
           s \<leftarrow> (if remove_list = a_last a then set_acct s (l_acc n) (to_last (l_prev r)) else Some s);
           s \<leftarrow> list_free s remove_list;
           Some (return_l, s) }) })"

definition eina_list_remove :: "'d lstate \<Rightarrow> ptr \<Rightarrow> 'd \<Rightarrow> (ptr \<times> 'd lstate) option" where
  "eina_list_remove s l data = do {
     r \<leftarrow> eina_list_data_find_list s l data;
     eina_list_remove_list s l r }"

partial_function (option) list_free_all :: "'d lstate \<Rightarrow> ptr \<Rightarrow> 'd lstate option" where
  [code]: "list_free_all s l =
     (if l = None then Some s
      else do {
        n \<leftarrow> node_at s l;
        s \<leftarrow> list_free s l;
        list_free_all s (l_next n) })"

definition eina_list_free :: "'d lstate \<Rightarrow> ptr \<Rightarrow> (ptr \<times> 'd lstate) option" where
  "eina_list_free s l = do { s \<leftarrow> list_free_all s l; Some (None, s) }"

definition eina_list_promote_list :: "'d lstate \<Rightarrow> ptr \<Rightarrow> ptr \<Rightarrow> (ptr \<times> 'd lstate) option" where
  "eina_list_promote_list s l move_list =
     (if l = None then Some (None, s)
      else if move_list = None then Some (l, s)
      else if move_list = l then Some (l, s)
      else do {
        m \<leftarrow> node_at s move_list;
        (if l_next m = l then Some (move_list, s)
         else do {
           s \<leftarrow> (if l_prev m = None then set_node s (l_next m) (to_prev None)
                 else do {
                   s \<leftarrow> set_node s (l_prev m) (to_next (l_next m));
                   n \<leftarrow> node_at s l;
                   a \<leftarrow> acct_at s (l_acc n);
                   m \<leftarrow> node_at s move_list;
                   (if move_list = a_last a then set_acct s (l_acc n) (to_last (l_prev m))
                    else set_node s (l_next m) (to_prev (l_prev m))) });
           s \<leftarrow> set_node s move_list (to_next l);
           n \<leftarrow> node_at s l;
           s \<leftarrow> set_node s move_list (to_prev (l_prev n));
           s \<leftarrow> set_node s l (to_prev move_list);
           m \<leftarrow> node_at s move_list;
           s \<leftarrow> set_if s (l_prev m) (to_next move_list);
           Some (move_list, s) }) })"

definition eina_list_demote_list :: "'d lstate \<Rightarrow> ptr \<Rightarrow> ptr \<Rightarrow> (ptr \<times> 'd lstate) option" where
  "eina_list_demote_list s l move_list =
     (if l = None then Some (None, s)
      else if move_list = None then Some (l, s)
      else do {
        n \<leftarrow> node_at s l;
        a \<leftarrow> acct_at s (l_acc n);
        (if move_list = a_last a then Some (l, s)
         else do {
           m \<leftarrow> node_at s move_list;
           (let l = (if l = move_list then l_next m else l) in do {
              s \<leftarrow> set_if s (l_prev m) (to_next (l_next m));
              m \<leftarrow> node_at s move_list;
              s \<leftarrow> set_node s (l_next m) (to_prev (l_prev m));
              n \<leftarrow> node_at s l;
              a \<leftarrow> acct_at s (l_acc n);
              s \<leftarrow> set_node s move_list (to_prev (a_last a));
              m \<leftarrow> node_at s move_list;
              s \<leftarrow> set_node s (l_prev m) (to_next move_list);
              s \<leftarrow> set_node s move_list (to_next None);
              n \<leftarrow> node_at s l;
              s \<leftarrow> set_acct s (l_acc n) (to_last move_list);
              Some (l, s) }) }) })"

text \<open>\<open>eina_list_move\<close> and \<open>eina_list_move_list\<close>; none of their arguments is null.\<close>

definition eina_list_move :: "'d lstate \<Rightarrow> ptr \<Rightarrow> ptr \<Rightarrow> 'd \<Rightarrow> (bool \<times> ptr \<times> ptr \<times> 'd lstate) option" where
  "eina_list_move s to from data = do {
     l \<leftarrow> eina_list_data_find_list s from data;
     (if l = None then Some (False, to, from, s)
      else do {
        (to, s) \<leftarrow> eina_list_append s to data;
        (from, s) \<leftarrow> eina_list_remove_list s from l;
        Some (True, to, from, s) }) }"

definition eina_list_move_list :: "'d lstate \<Rightarrow> ptr \<Rightarrow> ptr \<Rightarrow> ptr \<Rightarrow> (bool \<times> ptr \<times> ptr \<times> 'd lstate) option" where
  "eina_list_move_list s to from data = do {
     n \<leftarrow> node_at s data;
     (to, s) \<leftarrow> eina_list_append s to (l_data n);
     (from, s) \<leftarrow> eina_list_remove_list s from data;
     Some (True, to, from, s) }"

section \<open>Reading\<close>

definition eina_list_last :: "'d lstate \<Rightarrow> ptr \<Rightarrow> ptr option" where
  "eina_list_last s l =
     (if l = None then Some None else do { n \<leftarrow> node_at s l; a \<leftarrow> acct_at s (l_acc n); Some (a_last a) })"

definition eina_list_next :: "'d lstate \<Rightarrow> ptr \<Rightarrow> ptr option" where
  "eina_list_next s l = (if l = None then Some None else map_option l_next (node_at s l))"

definition eina_list_prev :: "'d lstate \<Rightarrow> ptr \<Rightarrow> ptr option" where
  "eina_list_prev s l = (if l = None then Some None else map_option l_prev (node_at s l))"

text \<open>A null data pointer is \<open>None\<close>.\<close>

definition eina_list_data_get :: "'d lstate \<Rightarrow> ptr \<Rightarrow> 'd option option" where
  "eina_list_data_get s l =
     (if l = None then Some None else map_option (\<lambda>n. Some (l_data n)) (node_at s l))"

definition eina_list_data_set :: "'d lstate \<Rightarrow> ptr \<Rightarrow> 'd \<Rightarrow> ('d option \<times> 'd lstate) option" where
  "eina_list_data_set s l data =
     (if l = None then Some (None, s)
      else do {
        n \<leftarrow> node_at s l;
        s \<leftarrow> set_node s l (l_data_update (\<lambda>_. data));
        Some (Some (l_data n), s) })"

definition eina_list_count :: "'d lstate \<Rightarrow> ptr \<Rightarrow> u32 option" where
  "eina_list_count s l =
     (if l = None then Some 0 else do { n \<leftarrow> node_at s l; a \<leftarrow> acct_at s (l_acc n); Some (a_count a) })"

definition eina_list_last_data_get :: "'d lstate \<Rightarrow> ptr \<Rightarrow> 'd option option" where
  "eina_list_last_data_get s l =
     (if l = None then Some None else do { p \<leftarrow> eina_list_last s l; eina_list_data_get s p })"

definition eina_list_data_find :: "'d lstate \<Rightarrow> ptr \<Rightarrow> 'd \<Rightarrow> 'd option option" where
  "eina_list_data_find s l data = do {
     p \<leftarrow> eina_list_data_find_list s l data;
     Some (if p = None then None else Some data) }"

text \<open>The two loops of \<open>eina_list_nth_list\<close>; running off the list is \<open>abort()\<close>.\<close>

partial_function (option) nth_back :: "'d lstate \<Rightarrow> ptr \<Rightarrow> u32 \<Rightarrow> u32 \<Rightarrow> ptr option" where
  [code]: "nth_back s l i n =
     (if l = None then None
      else if i = n then Some l
      else do { m \<leftarrow> node_at s l; nth_back s (l_prev m) (i - 1) n })"

partial_function (option) nth_forth :: "'d lstate \<Rightarrow> ptr \<Rightarrow> u32 \<Rightarrow> u32 \<Rightarrow> ptr option" where
  [code]: "nth_forth s l i n =
     (if l = None then None
      else if i = n then Some l
      else do { m \<leftarrow> node_at s l; nth_forth s (l_next m) (i + 1) n })"

definition eina_list_nth_list :: "'d lstate \<Rightarrow> ptr \<Rightarrow> u32 \<Rightarrow> ptr option" where
  "eina_list_nth_list s l n =
     (if l = None then Some None
      else do {
        m \<leftarrow> node_at s l;
        a \<leftarrow> acct_at s (l_acc m);
        (if n > a_count a - 1 then Some None
         else if n > a_count a div 2 then nth_back s (a_last a) (a_count a - 1) n
         else nth_forth s l 0 n) })"

definition eina_list_nth :: "'d lstate \<Rightarrow> ptr \<Rightarrow> u32 \<Rightarrow> 'd option option" where
  "eina_list_nth s l n =
     (if l = None then Some None
      else if n = 0 then eina_list_data_get s l
      else do { p \<leftarrow> eina_list_nth_list s l n; eina_list_data_get s p })"

partial_function (option) data_idx_from :: "'d lstate \<Rightarrow> ptr \<Rightarrow> 'd \<Rightarrow> u32 \<Rightarrow> int option" where
  [code]: "data_idx_from s l data ret =
     (if l = None then Some (- 1)
      else do {
        n \<leftarrow> node_at s l;
        (if l_data n = data then Some (sint ret) else data_idx_from s (l_next n) data (ret + 1)) })"

definition eina_list_data_idx :: "'d lstate \<Rightarrow> ptr \<Rightarrow> 'd \<Rightarrow> int option" where
  "eina_list_data_idx s l data = data_idx_from s l data 0"

section \<open>Whole-list operations\<close>

text \<open>The loop of \<open>eina_list_reverse\<close> swaps the data of the outer nodes.\<close>

partial_function (option) reverse_data :: "'d lstate \<Rightarrow> ptr \<Rightarrow> ptr \<Rightarrow> 'd lstate option" where
  [code]: "reverse_data s l1 l2 =
     (if l1 = l2 then Some s
      else do {
        n1 \<leftarrow> node_at s l1;
        n2 \<leftarrow> node_at s l2;
        s \<leftarrow> set_node s l1 (l_data_update (\<lambda>_. l_data n2));
        s \<leftarrow> set_node s l2 (l_data_update (\<lambda>_. l_data n1));
        n1 \<leftarrow> node_at s l1;
        (if l_next n1 = l2 then Some s
         else do { n2 \<leftarrow> node_at s l2; reverse_data s (l_next n1) (l_prev n2) }) })"

definition eina_list_reverse :: "'d lstate \<Rightarrow> ptr \<Rightarrow> (ptr \<times> 'd lstate) option" where
  "eina_list_reverse s l =
     (if l = None then Some (None, s)
      else do {
        e \<leftarrow> eina_list_last s l;
        s \<leftarrow> reverse_data s l e;
        Some (l, s) })"

partial_function (option) clone_from ::
  "('d lstate \<Rightarrow> ptr \<Rightarrow> 'd \<Rightarrow> (ptr \<times> 'd lstate) option) \<Rightarrow> 'd lstate \<Rightarrow> ptr \<Rightarrow> ptr \<Rightarrow> (ptr \<times> 'd lstate) option" where
  [code]: "clone_from add s l lclone =
     (if l = None then Some (lclone, s)
      else do {
        n \<leftarrow> node_at s l;
        (lclone, s) \<leftarrow> add s lclone (l_data n);
        n \<leftarrow> node_at s l;
        clone_from add s (l_next n) lclone })"

definition eina_list_clone :: "'d lstate \<Rightarrow> ptr \<Rightarrow> (ptr \<times> 'd lstate) option" where
  "eina_list_clone s l = clone_from eina_list_append s l None"

definition eina_list_reverse_clone :: "'d lstate \<Rightarrow> ptr \<Rightarrow> (ptr \<times> 'd lstate) option" where
  "eina_list_reverse_clone s l = clone_from eina_list_prepend s l None"

text \<open>\<open>do { itr->accounting = acc; itr = itr->next; } while (itr);\<close> and the same backwards.\<close>

partial_function (option) account_forth :: "'d lstate \<Rightarrow> ptr \<Rightarrow> ptr \<Rightarrow> 'd lstate option" where
  [code]: "account_forth s itr acc = do {
     s \<leftarrow> set_node s itr (to_acc acc);
     n \<leftarrow> node_at s itr;
     (if l_next n = None then Some s else account_forth s (l_next n) acc) }"

partial_function (option) account_back :: "'d lstate \<Rightarrow> ptr \<Rightarrow> ptr \<Rightarrow> 'd lstate option" where
  [code]: "account_back s itr acc = do {
     s \<leftarrow> set_node s itr (to_acc acc);
     n \<leftarrow> node_at s itr;
     (if l_prev n = None then Some s else account_back s (l_prev n) acc) }"

definition eina_list_merge :: "'d lstate \<Rightarrow> ptr \<Rightarrow> ptr \<Rightarrow> (ptr \<times> 'd lstate) option" where
  "eina_list_merge s left right =
     (if left = None then Some (right, s)
      else if right = None then Some (left, s)
      else do {
        l \<leftarrow> node_at s left;
        a \<leftarrow> acct_at s (l_acc l);
        s \<leftarrow> set_node s (a_last a) (to_next right);
        s \<leftarrow> set_node s right (to_prev (a_last a));
        l \<leftarrow> node_at s left;
        r \<leftarrow> node_at s right;
        b \<leftarrow> acct_at s (l_acc r);
        (if a_count a \<ge> a_count b then do {
           s \<leftarrow> set_acct s (l_acc l) (to_last (a_last b));
           s \<leftarrow> set_acct s (l_acc l) (a_count_update (\<lambda>c. c + a_count b));
           s \<leftarrow> accounting_free s (l_acc r);
           s \<leftarrow> account_forth s right (l_acc l);
           Some (left, s) }
         else do {
           s \<leftarrow> set_acct s (l_acc r) (a_count_update (\<lambda>c. c + a_count a));
           s \<leftarrow> accounting_free s (l_acc l);
           s \<leftarrow> account_back s (a_last a) (l_acc r);
           Some (left, s) }) })"

text \<open>The loop of \<open>eina_list_split_list\<close>, which counts the nodes of the right part.\<close>

partial_function (option) account_count :: "'d lstate \<Rightarrow> ptr \<Rightarrow> ptr \<Rightarrow> 'd lstate option" where
  [code]: "account_count s itr acc = do {
     s \<leftarrow> set_node s itr (to_acc acc);
     s \<leftarrow> set_acct s acc (a_count_update (\<lambda>c. c + 1));
     n \<leftarrow> node_at s itr;
     (if l_next n = None then Some s else account_count s (l_next n) acc) }"

text \<open>\<open>eina_list_split_list\<close> with a \<open>right\<close> to store to: the left list, the right list.\<close>

definition eina_list_split_list :: "'d lstate \<Rightarrow> ptr \<Rightarrow> ptr \<Rightarrow> (ptr \<times> ptr \<times> 'd lstate) option" where
  "eina_list_split_list s l relative =
     (if l = None then Some (None, None, s)
      else if relative = None then Some (None, l, s)
      else do {
        e \<leftarrow> eina_list_last s l;
        (if relative = e then Some (l, None, s)
         else do {
           nxt \<leftarrow> eina_list_next s relative;
           s \<leftarrow> set_node s nxt (to_prev None);
           (case accounting_new s of (acc, s) \<Rightarrow> do {
              s \<leftarrow> set_node s nxt (to_acc acc);
              n \<leftarrow> node_at s l;
              a \<leftarrow> acct_at s (l_acc n);
              s \<leftarrow> set_acct s acc (to_last (a_last a));
              s \<leftarrow> set_acct s acc (a_count_update (\<lambda>_. 0));
              s \<leftarrow> account_count s nxt acc;
              s \<leftarrow> set_node s relative (to_next None);
              n \<leftarrow> node_at s l;
              s \<leftarrow> set_acct s (l_acc n) (to_last relative);
              b \<leftarrow> acct_at s acc;
              s \<leftarrow> set_acct s (l_acc n) (a_count_update (\<lambda>c. c - a_count b));
              Some (l, nxt, s) }) }) })"

section \<open>Sorting\<close>

type_synonym 'd data_cmp = "'d \<Rightarrow> 'd \<Rightarrow> int"

text \<open>\<open>eina_list_sort_merge\<close>, its loop first; only the nodes are touched.\<close>

partial_function (option) list_merge_loop ::
  "'d data_cmp \<Rightarrow> 'd lnode heap \<Rightarrow> ptr \<Rightarrow> ptr \<Rightarrow> ptr \<Rightarrow> 'd lnode heap option" where
  [code]: "list_merge_loop func h l a b =
     (if a \<noteq> None \<and> b \<noteq> None then do {
        na \<leftarrow> deref h a;
        nb \<leftarrow> deref h b;
        (if func (l_data na) (l_data nb) < 0
         then do { h \<leftarrow> store h l (to_next a); n \<leftarrow> deref h a; list_merge_loop func h a (l_next n) b }
         else do { h \<leftarrow> store h l (to_next b); n \<leftarrow> deref h b; list_merge_loop func h b a (l_next n) }) }
      else store h l (to_next (if a = None then b else a)))"

definition eina_list_sort_merge ::
  "'d data_cmp \<Rightarrow> 'd lnode heap \<Rightarrow> ptr \<Rightarrow> ptr \<Rightarrow> (ptr \<times> 'd lnode heap) option" where
  "eina_list_sort_merge func h a b = do {
     na \<leftarrow> deref h a;
     nb \<leftarrow> deref h b;
     (if func (l_data na) (l_data nb) < 0
      then do { h \<leftarrow> list_merge_loop func h a (l_next na) b; Some (a, h) }
      else do { h \<leftarrow> list_merge_loop func h b a (l_next nb); Some (b, h) }) }"

partial_function (option) list_rebuild_prev :: "'d lnode heap \<Rightarrow> ptr \<Rightarrow> ptr \<Rightarrow> (ptr \<times> 'd lnode heap) option" where
  [code]: "list_rebuild_prev h l prev =
     (if l = None then Some (prev, h)
      else do {
        h \<leftarrow> store h l (to_prev prev);
        n \<leftarrow> deref h l;
        list_rebuild_prev h (l_next n) l })"

definition EINA_LIST_SORT_STACK_SIZE :: nat where
  "EINA_LIST_SORT_STACK_SIZE = 32"

definition list_stack_push :: "ptr \<Rightarrow> ptr list \<Rightarrow> ptr list option" where
  "list_stack_push p st = (if length st < EINA_LIST_SORT_STACK_SIZE then Some (p # st) else None)"

partial_function (option) list_collapse ::
  "'d data_cmp \<Rightarrow> u32 \<Rightarrow> 'd lnode heap \<Rightarrow> ptr list \<Rightarrow> ('d lnode heap \<times> ptr list) option" where
  [code]: "list_collapse func idx h st =
     (let idx = idx AND (idx - 1) in
      if idx = 0 then Some (h, st)
      else case st of
             b # a # st' \<Rightarrow> do { (p, h) \<leftarrow> eina_list_sort_merge func h a b; list_collapse func idx h (p # st') }
           | _ \<Rightarrow> None)"

partial_function (option) list_sort_loop ::
  "'d data_cmp \<Rightarrow> 'd lnode heap \<Rightarrow> ptr \<Rightarrow> u32 \<Rightarrow> ptr list \<Rightarrow> ('d lnode heap \<times> ptr list) option" where
  [code]: "list_sort_loop func h tail n st =
     (case tail of
        None \<Rightarrow> Some (h, st)
      | Some a \<Rightarrow> do {
          na \<leftarrow> h a;
          (case l_next na of
             None \<Rightarrow> do { st \<leftarrow> list_stack_push (Some a) st; Some (h, st) }
           | Some b \<Rightarrow> do {
               nb \<leftarrow> h b;
               (st, h) \<leftarrow>
                 (if func (l_data na) (l_data nb) < 0 then do {
                    st \<leftarrow> list_stack_push (Some a) st;
                    h \<leftarrow> store h (Some a) (to_next (Some b));
                    h \<leftarrow> store h (Some b) (to_next None);
                    Some (st, h) }
                  else do {
                    st \<leftarrow> list_stack_push (Some b) st;
                    h \<leftarrow> store h (Some b) (to_next (Some a));
                    h \<leftarrow> store h (Some a) (to_next None);
                    Some (st, h) });
               (h, st) \<leftarrow> list_collapse func ((n + 1) XOR n) h st;
               list_sort_loop func h (l_next nb) (n + 1) st }) })"

partial_function (option) list_merge_all ::
  "'d data_cmp \<Rightarrow> 'd lnode heap \<Rightarrow> ptr list \<Rightarrow> (ptr \<times> 'd lnode heap) option" where
  [code]: "list_merge_all func h st =
     (case st of
        [] \<Rightarrow> None
      | [p] \<Rightarrow> Some (p, h)
      | b # a # st' \<Rightarrow> do { (p, h) \<leftarrow> eina_list_sort_merge func h a b; list_merge_all func h (p # st') })"

text \<open>
  \<open>eina_list_sort\<close>: with a valid \<open>limit\<close> the list is cut before node \<open>limit\<close>, the first part
  is sorted, and the rest is linked behind it again.
\<close>

definition eina_list_sort :: "'d data_cmp option \<Rightarrow> 'd lstate \<Rightarrow> ptr \<Rightarrow> u32 \<Rightarrow> (ptr \<times> 'd lstate) option" where
  "eina_list_sort func s l limit =
     (case func of
        None \<Rightarrow> Some (l, s)
      | Some f \<Rightarrow>
          if l = None then Some (None, s)
          else do {
            n \<leftarrow> node_at s l;
            a \<leftarrow> acct_at s (l_acc n);
            (let limit = (if limit = 0 \<or> limit > a_count a then a_count a else limit) in do {
               unsort \<leftarrow> (if limit \<noteq> a_count a then eina_list_nth_list s l limit else Some None);
               s \<leftarrow> (if unsort \<noteq> None then do { u \<leftarrow> node_at s unsort; set_node s (l_prev u) (to_next None) }
                     else Some s);
               (h, st) \<leftarrow> list_sort_loop f (l_nodes s) l 0 [];
               (l, h) \<leftarrow> list_merge_all f h st;
               (tail, h) \<leftarrow> list_rebuild_prev h l None;
               (let s = s\<lparr>l_nodes := h\<rparr> in do {
                  s \<leftarrow> (if unsort \<noteq> None then do {
                          s \<leftarrow> set_node s tail (to_next unsort);
                          set_node s unsort (to_prev tail) }
                        else do { n \<leftarrow> node_at s l; set_acct s (l_acc n) (to_last tail) });
                  Some (l, s) }) }) })"

text \<open>The loop of \<open>eina_list_sorted_merge\<close> over both lists, then over the rest of one.\<close>

partial_function (option) sorted_merge_loop ::
  "'d data_cmp \<Rightarrow> 'd lstate \<Rightarrow> ptr \<Rightarrow> ptr \<Rightarrow> ptr \<Rightarrow> ptr \<Rightarrow> (ptr \<times> ptr \<times> ptr \<times> 'd lstate) option" where
  [code]: "sorted_merge_loop func s acc current left right =
     (if left = None \<or> right = None then Some (current, left, right, s)
      else do {
        l \<leftarrow> node_at s left;
        r \<leftarrow> node_at s right;
        (if func (l_data l) (l_data r) < 0 then do {
           s \<leftarrow> set_node s current (to_next left);
           s \<leftarrow> set_node s left (to_prev current);
           l \<leftarrow> node_at s left;
           s \<leftarrow> set_node s left (to_acc acc);
           sorted_merge_loop func s acc left (l_next l) right }
         else do {
           s \<leftarrow> set_node s current (to_next right);
           s \<leftarrow> set_node s right (to_prev current);
           r \<leftarrow> node_at s right;
           s \<leftarrow> set_node s right (to_acc acc);
           sorted_merge_loop func s acc right left (l_next r) }) })"

partial_function (option) account_tail :: "'d lstate \<Rightarrow> ptr \<Rightarrow> ptr \<Rightarrow> (ptr \<times> 'd lstate) option" where
  [code]: "account_tail s current acc = do {
     n \<leftarrow> node_at s current;
     (if l_next n = None then Some (current, s)
      else do { s \<leftarrow> set_node s (l_next n) (to_acc acc); account_tail s (l_next n) acc }) }"

definition eina_list_sorted_merge ::
  "'d data_cmp option \<Rightarrow> 'd lstate \<Rightarrow> ptr \<Rightarrow> ptr \<Rightarrow> (ptr \<times> 'd lstate) option" where
  "eina_list_sorted_merge func s left right =
     (case func of
        None \<Rightarrow> Some (None, s)
      | Some f \<Rightarrow>
          if left = None then Some (right, s)
          else if right = None then Some (left, s)
          else do {
            l \<leftarrow> node_at s left;
            r \<leftarrow> node_at s right;
            a \<leftarrow> acct_at s (l_acc l);
            b \<leftarrow> acct_at s (l_acc r);
            (ret, acc, left, right, s) \<leftarrow>
              (if f (l_data l) (l_data r) < 0 then do {
                 s \<leftarrow> set_acct s (l_acc l) (a_count_update (\<lambda>c. c + a_count b));
                 s \<leftarrow> accounting_free s (l_acc r);
                 Some (left, l_acc l, l_next l, right, s) }
               else do {
                 s \<leftarrow> set_acct s (l_acc r) (a_count_update (\<lambda>c. c + a_count a));
                 s \<leftarrow> accounting_free s (l_acc l);
                 Some (right, l_acc r, left, l_next r, s) });
            (current, left, right, s) \<leftarrow> sorted_merge_loop f s acc ret left right;
            s \<leftarrow> (if left \<noteq> None then do {
                    s \<leftarrow> set_node s current (to_next left);
                    s \<leftarrow> set_node s left (to_prev current);
                    set_node s current (to_acc acc) }
                  else Some s);
            s \<leftarrow> (if right \<noteq> None then do {
                    s \<leftarrow> set_node s current (to_next right);
                    s \<leftarrow> set_node s right (to_prev current);
                    set_node s current (to_acc acc) }
                  else Some s);
            (current, s) \<leftarrow> account_tail s current acc;
            s \<leftarrow> set_acct s acc (to_last current);
            Some (ret, s) })"

section \<open>Searching\<close>

text \<open>
  The dichotomic loop of \<open>eina_list_search_sorted_near_list\<close>; positions are unsigned, and the
  search never goes below position 1, so that they can be read as integers.
\<close>

fun list_walk_next :: "'d lstate \<Rightarrow> nat \<Rightarrow> ptr \<Rightarrow> ptr option" where
  "list_walk_next s 0 p = Some p"
| "list_walk_next s (Suc n) p = do { x \<leftarrow> node_at s p; list_walk_next s n (l_next x) }"

fun list_walk_prev :: "'d lstate \<Rightarrow> nat \<Rightarrow> ptr \<Rightarrow> ptr option" where
  "list_walk_prev s 0 p = Some p"
| "list_walk_prev s (Suc n) p = do { x \<leftarrow> node_at s p; list_walk_prev s n (l_prev x) }"

function near_loop ::
  "'d data_cmp \<Rightarrow> 'd lstate \<Rightarrow> 'd \<Rightarrow> int \<Rightarrow> int \<Rightarrow> int \<times> ptr \<times> int \<Rightarrow> (ptr \<times> int) option" where
  "near_loop func s data lo hi found =
     (case found of (tmp, ct, cmp) \<Rightarrow>
        if lo \<le> hi then
          (let cur = lo + (hi - lo) div 2 in do {
             ct \<leftarrow> (if tmp < cur then list_walk_next s (nat (cur - tmp)) ct
                    else list_walk_prev s (nat (tmp - cur)) ct);
             n \<leftarrow> node_at s ct;
             (let cmp = func (l_data n) data in
              if cmp = 0 then Some (ct, cmp)
              else if cmp < 0 then near_loop func s data (cur + 1) hi (cur, ct, cmp)
              else if cur > 0 then near_loop func s data lo (cur - 1) (cur, ct, cmp)
              else Some (ct, cmp)) })
        else Some (ct, cmp))"
  by auto
termination
  by (relation "measure (\<lambda>(f, t, i, lo, hi, p). nat (hi + 1 - lo))") auto

declare near_loop.simps [simp del]

definition eina_list_search_sorted_near_list ::
  "'d data_cmp \<Rightarrow> 'd lstate \<Rightarrow> ptr \<Rightarrow> 'd \<Rightarrow> (ptr \<times> int) option" where
  "eina_list_search_sorted_near_list func s l data =
     (if l = None then Some (None, 0)
      else do {
        n \<leftarrow> node_at s l;
        a \<leftarrow> acct_at s (l_acc n);
        (if a_count a = 1 then Some (l, func (l_data n) data)
         else do {
           t \<leftarrow> node_at s (a_last a);
           (if func (l_data t) data \<le> 0 then Some (a_last a, func (l_data t) data)
            else if func (l_data n) data \<ge> 0 then Some (l, func (l_data n) data)
            else if 1 > a_count a - 2 then do {
              m \<leftarrow> node_at s (l_next n);
              Some (l_next n, func (l_data m) data) }
            else near_loop func s data 1 (int (unat (a_count a - 2))) (1, l_next n, func (l_data n) data)) }) })"

definition eina_list_search_sorted_list :: "'d data_cmp \<Rightarrow> 'd lstate \<Rightarrow> ptr \<Rightarrow> 'd \<Rightarrow> ptr option" where
  "eina_list_search_sorted_list func s l data = do {
     (lnear, cmp) \<leftarrow> eina_list_search_sorted_near_list func s l data;
     Some (if lnear = None then None else if cmp = 0 then lnear else None) }"

definition eina_list_search_sorted :: "'d data_cmp \<Rightarrow> 'd lstate \<Rightarrow> ptr \<Rightarrow> 'd \<Rightarrow> 'd option option" where
  "eina_list_search_sorted func s l data = do {
     p \<leftarrow> eina_list_search_sorted_list func s l data;
     eina_list_data_get s p }"

definition eina_list_search_unsorted_list :: "'d data_cmp \<Rightarrow> 'd lstate \<Rightarrow> ptr \<Rightarrow> 'd \<Rightarrow> ptr option" where
  "eina_list_search_unsorted_list func s l data = list_find_node s l (\<lambda>d. func d data = 0)"

definition eina_list_search_unsorted :: "'d data_cmp \<Rightarrow> 'd lstate \<Rightarrow> ptr \<Rightarrow> 'd \<Rightarrow> 'd option option" where
  "eina_list_search_unsorted func s l data = do {
     p \<leftarrow> eina_list_search_unsorted_list func s l data;
     eina_list_data_get s p }"

definition eina_list_sorted_insert :: "'d data_cmp \<Rightarrow> 'd lstate \<Rightarrow> ptr \<Rightarrow> 'd \<Rightarrow> (ptr \<times> 'd lstate) option" where
  "eina_list_sorted_insert func s l data =
     (if l = None then eina_list_append s None data
      else do {
        (lnear, cmp) \<leftarrow> eina_list_search_sorted_near_list func s l data;
        (if cmp < 0 then eina_list_append_relative_list s l data lnear
         else eina_list_prepend_relative_list s l data lnear) })"

section \<open>Iterators and accessor\<close>

record list_iterator =
  lit_head :: ptr
  lit_current :: ptr

definition eina_list_iterator_next :: "'d lstate \<Rightarrow> list_iterator \<Rightarrow> ('d option \<times> list_iterator) option" where
  "eina_list_iterator_next s it =
     (if lit_current it = None then Some (None, it)
      else do {
        d \<leftarrow> eina_list_data_get s (lit_current it);
        n \<leftarrow> eina_list_next s (lit_current it);
        Some (d, it\<lparr>lit_current := n\<rparr>) })"

definition eina_list_iterator_prev :: "'d lstate \<Rightarrow> list_iterator \<Rightarrow> ('d option \<times> list_iterator) option" where
  "eina_list_iterator_prev s it =
     (if lit_current it = None then Some (None, it)
      else do {
        d \<leftarrow> eina_list_data_get s (lit_current it);
        n \<leftarrow> eina_list_prev s (lit_current it);
        Some (d, it\<lparr>lit_current := n\<rparr>) })"

definition eina_list_iterator_new :: "ptr \<Rightarrow> list_iterator" where
  "eina_list_iterator_new l = \<lparr>lit_head = l, lit_current = l\<rparr>"

definition eina_list_iterator_reversed_new :: "'d lstate \<Rightarrow> ptr \<Rightarrow> list_iterator option" where
  "eina_list_iterator_reversed_new s l = do {
     e \<leftarrow> eina_list_last s l;
     Some \<lparr>lit_head = e, lit_current = e\<rparr> }"

record list_accessor =
  lac_head :: ptr
  lac_current :: ptr
  lac_index :: u32

definition eina_list_accessor_new :: "ptr \<Rightarrow> list_accessor option" where
  "eina_list_accessor_new l =
     (if l = None then None else Some \<lparr>lac_head = l, lac_current = l, lac_index = 0\<rparr>)"

text \<open>The walks stop at a null pointer.\<close>

fun access_next :: "'d lstate \<Rightarrow> nat \<Rightarrow> ptr \<Rightarrow> ptr option" where
  "access_next s 0 p = Some p"
| "access_next s (Suc n) p = (if p = None then Some None else do { q \<leftarrow> eina_list_next s p; access_next s n q })"

fun access_prev :: "'d lstate \<Rightarrow> nat \<Rightarrow> ptr \<Rightarrow> ptr option" where
  "access_prev s 0 p = Some p"
| "access_prev s (Suc n) p = (if p = None then Some None else do { q \<leftarrow> eina_list_prev s p; access_prev s n q })"

definition eina_list_accessor_get_at ::
  "'d lstate \<Rightarrow> list_accessor \<Rightarrow> u32 \<Rightarrow> ('d option \<times> list_accessor) option" where
  "eina_list_accessor_get_at s ac idx = do {
     cnt \<leftarrow> eina_list_count s (lac_head ac);
     (if idx \<ge> cnt then Some (None, ac)
      else do {
        over \<leftarrow>
          (if lac_index ac = idx then Some (lac_current ac)
           else if idx > lac_index ac then
             (if idx > drop_bit 1 (cnt - lac_index ac) + lac_index ac
              then do { e \<leftarrow> eina_list_last s (lac_head ac); access_prev s (unat (cnt - 1 - idx)) e }
              else access_next s (unat (idx - lac_index ac)) (lac_current ac))
           else if idx > drop_bit 1 (lac_index ac)
             then access_prev s (unat (lac_index ac - idx)) (lac_current ac)
           else access_next s (unat idx) (lac_head ac));
        (if over = None then Some (None, ac)
         else do {
           d \<leftarrow> eina_list_data_get s over;
           Some (d, ac\<lparr>lac_current := over, lac_index := idx\<rparr>) }) }) }"

end
