(* ===== verification/Eina_List_Laws.thy ===== *)
theory Eina_List_Laws
  imports Eina_List
begin

text \<open>
  What the operations of the list do to the sequence of its nodes and data. \<open>elist s p a vs\<close>
  says that \<open>p\<close> is the head of a well-formed list with the nodes and data \<open>vs\<close> and the
  accounting record \<open>a\<close>; \<open>leaves\<close> says which other cells of the state stay as they are.
\<close>

section \<open>Well-formed lists\<close>

interpretation ln: links l_next l_prev to_next to_prev
  by unfold_locales auto

lemma state_access [simp]:
  "node_at s (Some x) = l_nodes s x" "acct_at s (Some b) = l_accts s b"
  "node_at s None = None" "acct_at s None = None"
  by (simp_all add: node_at_def acct_at_def)

lemma set_node_Some [simp]:
  "l_nodes s x = Some n \<Longrightarrow> set_node s (Some x) f = Some (s\<lparr>l_nodes := (l_nodes s)(x \<mapsto> f n)\<rparr>)"
  by (simp add: set_node_def)

lemma set_acct_Some [simp]:
  "l_accts s b = Some n \<Longrightarrow> set_acct s (Some b) f = Some (s\<lparr>l_accts := (l_accts s)(b \<mapsto> f n)\<rparr>)"
  by (simp add: set_acct_def)

definition cells :: "'d lnode heap \<Rightarrow> addr \<Rightarrow> (addr \<times> 'd) list \<Rightarrow> bool" where
  "cells h a vs \<longleftrightarrow> (\<forall>v \<in> set vs. \<exists>n. h (fst v) = Some n \<and> l_acc n = Some a \<and> l_data n = snd v)"

definition elist :: "'d lstate \<Rightarrow> ptr \<Rightarrow> addr \<Rightarrow> (addr \<times> 'd) list \<Rightarrow> bool" where
  "elist s p a vs \<longleftrightarrow> distinct (map fst vs) \<and> p = ptr_hd (map fst vs) None \<and>
     ln.dseg (l_nodes s) None (map fst vs) None \<and> cells (l_nodes s) a vs \<and> length vs < 2 ^ 32 \<and>
     (vs \<noteq> [] \<longrightarrow> l_accts s a = Some \<lparr>a_last = Some (fst (last vs)), a_count = of_nat (length vs)\<rparr>)"

definition pool_ok :: "'d lstate \<Rightarrow> bool" where
  "pool_ok s \<longleftrightarrow> distinct (l_pool s) \<and> (\<forall>y \<in> set (l_pool s). l_nodes s y = None) \<and>
     distinct (l_apool s) \<and> (\<forall>b \<in> set (l_apool s). l_accts s b = None)"

definition leaves :: "'d lstate \<Rightarrow> (addr \<times> 'd) list \<Rightarrow> addr \<Rightarrow> 'd lstate \<Rightarrow> bool" where
  "leaves s vs a s' \<longleftrightarrow>
     (\<forall>y. y \<notin> fst ` set vs \<union> set (l_pool s) \<longrightarrow> l_nodes s' y = l_nodes s y) \<and>
     (\<forall>b. b \<notin> set (l_apool s) \<and> (vs = [] \<or> b \<noteq> a) \<longrightarrow> l_accts s' b = l_accts s b) \<and>
     set (l_pool s') \<subseteq> set (l_pool s) \<and> set (l_apool s') \<subseteq> set (l_apool s) \<and>
     length (l_pool s) \<le> Suc (length (l_pool s')) \<and> length (l_apool s) \<le> Suc (length (l_apool s'))"

definition becomes :: "'d lstate \<Rightarrow> (addr \<times> 'd) list \<Rightarrow> addr \<Rightarrow> (ptr \<times> 'd lstate) option \<Rightarrow> addr \<Rightarrow> (addr \<times> 'd) list \<Rightarrow> bool" where
  "becomes s vs a r a' vs' \<longleftrightarrow> (\<exists>p' s'. r = Some (p', s') \<and> elist s' p' a' vs' \<and> pool_ok s' \<and> leaves s vs a s')"

lemma cells_simps [simp]:
  "cells h a []" "cells h a (v # vs) \<longleftrightarrow> (\<exists>n. h (fst v) = Some n \<and> l_acc n = Some a \<and> l_data n = snd v) \<and> cells h a vs"
  "cells h a (us @ vs) \<longleftrightarrow> cells h a us \<and> cells h a vs"
  by (auto simp: cells_def ball_Un)

lemma cells_upd [simp]: "x \<notin> fst ` set vs \<Longrightarrow> cells (h(x := v)) a vs = cells h a vs"
  unfolding cells_def by (intro ball_cong) (auto simp: image_iff)

lemmas list_defs = elist_def becomes_def leaves_def pool_ok_def list_new_def accounting_new_def accounting_free_def
  list_free_def setup_accounting_def update_accounting_def Let_def

lemma of_nat_u32_0: "k < 2 ^ 32 \<Longrightarrow> (of_nat k :: u32) = 0 \<longleftrightarrow> k = 0"
  by (auto simp: word_of_nat_eq_0_iff dest: nat_dvd_not_less)

lemma fresh_facts:
  assumes "elist s p a vs" and "pool_ok s"
  shows "y \<in> set (l_pool s) \<Longrightarrow> y \<notin> fst ` set vs" and "vs \<noteq> [] \<Longrightarrow> a \<notin> set (l_apool s)"
  using assms by (auto simp: elist_def pool_ok_def cells_def)

lemma append_none: "l_pool s = [] \<Longrightarrow> eina_list_append s p d = Some (p, s)"
  by (simp add: eina_list_append_def list_new_def)

lemma list_append_ok:
  assumes "elist s p a vs" and "pool_ok s" and "l_pool s = x # xs" and "vs = [] \<Longrightarrow> l_apool s = a # as"
    and "length vs + 1 < 2 ^ 32"
  shows "becomes s vs a (eina_list_append s p d) a (vs @ [(x, d)])"
  using assms fresh_facts(1) [OF assms(1,2), of x] fresh_facts(2) [OF assms(1,2)]
  by (cases vs rule: ends_cases) (auto simp: list_defs eina_list_append_def)

lemma list_prepend_ok:
  assumes "elist s p a vs" and "pool_ok s" and "l_pool s = x # xs" and "vs = [] \<Longrightarrow> l_apool s = a # as"
    and "length vs + 1 < 2 ^ 32"
  shows "becomes s vs a (eina_list_prepend s p d) a ((x, d) # vs)"
  using assms fresh_facts(1) [OF assms(1,2), of x] fresh_facts(2) [OF assms(1,2)]
  by (cases vs rule: ends_cases) (auto simp: list_defs eina_list_prepend_def)

text \<open>Without memory the list stays as it is.\<close>

lemma append_oom:
  assumes "elist s p a vs" and "pool_ok s" and "l_pool s = [] \<or> vs = [] \<and> l_apool s = []"
  shows "becomes s vs a (eina_list_append s p d) a vs"
  using assms by (cases "l_pool s") (auto simp: list_defs eina_list_append_def)

lemma prepend_oom:
  assumes "elist s p a vs" and "pool_ok s" and "l_pool s = [] \<or> vs = [] \<and> l_apool s = []"
  shows "becomes s vs a (eina_list_prepend s p d) a vs"
  using assms by (cases "l_pool s") (auto simp: list_defs eina_list_prepend_def)

lemma relative_oom:
  assumes "elist s p a vs" and "pool_ok s" and "l_pool s = []"
  shows "becomes s vs a (eina_list_append_relative_list s p d r) a vs"
    and "becomes s vs a (eina_list_prepend_relative_list s p d r) a vs"
  using assms append_oom [OF assms(1,2)] prepend_oom [OF assms(1,2)]
  by (auto simp: eina_list_append_relative_list_def eina_list_prepend_relative_list_def list_new_def becomes_def leaves_def)

section \<open>Links in the state\<close>

lemma cells_set [simp]:
  "cells (ln.setn h p q) a vs = cells h a vs" "cells (ln.setp h p q) a vs = cells h a vs"
  by (induction vs) (auto simp: ln.setn_def ln.setp_def split: option.split)

lemma cells_unlink [simp]: "cells (ln.unlink h l r) a vs = cells h a vs"
  by (simp add: ln.unlink_def)

definition valid :: "'d lnode heap \<Rightarrow> ptr \<Rightarrow> bool" where
  "valid h q \<longleftrightarrow> (\<forall>x. q = Some x \<longrightarrow> (\<exists>n. h x = Some n))"

lemma set_links:
  assumes "valid (l_nodes s) q"
  shows "q \<noteq> None \<Longrightarrow> set_node s q (to_next v) = Some (s\<lparr>l_nodes := ln.setn (l_nodes s) q v\<rparr>)"
    and "q \<noteq> None \<Longrightarrow> set_node s q (to_prev v) = Some (s\<lparr>l_nodes := ln.setp (l_nodes s) q v\<rparr>)"
    and "set_if s q (to_next v) = Some (s\<lparr>l_nodes := ln.setn (l_nodes s) q v\<rparr>)"
    and "set_if s q (to_prev v) = Some (s\<lparr>l_nodes := ln.setp (l_nodes s) q v\<rparr>)"
  using assms by (auto simp: valid_def set_if_def ln.set_Some)

lemma valid_set [simp]: "valid (ln.setn h p v) q = valid h q" "valid (ln.setp h p v) q = valid h q"
  unfolding valid_def by (metis ln.set_None_iff not_None_eq)+

lemma valid_upd [simp]: "valid h q \<Longrightarrow> valid (h(x \<mapsto> n)) q"
  by (simp add: valid_def)

lemma elist_node:
  assumes "elist s p a (us @ (r, e) # ws)"
  shows "\<exists>n. l_nodes s r = Some n \<and> l_next n = ptr_hd (map fst ws) None \<and> l_prev n = ptr_last None (map fst us) \<and>
      l_acc n = Some a \<and> l_data n = e"
    and "valid (l_nodes s) (ptr_last None (map fst us))" and "valid (l_nodes s) (ptr_hd (map fst ws) None)"
    and "ptr_last None (map fst us) \<noteq> Some r" and "ptr_hd (map fst ws) None \<noteq> Some r"
    and "p = ptr_hd (map fst us) (Some r)"
proof -
  have d: "distinct (map fst us @ r # map fst ws)" "ln.dseg (l_nodes s) None (map fst us @ r # map fst ws) None"
    using assms by (simp_all add: elist_def)
  show "\<exists>n. l_nodes s r = Some n \<and> l_next n = ptr_hd (map fst ws) None \<and> l_prev n = ptr_last None (map fst us) \<and>
      l_acc n = Some a \<and> l_data n = e"
    using d(2) assms by (auto simp: elist_def)
  show "valid (l_nodes s) (ptr_last None (map fst us))" "valid (l_nodes s) (ptr_hd (map fst ws) None)"
    using ln.dseg_dom [OF d(2)] by (auto simp: valid_def dest!: ln.ptr_ends)
  show "ptr_last None (map fst us) \<noteq> Some r" "ptr_hd (map fst ws) None \<noteq> Some r"
    using d(1) by (auto dest!: ln.ptr_ends)
  show "p = ptr_hd (map fst us) (Some r)"
    using assms by (simp add: elist_def)
qed

lemma elist_head:
  assumes "cells h a (us @ (r, e) # ws)"
  shows "\<exists>n. deref h (ptr_hd (map fst us) (Some r)) = Some n \<and> l_acc n = Some a"
  using assms by (cases us) auto

lemma list_free_exec:
  assumes "l_nodes s r = Some n" and "l_acc n = Some a" and "l_accts s a = Some c"
  shows "list_free s (Some r) = Some (s\<lparr>l_nodes := (l_nodes s)(r := None),
    l_accts := (l_accts s)(a := if a_count c = 1 then None else Some (c\<lparr>a_count := a_count c - 1\<rparr>))\<rparr>)"
  using assms by (cases s; cases c) (simp add: list_free_def accounting_free_def)

lemma list_remove_exec:
  assumes "elist s p a (us @ (r, e) # ws)"
  defines "L \<equiv> ptr_last None (map fst us)" and "R \<equiv> ptr_hd (map fst ws) None"
  shows "eina_list_remove_list s p (Some r) = Some (ptr_hd (map fst (us @ ws)) None,
    s\<lparr>l_nodes := (ln.unlink (l_nodes s) L R)(r := None),
      l_accts := (l_accts s)(a := (if us @ ws = [] then None
        else Some \<lparr>a_last = ptr_last None (map fst (us @ ws)), a_count = of_nat (length (us @ ws))\<rparr>))\<rparr>)"
proof -
  obtain n where n: "l_nodes s r = Some n" "l_next n = R" "l_prev n = L" "l_acc n = Some a"
    using elist_node(1) [OF assms(1)] by (auto simp: L_def R_def)
  note v = elist_node(2-5) [OF assms(1), folded L_def R_def]
  have p: "p \<noteq> None" "p = ptr_hd (map fst us) (Some r)"
    using elist_node(6) [OF assms(1)] by (cases us; simp)+
  define h1 where "h1 = ln.unlink (l_nodes s) L R"
  have h1: "h1 r = Some n"
    using v n(1) by (simp add: h1_def ln.unlink_def)
  have c: "cells h1 a (us @ (r, e) # ws)"
    using assms(1) by (simp only: h1_def cells_unlink elist_def)
  then obtain m where m: "node_at (s\<lparr>l_nodes := h1\<rparr>) p = Some m" "l_acc m = Some a"
    using elist_head [OF c] p(2) by (auto simp: node_at_def)
  define k where "k = length (us @ ws)"
  have acc: "l_accts s a = Some \<lparr>a_last = Some (fst (last (us @ (r, e) # ws))), a_count = 1 + of_nat k\<rparr>" and "k < 2 ^ 32"
    using assms(1) by (simp_all add: elist_def k_def)
  have z: "(of_nat k :: u32) = 0 \<longleftrightarrow> us @ ws = []"
    using of_nat_u32_0 [OF \<open>k < 2 ^ 32\<close>] by (simp only: k_def length_0_conv)
  have l: "Some r = Some (fst (last (us @ (r, e) # ws))) \<longleftrightarrow> ws = []"
    using assms(1) by (cases ws rule: rev_cases) (auto simp: elist_def)
  have hs: "ln.setp (l_nodes s) R L r = Some n"
    using v n(1) by simp
  have h2: "ln.setn (ln.setp (l_nodes s) R L) L R = h1"
    by (simp add: h1_def ln.unlink_def)
  have ret: "(if L \<noteq> None then p else R) = ptr_hd (map fst (us @ ws)) None"
    unfolding p(2) L_def R_def by (cases us) (auto simp: ptr_last_def)
  have last: "(if ws = [] then L else Some (fst (last (us @ (r, e) # ws)))) = ptr_last None (map fst (us @ ws))"
    unfolding L_def by (auto simp: ptr_last_def last_map)
  show ?thesis
    unfolding eina_list_remove_list_def ret [symmetric] last [symmetric] k_def [symmetric] z [symmetric]
    using p(1) n v hs h1 m acc l
    by (simp add: set_links list_free_exec h2 h1_def [symmetric] del: append_is_Nil_conv not_None_eq split del: if_split)
     (cases "ws = []"; simp add: list_free_exec)
qed

lemma cells_link_in [simp]: "cells (ln.link_in h l x r) a vs = cells h a vs"
proof -
  have "cells (h(x := map_option (\<lambda>n. to_prev l (to_next r n)) (h x))) a vs = cells h a vs"
    by (induction vs) auto
  then show ?thesis
    by (simp add: ln.link_in_def)
qed

lemma ptr_last_fst: "vs \<noteq> [] \<Longrightarrow> ptr_last q (map fst vs) = Some (fst (last vs))"
  by (simp add: ptr_last_def last_map)

lemma list_remove_ok:
  assumes "elist s p a (us @ (r, e) # ws)" and "pool_ok s"
  shows "becomes s (us @ (r, e) # ws) a (eina_list_remove_list s p (Some r)) a (us @ ws)"
proof -
  have d: "ln.dseg (l_nodes s) None (map fst us @ r # map fst ws) None" "distinct (map fst us @ r # map fst ws)"
    using assms(1) by (simp_all add: elist_def)
  let ?h = "ln.unlink (l_nodes s) (ptr_last None (map fst us)) (ptr_hd (map fst ws) None)"
  have 1: "ln.dseg (?h(r := None)) None (map fst (us @ ws)) None"
    using ln.dseg_unlink [OF d] d(2) by simp
  have 2: "cells (?h(r := None)) a (us @ ws)"
    using assms(1) d(2) by (simp add: elist_def)
  have 3: "?h y = l_nodes s y" if "y \<notin> fst ` set us" "y \<notin> fst ` set ws" for y
    using that by (simp add: ln.unlink_other)
  have 4: "\<forall>y \<in> set (l_pool s). (?h(r := None)) y = None"
    using assms(2) by (auto simp: pool_ok_def)
  have 5: "a \<notin> set (l_apool s)"
    using fresh_facts(2) [OF assms] by simp
  show ?thesis
    unfolding list_remove_exec [OF assms(1)] becomes_def
    using assms d(2) 1 2 3 4 5 ptr_last_fst [of "us @ ws" None] by (auto simp: elist_def pool_ok_def leaves_def image_Un)
qed

lemma link_in_becomes:
  fixes s us ws x d a xs
  defines "h \<equiv> (ln.link_in ((l_nodes s)(x \<mapsto> \<lparr>l_data = d, l_next = None, l_prev = None, l_acc = None\<rparr>))
      (ptr_last None (map fst us)) x (ptr_hd (map fst ws) None))
      (x \<mapsto> \<lparr>l_data = d, l_next = ptr_hd (map fst ws) None, l_prev = ptr_last None (map fst us), l_acc = Some a\<rparr>)"
  assumes "elist s p a (us @ ws)" and "us @ ws \<noteq> []" and "pool_ok s" and "l_pool s = x # xs" and "length (us @ ws) + 1 < 2 ^ 32"
  shows "becomes s (us @ ws) a
     (Some (ptr_hd (map fst (us @ (x, d) # ws)) None, s\<lparr>l_pool := xs, l_nodes := h,
        l_accts := (l_accts s)(a \<mapsto> \<lparr>a_last = ptr_last (Some x) (map fst ws), a_count = of_nat (length (us @ ws)) + 1\<rparr>)\<rparr>))
     a (us @ (x, d) # ws)"
proof -
  let ?n = "\<lparr>l_data = d, l_next = None, l_prev = None, l_acc = None\<rparr>"
  let ?h0 = "(l_nodes s)(x \<mapsto> ?n)" and ?l = "ptr_last None (map fst us)" and ?r = "ptr_hd (map fst ws) None"
  have x: "x \<notin> set (map fst us @ map fst ws)"
    using fresh_facts(1) [OF assms(2,4), of x] assms(5) by auto
  have d: "ln.dseg ?h0 None (map fst us @ map fst ws) None" "distinct (map fst us @ map fst ws)"
    using assms(2) x by (simp_all add: elist_def)
  have 1: "ln.dseg h None (map fst (us @ (x, d) # ws)) None"
    using ln.dseg_link_in [where h = ?h0 and n = ?n, OF d x] x by (simp add: h_def)
  have 2: "cells h a (us @ (x, d) # ws)"
    using assms(2) x by (simp add: elist_def h_def image_image)
  have 3: "h y = l_nodes s y" if "y \<notin> fst ` set us" "y \<notin> fst ` set ws" "y \<noteq> x" for y
    using that by (simp add: h_def ln.link_in_other)
  have 4: "\<forall>y \<in> set xs. h y = None"
    using assms(4,5) by (auto simp: pool_ok_def h_def)
  have 5: "a \<notin> set (l_apool s)"
    using fresh_facts(2) [OF assms(2,4)] assms(3) by simp
  show ?thesis
    unfolding becomes_def
    using assms(2-) d(2) x 1 2 3 4 5 ptr_last_fst [of ws "Some x"] by (auto simp: elist_def pool_ok_def leaves_def image_Un)
qed

end
