(* ===== verification/Eina_List_Edits.thy ===== *)
theory Eina_List_Edits
  imports Eina_List_Laws
begin

text \<open>
  The operations that put a node at a given place of the list, or move one to an end, and the
  whole list seen as a sequence of data.
\<close>

section \<open>Next to a node\<close>

lemma elist_head_node:
  assumes "elist s p a vs" and "vs \<noteq> []"
  shows "\<exists>n. node_at s p = Some n \<and> l_acc n = Some a" and "\<exists>y. p = Some y \<and> y \<in> fst ` set vs"
  using assms by (auto simp: elist_def neq_Nil_conv)

lemma update_accounting_exec:
  assumes "node_at s l = Some n" and "l_acc n = Some a" and "l_accts s a = Some c" and "l_nodes s x = Some m"
  shows "update_accounting s l (Some x) = Some (s\<lparr>l_accts := (l_accts s)(a \<mapsto> c\<lparr>a_count := a_count c + 1\<rparr>),
     l_nodes := (l_nodes s)(x \<mapsto> m\<lparr>l_acc := Some a\<rparr>)\<rparr>)"
  using assms by (cases c) (simp add: update_accounting_def)

lemma head_after:
  assumes "elist s p a vs" and "vs \<noteq> []" and "x \<notin> fst ` set vs" and "\<And>vs. x \<notin> fst ` set vs \<Longrightarrow> cells h a vs = cells (l_nodes s) a vs"
  shows "\<exists>m. deref h p = Some m \<and> l_acc m = Some a"
  using assms(1-3) assms(4) [of vs] by (auto simp: elist_def neq_Nil_conv)

lemma list_append_relative_exec:
  assumes "elist s p a (us @ (r, e) # ws)" and "pool_ok s" and "l_pool s = x # xs"
  shows "eina_list_append_relative_list s p d (Some r) =
    Some (ptr_hd (map fst ((us @ [(r, e)]) @ (x, d) # ws)) None, s\<lparr>l_pool := xs,
      l_nodes := (ln.link_in ((l_nodes s)(x \<mapsto> \<lparr>l_data = d, l_next = None, l_prev = None, l_acc = None\<rparr>))
          (ptr_last None (map fst (us @ [(r, e)]))) x (ptr_hd (map fst ws) None))
        (x \<mapsto> \<lparr>l_data = d, l_next = ptr_hd (map fst ws) None, l_prev = ptr_last None (map fst (us @ [(r, e)])), l_acc = Some a\<rparr>),
      l_accts := (l_accts s)(a \<mapsto> \<lparr>a_last = ptr_last (Some x) (map fst ws),
        a_count = of_nat (length ((us @ [(r, e)]) @ ws)) + 1\<rparr>)\<rparr>)"
proof -
  let ?n = "\<lparr>l_data = d, l_next = None, l_prev = None, l_acc = None\<rparr>"
  define R where "R = ptr_hd (map fst ws) None"
  define h0 where "h0 = (l_nodes s)(x \<mapsto> ?n)"
  obtain n where n: "l_nodes s r = Some n" "l_next n = R"
    using elist_node(1) [OF assms(1)] by (auto simp: R_def)
  have x: "x \<notin> fst ` set (us @ (r, e) # ws)"
    using fresh_facts(1) [OF assms(1,2), of x] assms(3) by auto
  then have lr: "x \<noteq> r" "R \<noteq> Some x" "R \<noteq> Some r"
    using elist_node(5) [OF assms(1)] by (auto simp: R_def dest!: ln.ptr_ends)
  define h1 where "h1 = ln.link_in h0 (Some r) x R"
  have h1x: "h1 x = Some (?n\<lparr>l_next := R, l_prev := Some r\<rparr>)"
    using lr by (simp add: h1_def h0_def ln.link_in_node)
  have c: "\<And>vs. x \<notin> fst ` set vs \<Longrightarrow> cells h1 a vs = cells (l_nodes s) a vs"
    by (simp add: h1_def h0_def)
  obtain m where m: "deref h1 p = Some m" "l_acc m = Some a"
    using head_after [OF assms(1) _ x c] by auto
  have h1e: "ln.setp (ln.setn (ln.setp (ln.setn h0 (Some x) R) R (Some x)) (Some r) (Some x)) (Some x) (Some r) = h1"
    using lr by (simp add: ln.set_comm ln.link_in_sets h1_def)
  have h0: "h0 r = Some n" "valid h0 R"
    using elist_node(3) [OF assms(1)] n lr by (simp_all add: R_def h0_def)
  then have "valid h0 (Some r)" "valid h0 (Some x)"
    by (simp_all add: valid_def h0_def)
  moreover have p: "p \<noteq> None" "p = ptr_hd (map fst ((us @ [(r, e)]) @ (x, d) # ws)) None"
    using elist_node(6) [OF assms(1)] by (cases us; simp)+
  moreover define k where "k = length ((us @ [(r, e)]) @ ws)"
  moreover have "l_accts s a = Some \<lparr>a_last = Some (fst (last ((us @ [(r, e)]) @ ws))), a_count = of_nat k\<rparr>"
    using assms(1) by (simp add: elist_def k_def)
  moreover have "(if R = None then Some x else Some (fst (last ((us @ [(r, e)]) @ ws)))) = ptr_last (Some x) (map fst ws)"
    by (auto simp: R_def ptr_last_fst)
  ultimately show ?thesis
    unfolding eina_list_append_relative_list_def p(2) [symmetric] k_def [symmetric]
    using n(1,2) lr m h1e h1x h0 assms(3) update_accounting_exec [where s = "s\<lparr>l_pool := xs, l_nodes := h1\<rparr>" and l = p and x = x and a = a]
    by (auto simp: list_new_def set_links node_at_def simp flip: h0_def R_def h1_def split: if_splits)
qed

lemma list_prepend_relative_exec:
  assumes "elist s p a (us @ (r, e) # ws)" and "pool_ok s" and "l_pool s = x # xs"
  shows "eina_list_prepend_relative_list s p d (Some r) =
    Some (ptr_hd (map fst (us @ (x, d) # (r, e) # ws)) None, s\<lparr>l_pool := xs,
      l_nodes := (ln.link_in ((l_nodes s)(x \<mapsto> \<lparr>l_data = d, l_next = None, l_prev = None, l_acc = None\<rparr>))
          (ptr_last None (map fst us)) x (ptr_hd (map fst ((r, e) # ws)) None))
        (x \<mapsto> \<lparr>l_data = d, l_next = ptr_hd (map fst ((r, e) # ws)) None, l_prev = ptr_last None (map fst us), l_acc = Some a\<rparr>),
      l_accts := (l_accts s)(a \<mapsto> \<lparr>a_last = ptr_last (Some x) (map fst ((r, e) # ws)),
        a_count = of_nat (length (us @ (r, e) # ws)) + 1\<rparr>)\<rparr>)"
proof -
  let ?n = "\<lparr>l_data = d, l_next = None, l_prev = None, l_acc = None\<rparr>"
  define L where "L = ptr_last None (map fst us)"
  define h0 where "h0 = (l_nodes s)(x \<mapsto> ?n)"
  obtain n where n: "l_nodes s r = Some n" "l_prev n = L"
    using elist_node(1) [OF assms(1)] by (auto simp: L_def)
  have x: "x \<notin> fst ` set (us @ (r, e) # ws)"
    using fresh_facts(1) [OF assms(1,2), of x] assms(3) by auto
  then have lr: "x \<noteq> r" "L \<noteq> Some x" "L \<noteq> Some r"
    using elist_node(4) [OF assms(1)] by (auto simp: L_def dest!: ln.ptr_ends)
  define h1 where "h1 = ln.link_in h0 L x (Some r)"
  have h1x: "h1 x = Some (?n\<lparr>l_next := Some r, l_prev := L\<rparr>)"
    using lr by (simp add: h1_def h0_def ln.link_in_node)
  have c: "\<And>vs. x \<notin> fst ` set vs \<Longrightarrow> cells h1 a vs = cells (l_nodes s) a vs"
    by (simp add: h1_def h0_def)
  obtain m where m: "deref h1 p = Some m" "l_acc m = Some a"
    using head_after [OF assms(1) _ x c] by auto
  have h1e: "ln.setp (ln.setn (ln.setn (ln.setp h0 (Some x) L) (Some x) (Some r)) L (Some x)) (Some r) (Some x) = h1"
    using lr by (simp add: ln.set_comm ln.link_in_sets h1_def)
  have h0: "h0 r = Some n" "valid h0 L"
    using elist_node(2) [OF assms(1)] n lr by (simp_all add: L_def h0_def)
  then have "valid h0 (Some r)" "valid h0 (Some x)"
    by (simp_all add: valid_def h0_def)
  moreover have p: "p \<noteq> None" "(if L \<noteq> None then p else Some x) = ptr_hd (map fst (us @ (x, d) # (r, e) # ws)) None"
    using elist_node(6) [OF assms(1)] by (cases us; simp add: L_def ptr_last_def)+
  moreover define k where "k = length (us @ (r, e) # ws)"
  moreover have "l_accts s a = Some \<lparr>a_last = ptr_last (Some x) (map fst ((r, e) # ws)), a_count = of_nat k\<rparr>"
    using assms(1) by (simp add: elist_def k_def ptr_last_def last_map)
  ultimately show ?thesis
    unfolding eina_list_prepend_relative_list_def p(2) [symmetric] k_def [symmetric]
    using n(1,2) lr m h1e h1x h0 assms(3) update_accounting_exec [where s = "s\<lparr>l_pool := xs, l_nodes := h1\<rparr>" and l = p and x = x and a = a]
    by (auto simp: list_new_def set_links node_at_def simp flip: h0_def L_def h1_def split: if_splits)
qed

lemma list_append_relative_ok:
  assumes "elist s p a (us @ (r, e) # ws)" and "pool_ok s" and "l_pool s = x # xs" and "length (us @ (r, e) # ws) + 1 < 2 ^ 32"
  shows "becomes s (us @ (r, e) # ws) a (eina_list_append_relative_list s p d (Some r)) a (us @ (r, e) # (x, d) # ws)"
  using link_in_becomes [of s p a "us @ [(r, e)]" ws x xs d] assms
  unfolding list_append_relative_exec [OF assms(1-3)] by simp

lemma list_prepend_relative_ok:
  assumes "elist s p a (us @ (r, e) # ws)" and "pool_ok s" and "l_pool s = x # xs" and "length (us @ (r, e) # ws) + 1 < 2 ^ 32"
  shows "becomes s (us @ (r, e) # ws) a (eina_list_prepend_relative_list s p d (Some r)) a (us @ (x, d) # (r, e) # ws)"
  using link_in_becomes [of s p a us "(r, e) # ws" x xs d] assms
  unfolding list_prepend_relative_exec [OF assms(1-3)] by simp

section \<open>To an end\<close>

text \<open>A node is taken out and linked in again between \<open>vs\<close> and \<open>ws\<close>.\<close>

lemma relink_becomes:
  fixes s us us' vs ws r e a
  defines "h \<equiv> ln.link_in (ln.unlink (l_nodes s) (ptr_last None (map fst us)) (ptr_hd (map fst us') None))
      (ptr_last None (map fst vs)) r (ptr_hd (map fst ws) None)"
  assumes "elist s p a (us @ (r, e) # us')" and "vs @ ws = us @ us'" and "pool_ok s"
  shows "becomes s (us @ (r, e) # us') a
     (Some (ptr_hd (map fst (vs @ (r, e) # ws)) None, s\<lparr>l_nodes := h,
        l_accts := (l_accts s)(a \<mapsto> \<lparr>a_last = ptr_last (Some r) (map fst ws), a_count = of_nat (length (vs @ (r, e) # ws))\<rparr>)\<rparr>))
     a (vs @ (r, e) # ws)"
proof -
  let ?u = "ln.unlink (l_nodes s) (ptr_last None (map fst us)) (ptr_hd (map fst us') None)"
  have d: "ln.dseg (l_nodes s) None (map fst us @ r # map fst us') None" "distinct (map fst us @ r # map fst us')"
    using assms(2) by (simp_all add: elist_def)
  have e: "map fst vs @ map fst ws = map fst us @ map fst us'" "mset (vs @ (r, e) # ws) = mset (us @ (r, e) # us')"
    using assms(3) by (metis map_append) (metis (no_types, lifting) assms(3) mset_append mset.simps(2) union_mset_add_mset_right)
  then have set: "set (vs @ (r, e) # ws) = set (us @ (r, e) # us')" and len: "length (vs @ (r, e) # ws) = length (us @ (r, e) # us')"
    by (metis mset_eq_setD, metis mset_eq_length)
  have x: "r \<notin> set (map fst vs @ map fst ws)" "distinct (map fst vs @ map fst ws)"
    using d(2) unfolding e(1) by auto
  obtain n where n: "l_nodes s r = Some n" "l_acc n = Some a" "l_data n = e"
    using elist_node(1) [OF assms(2)] by auto
  have u: "?u r = Some n"
    using n(1) d(2) by (simp add: ln.unlink_other)
  have "ln.dseg ?u None (map fst vs @ map fst ws) None"
    unfolding e(1) using ln.dseg_unlink [OF d] .
  then have 1: "ln.dseg h None (map fst (vs @ (r, e) # ws)) None"
    unfolding h_def using ln.dseg_link_in [where h = ?u and n = n, OF _ x(2,1) u] by simp
  have 2: "cells h a (vs @ (r, e) # ws)"
    using assms(2) unfolding h_def elist_def cells_def [of _ _ "vs @ (r, e) # ws"] set
    by (simp only: cells_def [symmetric] cells_link_in cells_unlink)
  have 3: "h y = l_nodes s y" if "y \<notin> fst ` set (us @ (r, e) # us')" for y
  proof -
    have "y \<notin> fst ` set (vs @ (r, e) # ws)"
      using that unfolding set .
    then show ?thesis
      using that unfolding h_def by (simp add: ln.link_in_other ln.unlink_other image_Un)
  qed
  have 4: "\<forall>y \<in> set (l_pool s). h y = None"
    using assms(4) by (auto simp: pool_ok_def h_def)
  have 5: "a \<notin> set (l_apool s)"
    using fresh_facts(2) [OF assms(2,4)] by simp
  show ?thesis
    unfolding becomes_def
    using assms(2-) d(2) x 1 2 3 4 5 ptr_last_fst [of ws "Some r"] len by (auto simp: elist_def pool_ok_def leaves_def)
qed

lemma cells_acc: "cells h a vs \<Longrightarrow> y \<in> fst ` set vs \<Longrightarrow> \<exists>n. h y = Some n \<and> l_acc n = Some a"
  by (auto simp: cells_def)

lemma becomes_refl: "elist s p a vs \<Longrightarrow> pool_ok s \<Longrightarrow> becomes s vs a (Some (p, s)) a vs"
  by (auto simp: becomes_def leaves_def)

lemma last_is:
  assumes "elist s p a (us @ (r, e) # ws)"
  shows "Some r = Some (fst (last (us @ (r, e) # ws))) \<longleftrightarrow> ws = []"
  using assms by (cases ws rule: rev_cases) (auto simp: elist_def)

lemma list_promote_exec:
  assumes "elist s p a (us @ (r, e) # ws)" and "us \<noteq> []"
  shows "eina_list_promote_list s p (Some r) = Some (Some r, s\<lparr>
      l_nodes := ln.link_in (ln.unlink (l_nodes s) (ptr_last None (map fst us)) (ptr_hd (map fst ws) None)) None r p,
      l_accts := (l_accts s)(a \<mapsto> \<lparr>a_last = ptr_last None (map fst (us @ ws)), a_count = of_nat (length (us @ (r, e) # ws))\<rparr>)\<rparr>)"
proof -
  define L where "L = ptr_last None (map fst us)"
  define R where "R = ptr_hd (map fst ws) None"
  obtain n where n: "l_nodes s r = Some n" "l_next n = R" "l_prev n = L"
    using elist_node(1) [OF assms(1)] by (auto simp: L_def R_def)
  have d: "ln.dseg (l_nodes s) None (map fst us @ r # map fst ws) None" "distinct (map fst us @ r # map fst ws)"
    using assms(1) by (simp_all add: elist_def)
  obtain y where y: "p = Some y" "y \<in> fst ` set us"
    using elist_node(6) [OF assms(1)] assms(2) by (cases us) auto
  have L: "L \<noteq> None" "L \<noteq> Some r" "R \<noteq> Some r" "R \<noteq> p" "y \<noteq> r"
    using elist_node(4,5) [OF assms(1)] assms(2) y d(2) by (auto simp: L_def R_def ptr_last_def dest!: ln.ptr_ends)
  define u where "u = ln.unlink (l_nodes s) L R"
  have u: "ln.setn (ln.setp (l_nodes s) R L) L R = u"
    by (simp add: u_def ln.unlink_def)
  have ce: "cells (l_nodes s) a (us @ (r, e) # ws)"
    using assms(1) by (simp add: elist_def)
  obtain m1 where m1: "ln.setn (l_nodes s) L R y = Some m1" "l_acc m1 = Some a"
    using cells_acc [of "ln.setn (l_nodes s) L R" a us y] ce y(2) by auto
  have "ln.dseg u None (map fst us @ map fst ws) None"
    using ln.dseg_unlink [OF d] by (simp add: u_def L_def R_def)
  then obtain m2 where m2: "u y = Some m2" "l_prev m2 = None"
    using elist_node(6) [OF assms(1)] assms(2) y(1) by (cases us) auto
  have e1: "ln.setn (ln.setp (ln.setp u (Some r) None) (Some y) (Some r)) (Some r) (Some y) = ln.link_in u None r (Some y)"
    using ln.link_in_sets(1) [of None r "Some y" u] L(5) by simp
  define k where "k = length (us @ (r, e) # ws)"
  define Z where "Z = Some (fst (last (us @ (r, e) # ws)))"
  have acc: "l_accts s a = Some \<lparr>a_last = Z, a_count = of_nat k\<rparr>"
    using assms(1) by (simp add: elist_def k_def Z_def)
  have l: "Z = Some r \<longleftrightarrow> R = None"
    using last_is [OF assms(1)] by (auto simp: R_def Z_def)
  have last: "(if R = None then L else Z) = ptr_last None (map fst (us @ ws))"
    by (auto simp: L_def R_def Z_def ptr_last_fst)
  have v: "valid (l_nodes s) L" "valid (l_nodes s) R" "valid u (Some r)" "valid u (Some y)"
    using elist_node(2,3) [OF assms(1)] n(1) m2 L by (auto simp: L_def R_def u_def valid_def ln.unlink_def)
  have ur: "u r = Some n"
    using n L by (simp add: u_def ln.unlink_def)
  have u0: "R = None \<Longrightarrow> ln.setn (l_nodes s) L None = u"
    using u by simp
  have lr: "ln.link_in u None r (Some y) r = Some (to_prev None (to_next (Some y) n))"
    using ur L(5) by (simp add: ln.link_in_node)
  have la: "R \<noteq> None \<Longrightarrow> s\<lparr>l_nodes := h, l_accts := (l_accts s)(a \<mapsto> \<lparr>a_last = Z, a_count = of_nat k\<rparr>)\<rparr> = s\<lparr>l_nodes := h\<rparr>" for h
    using acc by (cases s) (simp add: map_upd_triv)
  show ?thesis
    unfolding eina_list_promote_list_def last [symmetric] L_def [symmetric] R_def [symmetric] k_def [symmetric] u_def [symmetric]
    using n y(1) L l acc m1 m2 v ur lr la
    by (cases "R = None") (simp_all add: set_links u u0 ln.set_comm e1 set_if_def del: not_None_eq set_node_Some)
qed

lemma list_promote_ok:
  assumes "elist s p a (us @ (r, e) # ws)" and "pool_ok s"
  shows "becomes s (us @ (r, e) # ws) a (eina_list_promote_list s p (Some r)) a ((r, e) # us @ ws)"
proof (cases "us = []")
  case True
  then have "p = Some r"
    using assms(1) by (simp add: elist_def)
  then show ?thesis
    using True assms by (simp add: eina_list_promote_list_def becomes_refl)
next
  case False
  have "p = ptr_hd (map fst (us @ ws)) None"
    using elist_node(6) [OF assms(1)] False by (cases us) auto
  moreover have "ptr_last (Some r) (map fst (us @ ws)) = ptr_last None (map fst (us @ ws))"
    using False by (auto simp: ptr_last_def)
  ultimately show ?thesis
    using relink_becomes [of s p a us r e ws "[]" "us @ ws"] assms False
    unfolding list_promote_exec [OF assms(1) False] by simp
qed

lemma list_demote_exec:
  assumes "elist s p a (us @ (r, e) # ws)" and "ws \<noteq> []"
  shows "eina_list_demote_list s p (Some r) = Some (ptr_hd (map fst (us @ ws)) None, s\<lparr>
      l_nodes := ln.link_in (ln.unlink (l_nodes s) (ptr_last None (map fst us)) (ptr_hd (map fst ws) None))
        (ptr_last None (map fst (us @ ws))) r None,
      l_accts := (l_accts s)(a \<mapsto> \<lparr>a_last = Some r, a_count = of_nat (length (us @ (r, e) # ws))\<rparr>)\<rparr>)"
proof -
  define L where "L = ptr_last None (map fst us)"
  define R where "R = ptr_hd (map fst ws) None"
  obtain n where n: "l_nodes s r = Some n" "l_next n = R" "l_prev n = L"
    using elist_node(1) [OF assms(1)] by (auto simp: L_def R_def)
  have ce: "cells (l_nodes s) a (us @ (r, e) # ws)" and d: "distinct (map fst us @ r # map fst ws)"
    using assms(1) by (simp_all add: elist_def)
  obtain y where y: "ptr_hd (map fst (us @ ws)) None = Some y" "y \<in> fst ` set (us @ ws)"
    using assms(2) by (cases us; cases ws) auto
  have p: "(if p = Some r then l_next n else p) = Some y"
    using elist_node(6) [OF assms(1)] y(1) n(2) d by (cases us) (auto simp: R_def)
  obtain z where z: "fst (last (us @ (r, e) # ws)) = z" "z \<in> fst ` set ws"
    using assms(2) by auto
  have L: "R \<noteq> None" "L \<noteq> Some r" "R \<noteq> Some r" "y \<noteq> r" "z \<noteq> r"
    using elist_node(4,5) [OF assms(1)] assms(2) y z d by (auto simp: L_def R_def)
  have pz: "ptr_last None (map fst (us @ ws)) = Some z"
    using assms(2) z(1) by (auto simp: ptr_last_def last_map)
  define u where "u = ln.unlink (l_nodes s) L R"
  have u: "ln.setn (ln.setp (l_nodes s) R L) L R = u"
    by (simp add: u_def ln.unlink_def)
  have cu: "cells u a (us @ (r, e) # ws)"
    using ce by (simp only: u_def cells_unlink)
  obtain m0 where m0: "node_at s p = Some m0" "l_acc m0 = Some a"
    using elist_head_node(1) [OF assms(1)] by auto
  define f where "f = ln.link_in u (Some z) r None"
  obtain m1 where m1: "u y = Some m1" "l_acc m1 = Some a"
    using cells_acc [OF cu, of y] y(2) by auto
  have "cells f a (us @ (r, e) # ws)"
    using cu by (simp only: f_def cells_link_in)
  then obtain m2 where m2: "f y = Some m2" "l_acc m2 = Some a"
    using cells_acc [of f a "us @ (r, e) # ws" y] y(2) by auto
  have e1: "ln.setn (ln.setn (ln.setp u (Some r) (Some z)) (Some z) (Some r)) (Some r) None = f"
    using ln.link_in_sets(3) [of "Some z" r None u] L(5) by (simp add: f_def)
  define k where "k = length (us @ (r, e) # ws)"
  have acc: "l_accts s a = Some \<lparr>a_last = Some z, a_count = of_nat k\<rparr>"
    using assms(1) z(1) by (simp add: elist_def k_def)
  obtain nz where nz: "u z = Some nz"
    using cells_acc [OF cu, of z] z(2) by auto
  have ur: "u r = Some n" "ln.setn (l_nodes s) L R r = Some n" "ln.setp u (Some r) (Some z) r = Some (to_prev (Some z) n)"
    using n L by (simp_all add: u_def ln.unlink_def ln.set_Some)
  have v: "valid (l_nodes s) L" "valid (l_nodes s) R" "valid u (Some r)" "valid u (Some z)"
    using elist_node(2,3) [OF assms(1)] ur nz by (auto simp: L_def R_def valid_def)
  have "p \<noteq> None"
    using elist_node(6) [OF assms(1)] by (cases us) auto
  then show ?thesis
    unfolding eina_list_demote_list_def L_def [symmetric] R_def [symmetric] k_def [symmetric] y(1) pz u_def [symmetric] f_def [symmetric]
    using n L acc m0 m1 m2 v ur p
    by (simp add: set_links u ln.set_comm e1 Let_def del: not_None_eq set_node_Some split del: if_split)
qed

lemma list_demote_ok:
  assumes "elist s p a (us @ (r, e) # ws)" and "pool_ok s"
  shows "becomes s (us @ (r, e) # ws) a (eina_list_demote_list s p (Some r)) a (us @ ws @ [(r, e)])"
proof (cases "ws = []")
  case True
  obtain n where "node_at s p = Some n" "l_acc n = Some a" "p \<noteq> None"
    using elist_head_node [OF assms(1)] by auto
  moreover have "l_accts s a = Some \<lparr>a_last = Some r, a_count = of_nat (length us) + 1\<rparr>"
    using assms(1) True by (simp add: elist_def)
  ultimately show ?thesis
    using True assms by (auto simp: eina_list_demote_list_def becomes_refl)
next
  case False
  then show ?thesis
    using relink_becomes [of s p a us r e ws "us @ ws" "[]"] assms
    unfolding list_demote_exec [OF assms(1) False] by (cases us; cases ws; simp)
qed

section \<open>Editing a sequence of data\<close>

text \<open>
  The calls of a client that knows its data and not the nodes: a node is looked up with
  \<open>eina_list_data_find_list\<close> where a function wants one.
\<close>

datatype 'd list_req =
    L_append 'd
  | L_prepend 'd
  | L_append_relative 'd 'd
  | L_prepend_relative 'd 'd
  | L_remove 'd
  | L_promote 'd
  | L_demote 'd

fun list_call :: "'d list_req \<Rightarrow> 'd lstate \<Rightarrow> ptr \<Rightarrow> (ptr \<times> 'd lstate) option" where
  "list_call (L_append d) s l = eina_list_append s l d"
| "list_call (L_prepend d) s l = eina_list_prepend s l d"
| "list_call (L_append_relative d r) s l = eina_list_append_relative s l d r"
| "list_call (L_prepend_relative d r) s l = eina_list_prepend_relative s l d r"
| "list_call (L_remove d) s l = eina_list_remove s l d"
| "list_call (L_promote d) s l = do { r \<leftarrow> eina_list_data_find_list s l d; eina_list_promote_list s l r }"
| "list_call (L_demote d) s l = do { r \<leftarrow> eina_list_data_find_list s l d; eina_list_demote_list s l r }"

fun list_calls :: "'d list_req list \<Rightarrow> 'd lstate \<Rightarrow> ptr \<Rightarrow> (ptr \<times> 'd lstate) option" where
  "list_calls [] s l = Some (l, s)"
| "list_calls (c # cs) s l = do { (l, s) \<leftarrow> list_call c s l; list_calls cs s l }"

text \<open>A new datum goes to an end of the list when the other is not found.\<close>

fun seq_call :: "'d list_req \<Rightarrow> 'd list \<Rightarrow> 'd list" where
  "seq_call (L_append d) xs = xs @ [d]"
| "seq_call (L_prepend d) xs = d # xs"
| "seq_call (L_append_relative d r) xs = (if r \<in> set xs then insert_after r d xs else xs @ [d])"
| "seq_call (L_prepend_relative d r) xs = (if r \<in> set xs then insert_before r d xs else d # xs)"
| "seq_call (L_remove d) xs = remove1 d xs"
| "seq_call (L_promote d) xs = (if d \<in> set xs then d # remove1 d xs else xs)"
| "seq_call (L_demote d) xs = (if d \<in> set xs then remove1 d xs @ [d] else xs)"

lemma find_node_ok:
  assumes "ln.dseg (l_nodes s) q (map fst vs) None" and "cells (l_nodes s) a vs"
  shows "list_find_node s (ptr_hd (map fst vs) None) P = Some (map_option fst (find (\<lambda>v. P (snd v)) vs))"
  using assms
proof (induction vs arbitrary: q)
  case Nil
  then show ?case
    by (subst list_find_node.simps) simp
next
  case (Cons v vs)
  then show ?case
    by (subst list_find_node.simps) auto
qed

lemma data_find_ok:
  assumes "elist s p a vs"
  obtains us r ws where "vs = us @ (r, d) # ws" "d \<notin> snd ` set us" "list_find_node s p (\<lambda>x. x = d) = Some (Some r)"
  | "d \<notin> snd ` set vs" "list_find_node s p (\<lambda>x. x = d) = Some None"
proof (cases "find (\<lambda>v. snd v = d) vs")
  case None
  then have "d \<notin> snd ` set vs"
    by (auto simp: find_None_iff)
  then show ?thesis
    using that(2) find_node_ok [of s None vs a "\<lambda>x. x = d"] assms None by (auto simp: elist_def)
next
  case (Some v)
  then obtain i where i: "i < length vs" "snd (vs ! i) = d" "v = vs ! i" "\<forall>j < i. snd (vs ! j) \<noteq> d"
    by (auto simp: find_Some_iff)
  have "vs = take i vs @ (fst v, d) # drop (Suc i) vs"
    using i id_take_nth_drop [of i vs] by (metis prod.collapse)
  moreover have "d \<notin> snd ` set (take i vs)"
    using i by (force simp: in_set_conv_nth)
  ultimately show ?thesis
    using that(1) [of "take i vs" "fst v"] find_node_ok [of s None vs a "\<lambda>x. x = d"] assms Some by (auto simp: elist_def)
qed


definition yields :: "'d lstate \<Rightarrow> (addr \<times> 'd) list \<Rightarrow> addr \<Rightarrow> (ptr \<times> 'd lstate) option \<Rightarrow> 'd list \<Rightarrow> bool" where
  "yields s vs a r ys \<longleftrightarrow> (\<exists>a' vs'. becomes s vs a r a' vs' \<and> map snd vs' = ys)"

lemma yieldsI: "becomes s vs a r a' vs' \<Longrightarrow> map snd vs' = ys \<Longrightarrow> yields s vs a r ys"
  by (auto simp: yields_def)

lemma list_ends_yield:
  assumes "elist s p a vs" and "pool_ok s" and "l_pool s \<noteq> []" and "l_apool s \<noteq> []" and "length vs + 1 < 2 ^ 32"
  shows "yields s vs a (eina_list_append s p d) (map snd vs @ [d])" and "yields s vs a (eina_list_prepend s p d) (d # map snd vs)"
proof -
  obtain x xs b bs where pools: "l_pool s = x # xs" "l_apool s = b # bs"
    using assms(3,4) by (meson neq_Nil_conv)
  define a1 where "a1 = (if vs = [] then b else a)"
  have e: "elist s p a1 vs"
    using assms(1) by (auto simp: elist_def a1_def)
  have same: "yields s vs a r ys = yields s vs a1 r ys" for r ys
    by (auto simp: yields_def becomes_def leaves_def a1_def)
  have a1: "vs = [] \<Longrightarrow> l_apool s = a1 # bs"
    using pools by (simp add: a1_def)
  show "yields s vs a (eina_list_append s p d) (map snd vs @ [d])"
    unfolding same using list_append_ok [OF e assms(2) pools(1) a1 assms(5)] by (rule yieldsI) simp_all
  show "yields s vs a (eina_list_prepend s p d) (d # map snd vs)"
    unfolding same using list_prepend_ok [OF e assms(2) pools(1) a1 assms(5)] by (rule yieldsI) simp_all
qed

lemma list_node_yield:
  assumes "elist s p a vs" and "pool_ok s" and "l_pool s \<noteq> []" and "length vs + 1 < 2 ^ 32"
    and "vs = us @ (r, e) # ws" and "e \<notin> snd ` set us"
  shows "yields s vs a (eina_list_append_relative_list s p d (Some r)) (insert_after e d (map snd vs))"
    and "yields s vs a (eina_list_prepend_relative_list s p d (Some r)) (insert_before e d (map snd vs))"
    and "yields s vs a (eina_list_remove_list s p (Some r)) (remove1 e (map snd vs))"
    and "yields s vs a (eina_list_promote_list s p (Some r)) (e # remove1 e (map snd vs))"
    and "yields s vs a (eina_list_demote_list s p (Some r)) (remove1 e (map snd vs) @ [e])"
proof -
  obtain x xs where x: "l_pool s = x # xs"
    using assms(3) by (meson neq_Nil_conv)
  have l: "length (us @ (r, e) # ws) + 1 < 2 ^ 32" and el: "elist s p a (us @ (r, e) # ws)"
    using assms by simp_all
  note node = list_append_relative_ok [OF el assms(2) x l] list_prepend_relative_ok [OF el assms(2) x l]
    list_remove_ok [OF el assms(2)] list_promote_ok [OF el assms(2)] list_demote_ok [OF el assms(2)]
  show "yields s vs a (eina_list_append_relative_list s p d (Some r)) (insert_after e d (map snd vs))"
    and "yields s vs a (eina_list_prepend_relative_list s p d (Some r)) (insert_before e d (map snd vs))"
    and "yields s vs a (eina_list_remove_list s p (Some r)) (remove1 e (map snd vs))"
    and "yields s vs a (eina_list_promote_list s p (Some r)) (e # remove1 e (map snd vs))"
    and "yields s vs a (eina_list_demote_list s p (Some r)) (remove1 e (map snd vs) @ [e])"
    using assms(6) unfolding assms(5) by (auto intro: node [THEN yieldsI])
qed

lemma list_null_node:
  "eina_list_remove_list s p None = Some (p, s)" "eina_list_promote_list s p None = Some (p, s)"
  "eina_list_demote_list s p None = Some (p, s)"
  by (auto simp: eina_list_remove_list_def eina_list_promote_list_def eina_list_demote_list_def)

lemma list_call_ok:
  assumes "elist s p a vs" and "pool_ok s" and "l_pool s \<noteq> []" and "l_apool s \<noteq> []" and "length vs + 1 < 2 ^ 32"
  shows "yields s vs a (list_call c s p) (seq_call c (map snd vs))"
proof -
  have found: "yields s vs a (list_call c s p) (seq_call c (map snd vs))"
    if "d = (case c of L_append_relative d e \<Rightarrow> e | L_prepend_relative d e \<Rightarrow> e | L_remove e \<Rightarrow> e | L_promote e \<Rightarrow> e | L_demote e \<Rightarrow> e | _ \<Rightarrow> d)" for d
  proof (cases rule: data_find_ok [OF assms(1), of d])
    case (1 us r ws)
    then show ?thesis
      using list_node_yield [OF assms(1-3,5) 1(1,2)] list_ends_yield [OF assms] that
      by (cases c) (auto simp: eina_list_append_relative_def eina_list_prepend_relative_def eina_list_remove_def eina_list_data_find_list_def)
  next
    case 2
    then show ?thesis
      using list_ends_yield [OF assms] that yieldsI [OF becomes_refl [OF assms(1,2)]]
      by (cases c) (auto simp: eina_list_append_relative_def eina_list_prepend_relative_def eina_list_remove_def eina_list_data_find_list_def
         list_null_node remove1_idem)
  qed
  then show ?thesis
    by (cases c) simp_all
qed

lemma seq_call_length: "length (seq_call c xs) \<le> Suc (length xs)"
proof -
  have "length (insert_after r d xs) \<le> Suc (length xs)" "length (insert_before r d xs) \<le> Suc (length xs)" for r d
    by (induction xs) auto
  then show ?thesis
    by (cases c) (auto simp: length_remove1)
qed

lemma list_calls_ok:
  assumes "elist s p a vs" and "pool_ok s" and "length cs \<le> length (l_pool s)" and "length cs \<le> length (l_apool s)"
    and "length vs + length cs < 2 ^ 32"
  shows "\<exists>p' s' a' vs'. list_calls cs s p = Some (p', s') \<and> elist s' p' a' vs' \<and> pool_ok s' \<and>
    map snd vs' = fold seq_call cs (map snd vs)"
  using assms
proof (induction cs arbitrary: s p a vs)
  case Nil
  then show ?case by auto
next
  case (Cons c cs)
  have "yields s vs a (list_call c s p) (seq_call c (map snd vs))"
    using Cons.prems by (intro list_call_ok) auto
  then obtain a1 vs1 p1 s1 where r: "list_call c s p = Some (p1, s1)" "elist s1 p1 a1 vs1" "pool_ok s1" "map snd vs1 = seq_call c (map snd vs)"
      "length (l_pool s) \<le> Suc (length (l_pool s1))" "length (l_apool s) \<le> Suc (length (l_apool s1))"
    by (auto simp: yields_def becomes_def leaves_def)
  have "length vs1 \<le> Suc (length vs)"
    using seq_call_length [of c "map snd vs"] r(4) by (metis length_map)
  then show ?case
    using Cons.IH [OF r(2,3)] Cons.prems r by auto
qed

end
