(* ===== verification/Eina_List_Sort.thy ===== *)
theory Eina_List_Sort
  imports Eina_List_Edits Linked_Sort
begin

text \<open>
  Reading a list by position, and \<open>eina_list_sort\<close> on top of the merge sort the two lists share.
\<close>

section \<open>Positions\<close>

lemma elist_nth:
  assumes "elist s p a vs" and "i < length vs"
  obtains n where "l_nodes s (fst (vs ! i)) = Some n" "l_acc n = Some a" "l_data n = snd (vs ! i)"
    "l_next n = (if Suc i < length vs then Some (fst (vs ! Suc i)) else None)"
    "l_prev n = (if i = 0 then None else Some (fst (vs ! (i - 1))))"
proof -
  have "ln.dseg (l_nodes s) None (map fst vs) None" "cells (l_nodes s) a vs"
    using assms(1) by (simp_all add: elist_def)
  moreover obtain m where "l_nodes s (fst (vs ! i)) = Some m" "l_acc m = Some a" "l_data m = snd (vs ! i)"
    using calculation(2) assms(2) by (force simp: cells_def)
  ultimately show ?thesis
    using that [of m] assms(2) by (auto elim!: ln.dseg_node [where i = i])
qed

lemma elist_acct:
  assumes "elist s p a vs" and "vs \<noteq> []"
  obtains n where "node_at s p = Some n" "l_acc n = Some a" "l_data n = snd (hd vs)" "p = Some (fst (hd vs))"
    "l_accts s a = Some \<lparr>a_last = Some (fst (last vs)), a_count = of_nat (length vs)\<rparr>"
  using assms by (auto simp: elist_def neq_Nil_conv)

lemma nth_forth_ok:
  assumes "elist s p a vs" and "i \<le> j" and "j < length vs"
  shows "nth_forth s (Some (fst (vs ! i))) (of_nat i) (of_nat j) = Some (Some (fst (vs ! j)))"
  using assms(2)
proof (induction i rule: inc_induct)
  case base
  then show ?case
    by (subst nth_forth.simps) simp
next
  case (step k)
  obtain n where n: "l_nodes s (fst (vs ! k)) = Some n" "l_next n = Some (fst (vs ! Suc k))"
    using elist_nth [OF assms(1), of k] step(2) assms(3) by auto
  have "length vs < 2 ^ 32"
    using assms(1) by (simp add: elist_def)
  then have "(of_nat k :: u32) \<noteq> of_nat j"
    using step(2) assms(3) by (simp add: word_of_nat_eq_iff take_bit_nat_eq_self)
  then show ?case
    using step n by (subst nth_forth.simps) (simp add: add.commute)
qed

lemma nth_back_ok:
  assumes "elist s p a vs" and "j \<le> i" and "i < length vs"
  shows "nth_back s (Some (fst (vs ! i))) (of_nat i) (of_nat j) = Some (Some (fst (vs ! j)))"
  using assms(2,3)
proof (induction i rule: dec_induct)
  case base
  then show ?case
    by (subst nth_back.simps) simp
next
  case (step k)
  obtain n where n: "l_nodes s (fst (vs ! Suc k)) = Some n" "l_prev n = Some (fst (vs ! k))"
    using elist_nth [OF assms(1), of "Suc k"] step by auto
  have "length vs < 2 ^ 32"
    using assms(1) by (simp add: elist_def)
  then have "(of_nat (Suc k) :: u32) \<noteq> of_nat j"
    using step by (simp only: word_of_nat_eq_iff) (simp add: take_bit_nat_eq_self)
  then show ?case
    using step n by (subst nth_back.simps) simp
qed

lemma of_nat_less_u32: "i < 2 ^ 32 \<Longrightarrow> j < 2 ^ 32 \<Longrightarrow> (of_nat i :: u32) < of_nat j \<longleftrightarrow> i < j"
  by (simp add: word_less_nat_alt unat_of_nat)

lemma nth_list_ok:
  assumes "elist s p a vs"
  shows "eina_list_nth_list s p n = Some (if unat n < length vs then Some (fst (vs ! unat n)) else None)"
proof (cases "vs = []")
  case True
  then show ?thesis
    using assms by (simp add: eina_list_nth_list_def elist_def)
next
  case False
  define k where "k = length vs - 1"
  have k: "length vs = Suc k" "k < 2 ^ 32" "Suc k < 2 ^ 32"
    using False assms by (auto simp: k_def elist_def)
  obtain m where m: "node_at s p = Some m" "l_acc m = Some a" "p = Some (fst (vs ! 0))"
      "l_accts s a = Some \<lparr>a_last = Some (fst (vs ! k)), a_count = of_nat (Suc k)\<rparr>"
    using elist_acct [OF assms False] False k by (metis hd_conv_nth k_def last_conv_nth)
  have n: "n = of_nat (unat n)" "unat n < 2 ^ 32"
    using unsigned_less [of n] by simp_all
  show ?thesis
  proof (cases "unat n < length vs")
    case True
    then show ?thesis
      using nth_forth_ok [OF assms, of 0 "unat n"] nth_back_ok [OF assms, of "unat n" k] k m n of_nat_less_u32 [of k "unat n"]
      by (auto simp: eina_list_nth_list_def)
  next
    case False
    then show ?thesis
      using k m n of_nat_less_u32 [of k "unat n"] by (auto simp: eina_list_nth_list_def)
  qed
qed

section \<open>Sorting\<close>

interpretation ln_sort: list_sort l_next l_prev to_next to_prev "\<lambda>x n. l_data n"
  list_merge_loop eina_list_sort_merge list_collapse list_sort_loop list_merge_all list_rebuild_prev
proof (unfold_locales, goal_cases)
  case (3 a b func h l)
  then show ?case by (subst list_merge_loop.simps) auto
next
  case (4 h x n y m func l)
  then show ?case by (subst list_merge_loop.simps) simp
next
  case (5 h x n y m func)
  then show ?case by (simp add: eina_list_sort_merge_def map_conv_bind_option comp_def)
next
  case (6 func i h st)
  show ?case by (subst list_collapse.simps) (rule refl)
next
  case (7 func h k st)
  show ?case by (subst list_sort_loop.simps) simp
next
  case (8 h x n func k st)
  then show ?case by (subst list_sort_loop.simps) (simp add: list_stack_push_def EINA_LIST_SORT_STACK_SIZE_def)
next
  case (9 h x n y m func k st)
  then show ?case
    by (subst list_sort_loop.simps) (simp add: list_stack_push_def EINA_LIST_SORT_STACK_SIZE_def)
next
  case (10 func h q)
  show ?case by (subst list_merge_all.simps) simp
next
  case (11 func h b a st)
  show ?case by (subst list_merge_all.simps) simp
next
  case (12 h p)
  show ?case by (subst list_rebuild_prev.simps) simp
next
  case (13 h x n p)
  then show ?case by (subst list_rebuild_prev.simps) simp
qed auto

lemma cells_relinked: "ln_sort.relinked S h h' \<Longrightarrow> cells h a vs \<Longrightarrow> cells h' a vs"
  unfolding cells_def ln_sort.relinked_def by fastforce

lemma cells_untag:
  assumes "cells h a us" and "mset ys = mset (map fst us)"
  defines "tag \<equiv> \<lambda>x. (x, ln_sort.kf h x)"
  shows "mset (map tag ys) = mset us" and "map fst (map tag ys) = ys" and "map snd (map tag ys) = map (ln_sort.kf h) ys"
proof -
  have "tag (fst v) = v" if "v \<in> set us" for v
    using assms(1) that by (auto simp: tag_def cells_def ln_sort.kf_def prod_eq_iff)
  then have "map tag (map fst us) = us"
    by (simp add: map_idI)
  then show "mset (map tag ys) = mset us"
    using assms(2) by (metis mset_map)
  show "map fst (map tag ys) = ys" "map snd (map tag ys) = map (ln_sort.kf h) ys"
    by (simp_all add: tag_def comp_def)
qed

text \<open>The part before the limit is cut off, sorted, and linked before the rest again.\<close>

lemma sort_part:
  assumes "elist s p a (us @ ws)" and "us \<noteq> []"
  defines "h \<equiv> if ws = [] then l_nodes s else ln.setn (l_nodes s) (ptr_last None (map fst us)) None"
  shows "\<exists>h1 st q h2 h3 us'. list_sort_loop f h p 0 [] = Some (h1, st) \<and> list_merge_all f h1 st = Some (q, h2) \<and>
    list_rebuild_prev h2 q None = Some (Some (fst (last us')), h3) \<and> q = ptr_hd (map fst us') None \<and> us' \<noteq> [] \<and>
    mset us' = mset us \<and> ln.dseg h3 None (map fst us') None \<and> cells h3 a (us' @ ws) \<and>
    (\<forall>y. y \<notin> fst ` set us \<longrightarrow> h3 y = l_nodes s y) \<and> (\<forall>y. h3 y = None \<longleftrightarrow> l_nodes s y = None) \<and>
    (compare_cb f \<longrightarrow> sorted_wrt (\<lambda>x y. f x y \<le> 0) (map snd us'))"
proof -
  have e: "distinct (map fst us)" "ln.dseg (l_nodes s) None (map fst us) (ptr_hd (map fst ws) None)"
      "cells (l_nodes s) a (us @ ws)" "length us < 2 ^ 32" "p = ptr_hd (map fst us) None"
    using assms(1,2) by (auto simp: elist_def neq_Nil_conv)
  have "ln.dseg h None (map fst us) None"
    using e(2) ln.dseg_setn_last [OF e(2,1)] by (auto simp: h_def)
  then have "ln.chain h (map fst us) p"
    unfolding e(5) by (rule ln.dseg_chain)
  then obtain h1 st q h2 h3 ys where r: "list_sort_loop f h p 0 [] = Some (h1, st)" "list_merge_all f h1 st = Some (q, h2)"
      "list_rebuild_prev h2 q None = Some (Some (last ys), h3)" "q = ptr_hd ys None" "ln.dseg h3 None ys None"
      "mset ys = mset (map fst us)" "ln_sort.relinked (set (map fst us)) h h3" "compare_cb f \<longrightarrow> ln_sort.asc f (ln_sort.kf h) ys"
    using ln_sort.sort_ok [of h "map fst us" p f] e(1,4) assms(2) by auto
  define us' where "us' = map (\<lambda>x. (x, ln_sort.kf h x)) ys"
  have c: "cells h a (us @ ws)"
    using e(3) by (simp add: h_def)
  have u: "mset us' = mset us" "map fst us' = ys" "map snd us' = map (ln_sort.kf h) ys"
    using cells_untag [OF _ r(6), of h a] c by (simp_all add: us'_def)
  have "us' \<noteq> []"
    using u(1) assms(2) by auto
  moreover from this have "last ys = fst (last us')"
    by (simp add: u(2) [symmetric] last_map)
  moreover have "cells h3 a (us' @ ws)"
    using cells_relinked [OF r(7) c] mset_eq_setD [OF u(1)] by (simp add: cells_def)
  moreover have "\<forall>y. y \<notin> fst ` set us \<longrightarrow> h3 y = l_nodes s y"
  proof (intro allI impI)
    fix y assume y: "y \<notin> fst ` set us"
    then have "ptr_last None (map fst us) \<noteq> Some y"
      by (auto dest: ln.ptr_ends)
    then show "h3 y = l_nodes s y"
      using ln_sort.relinked_frame [OF r(7), of y] y by (simp add: h_def)
  qed
  moreover have "\<forall>y. h3 y = None \<longleftrightarrow> l_nodes s y = None"
  proof -
    have "h3 y = None \<longleftrightarrow> h y = None" for y
      using r(7) unfolding ln_sort.relinked_def by (metis not_None_eq)
    then show ?thesis
      by (simp add: h_def)
  qed
  moreover have "compare_cb f \<longrightarrow> sorted_wrt (\<lambda>x y. f x y \<le> 0) (map snd us')"
    using r(8) unfolding u(3) ln_sort.asc_def sorted_wrt_map .
  moreover have "list_rebuild_prev h2 q None = Some (Some (fst (last us')), h3)" "q = ptr_hd (map fst us') None"
      "ln.dseg h3 None (map fst us') None"
    using r(3-5) calculation(2) u(2) by simp_all
  ultimately show ?thesis
    using r(1,2) u(1) by blast
qed

lemma list_sort_all:
  assumes "elist s p a us" and "us \<noteq> []" and "limit = 0 \<or> limit \<ge> of_nat (length us)"
  shows "\<exists>h us'. mset us' = mset us \<and> eina_list_sort (Some f) s p limit = Some (ptr_hd (map fst us') None,
       s\<lparr>l_nodes := h, l_accts := (l_accts s)(a \<mapsto> \<lparr>a_last = Some (fst (last us')), a_count = of_nat (length us)\<rparr>)\<rparr>) \<and>
     ln.dseg h None (map fst us') None \<and> cells h a us' \<and>
     (\<forall>y. y \<notin> fst ` set us \<longrightarrow> h y = l_nodes s y) \<and> (\<forall>y. h y = None \<longleftrightarrow> l_nodes s y = None) \<and>
     (compare_cb f \<longrightarrow> sorted_wrt (\<lambda>x y. f x y \<le> 0) (map snd us'))"
proof -
  have e: "elist s p a (us @ [])"
    using assms(1) by simp
  obtain h1 st q h2 h3 us' where r: "list_sort_loop f (l_nodes s) p 0 [] = Some (h1, st)" "list_merge_all f h1 st = Some (q, h2)"
      "list_rebuild_prev h2 q None = Some (Some (fst (last us')), h3)" "q = ptr_hd (map fst us') None" "us' \<noteq> []" "cells h3 a us'"
    and t: "mset us' = mset us" "ln.dseg h3 None (map fst us') None" "\<forall>y. y \<notin> fst ` set us \<longrightarrow> h3 y = l_nodes s y"
      "\<forall>y. h3 y = None \<longleftrightarrow> l_nodes s y = None" "compare_cb f \<longrightarrow> sorted_wrt (\<lambda>x y. f x y \<le> 0) (map snd us')"
    using sort_part [OF e assms(2), of f] by auto
  obtain n where n: "node_at s p = Some n" "l_acc n = Some a" "p \<noteq> None"
      "l_accts s a = Some \<lparr>a_last = Some (fst (last us)), a_count = of_nat (length us)\<rparr>"
    using elist_acct [OF assms(1,2)] by (metis option.discI)
  obtain y m where m: "q = Some y" "h3 y = Some m" "l_acc m = Some a"
    using r(4-6) by (auto simp: neq_Nil_conv)
  have "eina_list_sort (Some f) s p limit = Some (q,
       s\<lparr>l_nodes := h3, l_accts := (l_accts s)(a \<mapsto> \<lparr>a_last = Some (fst (last us')), a_count = of_nat (length us)\<rparr>)\<rparr>)"
    using n m r(1-3) assms(3) by (auto simp: eina_list_sort_def)
  then show ?thesis
    using t r(4,6) by blast
qed

lemma list_sort_some:
  assumes "elist s p a (us @ ws)" and "us \<noteq> []" and "ws \<noteq> []"
  shows "\<exists>h us'. mset us' = mset us \<and> eina_list_sort (Some f) s p (of_nat (length us)) = Some (ptr_hd (map fst us') None, s\<lparr>l_nodes := h\<rparr>) \<and>
     ln.dseg h None (map fst (us' @ ws)) None \<and> cells h a (us' @ ws) \<and>
     (\<forall>y. y \<notin> fst ` set (us @ ws) \<longrightarrow> h y = l_nodes s y) \<and> (\<forall>y. h y = None \<longleftrightarrow> l_nodes s y = None) \<and>
     (compare_cb f \<longrightarrow> sorted_wrt (\<lambda>x y. f x y \<le> 0) (map snd us'))"
proof -
  let ?L = "ptr_last None (map fst us)" and ?U = "ptr_hd (map fst ws) None"
  let ?h = "ln.setn (l_nodes s) ?L None"
  obtain h1 st q h2 h3 us' where r: "list_sort_loop f ?h p 0 [] = Some (h1, st)" "list_merge_all f h1 st = Some (q, h2)"
      "list_rebuild_prev h2 q None = Some (Some (fst (last us')), h3)" "q = ptr_hd (map fst us') None" "us' \<noteq> []" "cells h3 a (us' @ ws)"
    and t: "mset us' = mset us" "ln.dseg h3 None (map fst us') None" "\<forall>y. y \<notin> fst ` set us \<longrightarrow> h3 y = l_nodes s y"
      "\<forall>y. h3 y = None \<longleftrightarrow> l_nodes s y = None" "compare_cb f \<longrightarrow> sorted_wrt (\<lambda>x y. f x y \<le> 0) (map snd us')"
    using sort_part [OF assms(1,2), of f] assms(3) by auto
  obtain w e ws' where w: "ws = (w, e) # ws'"
    using assms(3) by (metis neq_Nil_conv prod.exhaust)
  note node = elist_node [OF assms(1) [unfolded w]]
  obtain n where n: "l_nodes s w = Some n" "l_prev n = ?L" "valid (l_nodes s) ?L" "?L \<noteq> None"
    using node(1,2) assms(2) by (auto simp: ptr_last_def)
  have len: "length us + length ws < 2 ^ 32" "0 < length us" "0 < length ws"
    using assms by (auto simp: elist_def)
  then have lim: "(of_nat (length us) :: u32) < of_nat (length us + length ws)" "(of_nat (length us) :: u32) \<noteq> 0"
      "unat (of_nat (length us) :: u32) = length us"
    using of_nat_less_u32 [of "length us" "length us + length ws"] of_nat_u32_0 [of "length us"] by (auto simp: unat_of_nat)
  obtain m where m: "node_at s p = Some m" "l_acc m = Some a" "p \<noteq> None"
      "l_accts s a = Some \<lparr>a_last = Some (fst (last (us @ ws))), a_count = of_nat (length us + length ws)\<rparr>"
    using elist_acct [OF assms(1)] assms(2) by (metis append_is_Nil_conv length_append option.discI)
  have nth: "eina_list_nth_list s p (of_nat (length us)) = Some (Some w)"
    using nth_list_ok [OF assms(1), of "of_nat (length us)"] lim(3) len by (simp add: w)
  let ?T = "Some (fst (last us'))"
  let ?h4 = "ln.setp (ln.setn h3 ?T (Some w)) (Some w) ?T"
  have last: "ptr_last None (map fst us') = ?T" "fst (last us') \<in> fst ` set us"
    using r(5) mset_eq_setD [OF t(1)] last_in_set [of us'] by (simp_all add: ptr_last_fst)
  have "mset (map fst us') = mset (map fst us)"
    using t(1) by (metis mset_map)
  then have d: "distinct (map fst us' @ map fst ws)" "fst ` set us' = fst ` set us"
    using assms(1) mset_eq_setD [OF t(1)] mset_eq_imp_distinct_iff [of "map fst us'" "map fst us"] by (auto simp: elist_def)
  have v: "valid h3 ?T" "valid h3 (Some w)"
    using r(6) w last_in_set [OF r(5)] by (auto simp: valid_def cells_def)
  have exec: "eina_list_sort (Some f) s p (of_nat (length us)) = Some (q, s\<lparr>l_nodes := ?h4\<rparr>)"
    using m nth n lim(2) less_imp_neq [OF lim(1)] less_imp_not_less [OF lim(1)] r(1-3) v
    by (simp add: eina_list_sort_def set_links Let_def del: not_None_eq of_nat_add set_node_Some)
  have "ln.dseg (l_nodes s) ?L (map fst ws) None"
    using assms(1) by (simp add: elist_def)
  then have "ln.dseg h3 ?L (map fst ws) None"
    using t(3) d by (subst ln.dseg_cong [where h' = "l_nodes s"]) auto
  from ln.dseg_join [OF t(2) this d(1)] have "ln.dseg ?h4 None (map fst (us' @ ws)) None"
    using r(5) last(1) by (simp add: w)
  moreover have "\<forall>y. y \<notin> fst ` set (us @ ws) \<longrightarrow> ?h4 y = l_nodes s y"
  proof (intro allI impI)
    fix y assume y: "y \<notin> fst ` set (us @ ws)"
    then have "fst (last us') \<noteq> y" "w \<noteq> y"
      using last(2) w by auto
    then show "?h4 y = l_nodes s y"
      using t(3) y by (simp add: image_Un)
  qed
  moreover have "cells ?h4 a (us' @ ws)" "\<forall>y. ?h4 y = None \<longleftrightarrow> l_nodes s y = None"
    using r(6) t(4) by simp_all
  ultimately show ?thesis
    using exec t(1,5) unfolding r(4) by blast
qed

text \<open>How far \<open>eina_list_sort\<close> sorts.\<close>

definition sort_limit :: "nat \<Rightarrow> u32 \<Rightarrow> nat" where
  "sort_limit n limit = (if limit = 0 \<or> unat limit > n then n else unat limit)"

lemma permuted_elist:
  fixes s vs vs' a h
  defines "s' \<equiv> s\<lparr>l_nodes := h, l_accts := (l_accts s)(a \<mapsto> \<lparr>a_last = Some (fst (last vs')), a_count = of_nat (length vs)\<rparr>)\<rparr>"
  assumes "elist s p a vs" and "pool_ok s" and "vs \<noteq> []" and "mset vs' = mset vs"
    and "ln.dseg h None (map fst vs') None" and "cells h a vs'" and "\<forall>y. y \<notin> fst ` set vs \<longrightarrow> h y = l_nodes s y"
    and "\<forall>y. h y = None \<longleftrightarrow> l_nodes s y = None"
  shows "elist s' (ptr_hd (map fst vs') None) a vs'" and "pool_ok s'" and "leaves s vs a s'"
proof -
  have "mset (map fst vs') = mset (map fst vs)"
    using assms(5) by simp
  then have "distinct (map fst vs')" "length vs' = length vs"
    using assms(2) mset_eq_imp_distinct_iff [of "map fst vs'" "map fst vs"] mset_eq_length [OF assms(5)] by (simp_all add: elist_def)
  then show "elist s' (ptr_hd (map fst vs') None) a vs'"
    using assms(2,6,7) by (simp add: elist_def s'_def)
  have "a \<notin> set (l_apool s)"
    using fresh_facts(2) [OF assms(2,3)] assms(4) by blast
  then show "pool_ok s'" "leaves s vs a s'"
    using assms(3,4,8,9) by (auto simp: pool_ok_def leaves_def s'_def)
qed

lemma list_sort_ok:
  fixes limit :: u32
  assumes "elist s p a vs" and "pool_ok s"
  defines "k \<equiv> sort_limit (length vs) limit"
  shows "\<exists>p' s' us'. eina_list_sort (Some f) s p limit = Some (p', s') \<and> elist s' p' a (us' @ drop k vs) \<and> pool_ok s' \<and>
    leaves s vs a s' \<and> mset us' = mset (take k vs) \<and> (compare_cb f \<longrightarrow> sorted_wrt (\<lambda>x y. f x y \<le> 0) (map snd us'))"
proof (cases "vs = []")
  case True
  then show ?thesis
    using assms(1,2) by (auto simp: eina_list_sort_def elist_def leaves_def)
next
  case ne: False
  have len: "length vs < 2 ^ 32" and acc: "l_accts s a = Some \<lparr>a_last = Some (fst (last vs)), a_count = of_nat (length vs)\<rparr>"
    using assms(1) ne by (auto simp: elist_def)
  have "\<exists>h us'. mset us' = mset (take k vs) \<and> eina_list_sort (Some f) s p limit = Some (ptr_hd (map fst (us' @ drop k vs)) None,
       s\<lparr>l_nodes := h, l_accts := (l_accts s)(a \<mapsto> \<lparr>a_last = Some (fst (last (us' @ drop k vs))), a_count = of_nat (length vs)\<rparr>)\<rparr>) \<and>
     ln.dseg h None (map fst (us' @ drop k vs)) None \<and> cells h a (us' @ drop k vs) \<and>
     (\<forall>y. y \<notin> fst ` set vs \<longrightarrow> h y = l_nodes s y) \<and> (\<forall>y. h y = None \<longleftrightarrow> l_nodes s y = None) \<and>
     (compare_cb f \<longrightarrow> sorted_wrt (\<lambda>x y. f x y \<le> 0) (map snd us'))"
  proof (cases "k = length vs")
    case True
    then have "limit = 0 \<or> limit \<ge> of_nat (length vs)"
      using len by (auto simp: k_def sort_limit_def word_le_nat_alt unat_of_nat split: if_splits)
    then show ?thesis
      using list_sort_all [OF assms(1) ne, of limit f] True by simp
  next
    case F: False
    then have k: "0 < k" "k < length vs" "of_nat k = limit"
      by (auto simp: k_def sort_limit_def unat_gt_0 split: if_splits)
    then have tk: "length (take k vs) = k" "take k vs \<noteq> []" "drop k vs \<noteq> []"
      by auto
    have upd: "s\<lparr>l_nodes := h\<rparr> = s\<lparr>l_nodes := h, l_accts := (l_accts s)(a \<mapsto> \<lparr>a_last = Some (fst (last (us' @ drop k vs))), a_count = of_nat (length vs)\<rparr>)\<rparr>" for h us'
      using acc k(2) by (cases s) (simp add: map_upd_triv)
    have hd: "mset us' = mset (take k vs) \<Longrightarrow> ptr_hd (map fst us') None = ptr_hd (map fst (us' @ drop k vs)) None" for us'
      using tk(2) by (cases us') auto
    have e: "elist s p a (take k vs @ drop k vs)"
      using assms(1) by simp
    obtain h us' where q: "mset us' = mset (take k vs)" "eina_list_sort (Some f) s p limit = Some (ptr_hd (map fst us') None, s\<lparr>l_nodes := h\<rparr>)"
       "ln.dseg h None (map fst (us' @ drop k vs)) None" "cells h a (us' @ drop k vs)"
       "\<forall>y. y \<notin> fst ` set vs \<longrightarrow> h y = l_nodes s y" "\<forall>y. h y = None \<longleftrightarrow> l_nodes s y = None"
       "compare_cb f \<longrightarrow> sorted_wrt (\<lambda>x y. f x y \<le> 0) (map snd us')"
      using list_sort_some [OF e tk(2,3), of f] unfolding append_take_drop_id tk(1) k(3) by blast
    have "eina_list_sort (Some f) s p limit = Some (ptr_hd (map fst (us' @ drop k vs)) None, s\<lparr>l_nodes := h,
        l_accts := (l_accts s)(a \<mapsto> \<lparr>a_last = Some (fst (last (us' @ drop k vs))), a_count = of_nat (length vs)\<rparr>)\<rparr>)"
      by (simp only: q(2) hd [OF q(1), symmetric] upd [of h us', symmetric])
    then show ?thesis
      using q by blast
  qed
  then obtain h us' where r: "mset us' = mset (take k vs)" "eina_list_sort (Some f) s p limit = Some (ptr_hd (map fst (us' @ drop k vs)) None,
       s\<lparr>l_nodes := h, l_accts := (l_accts s)(a \<mapsto> \<lparr>a_last = Some (fst (last (us' @ drop k vs))), a_count = of_nat (length vs)\<rparr>)\<rparr>)"
     "ln.dseg h None (map fst (us' @ drop k vs)) None" "cells h a (us' @ drop k vs)"
     "\<forall>y. y \<notin> fst ` set vs \<longrightarrow> h y = l_nodes s y" "\<forall>y. h y = None \<longleftrightarrow> l_nodes s y = None"
     "compare_cb f \<longrightarrow> sorted_wrt (\<lambda>x y. f x y \<le> 0) (map snd us')"
    by blast
  have "mset (us' @ drop k vs) = mset vs"
    using r(1) by (metis append_take_drop_id mset_append)
  from permuted_elist [OF assms(1,2) ne this r(3-6)] show ?thesis
    using r(1,2,7) by blast
qed

end
