(* ===== verification/Eina_List_Search.thy ===== *)
theory Eina_List_Search
  imports Eina_List_Sort
begin

text \<open>The searches of a sorted list, and the insertion that keeps it sorted.\<close>

lemma list_walk_ok:
  assumes "elist s p a vs" and "i < length vs"
  shows "i + k < length vs \<Longrightarrow> list_walk_next s k (Some (fst (vs ! i))) = Some (Some (fst (vs ! (i + k))))"
    and "k \<le> i \<Longrightarrow> list_walk_prev s k (Some (fst (vs ! i))) = Some (Some (fst (vs ! (i - k))))"
proof -
  show "i + k < length vs \<Longrightarrow> list_walk_next s k (Some (fst (vs ! i))) = Some (Some (fst (vs ! (i + k))))"
    using assms(2)
  proof (induction k arbitrary: i)
    case (Suc k)
    obtain n where "l_nodes s (fst (vs ! i)) = Some n" "l_next n = Some (fst (vs ! Suc i))"
      using elist_nth [OF assms(1), of i] Suc.prems by auto
    then show ?case
      using Suc.IH [of "Suc i"] Suc.prems by simp
  qed simp
  show "k \<le> i \<Longrightarrow> list_walk_prev s k (Some (fst (vs ! i))) = Some (Some (fst (vs ! (i - k))))"
    using assms(2)
  proof (induction k arbitrary: i)
    case (Suc k)
    obtain n where "l_nodes s (fst (vs ! i)) = Some n" "l_prev n = Some (fst (vs ! (i - 1)))"
      using elist_nth [OF assms(1), of i] Suc.prems by (metis Suc_le_lessD less_zeroE)
    then show ?case
      using Suc.IH [of "i - 1"] Suc.prems by simp
  qed simp
qed

lemma near_loop_ok:
  assumes "elist s p a vs" and "0 \<le> lo" and "hi < int (length vs)" and "0 \<le> cur" and "cur < int (length vs)"
  shows "near_loop func s d lo hi (cur, Some (fst (vs ! nat cur)), cmp) =
    (case bsearch (\<lambda>j. func (snd (vs ! nat j)) d) lo hi (cur, cmp) of (m, v) \<Rightarrow> Some (Some (fst (vs ! nat m)), v))"
  using assms
proof (induction "\<lambda>j. func (snd (vs ! nat j)) d" lo hi "(cur, cmp)" arbitrary: cur cmp rule: bsearch.induct)
  case (1 lo hi cur cmp)
  define k where "k = lo + (hi - lo) div 2"
  show ?case
  proof (cases "lo \<le> hi")
    case True
    then have k: "0 \<le> k" "nat k < length vs" "lo \<le> k" "k \<le> hi" "k < int (length vs)"
      using 1(4,5) by (auto simp: k_def)
    have w: "(if cur < k then list_walk_next s (nat (k - cur)) (Some (fst (vs ! nat cur)))
        else list_walk_prev s (nat (cur - k)) (Some (fst (vs ! nat cur)))) = Some (Some (fst (vs ! nat k)))"
    proof -
      have "nat cur < length vs" "cur < k \<Longrightarrow> nat cur + nat (k - cur) = nat k"
          "\<not> cur < k \<Longrightarrow> nat (cur - k) \<le> nat cur \<and> nat cur - nat (cur - k) = nat k"
        using 1(6,7) k by linarith+
      then show ?thesis
        using list_walk_ok [OF 1(3), of "nat cur" "nat (k - cur)"] list_walk_ok [OF 1(3), of "nat cur" "nat (cur - k)"] k
        by simp
    qed
    obtain n where n: "l_nodes s (fst (vs ! nat k)) = Some n" "l_data n = snd (vs ! nat k)"
      using elist_nth [OF 1(3) k(2)] .
    show ?thesis
      using 1(1) [OF True k_def refl] 1(2) [OF True k_def refl] k w n True 1(3-6)
      by (subst near_loop.simps, subst bsearch.simps) (simp add: Let_def flip: k_def)
  next
    case False
    then show ?thesis
      by (subst near_loop.simps, subst bsearch.simps) simp
  qed
qed

text \<open>A search that ends on an unequal element has left no equal one out.\<close>

lemma bsearch_complete:
  assumes "sign_mono get n" and "0 \<le> lo" and "hi < n" and "\<forall>j. 0 \<le> j \<and> j < lo \<longrightarrow> get j < 0"
    and "\<forall>j. hi < j \<and> j < n \<longrightarrow> 0 < get j" and "snd (bsearch get lo hi r) \<noteq> 0" and "0 \<le> j" and "j < n"
  shows "get j \<noteq> 0"
  using assms
proof (induction get lo hi r rule: bsearch.induct)
  case (1 get lo hi r)
  define cur where "cur = lo + (hi - lo) div 2"
  show ?case
  proof (cases "lo \<le> hi")
    case True
    then have cur: "lo \<le> cur" "cur \<le> hi" "0 \<le> cur" "cur < n"
      using "1.prems"(2,3) by (auto simp: cur_def)
    have nz: "get cur \<noteq> 0"
    proof
      assume "get cur = 0"
      then show False
        using "1.prems"(6) True by (subst (asm) bsearch.simps) (simp add: Let_def flip: cur_def)
    qed
    have less: "get cur < 0 \<Longrightarrow> \<forall>j. 0 \<le> j \<and> j < cur + 1 \<longrightarrow> get j < 0"
      and greater: "0 < get cur \<Longrightarrow> \<forall>j. cur - 1 < j \<and> j < n \<longrightarrow> 0 < get j"
      using "1.prems"(1) cur unfolding sign_mono_def by (metis zless_add1_eq less_le, metis zle_diff1_eq linorder_not_le)
    consider "get cur < 0" | "0 < get cur" "0 < cur" | "0 < get cur" "cur = 0"
      using nz cur(3) by linarith
    then show ?thesis
    proof cases
      case 1
      have "snd (bsearch get (cur + 1) hi (cur, get cur)) \<noteq> 0"
        using 1 True "1.prems"(6) by (subst (asm) bsearch.simps) (simp add: Let_def flip: cur_def)
      then show ?thesis
        using "1.IH"(1) [OF True cur_def refl _ 1] nz "1.prems" less [OF 1] cur by simp
    next
      case 2
      have "snd (bsearch get lo (cur - 1) (cur, get cur)) \<noteq> 0"
        using 2 True "1.prems"(6) by (subst (asm) bsearch.simps) (simp add: Let_def flip: cur_def)
      then show ?thesis
        using "1.IH"(2) [OF True cur_def refl] nz 2 "1.prems" greater cur by simp
    next
      case 3
      then show ?thesis
        using greater "1.prems"(7,8) by force
    qed
  next
    case False
    then show ?thesis
      using "1.prems"(2-8) by (metis leI less_irrefl less_le_trans linorder_not_less)
  qed
qed

text \<open>
  The node found is next to the place of \<open>d\<close>; when it compares unequal, no datum of the
  list is equal to \<open>d\<close>.
\<close>

lemma search_near_ok:
  fixes func :: "'d data_cmp" and vs :: "(addr \<times> 'd) list"
  assumes "elist s p a vs" and "vs \<noteq> []" and "sign_mono (\<lambda>j. func (snd (vs ! nat j)) d) (int (length vs))"
  shows "\<exists>m v. eina_list_search_sorted_near_list func s p d = Some (Some (fst (vs ! nat m)), v) \<and>
    beside (\<lambda>j. func (snd (vs ! nat j)) d) (int (length vs)) (m, v) \<and> (v \<noteq> 0 \<longrightarrow> (\<forall>x \<in> snd ` set vs. func x d \<noteq> 0))"
proof -
  define get where "get = (\<lambda>j. func (snd (vs ! nat j)) d)"
  define k where "k = length vs - 1"
  have k: "length vs = Suc k" "k < 2 ^ 32" "Suc k < 2 ^ 32"
    using assms(1,2) by (auto simp: k_def elist_def)
  have u: "unat (of_nat (Suc k) - 2 :: u32) = k - 1" "(of_nat (Suc k) - 2 :: u32) < 1 \<longleftrightarrow> k = 1" if "1 \<le> k"
  proof -
    have e: "(of_nat (Suc k) - 2 :: u32) = of_nat (k - 1)"
      using that by (cases k) simp_all
    show "unat (of_nat (Suc k) - 2 :: u32) = k - 1"
      unfolding e using k(2) by (simp add: unat_of_nat)
    then show "(of_nat (Suc k) - 2 :: u32) < 1 \<longleftrightarrow> k = 1"
      using that by (auto simp: word_less_nat_alt)
  qed
  have one: "of_nat (Suc k) = (1 :: u32) \<longleftrightarrow> k = 0"
    using of_nat_u32_0 [OF k(2)] by simp
  obtain n where n: "node_at s p = Some n" "l_acc n = Some a" "l_data n = snd (vs ! 0)" "p = Some (fst (vs ! 0))"
      "l_accts s a = Some \<lparr>a_last = Some (fst (vs ! k)), a_count = of_nat (Suc k)\<rparr>"
    using elist_acct [OF assms(1,2)] assms(2) k by (metis hd_conv_nth k_def last_conv_nth)
  obtain n' where n': "l_nodes s (fst (vs ! 0)) = Some n'" "l_next n' = (if 0 < k then Some (fst (vs ! 1)) else None)"
    using elist_nth [OF assms(1), of 0] k by (metis One_nat_def Suc_less_eq zero_less_Suc)
  obtain t where t: "l_nodes s (fst (vs ! k)) = Some t" "l_data t = snd (vs ! k)"
    using elist_nth [OF assms(1), of k] k by auto
  have all: "\<forall>x \<in> snd ` set vs. func x d \<noteq> 0" if "\<forall>j. 0 \<le> j \<and> j \<le> int k \<longrightarrow> get j \<noteq> 0"
    using that k(1) by (auto simp: get_def in_set_conv_nth) (metis less_Suc_eq_le nat_int of_nat_0_le_iff of_nat_le_iff snd_conv)
  have found: "\<exists>m v. eina_list_search_sorted_near_list func s p d = Some (Some (fst (vs ! nat m)), v) \<and>
      beside get (int (Suc k)) (m, v) \<and> (v \<noteq> 0 \<longrightarrow> (\<forall>x \<in> snd ` set vs. func x d \<noteq> 0))"
    if "eina_list_search_sorted_near_list func s p d = Some (Some (fst (vs ! nat m)), v)" "beside get (int (Suc k)) (m, v)"
      "v \<noteq> 0 \<Longrightarrow> \<forall>j. 0 \<le> j \<and> j \<le> int k \<longrightarrow> get j \<noteq> 0" for m v
    using that all by blast
  have g: "get 0 = func (snd (vs ! 0)) d" "get (int k) = func (snd (vs ! k)) d" "get 1 = func (snd (vs ! 1)) d"
    by (simp_all add: get_def)
  have mono: "get j < 0 \<Longrightarrow> get i < 0" "0 < get i \<Longrightarrow> 0 < get j" if "0 \<le> i" "i \<le> j" "j \<le> int k" for i j
    using assms(3) [unfolded sign_mono_def, rule_format, of i j] that k(1) by (auto simp: get_def)
  consider "k = 0" | "1 \<le> k" "get (int k) \<le> 0" | "1 \<le> k" "0 < get (int k)" "0 \<le> get 0"
    | "k = 1" "0 < get (int k)" "get 0 < 0" | "2 \<le> k" "0 < get (int k)" "get 0 < 0"
    by linarith
  then have "\<exists>m v. eina_list_search_sorted_near_list func s p d = Some (Some (fst (vs ! nat m)), v) \<and>
    beside get (int (Suc k)) (m, v) \<and> (v \<noteq> 0 \<longrightarrow> (\<forall>x \<in> snd ` set vs. func x d \<noteq> 0))"
  proof cases
    case 1
    have "eina_list_search_sorted_near_list func s p d = Some (Some (fst (vs ! 0)), get 0)"
      using n one 1 g by (simp add: eina_list_search_sorted_near_list_def)
    moreover have "\<forall>j. 0 \<le> j \<and> j \<le> int k \<longrightarrow> get j \<noteq> 0" if "get 0 \<noteq> 0"
    proof (intro allI impI)
      fix j assume "0 \<le> j \<and> j \<le> int k"
      then have "j = 0" using 1 by auto
      then show "get j \<noteq> 0" using that by simp
    qed
    ultimately show ?thesis
      using 1 k by (intro found [of 0 "get 0"]) (auto simp: beside_def)
  next
    case 2
    have "eina_list_search_sorted_near_list func s p d = Some (Some (fst (vs ! k)), get (int k))"
      using n t one 2 g by (simp add: eina_list_search_sorted_near_list_def)
    moreover have "\<forall>j. 0 \<le> j \<and> j \<le> int k \<longrightarrow> get j \<noteq> 0" if "get (int k) \<noteq> 0"
      using mono(1) [of _ "int k"] 2 that by force
    ultimately show ?thesis
      using 2 k by (intro found [of "int k" "get (int k)"]) (auto simp: beside_def)
  next
    case 3
    have "eina_list_search_sorted_near_list func s p d = Some (Some (fst (vs ! 0)), get 0)"
      using n t one 3 g by (simp add: eina_list_search_sorted_near_list_def)
    moreover have "\<forall>j. 0 \<le> j \<and> j \<le> int k \<longrightarrow> get j \<noteq> 0" if "get 0 \<noteq> 0"
      using mono(2) [of 0] 3 that by force
    ultimately show ?thesis
      using 3 k by (intro found [of 0 "get 0"]) (auto simp: beside_def)
  next
    case 4
    have "eina_list_search_sorted_near_list func s p d = Some (Some (fst (vs ! 1)), get 1)"
      using n n' t one 4 g u by (simp add: eina_list_search_sorted_near_list_def)
    moreover have "\<forall>j. 0 \<le> j \<and> j \<le> int k \<longrightarrow> get j \<noteq> 0"
    proof (intro allI impI)
      fix j assume "0 \<le> j \<and> j \<le> int k"
      then have "j = 0 \<or> j = 1" using 4 by auto
      then show "get j \<noteq> 0" using 4 by auto
    qed
    moreover have "\<forall>j. 0 \<le> j \<and> j < 1 \<longrightarrow> get j \<le> 0"
      using 4 by (metis int_one_le_iff_zero_less leD le_less order.antisym)
    ultimately show ?thesis
      using 4 k by (intro found [of 1 "get 1"]) (auto simp: beside_def)
  next
    case 5
    define r where "r = bsearch get 1 (int (k - 1)) (1, get 0)"
    have lo: "\<forall>j. 0 \<le> j \<and> j < 1 \<longrightarrow> get j < 0" and hi: "\<forall>j. int (k - 1) < j \<and> j < int (Suc k) \<longrightarrow> 0 < get j"
    proof -
      have "j = 0" if "0 \<le> j" "j < 1" for j :: int
        using that by simp
      then show "\<forall>j. 0 \<le> j \<and> j < 1 \<longrightarrow> get j < 0"
        using 5 by blast
      have "j = int k" if "int (k - 1) < j" "j < int (Suc k)" for j
        using that 5 by linarith
      then show "\<forall>j. int (k - 1) < j \<and> j < int (Suc k) \<longrightarrow> 0 < get j"
        using 5 by blast
    qed
    have sm: "sign_mono get (int (Suc k))"
      using assms(3) k(1) by (simp add: get_def)
    have b: "beside get (int (Suc k)) r"
      unfolding r_def using 5 lo hi by (intro bsearch_beside [OF sm]) (auto intro: less_imp_le)
    have "eina_list_search_sorted_near_list func s p d = Some (Some (fst (vs ! nat (fst r))), snd r)"
      using n n' t one 5 g u near_loop_ok [OF assms(1), of 1 "int (k - 1)" 1 func d "get 0"] k
      by (simp add: eina_list_search_sorted_near_list_def r_def get_def split: prod.split)
    moreover have "\<forall>j. 0 \<le> j \<and> j \<le> int k \<longrightarrow> get j \<noteq> 0" if "snd r \<noteq> 0"
      using bsearch_complete [OF sm _ _ lo hi, of "(1, get 0)"] that 5 by (auto simp: r_def)
    ultimately show ?thesis
      using b by (intro found [of "fst r" "snd r"]) (auto simp: beside_def)
  qed
  then show ?thesis
    by (simp only: get_def k(1))
qed

lemma nth_snd: "0 \<le> j \<Longrightarrow> j < int (length vs) \<Longrightarrow> map snd vs ! nat j = snd (vs ! nat j)"
  by (simp add: nat_less_iff)

lemma search_cong:
  assumes "\<And>j. 0 \<le> j \<Longrightarrow> j < n \<Longrightarrow> g j = g' j"
  shows "sign_mono g n = sign_mono g' n" and "beside g n r = beside g' n r"
  unfolding sign_mono_def beside_def using assms
  by (auto intro!: iff_allI imp_cong conj_cong)

lemma data_sign_mono:
  assumes "compare_cb f" and "sorted_wrt (\<lambda>x y. f x y \<le> 0) (map snd vs)"
  shows "sign_mono (\<lambda>j. f (snd (vs ! nat j)) d) (int (length vs))"
proof -
  have "sign_mono (\<lambda>j. f (map snd vs ! nat j) d) (int (length vs))"
    using compare_cb.sign_mono_ascending [OF assms, of d] by simp
  then show ?thesis
    by (subst search_cong(1) [where g' = "\<lambda>j. f (map snd vs ! nat j) d"]) (simp_all add: nth_snd)
qed

lemma data_beside:
  "beside (\<lambda>j. f (snd (vs ! nat j)) d) (int (length vs)) r = beside (\<lambda>j. f (map snd vs ! nat j) d) (int (length (map snd vs))) r"
  unfolding length_map by (rule search_cong(2)) (simp add: nth_snd)

lemma search_sorted_list_ok:
  assumes "compare_cb f" and "sorted_wrt (\<lambda>x y. f x y \<le> 0) (map snd vs)" and "elist s p a vs"
  shows "if \<exists>x \<in> snd ` set vs. f x d = 0
    then \<exists>y e. eina_list_search_sorted_list f s p d = Some (Some y) \<and> (y, e) \<in> set vs \<and> f e d = 0
    else eina_list_search_sorted_list f s p d = Some None"
proof (cases "vs = []")
  case True
  then show ?thesis
    using assms(3) by (simp add: eina_list_search_sorted_list_def eina_list_search_sorted_near_list_def elist_def)
next
  case False
  obtain m v where m: "eina_list_search_sorted_near_list f s p d = Some (Some (fst (vs ! nat m)), v)"
      "beside (\<lambda>j. f (snd (vs ! nat j)) d) (int (length vs)) (m, v)" "v \<noteq> 0 \<longrightarrow> (\<forall>x \<in> snd ` set vs. f x d \<noteq> 0)"
    using search_near_ok [of s p a vs f d, OF assms(3) False data_sign_mono [OF assms(1,2), of d]] by blast
  have r: "nat m < length vs" "v = f (snd (vs ! nat m)) d" "(fst (vs ! nat m), snd (vs ! nat m)) \<in> set vs"
    using m(2) by (auto simp: beside_def)
  have e: "eina_list_search_sorted_list f s p d = Some (if v = 0 then Some (fst (vs ! nat m)) else None)"
    using m(1) by (simp add: eina_list_search_sorted_list_def)
  show ?thesis
  proof (cases "v = 0")
    case True
    then have "\<exists>x \<in> snd ` set vs. f x d = 0"
      using r by (metis image_eqI snd_conv)
    moreover have "\<exists>y e. eina_list_search_sorted_list f s p d = Some (Some y) \<and> (y, e) \<in> set vs \<and> f e d = 0"
      using True e r by (intro exI [of _ "fst (vs ! nat m)"] exI [of _ "snd (vs ! nat m)"]) simp
    ultimately show ?thesis by simp
  next
    case F: False
    then show ?thesis
      using m(3) e by simp
  qed
qed

lemma list_sorted_insert_ok:
  assumes "compare_cb f" and "sorted_wrt (\<lambda>x y. f x y \<le> 0) (map snd vs)" and "elist s p a vs" and "pool_ok s"
    and "l_pool s \<noteq> []" and "l_apool s \<noteq> []" and "length vs + 1 < 2 ^ 32"
  shows "\<exists>ys. yields s vs a (eina_list_sorted_insert f s p d) ys \<and> mset ys = add_mset d (mset (map snd vs)) \<and>
    sorted_wrt (\<lambda>x y. f x y \<le> 0) ys"
proof (cases "vs = []")
  case True
  then have "eina_list_sorted_insert f s p d = eina_list_append s p d"
    using assms(3) by (simp add: eina_list_sorted_insert_def elist_def)
  then show ?thesis
    using list_ends_yield(1) [OF assms(3-7), of d] True by (intro exI [of _ "[d]"]) simp
next
  case False
  obtain m v where m: "eina_list_search_sorted_near_list f s p d = Some (Some (fst (vs ! nat m)), v)"
      "beside (\<lambda>j. f (snd (vs ! nat j)) d) (int (length vs)) (m, v)"
    using search_near_ok [of s p a vs f d, OF assms(3) False data_sign_mono [OF assms(1,2), of d]] by blast
  define i where "i = nat m"
  have i: "i < length vs" "v = f (snd (vs ! i)) d"
    using m(2) by (auto simp: beside_def i_def)
  define us where "us = take i vs"
  define ws where "ws = drop (Suc i) vs"
  obtain r e where re: "vs ! i = (r, e)"
    by (cases "vs ! i")
  have vs: "vs = us @ (r, e) # ws" "length us = i"
    using id_take_nth_drop [OF i(1)] i(1) unfolding us_def ws_def re by simp_all
  obtain x xs where pool: "l_pool s = x # xs"
    using assms(5) by (meson neq_Nil_conv)
  have p: "p \<noteq> None"
    using elist_head_node(2) [OF assms(3) False] by auto
  let ?xs = "map snd vs"
  define k where "k = (if v < 0 then Suc i else i)"
  have "splits_at f d ?xs k"
  proof (cases "v = 0")
    case True
    have "f d (snd (vs ! i)) = 0"
      using i(2) True compare_cb.c_le [OF assms(1), of d "snd (vs ! i)"] compare_cb.c_le [OF assms(1), of "snd (vs ! i)" d] by simp
    then have "near f d ?xs i 0"
      using i(1) by (simp add: near_def)
    then show ?thesis
      using compare_cb.near_splits [OF assms(1,2)] True by (fastforce simp: k_def)
  next
    case False
    then show ?thesis
      using compare_cb.beside_splits [OF assms(1,2) m(2) [unfolded data_beside]] by (simp add: k_def i_def split: if_splits)
  qed
  then have s: "sorted_wrt (\<lambda>x y. f x y \<le> 0) (take k ?xs @ d # drop k ?xs)"
    by (rule compare_cb.splits_insert [OF assms(1,2)])
  have "yields s vs a (eina_list_sorted_insert f s p d) (take k ?xs @ d # drop k ?xs)"
  proof (cases "v < 0")
    case True
    have "eina_list_sorted_insert f s p d = eina_list_append_relative_list s p d (Some r)"
      using m(1) True p re by (simp add: eina_list_sorted_insert_def del: not_None_eq flip: i_def)
    moreover have "take k ?xs @ d # drop k ?xs = map snd (us @ (r, e) # (x, d) # ws)"
      unfolding vs(1) using True vs(2) by (simp add: k_def)
    ultimately show ?thesis
      using list_append_relative_ok [of s p a us r e ws x xs d] assms pool unfolding vs(1) by (metis yieldsI)
  next
    case False
    have "eina_list_sorted_insert f s p d = eina_list_prepend_relative_list s p d (Some r)"
      using m(1) False p re by (simp add: eina_list_sorted_insert_def del: not_None_eq flip: i_def)
    moreover have "take k ?xs @ d # drop k ?xs = map snd (us @ (x, d) # (r, e) # ws)"
      unfolding vs(1) using False vs(2) by (simp add: k_def)
    ultimately show ?thesis
      using list_prepend_relative_ok [of s p a us r e ws x xs d] assms pool unfolding vs(1) by (metis yieldsI)
  qed
  moreover have "mset (take k ?xs @ d # drop k ?xs) = add_mset d (mset ?xs)"
    by (metis append_take_drop_id mset.simps(2) mset_append union_mset_add_mset_right)
  ultimately show ?thesis
    using s by blast
qed

end
