(* ===== verification/Eina_List_Parts.thy ===== *)
theory Eina_List_Parts
  imports Eina_List_Search
begin

text \<open>Joining two lists into one, and cutting one in two: the nodes change their accounting.\<close>

section \<open>Accounting\<close>

definition account :: "'d lnode heap \<Rightarrow> addr \<Rightarrow> addr list \<Rightarrow> 'd lnode heap" where
  "account h a xs = (\<lambda>x. if x \<in> set xs then map_option (to_acc (Some a)) (h x) else h x)"

lemma account_simps [simp]:
  "account h a [] = h" "x \<notin> set xs \<Longrightarrow> account h a xs x = h x" "account h a xs x = None \<longleftrightarrow> h x = None"
  "x \<in> set xs \<Longrightarrow> h x = Some n \<Longrightarrow> account h a xs x = Some (to_acc (Some a) n)"
  by (auto simp: account_def)

lemma account_Cons: "x \<notin> set xs \<Longrightarrow> h x = Some n \<Longrightarrow> account (h(x \<mapsto> to_acc (Some a) n)) a xs = account h a (x # xs)"
  by (auto simp: account_def fun_eq_iff)

lemma account_same [simp]:
  "x \<in> set xs \<Longrightarrow> h x = Some n \<Longrightarrow> account (h(x \<mapsto> to_acc b n)) a xs = account h a xs"
  by (auto simp: account_def fun_eq_iff)

lemma dseg_account [simp]: "ln.dseg (account h a xs) p ys q = ln.dseg h p ys q"
  by (induction ys arbitrary: p) (auto simp: account_def)

lemma account_set [simp]:
  "ln.setn (account h a xs) p q = account (ln.setn h p q) a xs" "ln.setp (account h a xs) p q = account (ln.setp h p q) a xs"
  by (auto simp: account_def ln.setn_def ln.setp_def fun_eq_iff option.map_comp comp_def intro!: option.map_cong split: option.split)

lemma cells_account: "cells h b vs \<Longrightarrow> set (map fst vs) \<subseteq> set xs \<Longrightarrow> cells (account h a xs) a vs"
  "cells h b vs \<Longrightarrow> set (map fst vs) \<inter> set xs = {} \<Longrightarrow> cells (account h a xs) b vs"
  by (induction vs) (auto simp: account_def)

lemma dseg_acc:
  assumes "h x = Some n"
  shows "ln.dseg (h(x \<mapsto> to_acc b n)) p ys q = ln.dseg h p ys q"
  using ln.dseg_upd_same [of h x n "to_acc b n"] assms by simp

lemma account_forth_ok:
  assumes "ln.dseg (l_nodes s) q (x # xs) None" and "distinct (x # xs)"
  shows "account_forth s (Some x) (Some a) = Some (s\<lparr>l_nodes := account (l_nodes s) a (x # xs)\<rparr>)"
  using assms
proof (induction xs arbitrary: s q x)
  case Nil
  then obtain n where "l_nodes s x = Some n" "l_next n = None"
    by auto
  then show ?case
    using account_Cons [of x "[]" "l_nodes s" n a] by (subst account_forth.simps) simp
next
  case (Cons y ys)
  obtain n where n: "l_nodes s x = Some n" "l_next n = Some y"
    using Cons.prems by auto
  define s1 where "s1 = s\<lparr>l_nodes := (l_nodes s)(x \<mapsto> to_acc (Some a) n)\<rparr>"
  have same: "ln.dseg (l_nodes s1) p zs r = ln.dseg (l_nodes s) p zs r" for p zs r
    using dseg_acc [of "l_nodes s" x n, OF n(1)] by (simp add: s1_def)
  have "account_forth s1 (Some y) (Some a) = Some (s1\<lparr>l_nodes := account (l_nodes s1) a (y # ys)\<rparr>)"
    using Cons.prems by (intro Cons.IH [where q = "Some x"]) (simp_all add: same, simp_all add: s1_def)
  then show ?case
    using n Cons.prems(2) account_Cons [of x "y # ys" "l_nodes s" n a] by (subst account_forth.simps) (simp add: s1_def)
qed

lemma account_back_ok:
  assumes "ln.dseg (l_nodes s) None (xs @ [x]) q" and "distinct (xs @ [x])"
  shows "account_back s (Some x) (Some a) = Some (s\<lparr>l_nodes := account (l_nodes s) a (xs @ [x])\<rparr>)"
  using assms
proof (induction xs arbitrary: s q x rule: rev_induct)
  case Nil
  then obtain n where "l_nodes s x = Some n" "l_prev n = None"
    by auto
  then show ?case
    using account_Cons [of x "[]" "l_nodes s" n a] by (subst account_back.simps) simp
next
  case (snoc y ys)
  obtain n where n: "l_nodes s x = Some n" "l_prev n = Some y"
    using snoc.prems by auto
  define s1 where "s1 = s\<lparr>l_nodes := (l_nodes s)(x \<mapsto> to_acc (Some a) n)\<rparr>"
  have same: "ln.dseg (l_nodes s1) p zs r = ln.dseg (l_nodes s) p zs r" for p zs r
    using dseg_acc [of "l_nodes s" x n, OF n(1)] by (simp add: s1_def)
  have "account_back s1 (Some y) (Some a) = Some (s1\<lparr>l_nodes := account (l_nodes s1) a (ys @ [y])\<rparr>)"
    using snoc.prems by (intro snoc.IH [where q = "Some x"]) (simp_all add: same, simp_all add: s1_def)
  moreover have "account (l_nodes s1) a (ys @ [y]) = account (l_nodes s) a ((ys @ [y]) @ [x])"
    using n snoc.prems(2) by (auto simp: s1_def account_def fun_eq_iff)
  ultimately show ?case
    using n by (subst account_back.simps) (simp add: s1_def)
qed

lemma account_count_ok:
  assumes "ln.dseg (l_nodes s) q (x # xs) None" and "distinct (x # xs)" and "l_accts s a = Some \<lparr>a_last = e, a_count = c\<rparr>"
  shows "account_count s (Some x) (Some a) = Some (s\<lparr>l_nodes := account (l_nodes s) a (x # xs),
    l_accts := (l_accts s)(a \<mapsto> \<lparr>a_last = e, a_count = c + of_nat (length (x # xs))\<rparr>)\<rparr>)"
  using assms
proof (induction xs arbitrary: s q x c)
  case Nil
  then obtain n where "l_nodes s x = Some n" "l_next n = None"
    by auto
  then show ?case
    using account_Cons [of x "[]" "l_nodes s" n a] Nil by (subst account_count.simps) simp
next
  case (Cons y ys)
  obtain n where n: "l_nodes s x = Some n" "l_next n = Some y"
    using Cons.prems by auto
  define s1 where "s1 = s\<lparr>l_nodes := (l_nodes s)(x \<mapsto> to_acc (Some a) n), l_accts := (l_accts s)(a \<mapsto> \<lparr>a_last = e, a_count = c + 1\<rparr>)\<rparr>"
  have same: "ln.dseg (l_nodes s1) p zs r = ln.dseg (l_nodes s) p zs r" for p zs r
    using dseg_acc [of "l_nodes s" x n, OF n(1)] by (simp add: s1_def)
  have "account_count s1 (Some y) (Some a) = Some (s1\<lparr>l_nodes := account (l_nodes s1) a (y # ys),
      l_accts := (l_accts s1)(a \<mapsto> \<lparr>a_last = e, a_count = (c + 1) + of_nat (length (y # ys))\<rparr>)\<rparr>)"
    using Cons.prems by (intro Cons.IH [where q = "Some x"]) (simp_all add: same, simp_all add: s1_def)
  then show ?case
    using n Cons.prems(2,3) account_Cons [of x "y # ys" "l_nodes s" n a]
    by (subst account_count.simps) (simp add: s1_def add.assoc)
qed

section \<open>Merging\<close>

lemma list_merge_exec:
  assumes "elist s p a us" and "elist s q b ws" and "us \<noteq> []" and "ws \<noteq> []" and "a \<noteq> b"
    and "distinct (map fst (us @ ws))" and "length (us @ ws) < 2 ^ 32"
  defines "h \<equiv> ln.setp (ln.setn (l_nodes s) (ptr_last None (map fst us)) q) q (ptr_last None (map fst us))"
  shows "eina_list_merge s p q = Some (p, if length us \<ge> length ws
     then s\<lparr>l_nodes := account h a (map fst ws),
       l_accts := (l_accts s)(a \<mapsto> \<lparr>a_last = Some (fst (last ws)), a_count = of_nat (length (us @ ws))\<rparr>, b := None)\<rparr>
     else s\<lparr>l_nodes := account h b (map fst us),
       l_accts := (l_accts s)(b \<mapsto> \<lparr>a_last = Some (fst (last ws)), a_count = of_nat (length (us @ ws))\<rparr>, a := None)\<rparr>)"
proof -
  let ?L = "ptr_last None (map fst us)"
  obtain n where n: "node_at s p = Some n" "l_acc n = Some a" "p = Some (fst (hd us))"
      "l_accts s a = Some \<lparr>a_last = ?L, a_count = of_nat (length us)\<rparr>"
    using elist_acct [OF assms(1,3)] assms(3) by (metis ptr_last_fst)
  obtain m where m: "node_at s q = Some m" "l_acc m = Some b" "q = Some (fst (hd ws))"
      "l_accts s b = Some \<lparr>a_last = Some (fst (last ws)), a_count = of_nat (length ws)\<rparr>"
    using elist_acct [OF assms(2,4)] .
  have c: "cells h a us" "cells h b ws"
    using assms(1,2) by (simp_all add: h_def elist_def)
  obtain n1 where n1: "h (fst (hd us)) = Some n1" "l_acc n1 = Some a"
    using c(1) hd_in_set [OF assms(3)] unfolding cells_def by blast
  obtain m1 where m1: "h (fst (hd ws)) = Some m1" "l_acc m1 = Some b"
    using c(2) hd_in_set [OF assms(4)] unfolding cells_def by blast
  have L: "?L \<noteq> None" "valid (l_nodes s) ?L" "valid (l_nodes s) q" "q \<noteq> None"
    using assms(1,3) m(1,3) last_in_set [OF assms(3)] by (auto simp: ptr_last_fst valid_def elist_def cells_def)
  have hd: "ptr_hd (map fst ws) None = q" "map fst us = map fst (butlast us) @ [fst (last us)]" "map fst ws = fst (hd ws) # map fst (tl ws)"
  proof -
    show "ptr_hd (map fst ws) None = q" "map fst ws = fst (hd ws) # map fst (tl ws)"
      using m(3) assms(4) by (cases ws; simp)+
    show "map fst us = map fst (butlast us) @ [fst (last us)]"
      using assms(3) by (metis map_append append_butlast_last_id list.simps(8,9))
  qed
  have d: "ln.dseg h None (map fst us @ map fst ws) None" "distinct (map fst us)" "distinct (map fst ws)"
    using ln.dseg_join [of "l_nodes s" "map fst us" None None "map fst ws"] assms(1-4,6) hd(1) by (simp_all add: h_def elist_def)
  have le: "(of_nat (length ws) :: u32) \<le> of_nat (length us) \<longleftrightarrow> length ws \<le> length us"
    using assms(7) by (simp add: word_le_nat_alt unat_of_nat)
  have fwd: "account_forth (s\<lparr>l_nodes := h, l_accts := X\<rparr>) q (Some a) = Some (s\<lparr>l_nodes := account h a (map fst ws), l_accts := X\<rparr>)" for X
    using account_forth_ok [of "s\<lparr>l_nodes := h, l_accts := X\<rparr>" ?L "fst (hd ws)" "map fst (tl ws)" a] d hd(3) m(3) by simp
  have bwd: "account_back (s\<lparr>l_nodes := h, l_accts := X\<rparr>) ?L (Some b) = Some (s\<lparr>l_nodes := account h b (map fst us), l_accts := X\<rparr>)" for X
    using account_back_ok [of "s\<lparr>l_nodes := h, l_accts := X\<rparr>" "map fst (butlast us)" "fst (last us)" q b] d hd assms(3)
    by (simp add: ptr_last_fst)
  have h: "ln.setp (ln.setn (l_nodes s) ?L q) q ?L = h" "node_at (s\<lparr>l_nodes := h\<rparr>) p = Some n1" "node_at (s\<lparr>l_nodes := h\<rparr>) q = Some m1" "p \<noteq> None"
    using n1 m1 n(3) m(3) by (simp_all add: h_def)
  show ?thesis
    using n(1,2,4) m(1,2,4) n1 m1 L h le assms(5) fwd bwd
    by (simp add: eina_list_merge_def set_links accounting_free_def fun_upd_twist add.commute del: not_None_eq set_node_Some)
qed


lemma list_merge_ok:
  assumes "elist s p a us" and "elist s q b ws" and "us \<noteq> []" and "ws \<noteq> []" and "a \<noteq> b"
    and "distinct (map fst (us @ ws))" and "length (us @ ws) < 2 ^ 32" and "pool_ok s"
  shows "\<exists>s' c. eina_list_merge s p q = Some (p, s') \<and> elist s' p c (us @ ws) \<and> pool_ok s' \<and>
    (\<forall>y. y \<notin> fst ` set (us @ ws) \<longrightarrow> l_nodes s' y = l_nodes s y) \<and> (\<forall>d. d \<noteq> a \<and> d \<noteq> b \<longrightarrow> l_accts s' d = l_accts s d) \<and>
    l_pool s' = l_pool s \<and> l_apool s' = l_apool s"
proof -
  let ?L = "ptr_last None (map fst us)"
  define h where "h = ln.setp (ln.setn (l_nodes s) ?L q) q ?L"
  have q: "q = ptr_hd (map fst ws) None" "p = ptr_hd (map fst us) None" "p = ptr_hd (map fst (us @ ws)) None"
    using assms(1-3) by (auto simp: elist_def neq_Nil_conv)
  have d: "ln.dseg h None (map fst (us @ ws)) None"
    using ln.dseg_join [of "l_nodes s" "map fst us" None None "map fst ws"] assms(1-4,6) unfolding h_def q(1) by (simp add: elist_def)
  have c: "cells h a us" "cells h b ws"
    using assms(1,2) by (simp_all add: h_def elist_def)
  have fr: "h y = l_nodes s y" if "y \<notin> fst ` set (us @ ws)" for y
  proof -
    have "?L \<noteq> Some y" "q \<noteq> Some y"
      using that unfolding q(1) by (auto dest!: ln.ptr_ends)
    then show ?thesis by (simp add: h_def)
  qed
  have no: "\<forall>y. h y = None \<longleftrightarrow> l_nodes s y = None"
    by (simp add: h_def)
  have ab: "a \<notin> set (l_apool s)" "b \<notin> set (l_apool s)"
    using fresh_facts(2) [OF assms(1,8) assms(3)] fresh_facts(2) [OF assms(2,8) assms(4)] by auto
  have ac: "cells (account h a (map fst ws)) a (us @ ws)" "cells (account h b (map fst us)) b (us @ ws)"
    using cells_account [of h] c assms(6) by (auto simp: Int_commute)
  have po: "pool_ok (s\<lparr>l_nodes := account h e xs, l_accts := (l_accts s)(i \<mapsto> r, j := None)\<rparr>)" if "i \<in> {a, b}" for e xs i j r
    using that assms(8) ab no by (auto simp: pool_ok_def)
  show ?thesis
  proof (cases "length us \<ge> length ws")
    case True
    let ?s = "s\<lparr>l_nodes := account h a (map fst ws), l_accts := (l_accts s)(a \<mapsto> \<lparr>a_last = Some (fst (last ws)), a_count = of_nat (length (us @ ws))\<rparr>, b := None)\<rparr>"
    have "eina_list_merge s p q = Some (p, ?s)"
      using list_merge_exec [OF assms(1-7)] True by (simp add: h_def)
    moreover have "elist ?s p a (us @ ws)"
      unfolding elist_def using assms(4-7) q(3) d ac(1) by simp
    ultimately show ?thesis
      using fr po [of a] by (intro exI [of _ ?s] exI [of _ a] conjI) (simp_all add: image_Un)
  next
    case False
    let ?s = "s\<lparr>l_nodes := account h b (map fst us), l_accts := (l_accts s)(b \<mapsto> \<lparr>a_last = Some (fst (last ws)), a_count = of_nat (length (us @ ws))\<rparr>, a := None)\<rparr>"
    have "eina_list_merge s p q = Some (p, ?s)"
      using list_merge_exec [OF assms(1-7)] False by (simp add: h_def)
    moreover have "elist ?s p b (us @ ws)"
      unfolding elist_def using assms(4-7) q(3) d ac(2) by simp
    ultimately show ?thesis
      using fr po [of b] by (intro exI [of _ ?s] exI [of _ b] conjI) (simp_all add: image_Un)
  qed
qed

section \<open>Splitting\<close>

lemma list_split_exec:
  assumes "elist s p a (us @ ws)" and "us \<noteq> []" and "ws \<noteq> []" and "l_apool s = b # bs" and "pool_ok s"
  defines "h \<equiv> ln.setn (ln.setp (l_nodes s) (ptr_hd (map fst ws) None) None) (ptr_last None (map fst us)) None"
  shows "eina_list_split_list s p (ptr_last None (map fst us)) = Some (p, ptr_hd (map fst ws) None,
     s\<lparr>l_nodes := account h b (map fst ws), l_apool := bs,
       l_accts := (l_accts s)(a \<mapsto> \<lparr>a_last = ptr_last None (map fst us), a_count = of_nat (length us)\<rparr>,
         b \<mapsto> \<lparr>a_last = Some (fst (last ws)), a_count = of_nat (length ws)\<rparr>)\<rparr>)"
proof -
  let ?L = "ptr_last None (map fst us)" and ?R = "ptr_hd (map fst ws) None"
  obtain r e where r: "last us = (r, e)"
    by (cases "last us")
  then have us: "us = butlast us @ [(r, e)]" "?L = Some r"
    using assms(2) by (metis append_butlast_last_id, simp add: ptr_last_fst)
  then have e1: "elist s p a (butlast us @ (r, e) # ws)"
    using assms(1) by (metis append.assoc append_Cons append_Nil)
  obtain n where n: "l_nodes s r = Some n" "l_next n = ?R"
    using elist_node(1) [OF e1] by auto
  obtain w ws' where w: "map fst ws = w # ws'"
    using assms(3) by (cases ws) auto
  have lw: "length ws = Suc (length ws')"
    using w by (metis length_Cons length_map)
  define k where "k = length (us @ ws)"
  obtain m where m: "node_at s p = Some m" "l_acc m = Some a" "p = Some (fst (hd us))" "l_accts s a = Some \<lparr>a_last = Some (fst (last ws)), a_count = of_nat k\<rparr>"
    using elist_acct [OF assms(1)] assms(2,3) by (simp add: k_def) blast
  have ck: "of_nat k - of_nat (length ws) = (of_nat (length us) :: u32)"
    by (simp add: k_def)
  have ab: "a \<noteq> b" "l_accts s b = None"
    using assms(4,5) m(4) by (auto simp: pool_ok_def)
  have d: "distinct (map fst us @ map fst ws)" "ln.dseg (l_nodes s) None (map fst us @ map fst ws) None"
    using assms(1) by (simp_all add: elist_def)
  then have dis: "fst ` set us \<inter> fst ` set ws = {}"
    by simp
  have ne: "Some r \<noteq> Some (fst (last ws))" "w \<noteq> r"
  proof -
    have "r \<in> fst ` set us" "fst (last ws) \<in> fst ` set ws" "w \<in> fst ` set ws"
      using r assms(2,3) w by (metis fst_conv image_eqI last_in_set, simp, metis list.set_intros(1) set_map)
    then show "Some r \<noteq> Some (fst (last ws))" "w \<noteq> r"
      using dis by (metis disjoint_iff option.inject)+
  qed
  define h1 where "h1 = ln.setp (l_nodes s) (Some w) None"
  have c: "cells h1 a (us @ ws)"
    using assms(1) by (simp add: h1_def elist_def)
  obtain y m1 where y: "p = Some y" "y \<in> fst ` set us" "h1 y = Some m1" "l_acc m1 = Some a"
    using c m(3) hd_in_set [OF assms(2)] cells_acc [OF c, of "fst (hd us)"] by auto
  have ws: "w \<in> fst ` set ws"
    using w by (metis list.set_intros(1) set_map)
  then have yw: "y \<notin> fst ` set ws" "w \<noteq> y"
    using dis y(2) by auto
  obtain nw where nw: "h1 w = Some nw" "valid (l_nodes s) (Some w)"
    using cells_acc [OF c, of w] cells_acc [of "l_nodes s" a "us @ ws" w] ws assms(1) by (auto simp: elist_def valid_def)
  define s2 where "s2 = s\<lparr>l_nodes := h1(w \<mapsto> to_acc (Some b) nw), l_apool := bs,
    l_accts := (l_accts s)(b \<mapsto> \<lparr>a_last = Some (fst (last ws)), a_count = 0\<rparr>)\<rparr>"
  have d2: "ln.dseg h1 None (w # ws') None"
    using ln.dseg_setp_hd [of "l_nodes s" ?L "map fst ws" None None] d by (simp add: w h1_def)
  have cnt: "account_count s2 (Some w) (Some b) = Some (s\<lparr>l_nodes := account h1 b (map fst ws), l_apool := bs,
      l_accts := (l_accts s)(b \<mapsto> \<lparr>a_last = Some (fst (last ws)), a_count = of_nat (length ws)\<rparr>)\<rparr>)"
  proof -
    have "ln.dseg (l_nodes s2) None (w # ws') None" "distinct (w # ws')" "l_accts s2 b = Some \<lparr>a_last = Some (fst (last ws)), a_count = 0\<rparr>"
      using d2 nw(1) d(1) w by (auto simp: s2_def)
    from account_count_ok [OF this] show ?thesis
      using nw(1) w lw by (cases s) (simp add: s2_def)
  qed
  have vr: "valid (account h1 b (map fst ws)) (Some r)"
    using n(1) by (simp add: valid_def h1_def flip: not_None_eq)
  have h: "ln.setn h1 (Some r) None = h"
    by (simp add: h_def h1_def us(2) w)
  have "cells h a us"
    using assms(1) by (simp add: h_def elist_def)
  then obtain m2 where m2: "account h b (map fst ws) y = Some m2" "l_acc m2 = Some a"
    using cells_acc [of h a us y] y(2) yw(1) by auto
  show ?thesis
    using m nw y ab ne cnt vr h n m2 us(2) w assms(4) yw h1_def [symmetric] ck
    by (cases s) (simp add: eina_list_split_list_def eina_list_last_def eina_list_next_def accounting_new_def set_links s2_def fun_upd_twist)
qed

lemma list_split_ok:
  assumes "elist s p a (us @ ws)" and "us \<noteq> []" and "ws \<noteq> []" and "l_apool s = b # bs" and "pool_ok s"
  shows "\<exists>s'. eina_list_split_list s p (ptr_last None (map fst us)) = Some (p, ptr_hd (map fst ws) None, s') \<and>
    elist s' p a us \<and> elist s' (ptr_hd (map fst ws) None) b ws \<and> a \<noteq> b \<and> pool_ok s' \<and> leaves s (us @ ws) a s'"
proof -
  let ?L = "ptr_last None (map fst us)" and ?R = "ptr_hd (map fst ws) None"
  define h where "h = ln.setn (ln.setp (l_nodes s) ?R None) ?L None"
  let ?s = "s\<lparr>l_nodes := account h b (map fst ws), l_apool := bs,
       l_accts := (l_accts s)(a \<mapsto> \<lparr>a_last = ?L, a_count = of_nat (length us)\<rparr>,
         b \<mapsto> \<lparr>a_last = Some (fst (last ws)), a_count = of_nat (length ws)\<rparr>)\<rparr>"
  have e: "eina_list_split_list s p ?L = Some (p, ?R, ?s)"
    using list_split_exec [OF assms(1-5)] by (simp add: h_def)
  have el: "ln.dseg (l_nodes s) None (map fst us @ map fst ws) None" "distinct (map fst us @ map fst ws)" "p = ptr_hd (map fst us) None"
      "cells (l_nodes s) a us" "cells (l_nodes s) a ws" "length us < 2 ^ 32" "length ws < 2 ^ 32"
    using assms(1,2) by (auto simp: elist_def neq_Nil_conv)
  note d = ln.dseg_cut [OF el(1,2), folded h_def]
  have a: "a \<notin> set (l_apool s)"
    using fresh_facts(2) [OF assms(1,5)] assms(2) by auto
  then have ab: "a \<noteq> b" "a \<notin> set bs" "b \<notin> set bs"
    using assms(4,5) by (auto simp: pool_ok_def)
  have c: "cells h a us" "cells h a ws"
    using el by (simp_all add: h_def)
  have "elist ?s p a us"
    unfolding elist_def using el(2,3,6) d(1) cells_account(2) [OF c(1)] ab assms(2)
    by (simp add: ptr_last_fst)
  moreover have "elist ?s ?R b ws"
    unfolding elist_def using el(2,7) d(2) cells_account(1) [OF c(2), of "map fst ws" b] assms(3) by simp
  moreover have fr: "h y = l_nodes s y" if "y \<notin> fst ` set us" "y \<notin> fst ` set ws" for y
  proof -
    have "?L \<noteq> Some y" "?R \<noteq> Some y"
      using that by (auto dest!: ln.ptr_ends)
    then show ?thesis by (simp add: h_def)
  qed
  moreover have "pool_ok ?s"
    using assms(4,5) ab by (auto simp: pool_ok_def h_def)
  moreover have "leaves s (us @ ws) a ?s"
    using assms(2,4) fr by (auto simp: leaves_def image_Un)
  ultimately show ?thesis
    using e ab(1) by blast
qed

section \<open>Releasing\<close>

lemma list_free_all_ok:
  assumes "elist s p a vs"
  shows "eina_list_free s p = Some (None, s\<lparr>l_nodes := (\<lambda>x. if x \<in> fst ` set vs then None else l_nodes s x),
    l_accts := (if vs = [] then l_accts s else (l_accts s)(a := None))\<rparr>)"
proof -
  have "list_free_all s (ptr_hd (map fst vs) None) = Some (s\<lparr>l_nodes := (\<lambda>x. if x \<in> fst ` set vs then None else l_nodes s x),
      l_accts := (if vs = [] then l_accts s else (l_accts s)(a := None))\<rparr>)"
    if "ln.dseg (l_nodes s) q (map fst vs) None" "cells (l_nodes s) a vs" "distinct (map fst vs)" "length vs < 2 ^ 32"
      "vs \<noteq> [] \<Longrightarrow> l_accts s a = Some \<lparr>a_last = e, a_count = of_nat (length vs)\<rparr>" for e q and s :: "'a lstate"
    using that
  proof (induction vs arbitrary: s q)
    case Nil
    then show ?case
      by (subst list_free_all.simps) simp
  next
    case (Cons v vs)
    obtain n where n: "l_nodes s (fst v) = Some n" "l_next n = ptr_hd (map fst vs) None" "l_acc n = Some a"
      using Cons.prems(1,2) by auto
    define s1 where "s1 = s\<lparr>l_nodes := (l_nodes s)(fst v := None),
      l_accts := (l_accts s)(a := if vs = [] then None else Some \<lparr>a_last = e, a_count = of_nat (length vs)\<rparr>)\<rparr>"
    have "length vs < 2 ^ 32" "l_accts s a = Some \<lparr>a_last = e, a_count = of_nat (length vs) + 1\<rparr>"
      using Cons.prems(4,5) by (simp_all add: add.commute)
    then have f: "list_free s (Some (fst v)) = Some s1"
      using list_free_exec [OF n(1,3)] of_nat_u32_0 [of "length vs"] by (simp add: s1_def)
    have "list_free_all s1 (ptr_hd (map fst vs) None) = Some (s1\<lparr>l_nodes := (\<lambda>x. if x \<in> fst ` set vs then None else l_nodes s1 x),
      l_accts := (if vs = [] then l_accts s1 else (l_accts s1)(a := None))\<rparr>)"
    proof (rule Cons.IH)
      show "ln.dseg (l_nodes s1) (Some (fst v)) (map fst vs) None" "cells (l_nodes s1) a vs"
        using Cons.prems(1-3) by (simp_all add: s1_def)
    qed (use Cons.prems(3,4) in \<open>simp_all add: s1_def\<close>)
    then show ?case
      using n f by (subst list_free_all.simps) (auto simp: s1_def fun_eq_iff)
  qed
  from this [of s None] show ?thesis
    using assms by (simp add: elist_def eina_list_free_def)
qed

end
