(* ===== verification/Eina_List_Props.thy ===== *)
theory Eina_List_Props
  imports Eina_List_Parts
begin

text \<open>The properties of the list, with the state their witnesses use.\<close>

section \<open>Running out of memory\<close>

fun adds :: "'d list_req \<Rightarrow> bool" where
  "adds (L_append d) \<longleftrightarrow> True"
| "adds (L_prepend d) \<longleftrightarrow> True"
| "adds (L_append_relative d r) \<longleftrightarrow> True"
| "adds (L_prepend_relative d r) \<longleftrightarrow> True"
| "adds _ \<longleftrightarrow> False"

lemma ends_out_of_memory:
  assumes "elist s p a vs" and "pool_ok s" and "l_pool s = [] \<or> vs = [] \<and> l_apool s = []"
  shows "\<exists>s'. eina_list_append s p d = Some (p, s') \<and> l_nodes s' = l_nodes s \<and> l_accts s' = l_accts s"
    and "\<exists>s'. eina_list_prepend s p d = Some (p, s') \<and> l_nodes s' = l_nodes s \<and> l_accts s' = l_accts s"
  using assms by (cases "l_pool s"; auto simp: list_defs eina_list_append_def eina_list_prepend_def)+

lemma call_out_of_memory:
  assumes "elist s p a vs" and "pool_ok s" and "l_pool s = [] \<or> vs = [] \<and> l_apool s = []" and "adds c"
  shows "\<exists>s'. list_call c s p = Some (p, s') \<and> l_nodes s' = l_nodes s \<and> l_accts s' = l_accts s"
proof -
  note ends = ends_out_of_memory [OF assms(1-3)]
  have rel: "\<exists>s'. (if r \<noteq> None then eina_list_append_relative_list s p d r else eina_list_append s p d) = Some (p, s') \<and>
        l_nodes s' = l_nodes s \<and> l_accts s' = l_accts s"
      "\<exists>s'. (if r \<noteq> None then eina_list_prepend_relative_list s p d r else eina_list_prepend s p d) = Some (p, s') \<and>
        l_nodes s' = l_nodes s \<and> l_accts s' = l_accts s" if "r \<noteq> None \<Longrightarrow> vs \<noteq> []" for r d
    using ends [of d] assms(3) that
    by (auto simp: eina_list_append_relative_list_def eina_list_prepend_relative_list_def list_new_def)
  have find: "\<exists>r. list_find_node s p (\<lambda>x. x = d) = Some r \<and> (r \<noteq> None \<longrightarrow> vs \<noteq> [])" for d
    by (cases rule: data_find_ok [OF assms(1), of d]) auto
  show ?thesis
  proof (cases c)
    case (L_append_relative d e)
    obtain r where "list_find_node s p (\<lambda>x. x = e) = Some r" "r \<noteq> None \<longrightarrow> vs \<noteq> []"
      using find by blast
    then show ?thesis
      using rel(1) [of r d] L_append_relative by (simp add: eina_list_append_relative_def del: not_None_eq)
  next
    case (L_prepend_relative d e)
    obtain r where "list_find_node s p (\<lambda>x. x = e) = Some r" "r \<noteq> None \<longrightarrow> vs \<noteq> []"
      using find by blast
    then show ?thesis
      using rel(2) [of r d] L_prepend_relative by (simp add: eina_list_prepend_relative_def del: not_None_eq)
  qed (use ends assms(4) in simp_all)
qed

section \<open>Properties\<close>

text \<open>States with the lists 5, 2, 4 and 5, 4, 2 and some free memory, and one without memory.\<close>

definition listed :: "int lstate" where
  "listed = \<lparr>l_nodes = [0 \<mapsto> \<lparr>l_data = 5, l_next = Some 1, l_prev = None, l_acc = Some 0\<rparr>,
       1 \<mapsto> \<lparr>l_data = 2, l_next = Some 2, l_prev = Some 0, l_acc = Some 0\<rparr>,
       2 \<mapsto> \<lparr>l_data = 4, l_next = None, l_prev = Some 1, l_acc = Some 0\<rparr>],
     l_accts = [0 \<mapsto> \<lparr>a_last = Some 2, a_count = 3\<rparr>], l_pool = [3, 4, 5, 6], l_apool = [1, 2, 3, 4]\<rparr>"

definition listed2 :: "int lstate" where
  "listed2 = \<lparr>l_nodes = [0 \<mapsto> \<lparr>l_data = 5, l_next = Some 1, l_prev = None, l_acc = Some 0\<rparr>,
       1 \<mapsto> \<lparr>l_data = 4, l_next = Some 2, l_prev = Some 0, l_acc = Some 0\<rparr>,
       2 \<mapsto> \<lparr>l_data = 2, l_next = None, l_prev = Some 1, l_acc = Some 0\<rparr>],
     l_accts = [0 \<mapsto> \<lparr>a_last = Some 2, a_count = 3\<rparr>], l_pool = [3, 4, 5, 6], l_apool = [1, 2, 3, 4]\<rparr>"

definition unlisted :: "int lstate" where
  "unlisted = \<lparr>l_nodes = (\<lambda>_. None), l_accts = (\<lambda>_. None), l_pool = [], l_apool = []\<rparr>"

lemma listed_ok: "elist listed (Some 0) 0 [(0, 5), (1, 2), (2, 4)]" "pool_ok listed"
  by (auto simp: elist_def pool_ok_def listed_def)

lemma listed2_ok: "elist listed2 (Some 0) 0 [(0, 5), (1, 4), (2, 2)]" "pool_ok listed2"
  by (auto simp: elist_def pool_ok_def listed2_def)

lemma unlisted_ok: "elist unlisted None 0 []" "pool_ok unlisted"
  by (auto simp: elist_def pool_ok_def unlisted_def)

lemma int_compare: "compare_cb (\<lambda>x y. x - y :: int)" and int_compare_down: "compare_cb (\<lambda>x y. y - x :: int)"
  by unfold_locales auto

text \<open>
  C6. Any sequence of the calls that append, prepend, insert next to a datum, remove, promote
  and demote does to a well-formed list, while memory lasts, what the same sequence does to
  a plain sequence of data, and leaves a well-formed list.
\<close>

theorem list_edits_refine_sequence:
  assumes "elist s p a vs" and "pool_ok s" and "length cs \<le> length (l_pool s)" and "length cs \<le> length (l_apool s)"
    and "length vs + length cs < 2 ^ 32"
  shows "\<exists>p' s' a' vs'. list_calls cs s p = Some (p', s') \<and> elist s' p' a' vs' \<and> pool_ok s' \<and>
    map snd vs' = fold seq_call cs (map snd vs)"
  using assms by (rule list_calls_ok)

theorem list_edits_witness:
  "\<exists>p' s' a' vs'. list_calls [L_append 7, L_prepend_relative 1 2, L_remove 5, L_demote 2] listed (Some 0) = Some (p', s') \<and>
    elist s' p' a' vs' \<and> pool_ok s' \<and> map snd vs' = [1, 4, 7, 2]"
  using list_edits_refine_sequence [OF listed_ok, of "[L_append 7, L_prepend_relative 1 2, L_remove 5, L_demote 2]"]
  by (simp add: listed_def)

text \<open>
  C26. When the memory pools are exhausted the calls that add a datum return the list they were
  given, and no node and no accounting record has changed.
\<close>

theorem list_out_of_memory_keeps_list:
  assumes "elist s p a vs" and "pool_ok s" and "l_pool s = [] \<or> vs = [] \<and> l_apool s = []" and "adds c"
  shows "\<exists>s'. list_call c s p = Some (p, s') \<and> l_nodes s' = l_nodes s \<and> l_accts s' = l_accts s"
  using assms by (rule call_out_of_memory)

theorem list_out_of_memory_witness:
  "\<exists>s'. list_call (L_append 7) unlisted None = Some (None, s') \<and> l_nodes s' = l_nodes unlisted \<and> l_accts s' = l_accts unlisted"
  using list_out_of_memory_keeps_list [OF unlisted_ok, of "L_append 7"] by (simp add: unlisted_def)

text \<open>
  C27. \<open>eina_list_sort\<close> returns for every list; it permutes the first \<open>limit\<close> members (all of
  them when \<open>limit\<close> is zero or too large) so that they ascend for the comparison, and leaves
  the members behind where they are.
\<close>

theorem list_sort_sorts_prefix:
  assumes "elist s p a vs" and "pool_ok s" and "compare_cb f"
  shows "\<exists>p' s' us. eina_list_sort (Some f) s p limit = Some (p', s') \<and>
    elist s' p' a (us @ drop (sort_limit (length vs) limit) vs) \<and> pool_ok s' \<and>
    mset us = mset (take (sort_limit (length vs) limit) vs) \<and> sorted_wrt (\<lambda>x y. f x y \<le> 0) (map snd us)"
  using list_sort_ok [OF assms(1,2), of f limit] assms(3) by auto

theorem list_sort_witness:
  "\<exists>p' s' us. eina_list_sort (Some (\<lambda>x y. x - y)) listed (Some 0) 2 = Some (p', s') \<and>
    elist s' p' 0 (us @ [(2, 4)]) \<and> pool_ok s' \<and> mset us = {#(0, 5), (1, 2)#} \<and> sorted_wrt (\<lambda>x y. x - y \<le> 0) (map snd us)"
  using list_sort_sorts_prefix [OF listed_ok int_compare, of 2] by (simp add: sort_limit_def)

text \<open>
  C28. In a sorted list \<open>eina_list_search_sorted_list\<close> finds a node whose datum compares equal
  to the one looked for exactly when there is one.
\<close>

theorem list_search_sorted_finds:
  assumes "compare_cb f" and "sorted_wrt (\<lambda>x y. f x y \<le> 0) (map snd vs)" and "elist s p a vs"
  shows "if \<exists>x \<in> snd ` set vs. f x d = 0
    then \<exists>y e. eina_list_search_sorted_list f s p d = Some (Some y) \<and> (y, e) \<in> set vs \<and> f e d = 0
    else eina_list_search_sorted_list f s p d = Some None"
  using assms by (rule search_sorted_list_ok)

theorem list_search_sorted_witness:
  "\<exists>y e. eina_list_search_sorted_list (\<lambda>x y. y - x) listed2 (Some 0) 4 = Some (Some y) \<and> (y, e) \<in> {(0, 5), (1, 4), (2, 2)} \<and> (4 :: int) - e = 0"
  using list_search_sorted_finds [OF int_compare_down _ listed2_ok(1), of 4] by simp

text \<open>
  \<open>eina_list_sorted_insert\<close> adds the datum to a sorted list, loses none, and the list is
  sorted afterwards.
\<close>

theorem list_sorted_insert_keeps_order:
  assumes "compare_cb f" and "sorted_wrt (\<lambda>x y. f x y \<le> 0) (map snd vs)" and "elist s p a vs" and "pool_ok s"
    and "l_pool s \<noteq> []" and "l_apool s \<noteq> []" and "length vs + 1 < 2 ^ 32"
  shows "\<exists>p' s' a' vs'. eina_list_sorted_insert f s p d = Some (p', s') \<and> elist s' p' a' vs' \<and> pool_ok s' \<and>
    mset (map snd vs') = add_mset d (mset (map snd vs)) \<and> sorted_wrt (\<lambda>x y. f x y \<le> 0) (map snd vs')"
  using list_sorted_insert_ok [OF assms, of d] unfolding yields_def becomes_def by blast

theorem list_sorted_insert_witness:
  "\<exists>p' s' a' vs'. eina_list_sorted_insert (\<lambda>x y. y - x) listed2 (Some 0) 3 = Some (p', s') \<and> elist s' p' a' vs' \<and> pool_ok s' \<and>
    mset (map snd vs') = {#3, 5, 4, 2#} \<and> sorted_wrt (\<lambda>x y. y - x \<le> 0) (map snd vs')"
  using list_sorted_insert_keeps_order [OF int_compare_down _ listed2_ok, of 3] by (simp add: listed2_def)

text \<open>
  C29. Cutting a list in two behind one of its nodes with \<open>eina_list_split_list\<close> gives two
  well-formed lists, and \<open>eina_list_merge\<close> of the two gives the list back, node by node.
\<close>

theorem list_split_merge_roundtrip:
  assumes "elist s p a (us @ ws)" and "us \<noteq> []" and "ws \<noteq> []" and "l_apool s \<noteq> []" and "pool_ok s"
  shows "\<exists>q b s1 s2 c. eina_list_split_list s p (ptr_last None (map fst us)) = Some (p, q, s1) \<and>
    elist s1 p a us \<and> elist s1 q b ws \<and> eina_list_merge s1 p q = Some (p, s2) \<and> elist s2 p c (us @ ws) \<and> pool_ok s2"
proof -
  obtain b bs where "l_apool s = b # bs"
    using assms(4) by (cases "l_apool s") auto
  from list_split_ok [OF assms(1-3) this assms(5)] obtain q s1 where
      r: "eina_list_split_list s p (ptr_last None (map fst us)) = Some (p, q, s1)"
      "elist s1 p a us" "elist s1 q b ws" "a \<noteq> b" "pool_ok s1"
    by blast
  moreover have "distinct (map fst (us @ ws))" "length (us @ ws) < 2 ^ 32"
    using assms(1) by (simp_all add: elist_def)
  ultimately show ?thesis
    using list_merge_ok [OF r(2,3) assms(2,3) r(4)] by blast
qed

theorem list_split_merge_witness:
  "\<exists>q b s1 s2 c. eina_list_split_list listed (Some 0) (Some 1) = Some (Some 0, q, s1) \<and>
    elist s1 (Some 0) 0 [(0, 5), (1, 2)] \<and> elist s1 q b [(2, 4)] \<and> eina_list_merge s1 (Some 0) q = Some (Some 0, s2) \<and>
    elist s2 (Some 0) c [(0, 5), (1, 2), (2, 4)] \<and> pool_ok s2"
  using list_split_merge_roundtrip [of listed "Some 0" 0 "[(0, 5), (1, 2)]" "[(2, 4)]"] listed_ok by (simp add: listed_def)

text \<open>
  \<open>eina_list_free\<close> releases every node of the list and its accounting record, and touches
  nothing else.
\<close>

theorem list_free_releases_all:
  assumes "elist s p a vs"
  shows "\<exists>s'. eina_list_free s p = Some (None, s') \<and>
    (\<forall>x. l_nodes s' x = (if x \<in> fst ` set vs then None else l_nodes s x)) \<and>
    (\<forall>b. l_accts s' b = (if b = a \<and> vs \<noteq> [] then None else l_accts s b))"
  using list_free_all_ok [OF assms] by auto

theorem list_free_witness:
  "\<exists>s'. eina_list_free listed (Some 0) = Some (None, s') \<and> (\<forall>x. l_nodes s' x = None) \<and> (\<forall>b. l_accts s' b = None)"
  using list_free_releases_all [OF listed_ok(1)] by (auto simp: listed_def)

text \<open>
  \<open>eina_list_nth\<close> reads the datum at any position, walking from the nearer end, and gives
  no datum behind the end.
\<close>

theorem list_nth_reads_position:
  assumes "elist s p a vs"
  shows "eina_list_nth s p n = Some (if unat n < length vs then Some (snd (vs ! unat n)) else None)"
proof -
  have "eina_list_data_get s (if unat n < length vs then Some (fst (vs ! unat n)) else None) =
      Some (if unat n < length vs then Some (snd (vs ! unat n)) else None)"
  proof (cases "unat n < length vs")
    case True
    then show ?thesis
      by (rule elist_nth [OF assms]) (simp add: eina_list_data_get_def True)
  qed (simp add: eina_list_data_get_def)
  then have get: "eina_list_nth_list s p n \<bind> eina_list_data_get s = Some (if unat n < length vs then Some (snd (vs ! unat n)) else None)"
    by (simp add: nth_list_ok [OF assms])
  show ?thesis
  proof (cases vs)
    case Nil
    then show ?thesis
      using assms by (simp add: eina_list_nth_def elist_def)
  next
    case (Cons v us)
    then have "p = Some (fst v)" "eina_list_data_get s (Some (fst v)) = Some (Some (snd v))"
      using assms by (auto simp: elist_def eina_list_data_get_def)
    then show ?thesis
      using get Cons by (cases "n = 0") (simp_all add: eina_list_nth_def)
  qed
qed

theorem list_nth_witness: "eina_list_nth listed (Some 0) 2 = Some (Some 4)"
  using list_nth_reads_position [OF listed_ok(1), of 2] by simp

end
