(* ===== verification/Eina_Unicode.thy ===== *)
theory Eina_Unicode
  imports Prelude
begin

text \<open>
  The Unicode strings of \<open>src/lib/shared/string/eina_unicode.c\<close> and the UTF-8 codec. A code
  point is a 32-bit word. A buffer is the list of its cells, terminator and all; a pointer
  into a buffer of code points is the rest of the buffer from there on; UTF-8 text is read
  at an index. Reading or writing outside a buffer is \<open>None\<close>.
\<close>

unbundle bit_operations_syntax

type_synonym uchar = u32

section \<open>Strings of code points\<close>

fun eina_unicode_strcmp :: "uchar list \<Rightarrow> uchar list \<Rightarrow> int option" where
  "eina_unicode_strcmp (a # as) (b # bs) =
     (if a \<noteq> 0 \<and> a = b then eina_unicode_strcmp as bs
      else Some (if a = b then 0 else if a < b then - 1 else 1))"
| "eina_unicode_strcmp _ _ = None"

text \<open>The copies return what is then in the target buffer.\<close>

fun eina_unicode_strcpy :: "uchar list \<Rightarrow> uchar list \<Rightarrow> uchar list option" where
  "eina_unicode_strcpy (d # ds) (s # ss) =
     (if s \<noteq> 0 then map_option ((#) s) (eina_unicode_strcpy ds ss) else Some (0 # ds))"
| "eina_unicode_strcpy _ _ = None"

fun fill_zero :: "uchar list \<Rightarrow> nat \<Rightarrow> uchar list option" where
  "fill_zero ds 0 = Some ds"
| "fill_zero (d # ds) (Suc n) = map_option ((#) 0) (fill_zero ds n)"
| "fill_zero [] (Suc n) = None"

fun eina_unicode_strncpy :: "uchar list \<Rightarrow> uchar list \<Rightarrow> nat \<Rightarrow> uchar list option" where
  "eina_unicode_strncpy ds ss 0 = Some ds"
| "eina_unicode_strncpy ds [] (Suc n) = None"
| "eina_unicode_strncpy ds (s # ss) (Suc n) =
     (if s \<noteq> 0 then
        (case ds of
           [] \<Rightarrow> None
         | _ # ds' \<Rightarrow> map_option ((#) s) (eina_unicode_strncpy ds' ss n))
      else fill_zero ds (Suc n))"

fun eina_unicode_strlen :: "uchar list \<Rightarrow> nat option" where
  "eina_unicode_strlen (c # cs) = (if c \<noteq> 0 then map_option Suc (eina_unicode_strlen cs) else Some 0)"
| "eina_unicode_strlen [] = None"

fun strnlen_loop :: "uchar list \<Rightarrow> nat \<Rightarrow> nat option" where
  "strnlen_loop cs 0 = Some 0"
| "strnlen_loop (c # cs) (Suc n) = (if c \<noteq> 0 then map_option Suc (strnlen_loop cs n) else Some 0)"
| "strnlen_loop [] (Suc n) = None"

definition eina_unicode_strnlen :: "uchar list \<Rightarrow> int \<Rightarrow> nat option" where
  "eina_unicode_strnlen ustr n = strnlen_loop ustr (nat n)"

text \<open>\<open>mem\<close> says whether \<open>malloc\<close> succeeds; a null result is the inner \<open>None\<close>.\<close>

definition eina_unicode_strndup :: "bool \<Rightarrow> uchar list \<Rightarrow> nat \<Rightarrow> uchar list option option" where
  "eina_unicode_strndup mem text n =
     (if \<not> mem then Some None
      else if n \<le> length text then Some (Some (take n text @ [0])) else None)"

definition eina_unicode_strdup :: "bool \<Rightarrow> uchar list \<Rightarrow> uchar list option option" where
  "eina_unicode_strdup mem text = do { len \<leftarrow> eina_unicode_strlen text; eina_unicode_strndup mem text len }"

text \<open>The inner loop of \<open>eina_unicode_strstr\<close>: where \<open>i\<close> and \<open>j\<close> stop.\<close>

fun match_loop :: "uchar list \<Rightarrow> uchar list \<Rightarrow> (uchar list \<times> uchar list) option" where
  "match_loop i [] = None"
| "match_loop i (n # ns) =
     (if n = 0 then Some (i, n # ns)
      else case i of
             [] \<Rightarrow> None
           | h # hs \<Rightarrow> if h \<noteq> 0 \<and> n = h then match_loop hs ns else Some (i, n # ns))"

lemma match_loop_length: "match_loop i j = Some (i', j') \<Longrightarrow> length i' \<le> length i"
proof (induction j arbitrary: i)
  case (Cons n ns)
  then show ?case
    by (cases i) (auto split: if_splits dest: Cons.IH)
qed simp

function eina_unicode_strstr :: "uchar list \<Rightarrow> uchar list \<Rightarrow> uchar list option option" where
  "eina_unicode_strstr i needle =
     (case i of
        [] \<Rightarrow> None
      | h # _ \<Rightarrow>
          if h = 0 then Some None
          else
            (case match_loop i needle of
               None \<Rightarrow> None
             | Some (i', j) \<Rightarrow>
                 if hd j = 0 then Some (Some i)
                 else (case i' of [] \<Rightarrow> None | _ # rest \<Rightarrow> eina_unicode_strstr rest needle)))"
  by auto
termination
  by (relation "measure (\<lambda>(i, needle). length i)") (auto dest!: match_loop_length)

declare eina_unicode_strstr.simps [simp del]

text \<open>
  \<open>eina_unicode_escape\<close> writes to a buffer of \<open>cap\<close> cells; \<open>out\<close> is what has been written.
\<close>

definition put :: "nat \<Rightarrow> 'a list \<Rightarrow> 'a list \<Rightarrow> 'a list option" where
  "put cap out xs = (if length out + length xs \<le> cap then Some (out @ xs) else None)"

fun escape_loop :: "nat \<Rightarrow> uchar list \<Rightarrow> uchar list \<Rightarrow> uchar list option" where
  "escape_loop cap [] out = None"
| "escape_loop cap (s # ss) out =
     (if s \<noteq> 0 then do {
        out \<leftarrow> (if s = 0x20 \<or> s = 0x5C \<or> s = 0x27 then put cap out [0x5C] else Some out);
        out \<leftarrow> put cap out [s];
        escape_loop cap ss out }
      else put cap out [0])"

definition eina_unicode_escape :: "bool \<Rightarrow> uchar list \<Rightarrow> uchar list option option" where
  "eina_unicode_escape mem str = do {
     len \<leftarrow> eina_unicode_strlen str;
     (if \<not> mem then Some None else map_option Some (escape_loop (len * 2 + 1) str [])) }"

section \<open>UTF-8\<close>

definition EINA_UNICODE_UTF8_BYTES_PER_CHAR :: nat where
  "EINA_UNICODE_UTF8_BYTES_PER_CHAR = 6"

definition ERROR_REPLACEMENT_BASE :: uchar where
  "ERROR_REPLACEMENT_BASE = 0xDC80"

definition ERROR_REPLACEMENT_END :: uchar where
  "ERROR_REPLACEMENT_END = 0xDCFF"

definition EINA_IS_INVALID_BYTE :: "u8 \<Rightarrow> bool" where
  "EINA_IS_INVALID_BYTE x \<longleftrightarrow> x = 192 \<or> x = 193 \<or> x \<ge> 245"

definition EINA_IS_CONTINUATION_BYTE :: "u8 \<Rightarrow> bool" where
  "EINA_IS_CONTINUATION_BYTE x \<longleftrightarrow> x AND 0xC0 = 0x80"

text \<open>
  A read at an \<open>int\<close> index that is incremented with it: \<open>None\<close> outside of the buffer and when
  the index overflows.
\<close>

definition byte_at :: "u8 list \<Rightarrow> nat \<Rightarrow> u8 option" where
  "byte_at buf i = (if i < length buf \<and> i < INT_MAX then Some (buf ! i) else None)"

text \<open>
  The continuation bytes of a sequence, with the place in the code point each one has; the
  inner \<open>None\<close> is the jump to \<open>error\<close>.
\<close>

fun utf8_tail :: "u8 list \<Rightarrow> nat \<Rightarrow> uchar \<Rightarrow> nat list \<Rightarrow> (uchar \<times> nat) option option" where
  "utf8_tail buf ind r [] = Some (Some (r, ind))"
| "utf8_tail buf ind r (s # ss) = do {
     d \<leftarrow> byte_at buf ind;
     (if d = 0 \<or> EINA_IS_INVALID_BYTE d \<or> \<not> EINA_IS_CONTINUATION_BYTE d then Some None
      else utf8_tail buf (ind + 1) (r OR push_bit s (ucast (d AND 0x3f))) ss) }"

definition utf8_error :: "u8 list \<Rightarrow> nat \<Rightarrow> (uchar \<times> nat) option" where
  "utf8_error buf iindex = do { d \<leftarrow> byte_at buf iindex; Some (ERROR_REPLACEMENT_BASE OR ucast d, iindex + 1) }"

definition utf8_seq :: "u8 list \<Rightarrow> nat \<Rightarrow> nat \<Rightarrow> uchar \<Rightarrow> nat list \<Rightarrow> uchar \<Rightarrow> (uchar \<times> nat) option" where
  "utf8_seq buf iindex ind r shifts overlong = do {
     t \<leftarrow> utf8_tail buf ind r shifts;
     (case t of
        None \<Rightarrow> utf8_error buf iindex
      | Some (r, ind) \<Rightarrow> if r \<le> overlong then utf8_error buf iindex else Some (r, ind)) }"

text \<open>\<open>_eina_unicode_utf8_next_get\<close>: the code point and the new index.\<close>

definition utf8_next_get_long :: "nat \<Rightarrow> u8 \<Rightarrow> u8 list \<Rightarrow> nat \<Rightarrow> (uchar \<times> nat) option" where
  "utf8_next_get_long ind d buf iindex =
     (if d AND 0xf0 = 0xe0 then utf8_seq buf iindex ind (push_bit 12 (ucast (d AND 0x0f))) [6, 0] 0x7FF
      else if d AND 0xf8 = 0xf0 then utf8_seq buf iindex ind (push_bit 18 (ucast (d AND 0x07))) [12, 6, 0] 0xFFFF
      else if d AND 0xfc = 0xf8 then utf8_seq buf iindex ind (push_bit 24 (ucast (d AND 0x03))) [18, 12, 6, 0] 0x1FFFFF
      else if d AND 0xfe = 0xfc then utf8_seq buf iindex ind (push_bit 30 (ucast (d AND 0x01))) [24, 18, 12, 6, 0] 0x3FFFFFF
      else utf8_error buf iindex)"

definition eina_unicode_utf8_next_get :: "u8 list \<Rightarrow> nat \<Rightarrow> (uchar \<times> nat) option" where
  "eina_unicode_utf8_next_get buf iindex = do {
     d \<leftarrow> byte_at buf iindex;
     (if d = 0 then Some (0, iindex)
      else if d AND 0x80 = 0 then Some (ucast d, iindex + 1)
      else if d AND 0xe0 = 0xc0 then utf8_seq buf iindex (iindex + 1) (push_bit 6 (ucast (d AND 0x1f))) [0] 0x7F
      else utf8_next_get_long (iindex + 1) d buf iindex) }"

fun prev_start :: "u8 list \<Rightarrow> nat \<Rightarrow> nat option" where
  "prev_start buf 0 = Some 0"
| "prev_start buf (Suc i) = do {
     d \<leftarrow> byte_at buf (Suc i);
     (if d AND 0xc0 = 0x80 then prev_start buf i else Some (Suc i)) }"

definition eina_unicode_utf8_get_prev :: "u8 list \<Rightarrow> nat \<Rightarrow> (uchar \<times> nat) option" where
  "eina_unicode_utf8_get_prev buf iindex = do {
     (r, _) \<leftarrow> eina_unicode_utf8_next_get buf iindex;
     (if iindex = 0 then Some (r, iindex)
      else do { i \<leftarrow> prev_start buf (iindex - 1); Some (r, i) }) }"

partial_function (option) utf8_len_from :: "u8 list \<Rightarrow> nat \<Rightarrow> nat \<Rightarrow> nat option" where
  [code]: "utf8_len_from buf i len = do {
     (r, i) \<leftarrow> eina_unicode_utf8_next_get buf i;
     (if r \<noteq> 0 then do { len \<leftarrow> c_int (len + 1); utf8_len_from buf i len } else Some len) }"

definition eina_unicode_utf8_get_len :: "u8 list \<Rightarrow> nat option" where
  "eina_unicode_utf8_get_len buf = utf8_len_from buf 0 0"

fun utf8_chars :: "u8 list \<Rightarrow> nat \<Rightarrow> nat \<Rightarrow> uchar list option" where
  "utf8_chars buf ind 0 = Some []"
| "utf8_chars buf ind (Suc n) = do {
     (r, ind) \<leftarrow> eina_unicode_utf8_next_get buf ind;
     map_option ((#) r) (utf8_chars buf ind n) }"

text \<open>The new string, and the length stored through \<open>_len\<close>.\<close>

definition eina_unicode_utf8_to_unicode :: "bool \<Rightarrow> u8 list \<Rightarrow> (uchar list option \<times> nat) option" where
  "eina_unicode_utf8_to_unicode mem utf = do {
     len \<leftarrow> eina_unicode_utf8_get_len utf;
     n \<leftarrow> c_int (len + 1);
     (if \<not> mem then Some (None, len)
      else do { cs \<leftarrow> utf8_chars utf 0 len; Some (Some (cs @ [0]), len) }) }"

text \<open>The bytes that the loop of \<open>eina_unicode_unicode_to_utf8_range\<close> writes for one code point.\<close>

definition utf8_bytes :: "uchar \<Rightarrow> u8 list" where
  "utf8_bytes c =
     (if c \<le> 0x7F then [ucast c]
      else if c \<le> 0x7FF then [0xC0 OR ucast (drop_bit 6 c), 0x80 OR ucast (c AND 0x3F)]
      else if c \<le> 0xFFFF then
        (if c \<ge> ERROR_REPLACEMENT_BASE \<and> c \<le> ERROR_REPLACEMENT_END then [ucast (c AND 0xFF)]
         else [0xE0 OR ucast (drop_bit 12 c), 0x80 OR ucast (drop_bit 6 c AND 0x3F), 0x80 OR ucast (c AND 0x3F)])
      else if c \<le> 0x1FFFFF then
        [0xF0 OR ucast (drop_bit 18 c AND 0x07), 0x80 OR ucast (drop_bit 12 c AND 0x3F),
         0x80 OR ucast (drop_bit 6 c AND 0x3F), 0x80 OR ucast (c AND 0x3F)]
      else if c \<le> 0x3FFFFFF then
        [0xF8 OR ucast (drop_bit 24 c AND 0x03), 0x80 OR ucast (drop_bit 18 c AND 0x3F),
         0x80 OR ucast (drop_bit 12 c AND 0x3F), 0x80 OR ucast (drop_bit 6 c AND 0x3F), 0x80 OR ucast (c AND 0x3F)]
      else
        [0xFC OR ucast (drop_bit 30 c AND 0x01), 0x80 OR ucast (drop_bit 24 c AND 0x3F),
         0x80 OR ucast (drop_bit 18 c AND 0x3F), 0x80 OR ucast (drop_bit 12 c AND 0x3F),
         0x80 OR ucast (drop_bit 6 c AND 0x3F), 0x80 OR ucast (c AND 0x3F)])"

fun to_utf8_loop :: "nat \<Rightarrow> uchar list \<Rightarrow> nat \<Rightarrow> u8 list \<Rightarrow> u8 list option" where
  "to_utf8_loop cap [] n out = None"
| "to_utf8_loop cap (c # cs) n out =
     (if c \<noteq> 0 \<and> n > 0 then do { out \<leftarrow> put cap out (utf8_bytes c); to_utf8_loop cap cs (n - 1) out }
      else Some out)"

text \<open>
  \<open>mem\<close> and \<open>mem'\<close> say whether \<open>malloc\<close> and \<open>realloc\<close> succeed. The size is a product of \<open>int\<close>s: it may
  overflow, and a negative one is more memory than there is.
\<close>

definition eina_unicode_unicode_to_utf8_range ::
  "bool \<Rightarrow> bool \<Rightarrow> uchar list \<Rightarrow> int \<Rightarrow> (u8 list \<times> nat) option option" where
  "eina_unicode_unicode_to_utf8_range mem mem' uni ulen =
     (let bytes = (ulen + 1) * int EINA_UNICODE_UTF8_BYTES_PER_CHAR
      in if \<not> in_int (ulen + 1) \<or> \<not> in_int bytes then None
         else if bytes < 0 \<or> \<not> mem then Some None
         else do {
           out \<leftarrow> to_utf8_loop (nat bytes) uni (nat ulen) [];
           n \<leftarrow> c_int (length out + 1);
           (if \<not> mem' then Some None else Some (Some (out @ [0], length out))) })"

definition eina_unicode_unicode_to_utf8 :: "bool \<Rightarrow> bool \<Rightarrow> uchar list \<Rightarrow> (u8 list \<times> nat) option option" where
  "eina_unicode_unicode_to_utf8 mem mem' uni = do {
     len \<leftarrow> eina_unicode_strlen uni;
     eina_unicode_unicode_to_utf8_range mem mem' uni (sint (of_nat len :: u32)) }"

end
