(* ===== verification/Eina_Unicode_Laws.thy ===== *)
theory Eina_Unicode_Laws
  imports Eina_Unicode
begin

text \<open>
  The UTF-8 codec: what is decoded from an encoded code point, and what is encoded for a
  decoded byte sequence. The five classes of longer sequences have one contract, the locale
  \<open>utf8_class\<close>.
\<close>

unbundle bit_operations_syntax

section \<open>Bytes\<close>

lemma u8_bits: "x = (y :: u8) \<longleftrightarrow> (bit x 0 = bit y 0 \<and> bit x 1 = bit y 1 \<and> bit x 2 = bit y 2 \<and> bit x 3 = bit y 3 \<and>
    bit x 4 = bit y 4 \<and> bit x 5 = bit y 5 \<and> bit x 6 = bit y 6 \<and> bit x 7 = bit y 7)"
proof
  assume b: "bit x 0 = bit y 0 \<and> bit x 1 = bit y 1 \<and> bit x 2 = bit y 2 \<and> bit x 3 = bit y 3 \<and>
    bit x 4 = bit y 4 \<and> bit x 5 = bit y 5 \<and> bit x 6 = bit y 6 \<and> bit x 7 = bit y 7"
  show "x = y"
  proof (rule bit_word_eqI)
    fix n assume "n < LENGTH(8)"
    then have "n = 0 \<or> n = 1 \<or> n = 2 \<or> n = 3 \<or> n = 4 \<or> n = 5 \<or> n = 6 \<or> n = 7"
      by simp arith
    then show "bit x n = bit y n" using b by (elim disjE) simp_all
  qed
qed simp

lemma head_excl:
  fixes d :: u8
  shows "(d AND 0xE0 = 0xC0 \<longrightarrow> d AND 0x80 \<noteq> 0)" "(d AND 0xF0 = 0xE0 \<longrightarrow> d AND 0x80 \<noteq> 0 \<and> d AND 0xE0 \<noteq> 0xC0)"
    "(d AND 0xF8 = 0xF0 \<longrightarrow> d AND 0x80 \<noteq> 0 \<and> d AND 0xE0 \<noteq> 0xC0 \<and> d AND 0xF0 \<noteq> 0xE0)"
    "(d AND 0xFC = 0xF8 \<longrightarrow> d AND 0x80 \<noteq> 0 \<and> d AND 0xE0 \<noteq> 0xC0 \<and> d AND 0xF0 \<noteq> 0xE0 \<and> d AND 0xF8 \<noteq> 0xF0)"
    "(d AND 0xFE = 0xFC \<longrightarrow> d AND 0x80 \<noteq> 0 \<and> d AND 0xE0 \<noteq> 0xC0 \<and> d AND 0xF0 \<noteq> 0xE0 \<and> d AND 0xF8 \<noteq> 0xF0 \<and> d AND 0xFC \<noteq> 0xF8)"
  by (simp_all add: u8_bits bit_and_iff)

lemma head_bytes_inv:
  fixes d :: u8
  shows "(d AND 0xE0 = 0xC0 \<longrightarrow> 0xC0 OR (d AND mask 5) = d) \<and> (d AND 0xF0 = 0xE0 \<longrightarrow> 0xE0 OR (d AND mask 4) = d) \<and>
    (d AND 0xF8 = 0xF0 \<longrightarrow> 0xF0 OR (d AND mask 3) = d) \<and> (d AND 0xFC = 0xF8 \<longrightarrow> 0xF8 OR (d AND mask 2) = d) \<and>
    (d AND 0xFE = 0xFC \<longrightarrow> 0xFC OR (d AND mask 1) = d)"
  by (simp add: u8_bits bit_and_iff bit_or_iff bit_mask_iff)

lemma head_bytes:
  fixes v :: u8
  shows "unat v < 32 \<Longrightarrow> (0xC0 OR v) AND 0xE0 = 0xC0 \<and> 0xC0 OR v \<noteq> 0 \<and> (0xC0 OR v) AND mask 5 = v"
   "unat v < 16 \<Longrightarrow> (0xE0 OR v) AND 0xF0 = 0xE0 \<and> 0xE0 OR v \<noteq> 0 \<and> (0xE0 OR v) AND mask 4 = v"
    "unat v < 8 \<Longrightarrow> (0xF0 OR v) AND 0xF8 = 0xF0 \<and> 0xF0 OR v \<noteq> 0 \<and> (0xF0 OR v) AND mask 3 = v"
    "unat v < 4 \<Longrightarrow> (0xF8 OR v) AND 0xFC = 0xF8 \<and> 0xF8 OR v \<noteq> 0 \<and> (0xF8 OR v) AND mask 2 = v"
    "unat v < 2 \<Longrightarrow> (0xFC OR v) AND 0xFE = 0xFC \<and> 0xFC OR v \<noteq> 0 \<and> (0xFC OR v) AND mask 1 = v"
proof -
  have small: "\<not> bit v n" if "unat v < 2 ^ m" "m \<le> n" for n m
  proof -
    have "unat v < 2 ^ n"
      using that(1) power_increasing [OF that(2), of "2 :: nat"] by linarith
    then have "\<not> bit (unat v) n"
      by (simp add: bit_iff_odd)
    then show ?thesis
      by (simp add: bit_unsigned_iff)
  qed
  note b = u8_bits bit_and_iff bit_or_iff bit_mask_iff
  show "unat v < 32 \<Longrightarrow> (0xC0 OR v) AND 0xE0 = 0xC0 \<and> 0xC0 OR v \<noteq> 0 \<and> (0xC0 OR v) AND mask 5 = v" 
    using small [of 5] by (simp add: b)
  show "unat v < 16 \<Longrightarrow> (0xE0 OR v) AND 0xF0 = 0xE0 \<and> 0xE0 OR v \<noteq> 0 \<and> (0xE0 OR v) AND mask 4 = v"
    using small [of 4] by (simp add: b)
   show "unat v < 8 \<Longrightarrow> (0xF0 OR v) AND 0xF8 = 0xF0 \<and> 0xF0 OR v \<noteq> 0 \<and> (0xF0 OR v) AND mask 3 = v"
    using small [of 3] by (simp add: b)
   show "unat v < 4 \<Longrightarrow> (0xF8 OR v) AND 0xFC = 0xF8 \<and> 0xF8 OR v \<noteq> 0 \<and> (0xF8 OR v) AND mask 2 = v"
    using small [of 2] by (simp add: b)
   show "unat v < 2 \<Longrightarrow> (0xFC OR v) AND 0xFE = 0xFC \<and> 0xFC OR v \<noteq> 0 \<and> (0xFC OR v) AND mask 1 = v"
    using small [of 1] by (simp add: b)
qed

lemma tail_byte:
  fixes d :: u8
  assumes "d AND 0xC0 = 0x80"
  shows "d \<noteq> 0" "\<not> EINA_IS_INVALID_BYTE d" "0x80 OR (d AND 0x3F) = d"
proof -
  have b: "bit d 7" "\<not> bit d 6"
    using assms by (simp_all add: u8_bits bit_and_iff)
  then show "d \<noteq> 0" by auto
  show "0x80 OR (d AND 0x3F) = d"
    using b by (simp add: u8_bits bit_and_iff bit_or_iff)
  have "unat d < 2 ^ 8"
    using unsigned_less [of d] by simp
  moreover have "even (unat d div 2 ^ 6)"
    using b(2) bit_unsigned_iff [of d 6, where ?'a = nat] by (simp add: bit_iff_odd [of "unat d"])
  moreover have "unat d div 2 ^ 6 = 3" if "192 \<le> unat d" "unat d < 2 ^ 8"
    by (rule div_nat_eqI) (use that in simp_all)
  ultimately have "unat d < 192" by (metis not_le odd_numeral numeral_3_eq_3)
  then show "\<not> EINA_IS_INVALID_BYTE d"
    by (auto simp: EINA_IS_INVALID_BYTE_def word_le_nat_alt)
qed

lemma tail_make:
  fixes d :: u8
  shows "(0x80 OR (d AND 0x3F)) AND 0xC0 = 0x80" "(0x80 OR (d AND 0x3F)) AND 0x3F = d AND 0x3F"
  by (simp_all add: u8_bits bit_and_iff bit_or_iff)
lemma mask_numerals: "(0x3F :: 'a :: len word) = mask 6" "(0x1F :: 'a word) = mask 5" "(0x0F :: 'a word) = mask 4"
  "(0x07 :: 'a word) = mask 3" "(0x03 :: 'a word) = mask 2"
  by (simp_all add: mask_eq_exp_minus_1)

lemma ucast_back: "ucast (ucast w :: u32) = (w :: u8)"
  by (rule bit_word_eqI) (simp add: bit_simps)

section \<open>Continuation bytes\<close>

definition cont :: "uchar \<Rightarrow> nat \<Rightarrow> u8" where
  "cont c s = 0x80 OR ucast (drop_bit s c AND 0x3F)"

lemma ucast_and_3F: "ucast (x AND 0x3F :: u32) = (ucast x AND 0x3F :: u8)"
  by (simp add: unsigned_and_eq)

lemma cont_byte [simp]:
  "cont c s \<noteq> 0" "\<not> EINA_IS_INVALID_BYTE (cont c s)" "EINA_IS_CONTINUATION_BYTE (cont c s)"
  using tail_make(1) [of "ucast (drop_bit s c)"] tail_byte [of "cont c s"]
  by (auto simp: cont_def ucast_and_3F EINA_IS_CONTINUATION_BYTE_def)

lemma cont_payload: "ucast (cont c s AND 0x3F) = take_bit 6 (drop_bit s c)"
proof -
  have "cont c s AND 0x3F = ucast (drop_bit s c AND 0x3F)"
    using tail_make(2) [of "ucast (drop_bit s c)"] by (simp add: cont_def ucast_and_3F)
  then show ?thesis
    by (simp add: mask_numerals take_bit_eq_mask [symmetric] unsigned_ucast_eq)
qed

primrec shifts :: "nat \<Rightarrow> nat list" where
  "shifts 0 = []"
| "shifts (Suc k) = 6 * k # shifts k"

lemma shifts_values: "shifts 1 = [0]" "shifts 2 = [6, 0]" "shifts 3 = [12, 6, 0]" "shifts 4 = [18, 12, 6, 0]"
  "shifts 5 = [24, 18, 12, 6, 0]"
  by (simp_all add: eval_nat_numeral)

lemma glue: "push_bit (s + 6) (drop_bit (s + 6) c) OR push_bit s (take_bit 6 (drop_bit s c)) = push_bit s (drop_bit s (c :: uchar))"
proof (rule bit_word_eqI)
  fix n assume "n < LENGTH(32)"
  then show "bit (push_bit (s + 6) (drop_bit (s + 6) c) OR push_bit s (take_bit 6 (drop_bit s c))) n = bit (push_bit s (drop_bit s c)) n"
    by (cases "s + 6 \<le> n") (auto simp: bit_simps)
qed

lemma byte_at_app [simp]: "length us < INT_MAX \<Longrightarrow> byte_at (us @ x # ws) (length us) = Some x"
  by (simp add: byte_at_def)

lemma tail_encode:
  "length us + k \<le> INT_MAX \<Longrightarrow> utf8_tail (us @ map (cont c) (shifts k) @ ws) (length us) (push_bit (6 * k) (drop_bit (6 * k) c)) (shifts k) =
    Some (Some (c, length us + k))"
proof (induction k arbitrary: us)
  case (Suc k)
  have "push_bit (6 * Suc k) (drop_bit (6 * Suc k) c) OR push_bit (6 * k) (ucast (cont c (6 * k) AND 0x3F)) =
      push_bit (6 * k) (drop_bit (6 * k) c)"
    using glue [of "6 * k" c] by (simp add: cont_payload add.commute)
  then show ?case
    using Suc.IH [of "us @ [cont c (6 * k)]"] Suc.prems by simp
qed simp

lemma tail_decode:
  assumes "0 \<notin> set bs" and "take_bit (6 * k) r = 0" and "k \<le> 5" and "length us + length bs < INT_MAX"
  shows "utf8_tail (us @ bs @ 0 # ws) (length us) r (shifts k) = Some None \<or>
    (\<exists>c. utf8_tail (us @ bs @ 0 # ws) (length us) r (shifts k) = Some (Some (c, length us + k)) \<and> k \<le> length bs \<and>
      take k bs = map (cont c) (shifts k) \<and> drop_bit (6 * k) c = drop_bit (6 * k) r)"
  using assms
proof (induction k arbitrary: us bs r)
  case (Suc k)
  show ?case
  proof (cases "bs = [] \<or> \<not> EINA_IS_CONTINUATION_BYTE (hd bs)")
    case True
    with Suc.prems(4) show ?thesis
      by (cases bs) auto
  next
    case False
    then obtain d ds where bs: "bs = d # ds" "d AND 0xC0 = 0x80"
      by (cases bs) (auto simp: EINA_IS_CONTINUATION_BYTE_def)
    have ok: "\<not> (d = 0 \<or> EINA_IS_INVALID_BYTE d \<or> \<not> EINA_IS_CONTINUATION_BYTE d)" "0x80 OR (d AND 0x3F) = d"
      using tail_byte [of d] bs(2) by (simp_all add: EINA_IS_CONTINUATION_BYTE_def)
    define r' where "r' = r OR push_bit (6 * k) (ucast (d AND 0x3F))"
    have z: "\<not> bit r n" if "n < 6 * Suc k" for n
      using Suc.prems(2) that by (metis bit_0_eq bit_take_bit_iff bot_apply bot_bool_def)
    have b: "bit r' n \<longleftrightarrow> (bit r n \<or> (6 * k \<le> n \<and> n < 6 * Suc k \<and> bit d (n - 6 * k)))" for n
      using Suc.prems(3) by (cases "n < 32") (auto simp: r'_def bit_simps mask_numerals dest: bit_imp_le_length)
    have "take_bit (6 * k) r' = 0"
      by (rule bit_word_eqI) (auto simp: bit_take_bit_iff b z)
    moreover have dr: "drop_bit (6 * Suc k) r' = drop_bit (6 * Suc k) r"
      by (rule bit_word_eqI) (simp add: bit_drop_bit_eq b)
    moreover have pay: "take_bit 6 (drop_bit (6 * k) r') = ucast (d AND 0x3F)"
      by (rule bit_word_eqI) (use Suc.prems(3) in \<open>auto simp: bit_simps mask_numerals b z\<close>)
    moreover have "cont c (6 * k) = d \<and> drop_bit (6 + 6 * k) c = drop_bit (6 + 6 * k) r" if c: "drop_bit (6 * k) c = drop_bit (6 * k) r'" for c
    proof
      have "drop_bit (6 * k) c AND 0x3F = ucast (d AND 0x3F)"
        using pay unfolding c take_bit_eq_mask mask_numerals .
      then show "cont c (6 * k) = d"
        using ok(2) by (simp add: cont_def ucast_back)
      show "drop_bit (6 + 6 * k) c = drop_bit (6 + 6 * k) r"
        using dr arg_cong [OF c, of "drop_bit 6"] by (simp add: drop_bit_drop_bit)
    qed
    ultimately show ?thesis
      using Suc.IH [of ds r' "us @ [d]"] Suc.prems bs(1) ok by (simp flip: r'_def) blast
  qed
qed simp

section \<open>Sequences\<close>

definition replacement :: "uchar \<Rightarrow> bool" where
  "replacement c \<longleftrightarrow> ERROR_REPLACEMENT_BASE \<le> c \<and> c \<le> ERROR_REPLACEMENT_END"

text \<open>
  A class of sequences: \<open>k\<close> bytes behind the head, \<open>m\<close> bits in the head, which is \<open>base\<close>
  under \<open>head_mask\<close>; code points above \<open>low\<close>.
\<close>

locale utf8_class =
  fixes k m :: nat and base head_mask :: u8 and low :: uchar
  assumes widths: "k \<le> 5 \<and> 6 * k + m \<le> 31 \<and> m \<le> 5"
    and head: "unat v < 2 ^ m \<Longrightarrow> (base OR v) AND head_mask = base \<and> base OR v \<noteq> 0 \<and> (base OR v) AND mask m = v"
    and head_inv: "d AND head_mask = base \<Longrightarrow> base OR (d AND mask m) = d"
    and next_get: "byte_at buf i = Some d \<Longrightarrow> d \<noteq> 0 \<Longrightarrow> d AND head_mask = base \<Longrightarrow>
      eina_unicode_utf8_next_get buf i = utf8_seq buf i (i + 1) (push_bit (6 * k) (ucast (d AND mask m))) (shifts k) low"
    and bytes: "low < c \<Longrightarrow> unat c < 2 ^ (6 * k + m) \<Longrightarrow> \<not> replacement c \<Longrightarrow>
      utf8_bytes c = (base OR ucast (drop_bit (6 * k) c)) # map (cont c) (shifts k)"
begin

lemma width: "k \<le> 5" "6 * k + m \<le> 31" "m \<le> 5"
  using widths by simp_all

lemma head_value:
  fixes c :: uchar
  assumes "unat c < 2 ^ (6 * k + m)"
  shows "unat (ucast (drop_bit (6 * k) c) :: u8) < 2 ^ m" and "ucast (ucast (drop_bit (6 * k) c) :: u8) = drop_bit (6 * k) c"
proof -
  have d: "unat (drop_bit (6 * k) c) < 2 ^ m"
    using assms unfolding unat_drop_bit_eq by (simp add: drop_bit_eq_div less_mult_imp_div_less power_add mult.commute)
  moreover have "(2 :: nat) ^ m \<le> 2 ^ 5"
    by (rule power_increasing [OF width(3)]) simp
  ultimately have e: "unat (ucast (drop_bit (6 * k) c) :: u8) = unat (drop_bit (6 * k) c)"
    by (simp add: unsigned_ucast_eq take_bit_nat_eq_self)
  show "unat (ucast (drop_bit (6 * k) c) :: u8) < 2 ^ m"
    using d e by simp
  show "ucast (ucast (drop_bit (6 * k) c) :: u8) = drop_bit (6 * k) c"
    unfolding word_unat_eq_iff unsigned_ucast_eq [of "ucast (drop_bit (6 * k) c) :: u8"] e
    using unsigned_less [of "drop_bit (6 * k) c", where 'a = nat] by (simp add: take_bit_nat_eq_self)
qed

lemma encoded_next:
  assumes "low < c" and "unat c < 2 ^ (6 * k + m)" and "\<not> replacement c" and "length us + length (utf8_bytes c) \<le> INT_MAX"
  shows "eina_unicode_utf8_next_get (us @ utf8_bytes c @ ws) (length us) = Some (c, length us + length (utf8_bytes c))"
proof -
  let ?v = "ucast (drop_bit (6 * k) c) :: u8"
  have h: "(base OR ?v) AND head_mask = base" "base OR ?v \<noteq> 0" "(base OR ?v) AND mask m = ?v"
    using head [OF head_value(1) [OF assms(2)]] by auto
  define buf where "buf = us @ utf8_bytes c @ ws"
  have b: "buf = (us @ [base OR ?v]) @ map (cont c) (shifts k) @ ws" "length (utf8_bytes c) = Suc (length (shifts k))"
    using bytes [OF assms(1-3)] by (simp_all add: buf_def)
  have l: "length (shifts j) = j" for j
    by (induction j) simp_all
  have t: "utf8_tail buf (length us + 1) (push_bit (6 * k) (drop_bit (6 * k) c)) (shifts k) = Some (Some (c, length us + 1 + k))"
    using tail_encode [of "us @ [base OR ?v]" k c ws] assms(4) b(2) l unfolding b(1) by simp
  have "byte_at buf (length us) = Some (base OR ?v)"
    using bytes [OF assms(1-3)] assms(4) by (simp add: buf_def)
  from next_get [OF this h(2,1)] show ?thesis
    using t assms(1) b(2) l by (auto simp: h(3) head_value(2) [OF assms(2)] utf8_seq_def simp flip: buf_def)
qed

text \<open>A decoded sequence is what its code point is encoded as.\<close>

lemma decoded_bytes:
  assumes "0 \<notin> set (d # bs)" and "d AND head_mask = base" and "length us + 1 + length bs < INT_MAX"
  shows "eina_unicode_utf8_next_get (us @ d # bs @ 0 # ws) (length us) = utf8_error (us @ d # bs @ 0 # ws) (length us) \<or>
    (\<exists>c. eina_unicode_utf8_next_get (us @ d # bs @ 0 # ws) (length us) = Some (c, length us + 1 + k) \<and> k \<le> length bs \<and>
      low < c \<and> unat c < 2 ^ (6 * k + m) \<and> d # take k bs = (base OR ucast (drop_bit (6 * k) c)) # map (cont c) (shifts k))"
proof -
  define buf where "buf = us @ d # bs @ 0 # ws"
  define r where "r = push_bit (6 * k) (ucast (d AND mask m) :: uchar)"
  have "byte_at buf (length us) = Some d" "d \<noteq> 0" "0 \<notin> set bs"
    using assms(1,3) by (auto simp: buf_def)
  then have n: "eina_unicode_utf8_next_get buf (length us) = utf8_seq buf (length us) (length us + 1) r (shifts k) low"
    using next_get assms(2) by (simp add: r_def)
  have z: "take_bit (6 * k) r = 0"
    by (simp add: r_def take_bit_push_bit)
  have v: "unat (ucast (d AND mask m) :: uchar) < 2 ^ m"
  proof -
    have "unat (ucast (d AND mask m) :: uchar) = take_bit 32 (take_bit m (unat d))"
      by (simp add: unsigned_ucast_eq unsigned_take_bit_eq min.commute flip: take_bit_eq_mask)
    then show ?thesis
      by (metis le_less_trans take_bit_nat_less_exp take_bit_nat_less_eq_self)
  qed
  have dr: "drop_bit (6 * k) r = ucast (d AND mask m)"
    by (rule bit_word_eqI) (use width in \<open>auto simp: r_def bit_simps\<close>)
  from tail_decode [OF \<open>0 \<notin> set bs\<close> z width(1), of "us @ [d]" ws] assms(3)
  consider "utf8_tail buf (length us + 1) r (shifts k) = Some None"
    | c where "utf8_tail buf (length us + 1) r (shifts k) = Some (Some (c, length us + 1 + k))" "k \<le> length bs"
      "take k bs = map (cont c) (shifts k)" "drop_bit (6 * k) c = drop_bit (6 * k) r"
    by (auto simp: buf_def)
  then have "eina_unicode_utf8_next_get buf (length us) = utf8_error buf (length us) \<or>
    (\<exists>c. eina_unicode_utf8_next_get buf (length us) = Some (c, length us + 1 + k) \<and> k \<le> length bs \<and>
      low < c \<and> unat c < 2 ^ (6 * k + m) \<and> d # take k bs = (base OR ucast (drop_bit (6 * k) c)) # map (cont c) (shifts k))"
  proof cases
    case 1
    then show ?thesis
      using n by (simp add: utf8_seq_def)
  next
    case (2 c)
    have "unat (drop_bit (6 * k) c) < 2 ^ m"
      using v 2(4) dr by simp
    then have "unat c < 2 ^ (6 * k + m)"
      unfolding unat_drop_bit_eq by (simp add: drop_bit_eq_div div_less_iff_less_mult power_add mult.commute)
    moreover have "base OR ucast (drop_bit (6 * k) c) = d"
      using 2(4) dr head_inv [OF assms(2)] by (simp add: ucast_back)
    ultimately show ?thesis
      using 2 n by (simp add: utf8_seq_def not_le [symmetric])
  qed
  then show ?thesis
    by (simp add: buf_def)
qed

end

text \<open>The five classes.\<close>

lemma and_mask_small: "unat c < 2 ^ (n + m) \<Longrightarrow> drop_bit n c AND mask m = drop_bit n (c :: uchar)"
proof -
  assume "unat c < 2 ^ (n + m)"
  then have "unat (drop_bit n c) < 2 ^ m"
    unfolding unat_drop_bit_eq by (simp add: drop_bit_eq_div less_mult_imp_div_less power_add mult.commute)
  then have "take_bit m (drop_bit n c) = drop_bit n c"
    by (simp add: word_unat_eq_iff unsigned_take_bit_eq take_bit_nat_eq_self)
  then show ?thesis
    by (simp add: take_bit_eq_mask)
qed

lemma above:
  fixes c :: uchar
  shows "0x7F < c \<Longrightarrow> \<not> c \<le> 0x7F" "0x7FF < c \<Longrightarrow> \<not> c \<le> 0x7FF \<and> \<not> c \<le> 0x7F"
    "0xFFFF < c \<Longrightarrow> \<not> c \<le> 0xFFFF \<and> \<not> c \<le> 0x7FF \<and> \<not> c \<le> 0x7F"
    "0x1FFFFF < c \<Longrightarrow> \<not> c \<le> 0x1FFFFF \<and> \<not> c \<le> 0xFFFF \<and> \<not> c \<le> 0x7FF \<and> \<not> c \<le> 0x7F"
    "0x3FFFFFF < c \<Longrightarrow> \<not> c \<le> 0x3FFFFFF \<and> \<not> c \<le> 0x1FFFFF \<and> \<not> c \<le> 0xFFFF \<and> \<not> c \<le> 0x7FF \<and> \<not> c \<le> 0x7F"
  by (simp_all add: word_le_nat_alt word_less_nat_alt)

lemma below:
  fixes c :: uchar
  shows "unat c < 2 ^ 11 \<Longrightarrow> c \<le> 0x7FF" "unat c < 2 ^ 16 \<Longrightarrow> c \<le> 0xFFFF" "unat c < 2 ^ 21 \<Longrightarrow> c \<le> 0x1FFFFF"
    "unat c < 2 ^ 26 \<Longrightarrow> c \<le> 0x3FFFFFF"
  by (simp_all add: word_le_nat_alt)

lemmas class_defs = eina_unicode_utf8_next_get_def utf8_next_get_long_def utf8_bytes_def cont_def
  replacement_def shifts_values

interpretation seq2: utf8_class 1 5 "0xC0" "0xE0" "0x7F"
proof (unfold_locales, goal_cases)
  case 1
  show ?case by simp
next
  case (2 v)
  then show ?case using head_bytes(1) [of v] by simp
next
  case (3 d)
  then show ?case using head_bytes_inv [of d] by blast
next
  case (4 buf i d)
  then show ?case using head_excl(1) [of d] by (simp add: class_defs mask_numerals)
next
  case (5 c)
  then show ?case using above(1) [of c] below(1) [of c] by (simp add: class_defs)
qed

interpretation seq3: utf8_class 2 4 "0xE0" "0xF0" "0x7FF"
proof (unfold_locales, goal_cases)
  case 1
  show ?case by simp
next
  case (2 v)
  then show ?case using head_bytes(2) [of v] by simp
next
  case (3 d)
  then show ?case using head_bytes_inv [of d] by blast
next
  case (4 buf i d)
  then show ?case using head_excl(2) [of d] by (simp add: class_defs mask_numerals)
next
  case (5 c)
  then show ?case using above(2) [of c] below(2) [of c] by (simp add: class_defs)
qed

interpretation seq4: utf8_class 3 3 "0xF0" "0xF8" "0xFFFF"
proof (unfold_locales, goal_cases)
  case 1
  show ?case by simp
next
  case (2 v)
  then show ?case using head_bytes(3) [of v] by simp
next
  case (3 d)
  then show ?case using head_bytes_inv [of d] by blast
next
  case (4 buf i d)
  then show ?case using head_excl(3) [of d] by (simp add: class_defs mask_numerals)
next
  case (5 c)
  then show ?case using above(3) [of c] below(3) [of c] and_mask_small [of c 18 3] by (simp add: class_defs mask_numerals)
qed

interpretation seq5: utf8_class 4 2 "0xF8" "0xFC" "0x1FFFFF"
proof (unfold_locales, goal_cases)
  case 1
  show ?case by simp
next
  case (2 v)
  then show ?case using head_bytes(4) [of v] by simp
next
  case (3 d)
  then show ?case using head_bytes_inv [of d] by blast
next
  case (4 buf i d)
  then show ?case using head_excl(4) [of d] by (simp add: class_defs mask_numerals)
next
  case (5 c)
  then show ?case using above(4) [of c] below(4) [of c] and_mask_small [of c 24 2] by (simp add: class_defs mask_numerals)
qed

interpretation seq6: utf8_class 5 1 "0xFC" "0xFE" "0x3FFFFFF"
proof (unfold_locales, goal_cases)
  case 1
  show ?case by simp
next
  case (2 v)
  then show ?case using head_bytes(5) [of v] by simp
next
  case (3 d)
  then show ?case using head_bytes_inv [of d] by blast
next
  case (4 buf i d)
  then show ?case using head_excl(5) [of d] by (simp add: class_defs mask_numerals)
next
  case (5 c)
  then show ?case using above(5) [of c] and_mask_small [of c 30 1] by (simp add: class_defs mask_numerals)
qed

end
