(* ===== verification/Eina_Unicode_Codec.thy ===== *)
theory Eina_Unicode_Codec
  imports Eina_Unicode_Laws
begin

text \<open>
  What one step of the decoder does: an encoded code point is read back, and every byte of a
  C string starts a piece that is one code point and is encoded as the same bytes again.
\<close>

unbundle bit_operations_syntax

section \<open>One code point\<close>

lemma length_utf8_bytes: "length (utf8_bytes c) \<le> 6"
  by (simp add: utf8_bytes_def)

lemma ascii_next:
  fixes c :: uchar
  assumes "c \<noteq> 0" and "c \<le> 0x7F" and "length us < INT_MAX"
  shows "eina_unicode_utf8_next_get (us @ utf8_bytes c @ ws) (length us) = Some (c, length us + length (utf8_bytes c))"
proof -
  have t: "take_bit 7 c = c"
    using assms(2) by (simp add: word_unat_eq_iff unsigned_take_bit_eq take_bit_nat_eq_self word_le_nat_alt)
  have b: "\<not> bit c n" if "7 \<le> n" for n
    using t that by (metis bit_take_bit_iff leD)
  have u: "ucast (ucast c :: u8) = c"
    by (rule bit_word_eqI) (use b in \<open>auto simp: bit_simps not_le [symmetric]\<close>)
  have "(ucast c :: u8) AND 0x80 = 0"
    using b [of 7] by (simp add: u8_bits bit_and_iff bit_simps)
  moreover have "(ucast c :: u8) \<noteq> 0"
    using u assms(1) by (metis unsigned_0)
  ultimately show ?thesis
    using assms(2,3) u by (simp add: eina_unicode_utf8_next_get_def utf8_bytes_def)
qed

definition code_point :: "uchar \<Rightarrow> bool" where
  "code_point c \<longleftrightarrow> c \<noteq> 0 \<and> unat c < 2 ^ 31 \<and> \<not> replacement c"

lemma utf8_bytes_nonempty: "0 < length (utf8_bytes c)"
  by (simp add: utf8_bytes_def)

lemma code_point_next:
  assumes "code_point c" and len: "length us + length (utf8_bytes c) \<le> INT_MAX"
  shows "eina_unicode_utf8_next_get (us @ utf8_bytes c @ ws) (length us) = Some (c, length us + length (utf8_bytes c))"
proof -
  have c: "c \<noteq> 0" "unat c < 2 ^ 31" "\<not> replacement c"
    using assms(1) by (simp_all add: code_point_def)
  consider "c \<le> 0x7F" | "0x7F < c" "unat c < 2 ^ (6 * 1 + 5)" | "0x7FF < c" "unat c < 2 ^ (6 * 2 + 4)"
    | "0xFFFF < c" "unat c < 2 ^ (6 * 3 + 3)" | "0x1FFFFF < c" "unat c < 2 ^ (6 * 4 + 2)"
    | "0x3FFFFFF < c" "unat c < 2 ^ (6 * 5 + 1)"
    using c(2) by (simp add: word_less_nat_alt word_le_nat_alt) linarith
  then show ?thesis
  proof cases
    case 1
    then show ?thesis using ascii_next [OF c(1), of us ws] len utf8_bytes_nonempty [of c] by linarith
  next
    case 2
    then show ?thesis by (rule seq2.encoded_next [OF _ _ c(3) len])
  next
    case 3
    then show ?thesis by (rule seq3.encoded_next [OF _ _ c(3) len])
  next
    case 4
    then show ?thesis by (rule seq4.encoded_next [OF _ _ c(3) len])
  next
    case 5
    then show ?thesis by (rule seq5.encoded_next [OF _ _ c(3) len])
  next
    case 6
    then show ?thesis by (rule seq6.encoded_next [OF _ _ c(3) len])
  qed
qed

lemma replacement_bytes: "replacement c \<Longrightarrow> utf8_bytes c = [ucast c]"
proof -
  assume r: "replacement c"
  have "ucast (c AND 0xFF) = (ucast c :: u8)"
    by (simp add: unsigned_and_eq u8_bits bit_and_iff)
  then show ?thesis
    using r by (auto simp: utf8_bytes_def replacement_def word_le_nat_alt ERROR_REPLACEMENT_BASE_def ERROR_REPLACEMENT_END_def)
qed

text \<open>A byte that no sequence starts with is kept in a code point of its own.\<close>

lemma replaced_byte:
  fixes d :: u8
  assumes "d AND 0x80 \<noteq> 0"
  shows "utf8_bytes (ERROR_REPLACEMENT_BASE OR ucast d) = [d]" "ERROR_REPLACEMENT_BASE OR ucast d \<noteq> 0"
    "replacement (ERROR_REPLACEMENT_BASE OR ucast d)"
proof -
  have b: "bit d 7"
    using assms by (simp add: u8_bits bit_and_iff)
  have "0x80 OR ucast d = (ucast d :: uchar)"
  proof (rule bit_word_eqI)
    fix n
    have "bit (0x80 :: uchar) n \<longleftrightarrow> n = 7"
      using bit_exp_iff [of 7 n, where ?'a = uchar] by (auto simp: possible_bit_def)
    then show "bit (0x80 OR ucast d :: uchar) n = bit (ucast d :: uchar) n"
      using b by (auto simp: bit_or_iff bit_ucast_iff)
  qed
  then have "ERROR_REPLACEMENT_BASE OR ucast d = 0xDC00 OR (ucast d :: uchar)"
    using or.assoc [of "0xDC00" "0x80" "ucast d :: uchar"] by (simp add: ERROR_REPLACEMENT_BASE_def)
  moreover have "push_bit 8 v AND (ucast d :: uchar) = 0" for v
    by (rule bit_word_eqI) (auto simp: bit_and_iff bit_push_bit_iff bit_ucast_iff dest: bit_imp_le_length)
  from this [of "0xDC"] have "0xDC00 AND (ucast d :: uchar) = 0"
    by simp
  ultimately have s: "ERROR_REPLACEMENT_BASE OR ucast d = 0xDC00 + (ucast d :: uchar)"
    by (simp add: disjunctive_add_eq_or)
  have d: "unat d < 256" "unat (ucast d :: uchar) = unat d"
    using unsigned_less [of d, where 'a = nat] by (simp_all add: unsigned_ucast_eq take_bit_nat_eq_self)
  have "\<not> unat d < 128"
  proof
    assume "unat d < 128"
    then have "\<not> bit (unat d) 7" by (simp add: bit_iff_odd)
    then show False using b by (simp add: bit_unsigned_iff)
  qed
  moreover have u: "unat (ERROR_REPLACEMENT_BASE OR ucast d :: uchar) = 0xDC00 + unat d"
    unfolding s using d by (simp add: unat_word_ariths)
  ultimately show r: "replacement (ERROR_REPLACEMENT_BASE OR ucast d)"
    using d(1) by (simp add: replacement_def word_le_nat_alt) (simp add: ERROR_REPLACEMENT_BASE_def ERROR_REPLACEMENT_END_def)
  show "ERROR_REPLACEMENT_BASE OR ucast d \<noteq> 0"
    using u by auto
  show "utf8_bytes (ERROR_REPLACEMENT_BASE OR ucast d) = [d]"
    unfolding replacement_bytes [OF r]
    using b by (simp add: unsigned_or_eq ucast_back ERROR_REPLACEMENT_BASE_def u8_bits bit_or_iff)
qed

text \<open>Every byte of a C string starts a piece that is one code point.\<close>

definition escaped :: "u8 \<Rightarrow> u8 list \<Rightarrow> bool" where
  "escaped d bs \<longleftrightarrow> d = 0xED \<and> bs \<noteq> [] \<and> (hd bs = 0xB2 \<or> hd bs = 0xB3)"

lemma not_replacement:
  "c \<le> 0x7FF \<Longrightarrow> \<not> replacement c" "0xFFFF < c \<Longrightarrow> \<not> replacement c"
  by (auto simp: replacement_def ERROR_REPLACEMENT_BASE_def ERROR_REPLACEMENT_END_def word_le_nat_alt word_less_nat_alt)

lemma replacement_escaped:
  assumes "replacement c" and "d # take 2 bs = (0xE0 OR ucast (drop_bit 12 c)) # map (cont c) [6, 0]"
  shows "escaped d bs"
proof -
  have u: "0xDC80 \<le> unat c" "unat c \<le> 0xDCFF"
    using assms(1) by (simp_all add: replacement_def ERROR_REPLACEMENT_BASE_def ERROR_REPLACEMENT_END_def word_le_nat_alt)
  have "unat c div 2 ^ 12 = 0xD"
    by (rule div_nat_eqI) (use u in simp_all)
  moreover have "unat c div 2 ^ 6 = (if unat c < 0xDCC0 then 0x372 else 0x373)"
    by (rule div_nat_eqI) (use u in simp_all)
  ultimately have "unat (drop_bit 12 c) = 0xD" "unat (drop_bit 6 c) = 0x372 \<or> unat (drop_bit 6 c) = 0x373"
    unfolding unat_drop_bit_eq unfolding drop_bit_eq_div by simp_all
  then have "drop_bit 12 c = 0xD" "drop_bit 6 c = 0x372 \<or> drop_bit 6 c = 0x373"
    by (simp_all only: word_unat_eq_iff unat_numeral) simp_all
  then show ?thesis
    using assms(2) by (cases bs) (auto simp: escaped_def cont_def)
qed

definition piece :: "u8 list \<Rightarrow> u8 \<Rightarrow> u8 list \<Rightarrow> u8 list \<Rightarrow> bool" where
  "piece us d bs ws \<longleftrightarrow> (\<exists>c k. eina_unicode_utf8_next_get (us @ d # bs @ 0 # ws) (length us) = Some (c, length us + 1 + k) \<and>
    k \<le> length bs \<and> c \<noteq> 0 \<and> (utf8_bytes c = d # take k bs \<or> escaped d bs))"

lemma piece_error:
  assumes "d AND 0x80 \<noteq> 0"
    and "eina_unicode_utf8_next_get (us @ d # bs @ 0 # ws) (length us) = utf8_error (us @ d # bs @ 0 # ws) (length us)"
    and "length us < INT_MAX"
  shows "piece us d bs ws"
proof -
  have "eina_unicode_utf8_next_get (us @ d # bs @ 0 # ws) (length us) =
      Some (ERROR_REPLACEMENT_BASE OR ucast d, length us + 1 + 0)"
    unfolding assms(2) using assms(3) by (simp add: utf8_error_def)
  then show ?thesis
    unfolding piece_def using replaced_byte [OF assms(1)] by (intro exI conjI) auto
qed

lemma piece_ascii:
  assumes "d \<noteq> 0" and "d AND 0x80 = 0" and "length us < INT_MAX"
  shows "piece us d bs ws"
proof -
  have "\<not> bit d 7"
    using assms(2) by (simp add: u8_bits bit_and_iff)
  then have "even (unat d div 2 ^ 7)"
    using bit_unsigned_iff [of d 7, where ?'a = nat] by (simp add: bit_iff_odd [of "unat d"])
  moreover have "unat d < 2 ^ 8"
    using unsigned_less [of d, where 'a = nat] by simp
  moreover have "unat d div 2 ^ 7 = 1" if "128 \<le> unat d" "unat d < 2 ^ 8"
    by (rule div_nat_eqI) (use that in simp_all)
  ultimately have "unat d < 128" by (metis not_le odd_one)
  then have "(ucast d :: uchar) \<le> 0x7F"
    by (simp add: word_le_nat_alt unsigned_ucast_eq take_bit_nat_eq_self)
  then have "utf8_bytes (ucast d) = d # take 0 bs"
    by (simp add: utf8_bytes_def ucast_back)
  moreover have "(ucast d :: uchar) \<noteq> 0"
    using assms(1) ucast_back [of d] by (metis unsigned_0)
  moreover have "eina_unicode_utf8_next_get (us @ d # bs @ 0 # ws) (length us) = Some (ucast d, length us + 1 + 0)"
    using assms by (simp add: eina_unicode_utf8_next_get_def)
  ultimately show ?thesis
    unfolding piece_def by blast
qed

lemma piece_seq:
  assumes "d AND 0x80 \<noteq> 0"
    and "eina_unicode_utf8_next_get (us @ d # bs @ 0 # ws) (length us) = utf8_error (us @ d # bs @ 0 # ws) (length us) \<or>
      (\<exists>c. eina_unicode_utf8_next_get (us @ d # bs @ 0 # ws) (length us) = Some (c, length us + 1 + k) \<and> k \<le> length bs \<and>
        low < c \<and> unat c < n \<and> d # take k bs = h c # map (cont c) (shifts k))"
    and "\<And>c. low < c \<Longrightarrow> unat c < n \<Longrightarrow> d # take k bs = h c # map (cont c) (shifts k) \<Longrightarrow>
      utf8_bytes c = h c # map (cont c) (shifts k) \<or> escaped d bs"
    and len: "length us < INT_MAX"
  shows "piece us d bs ws"
  using assms(2)
proof
  assume "\<exists>c. eina_unicode_utf8_next_get (us @ d # bs @ 0 # ws) (length us) = Some (c, length us + 1 + k) \<and> k \<le> length bs \<and>
        low < c \<and> unat c < n \<and> d # take k bs = h c # map (cont c) (shifts k)"
  then obtain c where c: "eina_unicode_utf8_next_get (us @ d # bs @ 0 # ws) (length us) = Some (c, length us + 1 + k)"
      "k \<le> length bs" "low < c" "unat c < n" "d # take k bs = h c # map (cont c) (shifts k)"
    by blast
  moreover have "c \<noteq> 0"
    using c(3) by auto
  moreover have "utf8_bytes c = d # take k bs \<or> escaped d bs"
    using assms(3) c by metis
  ultimately show ?thesis
    unfolding piece_def by blast
qed (rule piece_error [OF assms(1) _ len])

lemma piece_start:
  assumes "0 \<notin> set (d # bs)" and len: "length us + 1 + length bs < INT_MAX"
  shows "piece us d bs ws"
proof -
  have us: "length us < INT_MAX" using len by simp
  have nr: "\<not> replacement c" if "unat c < 2 ^ (6 * 1 + 5) \<or> 0xFFFF < c \<or> 0x1FFFFF < c \<or> 0x3FFFFFF < c" for c :: uchar
    using that not_replacement [of c] by (auto simp: word_less_nat_alt word_le_nat_alt)
  consider "d AND 0x80 = 0" | "d AND 0xE0 = 0xC0" | "d AND 0xF0 = 0xE0" | "d AND 0xF8 = 0xF0" | "d AND 0xFC = 0xF8" | "d AND 0xFE = 0xFC"
    | "d AND 0x80 \<noteq> 0" "d AND 0xE0 \<noteq> 0xC0" "d AND 0xF0 \<noteq> 0xE0" "d AND 0xF8 \<noteq> 0xF0" "d AND 0xFC \<noteq> 0xF8" "d AND 0xFE \<noteq> 0xFC"
    by blast
  then show ?thesis
  proof cases
    case 1
    then show ?thesis using piece_ascii [of d us bs ws] assms by simp
  next
    case 2
    show ?thesis
      by (rule piece_seq [OF _ seq2.decoded_bytes [OF assms(1) 2 len]]) (use us 2 head_excl(1) [of d] seq2.bytes nr in blast)+
  next
    case 3
    show ?thesis
    proof (rule piece_seq [OF _ seq3.decoded_bytes [OF assms(1) 3 len]])
      show "d AND 0x80 \<noteq> 0" using 3 head_excl(2) [of d] by blast
      show "length us < INT_MAX" by (rule us)
      fix c assume c: "0x7FF < c" "unat c < 2 ^ (6 * 2 + 4)"
          "d # take 2 bs = (0xE0 OR ucast (drop_bit (6 * 2) c)) # map (cont c) (shifts 2)"
      show "utf8_bytes c = (0xE0 OR ucast (drop_bit (6 * 2) c)) # map (cont c) (shifts 2) \<or> escaped d bs"
        using seq3.bytes [OF c(1,2)] replacement_escaped [of c d bs] c(3) shifts_values(2) by fastforce
    qed
  next
    case 4
    show ?thesis
      by (rule piece_seq [OF _ seq4.decoded_bytes [OF assms(1) 4 len]]) (use us 4 head_excl(3) [of d] seq4.bytes nr in blast)+
  next
    case 5
    show ?thesis
      by (rule piece_seq [OF _ seq5.decoded_bytes [OF assms(1) 5 len]]) (use us 5 head_excl(4) [of d] seq5.bytes nr in blast)+
  next
    case 6
    show ?thesis
      by (rule piece_seq [OF _ seq6.decoded_bytes [OF assms(1) 6 len]]) (use us 6 head_excl(5) [of d] seq6.bytes nr in blast)+
  next
    case 7
    have "d \<noteq> 0" using assms by auto
    with 7 us show ?thesis
      by (intro piece_error) (simp_all add: eina_unicode_utf8_next_get_def utf8_next_get_long_def)
  qed
qed

end
