(* ===== verification/Eina_Unicode_Props.thy ===== *)
theory Eina_Unicode_Props
  imports Eina_Unicode_Codec
begin

text \<open>
  Whole strings: UTF-8 and code points translated into each other, and the string
  functions on code points.
\<close>

unbundle bit_operations_syntax

section \<open>Runs of the decoder\<close>

lemma utf8_tail_moves: "utf8_tail buf ind r ss = Some (Some (c, i)) \<Longrightarrow> i = ind + length ss"
  by (induction buf ind r ss rule: utf8_tail.induct) (auto split: Option.bind_splits if_splits)

lemma utf8_seq_moves: "utf8_seq buf iindex ind r ss low = Some (c, i) \<Longrightarrow> iindex < ind \<Longrightarrow> iindex < i"
  by (auto simp: utf8_seq_def utf8_error_def split: Option.bind_splits option.splits if_splits dest!: utf8_tail_moves)

lemma next_get_moves: "eina_unicode_utf8_next_get buf i = Some (c, i') \<Longrightarrow> c \<noteq> 0 \<Longrightarrow> i < i'"
  by (auto simp: eina_unicode_utf8_next_get_def utf8_next_get_long_def utf8_error_def split: Option.bind_splits if_splits dest!: utf8_seq_moves)

fun run :: "u8 list \<Rightarrow> nat \<Rightarrow> uchar list \<Rightarrow> nat \<Rightarrow> bool" where
  "run buf i [] j \<longleftrightarrow> i = j"
| "run buf i (c # cs) j \<longleftrightarrow> (\<exists>i'. eina_unicode_utf8_next_get buf i = Some (c, i') \<and> c \<noteq> 0 \<and> run buf i' cs j)"

lemma run_chars: "run buf i cs j \<Longrightarrow> utf8_chars buf i (length cs) = Some cs"
  by (induction cs arbitrary: i) auto

lemma run_nonzero: "run buf i cs j \<Longrightarrow> 0 \<notin> set cs"
  by (induction cs arbitrary: i) auto

lemma run_length: "run buf i cs j \<Longrightarrow> i + length cs \<le> j"
proof (induction cs arbitrary: i)
  case (Cons c cs)
  then obtain i' where "eina_unicode_utf8_next_get buf i = Some (c, i')" "c \<noteq> 0" "i' + length cs \<le> j" by auto
  moreover from this have "i < i'" using next_get_moves by blast
  ultimately show ?case by simp
qed simp

lemma run_len:
  "run buf i cs j \<Longrightarrow> byte_at buf j = Some 0 \<Longrightarrow> n + length cs \<le> INT_MAX \<Longrightarrow> utf8_len_from buf i n = Some (n + length cs)"
proof (induction cs arbitrary: i n)
  case Nil
  then show ?case
    by (subst utf8_len_from.simps) (simp add: eina_unicode_utf8_next_get_def)
next
  case (Cons c cs)
  then show ?case
    by (subst utf8_len_from.simps) auto
qed

lemma run_to_unicode:
  assumes "run buf 0 cs j" and "byte_at buf j = Some 0" and "length cs < INT_MAX"
  shows "eina_unicode_utf8_to_unicode True buf = Some (Some (cs @ [0]), length cs)"
  using run_len [OF assms(1,2), of 0] run_chars [OF assms(1)] assms(3)
  by (simp add: eina_unicode_utf8_to_unicode_def eina_unicode_utf8_get_len_def)

lemma encoded_run:
  "list_all code_point cs \<Longrightarrow> length us + length (concat (map utf8_bytes cs)) \<le> INT_MAX \<Longrightarrow>
    run (us @ concat (map utf8_bytes cs) @ ws) (length us) cs (length us + length (concat (map utf8_bytes cs)))"
proof (induction cs arbitrary: us)
  case (Cons c cs)
  have "eina_unicode_utf8_next_get (us @ utf8_bytes c @ concat (map utf8_bytes cs) @ ws) (length us) =
      Some (c, length us + length (utf8_bytes c))"
    using Cons.prems by (intro code_point_next) simp_all
  moreover have "c \<noteq> 0"
    using Cons.prems by (simp add: code_point_def)
  ultimately show ?case
    using Cons.IH [of "us @ utf8_bytes c"] Cons.prems by (simp add: add.assoc)
qed simp

text \<open>A C string with no code point of the replacement range written as a sequence.\<close>

fun no_escapes :: "u8 list \<Rightarrow> bool" where
  "no_escapes [] \<longleftrightarrow> True"
| "no_escapes (d # bs) \<longleftrightarrow> \<not> escaped d bs \<and> no_escapes bs"

lemma no_escapes_drop: "no_escapes bs \<Longrightarrow> no_escapes (drop k bs)"
proof (induction bs arbitrary: k)
  case (Cons b bs)
  then show ?case by (cases k) auto
qed simp

lemma decoded_run:
  assumes "0 \<notin> set bs" and "length us + length bs < INT_MAX"
  shows "\<exists>cs. run (us @ bs @ 0 # ws) (length us) cs (length us + length bs) \<and>
    (no_escapes bs \<longrightarrow> concat (map utf8_bytes cs) = bs)"
  using assms
proof (induction "length bs" arbitrary: us bs rule: less_induct)
  case less
  show ?case
  proof (cases bs)
    case Nil
    then show ?thesis by (intro exI [of _ "[]"]) simp
  next
    case (Cons d ds)
    have "piece us d ds ws"
      using less.prems Cons by (intro piece_start) simp_all
    then obtain c k where c: "eina_unicode_utf8_next_get (us @ d # ds @ 0 # ws) (length us) = Some (c, length us + 1 + k)"
        "k \<le> length ds" "c \<noteq> 0" "utf8_bytes c = d # take k ds \<or> escaped d ds"
      unfolding piece_def by blast
    have "0 \<notin> set (drop k ds)"
      using less.prems Cons by (auto dest: in_set_dropD)
    then obtain cs where cs: "run ((us @ d # take k ds) @ drop k ds @ 0 # ws) (length (us @ d # take k ds)) cs
          (length (us @ d # take k ds) + length (drop k ds))"
        "no_escapes (drop k ds) \<longrightarrow> concat (map utf8_bytes cs) = drop k ds"
      using less.hyps [of "drop k ds" "us @ d # take k ds"] Cons less.prems(2) c(2) by (auto simp: less_Suc_eq_le)
    have e: "(us @ d # take k ds) @ drop k ds @ 0 # ws = us @ d # ds @ 0 # ws"
      by (simp add: append_assoc [symmetric])
    have "run (us @ d # ds @ 0 # ws) (length us + 1 + k) cs (length us + length bs)"
      using cs(1) c(2) Cons unfolding e by simp
    then show ?thesis
      using c cs(2) Cons no_escapes_drop [of ds k] by (intro exI [of _ "c # cs"]) auto
  qed
qed

section \<open>The encoder\<close>

lemma to_utf8_loop_fits:
  "0 \<notin> set cs \<Longrightarrow> length out + 6 * length cs \<le> cap \<Longrightarrow>
    to_utf8_loop cap (cs @ 0 # rest) (length cs) out = Some (out @ concat (map utf8_bytes cs))"
proof (induction cs arbitrary: out)
  case (Cons c cs)
  then show ?case
    using length_utf8_bytes [of c] by (auto simp: put_def)
qed simp

lemma strlen_string: "0 \<notin> set cs \<Longrightarrow> eina_unicode_strlen (cs @ 0 # rest) = Some (length cs)"
  by (induction cs) auto

lemma length_encoded: "length (concat (map utf8_bytes cs)) \<le> 6 * length cs" "length cs \<le> length (concat (map utf8_bytes cs))"
proof (induction cs)
  case (Cons c cs)
  case 1
  with Cons length_utf8_bytes [of c] show ?case by (simp del: length_concat)
next
  case (Cons c cs)
  case 2
  from Cons utf8_bytes_nonempty [of c] show ?case by (simp del: length_concat length_greater_0_conv)
qed simp_all

lemma to_utf8_string:
  assumes "0 \<notin> set cs" and len: "6 * (length cs + 1) \<le> INT_MAX"
  shows "eina_unicode_unicode_to_utf8 True True (cs @ 0 # rest) =
    Some (Some (concat (map utf8_bytes cs) @ [0], length (concat (map utf8_bytes cs))))"
proof -
  have n: "length cs \<le> INT_MAX" "length (concat (map utf8_bytes cs)) + 1 \<le> INT_MAX"
    using len length_encoded(1) [of cs] by (simp_all del: length_concat)
  have cap: "in_int (int (length cs) + 1)" "in_int ((int (length cs) + 1) * 6)" "nat ((int (length cs) + 1) * 6) = 6 * (length cs + 1)"
    using len by (simp_all add: in_int_def)
  show ?thesis
    using to_utf8_loop_fits [OF assms(1), of "[]" "6 * (length cs + 1)" rest] strlen_string [OF assms(1), of rest] cap n(2)
    by (simp add: eina_unicode_unicode_to_utf8_def eina_unicode_unicode_to_utf8_range_def EINA_UNICODE_UTF8_BYTES_PER_CHAR_def
        sint_of_nat_int [OF n(1)] Let_def del: length_concat)
qed

section \<open>Properties\<close>

text \<open>
  C10. Text that is encoded as UTF-8 and decoded again is the same text, for every string of
  code points below \<open>2^31\<close> outside the range reserved for bad bytes, as long as six
  bytes for each code point and the terminator are not more than an \<open>int\<close> can count (fewer than
  357913941 code points; from there on the size that is allocated overflows). The encoder stays in
  the buffer it allocates.
\<close>

theorem unicode_utf8_roundtrip:
  assumes "list_all code_point cs" and "6 * (length cs + 1) < 2 ^ 31"
  shows "\<exists>utf. eina_unicode_unicode_to_utf8 True True (cs @ 0 # rest) = Some (Some (utf @ [0], length utf)) \<and>
    eina_unicode_utf8_to_unicode True (utf @ 0 # ws) = Some (Some (cs @ [0]), length cs)"
proof (intro exI conjI)
  have len: "6 * (length cs + 1) \<le> INT_MAX"
    using assms(2) by (simp add: INT_MAX_def)
  have fits: "length (concat (map utf8_bytes cs)) < INT_MAX"
    using len length_encoded(1) [of cs] by (simp del: length_concat)
  have "0 \<notin> set cs"
    using assms(1) by (auto simp: list_all_iff code_point_def)
  from this len show "eina_unicode_unicode_to_utf8 True True (cs @ 0 # rest) =
      Some (Some (concat (map utf8_bytes cs) @ [0], length (concat (map utf8_bytes cs))))"
    by (rule to_utf8_string)
  show "eina_unicode_utf8_to_unicode True (concat (map utf8_bytes cs) @ 0 # ws) = Some (Some (cs @ [0]), length cs)"
    using encoded_run [OF assms(1), of "[]" "0 # ws"] fits length_encoded(2) [of cs]
    by (intro run_to_unicode [of _ _ "length (concat (map utf8_bytes cs))"]) (simp_all del: length_concat)
qed

theorem unicode_utf8_roundtrip_witness:
  "list_all code_point [0x41, 0xE9, 0x20AC, 0x1F600] \<and>
   (\<exists>utf. eina_unicode_unicode_to_utf8 True True [0x41, 0xE9, 0x20AC, 0x1F600, 0] = Some (Some (utf @ [0], length utf)) \<and>
    eina_unicode_utf8_to_unicode True (utf @ [0]) = Some (Some [0x41, 0xE9, 0x20AC, 0x1F600, 0], 4))"
proof -
  have c: "list_all code_point [0x41, 0xE9, 0x20AC, 0x1F600]"
    by (simp add: code_point_def replacement_def ERROR_REPLACEMENT_BASE_def ERROR_REPLACEMENT_END_def)
  have four: "Suc (Suc (Suc (Suc 0))) = 4" by simp
  from c show ?thesis
    using unicode_utf8_roundtrip [OF c, of "[]" "[]"] four by simp
qed

text \<open>
  C30. Every C string of fewer than \<open>2^31 - 1\<close> bytes can be decoded, with no read outside of it,
  whatever its bytes are, and the decoded string has no terminator inside and at most as many
  code points as there are bytes; when the string holds no code point of the range reserved for
  bad bytes and the size of the encoder's buffer does not overflow, encoding the result gives
  the same bytes again.
\<close>

theorem utf8_decode_lossless:
  assumes "0 \<notin> set bs" and "length bs < 2 ^ 31 - 1"
  shows "\<exists>cs. eina_unicode_utf8_to_unicode True (bs @ 0 # ws) = Some (Some (cs @ [0]), length cs) \<and> 0 \<notin> set cs \<and> length cs \<le> length bs \<and>
    (no_escapes bs \<and> 6 * (length cs + 1) < 2 ^ 31 \<longrightarrow> eina_unicode_unicode_to_utf8 True True (cs @ [0]) = Some (Some (bs @ [0], length bs)))"
proof -
  obtain cs where cs: "run (bs @ 0 # ws) 0 cs (length bs)" "no_escapes bs \<longrightarrow> concat (map utf8_bytes cs) = bs"
    using decoded_run [OF assms(1), of "[]" ws] assms(2) by (auto simp: INT_MAX_def)
  have len: "length bs < INT_MAX" "length cs \<le> length bs"
    using assms(2) run_length [OF cs(1)] by (simp_all add: INT_MAX_def)
  have "eina_unicode_utf8_to_unicode True (bs @ 0 # ws) = Some (Some (cs @ [0]), length cs)"
    using len by (intro run_to_unicode [OF cs(1)]) simp_all
  moreover have "eina_unicode_unicode_to_utf8 True True (cs @ [0]) = Some (Some (bs @ [0], length bs))"
    if "no_escapes bs" "6 * (length cs + 1) < 2 ^ 31"
    using to_utf8_string [of cs "[]"] run_nonzero [OF cs(1)] cs(2) that by (simp add: INT_MAX_def)
  ultimately show ?thesis
    using run_nonzero [OF cs(1)] len(2) by blast
qed

theorem utf8_decode_lossless_witness:
  "0 \<notin> set [0x61, 0xC3, 0xA9, 0xFF, 0xE2, 0x82 :: u8] \<and> no_escapes [0x61, 0xC3, 0xA9, 0xFF, 0xE2, 0x82] \<and>
   (\<exists>cs. eina_unicode_utf8_to_unicode True [0x61, 0xC3, 0xA9, 0xFF, 0xE2, 0x82, 0] = Some (Some (cs @ [0]), length cs) \<and>
      eina_unicode_unicode_to_utf8 True True (cs @ [0]) = Some (Some ([0x61, 0xC3, 0xA9, 0xFF, 0xE2, 0x82, 0], 6)))"
proof -
  have h: "0 \<notin> set [0x61, 0xC3, 0xA9, 0xFF, 0xE2, 0x82 :: u8]" "no_escapes [0x61, 0xC3, 0xA9, 0xFF, 0xE2, 0x82]"
    by (simp_all add: escaped_def)
  have six: "Suc (Suc (Suc (Suc (Suc (Suc 0))))) = 6" by simp
  obtain cs where cs: "eina_unicode_utf8_to_unicode True [0x61, 0xC3, 0xA9, 0xFF, 0xE2, 0x82, 0] = Some (Some (cs @ [0]), length cs)"
    and len: "length cs \<le> 6" and enc: "6 * (length cs + 1) < 2 ^ 31 \<longrightarrow> eina_unicode_unicode_to_utf8 True True (cs @ [0]) = Some (Some ([0x61, 0xC3, 0xA9, 0xFF, 0xE2, 0x82, 0], 6))"
    using utf8_decode_lossless [OF h(1), of "[]"] h(2) six by auto
  from len have "6 * (length cs + 1) < 2 ^ 31" by simp
  then show ?thesis
    using h cs enc by blast
qed

text \<open>
  The replacement range is not reserved on the way in: a code point of it that is
  written as a three-byte sequence is accepted, and encoded again it is a single byte, so a
  decoded text cannot always be written back as it was.
\<close>

theorem utf8_replacement_lossy:
  "eina_unicode_utf8_to_unicode True [0xED, 0xB2, 0x80, 0] = Some (Some [0xDC80, 0], 1) \<and>
   eina_unicode_unicode_to_utf8 True True [0xDC80, 0] = Some (Some ([0x80, 0], 1))"
proof -
  have "utf8_len_from [0xED, 0xB2, 0x80, 0] 0 0 = Some 1"
    by (subst utf8_len_from.simps, simp add: INT_MAX_def eina_unicode_utf8_next_get_def utf8_next_get_long_def utf8_seq_def byte_at_def
      EINA_IS_INVALID_BYTE_def EINA_IS_CONTINUATION_BYTE_def)
     (subst utf8_len_from.simps, simp add: INT_MAX_def eina_unicode_utf8_next_get_def byte_at_def)
  then show ?thesis
    by (simp add: INT_MAX_def in_int_def eina_unicode_utf8_to_unicode_def eina_unicode_utf8_get_len_def eina_unicode_utf8_next_get_def utf8_next_get_long_def utf8_seq_def byte_at_def
      EINA_IS_INVALID_BYTE_def EINA_IS_CONTINUATION_BYTE_def eina_unicode_unicode_to_utf8_def eina_unicode_unicode_to_utf8_range_def
      EINA_UNICODE_UTF8_BYTES_PER_CHAR_def put_def utf8_bytes_def ERROR_REPLACEMENT_BASE_def ERROR_REPLACEMENT_END_def)
qed

section \<open>The string functions\<close>

text \<open>A full match starts with the needle; the search only returns suffixes of the text.\<close>

lemma match_loop_prefix:
  "match_loop i j = Some (i', j') \<Longrightarrow> \<exists>p. i = p @ i' \<and> j = p @ j' \<and> 0 \<notin> set p \<and> j' \<noteq> []"
proof (induction j arbitrary: i)
  case (Cons n ns)
  show ?case
  proof (cases "n \<noteq> 0 \<and> (\<exists>hs. i = n # hs)")
    case True
    then obtain hs where i: "n \<noteq> 0" "i = n # hs" by blast
    then obtain p where "hs = p @ i' \<and> ns = p @ j' \<and> 0 \<notin> set p \<and> j' \<noteq> []"
      using Cons by auto
    then show ?thesis
      using i by (intro exI [of _ "n # p"]) auto
  next
    case False
    then have "i' = i \<and> j' = n # ns"
      using Cons.prems by (auto split: if_splits list.splits)
    then show ?thesis by simp
  qed
qed simp

lemma first_split: "us @ x # vs = us' @ x # vs' \<Longrightarrow> x \<notin> set us \<Longrightarrow> x \<notin> set us' \<Longrightarrow> us = us'"
proof (induction us arbitrary: us')
  case Nil
  then show ?case by (cases us') auto
next
  case (Cons a us)
  then show ?case by (cases us') auto
qed

lemma strstr_sound:
  "eina_unicode_strstr i needle = Some (Some r) \<Longrightarrow> needle = ns @ 0 # ws \<Longrightarrow> 0 \<notin> set ns \<Longrightarrow>
    \<exists>us vs. i = us @ r \<and> r = ns @ vs"
proof (induction i needle rule: eina_unicode_strstr.induct)
  case (1 i needle)
  obtain h hs where i: "i = h # hs" "h \<noteq> 0"
    using "1.prems"(1) by (subst (asm) eina_unicode_strstr.simps) (auto split: list.splits if_splits)
  then obtain i' j where m: "match_loop i needle = Some (i', j)"
    using "1.prems"(1) by (subst (asm) eina_unicode_strstr.simps) (auto split: option.splits)
  obtain p where p: "i = p @ i'" "needle = p @ j" "0 \<notin> set p" "j \<noteq> []"
    using match_loop_prefix [OF m] by blast
  show ?case
  proof (cases "hd j = 0")
    case True
    then have "r = i"
      using "1.prems"(1) m i by (subst (asm) eina_unicode_strstr.simps) simp
    moreover have "p = ns"
    proof -
      obtain js where "j = 0 # js"
        using True p(4) by (cases j) auto
      then have "p @ 0 # js = ns @ 0 # ws"
        using p(2) "1.prems"(2) by simp
      then show ?thesis
        using p(3) "1.prems"(3) first_split by metis
    qed
    ultimately show ?thesis
      using p(1) by (intro exI [of _ "[]"] exI [of _ i']) simp
  next
    case False
    then obtain d rest where "i' = d # rest" "eina_unicode_strstr rest needle = Some (Some r)"
      using "1.prems"(1) m i by (subst (asm) eina_unicode_strstr.simps) (auto split: list.splits)
    moreover from this obtain us vs where "rest = us @ r" "r = ns @ vs"
      using "1.IH" [of h hs "(i', j)" i' j d rest] i m False "1.prems"(2,3) by auto
    ultimately show ?thesis
      using p(1) by (intro exI [of _ "p @ d # us"] exI [of _ vs]) simp
  qed
qed

text \<open>
  C31. \<open>eina_unicode_strstr\<close> only returns places where the needle is, but it is not the
  standard search it is documented as: it misses a match that overlaps a partial one, and
  when the text ends inside a partial match it goes on reading behind the terminator.
\<close>

theorem strstr_finds_needle_only:
  "(\<forall>i ns ws r. 0 \<notin> set ns \<longrightarrow> eina_unicode_strstr i (ns @ 0 # ws) = Some (Some r) \<longrightarrow>
      (\<exists>us vs. i = us @ r \<and> r = ns @ vs)) \<and>
   eina_unicode_strstr [97, 97, 97, 98, 0] [97, 97, 98, 0] = Some None \<and>
   eina_unicode_strstr [97, 0] [97, 98, 0] = None"
proof (intro conjI allI impI)
  fix i ns ws r :: "uchar list"
  assume "0 \<notin> set ns" "eina_unicode_strstr i (ns @ 0 # ws) = Some (Some r)"
  then show "\<exists>us vs. i = us @ r \<and> r = ns @ vs"
    using strstr_sound by blast
qed (simp_all add: eina_unicode_strstr.simps)

theorem strstr_finds_needle_only_witness:
  "0 \<notin> set [98 :: uchar] \<and> eina_unicode_strstr [97, 98, 0] ([98] @ [0]) = Some (Some [98, 0]) \<and>
   (\<exists>us vs. [97, 98, 0 :: uchar] = us @ [98, 0] \<and> [98, 0 :: uchar] = [98] @ vs)"
proof -
  have "eina_unicode_strstr [97, 98, 0] ([98] @ [0]) = Some (Some [98, 0])"
    by (simp add: eina_unicode_strstr.simps)
  moreover have "0 \<notin> set [98 :: uchar]" by simp
  moreover from strstr_finds_needle_only [THEN conjunct1, rule_format, OF calculation(2) calculation(1)]
  have "\<exists>us vs. [97, 98, 0 :: uchar] = us @ [98, 0] \<and> [98, 0 :: uchar] = [98] @ vs" .
  ultimately show ?thesis by simp
qed

lemma strcmp_order:
  "0 \<notin> set as \<Longrightarrow> 0 \<notin> set bs \<Longrightarrow>
    eina_unicode_strcmp (as @ 0 # us) (bs @ 0 # vs) = Some (if as = bs then 0 else if ord_class.lexordp as bs then - 1 else 1)"
proof (induction as arbitrary: bs)
  case Nil
  then show ?case by (cases bs) (auto simp: word_gt_0)
next
  case (Cons a as)
  then show ?case
    by (cases bs) (auto simp: word_gt_0 word_greater_zero_iff)
qed

lemma strcpy_string:
  "0 \<notin> set cs \<Longrightarrow> length cs < length ds \<Longrightarrow> eina_unicode_strcpy ds (cs @ 0 # rest) = Some (cs @ 0 # drop (Suc (length cs)) ds)"
proof (induction cs arbitrary: ds)
  case Nil
  then show ?case by (cases ds) auto
next
  case (Cons c cs)
  then show ?case by (cases ds) auto
qed

lemma fill_zero_fills: "n \<le> length ds \<Longrightarrow> fill_zero ds n = Some (replicate n 0 @ drop n ds)"
  by (induction ds n rule: fill_zero.induct) auto

lemma strncpy_string:
  "0 \<notin> set cs \<Longrightarrow> n \<le> length ds \<Longrightarrow>
    eina_unicode_strncpy ds (cs @ 0 # rest) n = Some (take n (cs @ replicate n 0) @ drop n ds)"
proof (induction cs arbitrary: ds n)
  case Nil
  then show ?case by (cases n) (auto simp: fill_zero_fills simp del: fill_zero.simps(2,3))
next
  case (Cons c cs)
  show ?case
  proof (cases n)
    case (Suc k)
    then obtain d ds' where "ds = d # ds'" using Cons.prems by (cases ds) auto
    then show ?thesis
      using Cons Suc by (auto simp: replicate_append_same [symmetric] min_def)
  qed simp
qed

definition escape_char :: "uchar \<Rightarrow> uchar list" where
  "escape_char s = (if s = 0x20 \<or> s = 0x5C \<or> s = 0x27 then [0x5C, s] else [s])"

lemma escape_loop_string:
  "0 \<notin> set cs \<Longrightarrow> length out + 2 * length cs < cap \<Longrightarrow>
    escape_loop cap (cs @ 0 # rest) out = Some (out @ concat (map escape_char cs) @ [0])"
  by (induction cs arbitrary: out) (auto simp: put_def escape_char_def)

text \<open>
  The string functions on code points: the comparison decides the lexicographic order,
  the copies write the text, its terminator and nothing behind the given size, the duplicate
  and the escaped copy fit the memory they allocate.
\<close>

theorem unicode_string_functions:
  assumes "0 \<notin> set as" and "0 \<notin> set bs" and "length as < length ds" and "n \<le> length ds"
  shows "eina_unicode_strcmp (as @ 0 # us) (bs @ 0 # vs) =
      Some (if as = bs then 0 else if ord_class.lexordp as bs then - 1 else 1) \<and>
    eina_unicode_strcpy ds (as @ 0 # us) = Some (as @ 0 # drop (Suc (length as)) ds) \<and>
    eina_unicode_strncpy ds (as @ 0 # us) n = Some (take n (as @ replicate n 0) @ drop n ds) \<and>
    eina_unicode_strdup True (as @ 0 # us) = Some (Some (as @ [0])) \<and>
    eina_unicode_escape True (as @ 0 # us) = Some (Some (concat (map escape_char as) @ [0]))"
  using strcmp_order [OF assms(1,2)] strcpy_string [OF assms(1,3)] strncpy_string [OF assms(1,4)] strlen_string [OF assms(1)]
    escape_loop_string [OF assms(1), of "[]"]
  by (simp add: eina_unicode_strdup_def eina_unicode_strndup_def eina_unicode_escape_def)

theorem unicode_string_functions_witness:
  "0 \<notin> set [97, 32 :: uchar] \<and> 0 \<notin> set [97 :: uchar] \<and> length [97, 32 :: uchar] < length [1, 2, 3, 4 :: uchar] \<and>
   eina_unicode_strcmp [97, 32, 0] [97, 0] = Some 1 \<and> eina_unicode_strcpy [1, 2, 3, 4] [97, 32, 0] = Some [97, 32, 0, 4] \<and>
   eina_unicode_strncpy [1, 2, 3, 4] [97, 32, 0] 1 = Some [97, 2, 3, 4] \<and>
   eina_unicode_strdup True [97, 32, 0] = Some (Some [97, 32, 0]) \<and>
   eina_unicode_escape True [97, 32, 0] = Some (Some [97, 92, 32, 0])"
  using unicode_string_functions [where as = "[97, 32]" and bs = "[97]" and us = "[]" and vs = "[]" and ds = "[1, 2, 3, 4]" and n = 1]
  by (simp add: escape_char_def)

end
