(* ===== verification/Eina_Strbuf.thy ===== *)
theory Eina_Strbuf
  imports Memory
begin

text \<open>
  The string buffers of \<open>src/lib/shared/string\<close>: \<open>eina_strbuf_common.c\<close> for characters of
  \<open>c\<close> bytes, the entry points that \<open>eina_binbuf_template_c.x\<close> and
  \<open>eina_strbuf_template_c.x\<close> generate from it, and what \<open>eina_strbuf.c\<close> adds for bytes.
  Sizes are \<open>size_t\<close>, natural numbers whose sums and products wrap at \<open>2^64\<close>. The buffer is
  its allocated bytes, none when the pointer is null; an access outside of them, a write to a
  read-only string and a release of one are \<open>None\<close>. Arguments are never null, and buffers
  carry the right magic number.
\<close>

section \<open>State\<close>

definition size_t :: "nat \<Rightarrow> nat" where
  "size_t n = n mod 2 ^ 64"

text \<open>\<open>struct _Eina_Strbuf\<close>.\<close>

record strbuf =
  sb_buf :: "u8 list"
  sb_len :: nat
  sb_size :: nat
  sb_step :: nat
  sb_ro :: bool

definition EINA_STRBUF_INIT_SIZE :: nat where
  "EINA_STRBUF_INIT_SIZE = 32"

definition EINA_STRBUF_INIT_STEP :: nat where
  "EINA_STRBUF_INIT_STEP = 32"

definition EINA_STRBUF_MAX_STEP :: nat where
  "EINA_STRBUF_MAX_STEP = 4096"

text \<open>The C library's \<open>calloc\<close> and \<open>malloc\<close>, and writes through \<open>buf\<close>.\<close>

definition calloc :: "allocator \<Rightarrow> nat \<Rightarrow> u8 list option" where
  "calloc al n = (if n = 0 \<or> \<not> can_alloc al n then None else Some (replicate n 0))"

definition malloc :: "allocator \<Rightarrow> nat \<Rightarrow> u8 list option" where
  "malloc al n = realloc al [] n"

definition sb_write :: "strbuf \<Rightarrow> nat \<Rightarrow> u8 list \<Rightarrow> strbuf option" where
  "sb_write b off bs =
     (if sb_ro b \<and> bs \<noteq> [] then None else map_option (\<lambda>m. b\<lparr>sb_buf := m\<rparr>) (mem_write (sb_buf b) off bs))"

definition sb_move :: "strbuf \<Rightarrow> nat \<Rightarrow> nat \<Rightarrow> nat \<Rightarrow> strbuf option" where
  "sb_move b dst src n = do { bs \<leftarrow> mem_read (sb_buf b) src n; sb_write b dst bs }"

text \<open>\<open>_eina_strbuf_common_init\<close> and \<open>_eina_strbuf_common_manage_init\<close>.\<close>

definition strbuf_init :: "nat \<Rightarrow> allocator \<Rightarrow> strbuf \<Rightarrow> bool \<times> strbuf" where
  "strbuf_init c al b =
     (let b = b\<lparr>sb_ro := False, sb_len := 0, sb_size := EINA_STRBUF_INIT_SIZE, sb_step := EINA_STRBUF_INIT_STEP\<rparr>
      in case calloc al (c * EINA_STRBUF_INIT_SIZE) of
           None \<Rightarrow> (False, b\<lparr>sb_buf := []\<rparr>)
         | Some m \<Rightarrow> (True, b\<lparr>sb_buf := m\<rparr>))"

definition strbuf_manage_init :: "strbuf \<Rightarrow> u8 list \<Rightarrow> nat \<Rightarrow> strbuf" where
  "strbuf_manage_init b str len =
     b\<lparr>sb_len := len, sb_size := size_t (len + 1), sb_step := EINA_STRBUF_INIT_STEP, sb_buf := str\<rparr>"

section \<open>Growing\<close>

text \<open>The step and the size \<open>_eina_strbuf_common_resize\<close> chooses for \<open>size\<close> characters.\<close>

definition new_step :: "strbuf \<Rightarrow> nat \<Rightarrow> nat" where
  "new_step b sz =
     (let delta = (if sz > sb_size b then sz - sb_size b else sb_size b - sz) in
      if delta \<le> sb_step b \<and> sz > sb_size b then sb_step b
      else
        (let st = size_t ((delta div EINA_STRBUF_INIT_STEP + 1) * EINA_STRBUF_INIT_STEP)
         in if st > EINA_STRBUF_MAX_STEP then EINA_STRBUF_MAX_STEP else st))"

definition new_size :: "strbuf \<Rightarrow> nat \<Rightarrow> nat" where
  "new_size b sz = size_t ((sz div new_step b sz + 1) * new_step b sz)"

definition strbuf_resize :: "nat \<Rightarrow> allocator \<Rightarrow> strbuf \<Rightarrow> nat \<Rightarrow> (bool \<times> strbuf) option" where
  "strbuf_resize c al b sz =
     (let sz = size_t (sz + 1) in
      if sz = sb_size b then Some (True, b)
      else
        (let nst = new_step b sz; nsz = new_size b sz; bytes = size_t (nsz * c) in
         if sb_size b = bytes then Some (True, b)
         else
           case realloc al (if sb_ro b then [] else sb_buf b) bytes of
             None \<Rightarrow> Some (False, if bytes = 0 \<and> \<not> sb_ro b then b\<lparr>sb_buf := []\<rparr> else b)
           | Some buffer \<Rightarrow> do {
               buffer \<leftarrow> (if sb_ro b then do { bs \<leftarrow> mem_read (sb_buf b) 0 (sb_len b); mem_write buffer 0 bs }
                          else Some buffer);
               Some (True, b\<lparr>sb_ro := False, sb_buf := buffer, sb_size := nsz, sb_step := nst\<rparr>) }))"

definition strbuf_grow :: "nat \<Rightarrow> allocator \<Rightarrow> strbuf \<Rightarrow> nat \<Rightarrow> (bool \<times> strbuf) option" where
  "strbuf_grow c al b sz =
     (if size_t (sz + 1) < sb_size b then Some (True, b) else strbuf_resize c al b sz)"

section \<open>Creation\<close>

definition fresh_strbuf :: strbuf where
  "fresh_strbuf = \<lparr>sb_buf = [], sb_len = 0, sb_size = 0, sb_step = 0, sb_ro = False\<rparr>"

text \<open>\<open>mem\<close> says whether the structure itself can be allocated; the result is the pointer.\<close>

definition eina_strbuf_common_new :: "nat \<Rightarrow> bool \<Rightarrow> allocator \<Rightarrow> strbuf option" where
  "eina_strbuf_common_new c mem al =
     (if \<not> mem then None
      else case strbuf_init c al fresh_strbuf of (ok, b) \<Rightarrow> if ok then Some b else None)"

definition eina_strbuf_common_manage_new :: "bool \<Rightarrow> u8 list \<Rightarrow> nat \<Rightarrow> strbuf option" where
  "eina_strbuf_common_manage_new mem str len =
     (if \<not> mem then None else Some (strbuf_manage_init fresh_strbuf str len))"

definition eina_strbuf_common_manage_ro_new :: "bool \<Rightarrow> u8 list \<Rightarrow> nat \<Rightarrow> strbuf option" where
  "eina_strbuf_common_manage_ro_new mem str len =
     (if \<not> mem then None else Some ((strbuf_manage_init fresh_strbuf str len)\<lparr>sb_ro := True\<rparr>))"

definition eina_strbuf_common_reset :: "nat \<Rightarrow> allocator \<Rightarrow> strbuf \<Rightarrow> strbuf option" where
  "eina_strbuf_common_reset c al b =
     (if sb_ro b then Some ((snd (strbuf_init c al b))\<lparr>sb_ro := False\<rparr>)
      else sb_write (b\<lparr>sb_len := 0, sb_step := EINA_STRBUF_INIT_STEP\<rparr>) 0 (replicate c 0))"

text \<open>The slice behind the text: its byte offset in the buffer, none for a null slice, and its length.\<close>

definition eina_strbuf_common_expand ::
  "nat \<Rightarrow> allocator \<Rightarrow> strbuf \<Rightarrow> nat \<Rightarrow> ((nat option \<times> nat) \<times> strbuf) option" where
  "eina_strbuf_common_expand c al b minimum_unused_space =
     (let slice = (\<lambda>b. ((Some (sb_len b * c), sb_size b - sb_len b - 1), b)) in
      if size_t (sb_len b + minimum_unused_space) < sb_size b then Some (slice b)
      else do {
        (ok, b) \<leftarrow> strbuf_grow c al b (size_t (sb_len b + minimum_unused_space));
        Some (if ok then slice b else ((None, 0), b)) })"

definition eina_strbuf_common_use :: "strbuf \<Rightarrow> nat \<Rightarrow> bool \<times> strbuf" where
  "eina_strbuf_common_use b extra_bytes =
     (if sb_size b < size_t (sb_len b + extra_bytes + 1) then (False, b)
      else (True, b\<lparr>sb_len := size_t (sb_len b + extra_bytes)\<rparr>))"

section \<open>Appending and inserting\<close>

text \<open>\<open>str\<close> is the caller's memory, of which \<open>len\<close> characters are used.\<close>

definition eina_strbuf_common_append ::
  "nat \<Rightarrow> allocator \<Rightarrow> strbuf \<Rightarrow> u8 list \<Rightarrow> nat \<Rightarrow> (bool \<times> strbuf) option" where
  "eina_strbuf_common_append c al b str len = do {
     (ok, b) \<leftarrow> strbuf_grow c al b (size_t (sb_len b + len));
     (if \<not> ok then Some (False, b)
      else do {
        bs \<leftarrow> mem_read str 0 ((len + 1) * c);
        b \<leftarrow> sb_write b (sb_len b * c) bs;
        Some (True, b\<lparr>sb_len := sb_len b + len\<rparr>) }) }"

definition eina_strbuf_common_append_length ::
  "nat \<Rightarrow> allocator \<Rightarrow> strbuf \<Rightarrow> u8 list \<Rightarrow> nat \<Rightarrow> (bool \<times> strbuf) option" where
  "eina_strbuf_common_append_length c al b str len = do {
     (ok, b) \<leftarrow> strbuf_grow c al b (size_t (sb_len b + len));
     (if \<not> ok then Some (False, b)
      else do {
        bs \<leftarrow> mem_read str 0 (len * c);
        b \<leftarrow> sb_write b (sb_len b * c) bs;
        let b = b\<lparr>sb_len := sb_len b + len\<rparr>;
        b \<leftarrow> sb_write b (sb_len b * c) (replicate c 0);
        Some (True, b) }) }"

definition eina_strbuf_common_append_n ::
  "nat \<Rightarrow> allocator \<Rightarrow> strbuf \<Rightarrow> u8 list \<Rightarrow> nat \<Rightarrow> nat \<Rightarrow> (bool \<times> strbuf) option" where
  "eina_strbuf_common_append_n c al b str len maxlen =
     eina_strbuf_common_append_length c al b str (if len > maxlen then maxlen else len)"

definition strbuf_insert_length ::
  "nat \<Rightarrow> allocator \<Rightarrow> strbuf \<Rightarrow> u8 list \<Rightarrow> nat \<Rightarrow> nat \<Rightarrow> (bool \<times> strbuf) option" where
  "strbuf_insert_length c al b str len pos = do {
     (ok, b) \<leftarrow> strbuf_grow c al b (size_t (sb_len b + len));
     (if \<not> ok then Some (False, b)
      else do {
        b \<leftarrow> sb_move b ((len + pos) * c) (pos * c) ((sb_len b - pos) * c);
        bs \<leftarrow> mem_read str 0 (len * c);
        b \<leftarrow> sb_write b (pos * c) bs;
        let b = b\<lparr>sb_len := sb_len b + len\<rparr>;
        b \<leftarrow> sb_write b (sb_len b * c) (replicate c 0);
        Some (True, b) }) }"

definition eina_strbuf_common_insert ::
  "nat \<Rightarrow> allocator \<Rightarrow> strbuf \<Rightarrow> u8 list \<Rightarrow> nat \<Rightarrow> nat \<Rightarrow> (bool \<times> strbuf) option" where
  "eina_strbuf_common_insert c al b str len pos =
     (if pos \<ge> sb_len b then eina_strbuf_common_append c al b str len
      else strbuf_insert_length c al b str len pos)"

definition eina_strbuf_common_insert_n ::
  "nat \<Rightarrow> allocator \<Rightarrow> strbuf \<Rightarrow> u8 list \<Rightarrow> nat \<Rightarrow> nat \<Rightarrow> nat \<Rightarrow> (bool \<times> strbuf) option" where
  "eina_strbuf_common_insert_n c al b str len maxlen pos =
     (if pos \<ge> sb_len b then eina_strbuf_common_append_n c al b str len maxlen
      else strbuf_insert_length c al b str (if len > maxlen then maxlen else len) pos)"

definition eina_strbuf_common_insert_length ::
  "nat \<Rightarrow> allocator \<Rightarrow> strbuf \<Rightarrow> u8 list \<Rightarrow> nat \<Rightarrow> nat \<Rightarrow> (bool \<times> strbuf) option" where
  "eina_strbuf_common_insert_length c al b str len pos =
     (if pos \<ge> sb_len b then eina_strbuf_common_append_length c al b str len
      else strbuf_insert_length c al b str len pos)"

definition eina_strbuf_common_append_char ::
  "nat \<Rightarrow> allocator \<Rightarrow> strbuf \<Rightarrow> u8 list \<Rightarrow> (bool \<times> strbuf) option" where
  "eina_strbuf_common_append_char c al b ch = do {
     (ok, b) \<leftarrow> strbuf_grow c al b (size_t (sb_len b + 1));
     (if \<not> ok then Some (False, b)
      else do {
        bs \<leftarrow> mem_read ch 0 c;
        b \<leftarrow> sb_write b (sb_len b * c) bs;
        let b = b\<lparr>sb_len := sb_len b + 1\<rparr>;
        b \<leftarrow> sb_write b (sb_len b * c) (replicate c 0);
        Some (True, b) }) }"

definition eina_strbuf_common_insert_char ::
  "nat \<Rightarrow> allocator \<Rightarrow> strbuf \<Rightarrow> u8 list \<Rightarrow> nat \<Rightarrow> (bool \<times> strbuf) option" where
  "eina_strbuf_common_insert_char c al b ch pos =
     (if pos \<ge> sb_len b then eina_strbuf_common_append_char c al b ch
      else strbuf_insert_length c al b ch 1 pos)"

section \<open>Removing and releasing\<close>

text \<open>
  The copy of a read-only string that is going to be changed: \<open>size\<close> bytes are allocated and
  \<open>len\<close> bytes are copied, whatever the size of a character is. The inner \<open>None\<close> is the
  failed allocation.
\<close>

definition own_copy :: "allocator \<Rightarrow> strbuf \<Rightarrow> strbuf option option" where
  "own_copy al b =
     (if \<not> sb_ro b then Some (Some b)
      else case malloc al (sb_size b) of
             None \<Rightarrow> Some None
           | Some dest \<Rightarrow> do {
               bs \<leftarrow> mem_read (sb_buf b) 0 (sb_len b);
               dest \<leftarrow> mem_write dest 0 bs;
               Some (Some (b\<lparr>sb_buf := dest, sb_ro := False\<rparr>)) })"

definition eina_strbuf_common_remove ::
  "nat \<Rightarrow> allocator \<Rightarrow> strbuf \<Rightarrow> nat \<Rightarrow> nat \<Rightarrow> (bool \<times> strbuf) option" where
  "eina_strbuf_common_remove c al b start stop =
     (let stop = (if stop \<ge> sb_len b then sb_len b else stop) in
      if stop \<le> start then Some (True, b)
      else do {
        own \<leftarrow> own_copy al b;
        (case own of
           None \<Rightarrow> Some (False, b)
         | Some b \<Rightarrow>
             (let remove_len = stop - start in
              if remove_len = sb_len b then Some (strbuf_init c al b)
              else do {
                b \<leftarrow> sb_move b (start * c) (stop * c) ((sb_len b - stop + 1) * c);
                let b = b\<lparr>sb_len := sb_len b - remove_len\<rparr>;
                strbuf_resize c al b (sb_len b) })) })"

definition eina_strbuf_common_string_get :: "strbuf \<Rightarrow> u8 list" where
  "eina_strbuf_common_string_get b = sb_buf b"

text \<open>The string handed to the caller, none when it is null.\<close>

definition eina_strbuf_common_string_steal ::
  "nat \<Rightarrow> allocator \<Rightarrow> strbuf \<Rightarrow> (u8 list option \<times> strbuf) option" where
  "eina_strbuf_common_string_steal c al b = do {
     own \<leftarrow> own_copy al b;
     (case own of
        None \<Rightarrow> Some (None, b)
      | Some b \<Rightarrow> Some (Some (sb_buf b), snd (strbuf_init c al b))) }"

definition eina_strbuf_common_string_free :: "nat \<Rightarrow> allocator \<Rightarrow> strbuf \<Rightarrow> strbuf option" where
  "eina_strbuf_common_string_free c al b = (if sb_ro b then None else Some (snd (strbuf_init c al b)))"

definition eina_strbuf_common_length_get :: "strbuf \<Rightarrow> nat" where
  "eina_strbuf_common_length_get b = sb_len b"

definition eina_strbuf_common_slice_get :: "strbuf \<Rightarrow> nat \<times> u8 list" where
  "eina_strbuf_common_slice_get b = (sb_len b, sb_buf b)"

section \<open>Entry points for C strings\<close>

text \<open>
  What \<open>eina_strbuf_template_c.x\<close> generates for bytes, with \<open>strlen\<close> of the C library;
  \<open>eina_str_escape\<close> is an argument, which gives no string when it fails.
\<close>

definition c_string :: "u8 list \<Rightarrow> nat \<Rightarrow> u8 list option" where
  "c_string m off = (if 0 \<in> set (drop off m) then Some (takeWhile (\<lambda>x. x \<noteq> 0) (drop off m)) else None)"

definition strlen :: "u8 list \<Rightarrow> nat option" where
  "strlen m = map_option length (c_string m 0)"

definition eina_strbuf_manage_new :: "bool \<Rightarrow> u8 list \<Rightarrow> strbuf option option" where
  "eina_strbuf_manage_new mem str = do { n \<leftarrow> strlen str; Some (eina_strbuf_common_manage_new mem str n) }"

definition eina_strbuf_append :: "allocator \<Rightarrow> strbuf \<Rightarrow> u8 list \<Rightarrow> (bool \<times> strbuf) option" where
  "eina_strbuf_append al b str = do { n \<leftarrow> strlen str; eina_strbuf_common_append 1 al b str n }"

definition eina_strbuf_append_escaped ::
  "(u8 list \<Rightarrow> u8 list option) \<Rightarrow> allocator \<Rightarrow> strbuf \<Rightarrow> u8 list \<Rightarrow> (bool \<times> strbuf) option" where
  "eina_strbuf_append_escaped escape al b str =
     (case escape str of None \<Rightarrow> eina_strbuf_append al b str | Some esc \<Rightarrow> eina_strbuf_append al b esc)"

definition eina_strbuf_append_n :: "allocator \<Rightarrow> strbuf \<Rightarrow> u8 list \<Rightarrow> nat \<Rightarrow> (bool \<times> strbuf) option" where
  "eina_strbuf_append_n al b str maxlen = do { n \<leftarrow> strlen str; eina_strbuf_common_append_n 1 al b str n maxlen }"

definition eina_strbuf_insert :: "allocator \<Rightarrow> strbuf \<Rightarrow> u8 list \<Rightarrow> nat \<Rightarrow> (bool \<times> strbuf) option" where
  "eina_strbuf_insert al b str pos = do { n \<leftarrow> strlen str; eina_strbuf_common_insert 1 al b str n pos }"

definition eina_strbuf_insert_escaped ::
  "(u8 list \<Rightarrow> u8 list option) \<Rightarrow> allocator \<Rightarrow> strbuf \<Rightarrow> u8 list \<Rightarrow> nat \<Rightarrow> (bool \<times> strbuf) option" where
  "eina_strbuf_insert_escaped escape al b str pos =
     (case escape str of None \<Rightarrow> eina_strbuf_insert al b str pos | Some esc \<Rightarrow> eina_strbuf_insert al b esc pos)"

definition eina_strbuf_insert_n :: "allocator \<Rightarrow> strbuf \<Rightarrow> u8 list \<Rightarrow> nat \<Rightarrow> nat \<Rightarrow> (bool \<times> strbuf) option" where
  "eina_strbuf_insert_n al b str maxlen pos = do { n \<leftarrow> strlen str; eina_strbuf_common_insert_n 1 al b str n maxlen pos }"

text \<open>The blanks of \<open>isspace\<close>, and the trimming functions.\<close>

definition isspace :: "u8 \<Rightarrow> bool" where
  "isspace ch \<longleftrightarrow> ch = 32 \<or> (9 \<le> ch \<and> ch \<le> 13)"

fun rtrim_loop :: "u8 list \<Rightarrow> nat \<Rightarrow> nat option" where
  "rtrim_loop m 0 = Some 0"
| "rtrim_loop m (Suc n) =
     (if n < length m then if isspace (m ! n) then rtrim_loop m n else Some (Suc n) else None)"

text \<open>Where the text starts and how long it is.\<close>

fun ltrim_loop :: "u8 list \<Rightarrow> nat \<Rightarrow> nat \<Rightarrow> (nat \<times> nat) option" where
  "ltrim_loop m ch 0 = Some (ch, 0)"
| "ltrim_loop m ch (Suc n) =
     (if ch < length m then if isspace (m ! ch) then ltrim_loop m (ch + 1) n else Some (ch, Suc n) else None)"

definition eina_strbuf_rtrim :: "strbuf \<Rightarrow> strbuf option" where
  "eina_strbuf_rtrim b = do {
     n \<leftarrow> rtrim_loop (sb_buf b) (sb_len b);
     sb_write (b\<lparr>sb_len := n\<rparr>) n [0] }"

definition eina_strbuf_ltrim :: "strbuf \<Rightarrow> strbuf option" where
  "eina_strbuf_ltrim b = do {
     (ch, n) \<leftarrow> ltrim_loop (sb_buf b) 0 (sb_len b);
     b \<leftarrow> sb_move (b\<lparr>sb_len := n\<rparr>) 0 ch n;
     sb_write b n [0] }"

definition eina_strbuf_trim :: "strbuf \<Rightarrow> strbuf option" where
  "eina_strbuf_trim b = do {
     n \<leftarrow> rtrim_loop (sb_buf b) (sb_len b);
     (ch, n) \<leftarrow> ltrim_loop (sb_buf b) 0 n;
     b \<leftarrow> sb_move (b\<lparr>sb_len := n\<rparr>) 0 ch n;
     sb_write b n [0] }"

section \<open>Replacing\<close>

text \<open>
  \<open>strstr\<close> of the C library on the string at \<open>off\<close>; the inner \<open>None\<close> is a null result. The
  strings \<open>str\<close> and \<open>w\<close> (\<open>with\<close>) are given by their characters.
\<close>

fun find_sub :: "u8 list \<Rightarrow> u8 list \<Rightarrow> nat option" where
  "find_sub p [] = (if p = [] then Some 0 else None)"
| "find_sub p (x # xs) =
     (if take (length p) (x # xs) = p then Some 0 else map_option Suc (find_sub p xs))"

definition strstr :: "u8 list \<Rightarrow> nat \<Rightarrow> u8 list \<Rightarrow> nat option option" where
  "strstr m off p = do { s \<leftarrow> c_string m off; Some (map_option ((+) off) (find_sub p s)) }"

fun replace_find :: "u8 list \<Rightarrow> nat \<Rightarrow> u8 list \<Rightarrow> nat \<Rightarrow> nat option option" where
  "replace_find m spos str 0 = Some (Some spos)"
| "replace_find m spos str (Suc n) = do {
     r \<leftarrow> strstr m spos str;
     (case r of
        None \<Rightarrow> Some None
      | Some p \<Rightarrow>
          if m ! p = 0 then Some None
          else replace_find m (if n > 0 then p + 1 else p) str n) }"

text \<open>What \<open>eina_strbuf_replace\<close> and \<open>eina_strbuf_replace_last\<close> do at the place they have found.\<close>

definition replace_at :: "allocator \<Rightarrow> strbuf \<Rightarrow> nat \<Rightarrow> nat \<Rightarrow> u8 list \<Rightarrow> (bool \<times> strbuf) option" where
  "replace_at al b pos len1 w = do {
     (ok, b) \<leftarrow> (if len1 \<noteq> length w then strbuf_grow 1 al b (size_t (sb_len b - len1 + length w)) else Some (True, b));
     (if \<not> ok then Some (False, b)
      else do {
        m \<leftarrow> (if len1 \<noteq> length w
              then mem_move (sb_buf b) (pos + length w) (pos + len1) (sb_len b - pos - len1) else Some (sb_buf b));
        m \<leftarrow> mem_write m pos w;
        let len = sb_len b + length w - len1;
        m \<leftarrow> mem_write m len [0];
        Some (True, b\<lparr>sb_buf := m, sb_len := len\<rparr>) }) }"

definition eina_strbuf_replace ::
  "allocator \<Rightarrow> strbuf \<Rightarrow> u8 list \<Rightarrow> u8 list \<Rightarrow> nat \<Rightarrow> (bool \<times> strbuf) option" where
  "eina_strbuf_replace al b str w n =
     (if n = 0 then Some (False, b)
      else do {
        r \<leftarrow> replace_find (sb_buf b) 0 str n;
        (case r of
           None \<Rightarrow> Some (False, b)
         | Some pos \<Rightarrow> do {
             own \<leftarrow> own_copy al b;
             (case own of None \<Rightarrow> Some (False, b) | Some b \<Rightarrow> replace_at al b pos (length str) w) }) })"

text \<open>The last match: the place found before the search behind it fails.\<close>

function last_match :: "u8 list \<Rightarrow> u8 list \<Rightarrow> nat option \<Rightarrow> nat option \<Rightarrow> nat option option" where
  "last_match m str spos spos_next =
     (case spos_next of
        None \<Rightarrow> Some spos
      | Some p \<Rightarrow>
          if p < length m then
            if m ! p = 0 then Some spos
            else do { r \<leftarrow> strstr m (p + 1) str; last_match m str (Some p) r }
          else None)"
  by pat_completeness auto
termination
  by (relation "measure (\<lambda>(m, str, spos, spos_next). case spos_next of None \<Rightarrow> 0 | Some p \<Rightarrow> Suc (length m - p))")
     (auto simp: strstr_def split: Option.bind_splits option.split)

declare last_match.simps [simp del]

text \<open>A read-only string is copied here too, but the flag is not cleared.\<close>

definition eina_strbuf_replace_last ::
  "allocator \<Rightarrow> strbuf \<Rightarrow> u8 list \<Rightarrow> u8 list \<Rightarrow> (bool \<times> strbuf) option" where
  "eina_strbuf_replace_last al b str w = do {
     first \<leftarrow> strstr (sb_buf b) 0 str;
     r \<leftarrow> last_match (sb_buf b) str None first;
     (case r of
        None \<Rightarrow> Some (False, b)
      | Some pos \<Rightarrow> do {
          own \<leftarrow> own_copy al b;
          (case own of
             None \<Rightarrow> Some (False, b)
           | Some b' \<Rightarrow> replace_at al (b'\<lparr>sb_ro := sb_ro b\<rparr>) pos (length str) w) }) }"

text \<open>
  The loops of \<open>eina_strbuf_replace_all\<close>. They never end for an empty \<open>str\<close>, which is \<open>None\<close>
  as well. The replacements are counted in an \<open>int\<close>. The first loop replaces in place.
\<close>

partial_function (option) replace_same :: "u8 list \<Rightarrow> nat option \<Rightarrow> u8 list \<Rightarrow> u8 list \<Rightarrow> nat \<Rightarrow> (u8 list \<times> nat) option" where
  "replace_same m spos str w n =
     (case spos of
        None \<Rightarrow> Some (m, n)
      | Some p \<Rightarrow> do {
          m \<leftarrow> mem_write m p w;
          r \<leftarrow> strstr m (p + length w) str;
          n \<leftarrow> c_int (n + 1);
          replace_same m r str w n })"

text \<open>
  The second one copies from \<open>tmp\<close> to the new buffer: \<open>start\<close> and \<open>start_tmp\<close> are where the
  copied text ends in both, \<open>spos\<close> is the next match. When there is no memory for it the text
  is left as it is from there on; the replacement has been counted all the same.
\<close>

partial_function (option) replace_copy ::
  "allocator \<Rightarrow> strbuf \<Rightarrow> u8 list \<Rightarrow> nat option \<Rightarrow> u8 list \<Rightarrow> u8 list \<Rightarrow> nat \<Rightarrow> nat \<Rightarrow> nat \<Rightarrow> nat \<Rightarrow>
    (strbuf \<times> nat \<times> nat \<times> nat \<times> nat) option" where
  "replace_copy al b tmp spos str w start start_tmp len n =
     (case spos of
        None \<Rightarrow> Some (b, start, start_tmp, len, n)
      | Some pos_tmp \<Rightarrow> do {
          n \<leftarrow> c_int (n + 1);
          let pos = start + pos_tmp - start_tmp;
          (ok, b) \<leftarrow> strbuf_grow 1 al b (size_t (len + length w - length str));
          (if \<not> ok then Some (b, start, start_tmp, len, n)
           else do {
             bs \<leftarrow> mem_read tmp start_tmp (pos - start);
             m \<leftarrow> mem_write (sb_buf b) start bs;
             m \<leftarrow> mem_write m pos w;
             r \<leftarrow> strstr tmp (pos_tmp + length str) str;
             replace_copy al (b\<lparr>sb_buf := m\<rparr>) tmp r str w (pos + length w) (pos_tmp + length str)
               (len + length w - length str) n }) })"

text \<open>
  The first match is searched before a read-only string is copied, and the copy is then
  changed through a pointer into the old string: this is a write to read-only memory, or a
  difference of pointers into two objects.
\<close>

definition eina_strbuf_replace_all ::
  "allocator \<Rightarrow> strbuf \<Rightarrow> u8 list \<Rightarrow> u8 list \<Rightarrow> (nat \<times> strbuf) option" where
  "eina_strbuf_replace_all al b str w = do {
     spos \<leftarrow> strstr (sb_buf b) 0 str;
     (case spos of
        None \<Rightarrow> Some (0, b)
      | Some p \<Rightarrow>
          if sb_buf b ! p = 0 then Some (0, b)
          else do {
            own \<leftarrow> own_copy al b;
            (case own of
               None \<Rightarrow> Some (0, b)
             | Some b' \<Rightarrow>
                 if sb_ro b then None
                 else if length str = length w then do {
                   (m, n) \<leftarrow> replace_same (sb_buf b) spos str w 0;
                   Some (n, b\<lparr>sb_buf := m\<rparr>) }
                 else
                   case malloc al (sb_size b) of
                     None \<Rightarrow> Some (0, b)
                   | Some new \<Rightarrow> do {
                       let tmp = sb_buf b;
                       (b, start, start_tmp, len, n) \<leftarrow>
                         replace_copy al (b\<lparr>sb_buf := new\<rparr>) tmp spos str w 0 0 (sb_len b) 0;
                       bs \<leftarrow> mem_read tmp start_tmp (len - start);
                       m \<leftarrow> mem_write (sb_buf b) start bs;
                       m \<leftarrow> mem_write m len [0];
                       Some (n, b\<lparr>sb_buf := m, sb_len := len\<rparr>) }) }) }"

end
