(* ===== verification/Eina_Strbuf_Laws.thy ===== *)
theory Eina_Strbuf_Laws
  imports Eina_Strbuf
begin

text \<open>
  What a string buffer promises: its bytes are the text, a terminator and spare room, and
  every edit does to the text what it says, or reports that there is no memory.
\<close>

section \<open>Invariant\<close>

text \<open>No object is larger than half of the address space.\<close>

definition bounded_alloc :: "allocator \<Rightarrow> bool" where
  "bounded_alloc al \<longleftrightarrow> (\<forall>n. can_alloc al n \<longrightarrow> n < 2 ^ 63)"

definition sb_room :: "nat \<Rightarrow> strbuf \<Rightarrow> bool" where
  "sb_room c b \<longleftrightarrow> 0 < c \<and> length (sb_buf b) = sb_size b * c \<and> length (sb_buf b) < 2 ^ 63 \<and>
     0 < sb_step b \<and> sb_step b \<le> 4096 \<and> \<not> sb_ro b"

definition sb_ok :: "nat \<Rightarrow> strbuf \<Rightarrow> bool" where
  "sb_ok c b \<longleftrightarrow> sb_room c b \<and> sb_len b < sb_size b \<and> take c (drop (sb_len b * c) (sb_buf b)) = replicate c 0"

definition sb_text :: "nat \<Rightarrow> strbuf \<Rightarrow> u8 list" where
  "sb_text c b = take (sb_len b * c) (sb_buf b)"

text \<open>A request for \<open>n\<close> characters, with all that is added to it, does not wrap.\<close>

definition fits :: "nat \<Rightarrow> nat \<Rightarrow> bool" where
  "fits c n \<longleftrightarrow> (n + 4097) * c < 2 ^ 64"

lemma size_t_small [simp]: "n < 2 ^ 64 \<Longrightarrow> size_t n = n"
  by (simp add: size_t_def)

lemma fits_small: "fits c n \<Longrightarrow> 0 < c \<Longrightarrow> n + 4097 < 2 ^ 64"
  unfolding fits_def by (metis One_nat_def Suc_leI le_less_trans mult.right_neutral mult_le_mono2)

lemma fits_mono: "fits c n \<Longrightarrow> m \<le> n \<Longrightarrow> fits c m"
  unfolding fits_def by (rule le_less_trans [OF mult_le_mono1]) auto

lemma sb_room_size: "sb_room c b \<Longrightarrow> sb_size b < 2 ^ 63"
  unfolding sb_room_def by (metis One_nat_def Suc_leI le_less_trans mult.right_neutral mult_le_mono2)

section \<open>Growing\<close>

lemma min_add_diff: "min m n + (n - m) = (n :: nat)"
  by simp

lemma new_step_bounds:
  assumes "0 < sb_step b" "sb_step b \<le> 4096" "sb_size b < 2 ^ 63" "sz < 2 ^ 64 - 64"
  shows "0 < new_step b sz" "new_step b sz \<le> 4096"
proof -
  define delta where "delta = (if sz > sb_size b then sz - sb_size b else sb_size b - sz)"
  have "(delta div 32 + 1) * 32 \<le> delta + 32" by simp
  moreover have "delta + 32 < 2 ^ 64"
    using assms(3,4) by (auto simp: delta_def)
  ultimately have "size_t ((delta div 32 + 1) * 32) = (delta div 32 + 1) * 32"
    by (intro size_t_small) linarith
  then show "0 < new_step b sz" "new_step b sz \<le> 4096"
    using assms(1,2) unfolding new_step_def
    by (auto simp: EINA_STRBUF_INIT_STEP_def EINA_STRBUF_MAX_STEP_def Let_def simp flip: delta_def)
qed

lemma round_up: "0 < st \<Longrightarrow> n < (n div st + 1) * st \<and> (n div st + 1) * st \<le> n + (st :: nat)"
proof -
  assume "0 < st"
  then have "n = n div st * st + n mod st" "n mod st < st" by simp_all
  then show ?thesis
    unfolding distrib_right by linarith
qed

lemma new_size_bounds:
  assumes "0 < sb_step b" "sb_step b \<le> 4096" "sb_size b < 2 ^ 63" "sz + 4096 < 2 ^ 64"
  shows "sz < new_size b sz" "new_size b sz \<le> sz + 4096"
proof -
  have s: "0 < new_step b sz" "new_step b sz \<le> 4096"
    using assms by (simp_all add: new_step_bounds)
  from round_up [OF s(1), of sz] have "new_size b sz = (sz div new_step b sz + 1) * new_step b sz"
    unfolding new_size_def using assms(4) s(2) by (intro size_t_small) linarith
  then show "sz < new_size b sz" "new_size b sz \<le> sz + 4096"
    using round_up [OF s(1), of sz] s(2) by linarith+
qed

text \<open>What an enlarged or shrunk buffer keeps: everything but spare room and the sizes.\<close>

definition resized :: "nat \<Rightarrow> strbuf \<Rightarrow> strbuf \<Rightarrow> nat \<Rightarrow> bool" where
  "resized c b b' sz \<longleftrightarrow> sb_room c b' \<and> sb_len b' = sb_len b \<and> sz < sb_size b' \<and>
     (\<forall>k \<le> Suc sz * c. k \<le> length (sb_buf b) \<longrightarrow> take k (sb_buf b') = take k (sb_buf b))"

lemma strbuf_resize_ok:
  assumes "sb_room c b" and "bounded_alloc al" and "fits c sz"
  obtains "strbuf_resize c al b sz = Some (False, b)" "\<exists>k \<le> (sz + 4097) * c. \<not> can_alloc al k"
    | b' where "strbuf_resize c al b sz = Some (True, b')" "resized c b b' sz"
proof -
  note r = assms(1) [unfolded sb_room_def]
  have c: "0 < c" using r by simp
  have f: "sz + 4097 < 2 ^ 64" using fits_small [OF assms(3) c] .
  have same: "resized c b b sz" if "sz < sb_size b"
    using assms(1) that by (simp add: resized_def)
  show thesis
  proof (cases "Suc sz = sb_size b")
    case True
    then have "strbuf_resize c al b sz = Some (True, b)"
      using f by (simp add: strbuf_resize_def)
    then show thesis using that(2) same True by simp
  next
    case False
    define nsz where "nsz = new_size b (Suc sz)"
    have n: "Suc sz < nsz" "nsz \<le> Suc sz + 4096"
      unfolding nsz_def using new_size_bounds [of b "Suc sz"] r f sb_room_size [OF assms(1)] by simp_all
    have le: "nsz * c \<le> (sz + 4097) * c"
      using n(2) by (intro mult_le_mono1) simp
    then have bytes: "size_t (nsz * c) = nsz * c"
      using assms(3) unfolding fits_def by (intro size_t_small) linarith
    have e: "strbuf_resize c al b sz =
       (if sb_size b = nsz * c then Some (True, b)
        else case realloc al (sb_buf b) (nsz * c) of
               None \<Rightarrow> Some (False, b)
             | Some m \<Rightarrow> Some (True, b\<lparr>sb_ro := False, sb_buf := m, sb_size := nsz, sb_step := new_step b (Suc sz)\<rparr>))"
      using False f r n(1) by (simp add: strbuf_resize_def Let_def bytes flip: nsz_def split: option.split)
    show thesis
    proof (cases "sb_size b = nsz * c")
      case True
      moreover have "nsz * 1 \<le> nsz * c"
        using c by (intro mult_le_mono2) simp
      ultimately have "sz < sb_size b" using n(1) by linarith
      then show thesis using that(2) same e True by simp
    next
      case ne: False
      show thesis
      proof (cases "can_alloc al (nsz * c)")
        case True
        let ?m = "take (nsz * c) (sb_buf b) @ map (junk al) [length (sb_buf b)..<nsz * c]"
        let ?b = "b\<lparr>sb_ro := False, sb_buf := ?m, sb_size := nsz, sb_step := new_step b (Suc sz)\<rparr>"
        have lm: "length ?m = nsz * c" by simp
        have "take k ?m = take k (sb_buf b)" if "k \<le> Suc sz * c" "k \<le> length (sb_buf b)" for k
        proof -
          have "Suc sz * c \<le> nsz * c" using n(1) by (intro mult_le_mono1) simp
          then show ?thesis using that by (simp add: min_def)
        qed
        moreover have "sb_room c ?b"
          using True assms(2) r f sb_room_size [OF assms(1)] unfolding sb_room_def bounded_alloc_def
          by (simp add: new_step_bounds min_add_diff)
        ultimately have "resized c b ?b sz"
          using n(1) by (simp add: resized_def)
        moreover have "strbuf_resize c al b sz = Some (True, ?b)"
          using e ne True c n(1) by (simp add: realloc_def)
        ultimately show thesis by (rule that(2) [rotated])
      next
        case no: False
        then have "strbuf_resize c al b sz = Some (False, b)"
          using e ne by (simp add: realloc_def)
        then show thesis by (rule that(1)) (use no le in blast)
      qed
    qed
  qed
qed

lemma strbuf_grow_ok:
  assumes "sb_room c b" and "bounded_alloc al" and "fits c sz"
  obtains "strbuf_grow c al b sz = Some (False, b)" "\<exists>k \<le> (sz + 4097) * c. \<not> can_alloc al k"
    | b' where "strbuf_grow c al b sz = Some (True, b')" "resized c b b' sz"
proof (cases "Suc sz < sb_size b")
  case True
  then show thesis
    using that(2) [of b] assms fits_small [OF assms(3)] by (simp add: strbuf_grow_def resized_def sb_room_def)
next
  case False
  then have "strbuf_grow c al b sz = strbuf_resize c al b sz"
    using assms fits_small [OF assms(3)] by (simp add: strbuf_grow_def sb_room_def)
  then show thesis
    using strbuf_resize_ok [OF assms] that by metis
qed

section \<open>Edits\<close>

text \<open>A buffer whose bytes are a text and a terminator.\<close>

definition holds :: "nat \<Rightarrow> strbuf \<Rightarrow> u8 list \<Rightarrow> bool" where
  "holds c b t \<longleftrightarrow> sb_ok c b \<and> sb_text c b = t"

lemma holdsI:
  assumes "sb_room c b'" "sb_buf b = t @ replicate c 0 @ R" "length (sb_buf b) = length (sb_buf b')"
    "length t = sb_len b * c" "sb_size b = sb_size b'" "sb_step b = sb_step b'" "sb_ro b = sb_ro b'"
  shows "holds c b t"
proof -
  have "sb_len b * c + c \<le> sb_size b * c"
    using assms by (auto simp: sb_room_def)
  then have "Suc (sb_len b) * c \<le> sb_size b * c" by simp
  then have "Suc (sb_len b) \<le> sb_size b"
    using assms(1) unfolding mult_le_cancel2 sb_room_def by blast
  then have "sb_len b < sb_size b" by simp
  then show ?thesis
    using assms by (auto simp: holds_def sb_ok_def sb_text_def sb_room_def)
qed

lemma holds_length: "holds c b t \<Longrightarrow> length t = sb_len b * c"
  by (auto simp: holds_def sb_ok_def sb_text_def sb_room_def)

lemma holds_split:
  assumes "holds c b t"
  obtains R where "sb_buf b = t @ replicate c 0 @ R"
proof
  have "sb_buf b = t @ drop (sb_len b * c) (sb_buf b)"
    using assms by (auto simp: holds_def sb_text_def)
  also have "drop (sb_len b * c) (sb_buf b) = replicate c 0 @ drop c (drop (sb_len b * c) (sb_buf b))"
    using assms append_take_drop_id [of c "drop (sb_len b * c) (sb_buf b)"] by (simp add: holds_def sb_ok_def)
  finally show "sb_buf b = t @ replicate c 0 @ drop c (drop (sb_len b * c) (sb_buf b))" .
qed

text \<open>Where the enlarged buffer is written to.\<close>

lemma resized_split:
  assumes "holds c b t" and "resized c b b' (sb_len b + n)"
  obtains G Z R where "sb_buf b' = t @ G @ Z @ R" "length G = n * c" "length Z = c"
proof -
  let ?T = "drop (sb_len b * c) (sb_buf b')"
  have k: "sb_len b * c \<le> Suc (sb_len b + n) * c" "sb_len b * c \<le> length (sb_buf b)"
    using assms(1) by (auto simp: holds_def sb_ok_def sb_room_def algebra_simps)
  then have "take (sb_len b * c) (sb_buf b') = t"
    using assms by (simp add: resized_def holds_def sb_text_def)
  then have t: "sb_buf b' = t @ ?T" by (metis append_take_drop_id)
  have "Suc (sb_len b + n) * c \<le> sb_size b' * c"
    using assms(2) by (intro mult_le_mono1) (simp add: resized_def)
  then have "n * c + c \<le> length ?T"
    using assms(2) by (auto simp: resized_def sb_room_def algebra_simps)
  then have "length (take (n * c) ?T) = n * c" "length (take c (drop (n * c) ?T)) = c" by simp_all
  moreover have "?T = take (n * c) ?T @ take c (drop (n * c) ?T) @ drop c (drop (n * c) ?T)"
    by (metis append_take_drop_id)
  ultimately show thesis using that t by metis
qed

lemma sb_write_mid:
  "\<not> sb_ro b \<Longrightarrow> sb_buf b = A @ B @ C \<Longrightarrow> length A = off \<Longrightarrow> length B = length bs \<Longrightarrow> sb_write b off bs = Some (b\<lparr>sb_buf := A @ bs @ C\<rparr>)"
  by (simp add: sb_write_def mem_write_mid)

definition edited :: "nat \<Rightarrow> strbuf \<Rightarrow> (bool \<times> strbuf) option \<Rightarrow> u8 list \<Rightarrow> bool" where
  "edited c b r t \<longleftrightarrow> r = Some (False, b) \<or> (\<exists>b'. r = Some (True, b') \<and> holds c b' t)"

lemma grow_edits:
  assumes "holds c b t" "bounded_alloc al" "fits c (sb_len b + n)" "length t' = (sb_len b + n) * c"
    and "\<And>b1 G Z R. \<not> sb_ro b1 \<Longrightarrow> sb_len b1 = sb_len b \<Longrightarrow> sb_buf b1 = t @ G @ Z @ R \<Longrightarrow> length G = n * c \<Longrightarrow> length Z = c \<Longrightarrow>
      body b1 = Some (True, b1\<lparr>sb_buf := t' @ replicate c 0 @ R, sb_len := sb_len b + n\<rparr>)"
  shows "edited c b (do { (ok, b) \<leftarrow> strbuf_grow c al b (size_t (sb_len b + n)); if \<not> ok then Some (False, b) else body b }) t'"
proof -
  have r: "sb_room c b" using assms(1) by (simp add: holds_def sb_ok_def)
  have sz: "size_t (sb_len b + n) = sb_len b + n"
    using fits_small [OF assms(3)] r by (intro size_t_small) (simp add: sb_room_def)
  show ?thesis
  proof (rule strbuf_grow_ok [OF r assms(2,3)])
    assume "strbuf_grow c al b (sb_len b + n) = Some (False, b)"
    then show ?thesis by (simp add: sz edited_def)
  next
    fix b1 assume g: "strbuf_grow c al b (sb_len b + n) = Some (True, b1)" and z: "resized c b b1 (sb_len b + n)"
    obtain G Z R where m: "sb_buf b1 = t @ G @ Z @ R" "length G = n * c" "length Z = c"
      by (rule resized_split [OF assms(1) z])
    have b1: "\<not> sb_ro b1" "sb_len b1 = sb_len b" "sb_room c b1"
      using z by (simp_all add: resized_def sb_room_def)
    let ?b = "b1\<lparr>sb_buf := t' @ replicate c 0 @ R, sb_len := sb_len b + n\<rparr>"
    have "holds c ?b t'"
      using b1 m holds_length [OF assms(1)] assms(4) by (intro holdsI [of c b1]) (simp_all add: algebra_simps)
    then show ?thesis
      using assms(5) [OF b1(1,2) m] g by (simp add: edited_def sz)
  qed
qed

text \<open>The two writes at the end of every edit: the new characters, then the terminator.\<close>

lemma write_end:
  assumes "\<not> sb_ro b" "sb_buf b = t @ Z @ R" "length t = l * c" "length Z = c"
  shows "sb_write (b\<lparr>sb_len := l\<rparr>) (l * c) (replicate c 0) = Some (b\<lparr>sb_buf := t @ replicate c 0 @ R, sb_len := l\<rparr>)"
  using assms by (subst sb_write_mid [of _ t Z R]) simp_all

lemma append_length_edits:
  assumes "holds c b t" "bounded_alloc al" "fits c (sb_len b + n)" "n * c \<le> length str"
  shows "edited c b (eina_strbuf_common_append_length c al b str n) (t @ take (n * c) str)"
  unfolding eina_strbuf_common_append_length_def
proof (rule grow_edits [OF assms(1,2,3)])
  show "length (t @ take (n * c) str) = (sb_len b + n) * c"
    using holds_length [OF assms(1)] assms(4) by (simp add: algebra_simps)
next
  fix b1 :: strbuf and G Z R
  assume b1: "\<not> sb_ro b1" "sb_len b1 = sb_len b" "sb_buf b1 = t @ G @ Z @ R" "length G = n * c" "length Z = c"
  let ?d = "take (n * c) str"
  have "sb_write b1 (sb_len b * c) ?d = Some (b1\<lparr>sb_buf := (t @ ?d) @ Z @ R\<rparr>)"
    using b1 holds_length [OF assms(1)] assms(4) sb_write_mid [of b1 t G "Z @ R" _ ?d] by simp
  moreover have "sb_write (b1\<lparr>sb_buf := (t @ ?d) @ Z @ R, sb_len := sb_len b + n\<rparr>) ((sb_len b + n) * c) (replicate c 0) =
      Some (b1\<lparr>sb_buf := (t @ ?d) @ replicate c 0 @ R, sb_len := sb_len b + n\<rparr>)"
    using write_end [of "b1\<lparr>sb_buf := (t @ ?d) @ Z @ R\<rparr>" "t @ ?d" Z R "sb_len b + n" c] b1 holds_length [OF assms(1)] assms(4)
    by (simp add: algebra_simps)
  ultimately show "(do {
      bs \<leftarrow> mem_read str 0 (n * c);
      b \<leftarrow> sb_write b1 (sb_len b1 * c) bs;
      let b = b\<lparr>sb_len := sb_len b + n\<rparr>;
      b \<leftarrow> sb_write b (sb_len b * c) (replicate c 0);
      Some (True, b) }) = Some (True, b1\<lparr>sb_buf := (t @ ?d) @ replicate c 0 @ R, sb_len := sb_len b + n\<rparr>)"
    using b1(2) assms(4) by (simp add: mem_read_def)
qed

lemma append_edits:
  assumes "holds c b t" "bounded_alloc al" "fits c (sb_len b + n)" "str = d @ replicate c 0 @ rest" "length d = n * c"
  shows "edited c b (eina_strbuf_common_append c al b str n) (t @ d)"
  unfolding eina_strbuf_common_append_def
proof (rule grow_edits [OF assms(1,2,3)])
  show "length (t @ d) = (sb_len b + n) * c"
    using holds_length [OF assms(1)] assms(5) by (simp add: algebra_simps)
next
  fix b1 :: strbuf and G Z R
  assume b1: "\<not> sb_ro b1" "sb_len b1 = sb_len b" "sb_buf b1 = t @ G @ Z @ R" "length G = n * c" "length Z = c"
  have "sb_write b1 (sb_len b * c) (d @ replicate c 0) = Some (b1\<lparr>sb_buf := (t @ d) @ replicate c 0 @ R\<rparr>)"
    using b1 holds_length [OF assms(1)] assms(5) sb_write_mid [of b1 t "G @ Z" R _ "d @ replicate c 0"] by simp
  moreover have "mem_read str 0 ((n + 1) * c) = Some (d @ replicate c 0)"
    using assms(4,5) by (simp add: mem_read_def)
  ultimately show "(do {
      bs \<leftarrow> mem_read str 0 ((n + 1) * c);
      b \<leftarrow> sb_write b1 (sb_len b1 * c) bs;
      Some (True, b\<lparr>sb_len := sb_len b + n\<rparr>) }) = Some (True, b1\<lparr>sb_buf := (t @ d) @ replicate c 0 @ R, sb_len := sb_len b + n\<rparr>)"
    using b1(2) by simp
qed

lemma append_n_edits:
  assumes "holds c b t" "bounded_alloc al" "fits c (sb_len b + n)" "n * c \<le> length str"
  shows "edited c b (eina_strbuf_common_append_n c al b str n k) (t @ take (min n k * c) str)"
proof -
  have "fits c (sb_len b + min n k)"
    by (rule fits_mono [OF assms(3)]) simp
  moreover have "min n k * c \<le> length str"
    by (rule le_trans [OF mult_le_mono1 assms(4)]) simp
  ultimately show ?thesis
    using append_length_edits [OF assms(1,2), of "min n k" str]
    by (simp add: eina_strbuf_common_append_n_def min_def split: if_splits)
qed

lemma append_char_edits:
  assumes "holds c b t" "bounded_alloc al" "fits c (sb_len b + 1)" "c \<le> length ch"
  shows "edited c b (eina_strbuf_common_append_char c al b ch) (t @ take c ch)"
  using append_length_edits [OF assms(1,2,3), of ch] assms(4)
  unfolding eina_strbuf_common_append_char_def eina_strbuf_common_append_length_def mult_1 by blast

lemma sb_gap:
  assumes "\<not> sb_ro b" "sb_buf b = A @ B @ r1 @ r2" "length A = p" "length B = n" "length r1 = k" "length d = k"
  shows "(do { b \<leftarrow> sb_move b (p + k) p n; sb_write b p d }) = Some (b\<lparr>sb_buf := A @ d @ B @ r2\<rparr>)"
  using mem_insert_gap [OF assms(3-6), of r2] assms(1,2)
  by (auto simp: sb_move_def sb_write_def mem_move_def split: Option.bind_splits)

lemma insert_text_length:
  "length t = l * c \<Longrightarrow> n * c \<le> length str \<Longrightarrow> length (take k t @ take (n * c) str @ drop k t) = (l + n) * (c :: nat)"
  by (simp add: algebra_simps)

lemma insert_length_edits:
  assumes "holds c b t" "bounded_alloc al" "fits c (sb_len b + n)" "n * c \<le> length str" "pos \<le> sb_len b"
  shows "edited c b (strbuf_insert_length c al b str n pos) (take (pos * c) t @ take (n * c) str @ drop (pos * c) t)"
  unfolding strbuf_insert_length_def
proof (rule grow_edits [OF assms(1,2,3)])
  show lt: "length (take (pos * c) t @ take (n * c) str @ drop (pos * c) t) = (sb_len b + n) * c"
    by (rule insert_text_length [OF holds_length [OF assms(1)] assms(4)])

  fix b1 :: strbuf and G Z R
  assume b1: "\<not> sb_ro b1" "sb_len b1 = sb_len b" "sb_buf b1 = t @ G @ Z @ R" "length G = n * c" "length Z = c"
  let ?d = "take (n * c) str" and ?A = "take (pos * c) t" and ?B = "drop (pos * c) t"
  have l: "length ?A = pos * c" "length ?B = (sb_len b - pos) * c" "length ?d = n * c"
    using holds_length [OF assms(1)] assms(4,5) by (auto simp: min_def diff_mult_distrib)
  have "sb_buf b1 = ?A @ ?B @ G @ Z @ R"
    using b1(3) by simp
  from sb_gap [OF b1(1) this l(1,2) b1(4) l(3)]
  have "(do { b \<leftarrow> sb_move b1 ((n + pos) * c) (pos * c) ((sb_len b - pos) * c); sb_write b (pos * c) ?d }) =
      Some (b1\<lparr>sb_buf := (?A @ ?d @ ?B) @ Z @ R\<rparr>)"
    by (simp add: algebra_simps)
  moreover have "sb_write (b1\<lparr>sb_buf := (?A @ ?d @ ?B) @ Z @ R, sb_len := sb_len b + n\<rparr>) ((sb_len b + n) * c) (replicate c 0) =
      Some (b1\<lparr>sb_buf := (?A @ ?d @ ?B) @ replicate c 0 @ R, sb_len := sb_len b + n\<rparr>)"
    using write_end [of "b1\<lparr>sb_buf := (?A @ ?d @ ?B) @ Z @ R\<rparr>" "?A @ ?d @ ?B" Z R "sb_len b + n" c] b1(1,5) lt by simp
  ultimately show "(do {
      b \<leftarrow> sb_move b1 ((n + pos) * c) (pos * c) ((sb_len b1 - pos) * c);
      bs \<leftarrow> mem_read str 0 (n * c);
      b \<leftarrow> sb_write b (pos * c) bs;
      let b = b\<lparr>sb_len := sb_len b + n\<rparr>;
      b \<leftarrow> sb_write b (sb_len b * c) (replicate c 0);
      Some (True, b) }) =
      Some (True, b1\<lparr>sb_buf := (?A @ ?d @ ?B) @ replicate c 0 @ R, sb_len := sb_len b + n\<rparr>)"
    using b1(2) assms(4) by (auto simp: mem_read_def split: Option.bind_splits)
qed

lemma insert_edits:
  assumes "holds c b t" "bounded_alloc al" "fits c (sb_len b + n)" "str = d @ replicate c 0 @ rest" "length d = n * c"
  shows "edited c b (eina_strbuf_common_insert c al b str n pos) (take (pos * c) t @ d @ drop (pos * c) t)"
proof (cases "sb_len b \<le> pos")
  case True
  then have "length t \<le> pos * c"
    using holds_length [OF assms(1)] by simp
  then show ?thesis
    using append_edits [OF assms] True by (simp add: eina_strbuf_common_insert_def)
next
  case False
  then show ?thesis
    using insert_length_edits [OF assms(1-3), of str pos] assms(4,5) by (simp add: eina_strbuf_common_insert_def)
qed

lemma insert_n_edits:
  assumes "holds c b t" "bounded_alloc al" "fits c (sb_len b + n)" "n * c \<le> length str"
  shows "edited c b (eina_strbuf_common_insert_n c al b str n k pos)
    (take (pos * c) t @ take (min n k * c) str @ drop (pos * c) t)"
proof (cases "sb_len b \<le> pos")
  case True
  then have "length t \<le> pos * c"
    using holds_length [OF assms(1)] by simp
  then show ?thesis
    using append_n_edits [OF assms] True by (simp add: eina_strbuf_common_insert_n_def)
next
  case False
  have f: "fits c (sb_len b + min n k)"
    by (rule fits_mono [OF assms(3)]) simp
  have "min n k * c \<le> length str"
    by (rule le_trans [OF mult_le_mono1 assms(4)]) simp
  from insert_length_edits [OF assms(1,2) f this, of pos] False show ?thesis
    by (simp add: eina_strbuf_common_insert_n_def min_def split: if_splits)
qed

lemma insert_length_api_edits:
  assumes "holds c b t" "bounded_alloc al" "fits c (sb_len b + n)" "n * c \<le> length str"
  shows "edited c b (eina_strbuf_common_insert_length c al b str n pos)
    (take (pos * c) t @ take (n * c) str @ drop (pos * c) t)"
proof (cases "sb_len b \<le> pos")
  case True
  then have "length t \<le> pos * c"
    using holds_length [OF assms(1)] by simp
  then show ?thesis
    using append_length_edits [OF assms] True by (simp add: eina_strbuf_common_insert_length_def)
next
  case False
  then show ?thesis
    using insert_length_edits [OF assms, of pos] by (simp add: eina_strbuf_common_insert_length_def)
qed

lemma insert_char_edits:
  assumes "holds c b t" "bounded_alloc al" "fits c (sb_len b + 1)" "c \<le> length ch"
  shows "edited c b (eina_strbuf_common_insert_char c al b ch pos) (take (pos * c) t @ take c ch @ drop (pos * c) t)"
proof (cases "sb_len b \<le> pos")
  case True
  then have "length t \<le> pos * c"
    using holds_length [OF assms(1)] by simp
  then show ?thesis
    using append_char_edits [OF assms] True by (simp add: eina_strbuf_common_insert_char_def)
next
  case False
  then show ?thesis
    using insert_length_edits [OF assms(1-3), of ch pos] assms(4) by (simp add: eina_strbuf_common_insert_char_def)
qed

section \<open>Removal\<close>

lemma init_holds:
  assumes "0 < c" "c * 32 < 2 ^ 63"
  obtains b' where "strbuf_init c al b = (True, b')" "holds c b' []" | "fst (strbuf_init c al b) = False" "\<not> can_alloc al (c * 32)"
proof (cases "can_alloc al (c * 32)")
  case True
  let ?b = "b\<lparr>sb_ro := False, sb_len := 0, sb_size := 32, sb_step := 32, sb_buf := replicate (c * 32) 0\<rparr>"
  have "strbuf_init c al b = (True, ?b)"
    using True assms(1) by (simp add: strbuf_init_def calloc_def Let_def EINA_STRBUF_INIT_SIZE_def EINA_STRBUF_INIT_STEP_def)
  moreover have "holds c ?b []"
    using assms by (simp add: holds_def sb_ok_def sb_room_def sb_text_def)
  ultimately show thesis by (rule that(1))
next
  case False
  then show thesis
    by (intro that(2)) (simp_all add: strbuf_init_def calloc_def Let_def EINA_STRBUF_INIT_SIZE_def)
qed

lemma resized_holds:
  assumes "holds c b t" "resized c b b' (sb_len b)"
  shows "holds c b' t"
proof -
  note r = assms(2) [unfolded resized_def]
  have c: "sb_len b * c \<le> Suc (sb_len b) * c" "sb_len b * c \<le> length (sb_buf b)"
    "Suc (sb_len b) * c \<le> Suc (sb_len b) * c" "Suc (sb_len b) * c \<le> length (sb_buf b)"
    using assms(1) by (auto simp: holds_def sb_ok_def sb_room_def Suc_le_eq [symmetric] mult_le_mono1 simp del: mult_Suc)
  have "take (sb_len b * c) (sb_buf b') = take (sb_len b * c) (sb_buf b)"
    "take (Suc (sb_len b) * c) (sb_buf b') = take (Suc (sb_len b) * c) (sb_buf b)"
    using r c by blast+
  moreover have "take c (drop n m) = drop n (take (n + c) m)" for n and m :: "u8 list"
    by (simp add: take_drop add.commute)
  ultimately show ?thesis
    using assms(1) r by (simp add: holds_def sb_ok_def sb_text_def add.commute)
qed

lemma resize_holds:
  assumes "holds c b t" "bounded_alloc al" "fits c (sb_len b)"
  shows "\<exists>ok b'. strbuf_resize c al b (sb_len b) = Some (ok, b') \<and> holds c b' t"
proof -
  have r: "sb_room c b" using assms(1) by (simp add: holds_def sb_ok_def)
  show ?thesis
    by (rule strbuf_resize_ok [OF r assms(2,3)]) (use assms(1) resized_holds [OF assms(1)] in auto)
qed

text \<open>
  Removal gives the text without the part, or runs out of memory: when the rest cannot be
  moved to a smaller buffer it is removed all the same, and when nothing is left and no new
  buffer can be allocated the buffer is lost.
\<close>

lemma remove_edits:
  assumes "holds c b t" "bounded_alloc al" "fits c (sb_len b)" "can_alloc al (c * 32)"
  shows "\<exists>ok b'. eina_strbuf_common_remove c al b start stop = Some (ok, b') \<and>
    holds c b' (take (start * c) t @ drop (max start stop * c) t)"
proof -
  have r: "sb_room c b" "\<not> sb_ro b" "0 < c"
    using assms(1) by (simp_all add: holds_def sb_ok_def sb_room_def)
  have lt: "length t = sb_len b * c" by (rule holds_length [OF assms(1)])
  define e where "e = (if stop \<ge> sb_len b then sb_len b else stop)"
  have e: "e \<le> sb_len b" "drop (max start stop * c) t = drop (max start e * c) t"
    using lt by (auto simp: e_def max_def)
  show ?thesis
  proof (cases "e \<le> start")
    case True
    then show ?thesis
      using assms(1) e(2) by (intro exI [of _ True] exI [of _ b]) (simp add: eina_strbuf_common_remove_def Let_def max_def flip: e_def)
  next
    case False
    have own: "own_copy al b = Some (Some b)"
      using r(2) by (simp add: own_copy_def)
    show ?thesis
    proof (cases "e - start = sb_len b")
      case True
      then have "start = 0" "e = sb_len b" using False e(1) by auto
      moreover have "c * 32 < 2 ^ 63"
        using assms(2,4) unfolding bounded_alloc_def by blast
      then obtain b' where "strbuf_init c al b = (True, b')" "holds c b' []"
        using init_holds [OF r(3)] assms(4) by metis
      ultimately show ?thesis
        using own True False lt e(2)
        by (intro exI [of _ True] exI [of _ b']) (simp add: eina_strbuf_common_remove_def Let_def max_def flip: e_def)
    next
      case ne: False
      obtain R where m: "sb_buf b = t @ replicate c 0 @ R"
        by (rule holds_split [OF assms(1)])
      let ?A = "take (start * c) t" and ?x = "take ((e - start) * c) (drop (start * c) t)" and ?B = "drop (e * c) t @ replicate c 0"
      have se: "start * c + (e - start) * c = e * c"
        using False by (simp add: algebra_simps diff_mult_distrib)
      have "t = ?A @ ?x @ drop (e * c) t"
        using se by (metis append_take_drop_id drop_drop add.commute)
      then have m': "sb_buf b = ?A @ ?x @ ?B @ R"
        using m by (metis append.assoc)
      have ec: "start * c \<le> e * c" "e * c \<le> sb_len b * c"
        using False e(1) by simp_all
      have le: "start * c \<le> length t" "e * c \<le> length t" "(e - start) * c \<le> length t - start * c"
        using ec lt se by linarith+
      have l: "length ?A = start * c" "length ?x = (e - start) * c" "length ?B = (sb_len b - e + 1) * c"
        using le(1,3) by simp_all (simp add: lt diff_mult_distrib)
      obtain E where E: "mem_move (sb_buf b) (start * c) (start * c + (e - start) * c) ((sb_len b - e + 1) * c) = Some (?A @ ?B @ E @ R)"
          "length E = (e - start) * c"
        unfolding m' by (rule mem_close_gap [OF l])
      let ?t = "?A @ drop (e * c) t" and ?l = "sb_len b - (e - start)"
      let ?b = "b\<lparr>sb_buf := ?t @ replicate c 0 @ E @ R, sb_len := ?l\<rparr>"
      have mv: "sb_move b (start * c) (e * c) ((sb_len b - e + 1) * c) = Some (b\<lparr>sb_buf := ?t @ replicate c 0 @ E @ R\<rparr>)"
        using E(1) r(2) unfolding se by (auto simp: sb_move_def mem_move_def sb_write_def split: Option.bind_splits)
      have lt': "length ?t = ?l * c"
        using l(1) lt False e(1) by (simp add: algebra_simps diff_mult_distrib)
      have "length (sb_buf ?b) = length (sb_buf b)"
        unfolding m' using l E(2) by simp
      then have h: "holds c ?b ?t"
        using r lt' by (intro holdsI [of c b _ _ "E @ R"]) simp_all
      have f: "fits c (sb_len ?b)"
        by (rule fits_mono [OF assms(3)]) simp
      have op: "eina_strbuf_common_remove c al b start stop = strbuf_resize c al ?b ?l"
        using False ne own mv by (simp add: eina_strbuf_common_remove_def Let_def flip: e_def)
      have "\<exists>ok b'. strbuf_resize c al ?b ?l = Some (ok, b') \<and> holds c b' ?t"
        using resize_holds [OF h assms(2) f] by simp
      then show ?thesis
        using op e(2) False by (simp add: max_def)
    qed
  qed
qed

end
