(* ===== verification/Eina_Strbuf_Props.thy ===== *)
theory Eina_Strbuf_Props
  imports Eina_Strbuf_Laws
begin

text \<open>
  String buffers against plain texts: sequences of edits, and what goes wrong with read-only
  strings and sizes near the end of the address space.
\<close>

section \<open>Edits\<close>

text \<open>A string argument is the bytes of its characters; the caller's memory has a terminator behind them.\<close>

datatype sb_edit =
    SAppend "u8 list" | SAppendN "u8 list" nat | SAppendLength "u8 list" | SAppendChar "u8 list"
  | SInsert "u8 list" nat | SInsertN "u8 list" nat nat | SInsertLength "u8 list" nat | SInsertChar "u8 list" nat
  | SRemove nat nat

fun sb_run :: "nat \<Rightarrow> allocator \<Rightarrow> strbuf \<Rightarrow> sb_edit \<Rightarrow> (bool \<times> strbuf) option" where
  "sb_run c al b (SAppend d) = eina_strbuf_common_append c al b (d @ replicate c 0) (length d div c)"
| "sb_run c al b (SAppendN d k) = eina_strbuf_common_append_n c al b (d @ replicate c 0) (length d div c) k"
| "sb_run c al b (SAppendLength d) = eina_strbuf_common_append_length c al b d (length d div c)"
| "sb_run c al b (SAppendChar d) = eina_strbuf_common_append_char c al b d"
| "sb_run c al b (SInsert d pos) = eina_strbuf_common_insert c al b (d @ replicate c 0) (length d div c) pos"
| "sb_run c al b (SInsertN d k pos) = eina_strbuf_common_insert_n c al b (d @ replicate c 0) (length d div c) k pos"
| "sb_run c al b (SInsertLength d pos) = eina_strbuf_common_insert_length c al b d (length d div c) pos"
| "sb_run c al b (SInsertChar d pos) = eina_strbuf_common_insert_char c al b d pos"
| "sb_run c al b (SRemove start stop) = eina_strbuf_common_remove c al b start stop"

definition put_at :: "nat \<Rightarrow> u8 list \<Rightarrow> u8 list \<Rightarrow> u8 list" where
  "put_at p d t = take p t @ d @ drop p t"

fun sb_spec :: "nat \<Rightarrow> sb_edit \<Rightarrow> u8 list \<Rightarrow> u8 list" where
  "sb_spec c (SAppend d) t = t @ d"
| "sb_spec c (SAppendN d k) t = t @ take (k * c) d"
| "sb_spec c (SAppendLength d) t = t @ d"
| "sb_spec c (SAppendChar d) t = t @ d"
| "sb_spec c (SInsert d pos) t = put_at (pos * c) d t"
| "sb_spec c (SInsertN d k pos) t = put_at (pos * c) (take (k * c) d) t"
| "sb_spec c (SInsertLength d pos) t = put_at (pos * c) d t"
| "sb_spec c (SInsertChar d pos) t = put_at (pos * c) d t"
| "sb_spec c (SRemove start stop) t = take (start * c) t @ drop (max start stop * c) t"

fun sb_arg :: "sb_edit \<Rightarrow> u8 list" where
  "sb_arg (SAppend d) = d" | "sb_arg (SAppendN d k) = d" | "sb_arg (SAppendLength d) = d" | "sb_arg (SAppendChar d) = d"
| "sb_arg (SInsert d pos) = d" | "sb_arg (SInsertN d k pos) = d" | "sb_arg (SInsertLength d pos) = d"
| "sb_arg (SInsertChar d pos) = d" | "sb_arg (SRemove start stop) = []"

fun sb_wf :: "nat \<Rightarrow> sb_edit \<Rightarrow> bool" where
  "sb_wf c (SAppendChar d) \<longleftrightarrow> length d = c"
| "sb_wf c (SInsertChar d pos) \<longleftrightarrow> length d = c"
| "sb_wf c e \<longleftrightarrow> length (sb_arg e) mod c = 0"

definition is_remove :: "sb_edit \<Rightarrow> bool" where
  "is_remove e \<longleftrightarrow> (\<exists>start stop. e = SRemove start stop)"

lemma sb_spec_length: "length (sb_spec c e t) \<le> length t + length (sb_arg e)"
proof (cases e)
  case (SRemove start stop)
  then show ?thesis
    using mult_le_mono1 [OF max.cobounded1 [of start stop], of c]
    by (simp only: sb_spec.simps sb_arg.simps length_append length_take length_drop list.size)
qed (auto simp: put_at_def)

lemma sb_run_edits:
  assumes h: "holds c b t" and al: "bounded_alloc al" "is_remove e \<Longrightarrow> can_alloc al (c * 32)"
    and wf: "sb_wf c e" and sz: "length t + length (sb_arg e) + 4097 * c < 2 ^ 64"
  shows "\<exists>ok b'. sb_run c al b e = Some (ok, b') \<and> holds c b' (if ok \<or> is_remove e then sb_spec c e t else t)"
proof -
  have lt: "length t = sb_len b * c" and c: "0 < c"
    using holds_length [OF h] h by (simp_all add: holds_def sb_ok_def sb_room_def)
  have ed: "\<exists>ok b'. r = Some (ok, b') \<and> holds c b' (if ok then t' else t)" if "edited c b r t'" for r t'
    using that h by (auto simp: edited_def)
  have f: "fits c (sb_len b + n)" if "n * c = length (sb_arg e)" for n
    using sz that lt unfolding fits_def by (simp add: algebra_simps)
  have dv: "length (sb_arg e) div c * c = length (sb_arg e)" "length d = c \<Longrightarrow> length d div c = 1" for d :: "u8 list"
    using wf c by (cases e; simp add: mod_eq_0_iff_dvd)+
  note fd = f [OF dv(1)] and f1 = f [of 1, unfolded mult_1]
  have min: "take (min (length d div c) k * c) (d @ x) = take (k * c) d" if "length d div c * c = length d" for d x :: "u8 list" and k
  proof (cases "k \<le> length d div c")
    case True
    then have "k * c \<le> length d"
      using mult_le_mono1 [OF True, of c] that by simp
    then show ?thesis using True by (simp add: min_def)
  next
    case False
    then have "length d \<le> k * c"
      using mult_le_mono1 [of "length d div c" k c] that by simp
    then show ?thesis using False that by (simp add: min_def)
  qed
  show ?thesis
  proof (cases e)
    case (SAppend d)
    then show ?thesis
      using ed [OF append_edits [OF h al(1) fd, of "d @ replicate c 0" d "[]"]] dv(1) by (simp add: is_remove_def cong: if_cong split del: if_split)
  next
    case (SAppendN d k)
    then show ?thesis
      using ed [OF append_n_edits [OF h al(1) fd, of "d @ replicate c 0" k]] dv(1) min [of d] by (simp add: is_remove_def del: take_append cong: if_cong split del: if_split)
  next
    case (SAppendLength d)
    then show ?thesis
      using ed [OF append_length_edits [OF h al(1) fd, of d]] dv(1) by (simp add: is_remove_def cong: if_cong split del: if_split)
  next
    case (SAppendChar d)
    then show ?thesis
      using ed [OF append_char_edits [OF h al(1) f1, of d]] wf by (simp add: is_remove_def cong: if_cong split del: if_split)
  next
    case (SInsert d pos)
    then show ?thesis
      using ed [OF insert_edits [OF h al(1) fd, of "d @ replicate c 0" d "[]" pos]] dv(1) by (simp add: is_remove_def put_at_def cong: if_cong split del: if_split)
  next
    case (SInsertN d k pos)
    then show ?thesis
      using ed [OF insert_n_edits [OF h al(1) fd, of "d @ replicate c 0" k pos]] dv(1) min [of d] by (simp add: is_remove_def put_at_def del: take_append cong: if_cong split del: if_split)
  next
    case (SInsertLength d pos)
    then show ?thesis
      using ed [OF insert_length_api_edits [OF h al(1) fd, of d pos]] dv(1) by (simp add: is_remove_def put_at_def cong: if_cong split del: if_split)
  next
    case (SInsertChar d pos)
    then show ?thesis
      using ed [OF insert_char_edits [OF h al(1) f1, of d pos]] wf by (simp add: is_remove_def put_at_def cong: if_cong split del: if_split)
  next
    case (SRemove start stop)
    then show ?thesis
      using remove_edits [OF h al(1) f [of 0, simplified], of start stop] al(2) by (simp add: is_remove_def cong: if_cong split del: if_split)
  qed
qed

text \<open>A sequence of edits, each with the memory there is at that moment: the answers and the buffer.\<close>

fun sb_run_all :: "nat \<Rightarrow> strbuf \<Rightarrow> (allocator \<times> sb_edit) list \<Rightarrow> (bool list \<times> strbuf) option" where
  "sb_run_all c b [] = Some ([], b)"
| "sb_run_all c b ((al, e) # es) = do {
     (ok, b) \<leftarrow> sb_run c al b e;
     (oks, b) \<leftarrow> sb_run_all c b es;
     Some (ok # oks, b) }"

fun sb_spec_all :: "nat \<Rightarrow> (bool \<times> sb_edit) list \<Rightarrow> u8 list \<Rightarrow> u8 list" where
  "sb_spec_all c [] t = t"
| "sb_spec_all c ((ok, e) # es) t = sb_spec_all c es (if ok \<or> is_remove e then sb_spec c e t else t)"

fun sb_legal :: "nat \<Rightarrow> (allocator \<times> sb_edit) list \<Rightarrow> bool" where
  "sb_legal c [] \<longleftrightarrow> True"
| "sb_legal c ((al, e) # es) \<longleftrightarrow>
     bounded_alloc al \<and> (is_remove e \<longrightarrow> can_alloc al (c * 32)) \<and> sb_wf c e \<and> sb_legal c es"

lemma sb_run_all_edits:
  "holds c b t \<Longrightarrow> sb_legal c es \<Longrightarrow> length t + sum_list (map (length \<circ> sb_arg \<circ> snd) es) + 4097 * c < 2 ^ 64 \<Longrightarrow>
    \<exists>oks b'. sb_run_all c b es = Some (oks, b') \<and> length oks = length es \<and> holds c b' (sb_spec_all c (zip oks (map snd es)) t)"
proof (induction es arbitrary: b t)
  case (Cons p es)
  obtain al e where p: "p = (al, e)" by (cases p)
  have "length t + length (sb_arg e) + 4097 * c < 2 ^ 64"
    using Cons.prems(3) p by simp
  then obtain ok b1 where b1: "sb_run c al b e = Some (ok, b1)" "holds c b1 (if ok \<or> is_remove e then sb_spec c e t else t)"
    using sb_run_edits [OF Cons.prems(1), of al e] Cons.prems(2) p by auto
  have "length (if ok \<or> is_remove e then sb_spec c e t else t) \<le> length t + length (sb_arg e)"
    using sb_spec_length [of c e t] by simp
  then have "length (if ok \<or> is_remove e then sb_spec c e t else t) + sum_list (map (length \<circ> sb_arg \<circ> snd) es) + 4097 * c < 2 ^ 64"
    using Cons.prems(3) p by (simp add: o_def cong: if_cong split del: if_split)
  from Cons.IH [OF b1(2) _ this] Cons.prems(2) p obtain oks b2 where
    "sb_run_all c b1 es = Some (oks, b2)" "length oks = length es"
    "holds c b2 (sb_spec_all c (zip oks (map snd es)) (if ok \<or> is_remove e then sb_spec c e t else t))"
    by auto
  then show ?case
    using b1 p by (intro exI [of _ "ok # oks"] exI [of _ b2]) simp
qed simp

section \<open>Properties\<close>

text \<open>
  C9. Any sequence of appends, insertions and removals on a string buffer of bytes or of wider
  characters, that is not read-only, stays inside the buffer, keeps it terminated and does to the text what the calls
  say, for every outcome of the allocations the appends and insertions make: the ones that fail
  leave the text as it was. A removal removes its part whatever it returns. Assumed are that
  each removal finds memory for a buffer of 32 characters (without it, a removal of the whole
  text leaves the buffer without memory and the next write goes through a null pointer),
  allocators that cannot serve more than half of the address space, and characters that fit the
  address space.
\<close>

theorem strbuf_edits_refine_text:
  assumes "holds c b t" and "sb_legal c es"
    and "length t + sum_list (map (length \<circ> sb_arg \<circ> snd) es) + 4097 * c < 2 ^ 64"
  shows "\<exists>oks b'. sb_run_all c b es = Some (oks, b') \<and> length oks = length es \<and>
    sb_ok c b' \<and> sb_text c b' = sb_spec_all c (zip oks (map snd es)) t"
  using sb_run_all_edits [OF assms] by (auto simp: holds_def)

definition some_memory :: allocator where
  "some_memory = \<lparr>can_alloc = (\<lambda>n. n < 1000), junk = (\<lambda>_. 7)\<rparr>"

definition abc :: strbuf where
  "abc = \<lparr>sb_buf = [97, 98, 99, 0], sb_len = 3, sb_size = 4, sb_step = 32, sb_ro = False\<rparr>"

definition some_edits :: "(allocator \<times> sb_edit) list" where
  "some_edits = [(some_memory, SInsert [120, 121] 1), (some_memory, SRemove 0 2)]"

theorem strbuf_edits_refine_text_witness:
  "holds 1 abc [97, 98, 99] \<and> sb_legal 1 some_edits \<and>
   (\<exists>oks b'. sb_run_all 1 abc some_edits = Some (oks, b') \<and> length oks = length some_edits \<and> sb_ok 1 b' \<and>
      sb_text 1 b' = sb_spec_all 1 (zip oks (map snd some_edits)) [97, 98, 99])"
proof -
  have h: "holds 1 abc [97, 98, 99]" "sb_legal 1 some_edits"
    "length [97, 98, 99 :: u8] + sum_list (map (length \<circ> sb_arg \<circ> snd) some_edits) + 4097 * 1 < 2 ^ 64"
    by (simp_all add: holds_def sb_ok_def sb_room_def sb_text_def abc_def bounded_alloc_def some_memory_def some_edits_def)
  then show ?thesis
    using strbuf_edits_refine_text [OF h] by blast
qed

text \<open>
  Read-only strings are copied before a change, but with the sizes of bytes: a buffer of
  four-byte characters loses all but the first quarter of its text with the first append. A
  string that is taken out of a read-only buffer has no terminator, an append of nothing
  writes to the read-only string, and \<open>eina_strbuf_string_free\<close> releases it.
\<close>

theorem strbuf_read_only_flaws:
  "map_option (\<lambda>(ok, b). (ok, sb_text 4 b))
     (eina_strbuf_common_append_char 4 some_memory
       \<lparr>sb_buf = [97, 0, 0, 0, 98, 0, 0, 0, 0, 0, 0, 0], sb_len = 2, sb_size = 3, sb_step = 32, sb_ro = True\<rparr> [99, 0, 0, 0]) =
   Some (True, [97, 0, 7, 7, 7, 7, 7, 7, 99, 0, 0, 0]) \<and>
   map_option fst (eina_strbuf_common_string_steal 1 some_memory (abc\<lparr>sb_ro := True\<rparr>)) = Some (Some [97, 98, 99, 7]) \<and>
   eina_strbuf_common_append 1 some_memory (abc\<lparr>sb_ro := True\<rparr>) [0] 0 = None \<and>
   eina_strbuf_common_string_free 1 some_memory (abc\<lparr>sb_ro := True\<rparr>) = None"
proof (intro conjI)
  note d = size_t_def new_size_def new_step_def EINA_STRBUF_INIT_STEP_def EINA_STRBUF_INIT_SIZE_def EINA_STRBUF_MAX_STEP_def
    strbuf_grow_def strbuf_resize_def some_memory_def realloc_def mem_read_def mem_write_def sb_write_def Let_def
  show "map_option (\<lambda>(ok, b). (ok, sb_text 4 b))
     (eina_strbuf_common_append_char 4 some_memory
       \<lparr>sb_buf = [97, 0, 0, 0, 98, 0, 0, 0, 0, 0, 0, 0], sb_len = 2, sb_size = 3, sb_step = 32, sb_ro = True\<rparr> [99, 0, 0, 0]) =
   Some (True, [97, 0, 7, 7, 7, 7, 7, 7, 99, 0, 0, 0])"
    by (simp add: eina_strbuf_common_append_char_def sb_text_def d map_replicate_const) (simp add: numeral_eq_Suc)
  show "map_option fst (eina_strbuf_common_string_steal 1 some_memory (abc\<lparr>sb_ro := True\<rparr>)) = Some (Some [97, 98, 99, 7])"
    by (simp add: eina_strbuf_common_string_steal_def own_copy_def malloc_def abc_def d map_replicate_const)
qed (simp_all add: eina_strbuf_common_append_def eina_strbuf_common_string_free_def strbuf_grow_def strbuf_resize_def size_t_def
    abc_def sb_write_def mem_read_def)

text \<open>
  The room that is asked for is added to the length without a check: near the end of the
  address space the sum wraps, \<open>eina_strbuf_expand\<close> then answers with less than it was asked
  for and \<open>eina_strbuf_use\<close> accepts more than there is.
\<close>

theorem strbuf_expand_use_wrap:
  "eina_strbuf_common_expand 1 some_memory abc (2 ^ 64 - 1) = Some ((Some 3, 0), abc) \<and>
   eina_strbuf_common_use abc (2 ^ 64 - 1) = (True, abc\<lparr>sb_len := 2\<rparr>)"
  by (simp add: eina_strbuf_common_expand_def eina_strbuf_common_use_def abc_def size_t_def)

end
