(* ===== verification/Eina_Strbuf_Replace.thy ===== *)
theory Eina_Strbuf_Replace
  imports Eina_Strbuf_Props
begin

text \<open>
  Replacement of all matches: what the two loops of \<open>eina_strbuf_replace_all\<close> leave in the
  buffer, against replacement in a plain text.
\<close>

section \<open>Matches\<close>

lemma find_sub_Some: "find_sub p t = Some k \<Longrightarrow> k + length p \<le> length t \<and> take (length p) (drop k t) = p"
proof (induction t arbitrary: k)
  case (Cons x xs)
  show ?case
  proof (cases "take (length p) (x # xs) = p")
    case True
    moreover from this have "length p \<le> length (x # xs)"
      by (metis length_take min.cobounded1)
    ultimately show ?thesis using Cons.prems by simp
  next
    case False
    then show ?thesis using Cons by auto
  qed
qed (simp split: if_splits)

lemma find_sub_split:
  assumes "find_sub p t = Some k"
  shows "t = take k t @ p @ drop (k + length p) t" and "length (take k t) = k" and "k + length p \<le> length t"
proof -
  note f = find_sub_Some [OF assms]
  show "length (take k t) = k" "k + length p \<le> length t" using f by simp_all
  have "t = take k t @ take (length p) (drop k t) @ drop (length p) (drop k t)"
    by (metis append_take_drop_id)
  then show "t = take k t @ p @ drop (k + length p) t"
    using f by (simp add: add.commute)
qed

lemma find_sub_shorter: "find_sub p t = Some k \<Longrightarrow> p \<noteq> [] \<Longrightarrow> length t - (k + length p) < length t"
  by (cases p) (auto dest!: find_sub_Some)

lemma c_string_at: "0 \<notin> set t \<Longrightarrow> c_string (A @ t @ 0 # R) (length A) = Some t"
proof -
  assume "0 \<notin> set t"
  then have "takeWhile (\<lambda>x. x \<noteq> 0) (t @ 0 # R) = t"
    by (subst takeWhile_append2) auto
  then show ?thesis by (simp add: c_string_def)
qed

text \<open>The text with every match replaced, from left to right, and their number.\<close>

function replaced :: "u8 list \<Rightarrow> u8 list \<Rightarrow> u8 list \<Rightarrow> u8 list" where
  "replaced str w t =
     (case find_sub str t of
        None \<Rightarrow> t
      | Some k \<Rightarrow> if str = [] then t else take k t @ w @ replaced str w (drop (k + length str) t))"
  by pat_completeness auto
termination
  by (relation "measure (\<lambda>(str, w, t). length t)") (auto simp: find_sub_shorter)

function matches :: "u8 list \<Rightarrow> u8 list \<Rightarrow> nat" where
  "matches str t =
     (case find_sub str t of
        None \<Rightarrow> 0
      | Some k \<Rightarrow> if str = [] then 0 else Suc (matches str (drop (k + length str) t)))"
  by pat_completeness auto
termination
  by (relation "measure (\<lambda>(str, t). length t)") (auto simp: find_sub_shorter)

declare replaced.simps [simp del] matches.simps [simp del]

lemma length_replaced_same: "length str = length w \<Longrightarrow> length (replaced str w t) = length t"
proof (induction str w t rule: replaced.induct)
  case (1 str w t)
  show ?case
  proof (cases "find_sub str t")
    case (Some k)
    then show ?thesis
      using "1.IH" [OF Some] "1.prems" find_sub_split [OF Some] by (simp add: replaced.simps [of str w t])
  qed (simp add: replaced.simps)
qed

lemma replace_same_ok:
  assumes "str \<noteq> []" "length w = length str"
  shows "0 \<notin> set t \<Longrightarrow> 0 \<notin> set w \<Longrightarrow> n + matches str t \<le> INT_MAX \<Longrightarrow>
    replace_same (A @ t @ 0 # R) (map_option ((+) (length A)) (find_sub str t)) str w n = Some (A @ replaced str w t @ 0 # R, n + matches str t)"
proof (induction "length t" arbitrary: t A n rule: less_induct)
  case less
  show ?case
  proof (cases "find_sub str t")
    case None
    then show ?thesis
      by (subst replace_same.simps) (simp add: replaced.simps matches.simps)
  next
    case (Some k)
    let ?t = "drop (k + length str) t" and ?A = "A @ take k t @ w"
    note s = find_sub_split [OF Some]
    have w: "mem_write (A @ t @ 0 # R) (length A + k) w = Some (?A @ ?t @ 0 # R)"
      using s mem_write_mid [of "A @ take k t" "length A + k" str w "?t @ 0 # R"] assms(2) by (metis append.assoc length_append)
    have z: "0 \<notin> set ?t"
      using less.prems(1) by (auto dest: in_set_dropD)
    have "length A + k + length w = length ?A"
      using s(2) by simp
    then have st: "strstr (?A @ ?t @ 0 # R) (length A + k + length w) str = Some (map_option ((+) (length ?A)) (find_sub str ?t))"
      using c_string_at [OF z, of ?A R] unfolding strstr_def by (simp add: add.assoc)
    have lt: "length ?t < length t"
      using find_sub_shorter [OF Some assms(1)] by simp
    have c: "n + 1 + matches str ?t \<le> INT_MAX"
      using less.prems(3) Some assms(1) by (simp add: matches.simps [of str t])
    from less.hyps [OF lt z less.prems(2) c, of ?A] show ?thesis
      using w st c Some assms(1) by (subst replace_same.simps) (simp add: replaced.simps [of str w t] matches.simps [of str t] add.assoc)
  qed
qed

lemma matches_le: "str \<noteq> [] \<Longrightarrow> matches str t \<le> length t"
proof (induction str t rule: matches.induct)
  case (1 str t)
  show ?case
  proof (cases "find_sub str t")
    case (Some k)
    then show ?thesis
      using "1.IH" [OF Some] "1.prems" find_sub_shorter [OF Some] by (simp add: matches.simps [of str t])
  qed (simp add: matches.simps)
qed

text \<open>
  The copying loop. \<open>D\<close> has been written, \<open>t\<close> is left to be copied from behind \<open>T\<close>.
\<close>

definition copying :: "strbuf \<Rightarrow> u8 list \<Rightarrow> u8 list \<Rightarrow> bool" where
  "copying b D t \<longleftrightarrow> sb_room 1 b \<and> take (length D) (sb_buf b) = D \<and> length D + length t < sb_size b"

lemma grow_succeeds:
  assumes "sb_room 1 b" "bounded_alloc al" "\<forall>k < 2 ^ 63. can_alloc al k" "sz + 4097 < 2 ^ 63"
  obtains b' where "strbuf_grow 1 al b sz = Some (True, b')" "resized 1 b b' sz"
proof -
  have f: "fits 1 sz" using assms(4) by (simp add: fits_def)
  show thesis
    by (rule strbuf_grow_ok [OF assms(1,2) f]) (use assms(3,4) that in auto)
qed

lemma copying_step:
  assumes "copying b D t" "find_sub str t = Some k" "str \<noteq> []" "bounded_alloc al" "\<forall>k < 2 ^ 63. can_alloc al k"
    "length D + length t + length w + 4097 < 2 ^ 63"
  obtains b' m1 m2 where "strbuf_grow 1 al b (size_t (length D + length t + length w - length str)) = Some (True, b')"
    "mem_write (sb_buf b') (length D) (take k t) = Some m1" "mem_write m1 (length D + k) w = Some m2"
    "copying (b'\<lparr>sb_buf := m2\<rparr>) (D @ take k t @ w) (drop (k + length str) t)"
proof -
  note s = find_sub_split [OF assms(2)]
  let ?sz = "length D + length t + length w - length str"
  have sz: "size_t ?sz = ?sz" using assms(6) by (intro size_t_small) simp
  have room: "sb_room 1 b" using assms(1) by (simp add: copying_def)
  have "?sz + 4097 < 2 ^ 63" using assms(6) by linarith
  then obtain b' where b': "strbuf_grow 1 al b ?sz = Some (True, b')" "resized 1 b b' ?sz"
    by (rule grow_succeeds [OF room assms(4,5)])
  have lb: "length (sb_buf b) = sb_size b" "length (sb_buf b') = sb_size b'" "?sz < sb_size b'" "sb_room 1 b'"
    using room b'(2) by (simp_all add: resized_def sb_room_def)
  have "length D \<le> Suc ?sz * 1" "length D \<le> length (sb_buf b)"
    using s(3) assms(1) lb(1) by (auto simp: copying_def)
  then have D: "take (length D) (sb_buf b') = D"
    using b'(2) assms(1) unfolding resized_def copying_def by auto
  define X where "X = drop (length D) (sb_buf b')"
  have m: "sb_buf b' = D @ X" using D unfolding X_def by (metis append_take_drop_id)
  have lX: "k + length w \<le> length X"
    using lb(2,3) s(3) unfolding X_def by simp
  define Y Z R where "Y = take k X" and "Z = take (length w) (drop k X)" and "R = drop (length w) (drop k X)"
  have X: "X = Y @ Z @ R" "length Y = k" "length Z = length w"
    using lX unfolding Y_def Z_def R_def by (simp_all only: append_take_drop_id) simp_all
  have w1: "mem_write (sb_buf b') (length D) (take k t) = Some (D @ take k t @ Z @ R)"
    unfolding m X(1) using X(2) s(2) by (intro mem_write_mid) simp_all
  have w2: "mem_write (D @ take k t @ Z @ R) (length D + k) w = Some ((D @ take k t @ w) @ R)"
    using mem_write_mid [of "D @ take k t" "length D + k" Z w R] s(2) X(3) by simp
  have "length ((D @ take k t @ w) @ R) = length (sb_buf b')"
    unfolding m X(1) using X(2,3) s(2) by simp
  then have "copying (b'\<lparr>sb_buf := (D @ take k t @ w) @ R\<rparr>) (D @ take k t @ w) (drop (k + length str) t)"
    using lb s(2,3) by (simp add: copying_def sb_room_def)
  then show thesis using that b'(1) w1 w2 sz by simp
qed

lemma replace_copy_ok:
  assumes "str \<noteq> []" "bounded_alloc al" "\<forall>k < 2 ^ 63. can_alloc al k"
  shows "0 \<notin> set t \<Longrightarrow> copying b D t \<Longrightarrow> length D + length t + Suc (length t) * length w + 4097 < 2 ^ 63 \<Longrightarrow> n + matches str t \<le> INT_MAX \<Longrightarrow>
    \<exists>b' D' T' t'. replace_copy al b (T @ t @ 0 # R) (map_option ((+) (length T)) (find_sub str t)) str w (length D) (length T) (length D + length t) n =
        Some (b', length D', length T', length D' + length t', n + matches str t) \<and> copying b' D' t' \<and>
      T' @ t' = T @ t \<and> D' @ t' = D @ replaced str w t"
proof (induction "length t" arbitrary: t b D T n rule: less_induct)
  case less
  show ?case
  proof (cases "find_sub str t")
    case None
    then show ?thesis
      using less.prems(2) by (subst replace_copy.simps) (auto simp: replaced.simps matches.simps)
  next
    case (Some k)
    let ?t = "drop (k + length str) t" and ?D = "D @ take k t @ w" and ?T = "T @ take k t @ str"
    note s = find_sub_split [OF Some]
    have z: "0 \<notin> set ?t" using less.prems(1) by (auto dest: in_set_dropD)
    have e: "T @ t @ 0 # R = ?T @ ?t @ 0 # R" using s(1) by (metis append.assoc)
    obtain b' m1 m2 where g: "strbuf_grow 1 al b (size_t (length D + length t + length w - length str)) = Some (True, b')"
        "mem_write (sb_buf b') (length D) (take k t) = Some m1" "mem_write m1 (length D + k) w = Some m2"
        "copying (b'\<lparr>sb_buf := m2\<rparr>) ?D ?t"
      using copying_step [OF less.prems(2) Some assms(1,2,3), of w] less.prems(3) by (auto simp: algebra_simps)
    have rd: "mem_read (T @ t @ 0 # R) (length T) k = Some (take k t)"
      using s(3) by (simp add: mem_read_def)
    have st: "strstr (T @ t @ 0 # R) (length T + k + length str) str = Some (map_option ((+) (length ?T)) (find_sub str ?t))"
      using c_string_at [OF z, of ?T R] s(2) unfolding strstr_def e by (simp add: add.assoc)
    have l: "length ?D = length D + k + length w" "length ?T = length T + k + length str"
      "length ?D + length ?t = length D + length t + length w - length str"
      using s(2,3) by simp_all
    have l4: "length D + (length t + length w) - length str = length D + (k + (length w + (length t - (k + length str))))"
      using s(3) by simp
    have lt: "length ?t < length t"
      using find_sub_shorter [OF Some assms(1)] by simp
    have "Suc (length ?t) * length w \<le> length t * length w"
      using lt by (intro mult_le_mono1) simp
    then have sm: "length ?D + length ?t + Suc (length ?t) * length w + 4097 < 2 ^ 63"
      using less.prems(3) l s(3) by simp
    have c: "n + 1 + matches str ?t \<le> INT_MAX"
      using less.prems(4) Some assms(1) by (simp add: matches.simps [of str t])
    obtain b2 D' T' t' where
      "replace_copy al (b'\<lparr>sb_buf := m2\<rparr>) (?T @ ?t @ 0 # R) (map_option ((+) (length ?T)) (find_sub str ?t)) str w
          (length ?D) (length ?T) (length ?D + length ?t) (n + 1) =
        Some (b2, length D', length T', length D' + length t', n + 1 + matches str ?t)" "copying b2 D' t'"
      "T' @ t' = ?T @ ?t" "D' @ t' = ?D @ replaced str w ?t"
      using less.hyps [OF lt z g(4) sm c, of ?T] by blast
    note r = this
    have "T' @ t' = T @ t" using r(3) s(1) by (metis append.assoc)
    moreover have "D' @ t' = D @ replaced str w t"
      using r(4) Some assms(1) by (simp add: replaced.simps [of str w t])
    moreover have "replace_copy al b (T @ t @ 0 # R) (map_option ((+) (length T)) (find_sub str t)) str w (length D) (length T) (length D + length t) n =
        Some (b2, length D', length T', length D' + length t', n + matches str t)"
      using r(1) g(1,2,3) rd st Some assms(1) c unfolding e [symmetric] l
      by (subst replace_copy.simps) (simp add: matches.simps [of str t] add.assoc l4)
    ultimately show ?thesis using r(2) by blast
  qed
qed

section \<open>Properties\<close>

lemma strstr_start: "0 \<notin> set t \<Longrightarrow> strstr (t @ 0 # R) 0 str = Some (find_sub str t)"
  using c_string_at [of t "[]" R] by (cases "find_sub str t") (simp_all add: strstr_def)

lemma copying_done:
  assumes "copying b D t"
  obtains m where "mem_write (sb_buf b) (length D) t = Some m" "mem_write m (length D + length t) [0] =
    Some (D @ t @ 0 # drop (Suc (length D + length t)) (sb_buf b))"
proof -
  note c = assms [unfolded copying_def sb_room_def]
  define X where "X = drop (length D) (sb_buf b)"
  have m: "sb_buf b = D @ X" using c unfolding X_def by (metis append_take_drop_id)
  have lX: "length t < length X" using c unfolding X_def by (simp add: less_diff_conv add.commute)
  define Y z R where "Y = take (length t) X" and "z = X ! length t" and "R = drop (Suc (length t)) X"
  have X: "X = Y @ z # R" "length Y = length t"
    using lX unfolding Y_def z_def R_def by (simp_all add: id_take_nth_drop)
  have "mem_write (sb_buf b) (length D) t = Some (D @ t @ z # R)"
    unfolding m X(1) using X(2) by (intro mem_write_mid) simp_all
  moreover have "mem_write (D @ t @ z # R) (length D + length t) [0] = Some (D @ t @ 0 # R)"
    using mem_write_mid [of "D @ t" "length D + length t" "[z]" "[0]" R] by simp
  moreover have "R = drop (Suc (length D + length t)) (sb_buf b)"
    unfolding m R_def by simp
  ultimately show thesis using that by simp
qed

text \<open>
  C32. With enough memory \<open>eina_strbuf_replace_all\<close> replaces every match, from left to right and
  without overlaps, whatever the lengths of the two strings are, returns their number and
  keeps the buffer terminated; the string to look for must not be empty, and there must be
  fewer than \<open>2^31\<close> matches, since they are counted in an \<open>int\<close>.
\<close>

theorem replace_all_replaces:
  assumes "holds 1 b t" "0 \<notin> set t" "0 \<notin> set w" "str \<noteq> []" "bounded_alloc al" "\<forall>k < 2 ^ 63. can_alloc al k"
    and "length t + Suc (length t) * length w + 4097 < 2 ^ 63" and "matches str t < 2 ^ 31"
  shows "\<exists>b'. eina_strbuf_replace_all al b str w = Some (matches str t, b') \<and> sb_ok 1 b' \<and> sb_text 1 b' = replaced str w t"
proof -
  obtain R where m: "sb_buf b = t @ 0 # R"
    using holds_split [OF assms(1)] by (metis append_Cons append_Nil replicate_0 replicate_Suc One_nat_def)
  have room: "sb_room 1 b" "\<not> sb_ro b" "sb_len b < sb_size b" and len: "sb_len b = length t"
    using assms(1) holds_length [OF assms(1)] by (simp_all add: holds_def sb_ok_def sb_room_def)
  have cnt: "0 + matches str t \<le> INT_MAX" using assms(8) by (simp add: INT_MAX_def)
  have own: "own_copy al b = Some (Some b)" using room(2) by (simp add: own_copy_def)
  have st: "strstr (sb_buf b) 0 str = Some (find_sub str t)" unfolding m by (rule strstr_start [OF assms(2)])
  have ok: "sb_ok 1 b' \<and> sb_text 1 b' = t'" if "holds 1 b' t'" for b' t'
    using that by (simp add: holds_def)
  show ?thesis
  proof (cases "find_sub str t")
    case None
    then show ?thesis
      using st ok [OF assms(1)] by (simp add: eina_strbuf_replace_all_def matches.simps replaced.simps)
  next
    case (Some k)
    note s = find_sub_split [OF Some]
    have kt: "k < length t" using s(3) assms(4) by (cases str) auto
    then have nz: "sb_buf b ! k \<noteq> 0"
      using assms(2) unfolding m by (metis nth_append nth_mem)
    show ?thesis
    proof (cases "length str = length w")
      case True
      have r: "replace_same (sb_buf b) (Some k) str w 0 = Some (replaced str w t @ 0 # R, matches str t)"
        using replace_same_ok [OF assms(4) True [symmetric] assms(2,3) cnt, of "[]" R] Some unfolding m by simp
      let ?b = "b\<lparr>sb_buf := replaced str w t @ 0 # R\<rparr>"
      have "length (replaced str w t) = length t"
        by (rule length_replaced_same [OF True])
      then have "holds 1 ?b (replaced str w t)"
        using room len m by (intro holdsI [of 1 b _ _ R]) simp_all
      moreover have "eina_strbuf_replace_all al b str w = Some (matches str t, ?b)"
        using st Some nz own True r room(2) by (simp add: eina_strbuf_replace_all_def)
      ultimately show ?thesis using ok by blast
    next
      case False
      have sz: "0 < sb_size b" "sb_size b < 2 ^ 63" "length (sb_buf b) = sb_size b"
        using room sb_room_size [OF room(1)] by (simp_all add: sb_room_def)
      let ?new = "map (junk al) [0..<sb_size b]"
      have ml: "malloc al (sb_size b) = Some ?new"
        using sz assms(6) by (simp add: malloc_def realloc_def)
      have "copying (b\<lparr>sb_buf := ?new\<rparr>) [] t"
        using room len sz by (simp add: copying_def sb_room_def)
      from replace_copy_ok [OF assms(4,5,6) assms(2) this _ cnt, of w "[]" R] assms(7)
      obtain b' D' T' t' where r: "replace_copy al (b\<lparr>sb_buf := ?new\<rparr>) (sb_buf b) (Some k) str w 0 0 (sb_len b) 0 =
          Some (b', length D', length T', length D' + length t', matches str t)" "copying b' D' t'" "T' @ t' = t"
          "D' @ t' = replaced str w t"
        using Some len m by auto
      obtain m1 where c: "mem_write (sb_buf b') (length D') t' = Some m1"
          "mem_write m1 (length D' + length t') [0] = Some (D' @ t' @ 0 # drop (Suc (length D' + length t')) (sb_buf b'))"
        by (rule copying_done [OF r(2)])
      have rd: "mem_read (sb_buf b) (length T') (length t') = Some t'"
        unfolding m r(3) [symmetric] by (simp add: mem_read_def)
      let ?b = "b'\<lparr>sb_buf := D' @ t' @ 0 # drop (Suc (length D' + length t')) (sb_buf b'), sb_len := length D' + length t'\<rparr>"
      have "eina_strbuf_replace_all al b str w = Some (matches str t, ?b)"
        using st Some nz own False ml r(1) c rd room(2) by (simp add: eina_strbuf_replace_all_def)
      moreover have "holds 1 ?b (D' @ t')"
        using r(2) by (intro holdsI [of 1 b' _ _ "drop (Suc (length D' + length t')) (sb_buf b')"]) (auto simp: copying_def sb_room_def)
      ultimately show ?thesis using ok r(4) by metis
    qed
  qed
qed

definition all_memory :: allocator where
  "all_memory = \<lparr>can_alloc = (\<lambda>n. n < 2 ^ 63), junk = (\<lambda>_. 7)\<rparr>"

theorem replace_all_replaces_witness:
  "holds 1 abc [97, 98, 99] \<and> bounded_alloc all_memory \<and>
   (\<exists>b'. eina_strbuf_replace_all all_memory abc [98] [120, 121] = Some (1, b') \<and> sb_ok 1 b' \<and> sb_text 1 b' = [97, 120, 121, 99])"
proof -
  have h: "holds 1 abc [97, 98, 99]" "bounded_alloc all_memory" "\<forall>k < 2 ^ 63. can_alloc all_memory k"
    by (simp_all add: holds_def sb_ok_def sb_room_def sb_text_def abc_def bounded_alloc_def all_memory_def)
  have "\<exists>b'. eina_strbuf_replace_all all_memory abc [98] [120, 121] = Some (matches [98] [97, 98, 99], b') \<and> sb_ok 1 b' \<and>
      sb_text 1 b' = replaced [98] [120, 121] [97, 98, 99]"
    by (rule replace_all_replaces [OF h(1) _ _ _ h(2,3)]) (simp_all add: matches.simps)
  then show ?thesis
    using h(1,2) by (simp add: matches.simps replaced.simps)
qed

text \<open>Two empty strings are replaced by each other for ever.\<close>

lemma replace_same_empty_diverges: "replace_same m (Some p) [] [] n \<noteq> Some r"
proof -
  have e: "find_sub [] s = Some 0" for s
    by (cases s) simp_all
  have "spos = Some p \<longrightarrow> str = [] \<longrightarrow> w = [] \<longrightarrow> False" if "replace_same m spos str w n = Some r" for spos str w
    by (rule replace_same.raw_induct [of "\<lambda>m spos str w n r. spos = Some p \<longrightarrow> str = [] \<longrightarrow> w = [] \<longrightarrow> False", OF _ that])
       (auto simp: mem_write_def strstr_def e split: if_splits Option.bind_splits, blast)
  then show ?thesis by blast
qed

lemma replace_all_empty_diverges: "eina_strbuf_replace_all al abc [] [] = None"
  using replace_same_empty_diverges [of "[97, 98, 99, 0]" 0 0]
  by (auto simp: eina_strbuf_replace_all_def abc_def strstr_def c_string_def own_copy_def split: Option.bind_splits)

end
