(* ===== verification/Eina_Crc_Laws.thy ===== *)
theory Eina_Crc_Laws
  imports Eina_Crc
begin

text \<open>
  The tables hold the remainders they should, and the checksum with tables is the checksum
  bit by bit.
\<close>

unbundle bit_operations_syntax

section \<open>Division bit by bit\<close>

definition POLYNOMIAL :: u32 where
  "POLYNOMIAL = 0xEDB88320"

definition crc_bit :: "u32 \<Rightarrow> u32" where
  "crc_bit c = drop_bit 1 c XOR (if bit c 0 then POLYNOMIAL else 0)"

definition crc_byte :: "u32 \<Rightarrow> u8 \<Rightarrow> u32" where
  "crc_byte c x = (crc_bit ^^ 8) (c XOR ucast x)"

section \<open>Linear functions\<close>

text \<open>What a linear function has for a number whose bits below \<open>length vs\<close> select from \<open>vs\<close>.\<close>

fun lin :: "u32 list \<Rightarrow> u32 \<Rightarrow> u32" where
  "lin [] x = 0"
| "lin (v # vs) x = (if bit x (length vs) then v else 0) XOR lin vs x"

fun table_of :: "u32 list \<Rightarrow> u32 list" where
  "table_of [] = [0]"
| "table_of (v # vs) = (let r = table_of vs in r @ map ((XOR) v) r)"

lemma length_table_of [simp]: "length (table_of vs) = 2 ^ length vs"
  by (induction vs) (simp_all add: Let_def)

lemma lin_take_bit: "length vs \<le> n \<Longrightarrow> lin vs (take_bit n x) = lin vs x"
  by (induction vs) (auto simp: bit_take_bit_iff)

lemma table_of_lin: "unat x < 2 ^ length vs \<Longrightarrow> table_of vs ! unat x = lin vs x"
proof (induction vs arbitrary: x)
  case (Cons v vs)
  let ?n = "length vs"
  show ?case
  proof (cases "unat x < 2 ^ ?n")
    case True
    then have "\<not> bit (unat x) ?n" by (simp add: bit_iff_odd)
    then have "\<not> bit x ?n" by (simp add: bit_unsigned_iff)
    then show ?thesis
      using True Cons.IH [of x] by (simp add: Let_def nth_append)
  next
    case False
    then have d: "unat x div 2 ^ ?n = 1"
      using Cons.prems by (intro div_nat_eqI) simp_all
    then have "bit (unat x) ?n" by (simp add: bit_iff_odd)
    then have b: "bit x ?n" by (simp add: bit_unsigned_iff)
    have m: "unat (take_bit ?n x) = unat x - 2 ^ ?n"
      unfolding unsigned_take_bit_eq unfolding take_bit_eq_mod
      using d div_mult_mod_eq [of "unat x" "2 ^ ?n"] by simp
    moreover have "unat (take_bit ?n x) < 2 ^ ?n"
      by (simp add: unsigned_take_bit_eq take_bit_nat_less_exp)
    ultimately have "table_of vs ! (unat x - 2 ^ ?n) = lin vs x"
      using Cons.IH [of "take_bit ?n x"] by (simp add: lin_take_bit)
    then show ?thesis
      using False Cons.prems b by (simp add: Let_def nth_append)
  qed
qed simp

lemma linear_lin:
  assumes "\<And>x y. f (x XOR y) = f x XOR f y" and "unat x < 2 ^ n"
  shows "f x = lin (map (\<lambda>j. f (2 ^ j)) (rev [0..<n])) x"
  using assms(2)
proof (induction n arbitrary: x)
  case 0
  have "f 0 = 0"
    using assms(1) [of 0 0] by simp
  then show ?case using 0 by (simp add: unat_eq_zero)
next
  case (Suc n)
  show ?case
  proof (cases "bit x n")
    case True
    have "take_bit (Suc n) x = x"
      using Suc.prems by (simp add: word_unat_eq_iff unsigned_take_bit_eq take_bit_nat_eq_self)
    then have "x = 2 ^ n XOR take_bit n x"
      using True by (simp add: bit_eq_iff) (auto simp: bit_simps less_Suc_eq)
    then have "f x = f (2 ^ n) XOR f (take_bit n x)"
      using assms(1) by metis
    moreover have "unat (take_bit n x) < 2 ^ n"
      by (simp add: unsigned_take_bit_eq take_bit_nat_less_exp)
    ultimately show ?thesis
      using True Suc.IH [of "take_bit n x"] by (simp add: lin_take_bit)
  next
    case False
    then have "\<not> bit (unat x) n" by (auto simp: bit_unsigned_iff dest: bit_imp_le_length)
    then have "even (unat x div 2 ^ n)" by (simp add: bit_iff_odd)
    moreover have "unat x div 2 ^ n < 2"
      using Suc.prems by (simp add: div_less_iff_less_mult)
    ultimately have "unat x div 2 ^ n = 0" by (metis One_nat_def less_2_cases odd_one)
    then have "unat x < 2 ^ n" by (simp add: div_eq_0_iff)
    then show ?thesis using False Suc.IH [of x] by simp
  qed
qed

lemma crc_bit_xor: "crc_bit (x XOR y) = crc_bit x XOR crc_bit y"
  by (rule bit_word_eqI) (auto simp: crc_bit_def bit_simps)

lemma crc_bits_xor: "(crc_bit ^^ n) (x XOR y) = (crc_bit ^^ n) x XOR (crc_bit ^^ n) y"
  by (induction n) (simp_all add: crc_bit_xor)

lemma crc_bits_shift: "take_bit n x = 0 \<Longrightarrow> (crc_bit ^^ n) x = drop_bit n x"
proof (induction n arbitrary: x)
  case (Suc n)
  have z: "\<not> bit x i" if "i < Suc n" for i
    using Suc.prems that by (metis bit_0_eq bit_take_bit_iff bot_apply bot_bool_def)
  have "crc_bit x = drop_bit 1 x"
    using z [of 0] by (simp add: crc_bit_def)
  moreover have "take_bit n (drop_bit 1 x) = 0"
    using z by (intro bit_word_eqI) (auto simp: bit_simps)
  ultimately show ?case
    using Suc.IH [of "drop_bit 1 x"] by (simp add: funpow_Suc_right drop_bit_drop_bit del: funpow.simps)
qed simp

section \<open>The tables\<close>

lemma crc_row0_table: "crc_row0 = table_of [0xEDB88320, 0x76DC4190, 0x3B6E20C8, 0x1DB71064, 0x0EDB8832, 0x076DC419, 0xEE0E612C, 0x77073096]"
  by (simp add: crc_row0_def Let_def)

lemma crc_row1_table: "crc_row1 = table_of [0x3B83984B, 0xF0794F05, 0x958424A2, 0x4AC21251, 0xC8D98A08, 0x646CC504, 0x32366282, 0x191B3141]"
  by (simp add: crc_row1_def Let_def)

lemma crc_row2_table: "crc_row2 = table_of [0xE1351B80, 0x709A8DC0, 0x384D46E0, 0x1C26A370, 0x0E1351B8, 0x0709A8DC, 0x0384D46E, 0x01C26A37]"
  by (simp add: crc_row2_def Let_def)

lemma crc_row3_table: "crc_row3 = table_of [0xED59B63B, 0x9B14583D, 0xA032AF3E, 0x5019579F, 0xC5B428EF, 0x8F629757, 0xAA09C88B, 0xB8BC6765]"
  by (simp add: crc_row3_def Let_def)

lemma crc_row4_table: "crc_row4 = table_of [0xB1E6B092, 0x58F35849, 0xC1C12F04, 0x60E09782, 0x30704BC1, 0xF580A6C0, 0x7AC05360, 0x3D6029B0]"
  by (simp add: crc_row4_def Let_def)

lemma crc_row5_table: "crc_row5 = table_of [0x1EB014D8, 0x0F580A6C, 0x07AC0536, 0x03D6029B, 0xEC53826D, 0x9B914216, 0x4DC8A10B, 0xCB5CD3A5]"
  by (simp add: crc_row5_def Let_def)

lemma crc_row6_table: "crc_row6 = table_of [0x8816EAF2, 0x440B7579, 0xCFBD399C, 0x67DE9CCE, 0x33EF4E67, 0xF44F2413, 0x979F1129, 0xA6770BB4]"
  by (simp add: crc_row6_def Let_def)

lemma crc_row7_table: "crc_row7 = table_of [0x533B85DA, 0x299DC2ED, 0xF9766256, 0x7CBB312B, 0xD3E51BB5, 0x844A0EFA, 0x4225077D, 0xCCAA009E]"
  by (simp add: crc_row7_def Let_def)

text \<open>The remainders of the powers of two, eight bits further with every table.\<close>

definition powers :: "nat \<Rightarrow> u32 list" where
  "powers n = map (\<lambda>j. (crc_bit ^^ n) (2 ^ j)) [7, 6, 5, 4, 3, 2, 1, 0]"

lemma powers_step: "powers (n + 8) = map (crc_bit ^^ 8) (powers n)"
  by (simp add: powers_def funpow_add [symmetric] add.commute flip: comp_apply [of "crc_bit ^^ 8" "crc_bit ^^ n"])

lemma powers_0: "powers 0 = [128, 64, 32, 16, 8, 4, 2, 1]"
  by (simp add: powers_def)

lemma crc_bits8: "(crc_bit ^^ 8) x = crc_bit (crc_bit (crc_bit (crc_bit (crc_bit (crc_bit (crc_bit (crc_bit x)))))))"
  by (simp add: eval_nat_numeral)

lemmas crc_eval = crc_bits8 crc_bit_def POLYNOMIAL_def

lemma powers_8: "powers 8 = [0xEDB88320, 0x76DC4190, 0x3B6E20C8, 0x1DB71064, 0x0EDB8832, 0x076DC419, 0xEE0E612C, 0x77073096]"
  using powers_step [of 0] by (simp add: powers_0 crc_eval)

lemma powers_16: "powers 16 = [0x3B83984B, 0xF0794F05, 0x958424A2, 0x4AC21251, 0xC8D98A08, 0x646CC504, 0x32366282, 0x191B3141]"
  using powers_step [of 8] by (simp add: powers_8 crc_eval)

lemma powers_24: "powers 24 = [0xE1351B80, 0x709A8DC0, 0x384D46E0, 0x1C26A370, 0x0E1351B8, 0x0709A8DC, 0x0384D46E, 0x01C26A37]"
  using powers_step [of 16] by (simp add: powers_16 crc_eval)

lemma powers_32: "powers 32 = [0xED59B63B, 0x9B14583D, 0xA032AF3E, 0x5019579F, 0xC5B428EF, 0x8F629757, 0xAA09C88B, 0xB8BC6765]"
  using powers_step [of 24] by (simp add: powers_24 crc_eval)

lemma powers_40: "powers 40 = [0xB1E6B092, 0x58F35849, 0xC1C12F04, 0x60E09782, 0x30704BC1, 0xF580A6C0, 0x7AC05360, 0x3D6029B0]"
  using powers_step [of 32] by (simp add: powers_32 crc_eval)

lemma powers_48: "powers 48 = [0x1EB014D8, 0x0F580A6C, 0x07AC0536, 0x03D6029B, 0xEC53826D, 0x9B914216, 0x4DC8A10B, 0xCB5CD3A5]"
  using powers_step [of 40] by (simp add: powers_40 crc_eval)

lemma powers_56: "powers 56 = [0x8816EAF2, 0x440B7579, 0xCFBD399C, 0x67DE9CCE, 0x33EF4E67, 0xF44F2413, 0x979F1129, 0xA6770BB4]"
  using powers_step [of 48] by (simp add: powers_48 crc_eval)

lemma powers_64: "powers 64 = [0x533B85DA, 0x299DC2ED, 0xF9766256, 0x7CBB312B, 0xD3E51BB5, 0x844A0EFA, 0x4225077D, 0xCCAA009E]"
  using powers_step [of 56] by (simp add: powers_56 crc_eval)

lemma length_powers [simp]: "length (powers n) = 8"
  by (simp add: powers_def)

lemma tab_bits:
  assumes "crc_table ! k = table_of (powers n)" "unat x < 256"
  shows "tab k x = (crc_bit ^^ n) x"
proof -
  have "tab k x = lin (powers n) x"
    using assms table_of_lin [of x "powers n"] by (simp add: tab_def)
  moreover have "rev [0..<8] = [7, 6, 5, 4, 3, 2, 1, 0 :: nat]"
    by (simp add: upt_rec)
  ultimately show ?thesis
    using linear_lin [of "crc_bit ^^ n" x 8, OF crc_bits_xor] assms(2) by (simp add: powers_def)
qed

lemma crc_tables:
  "crc_table ! 0 = table_of (powers 8)" "crc_table ! 1 = table_of (powers 16)" "crc_table ! 2 = table_of (powers 24)"
  "crc_table ! 3 = table_of (powers 32)" "crc_table ! 4 = table_of (powers 40)" "crc_table ! 5 = table_of (powers 48)"
  "crc_table ! 6 = table_of (powers 56)" "crc_table ! 7 = table_of (powers 64)"
  unfolding crc_table_def powers_8 powers_16 powers_24 powers_32 powers_40 powers_48 powers_56 powers_64
    crc_row0_table crc_row1_table crc_row2_table crc_row3_table crc_row4_table crc_row5_table crc_row6_table crc_row7_table
  by (simp_all del: table_of.simps)

lemmas tabs = crc_tables [THEN tab_bits] crc_tables(2) [THEN tab_bits, unfolded One_nat_def]

section \<open>Bytes\<close>

lemma and_FF: "x AND 0xFF = take_bit 8 (x :: u32)"
  by (simp add: take_bit_eq_mask mask_eq_exp_minus_1)

lemma unat_and_FF: "unat (x AND 0xFF :: u32) < 256"
  using take_bit_nat_less_exp [of 8 "unat x"] by (simp add: and_FF unsigned_take_bit_eq)

lemma low_bits: "bit ((c AND 0xFF) XOR ucast x :: u32) i = (i < 8 \<and> bit (c XOR ucast x) i)" for x :: u8
  unfolding and_FF by (auto simp: bit_simps dest: bit_imp_le_length)

lemma unat_low: "unat ((c AND 0xFF) XOR ucast x :: u32) < 256" for x :: u8
proof -
  let ?l = "(c AND 0xFF) XOR ucast x :: u32"
  have "take_bit 8 ?l = ?l"
    by (rule bit_word_eqI) (simp only: bit_take_bit_iff low_bits, blast)
  then show ?thesis
    using take_bit_nat_less_exp [of 8 "unat ?l"] unsigned_take_bit_eq [of 8 ?l, where ?'a = nat] by simp
qed

lemma drop_push_drop: "drop_bit 8 (push_bit 8 (drop_bit 8 c)) = drop_bit 8 (c :: u32)"
proof (rule bit_word_eqI)
  fix n assume "n < LENGTH(32)"
  then show "bit (drop_bit 8 (push_bit 8 (drop_bit 8 c))) n = bit (drop_bit 8 c) n"
    by (cases "n < 24") (auto simp: bit_simps dest: bit_imp_le_length)
qed

lemma crc_byte_table: "crc_byte c x = drop_bit 8 c XOR tab 0 ((c AND 0xFF) XOR ucast x)"
proof -
  let ?l = "(c AND 0xFF) XOR ucast x :: u32"
  define h where "h = push_bit 8 (drop_bit 8 c)"
  have y: "c XOR ucast x = h XOR ?l"
    by (rule bit_word_eqI) (unfold bit_xor_iff [of h] low_bits, auto simp: h_def bit_simps dest: bit_imp_le_length)
  have "(crc_bit ^^ 8) h = drop_bit 8 c"
    by (simp add: h_def crc_bits_shift take_bit_push_bit drop_push_drop)
  then show ?thesis
    unfolding crc_byte_def y crc_bits_xor [of 8 h] by (simp add: tabs unat_low)
qed

lemma unat_drop_24: "unat (drop_bit 24 x :: u32) < 256"
proof -
  have "unat x < 2 ^ 24 * 256"
    using unsigned_less [of x, where 'a = nat] by simp
  then show ?thesis
    unfolding unat_drop_bit_eq unfolding drop_bit_eq_div by (intro less_mult_imp_div_less) simp
qed

text \<open>A byte that is shifted out in time.\<close>

lemma crc_shifted:
  assumes "unat x < 256" "s \<le> 24" "s \<le> n"
  shows "(crc_bit ^^ n) (push_bit s x) = (crc_bit ^^ (n - s)) x"
proof -
  have "take_bit 8 x = x"
    using assms(1) by (simp add: word_unat_eq_iff unsigned_take_bit_eq take_bit_nat_eq_self)
  then have b: "bit x i \<Longrightarrow> i < 8" for i
    by (metis bit_take_bit_iff)
  have "(crc_bit ^^ s) (push_bit s x) = drop_bit s (push_bit s x)"
    by (intro crc_bits_shift) (simp add: take_bit_push_bit)
  also have "\<dots> = x"
    by (rule bit_word_eqI) (use b assms(2) in \<open>fastforce simp: bit_simps\<close>)
  finally have "(crc_bit ^^ (n - s)) ((crc_bit ^^ s) (push_bit s x)) = (crc_bit ^^ (n - s)) x" by simp
  then show ?thesis
    using assms(3) by (simp add: funpow_add [symmetric] flip: comp_apply [of "crc_bit ^^ (n - s)" "crc_bit ^^ s"])
qed

lemma word_bytes:
  "x = (x AND 0xFF) XOR push_bit 8 (drop_bit 8 x AND 0xFF) XOR push_bit 16 (drop_bit 16 x AND 0xFF) XOR push_bit 24 (drop_bit 24 (x :: u32))"
  unfolding and_FF
proof (rule bit_word_eqI)
  fix i assume "i < LENGTH(32)"
  then consider "i < 8" | "8 \<le> i" "i < 16" | "16 \<le> i" "i < 24" | "24 \<le> i" "i < 32" by fastforce
  then show "bit x i = bit (take_bit 8 x XOR push_bit 8 (take_bit 8 (drop_bit 8 x)) XOR
      push_bit 16 (take_bit 8 (drop_bit 16 x)) XOR push_bit 24 (drop_bit 24 x)) i"
    by cases (auto simp: bit_simps)
qed

lemma crc_word:
  assumes "24 \<le> n"
  shows "(crc_bit ^^ n) x = (crc_bit ^^ n) (x AND 0xFF) XOR (crc_bit ^^ (n - 8)) (drop_bit 8 x AND 0xFF) XOR
    (crc_bit ^^ (n - 16)) (drop_bit 16 x AND 0xFF) XOR (crc_bit ^^ (n - 24)) (drop_bit 24 x)"
  using arg_cong [OF word_bytes [of x], of "crc_bit ^^ n"] assms
  by (simp only: crc_bits_xor crc_shifted [OF unat_and_FF] crc_shifted [OF unat_drop_24] order_refl)

lemma crc_block_bits: "crc_block crc w1 w2 = (crc_bit ^^ 64) (w1 XOR crc) XOR (crc_bit ^^ 32) w2"
  using crc_word [of 64 "w1 XOR crc"] crc_word [of 32 w2]
  by (simp add: crc_block_def Let_def tabs unat_and_FF unat_drop_24 ac_simps)

lemma crc_byte_next: "crc_byte ((crc_bit ^^ n) c) x = (crc_bit ^^ (n + 8)) (c XOR push_bit n (ucast x))" if "n \<le> 24"
proof -
  have "unat (ucast x :: u32) < 256"
    using unsigned_less [of x, where 'a = nat] by (simp add: unsigned_ucast_eq take_bit_nat_eq_self)
  then have x: "ucast x = (crc_bit ^^ n) (push_bit n (ucast x))"
    using crc_shifted [of "ucast x" n n] that by simp
  have "crc_byte ((crc_bit ^^ n) c) x = (crc_bit ^^ 8) ((crc_bit ^^ n) (c XOR push_bit n (ucast x)))"
    unfolding crc_byte_def crc_bits_xor [of n] x [symmetric] ..
  then show ?thesis
    by (simp add: funpow_add add.commute [of n])
qed

lemma load32_xor: "load32 a b c d = ucast a XOR push_bit 8 (ucast b) XOR push_bit 16 (ucast c) XOR push_bit 24 (ucast d)"
proof (rule bit_word_eqI)
  fix i assume "i < LENGTH(32)"
  then consider "i < 8" | "8 \<le> i" "i < 16" | "16 \<le> i" "i < 24" | "24 \<le> i" "i < 32" by fastforce
  then show "bit (load32 a b c d) i = bit (ucast a XOR push_bit 8 (ucast b) XOR push_bit 16 (ucast c) XOR push_bit 24 (ucast d) :: u32) i"
    by cases (auto simp: load32_def bit_simps dest: bit_imp_le_length)
qed

lemma crc_four: "foldl crc_byte crc [a, b, c, d] = (crc_bit ^^ 32) (crc XOR load32 a b c d)"
  using crc_byte_next [of 0 crc a] by (simp add: crc_byte_next load32_xor ac_simps)

lemma crc_eight: "foldl crc_byte crc [a, b, c, d, e, f, g, h] = crc_block crc (load32 a b c d) (load32 e f g h)"
proof -
  have "foldl crc_byte crc [a, b, c, d, e, f, g, h] = foldl crc_byte (foldl crc_byte crc [a, b, c, d]) [e, f, g, h]"
    by simp
  also have "\<dots> = (crc_bit ^^ 32) ((crc_bit ^^ 32) (crc XOR load32 a b c d) XOR load32 e f g h)"
    unfolding crc_four ..
  also have "\<dots> = (crc_bit ^^ 64) (crc XOR load32 a b c d) XOR (crc_bit ^^ 32) (load32 e f g h)"
    by (simp add: crc_bits_xor funpow_add [of 32 32, simplified])
  finally show ?thesis
    by (simp add: crc_block_bits xor.commute)
qed

section \<open>The whole checksum\<close>

text \<open>The bytes that are read one by one, behind the last block of eight.\<close>

definition tail_bytes :: "u8 list \<Rightarrow> u8 list" where
  "tail_bytes data = drop (length data div 8 * 8) data"

lemma crc_tail_bits: "\<forall>x \<in> set xs. x < 128 \<Longrightarrow> crc_tail crc xs = Some (foldl crc_byte crc xs)"
proof (induction xs arbitrary: crc)
  case (Cons x xs)
  then have "unat x < 128" by (simp add: word_less_nat_alt)
  then have "\<not> bit (unat x) 7" by (simp add: bit_iff_odd)
  then have "\<not> bit x 7" by (simp add: bit_unsigned_iff)
  then have "\<not> bit x n" if "7 \<le> n" for n
    using bit_imp_le_length [of x n] that by (cases "n = 7") auto
  then have s: "scast x = (ucast x :: u32)"
    by (intro bit_word_eqI) (auto simp: bit_signed_iff bit_ucast_iff min_def split: if_splits)
  have "table_at 0 ((crc AND 0xFF) XOR scast x) = Some (tab 0 ((crc AND 0xFF) XOR ucast x))"
    unfolding s using unat_low [of crc x] by (simp add: table_at_def tab_def word_less_nat_alt)
  then show ?case
    using Cons crc_byte_table [of crc x] by simp
qed simp

lemma tail_bytes_short: "length data < 8 \<Longrightarrow> tail_bytes data = data"
  by (simp add: tail_bytes_def)

lemma tail_bytes_eight: "tail_bytes (a # b # c # d # e # f # g # h # rest) = tail_bytes rest"
proof -
  let ?data = "a # b # c # d # e # f # g # h # rest"
  have "length ?data div 8 * 8 = length rest div 8 * 8 + 8"
    using div_add_self1 [of 8 "length rest"] by simp
  then have "tail_bytes ?data = drop (length rest div 8 * 8) (drop 8 ?data)"
    unfolding tail_bytes_def drop_drop by simp
  then show ?thesis by (simp add: tail_bytes_def)
qed

lemma crc_loop_bits: "\<forall>x \<in> set (tail_bytes data). x < 128 \<Longrightarrow> crc_loop crc data = Some (foldl crc_byte crc data)"
proof (induction crc data rule: crc_loop.induct)
  case (1 crc a b c d e f g h rest)
  then have "\<forall>x \<in> set (tail_bytes rest). x < 128"
    by (simp only: tail_bytes_eight)
  then show ?case
    using "1.IH" crc_eight [of crc a b c d e f g h] by simp
qed (simp_all add: tail_bytes_short crc_tail_bits del: crc_tail.simps)

section \<open>Properties\<close>

text \<open>
  C33. The checksum that is computed eight bytes at a time through the eight tables is the one
  of the polynomial division bit by bit, for data whose bytes behind the last full block are
  below 128; a byte above that is used as a negative index, outside of the table.
\<close>

theorem crc_is_bitwise:
  "(\<forall>data seed start. (\<forall>x \<in> set (tail_bytes data). x < 128) \<longrightarrow>
      eina_crc data seed start = Some (NOT (foldl crc_byte (if start then seed else NOT seed) data))) \<and>
   eina_crc [128] 0xFFFFFFFF True = None"
proof (intro conjI allI impI)
  show "eina_crc [128] 0xFFFFFFFF True = None"
    by (simp add: eina_crc_def table_at_def)
qed (simp add: eina_crc_def crc_loop_bits)

theorem crc_is_bitwise_witness:
  "tail_bytes [49, 50, 51] = [49, 50, 51] \<and>
   eina_crc [49, 50, 51] 0xFFFFFFFF True = Some (NOT (foldl crc_byte 0xFFFFFFFF [49, 50, 51]))"
proof -
  have t: "tail_bytes [49, 50, 51] = [49, 50, 51]"
    by (rule tail_bytes_short) simp
  then have "\<forall>x \<in> set (tail_bytes [49, 50, 51]). x < 128"
    by simp
  then have "eina_crc [49, 50, 51] 0xFFFFFFFF True =
      Some (NOT (foldl crc_byte (if True then 0xFFFFFFFF else NOT 0xFFFFFFFF) [49, 50, 51]))"
    using crc_is_bitwise by blast
  then show ?thesis
    using t by simp
qed

text \<open>
  The checksum of data in two parts, the second one continued from the first, is the
  checksum of the whole.
\<close>

theorem crc_streams:
  assumes "\<forall>x \<in> set a. x < 128" and "\<forall>x \<in> set b. x < 128"
  shows "do { c \<leftarrow> eina_crc a seed True; eina_crc b c False } = eina_crc (a @ b) seed True"
proof -
  have "\<forall>x \<in> set (tail_bytes (a @ b)). x < 128" "\<forall>x \<in> set (tail_bytes a). x < 128" "\<forall>x \<in> set (tail_bytes b). x < 128"
    using assms by (auto simp: tail_bytes_def dest: in_set_dropD)
  then show ?thesis
    by (simp add: eina_crc_def crc_loop_bits)
qed

theorem crc_streams_witness:
  "list_all (\<lambda>x. x < 128) [104, 105, 33 :: u8] \<and>
   do { c \<leftarrow> eina_crc [104, 105] 0xFFFFFFFF True; eina_crc [33] c False } = eina_crc [104, 105, 33] 0xFFFFFFFF True"
  using crc_streams [of "[104, 105]" "[33]" "0xFFFFFFFF"] by simp

end
