(* ===== verification/Eina_Sha.thy ===== *)
theory Eina_Sha
  imports Prelude
begin

text \<open>
  The digest of \<open>src/lib/shared/checksum/eina_sha.c\<close>. The data is the list of its \<open>size\<close>
  bytes, and the loop over them keeps the block buffer, the index into it and the digest.
\<close>

unbundle bit_operations_syntax

section \<open>Blocks\<close>

definition SHSH :: "nat \<Rightarrow> u32 \<Rightarrow> u32" where
  "SHSH n v = (push_bit n v AND 0xffffffff) OR drop_bit (32 - n) v"

definition magic :: "u32 list" where
  "magic = [0x5a827999, 0x6ed9eba1, 0x8f1bbcdc, 0xca62c1d6]"

type_synonym digest = "u32 \<times> u32 \<times> u32 \<times> u32 \<times> u32"

definition digest_start :: digest where
  "digest_start = (0x67452301, 0xefcdab89, 0x98badcfe, 0x10325476, 0xc3d2e1f0)"

text \<open>The first sixteen words of the schedule, from a block of 64 bytes.\<close>

definition block_word :: "u8 list \<Rightarrow> nat \<Rightarrow> u32" where
  "block_word buf i =
     push_bit 24 (ucast (buf ! (i * 4))) OR push_bit 16 (ucast (buf ! (i * 4 + 1))) OR
     push_bit 8 (ucast (buf ! (i * 4 + 2))) OR ucast (buf ! (i * 4 + 3))"

fun extend_words :: "u32 list \<Rightarrow> nat \<Rightarrow> u32 list" where
  "extend_words ws 0 = ws"
| "extend_words ws (Suc n) =
     (let i = length ws in
      extend_words (ws @ [SHSH 1 (ws ! (i - 3) XOR ws ! (i - 8) XOR ws ! (i - 14) XOR ws ! (i - 16))]) n)"

definition schedule :: "u8 list \<Rightarrow> u32 list" where
  "schedule buf = extend_words (map (block_word buf) [0..<16]) 64"

definition sha_round :: "u32 list \<Rightarrow> digest \<Rightarrow> nat \<Rightarrow> digest" where
  "sha_round ws dg i =
     (case dg of (wa, wb, wc, wd, we) \<Rightarrow>
        (let t =
           (if i < 20 then SHSH 5 wa + ((wb AND wc) OR (NOT wb AND wd)) + we + ws ! i + magic ! 0
            else if i < 40 then SHSH 5 wa + (wb XOR wc XOR wd) + we + ws ! i + magic ! 1
            else if i < 60 then SHSH 5 wa + ((wb AND wc) OR (wb AND wd) OR (wc AND wd)) + we + ws ! i + magic ! 2
            else SHSH 5 wa + (wb XOR wc XOR wd) + we + ws ! i + magic ! 3)
         in (t, wa, SHSH 30 wb, wc, wd)))"

definition compress :: "digest \<Rightarrow> u8 list \<Rightarrow> digest" where
  "compress dg buf =
     (case (dg, foldl (sha_round (schedule buf)) dg [0..<80]) of
        ((a, b, c, d, e), (wa, wb, wc, wd, we)) \<Rightarrow> (a + wa, b + wb, c + wc, d + wd, e + we))"

section \<open>The loop over the data\<close>

text \<open>A buffer for the last block, when it is not full: zeros and the size.\<close>

definition last_buf :: "nat \<Rightarrow> u8 list" where
  "last_buf sz =
     replicate 60 0 @ [of_nat (sz div 2 ^ 24), of_nat (sz div 2 ^ 16), of_nat (sz div 2 ^ 8), of_nat sz]"

fun sha1_loop :: "nat \<Rightarrow> u8 list \<Rightarrow> nat \<Rightarrow> u8 list \<Rightarrow> digest \<Rightarrow> digest" where
  "sha1_loop sz [] idx buf dg = dg"
| "sha1_loop sz (d # ds) idx buf dg =
     (let left = Suc (length ds);
          buf = (if idx = 0 \<and> left < 64 then last_buf sz else buf);
          buf = buf[idx := d];
          idx = idx + 1
      in if idx = 64 \<or> left = 1 then
           (let buf = (if left = 1 \<and> idx < 64 then buf[idx := 0x80] else buf)
            in sha1_loop sz ds 0 buf (compress dg buf))
         else sha1_loop sz ds idx buf dg)"

definition be_bytes :: "u32 \<Rightarrow> u8 list" where
  "be_bytes w = [ucast (drop_bit 24 w), ucast (drop_bit 16 w), ucast (drop_bit 8 w), ucast w]"

definition eina_sha1 :: "u8 list \<Rightarrow> u8 list" where
  "eina_sha1 data =
     (case sha1_loop (length data) data 0 (replicate 64 0) digest_start of
        (a, b, c, d, e) \<Rightarrow> be_bytes a @ be_bytes b @ be_bytes c @ be_bytes d @ be_bytes e)"

section \<open>Blocks against bytes\<close>

text \<open>Which blocks the data is cut into: only an incomplete last block is padded.\<close>

definition pad_block :: "nat \<Rightarrow> u8 list \<Rightarrow> u8 list" where
  "pad_block sz ds = ds @ 0x80 # drop (Suc (length ds)) (last_buf sz)"

function sha_blocks :: "nat \<Rightarrow> u8 list \<Rightarrow> u8 list list" where
  "sha_blocks sz ds =
     (if ds = [] then []
      else if length ds < 64 then [pad_block sz ds]
      else take 64 ds # sha_blocks sz (drop 64 ds))"
  by pat_completeness auto
termination
  by (relation "measure (\<lambda>(sz, ds). length ds)") auto

declare sha_blocks.simps [simp del]

lemma length_last_buf [simp]: "length (last_buf sz) = 64"
  by (simp add: last_buf_def)

text \<open>Filling the buffer up to its end.\<close>

lemma fill_full:
  "as \<noteq> [] \<Longrightarrow> length buf = 64 \<Longrightarrow> idx + length as = 64 \<Longrightarrow>
    sha1_loop sz (as @ ds) idx buf dg = sha1_loop sz ds 0 (take idx buf @ as) (compress dg (take idx buf @ as))"
proof (induction as arbitrary: idx buf)
  case (Cons a as)
  have b: "(if idx = 0 \<and> Suc (length (as @ ds)) < 64 then last_buf sz else buf) = buf"
    using Cons.prems(3) by auto
  show ?case
  proof (cases "as = []")
    case True
    then have i: "idx = 63" using Cons.prems(3) by simp
    have "buf[63 := a] = take 63 buf @ [a]"
      using Cons.prems(2) upd_conv_take_nth_drop [of 63 buf a] by simp
    then show ?thesis
      using b True i by (simp add: Let_def)
  next
    case False
    have "take (Suc idx) (buf[idx := a]) = take idx buf @ [a]"
      using Cons.prems(2,3) False by (cases as) (simp_all add: take_Suc_conv_app_nth)
    then show ?thesis
      using b Cons.IH [of "buf[idx := a]" "Suc idx"] Cons.prems False by (cases as) (simp_all add: Let_def)
  qed
qed simp

lemma fill_short:
  "as \<noteq> [] \<Longrightarrow> length buf = 64 \<Longrightarrow> idx + length as < 64 \<Longrightarrow> 0 < idx \<or> buf = last_buf sz \<Longrightarrow>
    sha1_loop sz as idx buf dg = compress dg (take idx buf @ as @ 0x80 # drop (Suc (idx + length as)) buf)"
proof (induction as arbitrary: idx buf)
  case (Cons a as)
  have b: "(if idx = 0 \<and> Suc (length as) < 64 then last_buf sz else buf) = buf"
    using Cons.prems(4) by auto
  have t: "take (Suc idx) (buf[idx := a]) = take idx buf @ [a]"
    using Cons.prems(2,3) by (simp add: take_Suc_conv_app_nth)
  show ?case
  proof (cases "as = []")
    case True
    then have i: "Suc idx < 64" using Cons.prems(3) by simp
    have "buf[idx := a, Suc idx := 0x80] = take idx buf @ a # 0x80 # drop (Suc (Suc idx)) buf"
      using Cons.prems(2) i t upd_conv_take_nth_drop [of "Suc idx" "buf[idx := a]" "0x80"] by simp
    then show ?thesis
      using b True i by (simp add: Let_def)
  next
    case False
    then show ?thesis
      using b t Cons.IH [of "buf[idx := a]" "Suc idx"] Cons.prems by (cases as) (simp_all add: Let_def)
  qed
qed simp

lemma start_last: "length (d # ds) < 64 \<Longrightarrow> sha1_loop sz (d # ds) 0 buf dg = sha1_loop sz (d # ds) 0 (last_buf sz) dg"
  by (simp add: Let_def)

lemma sha1_loop_blocks: "length buf = 64 \<Longrightarrow> sha1_loop sz ds 0 buf dg = foldl compress dg (sha_blocks sz ds)"
proof (induction sz ds arbitrary: buf dg rule: sha_blocks.induct)
  case (1 sz ds)
  consider "ds = []" | "ds \<noteq> []" "length ds < 64" | "64 \<le> length ds"
    by fastforce
  then show ?case
  proof cases
    case 1
    then show ?thesis by (simp add: sha_blocks.simps)
  next
    case 2
    then have "sha1_loop sz ds 0 buf dg = sha1_loop sz ds 0 (last_buf sz) dg"
      using start_last by (cases ds) blast+
    then show ?thesis
      using 2 fill_short [of ds "last_buf sz" 0 sz dg] by (simp add: sha_blocks.simps pad_block_def)
  next
    case 3
    then have ne: "ds \<noteq> []" by auto
    have "sha1_loop sz (take 64 ds @ drop 64 ds) 0 buf dg = sha1_loop sz (drop 64 ds) 0 (take 64 ds) (compress dg (take 64 ds))"
      using fill_full [of "take 64 ds" buf 0 sz "drop 64 ds" dg] 3 "1.prems" ne by simp
    then show ?thesis
      using "1.IH" [of "take 64 ds" "compress dg (take 64 ds)"] 3 ne by (simp add: sha_blocks.simps [of sz ds])
  qed
qed

section \<open>Properties\<close>

text \<open>
  C34. The digest is the compression of the blocks the data is cut into, of which only an
  incomplete last one is padded. This is not the padding of SHA-1: a string of 63 bytes and
  the same string with the byte \<open>0x80\<close> behind it have the same digest.
\<close>

theorem sha1_compresses_blocks:
  "(\<forall>data. eina_sha1 data =
      (case foldl compress digest_start (sha_blocks (length data) data) of
         (a, b, c, d, e) \<Rightarrow> be_bytes a @ be_bytes b @ be_bytes c @ be_bytes d @ be_bytes e)) \<and>
   (\<forall>data. length data = 63 \<longrightarrow> eina_sha1 (data @ [0x80]) = eina_sha1 data)"
proof (intro conjI allI impI)
  show l: "eina_sha1 data =
      (case foldl compress digest_start (sha_blocks (length data) data) of
         (a, b, c, d, e) \<Rightarrow> be_bytes a @ be_bytes b @ be_bytes c @ be_bytes d @ be_bytes e)" for data
    unfolding eina_sha1_def by (simp add: sha1_loop_blocks)
  fix data :: "u8 list"
  assume n: "length data = 63"
  then have "data \<noteq> []" by auto
  then have "sha_blocks 63 data = [data @ [0x80]]"
    using n by (simp add: sha_blocks.simps pad_block_def)
  moreover have "sha_blocks 64 (data @ [0x80]) = [data @ [0x80]]"
    using n by (simp add: sha_blocks.simps)
  ultimately show "eina_sha1 (data @ [0x80]) = eina_sha1 data"
    using l [of data] l [of "data @ [0x80]"] n by simp
qed

theorem sha1_compresses_blocks_witness:
  "length (replicate 63 (97 :: u8)) = 63 \<and> eina_sha1 (replicate 63 97 @ [0x80]) = eina_sha1 (replicate 63 97)"
proof
  show "length (replicate 63 (97 :: u8)) = 63" by simp
  then show "eina_sha1 (replicate 63 97 @ [0x80]) = eina_sha1 (replicate 63 97)"
    using sha1_compresses_blocks by blast
qed

end
