(* ===== verification/Handles.thy ===== *)
theory Handles
  imports Prelude
begin

text \<open>
  The contract of a table that hides pointers behind ids: what registering, unregistering
  and looking up may answer, as steps over a finite map from the ids' fields to the values,
  and the runs of a table that keeps it.
\<close>

unbundle bit_operations_syntax

section \<open>Fields of an id\<close>

lemma field_value: "x < 2 ^ n \<Longrightarrow> n \<le> 64 \<Longrightarrow> unat (take_bit n (of_nat x :: u64)) = x"
  by (simp add: unsigned_take_bit_eq unsigned_of_nat take_bit_nat_eq_self)

text \<open>The bits of a field of \<open>n\<close> bits at position \<open>k\<close>, read and written.\<close>

lemma field_bit:
  "bit (drop_bit k (w :: u64) AND mask n) j \<longleftrightarrow> j < n \<and> bit w (k + j)"
  "bit (push_bit k (of_nat x AND mask n) :: u64) j \<longleftrightarrow> k \<le> j \<and> j < 64 \<and> j < k + n \<and> bit x (j - k)"
  "bit (take_bit n (of_nat x :: u64)) j \<longleftrightarrow> j < n \<and> j < 64 \<and> bit x j"
  by (auto simp: bit_and_iff bit_drop_bit_eq bit_mask_iff bit_push_bit_iff bit_take_bit_iff bit_of_nat_iff
      dest: bit_imp_le_length)

section \<open>Generations\<close>

text \<open>A counter of generations that goes from \<open>m - 1\<close> back to 1.\<close>

definition cycle_next :: "nat \<Rightarrow> nat \<Rightarrow> nat" where
  "cycle_next m g = (if g + 1 = m then 1 else g + 1)"

lemma cycle_next_range: "1 < m \<Longrightarrow> g < m \<Longrightarrow> 0 < cycle_next m g \<and> cycle_next m g < m"
  by (auto simp: cycle_next_def)

lemma cycle_next_iterate_range: "1 < m \<Longrightarrow> 0 < g \<Longrightarrow> g < m \<Longrightarrow> 0 < (cycle_next m ^^ k) g \<and> (cycle_next m ^^ k) g < m"
  by (induction k) (use cycle_next_range [of m] in auto)

lemma cycle_next_iterate:
  assumes "1 < m" "0 < g" "g < m"
  shows "(cycle_next m ^^ k) g = (g - 1 + k) mod (m - 1) + 1"
proof (induction k)
  case (Suc k)
  let ?r = "(g - 1 + k) mod (m - 1)"
  have "(g - 1 + Suc k) mod (m - 1) = (if ?r = m - 2 then 0 else ?r + 1)"
    using mod_Suc [of "g - 1 + k" "m - 1"] assms(1) by auto
  with Suc assms(1) show ?case
    by (auto simp: cycle_next_def)
qed (use assms in simp)

lemma cycle_next_differs:
  assumes "1 < m" "0 < g" "g < m" "0 < k" "k < m - 1"
  shows "(cycle_next m ^^ k) g \<noteq> g"
proof
  assume "(cycle_next m ^^ k) g = g"
  then have "(g - 1 + k) mod (m - 1) = (g - 1) mod (m - 1)"
    using assms cycle_next_iterate [OF assms(1-3), of k] by simp
  then have "(m - 1) dvd k"
    by (metis add_diff_cancel_left' le_add1 mod_eq_dvd_iff_nat)
  with assms show False
    by (auto dest: dvd_imp_le)
qed

section \<open>Calls and what they may answer\<close>

datatype ('c, 'i, 'v) handle_call = Register 'c 'v | Unregister 'i | Lookup 'i

datatype ('i, 'v) handle_answer = Handle "'i option" | Done | Value "'v option"

text \<open>
  A registration gives no id and changes nothing, or gives an id whose fields are not in
  use; any other id is not affected by a call.
\<close>

inductive handle_spec ::
  "('i \<Rightarrow> 'k) \<Rightarrow> ('k \<Rightarrow> 'v option) \<Rightarrow> ('c, 'i, 'v) handle_call \<Rightarrow> ('i, 'v) handle_answer \<Rightarrow> ('k \<Rightarrow> 'v option) \<Rightarrow> bool"
  for key where
  refused: "handle_spec key m (Register c v) (Handle None) m"
| registered: "m (key i) = None \<Longrightarrow> handle_spec key m (Register c v) (Handle (Some i)) (m(key i \<mapsto> v))"
| unregistered: "handle_spec key m (Unregister i) Done (m(key i := None))"
| looked_up: "handle_spec key m (Lookup i) (Value (m (key i))) m"

inductive_simps handle_spec_simps [simp]:
  "handle_spec key m (Register c v) a m'"
  "handle_spec key m (Unregister i) a m'"
  "handle_spec key m (Lookup i) a m'"

fun handle_specs ::
  "('i \<Rightarrow> 'k) \<Rightarrow> ('k \<Rightarrow> 'v option) \<Rightarrow> ('c, 'i, 'v) handle_call list \<Rightarrow> ('i, 'v) handle_answer list \<Rightarrow> ('k \<Rightarrow> 'v option) \<Rightarrow> bool" where
  "handle_specs key m [] [] m' \<longleftrightarrow> m' = m"
| "handle_specs key m (c # cs) (a # as) m' \<longleftrightarrow> (\<exists>m1. handle_spec key m c a m1 \<and> handle_specs key m1 cs as m')"
| "handle_specs key m _ _ m' \<longleftrightarrow> False"

definition registrations :: "('c, 'i, 'v) handle_call list \<Rightarrow> nat" where
  "registrations cs = length (filter (\<lambda>c. case c of Register _ _ \<Rightarrow> True | _ \<Rightarrow> False) cs)"

lemma registrations_simps [simp]:
  "registrations [] = 0" "registrations (Register c v # cs) = Suc (registrations cs)"
  "registrations (Unregister i # cs) = registrations cs" "registrations (Lookup i # cs) = registrations cs"
  "registrations (cs @ cs') = registrations cs + registrations cs'"
  by (simp_all add: registrations_def)

text \<open>A value stays until its id is unregistered.\<close>

definition spares :: "('i \<Rightarrow> 'k) \<Rightarrow> 'k \<Rightarrow> ('c, 'i, 'v) handle_call list \<Rightarrow> bool" where
  "spares key k cs \<longleftrightarrow> list_all (\<lambda>c. case c of Unregister i \<Rightarrow> key i \<noteq> k | _ \<Rightarrow> True) cs"

lemma handle_spec_keeps:
  "handle_spec key m c a m' \<Longrightarrow> m k = Some v \<Longrightarrow> spares key k [c] \<Longrightarrow> m' k = Some v"
  by (cases rule: handle_spec.cases) (auto simp: spares_def)

lemma handle_specs_keep:
  "handle_specs key m cs as m' \<Longrightarrow> m k = Some v \<Longrightarrow> spares key k cs \<Longrightarrow> m' k = Some v"
proof (induction key m cs as m' rule: handle_specs.induct)
  case (2 key m c cs a as m')
  then show ?case
    using handle_spec_keeps [of key m c a _ k v] by (auto simp: spares_def)
qed simp_all

section \<open>Runs of a table\<close>

fun handle_step where
  "handle_step reg unreg look s (Register c v) = map_option (\<lambda>(s, r). (s, Handle r)) (reg c s v)"
| "handle_step reg unreg look s (Unregister i) = map_option (\<lambda>s. (s, Done)) (unreg s i)"
| "handle_step reg unreg look s (Lookup i) = map_option (\<lambda>(s, r). (s, Value r)) (look s i)"

fun handle_run where
  "handle_run step s [] = Some (s, [])"
| "handle_run step s (c # cs) = do {
     (s, a) \<leftarrow> step s c;
     (s, as) \<leftarrow> handle_run step s cs;
     Some (s, a # as)
   }"

text \<open>The conditions on each call, in the state it is made in.\<close>

fun handle_legal where
  "handle_legal step reg_ok id_ok s [] \<longleftrightarrow> True"
| "handle_legal step reg_ok id_ok s (c # cs) \<longleftrightarrow>
     (case c of Register c v \<Rightarrow> reg_ok c s | Unregister i \<Rightarrow> id_ok i | Lookup i \<Rightarrow> id_ok i)
     \<and> (case step s c of Some (s, a) \<Rightarrow> handle_legal step reg_ok id_ok s cs | None \<Rightarrow> True)"

locale handle_table =
  fixes inv :: "'s \<Rightarrow> bool" and live :: "'s \<Rightarrow> 'k \<Rightarrow> 'v option" and key :: "'i \<Rightarrow> 'k"
    and reg :: "'c \<Rightarrow> 's \<Rightarrow> 'v \<Rightarrow> ('s \<times> 'i option) option"
    and unreg :: "'s \<Rightarrow> 'i \<Rightarrow> 's option"
    and look :: "'s \<Rightarrow> 'i \<Rightarrow> ('s \<times> 'v option) option"
    and reg_ok :: "'c \<Rightarrow> 's \<Rightarrow> bool" and id_ok :: "'i \<Rightarrow> bool"
  assumes reg_law: "inv s \<Longrightarrow> reg_ok c s \<Longrightarrow>
      \<exists>s' r. reg c s v = Some (s', r) \<and> inv s'
        \<and> (case r of None \<Rightarrow> live s' = live s | Some i \<Rightarrow> live s (key i) = None \<and> live s' = (live s)(key i \<mapsto> v))"
    and unreg_law: "inv s \<Longrightarrow> id_ok i \<Longrightarrow>
      \<exists>s'. unreg s i = Some s' \<and> inv s' \<and> live s' = (live s)(key i := None)"
    and look_law: "inv s \<Longrightarrow> id_ok i \<Longrightarrow>
      \<exists>s'. look s i = Some (s', live s (key i)) \<and> inv s' \<and> live s' = live s"
begin

lemma step_refines:
  assumes "inv s" and "handle_legal (handle_step reg unreg look) reg_ok id_ok s [c]"
  obtains s' a where "handle_step reg unreg look s c = Some (s', a)" "inv s'"
    "handle_spec key (live s) c a (live s')"
proof (cases c)
  case (Register al v)
  with reg_law [of s al v] assms show ?thesis
    by (fastforce intro: that split: option.splits)
next
  case (Unregister i)
  with unreg_law [of s i] assms show ?thesis
    by (auto intro: that)
next
  case (Lookup i)
  with look_law [of s i] assms show ?thesis
    by (auto intro: that)
qed

lemma calls_refine:
  assumes "inv s" and "handle_legal (handle_step reg unreg look) reg_ok id_ok s cs"
  shows "\<exists>s' as. handle_run (handle_step reg unreg look) s cs = Some (s', as) \<and> inv s'
           \<and> handle_specs key (live s) cs as (live s')"
  using assms
proof (induction cs arbitrary: s)
  case (Cons c cs)
  from Cons.prems have "handle_legal (handle_step reg unreg look) reg_ok id_ok s [c]"
    by (cases "handle_step reg unreg look s c") auto
  with Cons.prems(1) obtain s1 a where s1: "handle_step reg unreg look s c = Some (s1, a)" "inv s1"
    "handle_spec key (live s) c a (live s1)"
    by (rule step_refines)
  with Cons.IH [of s1] Cons.prems(2) show ?case
    by fastforce
qed simp

end

end
