(* ===== verification/Id_Tables.thy ===== *)
theory Id_Tables
  imports Handles
begin

text \<open>
  The two levels of tables under the ids of \<open>eina_safepointer\<close> and of \<open>eo\<close>: an array of mid
  tables, each an array of pointers to leaf tables, which are objects of a heap. What
  writing a leaf, putting a leaf into a slot and clearing a slot do to the leafs that are
  found through the slots.
\<close>

type_synonym id_slots = "nat \<Rightarrow> (nat \<Rightarrow> nat option) option"

text \<open>
  What the allocator does during a call: whether it can give a mid table, and the address of
  the leaf table it gives, if any. Both come zeroed.
\<close>

record table_alloc =
  mid_alloc :: bool
  leaf_alloc :: "nat option"

definition leaf_fresh :: "table_alloc \<Rightarrow> (nat \<Rightarrow> 't option) \<Rightarrow> bool" where
  "leaf_fresh al heap \<longleftrightarrow> (case leaf_alloc al of None \<Rightarrow> True | Some a \<Rightarrow> heap a = None)"

definition slot_at :: "id_slots \<Rightarrow> nat \<Rightarrow> nat \<Rightarrow> nat \<Rightarrow> bool" where
  "slot_at ids mid tid a \<longleftrightarrow> (\<exists>row. ids mid = Some row \<and> row tid = Some a)"

definition slot_table :: "id_slots \<Rightarrow> (nat \<Rightarrow> 't option) \<Rightarrow> nat \<Rightarrow> nat \<Rightarrow> 't option" where
  "slot_table ids heap mid tid = do { row \<leftarrow> ids mid; a \<leftarrow> row tid; heap a }"

text \<open>The values found through the slots, by the fields of an id.\<close>

definition tables_live ::
  "('t \<Rightarrow> 'e \<Rightarrow> 'g \<Rightarrow> 'v option) \<Rightarrow> (nat \<Rightarrow> nat \<Rightarrow> 't option) \<Rightarrow> nat \<times> nat \<times> 'e \<times> 'g \<Rightarrow> 'v option" where
  "tables_live elive tab = (\<lambda>(mid, tid, e, g). do { t \<leftarrow> tab mid tid; elive t e g })"

lemma tables_live_simp [simp]: "tables_live elive tab (mid, tid, e, g) = do { t \<leftarrow> tab mid tid; elive t e g }"
  by (simp add: tables_live_def)

text \<open>Writing one value of one table.\<close>

lemma tables_live_write:
  assumes "\<And>m n. tab' m n = (if m = mid \<and> n = tid then Some t else tab m n)"
    and "\<And>e' g'. elive t e' g' = (if e' = e \<and> g' = g then v else do { t \<leftarrow> tab mid tid; elive t e' g' })"
  shows "tables_live elive tab' = (tables_live elive tab)((mid, tid, e, g) := v)"
proof
  fix q
  show "tables_live elive tab' q = ((tables_live elive tab)((mid, tid, e, g) := v)) q"
    by (cases q) (auto simp: assms)
qed

definition slots_ok :: "(nat \<Rightarrow> nat \<Rightarrow> 't \<Rightarrow> bool) \<Rightarrow> id_slots \<Rightarrow> (nat \<Rightarrow> 't option) \<Rightarrow> bool" where
  "slots_ok ok ids heap \<longleftrightarrow> (\<forall>mid tid a. slot_at ids mid tid a \<longrightarrow> (\<exists>t. heap a = Some t \<and> ok mid tid t))"

lemma slots_okD:
  assumes "slots_ok ok ids heap" "slot_at ids mid tid a"
  obtains t where "heap a = Some t" "ok mid tid t"
  using assms unfolding slots_ok_def by blast

lemma unmapped_no_slot: "slots_ok ok ids heap \<Longrightarrow> heap a = None \<Longrightarrow> \<not> slot_at ids m n a"
  unfolding slots_ok_def by fastforce

lemma slot_tableI: "slot_at ids mid tid a \<Longrightarrow> slot_table ids heap mid tid = heap a"
  by (auto simp: slot_at_def slot_table_def)

lemma slot_table_none: "(\<And>a. \<not> slot_at ids mid tid a) \<Longrightarrow> slot_table ids heap mid tid = None"
  by (cases "ids mid") (auto simp: slot_at_def slot_table_def bind_eq_None_conv)

lemma slot_tableD:
  assumes "slots_ok ok ids heap" "slot_table ids heap mid tid = Some t"
  obtains a where "slot_at ids mid tid a" "heap a = Some t" "ok mid tid t"
proof -
  obtain a where a: "slot_at ids mid tid a"
    using assms(2) slot_table_none [of ids mid tid heap] by fastforce
  with slots_okD [OF assms(1) a] assms(2) that show thesis
    by (auto simp: slot_tableI)
qed

lemma slot_table_cong:
  assumes "\<And>b. slot_at ids' m n b \<longleftrightarrow> slot_at ids m n b" "\<And>b. slot_at ids m n b \<Longrightarrow> heap' b = heap b"
  shows "slot_table ids' heap' m n = slot_table ids heap m n"
  using assms slot_table_none [of ids m n heap] slot_table_none [of ids' m n heap']
  by (cases "\<exists>b. slot_at ids m n b") (auto simp: slot_tableI)

lemma slot_at_upd:
  "ids mid = Some row \<Longrightarrow> slot_at (ids(mid \<mapsto> row(tid := x))) m n b \<longleftrightarrow>
     (if m = mid \<and> n = tid then x = Some b else slot_at ids m n b)"
  by (auto simp: slot_at_def)

lemma slot_at_new_row: "ids mid = None \<Longrightarrow> slot_at (ids(mid \<mapsto> (\<lambda>_. None))) = slot_at ids"
  by (auto simp: slot_at_def fun_eq_iff)

lemma same_slots:
  "slot_at ids' = slot_at ids \<Longrightarrow> slot_table ids' heap = slot_table ids heap"
  by (intro ext slot_table_cong) auto

section \<open>Changing the tables\<close>

locale id_tables =
  fixes ok :: "nat \<Rightarrow> nat \<Rightarrow> 't \<Rightarrow> bool"
  assumes ok_unique: "ok m n t \<Longrightarrow> ok m' n' t \<Longrightarrow> m' = m \<and> n' = n"
begin

lemma slot_at_unique:
  assumes "slots_ok ok ids heap" "slot_at ids m n a" "slot_at ids m' n' a"
  shows "m' = m \<and> n' = n"
proof -
  obtain t where "heap a = Some t" "ok m n t"
    using slots_okD [OF assms(1,2)] .
  moreover obtain t' where "heap a = Some t'" "ok m' n' t'"
    using slots_okD [OF assms(1,3)] .
  ultimately show ?thesis
    using ok_unique by auto
qed

lemma write_leaf:
  assumes inv: "slots_ok ok ids heap" and s: "slot_at ids mid tid a" and t: "ok mid tid t"
  shows "slots_ok ok ids (heap(a \<mapsto> t))"
    "slot_table ids (heap(a \<mapsto> t)) m n = (if m = mid \<and> n = tid then Some t else slot_table ids heap m n)"
proof -
  have u: "b = a \<longleftrightarrow> m = mid \<and> n = tid" if "slot_at ids m n b" for m n b
    using that s slot_at_unique [OF inv s, of m n] by (auto simp: slot_at_def)
  show "slots_ok ok ids (heap(a \<mapsto> t))"
    unfolding slots_ok_def
  proof (intro allI impI)
    fix m n b
    assume b: "slot_at ids m n b"
    obtain t' where "heap b = Some t'" "ok m n t'"
      using slots_okD [OF inv b] .
    with t u [OF b] show "\<exists>t'. (heap(a \<mapsto> t)) b = Some t' \<and> ok m n t'"
      by (cases "b = a") auto
  qed
  show "slot_table ids (heap(a \<mapsto> t)) m n = (if m = mid \<and> n = tid then Some t else slot_table ids heap m n)"
  proof (cases "m = mid \<and> n = tid")
    case True
    with s show ?thesis by (auto simp: slot_tableI)
  next
    case False
    with u [of m n] have "slot_table ids (heap(a \<mapsto> t)) m n = slot_table ids heap m n"
      by (intro slot_table_cong) auto
    with False show ?thesis by auto
  qed
qed

lemma place_leaf:
  assumes inv: "slots_ok ok ids heap" and row: "ids mid = Some row" and t: "ok mid tid t"
    and free: "\<And>m n. \<not> slot_at ids m n a"
  shows "slots_ok ok (ids(mid \<mapsto> row(tid \<mapsto> a))) (heap(a \<mapsto> t))"
    "slot_table (ids(mid \<mapsto> row(tid \<mapsto> a))) (heap(a \<mapsto> t)) m n =
       (if m = mid \<and> n = tid then Some t else slot_table ids heap m n)"
proof -
  note sl = slot_at_upd [of ids mid row tid "Some a", OF row]
  show "slots_ok ok (ids(mid \<mapsto> row(tid \<mapsto> a))) (heap(a \<mapsto> t))"
    unfolding slots_ok_def
  proof (intro allI impI)
    fix m n b
    assume b: "slot_at (ids(mid \<mapsto> row(tid \<mapsto> a))) m n b"
    show "\<exists>t'. (heap(a \<mapsto> t)) b = Some t' \<and> ok m n t'"
    proof (cases "m = mid \<and> n = tid")
      case True
      with b sl t show ?thesis by auto
    next
      case False
      with b sl have "slot_at ids m n b" by auto
      moreover from this have "b \<noteq> a" using free by blast
      ultimately show ?thesis using inv by (simp add: slots_ok_def)
    qed
  qed
  show "slot_table (ids(mid \<mapsto> row(tid \<mapsto> a))) (heap(a \<mapsto> t)) m n =
       (if m = mid \<and> n = tid then Some t else slot_table ids heap m n)"
  proof (cases "m = mid \<and> n = tid")
    case True
    then show ?thesis by (auto simp: slot_table_def)
  next
    case False
    then have "slot_table (ids(mid \<mapsto> row(tid \<mapsto> a))) (heap(a \<mapsto> t)) m n = slot_table ids heap m n"
      using sl [of m n] free [of m n] by (intro slot_table_cong) auto
    with False show ?thesis by auto
  qed
qed

lemma clear_slot:
  assumes inv: "slots_ok ok ids heap" and row: "ids mid = Some row" "row tid = Some a"
    and h: "\<And>b. b \<noteq> a \<Longrightarrow> heap' b = heap b"
  shows "slots_ok ok (ids(mid \<mapsto> row(tid := None))) heap'"
    "slot_table (ids(mid \<mapsto> row(tid := None))) heap' m n =
       (if m = mid \<and> n = tid then None else slot_table ids heap m n)"
    "\<not> slot_at (ids(mid \<mapsto> row(tid := None))) m n a"
proof -
  have s: "slot_at ids mid tid a"
    using row by (simp add: slot_at_def)
  note sl = slot_at_upd [of ids mid row tid None, OF row(1)]
  have ne: "b \<noteq> a" if "slot_at (ids(mid \<mapsto> row(tid := None))) m n b" for m n b
    using that slot_at_unique [OF inv s, of m n] by (auto simp: sl split: if_splits)
  then show "\<not> slot_at (ids(mid \<mapsto> row(tid := None))) m n a"
    by blast
  show "slots_ok ok (ids(mid \<mapsto> row(tid := None))) heap'"
    unfolding slots_ok_def
  proof (intro allI impI)
    fix m n b
    assume b: "slot_at (ids(mid \<mapsto> row(tid := None))) m n b"
    then have "slot_at ids m n b" by (auto simp: sl split: if_splits)
    with ne [OF b] h inv show "\<exists>t'. heap' b = Some t' \<and> ok m n t'"
      by (auto simp: slots_ok_def)
  qed
  show "slot_table (ids(mid \<mapsto> row(tid := None))) heap' m n =
       (if m = mid \<and> n = tid then None else slot_table ids heap m n)"
  proof (cases "m = mid \<and> n = tid")
    case True
    then show ?thesis by (auto simp: slot_table_def)
  next
    case False
    then have "slot_table (ids(mid \<mapsto> row(tid := None))) heap' m n = slot_table ids heap m n"
      using sl [of m n] ne [of m n] h by (intro slot_table_cong) auto
    with False show ?thesis by auto
  qed
qed

end

end
