(* ===== verification/Eina_Safepointer.thy ===== *)
theory Eina_Safepointer
  imports Id_Tables
begin

text \<open>
  The safe pointers of \<open>src/lib/shared/safe/eina_safepointer.c\<close> and
  \<open>src/lib/shared/data/eina_inline_safepointer.x\<close>, with the trash stack of
  \<open>eina_inline_trash.x\<close>, in the 47-bit layout of 64-bit builds. An id packs the indices of a
  mid table, a leaf table, an entry and a generation; leaf tables are objects of a heap,
  found through their slot in the mid tables. An access through a null or dangling table
  pointer, or past the end of a mid table, is \<open>None\<close>.
\<close>

unbundle bit_operations_syntax

section \<open>Ids\<close>

definition EINA_MAX_MID_TABLE_ID :: nat where "EINA_MAX_MID_TABLE_ID = 2 ^ 11"
definition EINA_MAX_TABLE_ID :: nat where "EINA_MAX_TABLE_ID = 2 ^ 11 - 2"
definition EINA_MAX_ENTRY_ID :: nat where "EINA_MAX_ENTRY_ID = 2 ^ 12 - 2"
definition EINA_MAX_GENERATIONS :: nat where "EINA_MAX_GENERATIONS = 2 ^ 11"

lemmas sp_consts = EINA_MAX_MID_TABLE_ID_def EINA_MAX_TABLE_ID_def EINA_MAX_ENTRY_ID_def EINA_MAX_GENERATIONS_def

text \<open>
  The shifts are those of the fields from the lowest on: two bits free, 11 of generation, 12
  of entry, 11 of table and 11 of mid table.
\<close>

definition SP_COMPOSE_PARTIAL_ID :: "nat \<Rightarrow> nat \<Rightarrow> u64" where
  "SP_COMPOSE_PARTIAL_ID mid_table table =
     push_bit 36 (of_nat mid_table AND mask 11) OR push_bit 25 (of_nat table AND mask 11)"

definition SP_COMPOSE_FINAL_ID :: "u64 \<Rightarrow> nat \<Rightarrow> nat \<Rightarrow> u64" where
  "SP_COMPOSE_FINAL_ID partial entry generation =
     partial OR push_bit 13 (of_nat entry AND mask 12) OR push_bit 2 (of_nat generation AND mask 11)"

type_synonym sp_key = "nat \<times> nat \<times> nat \<times> nat"

definition EINA_SP_DECOMPOSE_ID :: "u64 \<Rightarrow> sp_key" where
  "EINA_SP_DECOMPOSE_ID i =
     (unat (drop_bit 36 i AND mask 11), unat (drop_bit 25 i AND mask 11),
      unat (drop_bit 13 i AND mask 12), unat (drop_bit 2 i AND mask 11))"

section \<open>Tables\<close>

text \<open>
  The \<open>void *\<close> of an entry: the target of an active entry or, through the cast to
  \<open>Eina_Trash\<close>, the next recycled entry.
\<close>

datatype 'a sp_ptr = Null | Target 'a | Entry nat

record 'a Eina_Memory_Entry =
  ptr :: "'a sp_ptr"
  active :: bool
  generation :: nat

record 'a Eina_Memory_Table =
  trash :: "'a sp_ptr"
  partial_id :: u64
  start :: nat
  entries :: "nat \<Rightarrow> 'a Eina_Memory_Entry"

text \<open>The globals of the file, and the leaf tables by address.\<close>

record 'a sp_state =
  ids_tables :: id_slots
  empty_table :: "nat option"
  leafs :: "nat \<Rightarrow> 'a Eina_Memory_Table option"

definition sp_initial :: "'a sp_state" where
  "sp_initial = \<lparr>ids_tables = (\<lambda>_. None), empty_table = None, leafs = (\<lambda>_. None)\<rparr>"

text \<open>What \<open>_eina_safepointer_calloc\<close> gives for a leaf table.\<close>

definition zero_table :: "'a Eina_Memory_Table" where
  "zero_table = \<lparr>trash = Null, partial_id = 0, start = 0,
     entries = (\<lambda>_. \<lparr>ptr = Null, active = False, generation = 0\<rparr>)\<rparr>"

section \<open>The trash stack\<close>

definition eina_trash_init :: "'a sp_ptr" where
  "eina_trash_init = Null"

text \<open>Pushing links the datum before the old top; the datum is an entry of the table.\<close>

definition eina_trash_push :: "'a Eina_Memory_Table \<Rightarrow> nat \<Rightarrow> 'a Eina_Memory_Table" where
  "eina_trash_push table data =
     table\<lparr>entries := (entries table)(data := (entries table data)\<lparr>ptr := trash table\<rparr>), trash := Entry data\<rparr>"

definition eina_trash_pop :: "'a Eina_Memory_Table \<Rightarrow> ('a Eina_Memory_Table \<times> nat option) option" where
  "eina_trash_pop table =
     (case trash table of
        Null \<Rightarrow> Some (table, None)
      | Entry tmp \<Rightarrow> Some (table\<lparr>trash := ptr (entries table tmp)\<rparr>, Some tmp)
      | Target _ \<Rightarrow> None)"

section \<open>Finding a free entry\<close>

definition eina_safepointer_table_new ::
  "table_alloc \<Rightarrow> 'a sp_state \<Rightarrow> nat \<Rightarrow> nat \<Rightarrow> ('a sp_state \<times> nat option) option" where
  "eina_safepointer_table_new al st mid_table_id table_id =
     (let (st, table) =
        (case empty_table st of
           Some table \<Rightarrow> (st\<lparr>empty_table := None\<rparr>, Some table)
         | None \<Rightarrow>
             (case leaf_alloc al of
                None \<Rightarrow> (st, None)
              | Some table \<Rightarrow> (st\<lparr>leafs := (leafs st)(table \<mapsto> zero_table)\<rparr>, Some table)))
      in case table of
           None \<Rightarrow> Some (st, None)
         | Some table \<Rightarrow> do {
             t \<leftarrow> leafs st table;
             let st = st\<lparr>leafs := (leafs st)(table \<mapsto> t\<lparr>partial_id := SP_COMPOSE_PARTIAL_ID mid_table_id table_id\<rparr>)\<rparr>;
             row \<leftarrow> ids_tables st mid_table_id;
             Some (st\<lparr>ids_tables := (ids_tables st)(mid_table_id \<mapsto> row(table_id \<mapsto> table))\<rparr>, Some table)
           })"

text \<open>The loop over the slots of a mid table: what it returns, or that the outer loop goes on.\<close>

datatype sp_scan = Return "nat option" | Continue

function table_scan ::
  "table_alloc \<Rightarrow> 'a sp_state \<Rightarrow> nat \<Rightarrow> nat \<Rightarrow> ('a sp_state \<times> sp_scan) option" where
  "table_scan al st mid_table_id table_id =
     (if table_id < EINA_MAX_TABLE_ID then do {
        row \<leftarrow> ids_tables st mid_table_id;
        (st, table) \<leftarrow> (case row table_id of
            None \<Rightarrow> eina_safepointer_table_new al st mid_table_id table_id
          | Some table \<Rightarrow> Some (st, Some table));
        (case table of
           None \<Rightarrow> Some (st, Return None)
         | Some table \<Rightarrow> do {
             t \<leftarrow> leafs st table;
             if trash t \<noteq> Null \<or> start t < EINA_MAX_ENTRY_ID then Some (st, Return (Some table))
             else table_scan al st mid_table_id (table_id + 1)
           })
      } else Some (st, Continue))"
  by pat_completeness auto
termination
  by (relation "measure (\<lambda>(_, _, _, table_id). EINA_MAX_TABLE_ID - table_id)") auto

function mid_table_scan :: "table_alloc \<Rightarrow> 'a sp_state \<Rightarrow> nat \<Rightarrow> ('a sp_state \<times> nat option) option" where
  "mid_table_scan al st mid_table_id =
     (if mid_table_id < EINA_MAX_MID_TABLE_ID then
        (let st = (if ids_tables st mid_table_id = None \<and> mid_alloc al
                   then st\<lparr>ids_tables := (ids_tables st)(mid_table_id \<mapsto> (\<lambda>_. None))\<rparr> else st)
         in if ids_tables st mid_table_id = None then Some (st, None)
            else do {
              (st, r) \<leftarrow> table_scan al st mid_table_id 0;
              (case r of
                 Return table \<Rightarrow> Some (st, table)
               | Continue \<Rightarrow> mid_table_scan al st (mid_table_id + 1))
            })
      else Some (st, None))"
  by pat_completeness auto
termination
  by (relation "measure (\<lambda>(_, _, mid_table_id). EINA_MAX_MID_TABLE_ID - mid_table_id)") auto

declare table_scan.simps [simp del] mid_table_scan.simps [simp del]

definition eina_safepointer_table_find :: "table_alloc \<Rightarrow> 'a sp_state \<Rightarrow> ('a sp_state \<times> nat option) option" where
  "eina_safepointer_table_find al st = mid_table_scan al st 0"

definition eina_safepointer_entry_find :: "'a Eina_Memory_Table \<Rightarrow> ('a Eina_Memory_Table \<times> nat option) option" where
  "eina_safepointer_entry_find table =
     (if trash table \<noteq> Null then eina_trash_pop table
      else if start table < EINA_MAX_ENTRY_ID then Some (table\<lparr>start := start table + 1\<rparr>, Some (start table))
      else Some (table, None))"

section \<open>The operations\<close>

text \<open>Entries are written through; the generation is a bit field of 11 bits.\<close>

definition fill_entry :: "'a Eina_Memory_Table \<Rightarrow> nat \<Rightarrow> 'a \<Rightarrow> 'a Eina_Memory_Table" where
  "fill_entry table entry target =
     (let gen = generation (entries table entry) + 1
      in table\<lparr>entries := (entries table)(entry :=
           \<lparr>ptr = Target target, active = True,
            generation = (if gen = EINA_MAX_GENERATIONS then 1 else gen) mod 2 ^ 11\<rparr>)\<rparr>)"

definition eina_safepointer_register ::
  "table_alloc \<Rightarrow> 'a sp_state \<Rightarrow> 'a option \<Rightarrow> ('a sp_state \<times> u64) option" where
  "eina_safepointer_register al st target =
     (case target of
        None \<Rightarrow> Some (st, 0)
      | Some target \<Rightarrow> do {
          (st, table) \<leftarrow> eina_safepointer_table_find al st;
          (case table of
             None \<Rightarrow> Some (st, 0)
           | Some table \<Rightarrow> do {
               t \<leftarrow> leafs st table;
               (t, entry) \<leftarrow> eina_safepointer_entry_find t;
               (case entry of
                  None \<Rightarrow> Some (st\<lparr>leafs := (leafs st)(table \<mapsto> t)\<rparr>, 0)
                | Some entry \<Rightarrow>
                    let t = fill_entry t entry target
                    in Some (st\<lparr>leafs := (leafs st)(table \<mapsto> t)\<rparr>,
                             SP_COMPOSE_FINAL_ID (partial_id t) entry (generation (entries t entry))))
             })
        })"

text \<open>The table and the entry of an id, if it is valid.\<close>

definition eina_safepointer_entry_get :: "'a sp_state \<Rightarrow> u64 \<Rightarrow> (nat \<times> nat) option option" where
  "eina_safepointer_entry_get st safe =
     (let (mid_table_id, table_id, entry_id, gen) = EINA_SP_DECOMPOSE_ID safe
      in case ids_tables st mid_table_id of
           None \<Rightarrow> Some None
         | Some row \<Rightarrow>
             if EINA_MAX_TABLE_ID \<le> table_id then None
             else (case row table_id of
                None \<Rightarrow> Some None
              | Some table \<Rightarrow>
                  if entry_id < EINA_MAX_ENTRY_ID then do {
                    t \<leftarrow> leafs st table;
                    Some (if active (entries t entry_id) \<and> generation (entries t entry_id) = gen
                          then Some (table, entry_id) else None)
                  } else Some None))"

definition eina_safepointer_get :: "'a sp_state \<Rightarrow> u64 \<Rightarrow> 'a sp_ptr option" where
  "eina_safepointer_get st safe =
     (if safe = 0 then Some Null
      else do {
        e \<leftarrow> eina_safepointer_entry_get st safe;
        (case e of
           None \<Rightarrow> Some Null
         | Some (table, entry_id) \<Rightarrow> do {
             t \<leftarrow> leafs st table;
             Some (ptr (entries t entry_id))
           })
      })"

text \<open>The loop that looks for an active entry from the given one down; -1 if there is none.\<close>

primrec last_active :: "(nat \<Rightarrow> 'a Eina_Memory_Entry) \<Rightarrow> nat \<Rightarrow> int" where
  "last_active es 0 = (if active (es 0) then 0 else - 1)"
| "last_active es (Suc i) = (if active (es (Suc i)) then int (Suc i) else last_active es i)"

text \<open>
  Unregistering looks the id up first and takes the lock only then: the two parts are two
  steps, between which other threads may run.
\<close>

definition release_table :: "'a sp_state \<Rightarrow> nat \<Rightarrow> 'a Eina_Memory_Table \<Rightarrow> 'a sp_state option" where
  "release_table st table t =
     (let mid_table_id = unat (drop_bit 36 (partial_id t) AND mask 11);
          table_id = unat (drop_bit 25 (partial_id t) AND mask 11)
      in do {
        row \<leftarrow> ids_tables st mid_table_id;
        if EINA_MAX_TABLE_ID \<le> table_id then None
        else
          (let st = st\<lparr>ids_tables := (ids_tables st)(mid_table_id \<mapsto> row(table_id := None))\<rparr>
           in if empty_table st = None then Some (st\<lparr>empty_table := Some table\<rparr>)
              else Some (st\<lparr>leafs := (leafs st)(table := None)\<rparr>))
      })"

definition unregister_locked :: "'a sp_state \<Rightarrow> nat \<Rightarrow> nat \<Rightarrow> 'a sp_state option" where
  "unregister_locked st table entry_id = do {
     t \<leftarrow> leafs st table;
     if \<not> active (entries t entry_id) then Some st
     else
       (let t = t\<lparr>entries := (entries t)(entry_id := (entries t entry_id)\<lparr>active := False\<rparr>)\<rparr>;
            t = eina_trash_push t entry_id;
            st = st\<lparr>leafs := (leafs st)(table \<mapsto> t)\<rparr>
        in if entry_id = EINA_MAX_ENTRY_ID - 1 \<and> last_active (entries t) entry_id = - 1
           then release_table st table t
           else Some st)
   }"

definition eina_safepointer_unregister :: "'a sp_state \<Rightarrow> u64 \<Rightarrow> 'a sp_state option" where
  "eina_safepointer_unregister st safe =
     (if safe = 0 then Some st
      else do {
        e \<leftarrow> eina_safepointer_entry_get st safe;
        (case e of
           None \<Rightarrow> Some st
         | Some (table, entry_id) \<Rightarrow> unregister_locked st table entry_id)
      })"

end
