(* ===== verification/Eina_Safepointer_Laws.thy ===== *)
theory Eina_Safepointer_Laws
  imports Eina_Safepointer
begin

text \<open>
  What the operations of the safe pointers do to the tables: the fields of an id, the
  invariant of a leaf table and of the whole, and the pointers that are registered.
\<close>

unbundle bit_operations_syntax

section \<open>Ids\<close>

lemma sp_id_fields:
  "drop_bit 36 (SP_COMPOSE_FINAL_ID (SP_COMPOSE_PARTIAL_ID mid tid) e g) AND mask 11 = take_bit 11 (of_nat mid)"
  "drop_bit 25 (SP_COMPOSE_FINAL_ID (SP_COMPOSE_PARTIAL_ID mid tid) e g) AND mask 11 = take_bit 11 (of_nat tid)"
  "drop_bit 13 (SP_COMPOSE_FINAL_ID (SP_COMPOSE_PARTIAL_ID mid tid) e g) AND mask 12 = take_bit 12 (of_nat e)"
  "drop_bit 2 (SP_COMPOSE_FINAL_ID (SP_COMPOSE_PARTIAL_ID mid tid) e g) AND mask 11 = take_bit 11 (of_nat g)"
  "drop_bit 36 (SP_COMPOSE_PARTIAL_ID mid tid) AND mask 11 = take_bit 11 (of_nat mid)"
  "drop_bit 25 (SP_COMPOSE_PARTIAL_ID mid tid) AND mask 11 = take_bit 11 (of_nat tid)"
  unfolding SP_COMPOSE_FINAL_ID_def SP_COMPOSE_PARTIAL_ID_def
  by (rule bit_word_eqI; simp only: field_bit bit_or_iff; auto)+

lemma sp_decompose_compose:
  assumes "mid < EINA_MAX_MID_TABLE_ID" "tid < EINA_MAX_TABLE_ID" "e < EINA_MAX_ENTRY_ID" "g < EINA_MAX_GENERATIONS"
  shows "EINA_SP_DECOMPOSE_ID (SP_COMPOSE_FINAL_ID (SP_COMPOSE_PARTIAL_ID mid tid) e g) = (mid, tid, e, g)"
  using assms unfolding EINA_SP_DECOMPOSE_ID_def sp_id_fields by (simp add: field_value sp_consts)

lemma sp_partial_id_fields:
  assumes "mid < EINA_MAX_MID_TABLE_ID" "tid < EINA_MAX_TABLE_ID"
  shows "unat (drop_bit 36 (SP_COMPOSE_PARTIAL_ID mid tid) AND mask 11) = mid"
    "unat (drop_bit 25 (SP_COMPOSE_PARTIAL_ID mid tid) AND mask 11) = tid"
  using assms unfolding sp_id_fields by (simp_all add: field_value sp_consts)

section \<open>Leaf tables\<close>

fun trash_chain :: "(nat \<Rightarrow> 'a Eina_Memory_Entry) \<Rightarrow> 'a sp_ptr \<Rightarrow> nat list \<Rightarrow> bool" where
  "trash_chain es p [] \<longleftrightarrow> p = Null"
| "trash_chain es p (x # xs) \<longleftrightarrow> p = Entry x \<and> trash_chain es (ptr (es x)) xs"

text \<open>
  The trash holds exactly the entries before \<open>start\<close> that are not active, each once. Used
  entries have a generation from 1 on; the others were never written.
\<close>

definition table_ok :: "'a Eina_Memory_Table \<Rightarrow> bool" where
  "table_ok t \<longleftrightarrow> start t \<le> EINA_MAX_ENTRY_ID
     \<and> (\<exists>xs. trash_chain (entries t) (trash t) xs \<and> distinct xs
          \<and> set xs = {e. e < start t \<and> \<not> active (entries t e)})
     \<and> (\<forall>e. if e < start t then 0 < generation (entries t e) \<and> generation (entries t e) < EINA_MAX_GENERATIONS
             else \<not> active (entries t e) \<and> generation (entries t e) = 0)
     \<and> (\<forall>e. active (entries t e) \<longrightarrow> (\<exists>x. ptr (entries t e) = Target x))"

definition room :: "'a Eina_Memory_Table \<Rightarrow> bool" where
  "room t \<longleftrightarrow> trash t \<noteq> Null \<or> start t < EINA_MAX_ENTRY_ID"

definition entry_live :: "'a Eina_Memory_Table \<Rightarrow> nat \<Rightarrow> nat \<Rightarrow> 'a option" where
  "entry_live t e g =
     (if active (entries t e) \<and> generation (entries t e) = g
      then (case ptr (entries t e) of Target x \<Rightarrow> Some x | _ \<Rightarrow> None) else None)"

lemma trash_chain_upd: "x \<notin> set xs \<Longrightarrow> trash_chain (es(x := n)) p xs = trash_chain es p xs"
  by (induction xs arbitrary: p) auto

lemma zero_table_ok: "table_ok zero_table" "\<not> active (entries zero_table e)"
  by (auto simp: table_ok_def zero_table_def intro: exI [of _ "[]"])

lemma table_ok_partial_id [simp]: "table_ok (t\<lparr>partial_id := i\<rparr>) = table_ok t"
  by (simp add: table_ok_def)

lemma active_bounds:
  assumes "table_ok t" "active (entries t e)"
  shows "e < start t" "e < EINA_MAX_ENTRY_ID" "0 < generation (entries t e)"
proof -
  show "e < start t" using assms unfolding table_ok_def by metis
  with assms(1) show "e < EINA_MAX_ENTRY_ID" "0 < generation (entries t e)"
    by (auto simp: table_ok_def)
qed

lemma generation_bound:
  assumes "table_ok t"
  shows "generation (entries t e) < EINA_MAX_GENERATIONS"
proof -
  from assms have "if e < start t then generation (entries t e) < EINA_MAX_GENERATIONS else generation (entries t e) = 0"
    unfolding table_ok_def by metis
  then show ?thesis
    by (auto simp: sp_consts split: if_splits)
qed

lemma room_iff: "table_ok t \<Longrightarrow> room t \<longleftrightarrow> (\<exists>e < EINA_MAX_ENTRY_ID. \<not> active (entries t e))"
proof -
  assume ok: "table_ok t"
  then obtain xs where xs: "trash_chain (entries t) (trash t) xs" "set xs = {e. e < start t \<and> \<not> active (entries t e)}"
    by (auto simp: table_ok_def)
  from ok have s: "start t \<le> EINA_MAX_ENTRY_ID" "\<not> active (entries t (start t))"
    by (auto simp: table_ok_def)
  show ?thesis
  proof (cases xs)
    case Nil
    with xs s have "\<not> (\<exists>e < start t. \<not> active (entries t e))" "trash t = Null"
      by auto
    with s show ?thesis
      by (cases "start t = EINA_MAX_ENTRY_ID") (auto simp: room_def intro: exI [of _ "start t"])
  next
    case (Cons x ys)
    with xs(2) have "x < start t \<and> \<not> active (entries t x)"
      by (metis (no_types, lifting) list.set_intros(1) mem_Collect_eq)
    moreover from Cons xs(1) have "trash t \<noteq> Null"
      by simp
    ultimately show ?thesis
      using s(1) by (auto simp: room_def intro: exI [of _ x])
  qed
qed


text \<open>Taking an entry and filling it: an entry that was not active gets a generation of its own.\<close>

lemma entry_find_fill:
  assumes ok: "table_ok t" and r: "room t"
  obtains t1 e g where "eina_safepointer_entry_find t = Some (t1, Some e)" "\<not> active (entries t e)"
    "e < EINA_MAX_ENTRY_ID" "0 < g" "g < EINA_MAX_GENERATIONS" "table_ok (fill_entry t1 e x)"
    "partial_id (fill_entry t1 e x) = partial_id t"
    "entries (fill_entry t1 e x) = (entries t)(e := \<lparr>ptr = Target x, active = True, generation = g\<rparr>)"
    "g = (let gen = generation (entries t e) + 1 in if gen = EINA_MAX_GENERATIONS then 1 else gen)"
proof -
  from ok obtain xs where xs: "trash_chain (entries t) (trash t) xs" "distinct xs"
    "set xs = {e. e < start t \<and> \<not> active (entries t e)}"
    by (auto simp: table_ok_def)
  define g where "g e = (let gen = generation (entries t e) + 1 in if gen = EINA_MAX_GENERATIONS then 1 else gen)" for e
  have g: "0 < g e" "g e < EINA_MAX_GENERATIONS" for e
    using generation_bound [OF ok, of e] by (auto simp: g_def Let_def Suc_lessI) (simp add: sp_consts)
  have m: "g e mod 2 ^ 11 = g e" for e
    using g(2) [of e] by (simp add: sp_consts)
  have es: "entries (fill_entry t' e x) = (entries t)(e := \<lparr>ptr = Target x, active = True, generation = g e\<rparr>)"
    "start (fill_entry t' e x) = start t'" "trash (fill_entry t' e x) = trash t'" "partial_id (fill_entry t' e x) = partial_id t'"
    if "entries t' = entries t" for t' e
    using that m [of e] by (simp_all add: fill_entry_def g_def Let_def)
  show ?thesis
  proof (cases xs)
    case Nil
    with xs r have s: "trash t = Null" "start t < EINA_MAX_ENTRY_ID" "\<forall>e < start t. active (entries t e)"
      by (auto simp: room_def)
    let ?t = "fill_entry (t\<lparr>start := start t + 1\<rparr>) (start t) x"
    have "table_ok ?t"
      using ok s g [of "start t"] es [of "t\<lparr>start := start t + 1\<rparr>" "start t"]
      by (auto simp: table_ok_def less_Suc_eq intro!: exI [of _ "[]"])
    moreover have "\<not> active (entries t (start t))"
      using ok by (auto simp: table_ok_def)
    ultimately show ?thesis
      using that [of "t\<lparr>start := start t + 1\<rparr>" "start t" "g (start t)"] s g es
      by (simp add: eina_safepointer_entry_find_def g_def)
  next
    case (Cons e ys)
    with xs have e: "trash t = Entry e" "trash_chain (entries t) (ptr (entries t e)) ys" "e \<notin> set ys" "distinct ys"
      "e < start t" "\<not> active (entries t e)" "set ys = {e'. e' < start t \<and> \<not> active (entries t e') \<and> e' \<noteq> e}"
      by auto
    let ?t1 = "t\<lparr>trash := ptr (entries t e)\<rparr>"
    have "trash_chain ((entries t)(e := n)) (ptr (entries t e)) ys" for n
      using e(2,3) by (simp add: trash_chain_upd)
    then have "table_ok (fill_entry ?t1 e x)"
      using ok e(4-7) g [of e] es [of ?t1 e] unfolding table_ok_def by (auto intro!: exI [of _ ys])
    moreover have "e < EINA_MAX_ENTRY_ID"
      using e(5) ok by (auto simp: table_ok_def)
    ultimately show ?thesis
      using that [of ?t1 e "g e"] e g es
      by (simp add: eina_safepointer_entry_find_def eina_trash_pop_def g_def)
  qed
qed

text \<open>Putting an active entry into the trash.\<close>

definition drop_entry :: "'a Eina_Memory_Table \<Rightarrow> nat \<Rightarrow> 'a Eina_Memory_Table" where
  "drop_entry t e = eina_trash_push (t\<lparr>entries := (entries t)(e := (entries t e)\<lparr>active := False\<rparr>)\<rparr>) e"

lemma drop_entry_fields [simp]:
  "partial_id (drop_entry t e) = partial_id t" "start (drop_entry t e) = start t"
  "entries (drop_entry t e) = (entries t)(e := \<lparr>ptr = trash t, active = False, generation = generation (entries t e)\<rparr>)"
  "trash (drop_entry t e) = Entry e"
  by (auto simp: drop_entry_def eina_trash_push_def intro!: ext)

lemma drop_entry_ok:
  assumes ok: "table_ok t" and e: "active (entries t e)"
  shows "table_ok (drop_entry t e)"
proof -
  from ok obtain xs where xs: "trash_chain (entries t) (trash t) xs" "distinct xs"
    "set xs = {e. e < start t \<and> \<not> active (entries t e)}"
    by (auto simp: table_ok_def)
  then have "trash_chain ((entries t)(e := n)) (trash t) xs" for n
    using e by (subst trash_chain_upd) auto
  with ok xs e active_bounds(1) [OF ok e] show ?thesis
    unfolding table_ok_def by (auto intro!: exI [of _ "e # xs"])
qed

lemma last_active_none: "last_active es e = - 1 \<longleftrightarrow> (\<forall>i \<le> e. \<not> active (es i))"
  by (induction e) (auto simp: le_Suc_eq)

lemma no_active_iff:
  "table_ok t \<Longrightarrow> last_active (entries t) (EINA_MAX_ENTRY_ID - 1) = - 1 \<longleftrightarrow> (\<forall>i. \<not> active (entries t i))"
  using active_bounds(2) [of t] by (fastforce simp: last_active_none sp_consts)


section \<open>The whole\<close>

definition sp_table_ok :: "nat \<Rightarrow> nat \<Rightarrow> 'a Eina_Memory_Table \<Rightarrow> bool" where
  "sp_table_ok mid tid t \<longleftrightarrow> mid < EINA_MAX_MID_TABLE_ID \<and> tid < EINA_MAX_TABLE_ID
     \<and> table_ok t \<and> partial_id t = SP_COMPOSE_PARTIAL_ID mid tid"

interpretation spt: id_tables sp_table_ok
proof
  show "sp_table_ok m n t \<Longrightarrow> sp_table_ok m' n' t \<Longrightarrow> m' = m \<and> n' = n" for m n m' n' and t :: "'a Eina_Memory_Table"
    using sp_partial_id_fields [of m n] sp_partial_id_fields [of m' n'] by (auto simp: sp_table_ok_def)
qed

abbreviation sp_tab :: "'a sp_state \<Rightarrow> nat \<Rightarrow> nat \<Rightarrow> 'a Eina_Memory_Table option" where
  "sp_tab st \<equiv> slot_table (ids_tables st) (leafs st)"

text \<open>The pointers that are registered, by the fields of their id.\<close>

definition sp_live :: "'a sp_state \<Rightarrow> sp_key \<Rightarrow> 'a option" where
  "sp_live st = tables_live entry_live (sp_tab st)"

definition sp_inv :: "'a sp_state \<Rightarrow> bool" where
  "sp_inv st \<longleftrightarrow> slots_ok sp_table_ok (ids_tables st) (leafs st)
     \<and> (\<forall>a. empty_table st = Some a \<longrightarrow> (\<forall>m n. \<not> slot_at (ids_tables st) m n a)
          \<and> (\<exists>t. leafs st a = Some t \<and> table_ok t \<and> (\<forall>e. \<not> active (entries t e))))"

lemma sp_invD: "sp_inv st \<Longrightarrow> slots_ok sp_table_ok (ids_tables st) (leafs st)"
  by (simp add: sp_inv_def)

lemma sp_slotD:
  assumes "sp_inv st" "slot_at (ids_tables st) mid tid a"
  obtains t where "leafs st a = Some t" "table_ok t" "partial_id t = SP_COMPOSE_PARTIAL_ID mid tid"
    "mid < EINA_MAX_MID_TABLE_ID" "tid < EINA_MAX_TABLE_ID"
  by (rule slots_okD [OF sp_invD [OF assms(1)] assms(2)]) (simp add: sp_table_ok_def that)

lemma sp_tabD:
  assumes "sp_inv st" "sp_tab st mid tid = Some t"
  shows "table_ok t" "mid < EINA_MAX_MID_TABLE_ID" "tid < EINA_MAX_TABLE_ID"
  by (rule slot_tableD [OF sp_invD [OF assms(1)] assms(2)], simp add: sp_table_ok_def)+

lemma sp_initial_inv: "sp_inv sp_initial"
  by (simp add: sp_inv_def sp_initial_def slots_ok_def slot_at_def)

lemma sp_initial_live: "sp_live sp_initial = (\<lambda>_. None)"
  by (auto simp: sp_live_def sp_initial_def slot_table_def tables_live_def)

text \<open>Writing the table of a slot.\<close>

definition leaf_upd :: "'a sp_state \<Rightarrow> nat \<Rightarrow> 'a Eina_Memory_Table \<Rightarrow> 'a sp_state" where
  "leaf_upd st a t = st\<lparr>leafs := (leafs st)(a \<mapsto> t)\<rparr>"

lemma leaf_upd_simps [simp]:
  "leafs (leaf_upd st a t) = (leafs st)(a \<mapsto> t)" "ids_tables (leaf_upd st a t) = ids_tables st"
  "empty_table (leaf_upd st a t) = empty_table st"
  by (auto simp: leaf_upd_def)

lemma leaf_upd_inv:
  assumes inv: "sp_inv st" and s: "slot_at (ids_tables st) mid tid a" and t: "sp_table_ok mid tid t"
  shows "sp_inv (leaf_upd st a t)"
    "sp_tab (leaf_upd st a t) m n = (if m = mid \<and> n = tid then Some t else sp_tab st m n)"
  using spt.write_leaf [OF sp_invD [OF inv] s t] inv s by (auto simp: sp_inv_def)

section \<open>Finding a table\<close>

definition slots_kept :: "'a sp_state \<Rightarrow> 'a sp_state \<Rightarrow> bool" where
  "slots_kept st st' \<longleftrightarrow> (\<forall>mid tid t. sp_tab st mid tid = Some t \<longrightarrow> sp_tab st' mid tid = Some t)"

text \<open>What a search that answers \<open>r\<close> may have done.\<close>

definition found :: "'a sp_state \<Rightarrow> 'a sp_state \<Rightarrow> nat option \<Rightarrow> bool" where
  "found st st' r \<longleftrightarrow> sp_inv st' \<and> sp_live st' = sp_live st \<and> slots_kept st st'
     \<and> (case r of None \<Rightarrow> slot_at (ids_tables st') = slot_at (ids_tables st) \<and> leafs st' = leafs st
        | Some a \<Rightarrow> \<exists>mid tid t. slot_at (ids_tables st') mid tid a \<and> leafs st' a = Some t \<and> room t)"

lemma no_active_room: "table_ok t \<Longrightarrow> (\<And>e. \<not> active (entries t e)) \<Longrightarrow> room t"
  by (auto simp: room_iff sp_consts intro: exI [of _ 0])

text \<open>Putting an unused table into a free slot registers nothing.\<close>

lemma table_new_finds:
  assumes inv: "sp_inv st" and fr: "leaf_fresh al (leafs st)" and row: "ids_tables st mid = Some row" "row tid = None"
    and ids: "mid < EINA_MAX_MID_TABLE_ID" "tid < EINA_MAX_TABLE_ID"
  obtains st' r where "eina_safepointer_table_new al st mid tid = Some (st', r)" "found st st' r"
    "r = None \<longleftrightarrow> empty_table st = None \<and> leaf_alloc al = None"
proof -
  note result = that
  have step: thesis if a: "empty_table st = Some a \<and> leafs st a = Some t \<or> empty_table st = None \<and> leaf_alloc al = Some a \<and> leafs st a = None \<and> t = zero_table"
    and t: "table_ok t" "\<And>e. \<not> active (entries t e)" for a t
  proof -
    let ?t = "t\<lparr>partial_id := SP_COMPOSE_PARTIAL_ID mid tid\<rparr>"
    let ?st = "st\<lparr>empty_table := None, leafs := (leafs st)(a \<mapsto> ?t), ids_tables := (ids_tables st)(mid \<mapsto> row(tid \<mapsto> a))\<rparr>"
    have free: "\<not> slot_at (ids_tables st) m n a" for m n
      using a inv unmapped_no_slot [OF sp_invD [OF inv], of a m n] by (auto simp: sp_inv_def)
    have ok: "sp_table_ok mid tid ?t"
      using t(1) ids by (simp add: sp_table_ok_def)
    have none: "sp_tab st mid tid = None"
      using row by (simp add: slot_table_def)
    note p = spt.place_leaf [OF sp_invD [OF inv] row(1) ok free]
    have tab: "sp_tab ?st = (\<lambda>m n. if m = mid \<and> n = tid then Some ?t else sp_tab st m n)"
      using p(2) by (intro ext) simp
    have "sp_live ?st q = sp_live st q" for q
      unfolding sp_live_def tab using t(2) none by (cases q) (simp add: entry_live_def)
    then have "sp_live ?st = sp_live st" ..
    moreover have "sp_inv ?st"
      using p(1) by (simp add: sp_inv_def)
    moreover have "slots_kept st ?st"
      unfolding slots_kept_def tab using none by auto
    moreover have "slot_at (ids_tables ?st) mid tid a" "leafs ?st a = Some ?t" "room ?t"
      using no_active_room [of ?t] t by (auto simp: slot_at_def)
    moreover have "eina_safepointer_table_new al st mid tid = Some (?st, Some a)"
      using a row by (auto simp: eina_safepointer_table_new_def Let_def)
    ultimately show thesis
      using result [of ?st "Some a"] a by (auto simp: found_def)
  qed
  show thesis
  proof (cases "empty_table st")
    case (Some a)
    with inv step show ?thesis by (auto simp: sp_inv_def)
  next
    case None
    show ?thesis
    proof (cases "leaf_alloc al")
      case None
      with \<open>empty_table st = None\<close> inv result [of st None] show ?thesis
        by (auto simp: eina_safepointer_table_new_def found_def slots_kept_def)
    next
      case (Some a)
      with None fr step zero_table_ok show ?thesis by (auto simp: leaf_fresh_def)
    qed
  qed
qed

text \<open>The loops: when they go on, no table of the mid table has room.\<close>

definition full_slot :: "'a sp_state \<Rightarrow> nat \<Rightarrow> nat \<Rightarrow> bool" where
  "full_slot st mid tid \<longleftrightarrow> (\<exists>t. sp_tab st mid tid = Some t \<and> \<not> room t)"

definition scanned :: "table_alloc \<Rightarrow> 'a sp_state \<Rightarrow> nat \<Rightarrow> nat \<Rightarrow> 'a sp_state \<times> sp_scan \<Rightarrow> bool" where
  "scanned al st mid tid = (\<lambda>(st', r). case r of
       Return x \<Rightarrow> found st st' x \<and> (x = None \<longrightarrow> leaf_alloc al = None)
     | Continue \<Rightarrow> st' = st \<and> (\<forall>n. tid \<le> n \<and> n < EINA_MAX_TABLE_ID \<longrightarrow> full_slot st mid n))"

lemma scanned_next: "scanned al st mid (tid + 1) x \<Longrightarrow> full_slot st mid tid \<Longrightarrow> scanned al st mid tid x"
  by (auto simp: scanned_def le_less Suc_le_eq split: sp_scan.splits)

lemma table_scan_finds:
  assumes "sp_inv st" "leaf_fresh al (leafs st)" "ids_tables st mid = Some row" "mid < EINA_MAX_MID_TABLE_ID"
  shows "\<exists>x. table_scan al st mid tid = Some x \<and> scanned al st mid tid x"
  using assms
proof (induction al st mid tid rule: table_scan.induct)
  case (1 al st mid tid)
  show ?case
  proof (cases "tid < EINA_MAX_TABLE_ID")
    case False
    then show ?thesis by (subst table_scan.simps) (auto simp: scanned_def)
  next
    case tid: True
    show ?thesis
    proof (cases "row tid")
      case None
      obtain st' r where n: "eina_safepointer_table_new al st mid tid = Some (st', r)" "found st st' r"
        "r = None \<longleftrightarrow> empty_table st = None \<and> leaf_alloc al = None"
        using table_new_finds [OF "1.prems"(1,2,3) None "1.prems"(4) tid] by blast
      then have "table_scan al st mid tid = Some (st', Return r)"
        using tid None "1.prems"(3) by (subst table_scan.simps) (auto simp: found_def room_def split: option.splits)
      with n(2,3) show ?thesis
        by (simp add: scanned_def)
    next
      case (Some a)
      then have s: "slot_at (ids_tables st) mid tid a" using "1.prems"(3) by (simp add: slot_at_def)
      obtain t where t: "leafs st a = Some t"
        using slots_okD [OF sp_invD [OF "1.prems"(1)] s] by blast
      show ?thesis
      proof (cases "room t")
        case True
        then have "table_scan al st mid tid = Some (st, Return (Some a))"
          using t tid Some "1.prems"(3) by (subst table_scan.simps) (auto simp: room_def)
        moreover have "found st st (Some a)"
          using True s t "1.prems"(1) by (auto simp: found_def slots_kept_def)
        ultimately show ?thesis
          by (simp add: scanned_def)
      next
        case False
        with s t tid Some "1.prems"(3) have e: "table_scan al st mid tid = table_scan al st mid (tid + 1)"
          by (subst table_scan.simps) (auto simp: room_def)
        have "\<exists>x. table_scan al st mid (tid + 1) = Some x \<and> scanned al st mid (tid + 1) x"
          by (rule "1.IH") (use tid Some t False "1.prems" in \<open>auto simp: room_def\<close>)
        moreover have "full_slot st mid tid"
          using s t False by (auto simp: full_slot_def slot_tableI)
        ultimately show ?thesis
          unfolding e using scanned_next by blast
      qed
    qed
  qed
qed


lemma same_tables:
  assumes "slot_at (ids_tables st') = slot_at (ids_tables st)" "leafs st' = leafs st"
  shows "sp_tab st' = sp_tab st" "sp_live st' = sp_live st" "full_slot st' = full_slot st"
proof -
  show *: "sp_tab st' = sp_tab st"
    using same_slots [OF assms(1)] assms(2) by metis
  show "sp_live st' = sp_live st" "full_slot st' = full_slot st"
    by (auto simp: sp_live_def full_slot_def * fun_eq_iff)
qed

lemma found_trans:
  "found st1 st' r \<Longrightarrow> slot_at (ids_tables st1) = slot_at (ids_tables st) \<Longrightarrow> leafs st1 = leafs st \<Longrightarrow> found st st' r"
  using same_tables [of st1 st] by (auto simp: found_def slots_kept_def split: option.splits)

definition mid_new :: "table_alloc \<Rightarrow> 'a sp_state \<Rightarrow> nat \<Rightarrow> 'a sp_state" where
  "mid_new al st mid = (if ids_tables st mid = None \<and> mid_alloc al
     then st\<lparr>ids_tables := (ids_tables st)(mid \<mapsto> (\<lambda>_. None))\<rparr> else st)"

lemma mid_new:
  shows "slot_at (ids_tables (mid_new al st mid)) = slot_at (ids_tables st)" "leafs (mid_new al st mid) = leafs st"
    "sp_inv st \<Longrightarrow> sp_inv (mid_new al st mid)"
    "ids_tables (mid_new al st mid) mid = None \<Longrightarrow> \<not> mid_alloc al"
proof -
  show s: "slot_at (ids_tables (mid_new al st mid)) = slot_at (ids_tables st)" "leafs (mid_new al st mid) = leafs st"
    by (simp_all add: mid_new_def slot_at_new_row)
  have e: "empty_table (mid_new al st mid) = empty_table st"
    by (simp add: mid_new_def)
  show "sp_inv st \<Longrightarrow> sp_inv (mid_new al st mid)"
    by (simp add: sp_inv_def slots_ok_def s e)
qed (auto simp: mid_new_def split: if_splits)

definition all_full :: "'a sp_state \<Rightarrow> nat \<Rightarrow> bool" where
  "all_full st mid \<longleftrightarrow> (\<forall>m n. mid \<le> m \<and> m < EINA_MAX_MID_TABLE_ID \<and> n < EINA_MAX_TABLE_ID \<longrightarrow> full_slot st m n)"

lemma all_full_step:
  "all_full st (mid + 1) \<Longrightarrow> \<forall>n < EINA_MAX_TABLE_ID. full_slot st mid n \<Longrightarrow> all_full st mid"
  unfolding all_full_def by (metis Suc_eq_plus1 not_less_eq_eq le_antisym)

lemma mid_table_scan_finds:
  assumes "sp_inv st" "leaf_fresh al (leafs st)"
  shows "\<exists>st' r. mid_table_scan al st mid = Some (st', r) \<and> found st st' r
    \<and> (r = None \<longrightarrow> \<not> mid_alloc al \<or> leaf_alloc al = None \<or> all_full st' mid)"
  using assms
proof (induction al st mid rule: mid_table_scan.induct)
  case (1 al st mid)
  let ?st = "mid_new al st mid"
  note m = mid_new [where al = al and st = st and mid = mid]
  have e: "mid_table_scan al st mid =
     (if mid < EINA_MAX_MID_TABLE_ID then
        if ids_tables ?st mid = None then Some (?st, None)
        else do {
          (st, r) \<leftarrow> table_scan al ?st mid 0;
          (case r of Return table \<Rightarrow> Some (st, table) | Continue \<Rightarrow> mid_table_scan al st (mid + 1))
        }
      else Some (st, None))"
    by (subst mid_table_scan.simps) (simp only: mid_new_def Let_def)
  show ?case
  proof (cases "mid < EINA_MAX_MID_TABLE_ID")
    case False
    with "1.prems" e show ?thesis by (auto simp: found_def all_full_def slots_kept_def)
  next
    case mid: True
    show ?thesis
    proof (cases "ids_tables ?st mid")
      case None
      with mid e m(4) have "mid_table_scan al st mid = Some (?st, None)" "\<not> mid_alloc al" by auto
      moreover have "found st ?st None"
        using m "1.prems" same_tables [OF m(1,2)] by (simp add: found_def slots_kept_def)
      ultimately show ?thesis by simp
    next
      case (Some row)
      obtain x where x: "table_scan al ?st mid 0 = Some x" "scanned al ?st mid 0 x"
        using table_scan_finds [of ?st al mid row 0] m "1.prems" Some mid by auto
      obtain st1 r where x1: "x = (st1, r)" by fastforce
      show ?thesis
      proof (cases r)
        case (Return a)
        with x x1 e mid Some have "mid_table_scan al st mid = Some (st1, a)" by simp
        with Return x(2) x1 found_trans [OF _ m(1,2)] show ?thesis
          by (auto simp: scanned_def)
      next
        case Continue
        with x x1 have s: "st1 = ?st" "\<forall>n < EINA_MAX_TABLE_ID. full_slot ?st mid n"
          by (auto simp: scanned_def)
        have "\<exists>st' r. mid_table_scan al ?st (mid + 1) = Some (st', r) \<and> found ?st st' r
            \<and> (r = None \<longrightarrow> \<not> mid_alloc al \<or> leaf_alloc al = None \<or> all_full st' (mid + 1))"
          by (rule "1.IH" [OF mid mid_new_def _ x(1)]) (simp_all add: x1 s(1) m "1.prems" Continue Some)
        then obtain st' r' where st': "mid_table_scan al ?st (mid + 1) = Some (st', r')" "found ?st st' r'"
          "r' = None \<longrightarrow> \<not> mid_alloc al \<or> leaf_alloc al = None \<or> all_full st' (mid + 1)"
          by blast
        have "all_full st' mid" if "r' = None" "all_full st' (mid + 1)"
          by (rule all_full_step) (use that s(2) st'(2) same_tables(3) [of st' ?st] in \<open>simp_all add: found_def\<close>)
        moreover have "mid_table_scan al st mid = Some (st', r')"
          unfolding e x(1) x1 s(1) Continue using mid Some st'(1) by simp
        ultimately show ?thesis
          using st'(3) found_trans [OF st'(2) m(1,2)] by blast
      qed
    qed
  qed
qed

end
