(* ===== verification/Eina_Safepointer_Ops.thy ===== *)
theory Eina_Safepointer_Ops
  imports Eina_Safepointer_Laws
begin

text \<open>
  What each operation of the safe pointers does to the registered pointers and to the leaf
  tables.
\<close>

unbundle bit_operations_syntax

section \<open>Registering\<close>

abbreviation next_gen :: "nat \<Rightarrow> nat" where
  "next_gen \<equiv> cycle_next EINA_MAX_GENERATIONS"

lemma register_effect:
  assumes inv: "sp_inv st" and fr: "leaf_fresh al (leafs st)"
  obtains (none) st' where "eina_safepointer_register al st (Some x) = Some (st', 0)" "found st st' None"
      "\<not> mid_alloc al \<or> leaf_alloc al = None \<or> all_full st' 0"
    | (some) st1 mid tid a t e t' where
      "eina_safepointer_register al st (Some x) =
         Some (leaf_upd st1 a t', SP_COMPOSE_FINAL_ID (SP_COMPOSE_PARTIAL_ID mid tid) e (next_gen (generation (entries t e))))"
      "found st st1 (Some a)" "slot_at (ids_tables st1) mid tid a" "leafs st1 a = Some t" "sp_inv (leaf_upd st1 a t')"
      "mid < EINA_MAX_MID_TABLE_ID" "tid < EINA_MAX_TABLE_ID" "e < EINA_MAX_ENTRY_ID" "\<not> active (entries t e)"
      "0 < next_gen (generation (entries t e))" "next_gen (generation (entries t e)) < EINA_MAX_GENERATIONS"
      "entries t' = (entries t)(e := \<lparr>ptr = Target x, active = True, generation = next_gen (generation (entries t e))\<rparr>)"
      "\<And>m n. sp_tab (leaf_upd st1 a t') m n = (if m = mid \<and> n = tid then Some t' else sp_tab st1 m n)"
proof -
  obtain st1 r where f: "eina_safepointer_table_find al st = Some (st1, r)" "found st st1 r"
    "r = None \<longrightarrow> \<not> mid_alloc al \<or> leaf_alloc al = None \<or> all_full st1 0"
    using mid_table_scan_finds [OF inv fr, of 0] unfolding eina_safepointer_table_find_def by blast
  show thesis
  proof (cases r)
    case None
    with f none [of st1] show ?thesis
      by (simp add: eina_safepointer_register_def)
  next
    case (Some a)
    with f(2) obtain mid tid t where s: "slot_at (ids_tables st1) mid tid a" "leafs st1 a = Some t" "room t" "sp_inv st1"
      by (auto simp: found_def)
    have l: "table_ok t" "partial_id t = SP_COMPOSE_PARTIAL_ID mid tid"
      "mid < EINA_MAX_MID_TABLE_ID" "tid < EINA_MAX_TABLE_ID"
      using s(2) by (rule_tac sp_slotD [OF s(4,1)], simp)+
    obtain t1 e g where e: "eina_safepointer_entry_find t = Some (t1, Some e)" "\<not> active (entries t e)"
      "e < EINA_MAX_ENTRY_ID" "0 < g" "g < EINA_MAX_GENERATIONS" "table_ok (fill_entry t1 e x)"
      "partial_id (fill_entry t1 e x) = partial_id t"
      "entries (fill_entry t1 e x) = (entries t)(e := \<lparr>ptr = Target x, active = True, generation = g\<rparr>)"
      "g = (let gen = generation (entries t e) + 1 in if gen = EINA_MAX_GENERATIONS then 1 else gen)"
      using entry_find_fill [OF l(1) s(3), of x] .
    let ?t' = "fill_entry t1 e x"
    have g: "g = next_gen (generation (entries t e))"
      using e(9) by (simp add: cycle_next_def)
    have "sp_table_ok mid tid ?t'"
      by (simp add: sp_table_ok_def e(6,7) l)
    note upd = leaf_upd_inv [OF s(4,1) this]
    moreover have "eina_safepointer_register al st (Some x) =
        Some (leaf_upd st1 a ?t', SP_COMPOSE_FINAL_ID (SP_COMPOSE_PARTIAL_ID mid tid) e (next_gen (generation (entries t e))))"
      using f(1) Some s(2) e(1,7,8) l(2) g by (simp add: eina_safepointer_register_def leaf_upd_def)
    ultimately show ?thesis
      using some [of st1 a ?t' mid tid e t, OF _ _ s(1,2)] f(2) Some e l g by simp
  qed
qed

lemma entry_live_inactive: "\<not> active (entries t e) \<Longrightarrow> entry_live t e g = None"
  by (simp add: entry_live_def)

lemma live_iff:
  assumes inv: "sp_inv st"
  shows "(\<exists>x. sp_live st (mid, tid, e, g) = Some x) \<longleftrightarrow>
    (\<exists>t. sp_tab st mid tid = Some t \<and> active (entries t e) \<and> generation (entries t e) = g)"
proof -
  have "\<exists>x. ptr (entries t e) = Target x" if t: "sp_tab st mid tid = Some t" "active (entries t e)" for t
    using sp_tabD(1) [OF inv t(1)] t(2) by (auto simp: table_ok_def)
  then show ?thesis
    by (fastforce simp: sp_live_def entry_live_def bind_eq_Some_conv split: if_splits)
qed

lemma sp_live_zero: "sp_inv st \<Longrightarrow> sp_live st (mid, tid, e, 0) = None"
  using live_iff [of st mid tid e 0] sp_tabD(1) [of st mid tid] active_bounds(3) [of _ e] by fastforce

lemma decompose_0: "EINA_SP_DECOMPOSE_ID 0 = (0, 0, 0, 0)"
  by (simp add: EINA_SP_DECOMPOSE_ID_def)

lemma register_law:
  assumes inv: "sp_inv st" and fr: "leaf_fresh al (leafs st)"
  obtains st' i where "eina_safepointer_register al st (Some x) = Some (st', i)" "sp_inv st'"
    "i = 0 \<Longrightarrow> sp_live st' = sp_live st \<and> (\<not> mid_alloc al \<or> leaf_alloc al = None \<or> all_full st' 0)"
    "i \<noteq> 0 \<Longrightarrow> sp_live st (EINA_SP_DECOMPOSE_ID i) = None \<and> sp_live st' = (sp_live st)(EINA_SP_DECOMPOSE_ID i \<mapsto> x)"
proof (cases rule: register_effect [OF inv fr, of x, case_names none some])
  case (none st')
  with that [of st' 0] show ?thesis
    by (auto simp: found_def)
next
  case (some st1 mid tid a t e t')
  let ?g = "next_gen (generation (entries t e))"
  let ?i = "SP_COMPOSE_FINAL_ID (SP_COMPOSE_PARTIAL_ID mid tid) e ?g"
  have k: "EINA_SP_DECOMPOSE_ID ?i = (mid, tid, e, ?g)"
    using some by (intro sp_decompose_compose)
  have "?i \<noteq> 0"
    using k some(10) decompose_0 by (metis less_irrefl prod.inject)
  moreover have l1: "sp_live st1 = sp_live st" "sp_inv st1"
    using some(2) by (auto simp: found_def)
  then have l: "sp_live st (mid, tid, e', g) = entry_live t e' g" for e' g
    using some(4) unfolding l1(1) [symmetric] by (simp add: sp_live_def slot_tableI [OF some(3)])
  have tab: "sp_tab (leaf_upd st1 a t') = (\<lambda>m n. if m = mid \<and> n = tid then Some t' else sp_tab st1 m n)"
    using some(13) by (intro ext) simp
  have "sp_live (leaf_upd st1 a t') = (sp_live st1)((mid, tid, e, ?g) \<mapsto> x)"
    unfolding sp_live_def tab using some(4,9,12)
    by (intro tables_live_write [where t = t']) (auto simp: slot_tableI [OF some(3)] entry_live_def)
  then have "sp_live (leaf_upd st1 a t') = (sp_live st)((mid, tid, e, ?g) \<mapsto> x)"
    unfolding l1(1) .
  ultimately show ?thesis
    using that [OF some(1,5)] k l some(9) by (simp add: entry_live_inactive)
qed

section \<open>Looking up and unregistering\<close>

definition sp_id_ok :: "u64 \<Rightarrow> bool" where
  "sp_id_ok i \<longleftrightarrow> fst (snd (EINA_SP_DECOMPOSE_ID i)) < EINA_MAX_TABLE_ID"

lemma entry_get_law:
  assumes inv: "sp_inv st" and ok: "sp_id_ok i" and k: "EINA_SP_DECOMPOSE_ID i = (mid, tid, e, g)"
  shows "eina_safepointer_entry_get st i =
      Some (do { t \<leftarrow> sp_tab st mid tid; row \<leftarrow> ids_tables st mid; a \<leftarrow> row tid;
                 if active (entries t e) \<and> generation (entries t e) = g then Some (a, e) else None })"
proof (cases "\<exists>a. slot_at (ids_tables st) mid tid a")
  case True
  then obtain a where a: "slot_at (ids_tables st) mid tid a" by blast
  obtain t where t: "leafs st a = Some t" "table_ok t"
    using sp_slotD [OF inv a] by blast
  have "e < EINA_MAX_ENTRY_ID" if "active (entries t e)"
    using active_bounds(2) [OF t(2) that] .
  with a t ok k show ?thesis
    by (auto simp: eina_safepointer_entry_get_def sp_id_ok_def slot_tableI slot_at_def)
next
  case False
  with ok k show ?thesis
    by (auto simp: eina_safepointer_entry_get_def sp_id_ok_def slot_table_none slot_at_def split: option.splits)
qed

lemma get_law:
  assumes inv: "sp_inv st" and ok: "sp_id_ok i"
  shows "eina_safepointer_get st i =
     Some (case sp_live st (EINA_SP_DECOMPOSE_ID i) of None \<Rightarrow> Null | Some x \<Rightarrow> Target x)"
proof (cases "i = 0")
  case True
  then show ?thesis
    using sp_live_zero [OF inv] by (simp add: eina_safepointer_get_def decompose_0)
next
  case False
  obtain mid tid e g where k: "EINA_SP_DECOMPOSE_ID i = (mid, tid, e, g)"
    by (cases "EINA_SP_DECOMPOSE_ID i") auto
  show ?thesis
  proof (cases "\<exists>a. slot_at (ids_tables st) mid tid a")
    case True
    then obtain a where a: "slot_at (ids_tables st) mid tid a" by blast
    obtain t where t: "leafs st a = Some t" "table_ok t"
      using sp_slotD [OF inv a] by blast
    then have "\<exists>x. ptr (entries t e) = Target x" if "active (entries t e)"
      using that by (auto simp: table_ok_def)
    with a t False k show ?thesis
      by (auto simp: eina_safepointer_get_def entry_get_law [OF inv ok k] sp_live_def entry_live_def slot_tableI slot_at_def)
  next
    case False
    with \<open>i \<noteq> 0\<close> k show ?thesis
      by (simp add: eina_safepointer_get_def entry_get_law [OF inv ok k] sp_live_def slot_table_none)
  qed
qed


text \<open>Unregistering writes the table of the id's slot, and may then give up the slot.\<close>

lemma release_law:
  assumes inv: "sp_inv st" and s: "slot_at (ids_tables st) mid tid a"
    and t: "leafs st a = Some t" "\<And>e. \<not> active (entries t e)"
  obtains st' where "release_table st a t = Some st'" "sp_inv st'" "sp_live st' = sp_live st"
    "\<And>m n. sp_tab st' m n = (if m = mid \<and> n = tid then None else sp_tab st m n)"
proof -
  obtain l: "table_ok t" "partial_id t = SP_COMPOSE_PARTIAL_ID mid tid"
      "mid < EINA_MAX_MID_TABLE_ID" "tid < EINA_MAX_TABLE_ID"
    using sp_slotD [OF inv s] t(1) by auto
  from s obtain row where row: "ids_tables st mid = Some row" "row tid = Some a"
    by (auto simp: slot_at_def)
  let ?ids = "(ids_tables st)(mid \<mapsto> row(tid := None))"
  define heap where "heap = (if empty_table st = None then leafs st else (leafs st)(a := None))"
  define st' where "st' = st\<lparr>ids_tables := ?ids, leafs := heap, empty_table := Some (case empty_table st of None \<Rightarrow> a | Some b \<Rightarrow> b)\<rparr>"
  have r: "release_table st a t = Some st'"
    using row l sp_partial_id_fields [OF l(3,4)]
    by (auto simp: release_table_def st'_def heap_def Let_def split: option.splits)
  note c = spt.clear_slot [OF sp_invD [OF inv] row, of heap]
  have h: "heap b = leafs st b" if "b \<noteq> a" for b
    using that by (simp add: heap_def)
  have e: "empty_table st \<noteq> Some a"
    using inv s by (auto simp: sp_inv_def)
  have "\<not> slot_at ?ids m n b" if "empty_table st = Some b" for m n b
    using inv that by (auto simp: sp_inv_def slot_at_upd [where ids = "ids_tables st", OF row(1)])
  then have "sp_inv st'"
    using c(1,3) [OF h] inv e l(1) t by (auto simp: sp_inv_def st'_def heap_def split: option.splits)
  moreover have tab: "sp_tab st' m n = (if m = mid \<and> n = tid then None else sp_tab st m n)" for m n
    using c(2) [OF h] by (simp add: st'_def)
  moreover have "sp_live st' q = sp_live st q" for q
    using tab slot_tableI [OF s, of "leafs st"] t by (cases q) (auto simp: sp_live_def entry_live_inactive)
  then have "sp_live st' = sp_live st" ..
  ultimately show thesis
    using that r by blast
qed

lemma unregister_locked_law:
  assumes inv: "sp_inv st" and s: "slot_at (ids_tables st) mid tid a" and t: "leafs st a = Some t" and e: "active (entries t e)"
  obtains st' where "unregister_locked st a e = Some st'" "sp_inv st'"
    "sp_live st' = (sp_live st)((mid, tid, e, generation (entries t e)) := None)"
    "\<And>m n. \<not> (m = mid \<and> n = tid) \<Longrightarrow> sp_tab st' m n = sp_tab st m n"
    "e \<noteq> EINA_MAX_ENTRY_ID - 1 \<Longrightarrow> sp_tab st' mid tid = Some (drop_entry t e)"
proof -
  obtain l: "table_ok t" "partial_id t = SP_COMPOSE_PARTIAL_ID mid tid"
      "mid < EINA_MAX_MID_TABLE_ID" "tid < EINA_MAX_TABLE_ID"
    using sp_slotD [OF inv s] t(1) by auto
  let ?t = "drop_entry t e" and ?st = "leaf_upd st a (drop_entry t e)"
  have ok: "table_ok ?t"
    using drop_entry_ok [OF l(1) e] .
  have "sp_table_ok mid tid ?t"
    using ok l by (simp add: sp_table_ok_def)
  note upd = leaf_upd_inv [OF inv s this]
  note inv1 = upd(1)
  have tab: "sp_tab ?st = (\<lambda>m n. if m = mid \<and> n = tid then Some ?t else sp_tab st m n)"
    using upd(2) by (intro ext) simp
  have live1: "sp_live ?st = (sp_live st)((mid, tid, e, generation (entries t e)) := None)"
    unfolding sp_live_def tab using t e
    by (intro tables_live_write [where t = ?t]) (auto simp: entry_live_def slot_tableI [OF s])
  have s1: "slot_at (ids_tables ?st) mid tid a" "leafs ?st a = Some ?t"
    using s by simp_all
  have other: "sp_tab ?st m n = sp_tab st m n" if "\<not> (m = mid \<and> n = tid)" for m n
    using that tab by auto
  have u: "unregister_locked st a e = (if e = EINA_MAX_ENTRY_ID - 1 \<and> last_active (entries ?t) e = - 1
      then release_table ?st a ?t else Some ?st)"
    using t e unfolding unregister_locked_def leaf_upd_def drop_entry_def Let_def by simp
  show thesis
  proof (cases "e = EINA_MAX_ENTRY_ID - 1 \<and> last_active (entries ?t) e = - 1")
    case True
    then have na: "\<not> active (entries ?t i)" for i
      using no_active_iff [OF ok] by metis
    obtain st' where st': "release_table ?st a ?t = Some st'" "sp_inv st'" "sp_live st' = sp_live ?st"
      "\<And>m n. sp_tab st' m n = (if m = mid \<and> n = tid then None else sp_tab ?st m n)"
      using release_law [OF inv1 s1 na] by blast
    with u True live1 other show thesis
      by (intro that [of st']) auto
  next
    case False
    with u inv1 live1 other s1 show thesis
      by (intro that [of ?st]) (auto simp: slot_tableI)
  qed
qed

text \<open>The id is one of the last entry of the table: unregistering it may give the table up.\<close>

definition last_entry_of :: "nat \<Rightarrow> nat \<Rightarrow> u64 \<Rightarrow> bool" where
  "last_entry_of mid tid i \<longleftrightarrow> (\<exists>g. EINA_SP_DECOMPOSE_ID i = (mid, tid, EINA_MAX_ENTRY_ID - 1, g))"

lemma unregister_law:
  assumes inv: "sp_inv st" and ok: "sp_id_ok i"
  shows "\<exists>st'. eina_safepointer_unregister st i = Some st' \<and> sp_inv st'
    \<and> sp_live st' = (sp_live st)(EINA_SP_DECOMPOSE_ID i := None)
    \<and> (\<forall>m n. \<not> last_entry_of m n i \<longrightarrow>
        (sp_tab st' m n = sp_tab st m n
           \<or> (\<exists>t e. sp_tab st m n = Some t \<and> active (entries t e) \<and> sp_tab st' m n = Some (drop_entry t e))))"
proof -
  obtain mid tid e g where k: "EINA_SP_DECOMPOSE_ID i = (mid, tid, e, g)"
    by (cases "EINA_SP_DECOMPOSE_ID i") auto
  note eg = entry_get_law [OF inv ok k]
  show ?thesis
  proof (cases "sp_live st (mid, tid, e, g)")
    case None
    then have "eina_safepointer_unregister st i = Some st"
    proof (cases "\<exists>a. slot_at (ids_tables st) mid tid a")
      case True
      then obtain a where a: "slot_at (ids_tables st) mid tid a" by blast
      obtain t where t: "leafs st a = Some t" "table_ok t"
        using sp_slotD [OF inv a] by blast
      from None t have "\<not> (active (entries t e) \<and> generation (entries t e) = g)"
        by (auto simp: sp_live_def slot_tableI [OF a] entry_live_def table_ok_def split: sp_ptr.splits)
      with t a show ?thesis
        by (auto simp: eina_safepointer_unregister_def eg slot_tableI slot_at_def)
    qed (simp add: eina_safepointer_unregister_def eg slot_table_none)
    with inv k None show ?thesis by (auto simp: fun_upd_idem)
  next
    case (Some x)
    then obtain t where t: "sp_tab st mid tid = Some t" "active (entries t e)" "generation (entries t e) = g"
      by (auto simp: sp_live_def entry_live_def bind_eq_Some_conv split: if_splits)
    obtain a where a: "slot_at (ids_tables st) mid tid a" and ta: "leafs st a = Some t"
      using slot_tableD [OF sp_invD [OF inv] t(1)] .
    have "i \<noteq> 0"
      using Some sp_live_zero [OF inv] k decompose_0 by auto
    obtain st' where st': "unregister_locked st a e = Some st'" "sp_inv st'"
      "sp_live st' = (sp_live st)((mid, tid, e, generation (entries t e)) := None)"
      "\<And>m n. \<not> (m = mid \<and> n = tid) \<Longrightarrow> sp_tab st' m n = sp_tab st m n"
      "e \<noteq> EINA_MAX_ENTRY_ID - 1 \<Longrightarrow> sp_tab st' mid tid = Some (drop_entry t e)"
      using unregister_locked_law [OF inv a ta t(2)] by blast
    have "eina_safepointer_unregister st i = Some st'"
      using \<open>i \<noteq> 0\<close> t a st'(1) by (auto simp: eina_safepointer_unregister_def eg slot_at_def)
    moreover have "sp_tab st' m n = sp_tab st m n
        \<or> (\<exists>t e. sp_tab st m n = Some t \<and> active (entries t e) \<and> sp_tab st' m n = Some (drop_entry t e))"
      if "\<not> last_entry_of m n i" for m n
      using that st'(4) [of m n] st'(5) t k unfolding last_entry_of_def by (cases "m = mid \<and> n = tid") auto
    ultimately show ?thesis
      using st'(2,3) t(3) k by auto
  qed
qed

end
