(* ===== verification/Eina_Safepointer_Props.thy ===== *)
theory Eina_Safepointer_Props
  imports Eina_Safepointer_Ops
begin

text \<open>
  The properties of the safe pointers: the operations keep the contract of a table of ids,
  how long a stale id is refused, when a registration fails, and what two threads can do to
  each other.
\<close>

unbundle bit_operations_syntax

section \<open>The contract\<close>

definition sp_register :: "table_alloc \<Rightarrow> 'a sp_state \<Rightarrow> 'a \<Rightarrow> ('a sp_state \<times> u64 option) option" where
  "sp_register al st x =
     map_option (\<lambda>(st, i). (st, if i = 0 then None else Some i)) (eina_safepointer_register al st (Some x))"

definition sp_get :: "'a sp_state \<Rightarrow> u64 \<Rightarrow> ('a sp_state \<times> 'a option) option" where
  "sp_get st i = map_option (\<lambda>p. (st, case p of Target x \<Rightarrow> Some x | _ \<Rightarrow> None)) (eina_safepointer_get st i)"

definition sp_fresh :: "table_alloc \<Rightarrow> 'a sp_state \<Rightarrow> bool" where
  "sp_fresh al st \<longleftrightarrow> leaf_fresh al (leafs st)"

interpretation sp: handle_table sp_inv sp_live EINA_SP_DECOMPOSE_ID sp_register eina_safepointer_unregister sp_get sp_fresh sp_id_ok
proof
  fix al :: table_alloc and st :: "'a sp_state" and x :: 'a and i :: u64
  assume inv: "sp_inv st"
  show "\<exists>st' r. sp_register al st x = Some (st', r) \<and> sp_inv st'
      \<and> (case r of None \<Rightarrow> sp_live st' = sp_live st
         | Some i \<Rightarrow> sp_live st (EINA_SP_DECOMPOSE_ID i) = None \<and> sp_live st' = (sp_live st)(EINA_SP_DECOMPOSE_ID i \<mapsto> x))"
    if "sp_fresh al st"
    using that unfolding sp_fresh_def by (rule register_law [OF inv, of _ x]) (auto simp: sp_register_def)
  show "\<exists>st'. eina_safepointer_unregister st i = Some st' \<and> sp_inv st'
      \<and> sp_live st' = (sp_live st)(EINA_SP_DECOMPOSE_ID i := None)" if "sp_id_ok i"
    using unregister_law [OF inv that] by blast
  show "\<exists>st'. sp_get st i = Some (st', sp_live st (EINA_SP_DECOMPOSE_ID i)) \<and> sp_inv st' \<and> sp_live st' = sp_live st"
    if "sp_id_ok i"
    using get_law [OF inv that] inv by (auto simp: sp_get_def split: option.split)
qed


definition sp_step where
  "sp_step = handle_step sp_register eina_safepointer_unregister sp_get"


section \<open>One registration, evaluated\<close>

lemma sp_consts_pos [simp]:
  "0 < EINA_MAX_MID_TABLE_ID" "0 < EINA_MAX_TABLE_ID" "0 < EINA_MAX_ENTRY_ID" "Suc 0 \<noteq> EINA_MAX_GENERATIONS" "2 \<noteq> EINA_MAX_GENERATIONS"
  "\<not> EINA_MAX_ENTRY_ID \<le> Suc 0"
  by (simp_all add: sp_consts)

lemma compose_0: "SP_COMPOSE_PARTIAL_ID 0 0 = 0" "SP_COMPOSE_FINAL_ID 0 0 (Suc 0) = 4" "SP_COMPOSE_FINAL_ID 0 0 2 = 8"
  by (simp_all add: SP_COMPOSE_PARTIAL_ID_def SP_COMPOSE_FINAL_ID_def mask_eq_exp_minus_1 push_bit_eq_mult)

text \<open>The state with one registration in the first entry, of generation \<open>g\<close>, and without it.\<close>

definition sp_one :: "nat \<Rightarrow> nat \<Rightarrow> 'a \<Rightarrow> 'a sp_state" where
  "sp_one a g x = \<lparr>ids_tables = [0 \<mapsto> [0 \<mapsto> a]], empty_table = None,
     leafs = [a \<mapsto> \<lparr>trash = Null, partial_id = 0, start = 1,
       entries = (\<lambda>_. \<lparr>ptr = Null, active = False, generation = 0\<rparr>)(0 := \<lparr>ptr = Target x, active = True, generation = g\<rparr>)\<rparr>]\<rparr>"

definition sp_none :: "nat \<Rightarrow> nat \<Rightarrow> 'a sp_state" where
  "sp_none a g = \<lparr>ids_tables = [0 \<mapsto> [0 \<mapsto> a]], empty_table = None,
     leafs = [a \<mapsto> \<lparr>trash = Entry 0, partial_id = 0, start = 1,
       entries = (\<lambda>_. \<lparr>ptr = Null, active = False, generation = 0\<rparr>)(0 := \<lparr>ptr = Null, active = False, generation = g\<rparr>)\<rparr>]\<rparr>"

lemma register_first:
  "eina_safepointer_register \<lparr>mid_alloc = True, leaf_alloc = Some a\<rparr> sp_initial (Some x) = Some (sp_one a (Suc 0) x, 4)"
  unfolding eina_safepointer_register_def eina_safepointer_table_find_def
  by (subst mid_table_scan.simps, subst table_scan.simps)
    (simp add: sp_initial_def eina_safepointer_table_new_def Let_def zero_table_def
      eina_safepointer_entry_find_def fill_entry_def sp_one_def compose_0)

lemma decompose_one: "g < EINA_MAX_GENERATIONS \<Longrightarrow> EINA_SP_DECOMPOSE_ID (SP_COMPOSE_FINAL_ID 0 0 g) = (0, 0, 0, g)"
  using sp_decompose_compose [of 0 0 0 g] by (simp add: compose_0)

lemma compose_one_nonzero: "g < EINA_MAX_GENERATIONS \<Longrightarrow> 0 < g \<Longrightarrow> SP_COMPOSE_FINAL_ID 0 0 g \<noteq> 0"
  using decompose_one [of g] decompose_0 by auto

lemma unregister_locked_one: "unregister_locked (sp_one a g x) a 0 = Some (sp_none a g)"
  by (simp add: unregister_locked_def sp_one_def sp_none_def eina_trash_push_def Let_def)

lemma entry_get_one:
  "g < EINA_MAX_GENERATIONS \<Longrightarrow> h < EINA_MAX_GENERATIONS \<Longrightarrow>
     eina_safepointer_entry_get (sp_one a g x) (SP_COMPOSE_FINAL_ID 0 0 h) = Some (if g = h then Some (a, 0) else None)"
  by (simp add: eina_safepointer_entry_get_def decompose_one sp_one_def not_le)

lemma register_none:
  assumes "g < EINA_MAX_GENERATIONS"
  shows "eina_safepointer_register al (sp_none a g) (Some y) =
     Some (sp_one a (next_gen g) y, SP_COMPOSE_FINAL_ID 0 0 (next_gen g))"
proof -
  have g: "next_gen g = (if Suc g = EINA_MAX_GENERATIONS then 1 else Suc g)"
    "Suc g \<noteq> EINA_MAX_GENERATIONS \<Longrightarrow> Suc g mod 2048 = Suc g"
    using assms by (auto simp: cycle_next_def sp_consts)
  show ?thesis
    unfolding eina_safepointer_register_def eina_safepointer_table_find_def
    by (subst mid_table_scan.simps, subst table_scan.simps)
      (simp add: sp_none_def eina_safepointer_entry_find_def eina_trash_pop_def fill_entry_def sp_one_def g Let_def)
qed

section \<open>Stale ids\<close>

text \<open>A run leaves the generation of an entry behind by at most its registrations.\<close>

definition entry_aged :: "'a sp_state \<Rightarrow> nat \<Rightarrow> nat \<Rightarrow> nat \<Rightarrow> nat \<Rightarrow> nat \<Rightarrow> bool" where
  "entry_aged st mid tid e g n \<longleftrightarrow> (\<exists>t k. sp_tab st mid tid = Some t \<and> k \<le> n
     \<and> generation (entries t e) = (next_gen ^^ k) g \<and> (k = 0 \<longrightarrow> \<not> active (entries t e)))"

definition keeps_table :: "nat \<Rightarrow> nat \<Rightarrow> ('c, u64, 'a) handle_call \<Rightarrow> bool" where
  "keeps_table mid tid c \<longleftrightarrow> (case c of Unregister i \<Rightarrow> \<not> last_entry_of mid tid i | _ \<Rightarrow> True)"

lemma aged_register:
  assumes inv: "sp_inv st" and fr: "leaf_fresh al (leafs st)" and r: "sp_register al st x = Some (st', r)"
    and a: "entry_aged st mid tid e g n"
  shows "entry_aged st' mid tid e g (Suc n)"
proof -
  obtain t k where t: "sp_tab st mid tid = Some t" "k \<le> n" "generation (entries t e) = (next_gen ^^ k) g"
    "k = 0 \<longrightarrow> \<not> active (entries t e)"
    using a by (auto simp: entry_aged_def)
  show ?thesis
  proof (cases rule: register_effect [OF inv fr, of x, case_names none some])
    case (none st1)
    with r t show ?thesis
      by (auto simp: sp_register_def entry_aged_def found_def slots_kept_def intro!: exI [of _ k])
  next
    case (some st1 mid1 tid1 a t0 e1 t')
    have k1: "sp_tab st1 mid tid = Some t"
      using some(2) t(1) by (auto simp: found_def slots_kept_def)
    have st': "st' = leaf_upd st1 a t'"
      using r some(1) by (simp add: sp_register_def)
    have t1: "sp_tab st1 mid1 tid1 = Some t0"
      using some(4) by (simp add: slot_tableI [OF some(3)])
    show ?thesis
    proof (cases "mid = mid1 \<and> tid = tid1")
      case True
      with k1 t1 have "t = t0" by simp
      moreover have "sp_tab st' mid tid = Some t'"
        using True some(13) [of mid tid] by (simp add: st')
      ultimately show ?thesis
        using t some(12) by (cases "e = e1") (auto simp: entry_aged_def intro: exI [of _ "Suc k"] exI [of _ k])
    next
      case False
      then have "sp_tab st' mid tid = Some t"
        using some(13) [of mid tid] k1 by (auto simp: st')
      with t show ?thesis
        by (auto simp: entry_aged_def intro!: exI [of _ k])
    qed
  qed
qed

lemma unregister_slots:
  assumes "sp_inv st" "sp_id_ok i" and c: "\<not> last_entry_of mid tid i"
    and r: "eina_safepointer_unregister st i = Some st'" and t: "sp_tab st mid tid = Some t"
  obtains t' where "sp_tab st' mid tid = Some t'" "\<And>e. generation (entries t' e) = generation (entries t e)"
    "\<And>e. active (entries t' e) \<Longrightarrow> active (entries t e)"
proof -
  have "sp_tab st' mid tid = sp_tab st mid tid
     \<or> (\<exists>t e. sp_tab st mid tid = Some t \<and> active (entries t e) \<and> sp_tab st' mid tid = Some (drop_entry t e))"
    using unregister_law [OF assms(1,2)] r c by auto
  with t show thesis
  proof (elim disjE exE conjE)
    fix t1 e
    assume "sp_tab st mid tid = Some t1" "sp_tab st' mid tid = Some (drop_entry t1 e)"
    with t show thesis
      by (intro that [of "drop_entry t e"]) (auto split: if_splits)
  qed (auto intro: that [of t])
qed

lemma aged_unregister:
  assumes "sp_inv st" "sp_id_ok i" "\<not> last_entry_of mid tid i"
    "eina_safepointer_unregister st i = Some st'" and a: "entry_aged st mid tid e g n"
  shows "entry_aged st' mid tid e g n"
proof -
  obtain t k where t: "sp_tab st mid tid = Some t" "k \<le> n" "generation (entries t e) = (next_gen ^^ k) g"
    "k = 0 \<longrightarrow> \<not> active (entries t e)"
    using a by (auto simp: entry_aged_def)
  from assms(1-4) t(1) obtain t' where "sp_tab st' mid tid = Some t'"
    "\<And>e. generation (entries t' e) = generation (entries t e)" "\<And>e. active (entries t' e) \<Longrightarrow> active (entries t e)"
    by (rule unregister_slots) blast
  with t show ?thesis
    unfolding entry_aged_def by metis
qed

lemma aged_step:
  assumes inv: "sp_inv st" and leg: "handle_legal sp_step sp_fresh sp_id_ok st [c]" and c: "keeps_table mid tid c"
    and r: "sp_step st c = Some (st', ans)" and a: "entry_aged st mid tid e g n"
  shows "entry_aged st' mid tid e g (n + registrations [c])"
proof (cases c)
  case (Register al x)
  with leg r a show ?thesis
    using aged_register [OF inv, of al x] by (auto simp: sp_step_def registrations_def sp_fresh_def)
next
  case (Unregister i)
  with leg r a c show ?thesis
    using aged_unregister [OF inv, of i mid tid st'] by (auto simp: sp_step_def registrations_def keeps_table_def)
next
  case (Lookup i)
  with leg r a get_law [OF inv, of i] show ?thesis
    by (auto simp: sp_step_def registrations_def sp_get_def)
qed

lemma aged_run:
  assumes "sp_inv st" "handle_legal sp_step sp_fresh sp_id_ok st cs" "list_all (keeps_table mid tid) cs"
    "entry_aged st mid tid e g n"
  shows "\<exists>st' as. handle_run sp_step st cs = Some (st', as) \<and> sp_inv st' \<and> entry_aged st' mid tid e g (n + registrations cs)"
  using assms
proof (induction cs arbitrary: st n)
  case Nil
  then show ?case by (simp add: registrations_def)
next
  case (Cons c cs)
  from Cons.prems(2) have leg: "handle_legal sp_step sp_fresh sp_id_ok st [c]"
    by (cases "sp_step st c") auto
  with Cons.prems(1) obtain st1 ans where s: "sp_step st c = Some (st1, ans)" "sp_inv st1"
    unfolding sp_step_def by (rule sp.step_refines)
  have "entry_aged st1 mid tid e g (n + registrations [c])"
    using aged_step [OF Cons.prems(1) leg _ s(1) Cons.prems(4)] Cons.prems(3) by simp
  with Cons.IH [OF s(2), of "n + registrations [c]"] Cons.prems s obtain st' as
    where "handle_run sp_step st1 cs = Some (st', as)" "sp_inv st'" "entry_aged st' mid tid e g (n + registrations [c] + registrations cs)"
    by auto
  moreover have "registrations (c # cs) = registrations [c] + registrations cs"
    by (simp add: registrations_def)
  ultimately show ?case
    using s(1) by (auto simp: add.assoc)
qed

lemma aged_refused:
  assumes inv: "sp_inv st" and a: "entry_aged st mid tid e g n" and g: "0 < g" "g < EINA_MAX_GENERATIONS" and n: "n < 2047"
  shows "sp_live st (mid, tid, e, g) = None"
proof -
  obtain t k where t: "sp_tab st mid tid = Some t" "k \<le> n" "generation (entries t e) = (next_gen ^^ k) g"
    "k = 0 \<longrightarrow> \<not> active (entries t e)"
    using a by (auto simp: entry_aged_def)
  with n cycle_next_differs [OF _ g, of k] show ?thesis
    by (cases "k = 0") (auto simp: sp_live_def entry_live_def sp_consts)
qed

text \<open>
  C13. An id that was unregistered is refused through the next 2046 registrations, whatever
  entries they take and whatever else is unregistered or looked up (by ids whose table index
  is below 2046), as long as neither it nor a call after it unregisters an id of the last
  entry of its own leaf table (which may give the table up, and the generations of its entries
  with it).
\<close>

theorem safepointer_stale_refused:
  assumes "sp_inv st" "sp_id_ok i" "eina_safepointer_get st i = Some (Target x)"
    and "eina_safepointer_unregister st i = Some st0"
    and "handle_legal sp_step sp_fresh sp_id_ok st0 cs" "EINA_SP_DECOMPOSE_ID i = (mid, tid, e, g)"
    and "list_all (keeps_table mid tid) (Unregister i # cs)"
    and "registrations cs < 2047"
  shows "\<exists>st' as. handle_run sp_step st0 cs = Some (st', as) \<and> eina_safepointer_get st' i = Some Null"
proof -
  note k = assms(6)
  have "\<exists>x. sp_live st (mid, tid, e, g) = Some x"
    using get_law [OF assms(1,2)] assms(3) k by (auto split: option.splits)
  then obtain t where t: "sp_tab st mid tid = Some t" "active (entries t e)" "generation (entries t e) = g"
    unfolding live_iff [OF assms(1)] by blast
  have "table_ok t"
    using sp_tabD(1) [OF assms(1) t(1)] .
  then have g: "0 < g" "g < EINA_MAX_GENERATIONS"
    using active_bounds(3) [of t e] generation_bound [of t e] t by auto
  have inv0: "sp_inv st0" and live0: "\<not> (\<exists>x. sp_live st0 (mid, tid, e, g) = Some x)"
    using unregister_law [OF assms(1,2)] assms(4) k by auto
  have "\<not> last_entry_of mid tid i"
    using assms(7) by (simp add: keeps_table_def)
  with assms(1,2) obtain t' where t': "sp_tab st0 mid tid = Some t'" "generation (entries t' e) = g"
    using unregister_slots [OF _ _ _ assms(4) t(1)] t(3) by metis
  with live0 have "\<not> active (entries t' e)"
    unfolding live_iff [OF inv0] by blast
  with t' have "entry_aged st0 mid tid e g 0"
    by (simp add: entry_aged_def)
  with aged_run [OF inv0 assms(5), of mid tid e g 0] assms(7) obtain st' as
    where st': "handle_run sp_step st0 cs = Some (st', as)" "sp_inv st'" "entry_aged st' mid tid e g (registrations cs)"
    by auto
  with aged_refused [OF st'(2,3) g assms(8)] get_law [OF st'(2) assms(2)] k show ?thesis
    by auto
qed


lemma sp_fresh_initial: "sp_fresh al sp_initial"
  by (simp add: sp_fresh_def leaf_fresh_def sp_initial_def split: option.split)

lemma sp_one_inv: "sp_inv (sp_one a (Suc 0) x)"
  by (rule register_law [OF sp_initial_inv sp_fresh_initial [unfolded sp_fresh_def], of "\<lparr>mid_alloc = True, leaf_alloc = Some a\<rparr>" x])
    (simp add: register_first)

lemma decompose_4: "EINA_SP_DECOMPOSE_ID 4 = (0, 0, 0, 1)" "EINA_SP_DECOMPOSE_ID 8 = (0, 0, 0, 2)"
  using decompose_one [of 1] decompose_one [of 2] by (simp_all add: compose_0 sp_consts)

lemma sp_one_get: "eina_safepointer_get (sp_one a (Suc 0) x) 4 = Some (Target x)"
  by (simp add: eina_safepointer_get_def eina_safepointer_entry_get_def decompose_4 sp_one_def not_le)

lemma sp_one_unregister: "eina_safepointer_unregister (sp_one a (Suc 0) x) 4 = Some (sp_none a (Suc 0))"
  using entry_get_one [of 1 1 a x]
  by (simp add: eina_safepointer_unregister_def compose_0 sp_consts unregister_locked_one)

lemma sp_none_register:
  "eina_safepointer_register al (sp_none a (Suc 0)) (Some y) = Some (sp_one a 2 y, 8)"
proof -
  have "next_gen (Suc 0) = 2"
    by (simp add: cycle_next_def sp_consts)
  then show ?thesis
    using register_none [of "Suc 0" al a y] by (simp add: compose_0) (simp add: sp_consts)
qed

theorem safepointer_stale_refused_witness:
  "\<exists>st' as. handle_run sp_step (sp_none 0 (Suc 0)) [Register \<lparr>mid_alloc = True, leaf_alloc = None\<rparr> (2 :: nat), Lookup 4] = Some (st', as)
     \<and> eina_safepointer_get st' 4 = Some Null"
proof (rule safepointer_stale_refused [OF sp_one_inv _ sp_one_get sp_one_unregister [of 0 1]])
  show "handle_legal sp_step sp_fresh sp_id_ok (sp_none 0 (Suc 0)) [Register \<lparr>mid_alloc = True, leaf_alloc = None\<rparr> (2 :: nat), Lookup 4]"
    by (simp add: sp_step_def sp_register_def sp_none_register sp_fresh_def leaf_fresh_def sp_id_ok_def decompose_4 split: option.split)
qed (simp_all add: sp_id_ok_def decompose_4 keeps_table_def last_entry_of_def registrations_def sp_consts)


text \<open>The bound is tight: after 2047 re-registrations of the entry its first id is back.\<close>

primrec sp_cycles :: "table_alloc \<Rightarrow> 'a \<Rightarrow> 'a sp_state \<times> u64 \<Rightarrow> nat \<Rightarrow> ('a sp_state \<times> u64) option" where
  "sp_cycles al y s 0 = Some s"
| "sp_cycles al y s (Suc n) = do {
     (st, i) \<leftarrow> sp_cycles al y s n;
     st \<leftarrow> eina_safepointer_unregister st i;
     eina_safepointer_register al st (Some y)
   }"

lemma sp_cycles_one:
  assumes "0 < g" "g < EINA_MAX_GENERATIONS"
  shows "sp_cycles al y (sp_one a g y, SP_COMPOSE_FINAL_ID 0 0 g) n =
    Some (sp_one a ((next_gen ^^ n) g) y, SP_COMPOSE_FINAL_ID 0 0 ((next_gen ^^ n) g))"
proof (induction n)
  case (Suc n)
  let ?g = "(next_gen ^^ n) g"
  have g: "0 < ?g" "?g < EINA_MAX_GENERATIONS"
    using cycle_next_iterate_range [OF _ assms] by (auto simp: sp_consts)
  have "eina_safepointer_unregister (sp_one a ?g y) (SP_COMPOSE_FINAL_ID 0 0 ?g) = Some (sp_none a ?g)"
    using g entry_get_one [OF g(2,2), of a y] compose_one_nonzero [OF g(2,1)]
    by (simp add: eina_safepointer_unregister_def unregister_locked_one)
  with Suc register_none [OF g(2)] show ?case
    by simp
qed simp

lemma safepointer_id_reused: "sp_cycles al y (sp_one a (Suc 0) y, 4) 2047 = Some (sp_one a (Suc 0) y, 4)"
  using sp_cycles_one [of 1 al y a 2047] cycle_next_iterate [of EINA_MAX_GENERATIONS 1 2047] by (simp add: compose_0 sp_consts)

section \<open>Success and failure\<close>

lemma all_full_iff:
  assumes inv: "sp_inv st" and f: "all_full st 0" and b: "mid < EINA_MAX_MID_TABLE_ID" "tid < EINA_MAX_TABLE_ID" "e < EINA_MAX_ENTRY_ID"
  shows "\<exists>g y. sp_live st (mid, tid, e, g) = Some y"
proof -
  obtain t where t: "sp_tab st mid tid = Some t" "\<not> room t"
    using f b by (auto simp: all_full_def full_slot_def)
  have "table_ok t"
    using sp_tabD(1) [OF inv t(1)] .
  with t b(3) have "active (entries t e)"
    by (auto simp: room_iff)
  with t live_iff [OF inv, of mid tid e] show ?thesis
    by blast
qed

text \<open>
  C35. With memory for its tables a registration gives an id under which the pointer is
  found, and refuses only when all 2048 * 2046 * 4094 entries are in use.
\<close>

theorem safepointer_register_succeeds:
  assumes inv: "sp_inv st" and fr: "leaf_fresh al (leafs st)" and al: "mid_alloc al" "leaf_alloc al = Some a"
  shows "\<exists>st' i. eina_safepointer_register al st (Some x) = Some (st', i)
    \<and> (i = 0 \<longleftrightarrow> (\<forall>mid tid e. mid < EINA_MAX_MID_TABLE_ID \<and> tid < EINA_MAX_TABLE_ID \<and> e < EINA_MAX_ENTRY_ID
          \<longrightarrow> (\<exists>g y. sp_live st (mid, tid, e, g) = Some y)))
    \<and> (i \<noteq> 0 \<longrightarrow> eina_safepointer_get st' i = Some (Target x))"
proof (cases rule: register_effect [OF inv fr, of x, case_names none some])
  case (none st')
  with al have "all_full st' 0" "sp_inv st'" "sp_live st' = sp_live st"
    by (auto simp: found_def)
  with all_full_iff [of st'] none(1) show ?thesis
    by auto
next
  case (some st1 mid tid a t e t')
  let ?i = "SP_COMPOSE_FINAL_ID (SP_COMPOSE_PARTIAL_ID mid tid) e (next_gen (generation (entries t e)))"
  have k: "EINA_SP_DECOMPOSE_ID ?i = (mid, tid, e, next_gen (generation (entries t e)))"
    using some by (intro sp_decompose_compose)
  have nz: "?i \<noteq> 0"
    using k some(10) decompose_0 by (metis less_irrefl prod.inject)
  have "sp_live st (mid, tid, e, g) = None" for g
  proof -
    have "sp_live st1 (mid, tid, e, g) = None"
      using some(4,9) by (simp add: sp_live_def slot_tableI [OF some(3)] entry_live_inactive)
    with some(2) show ?thesis by (simp add: found_def)
  qed
  with some(6,7,8) have "\<not> (\<forall>mid tid e. mid < EINA_MAX_MID_TABLE_ID \<and> tid < EINA_MAX_TABLE_ID \<and> e < EINA_MAX_ENTRY_ID
      \<longrightarrow> (\<exists>g y. sp_live st (mid, tid, e, g) = Some y))"
    by (metis option.distinct(1))
  moreover have "eina_safepointer_get (leaf_upd st1 a t') ?i = Some (Target x)"
  proof -
    have "sp_id_ok ?i"
      using k some(7) by (simp add: sp_id_ok_def)
    moreover have "sp_live (leaf_upd st1 a t') (EINA_SP_DECOMPOSE_ID ?i) = Some x"
      unfolding k using some(12,13) by (simp add: sp_live_def entry_live_def)
    ultimately show ?thesis
      using get_law [OF some(5)] by simp
  qed
  ultimately show ?thesis
    using some(1) nz by blast
qed

theorem safepointer_register_succeeds_witness:
  "\<exists>st' i. eina_safepointer_register \<lparr>mid_alloc = True, leaf_alloc = Some 0\<rparr> sp_initial (Some (7 :: nat)) = Some (st', i)
     \<and> i \<noteq> 0 \<and> eina_safepointer_get st' i = Some (Target 7)"
proof -
  have "sp_live (sp_initial :: nat sp_state) (0, 0, 0, g) = None" for g
    by (simp add: sp_initial_live)
  moreover have "leaf_fresh \<lparr>mid_alloc = True, leaf_alloc = Some 0\<rparr> (leafs (sp_initial :: nat sp_state))"
    by (simp add: leaf_fresh_def sp_initial_def)
  ultimately show ?thesis
    using safepointer_register_succeeds [OF sp_initial_inv, of "\<lparr>mid_alloc = True, leaf_alloc = Some 0\<rparr>" 0 "7 :: nat"]
    by simp (metis option.distinct(1) sp_consts_pos(1-3))
qed

section \<open>Two threads\<close>

text \<open>
  C36. The check under the lock does not look at the generation: if a thread has looked an
  id up for unregistering and another one unregisters it and registers a pointer before the
  first takes the lock, the first one unregisters the pointer of the other. The id of the
  first alone would have been refused.
\<close>

theorem safepointer_unregister_race:
  "\<exists>st1 st2 st3. eina_safepointer_register \<lparr>mid_alloc = True, leaf_alloc = Some a\<rparr> sp_initial (Some x) = Some (st1, 4)
     \<and> eina_safepointer_entry_get st1 4 = Some (Some (a, 0))
     \<and> (do { st \<leftarrow> eina_safepointer_unregister st1 4; eina_safepointer_register al st (Some y) }) = Some (st2, 8)
     \<and> eina_safepointer_unregister st2 4 = Some st2 \<and> eina_safepointer_get st2 8 = Some (Target y)
     \<and> unregister_locked st2 a 0 = Some st3 \<and> eina_safepointer_get st3 8 = Some Null"
proof -
  have "eina_safepointer_entry_get (sp_one a (Suc 0) x) 4 = Some (Some (a, 0))"
    using entry_get_one [of 1 1 a x] by (simp add: compose_0 sp_consts)
  moreover have "eina_safepointer_unregister (sp_one a 2 y) 4 = Some (sp_one a 2 y)"
    using entry_get_one [of 2 1 a y] by (simp add: eina_safepointer_unregister_def compose_0 sp_consts)
  moreover have "eina_safepointer_get (sp_one a 2 y) 8 = Some (Target y)"
    by (simp add: eina_safepointer_get_def eina_safepointer_entry_get_def decompose_4 sp_one_def not_le)
  moreover have "eina_safepointer_get (sp_none a 2 :: 'a sp_state) 8 = Some Null"
    by (simp add: eina_safepointer_get_def eina_safepointer_entry_get_def decompose_4 sp_none_def not_le)
  ultimately show ?thesis
    using register_first [of a x] unregister_locked_one [of a 2 y]
    by (auto simp: sp_one_unregister sp_none_register)
qed

end
