(* ===== verification/Eo_Ids.thy ===== *)
theory Eo_Ids
  imports Id_Tables
begin

text \<open>
  The object ids of \<open>src/lib/eo/eo_ptr_indirection.x\<close> and \<open>eo_ptr_indirection.c\<close>, in the
  47-bit layout of 64-bit builds: the tables of one domain, the search for a free entry,
  allocation, release and lookup with its cache. Objects are of type \<open>'o\<close>. An access
  through a null or dangling table pointer, or past the end of a table, is \<open>None\<close>.
\<close>

unbundle bit_operations_syntax

section \<open>Ids\<close>

definition MAX_MID_TABLE_ID :: nat where "MAX_MID_TABLE_ID = 2 ^ 11"
definition MAX_TABLE_ID :: nat where "MAX_TABLE_ID = 2 ^ 11 - 2"
definition MAX_ENTRY_ID :: nat where "MAX_ENTRY_ID = 2 ^ 11 - 3"
definition MAX_GENERATIONS :: nat where "MAX_GENERATIONS = 2 ^ 10"

lemmas eo_consts = MAX_MID_TABLE_ID_def MAX_TABLE_ID_def MAX_ENTRY_ID_def MAX_GENERATIONS_def

definition MASK_OBJ_TAG :: u64 where
  "MASK_OBJ_TAG = push_bit 46 1"

text \<open>
  The fields from the lowest on: 10 bits of generation, 11 of entry, 11 of table, 11 of mid
  table, 2 of domain, the bit of classes and the bit of objects.
\<close>

definition EO_COMPOSE_PARTIAL_ID :: "nat \<Rightarrow> nat \<Rightarrow> u64" where
  "EO_COMPOSE_PARTIAL_ID mid_table table =
     push_bit 46 1 OR push_bit 32 (of_nat mid_table AND mask 11) OR push_bit 21 (of_nat table AND mask 11)"

definition EO_COMPOSE_FINAL_ID :: "u64 \<Rightarrow> nat \<Rightarrow> nat \<Rightarrow> nat \<Rightarrow> u64" where
  "EO_COMPOSE_FINAL_ID partial entry domain gen =
     partial OR push_bit 43 (of_nat domain AND mask 2) OR push_bit 10 (of_nat entry AND mask 11)
       OR (of_nat gen AND mask 10)"

type_synonym eo_key = "nat \<times> nat \<times> nat \<times> nat"

definition EO_DECOMPOSE_ID :: "u64 \<Rightarrow> eo_key" where
  "EO_DECOMPOSE_ID i =
     (unat (drop_bit 32 i AND mask 11), unat (drop_bit 21 i AND mask 11),
      unat (drop_bit 10 i AND mask 11), unat (i AND mask 10))"

definition eo_domain :: "u64 \<Rightarrow> nat" where
  "eo_domain i = unat (drop_bit 43 i AND mask 2)"

section \<open>Tables\<close>

record 'o Eo_Id_Entry =
  obj_ptr :: "'o option"
  next_in_fifo :: int
  in_use :: bool
  gen_of :: nat

record 'o Eo_Ids_Table =
  first_unused :: nat
  fifo_head :: int
  fifo_tail :: int
  partial :: u64
  free_entries :: u32
  slots :: "nat \<Rightarrow> 'o Eo_Id_Entry"

text \<open>
  The tables of a domain, with the cache of the last lookup and of the last class test, and
  how often the recursive lock of the shared domain is taken.
\<close>

record 'o Eo_Id_Table_Data =
  cache_id :: u64
  cache_object :: "'o option"
  cache_isa_id :: u64
  cache_klass :: u64
  cache_isa :: bool
  eo_ids_tables :: id_slots
  current_table :: "nat option"
  spare_table :: "nat option"
  obj_lock :: nat
  gen_counter :: nat
  shared :: bool
  ids_leafs :: "nat \<Rightarrow> 'o Eo_Ids_Table option"

text \<open>The initial generation is what \<open>rand\<close> gave, modulo the number of generations.\<close>

definition eo_table_data_table_new :: "bool \<Rightarrow> nat \<Rightarrow> 'o Eo_Id_Table_Data" where
  "eo_table_data_table_new is_shared rnd =
     \<lparr>cache_id = 0, cache_object = None, cache_isa_id = 0, cache_klass = 0, cache_isa = False,
      eo_ids_tables = (\<lambda>_. None), current_table = None, spare_table = None, obj_lock = 0,
      gen_counter = rnd mod MAX_GENERATIONS, shared = is_shared, ids_leafs = (\<lambda>_. None)\<rparr>"

definition zero_ids_table :: "'o Eo_Ids_Table" where
  "zero_ids_table = \<lparr>first_unused = 0, fifo_head = 0, fifo_tail = 0, partial = 0, free_entries = 0,
     slots = (\<lambda>_. \<lparr>obj_ptr = None, next_in_fifo = 0, in_use = False, gen_of = 0\<rparr>)\<rparr>"

section \<open>Finding a free entry\<close>

text \<open>Never used entries are served first, then the entries of the fifo.\<close>

definition get_available_entry :: "'o Eo_Ids_Table \<Rightarrow> ('o Eo_Ids_Table \<times> nat option) option" where
  "get_available_entry table =
     (if first_unused table \<noteq> MAX_ENTRY_ID then
        Some (table\<lparr>first_unused := first_unused table + 1, free_entries := free_entries table - 1\<rparr>,
              Some (first_unused table))
      else if fifo_head table \<noteq> - 1 then
        if 0 \<le> fifo_head table \<and> fifo_head table < int MAX_ENTRY_ID then
          (let entry = nat (fifo_head table);
               table = (if next_in_fifo (slots table entry) = - 1
                        then table\<lparr>fifo_head := - 1, fifo_tail := - 1\<rparr>
                        else table\<lparr>fifo_head := next_in_fifo (slots table entry)\<rparr>)
           in Some (table\<lparr>free_entries := free_entries table - 1\<rparr>, Some entry))
        else None
      else Some (table, None))"

text \<open>A table for a free slot: recycled or new, with its first entry reserved.\<close>

definition reserve_table ::
  "table_alloc \<Rightarrow> 'o Eo_Id_Table_Data \<Rightarrow> nat \<Rightarrow> nat \<Rightarrow> ('o Eo_Id_Table_Data \<times> nat) option" where
  "reserve_table al td mid_table_id table_id = do {
     (td, table) \<leftarrow> (case spare_table td of
         Some table \<Rightarrow> Some (td\<lparr>spare_table := None\<rparr>, table)
       | None \<Rightarrow> do {
           table \<leftarrow> leaf_alloc al;
           Some (td\<lparr>ids_leafs := (ids_leafs td)(table \<mapsto> zero_ids_table)\<rparr>, table)
         });
     t \<leftarrow> ids_leafs td table;
     let t = t\<lparr>first_unused := 1, free_entries := of_nat MAX_ENTRY_ID - 1, fifo_head := - 1, fifo_tail := - 1,
               partial := EO_COMPOSE_PARTIAL_ID mid_table_id table_id\<rparr>;
     row \<leftarrow> eo_ids_tables td mid_table_id;
     Some (td\<lparr>ids_leafs := (ids_leafs td)(table \<mapsto> t),
              eo_ids_tables := (eo_ids_tables td)(mid_table_id \<mapsto> row(table_id \<mapsto> table))\<rparr>, table)
   }"

text \<open>
  The loops over the tables. An entry that is found is given with its table, which is then
  the current one.
\<close>

function search_row ::
  "table_alloc \<Rightarrow> 'o Eo_Id_Table_Data \<Rightarrow> nat \<Rightarrow> nat \<Rightarrow> ('o Eo_Id_Table_Data \<times> nat option) option" where
  "search_row al td mid_table_id table_id =
     (if table_id < MAX_TABLE_ID then do {
        row \<leftarrow> eo_ids_tables td mid_table_id;
        (td, table, entry) \<leftarrow> (case row table_id of
            None \<Rightarrow> do {
              (td, table) \<leftarrow> reserve_table al td mid_table_id table_id;
              Some (td, table, Some 0)
            }
          | Some table \<Rightarrow> do {
              t \<leftarrow> ids_leafs td table;
              (t, entry) \<leftarrow> get_available_entry t;
              Some (td\<lparr>ids_leafs := (ids_leafs td)(table \<mapsto> t)\<rparr>, table, entry)
            });
        (case entry of
           Some entry \<Rightarrow> Some (td\<lparr>current_table := Some table\<rparr>, Some entry)
         | None \<Rightarrow> search_row al td mid_table_id (table_id + 1))
      } else Some (td, None))"
  by pat_completeness auto
termination
  by (relation "measure (\<lambda>(_, _, _, table_id). MAX_TABLE_ID - table_id)") auto

function search_mid_tables ::
  "table_alloc \<Rightarrow> 'o Eo_Id_Table_Data \<Rightarrow> nat \<Rightarrow> ('o Eo_Id_Table_Data \<times> nat option) option" where
  "search_mid_tables al td mid_table_id =
     (if mid_table_id < MAX_MID_TABLE_ID then do {
        (td, entry) \<leftarrow> search_row al
          (if eo_ids_tables td mid_table_id = None \<and> mid_alloc al
           then td\<lparr>eo_ids_tables := (eo_ids_tables td)(mid_table_id \<mapsto> (\<lambda>_. None))\<rparr> else td) mid_table_id 0;
        (case entry of
           Some entry \<Rightarrow> Some (td, Some entry)
         | None \<Rightarrow> search_mid_tables al td (mid_table_id + 1))
      } else Some (td\<lparr>current_table := None\<rparr>, None))"
  by pat_completeness auto
termination
  by (relation "measure (\<lambda>(_, _, mid_table_id). MAX_MID_TABLE_ID - mid_table_id)") auto

declare search_row.simps [simp del] search_mid_tables.simps [simp del]

definition search_tables :: "table_alloc \<Rightarrow> 'o Eo_Id_Table_Data \<Rightarrow> ('o Eo_Id_Table_Data \<times> nat option) option" where
  "search_tables al td = search_mid_tables al td 0"

section \<open>Allocation\<close>

definition fill_id_entry :: "'o Eo_Ids_Table \<Rightarrow> nat \<Rightarrow> 'o \<Rightarrow> nat \<Rightarrow> 'o Eo_Ids_Table" where
  "fill_id_entry t entry obj gen =
     t\<lparr>slots := (slots t)(entry := (slots t entry)\<lparr>obj_ptr := Some obj, in_use := True, gen_of := gen mod 2 ^ 10\<rparr>)\<rparr>"

text \<open>The counter is a 16-bit integer; the branch of the shared domain tests for equality.\<close>

definition next_generation :: "bool \<Rightarrow> nat \<Rightarrow> nat" where
  "next_generation is_shared g =
     (let g = (g + 1) mod 2 ^ 16
      in if (if is_shared then g = MAX_GENERATIONS else MAX_GENERATIONS \<le> g) then 1 else g)"

definition take_entry ::
  "table_alloc \<Rightarrow> 'o Eo_Id_Table_Data \<Rightarrow> ('o Eo_Id_Table_Data \<times> nat option) option" where
  "take_entry al td = do {
     (td, entry) \<leftarrow> (case current_table td of
         None \<Rightarrow> Some (td, None)
       | Some table \<Rightarrow> do {
           t \<leftarrow> ids_leafs td table;
           (t, entry) \<leftarrow> get_available_entry t;
           Some (td\<lparr>ids_leafs := (ids_leafs td)(table \<mapsto> t)\<rparr>, entry)
         });
     (case entry of None \<Rightarrow> search_tables al td | Some entry \<Rightarrow> Some (td, Some entry))
   }"

text \<open>The recursive lock of the shared domain, by how often it is taken.\<close>

definition lock_take :: "'o Eo_Id_Table_Data \<Rightarrow> 'o Eo_Id_Table_Data" where
  "lock_take td = td\<lparr>obj_lock := obj_lock td + 1\<rparr>"

definition lock_release :: "'o Eo_Id_Table_Data \<Rightarrow> 'o Eo_Id_Table_Data" where
  "lock_release td = td\<lparr>obj_lock := obj_lock td - 1\<rparr>"

definition allocate_entry ::
  "table_alloc \<Rightarrow> 'o Eo_Id_Table_Data \<Rightarrow> nat \<Rightarrow> 'o \<Rightarrow> ('o Eo_Id_Table_Data \<times> u64) option" where
  "allocate_entry al td domain obj = do {
     (td, entry) \<leftarrow> take_entry al td;
     (case (current_table td, entry) of
        (Some table, Some entry) \<Rightarrow>
          (let td = td\<lparr>gen_counter := next_generation (shared td) (gen_counter td)\<rparr>
           in do {
             t \<leftarrow> ids_leafs td table;
             let t = fill_id_entry t entry obj (gen_counter td);
             Some (td\<lparr>ids_leafs := (ids_leafs td)(table \<mapsto> t)\<rparr>,
                   EO_COMPOSE_FINAL_ID (partial t) entry domain (gen_of (slots t entry)))
           })
      | _ \<Rightarrow> Some (td, 0))
   }"

definition eo_id_allocate_in ::
  "table_alloc \<Rightarrow> 'o Eo_Id_Table_Data \<Rightarrow> nat \<Rightarrow> 'o \<Rightarrow> ('o Eo_Id_Table_Data \<times> u64) option" where
  "eo_id_allocate_in al td domain obj =
     (if \<not> shared td then allocate_entry al td domain obj
      else map_option (\<lambda>(td, i). (lock_release td, i)) (allocate_entry al (lock_take td) domain obj))"

section \<open>Release\<close>

text \<open>The entry goes to the end of the fifo.\<close>

definition fifo_push :: "'o Eo_Ids_Table \<Rightarrow> nat \<Rightarrow> 'o Eo_Ids_Table option" where
  "fifo_push t entry_id =
     (let t = t\<lparr>free_entries := free_entries t + 1,
                slots := (slots t)(entry_id := (slots t entry_id)\<lparr>in_use := False, next_in_fifo := - 1\<rparr>)\<rparr>
      in if fifo_tail t = - 1 then Some (t\<lparr>fifo_head := int entry_id, fifo_tail := int entry_id\<rparr>)
         else if 0 \<le> fifo_tail t \<and> fifo_tail t < int MAX_ENTRY_ID then
           (let tail = nat (fifo_tail t)
            in Some (t\<lparr>slots := (slots t)(tail := (slots t tail)\<lparr>next_in_fifo := int entry_id\<rparr>), fifo_tail := int entry_id\<rparr>))
         else None)"

definition wipe_cache :: "'o Eo_Id_Table_Data \<Rightarrow> u64 \<Rightarrow> 'o Eo_Id_Table_Data" where
  "wipe_cache td obj_id =
     (let td = (if cache_id td = obj_id then td\<lparr>cache_id := 0, cache_object := None\<rparr> else td)
      in if cache_isa_id td = obj_id then td\<lparr>cache_isa_id := 0, cache_klass := 0, cache_isa := False\<rparr> else td)"

text \<open>The slot of a table without used entries is cleared, and the table kept as spare or freed.\<close>

definition drop_table ::
  "'o Eo_Id_Table_Data \<Rightarrow> nat \<Rightarrow> nat \<Rightarrow> (nat \<Rightarrow> nat option) \<Rightarrow> nat \<Rightarrow> 'o Eo_Id_Table_Data" where
  "drop_table td mid_table_id table_id row table =
     (let td = td\<lparr>eo_ids_tables := (eo_ids_tables td)(mid_table_id \<mapsto> row(table_id := None))\<rparr>;
          td = (if spare_table td = None then td\<lparr>spare_table := Some table\<rparr>
                else td\<lparr>ids_leafs := (ids_leafs td)(table := None)\<rparr>)
      in if current_table td = Some table then td\<lparr>current_table := None\<rparr> else td)"

text \<open>The table and the entry the fields of an id lead to, if the entry is used under this id.\<close>

definition valid_entry :: "'o Eo_Id_Table_Data \<Rightarrow> u64 \<Rightarrow> (nat \<times> nat) option option" where
  "valid_entry td obj_id =
     (let (mid_table_id, table_id, entry_id, gen) = EO_DECOMPOSE_ID obj_id
      in case eo_ids_tables td mid_table_id of
           None \<Rightarrow> Some None
         | Some row \<Rightarrow>
             if MAX_TABLE_ID \<le> table_id then None
             else (case row table_id of
                None \<Rightarrow> Some None
              | Some table \<Rightarrow>
                  if MAX_ENTRY_ID \<le> entry_id then None
                  else do {
                    t \<leftarrow> ids_leafs td table;
                    Some (if in_use (slots t entry_id) \<and> gen_of (slots t entry_id) = gen
                          then Some (table, entry_id) else None)
                  }))"

definition release_entry :: "'o Eo_Id_Table_Data \<Rightarrow> u64 \<Rightarrow> 'o Eo_Id_Table_Data option" where
  "release_entry td obj_id = do {
     e \<leftarrow> valid_entry td obj_id;
     (case e of
        None \<Rightarrow> Some td
      | Some (table, entry_id) \<Rightarrow> do {
          t \<leftarrow> ids_leafs td table;
          t \<leftarrow> fifo_push t entry_id;
          let td = td\<lparr>ids_leafs := (ids_leafs td)(table \<mapsto> t)\<rparr>;
          let (mid_table_id, table_id, _, _) = EO_DECOMPOSE_ID obj_id;
          row \<leftarrow> eo_ids_tables td mid_table_id;
          let td = (if free_entries t = of_nat MAX_ENTRY_ID then drop_table td mid_table_id table_id row table else td);
          Some (wipe_cache td obj_id)
        })
   }"

definition eo_id_release_in :: "'o Eo_Id_Table_Data \<Rightarrow> u64 \<Rightarrow> 'o Eo_Id_Table_Data option" where
  "eo_id_release_in td obj_id =
     (if eo_domain obj_id \<noteq> 1 then release_entry td obj_id
      else map_option lock_release (release_entry (lock_take td) obj_id))"

section \<open>Lookup\<close>

text \<open>
  A lookup is served from the cache or fills it. For an id of the shared domain it returns
  with the lock taken when it finds the object, and gives it back otherwise.
\<close>

definition eo_obj_pointer_get_in ::
  "bool \<Rightarrow> 'o Eo_Id_Table_Data \<Rightarrow> u64 \<Rightarrow> ('o Eo_Id_Table_Data \<times> 'o option) option" where
  "eo_obj_pointer_get_in shared_id td obj_id =
     (let td = (if shared_id then lock_take td else td);
          unlock = (if shared_id then lock_release else (\<lambda>td. td))
      in if obj_id = cache_id td then Some (td, cache_object td)
         else if obj_id = 0 then Some (unlock td, None)
         else if obj_id AND MASK_OBJ_TAG = 0 then Some (unlock td, None)
         else do {
           e \<leftarrow> valid_entry td obj_id;
           (case e of
              None \<Rightarrow> Some (unlock td, None)
            | Some (table, entry_id) \<Rightarrow> do {
                t \<leftarrow> ids_leafs td table;
                let obj = obj_ptr (slots t entry_id);
                Some (td\<lparr>cache_object := obj, cache_id := obj_id\<rparr>, obj)
              })
         })"

end
