(* ===== verification/Eo_Ids_Laws.thy ===== *)
theory Eo_Ids_Laws
  imports Eo_Ids
begin

text \<open>
  The invariants of the object ids: the fields of an id, the fifo of a table, and what
  taking, filling and giving back an entry do to the objects that are registered.
\<close>

unbundle bit_operations_syntax

section \<open>Ids\<close>

lemma tag_bit: "bit (push_bit 46 1 :: u64) j \<longleftrightarrow> j = 46"
  by (simp only: bit_push_bit_iff bit_1_iff) auto

lemma eo_field_bit:
  "bit (of_nat x AND mask n :: u64) j \<longleftrightarrow> j < 64 \<and> j < n \<and> bit x j"
  "bit ((a OR b) AND mask n :: u64) j \<longleftrightarrow> j < n \<and> (bit a j \<or> bit b j)"
  by (auto simp: bit_and_iff bit_or_iff bit_mask_iff bit_of_nat_iff dest: bit_imp_le_length)

lemma eo_id_fields:
  "drop_bit 32 (EO_COMPOSE_FINAL_ID (EO_COMPOSE_PARTIAL_ID mid tid) e d g) AND mask 11 = take_bit 11 (of_nat mid)"
  "drop_bit 21 (EO_COMPOSE_FINAL_ID (EO_COMPOSE_PARTIAL_ID mid tid) e d g) AND mask 11 = take_bit 11 (of_nat tid)"
  "drop_bit 10 (EO_COMPOSE_FINAL_ID (EO_COMPOSE_PARTIAL_ID mid tid) e d g) AND mask 11 = take_bit 11 (of_nat e)"
  "EO_COMPOSE_FINAL_ID (EO_COMPOSE_PARTIAL_ID mid tid) e d g AND mask 10 = take_bit 10 (of_nat g)"
  "drop_bit 43 (EO_COMPOSE_FINAL_ID (EO_COMPOSE_PARTIAL_ID mid tid) e d g) AND mask 2 = take_bit 2 (of_nat d)"
  "drop_bit 32 (EO_COMPOSE_PARTIAL_ID mid tid) AND mask 11 = take_bit 11 (of_nat mid)"
  "drop_bit 21 (EO_COMPOSE_PARTIAL_ID mid tid) AND mask 11 = take_bit 11 (of_nat tid)"
  unfolding EO_COMPOSE_FINAL_ID_def EO_COMPOSE_PARTIAL_ID_def
  by (rule bit_word_eqI; simp only: field_bit eo_field_bit tag_bit bit_or_iff; auto)+

lemma eo_decompose_compose:
  assumes "mid < MAX_MID_TABLE_ID" "tid < MAX_TABLE_ID" "e < MAX_ENTRY_ID" "g < MAX_GENERATIONS"
  shows "EO_DECOMPOSE_ID (EO_COMPOSE_FINAL_ID (EO_COMPOSE_PARTIAL_ID mid tid) e d g) = (mid, tid, e, g)"
  using assms unfolding EO_DECOMPOSE_ID_def eo_id_fields by (simp add: field_value eo_consts)

lemma eo_domain_compose: "d < 4 \<Longrightarrow> eo_domain (EO_COMPOSE_FINAL_ID (EO_COMPOSE_PARTIAL_ID mid tid) e d g) = d"
  unfolding eo_domain_def eo_id_fields by (simp add: field_value)

lemma eo_partial_fields:
  assumes "mid < MAX_MID_TABLE_ID" "tid < MAX_TABLE_ID"
  shows "unat (drop_bit 32 (EO_COMPOSE_PARTIAL_ID mid tid) AND mask 11) = mid"
    "unat (drop_bit 21 (EO_COMPOSE_PARTIAL_ID mid tid) AND mask 11) = tid"
  using assms unfolding eo_id_fields by (simp_all add: field_value eo_consts)

lemma eo_tag_set: "EO_COMPOSE_FINAL_ID (EO_COMPOSE_PARTIAL_ID mid tid) e d g AND MASK_OBJ_TAG \<noteq> 0"
proof -
  have "bit (EO_COMPOSE_FINAL_ID (EO_COMPOSE_PARTIAL_ID mid tid) e d g AND MASK_OBJ_TAG) 46"
    unfolding EO_COMPOSE_FINAL_ID_def EO_COMPOSE_PARTIAL_ID_def MASK_OBJ_TAG_def bit_and_iff
    by (simp only: bit_or_iff tag_bit simp_thms)
  then show ?thesis by auto
qed

text \<open>The ids of a domain: those that allocation in this domain composes.\<close>

definition eo_id_ok :: "nat \<Rightarrow> u64 \<Rightarrow> bool" where
  "eo_id_ok d i \<longleftrightarrow> (case EO_DECOMPOSE_ID i of (mid, tid, e, g) \<Rightarrow>
     tid < MAX_TABLE_ID \<and> e < MAX_ENTRY_ID \<and> i = EO_COMPOSE_FINAL_ID (EO_COMPOSE_PARTIAL_ID mid tid) e d g)"

lemma eo_id_ok_compose:
  assumes "mid < MAX_MID_TABLE_ID" "tid < MAX_TABLE_ID" "e < MAX_ENTRY_ID" "g < MAX_GENERATIONS"
  shows "eo_id_ok d (EO_COMPOSE_FINAL_ID (EO_COMPOSE_PARTIAL_ID mid tid) e d g)"
  using assms by (simp add: eo_id_ok_def eo_decompose_compose)

lemma eo_id_okD:
  assumes "eo_id_ok d i" "EO_DECOMPOSE_ID i = (mid, tid, e, g)"
  shows "tid < MAX_TABLE_ID" "e < MAX_ENTRY_ID" "i = EO_COMPOSE_FINAL_ID (EO_COMPOSE_PARTIAL_ID mid tid) e d g"
    "i AND MASK_OBJ_TAG \<noteq> 0" "i \<noteq> 0"
proof -
  show "tid < MAX_TABLE_ID" "e < MAX_ENTRY_ID" and i: "i = EO_COMPOSE_FINAL_ID (EO_COMPOSE_PARTIAL_ID mid tid) e d g"
    using assms by (auto simp: eo_id_ok_def)
  show "i AND MASK_OBJ_TAG \<noteq> 0"
    unfolding i by (rule eo_tag_set)
  then show "i \<noteq> 0" by auto
qed

lemma eo_id_ok_inj: "eo_id_ok d i \<Longrightarrow> eo_id_ok d j \<Longrightarrow> EO_DECOMPOSE_ID i = EO_DECOMPOSE_ID j \<Longrightarrow> i = j"
  by (auto simp: eo_id_ok_def split: prod.splits)

section \<open>Tables\<close>

fun fifo_chain :: "(nat \<Rightarrow> 'o Eo_Id_Entry) \<Rightarrow> int \<Rightarrow> nat list \<Rightarrow> bool" where
  "fifo_chain es h [] \<longleftrightarrow> h = - 1"
| "fifo_chain es h (x # xs) \<longleftrightarrow> h = int x \<and> fifo_chain es (next_in_fifo (es x)) xs"

definition fifo :: "'o Eo_Ids_Table \<Rightarrow> nat list \<Rightarrow> bool" where
  "fifo t xs \<longleftrightarrow> fifo_chain (slots t) (fifo_head t) xs \<and> fifo_tail t = (if xs = [] then - 1 else int (last xs)) \<and> distinct xs"

text \<open>
  The fifo holds the entries before \<open>start\<close> that are not in use; the counter of free entries
  counts all that are not in use. Entries in use have an object and a generation from 1 on.
\<close>

definition unused :: "'o Eo_Ids_Table \<Rightarrow> nat set" where
  "unused t = {e. e < MAX_ENTRY_ID \<and> \<not> in_use (slots t e)}"

definition ids_table_ok :: "'o Eo_Ids_Table \<Rightarrow> bool" where
  "ids_table_ok t \<longleftrightarrow> first_unused t \<le> MAX_ENTRY_ID
     \<and> (\<exists>xs. fifo t xs \<and> set xs = {e. e < first_unused t \<and> \<not> in_use (slots t e)})
     \<and> (\<forall>e \<ge> first_unused t. \<not> in_use (slots t e))
     \<and> free_entries t = of_nat (card (unused t))
     \<and> (\<forall>e. in_use (slots t e) \<longrightarrow> (\<exists>x. obj_ptr (slots t e) = Some x)
           \<and> 0 < gen_of (slots t e) \<and> gen_of (slots t e) < MAX_GENERATIONS)"

definition id_live :: "'o Eo_Ids_Table \<Rightarrow> nat \<Rightarrow> nat \<Rightarrow> 'o option" where
  "id_live t e g = (if in_use (slots t e) \<and> gen_of (slots t e) = g then obj_ptr (slots t e) else None)"

lemma fifo_chain_upd: "x \<notin> set xs \<Longrightarrow> fifo_chain (es(x := n)) h xs = fifo_chain es h xs"
  by (induction xs arbitrary: h) auto

lemma fifo_chain_cong:
  "(\<And>x. x \<in> set xs \<Longrightarrow> next_in_fifo (es' x) = next_in_fifo (es x)) \<Longrightarrow> fifo_chain es' h xs = fifo_chain es h xs"
  by (induction xs arbitrary: h) auto

text \<open>Linking an entry behind the last one.\<close>

lemma fifo_chain_snoc:
  assumes "fifo_chain es h xs" "xs \<noteq> []" "distinct xs" "x \<notin> set xs" "next_in_fifo (es x) = - 1"
  shows "fifo_chain (es(last xs := (es (last xs))\<lparr>next_in_fifo := int x\<rparr>)) h (xs @ [x])"
  using assms
proof (induction xs arbitrary: h)
  case (Cons y ys)
  show ?case
  proof (cases "ys = []")
    case False
    with Cons have "y \<noteq> last ys" by auto
    with Cons False show ?thesis by auto
  qed (use Cons.prems in auto)
qed simp

lemma finite_unused [simp]: "finite (unused t)"
  by (simp add: unused_def)

lemma card_unused_le: "card (unused t) \<le> MAX_ENTRY_ID"
  using card_mono [of "{..<MAX_ENTRY_ID}" "unused t"] by (auto simp: unused_def)

lemma card_unused_max: "card (unused t) = MAX_ENTRY_ID \<longleftrightarrow> (\<forall>e < MAX_ENTRY_ID. \<not> in_use (slots t e))"
proof -
  have "unused t \<subseteq> {..<MAX_ENTRY_ID}" by (auto simp: unused_def)
  then have "card (unused t) = MAX_ENTRY_ID \<longleftrightarrow> unused t = {..<MAX_ENTRY_ID}"
    by (metis card_lessThan card_subset_eq finite_lessThan)
  then show ?thesis by (auto simp: unused_def)
qed

lemma table_in_use:
  assumes "ids_table_ok t" "in_use (slots t e)"
  shows "e < first_unused t" "e < MAX_ENTRY_ID" "0 < gen_of (slots t e)" "gen_of (slots t e) < MAX_GENERATIONS"
proof -
  from assms show "e < first_unused t" unfolding ids_table_ok_def by (meson not_le)
  with assms show "e < MAX_ENTRY_ID" "0 < gen_of (slots t e)" "gen_of (slots t e) < MAX_GENERATIONS"
    by (auto simp: ids_table_ok_def)
qed

lemma free_entries_max:
  assumes "ids_table_ok t"
  shows "free_entries t = of_nat MAX_ENTRY_ID \<longleftrightarrow> (\<forall>e. \<not> in_use (slots t e))"
proof -
  have "free_entries t = of_nat MAX_ENTRY_ID \<longleftrightarrow> card (unused t) = MAX_ENTRY_ID"
  proof
    assume "free_entries t = of_nat MAX_ENTRY_ID"
    then have "unat (of_nat (card (unused t)) :: u32) = unat (of_nat MAX_ENTRY_ID :: u32)"
      using assms by (simp add: ids_table_ok_def)
    moreover have "card (unused t) < 2 ^ 32" "MAX_ENTRY_ID < 2 ^ 32"
      using card_unused_le [of t] by (auto simp: eo_consts)
    ultimately show "card (unused t) = MAX_ENTRY_ID"
      by (simp add: unsigned_of_nat take_bit_nat_eq_self)
  qed (use assms in \<open>simp add: ids_table_ok_def\<close>)
  then show ?thesis
    using table_in_use(2) [OF assms] by (auto simp: card_unused_max)
qed


text \<open>Taking an entry and filling it.\<close>

lemma unused_fill: "e \<in> unused t \<Longrightarrow> slots t' = slots t \<Longrightarrow> unused (fill_id_entry t' e x g) = unused t - {e}"
  by (auto simp: unused_def fill_id_entry_def)

lemma of_nat_card_minus: "e \<in> unused t \<Longrightarrow> (of_nat (card (unused t)) - 1 :: u32) = of_nat (card (unused t - {e}))"
proof -
  assume e: "e \<in> unused t"
  then have "card (unused t) = Suc (card (unused t - {e}))"
    by (metis card_Suc_Diff1 finite_unused)
  then show ?thesis by simp
qed

lemma fill_ok:
  assumes ok: "ids_table_ok t" and t1: "slots t1 = slots t" "free_entries t1 = free_entries t - 1" "partial t1 = partial t"
    and e: "e \<in> unused t" "e < first_unused t1" and f: "first_unused t1 \<le> MAX_ENTRY_ID"
      "\<And>i. first_unused t1 \<le> i \<Longrightarrow> first_unused t \<le> i"
    and q: "fifo t1 xs" "set xs = {i. i < first_unused t1 \<and> \<not> in_use (slots t i)} - {e}"
    and g: "0 < g" "g < MAX_GENERATIONS"
  shows "ids_table_ok (fill_id_entry t1 e x g)"
proof -
  let ?t = "fill_id_entry t1 e x g"
  have sl: "slots ?t = (slots t)(e := (slots t e)\<lparr>obj_ptr := Some x, in_use := True, gen_of := g\<rparr>)"
    using g(2) t1(1) by (simp add: fill_id_entry_def eo_consts)
  have fields: "first_unused ?t = first_unused t1" "fifo_head ?t = fifo_head t1" "fifo_tail ?t = fifo_tail t1" "free_entries ?t = free_entries t1"
    by (simp_all add: fill_id_entry_def)
  have "fifo ?t xs"
    using q e(1) t1(1) by (simp add: fifo_def fields sl fifo_chain_upd)
  moreover have "set xs = {i. i < first_unused ?t \<and> \<not> in_use (slots ?t i)}"
    using q(2) by (auto simp: sl fields)
  moreover have "free_entries ?t = of_nat (card (unused ?t))"
    using ok t1(2) of_nat_card_minus [OF e(1)] unused_fill [OF e(1) t1(1)] by (simp add: ids_table_ok_def fields)
  moreover have "\<forall>i \<ge> first_unused ?t. \<not> in_use (slots ?t i)"
    using ok e(2) f(2) by (auto simp: sl fields ids_table_ok_def)
  ultimately show ?thesis
    using ok f g unfolding ids_table_ok_def by (auto simp: fields sl)
qed

lemma available_cases:
  assumes ok: "ids_table_ok t"
  obtains (full) "get_available_entry t = Some (t, None)" "unused t = {}"
    | (some) t1 e where "get_available_entry t = Some (t1, Some e)" "e \<in> unused t" "slots t1 = slots t" "partial t1 = partial t"
      "\<And>x g. 0 < g \<Longrightarrow> g < MAX_GENERATIONS \<Longrightarrow> ids_table_ok (fill_id_entry t1 e x g)"
proof -
  obtain xs where xs: "fifo t xs" "set xs = {i. i < first_unused t \<and> \<not> in_use (slots t i)}"
    using ok by (auto simp: ids_table_ok_def)
  have f: "first_unused t \<le> MAX_ENTRY_ID" "\<forall>i \<ge> first_unused t. \<not> in_use (slots t i)"
    using ok by (auto simp: ids_table_ok_def)
  show thesis
  proof (cases "first_unused t = MAX_ENTRY_ID")
    case False
    let ?t1 = "t\<lparr>first_unused := first_unused t + 1, free_entries := free_entries t - 1\<rparr>"
    have e: "first_unused t \<in> unused t"
      using False f by (simp add: unused_def)
    have "ids_table_ok (fill_id_entry ?t1 (first_unused t) x g)" if "0 < g" "g < MAX_GENERATIONS" for x g
      by (rule fill_ok [OF ok, where xs = xs])
        (use e False f xs that in \<open>auto simp: fifo_def less_Suc_eq\<close>)
    with e False show thesis
      by (intro some [of ?t1 "first_unused t"]) (simp_all add: get_available_entry_def)
  next
    case True
    show thesis
    proof (cases xs)
      case Nil
      with xs True have "unused t = {}" "fifo_head t = - 1"
        by (auto simp: fifo_def unused_def)
      with True full show thesis
        by (simp add: get_available_entry_def)
    next
      case (Cons e ys)
      have e: "e \<in> unused t"
        using Cons xs(2) True by (auto simp: unused_def)
      have h: "fifo_head t = int e" "fifo_chain (slots t) (next_in_fifo (slots t e)) ys" "distinct ys" "e \<notin> set ys"
        "fifo_tail t = int (last (e # ys))"
        using xs(1) Cons by (auto simp: fifo_def)
      have n: "next_in_fifo (slots t e) = - 1 \<longleftrightarrow> ys = []"
        using h(2) by (cases ys) auto
      define t1 where "t1 = (if ys = [] then t\<lparr>fifo_head := - 1, fifo_tail := - 1\<rparr> else t\<lparr>fifo_head := next_in_fifo (slots t e)\<rparr>)
                   \<lparr>free_entries := free_entries t - 1\<rparr>"
      have av: "get_available_entry t = Some (t1, Some e)"
        using True h(1) e n by (auto simp: get_available_entry_def unused_def Let_def t1_def)
      have q: "fifo t1 ys"
        using h by (auto simp: fifo_def t1_def)
      have fields: "slots t1 = slots t" "free_entries t1 = free_entries t - 1" "partial t1 = partial t" "first_unused t1 = first_unused t"
        by (auto simp: t1_def)
      have ys: "set ys = {i. i < first_unused t1 \<and> \<not> in_use (slots t i)} - {e}"
        using Cons h(4) xs(2) by (auto simp: fields)
      have "e < first_unused t1"
        using e True by (simp add: unused_def fields)
      then have "ids_table_ok (fill_id_entry t1 e x g)" if "0 < g" "g < MAX_GENERATIONS" for x g
        by (rule fill_ok [OF ok fields(1-3) e _ _ _ q ys that]) (simp_all add: fields True)
      with av e fields show thesis
        by (intro some [of t1 e])
    qed
  qed
qed

text \<open>A table for a free slot, with its first entry filled.\<close>

lemma reserved_ok:
  assumes n: "\<And>e. \<not> in_use (slots t e)" and g: "0 < g" "g < MAX_GENERATIONS"
  shows "ids_table_ok (fill_id_entry (t\<lparr>first_unused := 1, free_entries := of_nat MAX_ENTRY_ID - 1, fifo_head := - 1, fifo_tail := - 1,
               partial := p\<rparr>) 0 x g)" (is "ids_table_ok (fill_id_entry ?t 0 x g)")
proof -
  let ?t0 = "?t\<lparr>first_unused := 0, free_entries := of_nat MAX_ENTRY_ID\<rparr>"
  have u: "unused ?t0 = {..<MAX_ENTRY_ID}"
    using n by (auto simp: unused_def)
  have "ids_table_ok ?t0"
    using n u by (auto simp: ids_table_ok_def fifo_def intro: exI [of _ "[]"])
  then show ?thesis
    by (rule fill_ok [where xs = "[]"]) (use u g n in \<open>auto simp: fifo_def eo_consts\<close>)
qed

text \<open>Giving an entry back.\<close>

lemma fifo_push_ok:
  assumes ok: "ids_table_ok t" and e: "in_use (slots t e)"
  obtains t' where "fifo_push t e = Some t'" "ids_table_ok t'" "partial t' = partial t"
    "\<And>i. in_use (slots t' i) \<longleftrightarrow> in_use (slots t i) \<and> i \<noteq> e"
    "\<And>i. gen_of (slots t' i) = gen_of (slots t i)" "\<And>i. obj_ptr (slots t' i) = obj_ptr (slots t i)"
proof -
  obtain xs where xs: "fifo t xs" "set xs = {i. i < first_unused t \<and> \<not> in_use (slots t i)}"
    using ok by (auto simp: ids_table_ok_def)
  note b = table_in_use [OF ok e]
  let ?s = "(slots t)(e := (slots t e)\<lparr>in_use := False, next_in_fifo := - 1\<rparr>)"
  have ne: "e \<notin> set xs" using xs(2) e by auto
  define s where "s = (if xs = [] then ?s else ?s(last xs := (?s (last xs))\<lparr>next_in_fifo := int e\<rparr>))"
  define t' where "t' = t\<lparr>free_entries := free_entries t + 1, slots := s, fifo_tail := int e,
      fifo_head := (if xs = [] then int e else fifo_head t)\<rparr>"
  have last: "last xs < MAX_ENTRY_ID" "last xs \<noteq> e" if "xs \<noteq> []"
    using that xs(2) ok last_in_set [OF that] ne by (auto simp: ids_table_ok_def)
  have p: "fifo_push t e = Some t'"
    using xs(1) last by (auto simp: fifo_push_def t'_def s_def fifo_def Let_def)
  have s: "in_use (s i) \<longleftrightarrow> in_use (slots t i) \<and> i \<noteq> e" "gen_of (s i) = gen_of (slots t i)" "obj_ptr (s i) = obj_ptr (slots t i)" for i
    by (auto simp: s_def)
  have c0: "fifo_chain ?s (fifo_head t) xs"
    using xs(1) ne by (simp add: fifo_def fifo_chain_upd)
  have q: "fifo t' (xs @ [e])"
  proof (cases "xs = []")
    case True
    then show ?thesis by (simp add: fifo_def t'_def s_def)
  next
    case False
    have "fifo_chain s (fifo_head t) (xs @ [e])"
      unfolding s_def using fifo_chain_snoc [OF c0 False _ ne] xs(1) False by (simp add: fifo_def)
    with False xs(1) ne show ?thesis by (simp add: fifo_def t'_def)
  qed
  have "unused t' = insert e (unused t)"
    using b(2) by (auto simp: unused_def t'_def s)
  moreover have "e \<notin> unused t"
    using e by (simp add: unused_def)
  ultimately have "free_entries t' = of_nat (card (unused t'))"
    using ok by (simp add: ids_table_ok_def t'_def)
  moreover have "set (xs @ [e]) = {i. i < first_unused t' \<and> \<not> in_use (slots t' i)}"
    using xs(2) b(1) by (auto simp: t'_def s)
  ultimately have "ids_table_ok t'"
    using ok q unfolding ids_table_ok_def by (auto simp: t'_def s)
  with p s that [of t'] show thesis
    by (simp add: t'_def)
qed

end
