(* ===== verification/Eo_Ids_Ops.thy ===== *)
theory Eo_Ids_Ops
  imports Eo_Ids_Laws
begin

text \<open>
  What allocation, release and lookup do to the objects registered in the tables of a
  domain, and the invariant they keep.
\<close>

unbundle bit_operations_syntax

section \<open>The tables of a domain\<close>

definition eo_table_ok :: "nat \<Rightarrow> nat \<Rightarrow> 'o Eo_Ids_Table \<Rightarrow> bool" where
  "eo_table_ok mid tid t \<longleftrightarrow> mid < MAX_MID_TABLE_ID \<and> tid < MAX_TABLE_ID
     \<and> ids_table_ok t \<and> partial t = EO_COMPOSE_PARTIAL_ID mid tid"

interpretation eot: id_tables eo_table_ok
proof
  show "eo_table_ok m n t \<Longrightarrow> eo_table_ok m' n' t \<Longrightarrow> m' = m \<and> n' = n" for m n m' n' and t :: "'o Eo_Ids_Table"
    using eo_partial_fields [of m n] eo_partial_fields [of m' n'] by (auto simp: eo_table_ok_def)
qed

abbreviation eo_tab :: "'o Eo_Id_Table_Data \<Rightarrow> nat \<Rightarrow> nat \<Rightarrow> 'o Eo_Ids_Table option" where
  "eo_tab td \<equiv> slot_table (eo_ids_tables td) (ids_leafs td)"

definition eo_live :: "'o Eo_Id_Table_Data \<Rightarrow> eo_key \<Rightarrow> 'o option" where
  "eo_live td = tables_live id_live (eo_tab td)"

definition tables_inv :: "'o Eo_Id_Table_Data \<Rightarrow> bool" where
  "tables_inv td \<longleftrightarrow> slots_ok eo_table_ok (eo_ids_tables td) (ids_leafs td)
     \<and> (\<forall>a. spare_table td = Some a \<longrightarrow> (\<forall>m n. \<not> slot_at (eo_ids_tables td) m n a)
          \<and> (\<exists>t. ids_leafs td a = Some t \<and> (\<forall>e. \<not> in_use (slots t e))))
     \<and> (\<forall>a. current_table td = Some a \<longrightarrow> (\<exists>m n. slot_at (eo_ids_tables td) m n a))"

lemma tables_invD: "tables_inv td \<Longrightarrow> slots_ok eo_table_ok (eo_ids_tables td) (ids_leafs td)"
  by (simp add: tables_inv_def)

lemma eo_slotD:
  assumes "tables_inv td" "slot_at (eo_ids_tables td) mid tid a"
  obtains t where "ids_leafs td a = Some t" "ids_table_ok t" "partial t = EO_COMPOSE_PARTIAL_ID mid tid"
    "mid < MAX_MID_TABLE_ID" "tid < MAX_TABLE_ID"
  by (rule slots_okD [OF tables_invD [OF assms(1)] assms(2)]) (simp add: eo_table_ok_def that)

text \<open>
  An entry was taken: it is an entry of the current table, not in use before, and filling it
  registers its object and nothing else.
\<close>

definition frame :: "'o Eo_Id_Table_Data \<Rightarrow> 'o Eo_Id_Table_Data \<Rightarrow> bool" where
  "frame td td' \<longleftrightarrow> cache_id td' = cache_id td \<and> cache_object td' = cache_object td
     \<and> gen_counter td' = gen_counter td \<and> shared td' = shared td \<and> obj_lock td' = obj_lock td"

definition taken :: "'o Eo_Id_Table_Data \<Rightarrow> 'o Eo_Id_Table_Data \<Rightarrow> nat \<Rightarrow> bool" where
  "taken td td1 e \<longleftrightarrow> frame td td1 \<and> (\<exists>a mid tid t1. current_table td1 = Some a \<and> ids_leafs td1 a = Some t1
     \<and> partial t1 = EO_COMPOSE_PARTIAL_ID mid tid \<and> mid < MAX_MID_TABLE_ID \<and> tid < MAX_TABLE_ID \<and> e < MAX_ENTRY_ID
     \<and> (\<forall>g. eo_live td (mid, tid, e, g) = None)
     \<and> (\<forall>x g. 0 < g \<and> g < MAX_GENERATIONS \<longrightarrow>
          tables_inv (td1\<lparr>ids_leafs := (ids_leafs td1)(a \<mapsto> fill_id_entry t1 e x g)\<rparr>)
          \<and> eo_live (td1\<lparr>ids_leafs := (ids_leafs td1)(a \<mapsto> fill_id_entry t1 e x g)\<rparr>) = (eo_live td)((mid, tid, e, g) \<mapsto> x)))"

lemma takenI:
  assumes "frame td td1" "current_table td1 = Some a" "ids_leafs td1 a = Some t1"
    "partial t1 = EO_COMPOSE_PARTIAL_ID mid tid" "mid < MAX_MID_TABLE_ID" "tid < MAX_TABLE_ID" "e < MAX_ENTRY_ID"
    "\<And>g. eo_live td (mid, tid, e, g) = None"
    "\<And>x g td2. 0 < g \<Longrightarrow> g < MAX_GENERATIONS \<Longrightarrow> td2 = td1\<lparr>ids_leafs := (ids_leafs td1)(a \<mapsto> fill_id_entry t1 e x g)\<rparr> \<Longrightarrow>
       tables_inv td2 \<and> eo_live td2 = (eo_live td)((mid, tid, e, g) \<mapsto> x)"
  shows "taken td td1 e"
  unfolding taken_def using assms by blast

lemma live_fill:
  assumes "g < MAX_GENERATIONS" "\<not> in_use (slots t1 e)"
  shows "id_live (fill_id_entry t1 e x g) e' g' = (if e' = e then if g' = g then Some x else None else id_live t1 e' g')"
  using assms by (auto simp: id_live_def fill_id_entry_def eo_consts)

lemma take_available:
  assumes inv: "tables_inv td" and s: "slot_at (eo_ids_tables td) mid tid a" and t: "ids_leafs td a = Some t"
    and e: "e \<in> unused t" "slots t1 = slots t" "partial t1 = partial t"
      "\<And>x g. 0 < g \<Longrightarrow> g < MAX_GENERATIONS \<Longrightarrow> ids_table_ok (fill_id_entry t1 e x g)"
  shows "taken td (td\<lparr>ids_leafs := (ids_leafs td)(a \<mapsto> t1), current_table := Some a\<rparr>) e"
proof -
  obtain l: "partial t = EO_COMPOSE_PARTIAL_ID mid tid" "mid < MAX_MID_TABLE_ID" "tid < MAX_TABLE_ID"
    using eo_slotD [OF inv s] t by auto
  have n: "\<not> in_use (slots t e)" "e < MAX_ENTRY_ID"
    using e(1) by (auto simp: unused_def)
  have tab0: "eo_tab td mid tid = Some t"
    using t by (simp add: slot_tableI [OF s])
  have nu: "\<not> in_use (slots t1 e)" and lt: "id_live t1 e' g' = id_live t e' g'" "id_live t e g' = None" for e' g'
    using n e(2) by (simp_all add: id_live_def)
  have "tables_inv td2 \<and> eo_live td2 = (eo_live td)((mid, tid, e, g) \<mapsto> x)"
    if g: "0 < g" "g < MAX_GENERATIONS"
      and td2: "td2 = td\<lparr>current_table := Some a, ids_leafs := (ids_leafs td)(a \<mapsto> fill_id_entry t1 e x g)\<rparr>" for x g td2
  proof -
    let ?t = "fill_id_entry t1 e x g"
    have "eo_table_ok mid tid ?t"
      using e(3,4) g l by (simp add: eo_table_ok_def fill_id_entry_def)
    note w = eot.write_leaf [OF tables_invD [OF inv] s this]
    have "tables_inv td2"
      using inv s w(1) by (auto simp: tables_inv_def td2)
    moreover have "eo_tab td2 = (\<lambda>m n. if m = mid \<and> n = tid then Some ?t else eo_tab td m n)"
      using w(2) by (intro ext) (simp add: td2)
    then have "eo_live td2 = (eo_live td)((mid, tid, e, g) \<mapsto> x)"
      unfolding eo_live_def using tab0
      by (intro tables_live_write [where t = ?t]) (simp_all add: live_fill [OF g(2) nu] lt)
    ultimately show ?thesis by blast
  qed
  moreover have "eo_live td (mid, tid, e, g) = None" for g
    using n tab0 by (simp add: eo_live_def id_live_def)
  ultimately show ?thesis
    using l e(3) n(2) by (intro takenI [of _ _ a t1 mid tid]) (simp_all add: frame_def)
qed

text \<open>Putting a reserved table into a free slot.\<close>

lemma take_reserved:
  assumes inv: "tables_inv td" and row: "eo_ids_tables td mid = Some row" "row tid = None"
    and ids: "mid < MAX_MID_TABLE_ID" "tid < MAX_TABLE_ID"
    and al: "leaf_alloc al = Some b" "ids_leafs td b = None"
  obtains td1 a where "reserve_table al td mid tid = Some (td1, a)" "taken td (td1\<lparr>current_table := Some a\<rparr>) 0"
proof -
  obtain a t where a: "spare_table td = Some a \<and> ids_leafs td a = Some t \<or> spare_table td = None \<and> a = b \<and> t = zero_ids_table"
    and free: "\<And>m n. \<not> slot_at (eo_ids_tables td) m n a" and no: "\<And>e. \<not> in_use (slots t e)"
  proof (cases "spare_table td")
    case None
    with that [of b zero_ids_table] unmapped_no_slot [OF tables_invD [OF inv] al(2)] show ?thesis
      by (simp add: zero_ids_table_def)
  next
    case (Some a)
    with that [of a] inv show ?thesis
      by (auto simp: tables_inv_def)
  qed
  define t1 where "t1 = t\<lparr>first_unused := 1, free_entries := of_nat MAX_ENTRY_ID - 1, fifo_head := - 1, fifo_tail := - 1,
               partial := EO_COMPOSE_PARTIAL_ID mid tid\<rparr>"
  define td1 where "td1 = td\<lparr>spare_table := None, ids_leafs := (ids_leafs td)(a \<mapsto> t1),
      eo_ids_tables := (eo_ids_tables td)(mid \<mapsto> row(tid \<mapsto> a))\<rparr>"
  have r: "reserve_table al td mid tid = Some (td1, a)"
    using a row al by (auto simp: reserve_table_def td1_def t1_def Let_def)
  have none: "eo_tab td mid tid = None"
    using row by (simp add: slot_table_def)
  have nu: "\<not> in_use (slots t1 0)" and lt: "id_live t1 e g = None" for e g
    using no by (simp_all add: id_live_def t1_def)
  have "tables_inv td2 \<and> eo_live td2 = (eo_live td)((mid, tid, 0, g) \<mapsto> x)"
    if g: "0 < g" "g < MAX_GENERATIONS"
      and td2: "td2 = td1\<lparr>current_table := Some a, ids_leafs := (ids_leafs td)(a \<mapsto> fill_id_entry t1 0 x g)\<rparr>" for x g td2
  proof -
    let ?t = "fill_id_entry t1 0 x g"
    have "eo_table_ok mid tid ?t"
      using reserved_ok [OF no g, of "EO_COMPOSE_PARTIAL_ID mid tid" x] ids
      by (simp add: eo_table_ok_def t1_def [symmetric]) (simp add: fill_id_entry_def t1_def)
    note p = eot.place_leaf [OF tables_invD [OF inv] row(1) this free]
    have "tables_inv td2"
      using p(1) row by (auto simp: tables_inv_def td2 td1_def slot_at_def)
    moreover have "eo_tab td2 = (\<lambda>m n. if m = mid \<and> n = tid then Some ?t else eo_tab td m n)"
      using p(2) by (intro ext) (simp add: td2 td1_def)
    then have "eo_live td2 = (eo_live td)((mid, tid, 0, g) \<mapsto> x)"
      unfolding eo_live_def using none
      by (intro tables_live_write [where t = ?t]) (simp_all add: live_fill [OF g(2) nu] lt)
    ultimately show ?thesis by blast
  qed
  note filled = this
  have "taken td (td1\<lparr>current_table := Some a\<rparr>) 0"
  proof (rule takenI)
    show "eo_live td (mid, tid, 0, g) = None" for g
      using none by (simp add: eo_live_def)
    show "tables_inv td2 \<and> eo_live td2 = (eo_live td)((mid, tid, 0, g) \<mapsto> x)"
      if "0 < g" "g < MAX_GENERATIONS"
        "td2 = td1\<lparr>current_table := Some a, ids_leafs := (ids_leafs (td1\<lparr>current_table := Some a\<rparr>))(a \<mapsto> fill_id_entry t1 0 x g)\<rparr>" for x g td2
      using filled [OF that(1,2), of td2 x] that(3) by (simp add: td1_def)
  qed (use ids in \<open>simp_all add: frame_def td1_def t1_def eo_consts\<close>)
  with r that show thesis by blast
qed


section \<open>The search\<close>

definition full_at :: "'o Eo_Id_Table_Data \<Rightarrow> nat \<Rightarrow> nat \<Rightarrow> bool" where
  "full_at td mid tid \<longleftrightarrow> (\<exists>t. eo_tab td mid tid = Some t \<and> unused t = {})"

lemma upd_same_leaf: "ids_leafs td a = Some t \<Longrightarrow> td\<lparr>ids_leafs := (ids_leafs td)(a \<mapsto> t)\<rparr> = td"
  by (simp add: fun_upd_idem)

text \<open>One table of the row: an entry is taken from it, or it is full and nothing changes.\<close>

lemma table_entry:
  assumes inv: "tables_inv td" and s: "slot_at (eo_ids_tables td) mid tid a"
  obtains (full) t where "ids_leafs td a = Some t" "get_available_entry t = Some (t, None)" "full_at td mid tid"
    | (some) t t1 e where "ids_leafs td a = Some t" "get_available_entry t = Some (t1, Some e)"
      "taken td (td\<lparr>ids_leafs := (ids_leafs td)(a \<mapsto> t1), current_table := Some a\<rparr>) e"
proof -
  obtain t where t: "ids_leafs td a = Some t" "ids_table_ok t"
    using eo_slotD [OF inv s] by blast
  show thesis
  proof (cases rule: available_cases [OF t(2), case_names full some])
    case full
    with t(1) show thesis
      by (intro \<open>\<And>t. \<lbrakk>ids_leafs td a = Some t; get_available_entry t = Some (t, None); full_at td mid tid\<rbrakk> \<Longrightarrow> thesis\<close> [of t])
        (auto simp: full_at_def slot_tableI [OF s])
  next
    case (some t1 e)
    with t(1) show thesis
      using \<open>\<And>t t1 e. \<lbrakk>ids_leafs td a = Some t; get_available_entry t = Some (t1, Some e);
          taken td (td\<lparr>ids_leafs := (ids_leafs td)(a \<mapsto> t1), current_table := Some a\<rparr>) e\<rbrakk> \<Longrightarrow> thesis\<close> [of t t1 e]
        take_available [OF inv s t(1) some(2-5)] by blast
  qed
qed

definition searched :: "'o Eo_Id_Table_Data \<Rightarrow> nat \<Rightarrow> nat \<Rightarrow> 'o Eo_Id_Table_Data \<times> nat option \<Rightarrow> bool" where
  "searched td mid tid = (\<lambda>(td1, r). case r of
       Some e \<Rightarrow> taken td td1 e
     | None \<Rightarrow> td1 = td \<and> (\<forall>n. tid \<le> n \<and> n < MAX_TABLE_ID \<longrightarrow> full_at td mid n))"

lemma searched_next: "searched td mid (tid + 1) x \<Longrightarrow> full_at td mid tid \<Longrightarrow> searched td mid tid x"
  by (auto simp: searched_def le_less Suc_le_eq split: option.splits)

lemma search_row_finds:
  assumes "tables_inv td" "eo_ids_tables td mid = Some row" "mid < MAX_MID_TABLE_ID"
    "leaf_alloc al = Some b" "ids_leafs td b = None"
  shows "\<exists>x. search_row al td mid tid = Some x \<and> searched td mid tid x"
  using assms
proof (induction al td mid tid rule: search_row.induct)
  case (1 al td mid tid)
  show ?case
  proof (cases "tid < MAX_TABLE_ID")
    case False
    then show ?thesis by (subst search_row.simps) (auto simp: searched_def)
  next
    case tid: True
    show ?thesis
    proof (cases "row tid")
      case None
      obtain td1 a where r: "reserve_table al td mid tid = Some (td1, a)" "taken td (td1\<lparr>current_table := Some a\<rparr>) 0"
        using take_reserved [OF "1.prems"(1,2) None "1.prems"(3) tid "1.prems"(4,5)] by blast
      then have "search_row al td mid tid = Some (td1\<lparr>current_table := Some a\<rparr>, Some 0)"
        using tid None "1.prems"(2) by (subst search_row.simps) simp
      with r(2) show ?thesis by (simp add: searched_def)
    next
      case (Some a)
      then have s: "slot_at (eo_ids_tables td) mid tid a" using "1.prems"(2) by (simp add: slot_at_def)
      show ?thesis
      proof (cases rule: table_entry [OF "1.prems"(1) s, case_names full some])
        case (some t t1 e)
        then have "search_row al td mid tid = Some (td\<lparr>ids_leafs := (ids_leafs td)(a \<mapsto> t1), current_table := Some a\<rparr>, Some e)"
          using tid Some "1.prems"(2) by (subst search_row.simps) simp
        with some(3) show ?thesis by (simp add: searched_def)
      next
        case (full t)
        have e: "search_row al td mid tid = search_row al td mid (tid + 1)"
          using tid Some "1.prems"(2) full(1,2) upd_same_leaf [OF full(1)] by (subst search_row.simps) simp
        have "\<exists>x. search_row al td mid (tid + 1) = Some x \<and> searched td mid (tid + 1) x"
          by (rule "1.IH") (use tid Some "1.prems" full upd_same_leaf [OF full(1)] in auto)
        then show ?thesis
          unfolding e using searched_next full(3) by blast
      qed
    qed
  qed
qed


definition row_new :: "table_alloc \<Rightarrow> 'o Eo_Id_Table_Data \<Rightarrow> nat \<Rightarrow> 'o Eo_Id_Table_Data" where
  "row_new al td mid = (if eo_ids_tables td mid = None \<and> mid_alloc al
     then td\<lparr>eo_ids_tables := (eo_ids_tables td)(mid \<mapsto> (\<lambda>_. None))\<rparr> else td)"

lemma row_new:
  shows "eo_tab (row_new al td mid) = eo_tab td" "ids_leafs (row_new al td mid) = ids_leafs td"
    "tables_inv td \<Longrightarrow> tables_inv (row_new al td mid)" "frame td (row_new al td mid)"
    "mid_alloc al \<Longrightarrow> \<exists>row. eo_ids_tables (row_new al td mid) mid = Some row"
proof -
  have s: "slot_at (eo_ids_tables (row_new al td mid)) = slot_at (eo_ids_tables td)"
    by (simp add: row_new_def slot_at_new_row)
  show l: "ids_leafs (row_new al td mid) = ids_leafs td" and "frame td (row_new al td mid)"
    by (simp_all add: row_new_def frame_def)
  show "eo_tab (row_new al td mid) = eo_tab td"
    using same_slots [OF s] l by metis
  have f: "spare_table (row_new al td mid) = spare_table td" "current_table (row_new al td mid) = current_table td"
    by (simp_all add: row_new_def)
  show "tables_inv td \<Longrightarrow> tables_inv (row_new al td mid)"
    by (simp add: tables_inv_def slots_ok_def s l f)
qed (auto simp: row_new_def)

lemma same_tab:
  assumes "eo_tab td' = eo_tab td"
  shows "eo_live td' = eo_live td" "full_at td' = full_at td"
  by (simp_all add: eo_live_def full_at_def assms fun_eq_iff)

lemma taken_trans: "taken td' td1 e \<Longrightarrow> eo_tab td' = eo_tab td \<Longrightarrow> frame td td' \<Longrightarrow> taken td td1 e"
  using same_tab(1) [of td' td] by (simp add: taken_def frame_def)

text \<open>What the whole search does: with memory it fails only when every table is full.\<close>

definition all_full_from :: "'o Eo_Id_Table_Data \<Rightarrow> nat \<Rightarrow> bool" where
  "all_full_from td mid \<longleftrightarrow> (\<forall>m n. mid \<le> m \<and> m < MAX_MID_TABLE_ID \<and> n < MAX_TABLE_ID \<longrightarrow> full_at td m n)"

definition exhausted :: "'o Eo_Id_Table_Data \<Rightarrow> nat \<Rightarrow> 'o Eo_Id_Table_Data \<Rightarrow> bool" where
  "exhausted td mid td1 \<longleftrightarrow> frame td td1 \<and> current_table td1 = None \<and> tables_inv td1 \<and> eo_tab td1 = eo_tab td \<and> all_full_from td mid"

lemma all_full_from_step:
  "all_full_from td (mid + 1) \<Longrightarrow> \<forall>n < MAX_TABLE_ID. full_at td mid n \<Longrightarrow> all_full_from td mid"
  unfolding all_full_from_def by (metis Suc_eq_plus1 not_less_eq_eq le_antisym)

lemma search_mid_tables_finds:
  assumes "tables_inv td" "mid_alloc al" "leaf_alloc al = Some b" "ids_leafs td b = None"
  shows "\<exists>td1 r. search_mid_tables al td mid = Some (td1, r)
    \<and> (case r of Some e \<Rightarrow> taken td td1 e | None \<Rightarrow> exhausted td mid td1)"
  using assms
proof (induction al td mid rule: search_mid_tables.induct)
  case (1 al td mid)
  let ?td = "row_new al td mid"
  note r = row_new [where al = al and td = td and mid = mid]
  have e: "search_mid_tables al td mid =
     (if mid < MAX_MID_TABLE_ID then do {
        (td, entry) \<leftarrow> search_row al ?td mid 0;
        (case entry of Some entry \<Rightarrow> Some (td, Some entry) | None \<Rightarrow> search_mid_tables al td (mid + 1))
      } else Some (td\<lparr>current_table := None\<rparr>, None))"
    by (subst search_mid_tables.simps) (simp only: row_new_def)
  show ?case
  proof (cases "mid < MAX_MID_TABLE_ID")
    case False
    with "1.prems"(1) show ?thesis
      unfolding e by (auto simp: exhausted_def frame_def all_full_from_def tables_inv_def)
  next
    case mid: True
    obtain row where row: "eo_ids_tables ?td mid = Some row"
      using r(5) "1.prems"(2) by blast
    obtain x where x: "search_row al ?td mid 0 = Some x" "searched ?td mid 0 x"
      using search_row_finds [OF r(3) row mid "1.prems"(3), of 0] "1.prems" r(2) by auto
    obtain td1 y where x1: "x = (td1, y)" by fastforce
    show ?thesis
    proof (cases y)
      case (Some e1)
      with x(2) x1 have "taken td td1 e1"
        using taken_trans [OF _ r(1,4)] by (simp add: searched_def)
      with x(1) x1 Some mid show ?thesis unfolding e by simp
    next
      case None
      with x x1 have s: "td1 = ?td" "\<forall>n < MAX_TABLE_ID. full_at ?td mid n"
        by (auto simp: searched_def)
      have "\<exists>td' z. search_mid_tables al ?td (mid + 1) = Some (td', z)
          \<and> (case z of Some e \<Rightarrow> taken ?td td' e | None \<Rightarrow> exhausted ?td (mid + 1) td')"
        by (rule "1.IH" [OF mid, folded row_new_def, OF x(1)]) (simp_all add: x1 s(1) None r "1.prems")
      then obtain td' z where z: "search_mid_tables al ?td (mid + 1) = Some (td', z)"
        "case z of Some e \<Rightarrow> taken ?td td' e | None \<Rightarrow> exhausted ?td (mid + 1) td'"
        by blast
      have eq: "search_mid_tables al td mid = Some (td', z)"
        unfolding e x(1) x1 s(1) None using mid z(1) by simp
      show ?thesis
      proof (cases z)
        case (Some e1)
        with z(2) taken_trans [OF _ r(1,4)] eq show ?thesis by simp
      next
        case None
        with z(2) have "all_full_from ?td (mid + 1)" by (simp add: exhausted_def)
        then have "all_full_from td mid"
          using all_full_from_step [of ?td mid] s(2) same_tab(2) [OF r(1)] by (simp add: all_full_from_def)
        with None z(2) eq r(1,4) show ?thesis
          by (simp add: exhausted_def frame_def)
      qed
    qed
  qed
qed

lemma take_entry_finds:
  assumes inv: "tables_inv td" and al: "mid_alloc al" "leaf_alloc al = Some b" "ids_leafs td b = None"
  shows "\<exists>td1 r. take_entry al td = Some (td1, r) \<and> (case r of Some e \<Rightarrow> taken td td1 e | None \<Rightarrow> exhausted td 0 td1)"
proof (cases "current_table td")
  case None
  with search_mid_tables_finds [OF inv al, of 0] show ?thesis
    by (simp add: take_entry_def search_tables_def split: option.splits)
next
  case (Some a)
  with inv obtain mid tid where s: "slot_at (eo_ids_tables td) mid tid a"
    by (auto simp: tables_inv_def)
  show ?thesis
  proof (cases rule: table_entry [OF inv s, case_names full some])
    case (full t)
    with Some search_mid_tables_finds [OF inv al, of 0] upd_same_leaf [OF full(1)] show ?thesis
      by (simp add: take_entry_def search_tables_def split: option.splits)
  next
    case (some t t1 e)
    have "td\<lparr>ids_leafs := (ids_leafs td)(a \<mapsto> t1)\<rparr> = td\<lparr>ids_leafs := (ids_leafs td)(a \<mapsto> t1), current_table := Some a\<rparr>"
      using Some by (cases td) simp
    with some Some show ?thesis
      by (simp add: take_entry_def)
  qed
qed


section \<open>The operations\<close>

text \<open>The cache, when it is filled, holds what the tables hold for its id.\<close>

definition eo_inv :: "nat \<Rightarrow> 'o Eo_Id_Table_Data \<Rightarrow> bool" where
  "eo_inv d td \<longleftrightarrow> tables_inv td \<and> gen_counter td < MAX_GENERATIONS
     \<and> (if cache_id td = 0 then cache_object td = None
        else eo_id_ok d (cache_id td) \<and> cache_object td \<noteq> None
          \<and> eo_live td (EO_DECOMPOSE_ID (cache_id td)) = cache_object td)"

abbreviation eo_next :: "nat \<Rightarrow> nat" where
  "eo_next \<equiv> cycle_next MAX_GENERATIONS"

lemma next_generation_eq: "g < MAX_GENERATIONS \<Longrightarrow> next_generation s g = eo_next g"
  by (auto simp: next_generation_def cycle_next_def eo_consts)

lemma eo_next_range: "g < MAX_GENERATIONS \<Longrightarrow> 0 < eo_next g \<and> eo_next g < MAX_GENERATIONS"
  by (auto simp: cycle_next_def eo_consts)

lemma eo_new_inv: "eo_inv d (eo_table_data_table_new s rnd)" "eo_live (eo_table_data_table_new s rnd) = (\<lambda>_. None)"
  by (auto simp: eo_inv_def tables_inv_def slots_ok_def slot_at_def eo_table_data_table_new_def eo_consts
      eo_live_def tables_live_def slot_table_def)

text \<open>The counter and the cache are not part of the tables.\<close>

lemma tables_inv_cong:
  assumes "eo_ids_tables td' = eo_ids_tables td" "ids_leafs td' = ids_leafs td"
    "spare_table td' = spare_table td" "current_table td' = current_table td"
  shows "tables_inv td' = tables_inv td" "eo_live td' = eo_live td"
  by (simp_all add: tables_inv_def eo_live_def assms)

text \<open>Neither is the lock.\<close>

lemma lock_simps [simp]:
  "eo_live (lock_take td) = eo_live td" "eo_live (lock_release td) = eo_live td"
  "eo_inv d (lock_take td) = eo_inv d td" "eo_inv d (lock_release td) = eo_inv d td"
  "all_full_from (lock_take td) m = all_full_from td m" "ids_leafs (lock_take td) = ids_leafs td"
  "gen_counter (lock_take td) = gen_counter td" "gen_counter (lock_release td) = gen_counter td"
  "shared (lock_take td) = shared td" "shared (lock_release td) = shared td"
  "obj_lock (lock_take td) = obj_lock td + 1" "obj_lock (lock_release td) = obj_lock td - 1"
  "lock_release (lock_take td) = td" "cache_id (lock_take td) = cache_id td" "cache_object (lock_take td) = cache_object td"
  by (simp_all add: lock_take_def lock_release_def eo_inv_def tables_inv_def eo_live_def all_full_from_def full_at_def)

lemma valid_entry_lock [simp]: "valid_entry (lock_take td) i = valid_entry td i"
  by (simp add: valid_entry_def lock_take_def split: prod.split option.split)

lemma allocate_entry_law:
  assumes inv: "eo_inv d td" and al: "mid_alloc al" "leaf_alloc al = Some b" "ids_leafs td b = None"
  obtains (none) td' where "allocate_entry al td c x = Some (td', 0)" "eo_inv d td'" "eo_live td' = eo_live td"
      "all_full_from td 0" "gen_counter td' = gen_counter td" "obj_lock td' = obj_lock td" "shared td' = shared td"
    | (some) td' mid tid e i where "allocate_entry al td c x = Some (td', i)" "i \<noteq> 0" "eo_id_ok c i"
      "EO_DECOMPOSE_ID i = (mid, tid, e, eo_next (gen_counter td))" "eo_inv d td'"
      "\<forall>g. eo_live td (mid, tid, e, g) = None"
      "mid < MAX_MID_TABLE_ID" "tid < MAX_TABLE_ID" "e < MAX_ENTRY_ID"
      "eo_live td' = (eo_live td)((mid, tid, e, eo_next (gen_counter td)) \<mapsto> x)"
      "gen_counter td' = eo_next (gen_counter td)" "obj_lock td' = obj_lock td" "shared td' = shared td"
proof -
  have ti: "tables_inv td" and gc: "gen_counter td < MAX_GENERATIONS"
    using inv by (auto simp: eo_inv_def)
  note g = eo_next_range [OF gc]
  obtain td1 r where t: "take_entry al td = Some (td1, r)" "case r of Some e \<Rightarrow> taken td td1 e | None \<Rightarrow> exhausted td 0 td1"
    using take_entry_finds [OF ti al] by blast
  show thesis
  proof (cases r)
    case None
    with t have ex: "exhausted td 0 td1" by simp
    then have "eo_live td1 = eo_live td"
      using same_tab(1) [of td1 td] by (simp add: exhausted_def)
    with ex inv have "eo_inv d td1"
      by (simp add: exhausted_def eo_inv_def frame_def)
    with ex t(1) None \<open>eo_live td1 = eo_live td\<close> show thesis
      by (intro none [of td1]) (simp_all add: allocate_entry_def exhausted_def frame_def)
  next
    case (Some e)
    let ?g = "eo_next (gen_counter td)"
    from t Some have tk: "taken td td1 e" by simp
    then obtain a mid tid t1 where a: "current_table td1 = Some a" "ids_leafs td1 a = Some t1"
      "partial t1 = EO_COMPOSE_PARTIAL_ID mid tid" "mid < MAX_MID_TABLE_ID" "tid < MAX_TABLE_ID" "e < MAX_ENTRY_ID"
      "\<forall>g. eo_live td (mid, tid, e, g) = None"
      and fill: "\<And>x g. 0 < g \<Longrightarrow> g < MAX_GENERATIONS \<Longrightarrow>
        tables_inv (td1\<lparr>ids_leafs := (ids_leafs td1)(a \<mapsto> fill_id_entry t1 e x g)\<rparr>)
        \<and> eo_live (td1\<lparr>ids_leafs := (ids_leafs td1)(a \<mapsto> fill_id_entry t1 e x g)\<rparr>) = (eo_live td)((mid, tid, e, g) \<mapsto> x)"
      unfolding taken_def by blast
    have fr: "frame td td1" using tk by (simp add: taken_def)
    let ?t = "fill_id_entry t1 e x ?g"
    define td2 where "td2 = td1\<lparr>gen_counter := ?g, ids_leafs := (ids_leafs td1)(a \<mapsto> ?t)\<rparr>"
    have f: "partial ?t = partial t1" "gen_of (slots ?t e) = ?g"
      using g by (simp_all add: fill_id_entry_def eo_consts)
    let ?i = "EO_COMPOSE_FINAL_ID (EO_COMPOSE_PARTIAL_ID mid tid) e c ?g"
    have al2: "allocate_entry al td c x = Some (td2, ?i)"
      using t(1) Some a(1-3) fr gc f
      by (simp add: allocate_entry_def next_generation_eq td2_def frame_def Let_def)
    have k: "EO_DECOMPOSE_ID ?i = (mid, tid, e, ?g)"
      using a g by (intro eo_decompose_compose) auto
    have ok: "eo_id_ok c ?i"
      using a g by (intro eo_id_ok_compose) auto
    have l2: "tables_inv td2" "eo_live td2 = (eo_live td)((mid, tid, e, ?g) \<mapsto> x)"
      using fill [of ?g x] g
        tables_inv_cong [of td2 "td1\<lparr>ids_leafs := (ids_leafs td1)(a \<mapsto> ?t)\<rparr>"] by (simp_all add: td2_def)
    have "eo_inv d td2"
      using inv l2 g fr a(7) by (auto simp: eo_inv_def td2_def frame_def)
    then show thesis
      using some [OF al2 _ ok k] l2(2) a fr eo_id_okD(5) [OF ok k] by (simp add: td2_def frame_def)
  qed
qed

text \<open>In the shared domain all this is done with the lock taken, which is given back in the end.\<close>

lemma allocate_law:
  assumes inv: "eo_inv d td" and al: "mid_alloc al" "leaf_alloc al = Some b" "ids_leafs td b = None"
  obtains (none) td' where "eo_id_allocate_in al td c x = Some (td', 0)" "eo_inv d td'" "eo_live td' = eo_live td"
      "all_full_from td 0" "gen_counter td' = gen_counter td" "obj_lock td' = obj_lock td" "shared td' = shared td"
    | (some) td' mid tid e i where "eo_id_allocate_in al td c x = Some (td', i)" "i \<noteq> 0" "eo_id_ok c i"
      "EO_DECOMPOSE_ID i = (mid, tid, e, eo_next (gen_counter td))" "eo_inv d td'"
      "\<forall>g. eo_live td (mid, tid, e, g) = None"
      "mid < MAX_MID_TABLE_ID" "tid < MAX_TABLE_ID" "e < MAX_ENTRY_ID"
      "eo_live td' = (eo_live td)((mid, tid, e, eo_next (gen_counter td)) \<mapsto> x)"
      "gen_counter td' = eo_next (gen_counter td)" "obj_lock td' = obj_lock td" "shared td' = shared td"
proof (cases "shared td")
  case False
  then have "eo_id_allocate_in al td c x = allocate_entry al td c x" by (simp add: eo_id_allocate_in_def)
  then show thesis
    by (cases rule: allocate_entry_law [OF inv al, of c x]) (auto intro: none some)
next
  case True
  have run: "eo_id_allocate_in al td c x = map_option (\<lambda>(td, i). (lock_release td, i)) (allocate_entry al (lock_take td) c x)"
    using True by (simp add: eo_id_allocate_in_def)
  have inv': "eo_inv d (lock_take td)" and al': "ids_leafs (lock_take td) b = None" using inv al by simp_all
  show thesis
  proof (cases rule: allocate_entry_law [OF inv' al(1,2) al', of c x, case_names nothing entry])
    case (nothing td1)
    with run none [of "lock_release td1"] show thesis by simp
  next
    case (entry td1 mid tid e i)
    with run some [of "lock_release td1" i mid tid e] show thesis by simp
  qed
qed

text \<open>The entry of a valid id.\<close>

lemma valid_entry_law:
  assumes inv: "tables_inv td" and ok: "eo_id_ok d i" and k: "EO_DECOMPOSE_ID i = (mid, tid, e, g)"
  obtains (none) "valid_entry td i = Some None" "eo_live td (mid, tid, e, g) = None"
    | (some) a row t x where "valid_entry td i = Some (Some (a, e))" "eo_ids_tables td mid = Some row" "row tid = Some a"
      "ids_leafs td a = Some t" "ids_table_ok t" "partial t = EO_COMPOSE_PARTIAL_ID mid tid" "mid < MAX_MID_TABLE_ID"
      "in_use (slots t e)" "gen_of (slots t e) = g" "obj_ptr (slots t e) = Some x" "eo_live td (mid, tid, e, g) = Some x"
proof -
  note b = eo_id_okD [OF ok k]
  show thesis
  proof (cases "\<exists>a. slot_at (eo_ids_tables td) mid tid a")
    case False
    then have "eo_live td (mid, tid, e, g) = None"
      by (simp add: eo_live_def slot_table_none)
    moreover have "valid_entry td i = Some None"
      using False b k by (auto simp: valid_entry_def slot_at_def split: option.splits)
    ultimately show thesis by (intro none)
  next
    case True
    then obtain a where a: "slot_at (eo_ids_tables td) mid tid a" by blast
    then obtain row where row: "eo_ids_tables td mid = Some row" "row tid = Some a"
      by (auto simp: slot_at_def)
    obtain t where t: "ids_leafs td a = Some t" "ids_table_ok t" "partial t = EO_COMPOSE_PARTIAL_ID mid tid" "mid < MAX_MID_TABLE_ID"
      using eo_slotD [OF inv a] by blast
    have v: "valid_entry td i = Some (if in_use (slots t e) \<and> gen_of (slots t e) = g then Some (a, e) else None)"
      using b k row t(1) by (simp add: valid_entry_def not_le)
    have l: "eo_live td (mid, tid, e, g) = id_live t e g"
      using t(1) by (simp add: eo_live_def slot_tableI [OF a])
    show thesis
    proof (cases "in_use (slots t e) \<and> gen_of (slots t e) = g")
      case True
      then obtain x where "obj_ptr (slots t e) = Some x"
        using t(2) by (auto simp: ids_table_ok_def)
      with True v l row t show thesis
        by (intro some [of a row t x]) (auto simp: id_live_def)
    next
      case False
      with v l show thesis by (intro none) (auto simp: id_live_def)
    qed
  qed
qed


text \<open>A lookup that finds nothing gives the lock back.\<close>

definition keep_lock :: "bool \<Rightarrow> 'o Eo_Id_Table_Data \<Rightarrow> 'o Eo_Id_Table_Data" where
  "keep_lock s td = (if s then lock_take td else td)"

lemma eo_obj_pointer_get_in_eq:
  "eo_obj_pointer_get_in s td i =
     (if i = cache_id td then Some (keep_lock s td, cache_object td)
      else if i = 0 \<or> i AND MASK_OBJ_TAG = 0 then Some (td, None)
      else do {
        e \<leftarrow> valid_entry td i;
        (case e of
           None \<Rightarrow> Some (td, None)
         | Some (table, entry_id) \<Rightarrow> do {
             t \<leftarrow> ids_leafs td table;
             Some (keep_lock s (td\<lparr>cache_object := obj_ptr (slots t entry_id), cache_id := i\<rparr>), obj_ptr (slots t entry_id))
           })
      })"
proof -
  have "(lock_take td)\<lparr>cache_object := x, cache_id := i\<rparr> = lock_take (td\<lparr>cache_object := x, cache_id := i\<rparr>)" for x
    by (simp add: lock_take_def)
  then show ?thesis
    by (auto simp: eo_obj_pointer_get_in_def keep_lock_def Let_def split: Option.bind_splits option.splits)
qed

lemma keep_lock_simps [simp]:
  "tables_inv (keep_lock s td) = tables_inv td" "eo_live (keep_lock s td) = eo_live td"
  "gen_counter (keep_lock s td) = gen_counter td" "cache_id (keep_lock s td) = cache_id td"
  "cache_object (keep_lock s td) = cache_object td" "shared (keep_lock s td) = shared td"
  "obj_lock (keep_lock s td) = (if s then obj_lock td + 1 else obj_lock td)"
  by (simp_all add: keep_lock_def lock_take_def tables_inv_def eo_live_def)

lemma get_pointer_law:
  assumes inv: "eo_inv d td" and ok: "eo_id_ok d i"
  obtains td' where "eo_obj_pointer_get_in s td i = Some (td', eo_live td (EO_DECOMPOSE_ID i))" "eo_inv d td'"
    "eo_live td' = eo_live td" "gen_counter td' = gen_counter td" "shared td' = shared td"
    "obj_lock td' = (if s \<and> eo_live td (EO_DECOMPOSE_ID i) \<noteq> None then obj_lock td + 1 else obj_lock td)"
proof -
  obtain mid tid e g where k: "EO_DECOMPOSE_ID i = (mid, tid, e, g)"
    by (cases "EO_DECOMPOSE_ID i") auto
  note b = eo_id_okD [OF ok k]
  have ti: "tables_inv td" using inv by (simp add: eo_inv_def)
  show thesis
  proof (cases "i = cache_id td")
    case True
    with inv b(5) that [of "keep_lock s td"] show thesis
      by (simp add: eo_obj_pointer_get_in_eq eo_inv_def)
  next
    case False
    show thesis
    proof (cases rule: valid_entry_law [OF ti ok k, case_names none some])
      case none
      with False b inv k that [of td] show thesis
        by (simp add: eo_obj_pointer_get_in_eq)
    next
      case (some a row t x)
      define td' where "td' = td\<lparr>cache_object := Some x, cache_id := i\<rparr>"
      have l: "eo_live td' = eo_live td" "tables_inv td'"
        using tables_inv_cong [of td' td] ti by (simp_all add: td'_def)
      then have "eo_inv d (keep_lock s td')"
        using inv ok some(11) k b(5) by (auto simp: eo_inv_def td'_def)
      moreover have "eo_obj_pointer_get_in s td i = Some (keep_lock s td', Some x)"
        using False b(4,5) some(1,4,10) by (simp add: eo_obj_pointer_get_in_eq td'_def Let_def)
      ultimately show thesis
        using that [of "keep_lock s td'"] l some(11) k by (simp add: td'_def)
    qed
  qed
qed

text \<open>Clearing the slot of a table without used entries.\<close>

lemma drop_table_law:
  assumes inv: "tables_inv td" and row: "eo_ids_tables td mid = Some row" "row tid = Some a"
    and t: "ids_leafs td a = Some t" "\<And>e. \<not> in_use (slots t e)"
  shows "tables_inv (drop_table td mid tid row a)" "eo_live (drop_table td mid tid row a) = eo_live td"
proof -
  let ?ids = "(eo_ids_tables td)(mid \<mapsto> row(tid := None))"
  define heap where "heap = (if spare_table td = None then ids_leafs td else (ids_leafs td)(a := None))"
  let ?td = "drop_table td mid tid row a"
  have f: "eo_ids_tables ?td = ?ids" "ids_leafs ?td = heap"
    "spare_table ?td = Some (case spare_table td of None \<Rightarrow> a | Some b \<Rightarrow> b)"
    "current_table ?td = (if current_table td = Some a then None else current_table td)"
    by (auto simp: drop_table_def heap_def Let_def split: option.splits)
  have h: "heap b = ids_leafs td b" if "b \<noteq> a" for b
    using that by (simp add: heap_def)
  note c = eot.clear_slot [OF tables_invD [OF inv] row h]
  have s: "slot_at (eo_ids_tables td) mid tid a"
    using row by (simp add: slot_at_def)
  note sl = slot_at_upd [of "eo_ids_tables td" mid row tid None, OF row(1)]
  have sp: "\<not> slot_at ?ids m n b \<and> b \<noteq> a" if "spare_table td = Some b" for m n b
    using inv that s by (auto simp: tables_inv_def sl)
  have cur: "\<exists>m n. slot_at ?ids m n b" if "current_table td = Some b" "b \<noteq> a" for b
  proof -
    obtain m n where mn: "slot_at (eo_ids_tables td) m n b"
      using inv \<open>current_table td = Some b\<close> unfolding tables_inv_def by blast
    then have "\<not> (m = mid \<and> n = tid)"
      using that(2) row by (auto simp: slot_at_def)
    with mn sl [of m n b] show ?thesis by auto
  qed
  show "tables_inv ?td"
    unfolding tables_inv_def f
  proof (intro conjI allI impI)
    show "slots_ok eo_table_ok ?ids heap" by (rule c(1))
    fix b
    assume b: "Some (case spare_table td of None \<Rightarrow> a | Some b \<Rightarrow> b) = Some b"
    show "\<not> slot_at ?ids m n b" for m n
      using b sp c(3) by (auto split: option.splits)
    show "\<exists>t. heap b = Some t \<and> (\<forall>e. \<not> in_use (slots t e))"
      using b t inv sp h by (auto simp: tables_inv_def heap_def split: option.splits)
  next
    fix b
    assume "(if current_table td = Some a then None else current_table td) = Some b"
    then show "\<exists>m n. slot_at ?ids m n b"
      using cur by (auto split: if_splits)
  qed
  have "eo_live ?td q = eo_live td q" for q
    using c(2) t slot_tableI [OF s, of "ids_leafs td"] by (cases q) (auto simp: eo_live_def f id_live_def)
  then show "eo_live ?td = eo_live td" ..
qed

lemma wipe_cache_simps [simp]:
  "tables_inv (wipe_cache td i) = tables_inv td" "eo_live (wipe_cache td i) = eo_live td"
  "gen_counter (wipe_cache td i) = gen_counter td" "obj_lock (wipe_cache td i) = obj_lock td" "shared (wipe_cache td i) = shared td"
  "cache_id (wipe_cache td i) = (if cache_id td = i then 0 else cache_id td)"
  "cache_object (wipe_cache td i) = (if cache_id td = i then None else cache_object td)"
  by (simp_all add: wipe_cache_def Let_def tables_inv_def eo_live_def)

lemma drop_table_frame: "frame td (drop_table td mid tid row a)"
  by (auto simp: frame_def drop_table_def Let_def)

lemma release_entry_law:
  assumes inv: "eo_inv d td" and ok: "eo_id_ok d i"
  obtains td' where "release_entry td i = Some td'" "eo_inv d td'" "eo_live td' = (eo_live td)(EO_DECOMPOSE_ID i := None)"
    "gen_counter td' = gen_counter td" "obj_lock td' = obj_lock td" "shared td' = shared td"
proof -
  obtain mid tid e g where k: "EO_DECOMPOSE_ID i = (mid, tid, e, g)"
    by (cases "EO_DECOMPOSE_ID i") auto
  have ti: "tables_inv td" using inv by (simp add: eo_inv_def)
  show thesis
  proof (cases rule: valid_entry_law [OF ti ok k, case_names none some])
    case none
    with that [of td] inv k show thesis
      by (simp add: release_entry_def fun_upd_idem)
  next
    case (some a row t x)
    obtain t' where t': "fifo_push t e = Some t'" "ids_table_ok t'" "partial t' = partial t"
      "\<And>i. in_use (slots t' i) \<longleftrightarrow> in_use (slots t i) \<and> i \<noteq> e"
      "\<And>i. gen_of (slots t' i) = gen_of (slots t i)" "\<And>i. obj_ptr (slots t' i) = obj_ptr (slots t i)"
      using fifo_push_ok [OF some(5,8)] by metis
    define td1 where "td1 = td\<lparr>ids_leafs := (ids_leafs td)(a \<mapsto> t')\<rparr>"
    have s: "slot_at (eo_ids_tables td) mid tid a"
      using some(2,3) by (simp add: slot_at_def)
    have "eo_table_ok mid tid t'"
      using t'(2,3) some(6,7) eo_id_okD(1) [OF ok k] by (simp add: eo_table_ok_def)
    note w = eot.write_leaf [OF tables_invD [OF ti] s this]
    have i1: "tables_inv td1"
      using ti s w(1) by (auto simp: tables_inv_def td1_def)
    have l1: "eo_live td1 = (eo_live td)((mid, tid, e, g) := None)"
      unfolding eo_live_def td1_def using w(2) some(4,9) t'(4-6) slot_tableI [OF s, of "ids_leafs td"]
      by (intro tables_live_write [where t = t']) (auto simp: id_live_def)
    define td2 where "td2 = (if free_entries t' = of_nat MAX_ENTRY_ID then drop_table td1 mid tid row a else td1)"
    have rel: "release_entry td i = Some (wipe_cache td2 i)"
      using some(1,2,4) t'(1) k by (simp add: release_entry_def td1_def td2_def)
    have d1: "eo_ids_tables td1 mid = Some row" "ids_leafs td1 a = Some t'"
      using some(2) by (simp_all add: td1_def)
    have i2: "tables_inv td2" "eo_live td2 = eo_live td1" "frame td1 td2"
      using drop_table_law [OF i1 d1(1) some(3) d1(2)] free_entries_max [OF t'(2)] i1 drop_table_frame [of td1 mid tid row a]
      by (auto simp: td2_def frame_def)
    have fr: "frame td td2"
      using i2(3) by (simp add: frame_def td1_def)
    have ne: "EO_DECOMPOSE_ID (cache_id td) \<noteq> (mid, tid, e, g)" if "cache_id td \<noteq> i" "cache_id td \<noteq> 0"
      using that inv eo_id_ok_inj [OF ok, of "cache_id td"] k by (auto simp: eo_inv_def)
    have "eo_inv d (wipe_cache td2 i)"
      using inv i2(1,2) l1 fr ne by (auto simp: eo_inv_def frame_def)
    with rel show thesis
      using that [of "wipe_cache td2 i"] i2(2) l1 fr k by (simp add: frame_def)
  qed
qed

lemma release_id_law:
  assumes inv: "eo_inv d td" and ok: "eo_id_ok d i"
  obtains td' where "eo_id_release_in td i = Some td'" "eo_inv d td'" "eo_live td' = (eo_live td)(EO_DECOMPOSE_ID i := None)"
    "gen_counter td' = gen_counter td" "obj_lock td' = obj_lock td" "shared td' = shared td"
proof (cases "eo_domain i = 1")
  case False
  then have "eo_id_release_in td i = release_entry td i" by (simp add: eo_id_release_in_def)
  then show thesis
    using that by (rule_tac release_entry_law [OF inv ok]) auto
next
  case True
  have "eo_inv d (lock_take td)" using inv by simp
  then obtain td1 where "release_entry (lock_take td) i = Some td1" "eo_inv d td1" "eo_live td1 = (eo_live td)(EO_DECOMPOSE_ID i := None)"
    "gen_counter td1 = gen_counter td" "obj_lock td1 = obj_lock td + 1" "shared td1 = shared td"
    by (rule release_entry_law [OF _ ok]) simp
  with True that [of "lock_release td1"] show thesis
    by (simp add: eo_id_release_in_def)
qed

end
