(* ===== verification/Eo_Ids_Props.thy ===== *)
theory Eo_Ids_Props
  imports Eo_Ids_Ops
begin

text \<open>
  The object ids of a domain keep the contract of a table of ids, cache included, and a
  stale id is refused until the counter of generations has gone round.
\<close>

unbundle bit_operations_syntax

section \<open>The contract\<close>

definition eo_reg :: "nat \<Rightarrow> table_alloc \<Rightarrow> 'o Eo_Id_Table_Data \<Rightarrow> 'o \<Rightarrow> ('o Eo_Id_Table_Data \<times> u64 option) option" where
  "eo_reg d al td x = map_option (\<lambda>(td, i). (td, if i = 0 then None else Some i)) (eo_id_allocate_in al td d x)"

definition eo_get :: "nat \<Rightarrow> 'o Eo_Id_Table_Data \<Rightarrow> u64 \<Rightarrow> ('o Eo_Id_Table_Data \<times> 'o option) option" where
  "eo_get d td i = eo_obj_pointer_get_in (d = 1) td i"

text \<open>Without memory for the tables an allocation dereferences a null pointer.\<close>

definition eo_memory :: "table_alloc \<Rightarrow> 'o Eo_Id_Table_Data \<Rightarrow> bool" where
  "eo_memory al td \<longleftrightarrow> mid_alloc al \<and> (case leaf_alloc al of None \<Rightarrow> False | Some b \<Rightarrow> ids_leafs td b = None)"

lemma eo_memoryE:
  assumes "eo_memory al td"
  obtains b where "mid_alloc al" "leaf_alloc al = Some b" "ids_leafs td b = None"
  using assms by (auto simp: eo_memory_def split: option.splits)

interpretation eo: handle_table "eo_inv d" eo_live EO_DECOMPOSE_ID "eo_reg d" eo_id_release_in "eo_get d" eo_memory "eo_id_ok d"
  for d :: nat
proof
  fix al :: table_alloc and td :: "'o Eo_Id_Table_Data" and x :: 'o and i :: u64
  assume inv: "eo_inv d td"
  show "\<exists>td' r. eo_reg d al td x = Some (td', r) \<and> eo_inv d td'
      \<and> (case r of None \<Rightarrow> eo_live td' = eo_live td
         | Some i \<Rightarrow> eo_live td (EO_DECOMPOSE_ID i) = None \<and> eo_live td' = (eo_live td)(EO_DECOMPOSE_ID i \<mapsto> x))"
    if mem: "eo_memory al td"
  proof -
    obtain b where b: "mid_alloc al" "leaf_alloc al = Some b" "ids_leafs td b = None"
      using mem by (rule eo_memoryE)
    show ?thesis
      by (cases rule: allocate_law [OF inv b, of d x]) (auto simp: eo_reg_def)
  qed
  show "\<exists>td'. eo_id_release_in td i = Some td' \<and> eo_inv d td' \<and> eo_live td' = (eo_live td)(EO_DECOMPOSE_ID i := None)"
    if "eo_id_ok d i"
    by (rule release_id_law [OF inv that]) blast
  show "\<exists>td'. eo_get d td i = Some (td', eo_live td (EO_DECOMPOSE_ID i)) \<and> eo_inv d td' \<and> eo_live td' = eo_live td"
    if "eo_id_ok d i"
    unfolding eo_get_def by (rule get_pointer_law [OF inv that]) blast
qed

definition eo_step where
  "eo_step d = handle_step (eo_reg d) eo_id_release_in (eo_get d)"

text \<open>
  C4. In a domain with memory for its tables, any sequence of allocations, releases and
  lookups with ids of the domain, stale ones included, runs without a bad table access and
  answers as a map from ids to objects does, whether a lookup is served from the cache or
  from the tables.
\<close>

theorem eo_ids_refine_handles:
  assumes "handle_legal (eo_step d) eo_memory (eo_id_ok d) (eo_table_data_table_new s rnd) cs"
  shows "\<exists>td as. handle_run (eo_step d) (eo_table_data_table_new s rnd) cs = Some (td, as) \<and> eo_inv d td
    \<and> handle_specs EO_DECOMPOSE_ID (\<lambda>_. None) cs as (eo_live td)"
  using eo.calls_refine [OF eo_new_inv(1)] assms by (simp add: eo_step_def eo_new_inv(2))

section \<open>Stale ids\<close>


text \<open>The generations given since an id was: the counter is ahead by at most the allocations.\<close>

definition eo_aged :: "'o Eo_Id_Table_Data \<Rightarrow> nat \<Rightarrow> nat \<Rightarrow> bool" where
  "eo_aged td g n \<longleftrightarrow> (\<exists>k \<le> n. gen_counter td = (eo_next ^^ k) g)"

lemma eo_aged_step:
  assumes inv: "eo_inv d td" and leg: "handle_legal (eo_step d) eo_memory (eo_id_ok d) td [c]"
    and s: "eo_step d td c = Some (td', ans)" and a: "eo_aged td g n"
    and g: "0 < g" "g < MAX_GENERATIONS" "n + registrations [c] < 1023"
  shows "eo_aged td' g (n + registrations [c])"
    "eo_live td (mid, tid, e, g) = None \<Longrightarrow> eo_live td' (mid, tid, e, g) = None"
proof -
  obtain k where k: "k \<le> n" "gen_counter td = (eo_next ^^ k) g"
    using a by (auto simp: eo_aged_def)
  have "eo_aged td' g (n + registrations [c]) \<and>
      (eo_live td (mid, tid, e, g) = None \<longrightarrow> eo_live td' (mid, tid, e, g) = None)"
  proof (cases c)
    case (Register al x)
    obtain b where b: "mid_alloc al" "leaf_alloc al = Some b" "ids_leafs td b = None"
      using leg Register by (auto elim: eo_memoryE)
    show ?thesis
    proof (cases rule: allocate_law [OF inv b, of d x, case_names none some])
      case (none td1)
      with s Register k show ?thesis
        by (auto simp: eo_step_def eo_reg_def eo_aged_def intro: exI [of _ k])
    next
      case (some td1 mid1 tid1 e1 i1)
      have "(eo_next ^^ Suc k) g \<noteq> g"
        using g k(1) Register by (intro cycle_next_differs) (auto simp: eo_consts)
      then have "eo_live td1 (mid, tid, e, g) = eo_live td (mid, tid, e, g)"
        unfolding some(10) using k(2) by simp
      moreover have "gen_counter td1 = (eo_next ^^ Suc k) g"
        unfolding some(11) k(2) by simp
      then have "eo_aged td1 g (Suc n)"
        unfolding eo_aged_def using k(1) by blast
      moreover have "td' = td1"
        using s Register some(1) by (simp add: eo_step_def eo_reg_def)
      ultimately show ?thesis
        using Register by simp
    qed
  next
    case (Unregister i)
    then have ok: "eo_id_ok d i" using leg by auto
    obtain td1 where "eo_id_release_in td i = Some td1" "eo_live td1 = (eo_live td)(EO_DECOMPOSE_ID i := None)"
      "gen_counter td1 = gen_counter td"
      by (rule release_id_law [OF inv ok]) blast
    with s Unregister a show ?thesis
      by (simp add: eo_step_def eo_aged_def)
  next
    case (Lookup i)
    then have ok: "eo_id_ok d i" using leg by auto
    obtain td1 where "eo_obj_pointer_get_in (d = 1) td i = Some (td1, eo_live td (EO_DECOMPOSE_ID i))" "eo_live td1 = eo_live td"
      "gen_counter td1 = gen_counter td"
      by (rule get_pointer_law [OF inv ok, of "d = 1"]) blast
    with s Lookup a show ?thesis
      by (simp add: eo_step_def eo_get_def eo_aged_def)
  qed
  then show "eo_aged td' g (n + registrations [c])"
    "eo_live td (mid, tid, e, g) = None \<Longrightarrow> eo_live td' (mid, tid, e, g) = None"
    by blast+
qed

lemma registrations_Cons: "registrations (c # cs) = registrations [c] + registrations cs"
  by (cases c) simp_all

lemma eo_stale_run:
  assumes "eo_inv d td" "handle_legal (eo_step d) eo_memory (eo_id_ok d) td cs" "eo_aged td g n"
    "0 < g" "g < MAX_GENERATIONS" "n + registrations cs < 1023" "EO_DECOMPOSE_ID i = (mid, tid, e, g)"
    "eo_live td (mid, tid, e, g) = None \<or> Unregister i \<in> set cs"
  shows "\<exists>td' as. handle_run (eo_step d) td cs = Some (td', as) \<and> eo_inv d td' \<and> eo_live td' (mid, tid, e, g) = None"
  using assms
proof (induction cs arbitrary: td n)
  case (Cons c cs)
  from Cons.prems(2) have leg: "handle_legal (eo_step d) eo_memory (eo_id_ok d) td [c]"
    by (cases "eo_step d td c") auto
  obtain td1 ans where s: "eo_step d td c = Some (td1, ans)" "eo_inv d td1"
    and sp: "handle_spec EO_DECOMPOSE_ID (eo_live td) c ans (eo_live td1)"
    using eo.step_refines [OF Cons.prems(1) leg [unfolded eo_step_def]] unfolding eo_step_def .
  have n: "n + registrations [c] < 1023"
    using Cons.prems(6) by (simp add: registrations_Cons [of c cs])
  note ag = eo_aged_step [OF Cons.prems(1) leg s(1) Cons.prems(3-5) n]
  have "eo_live td1 (mid, tid, e, g) = None \<or> Unregister i \<in> set cs"
    using Cons.prems(7,8) ag(2) sp by auto
  then obtain td' as where "handle_run (eo_step d) td1 cs = Some (td', as)" "eo_inv d td'" "eo_live td' (mid, tid, e, g) = None"
    using Cons.IH [OF s(2) _ ag(1) Cons.prems(4,5)] Cons.prems s(1) by (auto simp: registrations_Cons [of c cs])
  with s(1) show ?case by simp
qed simp

text \<open>
  C14. Once an id was released, it is refused for as long as fewer than 1023 objects were
  allocated since it was given, whatever entries and tables are recycled in between.
\<close>

theorem eo_stale_refused:
  assumes "eo_inv d td" "eo_memory al td" "eo_id_allocate_in al td d x = Some (td0, i)" "i \<noteq> 0"
    and "handle_legal (eo_step d) eo_memory (eo_id_ok d) td0 cs" "Unregister i \<in> set cs" "registrations cs < 1023"
  shows "\<exists>td' as td''. handle_run (eo_step d) td0 cs = Some (td', as) \<and> eo_obj_pointer_get_in s td' i = Some (td'', None)"
proof -
  obtain b where b: "mid_alloc al" "leaf_alloc al = Some b" "ids_leafs td b = None"
    using assms(2) by (rule eo_memoryE)
  show ?thesis
  proof (cases rule: allocate_law [OF assms(1) b, of d x, case_names none some])
    case (none td1)
    with assms(3,4) show ?thesis by simp
  next
    case (some td1 mid tid e j)
    let ?g = "eo_next (gen_counter td)"
    have g: "0 < ?g" "?g < MAX_GENERATIONS"
      using assms(1) eo_next_range [of "gen_counter td"] by (auto simp: eo_inv_def)
    have k: "td1 = td0" "j = i"
      using some(1) assms(3) by auto
    have "eo_aged td0 ?g 0"
      using some(11) k by (simp add: eo_aged_def)
    with eo_stale_run [OF some(5) _ _ g, of cs 0 i mid tid e] assms(5-7) some(4) k
    obtain td' as where r: "handle_run (eo_step d) td0 cs = Some (td', as)" "eo_inv d td'" "eo_live td' (mid, tid, e, ?g) = None"
      by auto
    have ok: "eo_id_ok d i" using some(3) k by simp
    obtain td'' where "eo_obj_pointer_get_in s td' i = Some (td'', eo_live td' (EO_DECOMPOSE_ID i))"
      by (rule get_pointer_law [OF r(2) ok, of s]) blast
    with r some(4) k show ?thesis by simp
  qed
qed


text \<open>The two properties on the tables of a new domain.\<close>

definition eo_first_id :: u64 where
  "eo_first_id = EO_COMPOSE_FINAL_ID (EO_COMPOSE_PARTIAL_ID 0 0) 0 0 1"

lemma eo_first_id_ok: "eo_id_ok 0 eo_first_id"
  unfolding eo_first_id_def by (rule eo_id_ok_compose) (simp_all add: eo_consts)

lemma eo_memory_new: "eo_memory \<lparr>mid_alloc = True, leaf_alloc = Some a\<rparr> (eo_table_data_table_new s rnd)"
  by (simp add: eo_memory_def eo_table_data_table_new_def)

theorem eo_ids_refine_handles_witness:
  "\<exists>td as. handle_run (eo_step 0) (eo_table_data_table_new False 0)
        [Register \<lparr>mid_alloc = True, leaf_alloc = Some 5\<rparr> (7 :: nat), Lookup eo_first_id, Unregister eo_first_id, Lookup eo_first_id]
          = Some (td, as)
     \<and> eo_inv 0 td \<and> handle_specs EO_DECOMPOSE_ID (\<lambda>_. None)
        [Register \<lparr>mid_alloc = True, leaf_alloc = Some 5\<rparr> 7, Lookup eo_first_id, Unregister eo_first_id, Lookup eo_first_id] as (eo_live td)"
  by (rule eo_ids_refine_handles) (simp add: eo_memory_new eo_first_id_ok split: option.split prod.split)

lemma eo_new_allocates:
  obtains td0 i where "eo_id_allocate_in \<lparr>mid_alloc = True, leaf_alloc = Some a\<rparr> (eo_table_data_table_new s rnd) d x = Some (td0, i)"
    "i \<noteq> 0" "eo_id_ok d i"
proof -
  have m: "mid_alloc \<lparr>mid_alloc = True, leaf_alloc = Some a\<rparr>" "leaf_alloc \<lparr>mid_alloc = True, leaf_alloc = Some a\<rparr> = Some a"
    "ids_leafs (eo_table_data_table_new s rnd) a = None"
    by (simp_all add: eo_table_data_table_new_def)
  show thesis
  proof (cases rule: allocate_law [OF eo_new_inv(1) [where d = d] m, of d x, case_names none some])
    case (none td')
    then have "full_at (eo_table_data_table_new s rnd :: 'a Eo_Id_Table_Data) 0 0"
      by (simp add: all_full_from_def eo_consts)
    then show thesis
      by (simp add: full_at_def slot_table_def eo_table_data_table_new_def)
  next
    case (some td' mid tid e i)
    with that show thesis by blast
  qed
qed

theorem eo_stale_refused_witness:
  "\<exists>td0 i. eo_id_allocate_in \<lparr>mid_alloc = True, leaf_alloc = Some 5\<rparr> (eo_table_data_table_new False 0) 0 (7 :: nat) = Some (td0, i)
     \<and> (\<exists>td' as td''. handle_run (eo_step 0) td0 [Lookup i, Unregister i] = Some (td', as)
          \<and> eo_obj_pointer_get_in False td' i = Some (td'', None))"
proof (rule eo_new_allocates [of 5 False 0 0 "7 :: nat"])
  fix td0 i
  assume a: "eo_id_allocate_in \<lparr>mid_alloc = True, leaf_alloc = Some 5\<rparr> (eo_table_data_table_new False 0) 0 (7 :: nat) = Some (td0, i)"
    "i \<noteq> 0" "eo_id_ok 0 i"
  have "\<exists>td' as td''. handle_run (eo_step 0) td0 [Lookup i, Unregister i] = Some (td', as)
      \<and> eo_obj_pointer_get_in False td' i = Some (td'', None)"
    by (rule eo_stale_refused [OF eo_new_inv(1) eo_memory_new a(1,2)]) (simp_all add: a(3) split: option.split prod.split)
  with a(1) show ?thesis by blast
qed

end
