(* ===== verification/Eo_Domains.thy ===== *)
theory Eo_Domains
  imports Eo_Ids_Props
begin

text \<open>
  The domains of \<open>src/lib/eo\<close>: the record a thread keeps of the tables it may use and of its
  stack of current domains (\<open>Eo_Id_Data\<close>), the domain functions of \<open>eo.c\<close>, and allocation,
  release and lookup of ids through them. Domains are 0 (main), 1 (shared) and 2 (thread).
\<close>

section \<open>The domains of a thread\<close>

definition EFL_ID_DOMAIN_INVALID :: int where "EFL_ID_DOMAIN_INVALID = - 1"
definition EFL_ID_DOMAIN_MAIN :: int where "EFL_ID_DOMAIN_MAIN = 0"
definition EFL_ID_DOMAIN_SHARED :: int where "EFL_ID_DOMAIN_SHARED = 1"
definition EFL_ID_DOMAIN_THREAD :: int where "EFL_ID_DOMAIN_THREAD = 2"

lemmas domain_consts = EFL_ID_DOMAIN_INVALID_def EFL_ID_DOMAIN_MAIN_def EFL_ID_DOMAIN_SHARED_def EFL_ID_DOMAIN_THREAD_def

text \<open>The tables are addresses; the stack has 221 entries of one byte.\<close>

record Eo_Id_Data =
  tables :: "nat \<Rightarrow> nat option"
  local_domain :: nat
  stack_top :: nat
  domain_stack :: "nat \<Rightarrow> nat"

definition DOMAIN_STACK_SIZE :: nat where
  "DOMAIN_STACK_SIZE = 255 - 8 * 4 - 2"

definition efl_domain_get :: "Eo_Id_Data \<Rightarrow> int" where
  "efl_domain_get data = int (local_domain data)"

definition efl_domain_current_get :: "Eo_Id_Data \<Rightarrow> nat" where
  "efl_domain_current_get data = domain_stack data (stack_top data)"

definition efl_domain_push :: "Eo_Id_Data \<Rightarrow> int \<Rightarrow> Eo_Id_Data \<times> bool" where
  "efl_domain_push data domain =
     (if DOMAIN_STACK_SIZE - 1 \<le> stack_top data then (data, False)
      else (data\<lparr>stack_top := stack_top data + 1,
                 domain_stack := (domain_stack data)(stack_top data + 1 := nat (domain mod 2 ^ 8))\<rparr>, True))"

definition efl_domain_pop :: "Eo_Id_Data \<Rightarrow> Eo_Id_Data" where
  "efl_domain_pop data = (if 0 < stack_top data then data\<lparr>stack_top := stack_top data - 1\<rparr> else data)"

definition efl_domain_current_push :: "Eo_Id_Data \<Rightarrow> int \<Rightarrow> Eo_Id_Data \<times> bool" where
  "efl_domain_current_push data domain = efl_domain_push data domain"

definition efl_domain_current_pop :: "Eo_Id_Data \<Rightarrow> Eo_Id_Data" where
  "efl_domain_current_pop data = efl_domain_pop data"

definition efl_domain_current_set :: "Eo_Id_Data \<Rightarrow> int \<Rightarrow> Eo_Id_Data \<times> bool" where
  "efl_domain_current_set data domain =
     (if domain < EFL_ID_DOMAIN_MAIN \<or> EFL_ID_DOMAIN_THREAD < domain then (data, False)
      else (data\<lparr>domain_stack := (domain_stack data)(stack_top data := nat (domain mod 2 ^ 8))\<rparr>, True))"

definition efl_domain_data_adopt :: "Eo_Id_Data \<Rightarrow> Eo_Id_Data option \<Rightarrow> Eo_Id_Data \<times> int" where
  "efl_domain_data_adopt data data_in =
     (case data_in of
        None \<Rightarrow> (data, EFL_ID_DOMAIN_INVALID)
      | Some data_foreign \<Rightarrow>
          if local_domain data_foreign = local_domain data then (data, EFL_ID_DOMAIN_INVALID)
          else if tables data (local_domain data_foreign) \<noteq> None then (data, EFL_ID_DOMAIN_INVALID)
          else
            (let data = data\<lparr>tables := (tables data)(local_domain data_foreign := tables data_foreign (local_domain data_foreign))\<rparr>;
                 data = fst (efl_domain_push data (int (local_domain data_foreign)))
             in (data, int (domain_stack data (stack_top data)))))"

definition efl_domain_data_return :: "Eo_Id_Data \<Rightarrow> int \<Rightarrow> Eo_Id_Data \<times> bool" where
  "efl_domain_data_return data domain =
     (if domain < EFL_ID_DOMAIN_MAIN \<or> EFL_ID_DOMAIN_THREAD < domain then (data, False)
      else if domain = int (local_domain data) then (data, False)
      else (efl_domain_pop (data\<lparr>tables := (tables data)(nat domain := None)\<rparr>), True))"

definition efl_compatible :: "u64 \<Rightarrow> u64 \<Rightarrow> bool" where
  "efl_compatible obj obj_target \<longleftrightarrow> eo_domain obj = eo_domain obj_target"

section \<open>Ids through the domains\<close>

text \<open>
  What a thread sees: its own record, the tables of all domains by address, and the address
  of the shared one.
\<close>

record 'o eo_world =
  self :: Eo_Id_Data
  tdatas :: "nat \<Rightarrow> 'o Eo_Id_Table_Data option"
  shared_at :: "nat option"

text \<open>
  The table is that of the parent's domain or the current one; the id is composed with the
  current domain, unless the table is the shared one. The four tables of a thread are an
  array.
\<close>

definition eo_id_allocate ::
  "table_alloc \<Rightarrow> 'o eo_world \<Rightarrow> 'o \<Rightarrow> u64 option \<Rightarrow> ('o eo_world \<times> u64) option" where
  "eo_id_allocate al w obj parent_id = do {
     domain \<leftarrow> (case parent_id of
         Some parent_id \<Rightarrow> Some (eo_domain parent_id)
       | None \<Rightarrow> if efl_domain_current_get (self w) < 4 then Some (efl_domain_current_get (self w)) else None);
     (case tables (self w) domain of
        None \<Rightarrow> Some (w, 0)
      | Some a \<Rightarrow> do {
          td \<leftarrow> tdatas w a;
          (td, i) \<leftarrow> eo_id_allocate_in al td (if shared td then 1 else efl_domain_current_get (self w)) obj;
          Some (w\<lparr>tdatas := (tdatas w)(a \<mapsto> td)\<rparr>, i)
        })
   }"

definition eo_id_release :: "'o eo_world \<Rightarrow> u64 \<Rightarrow> 'o eo_world option" where
  "eo_id_release w obj_id =
     (case tables (self w) (eo_domain obj_id) of
        None \<Rightarrow> Some w
      | Some a \<Rightarrow> do {
          td \<leftarrow> tdatas w a;
          td \<leftarrow> eo_id_release_in td obj_id;
          Some (w\<lparr>tdatas := (tdatas w)(a \<mapsto> td)\<rparr>)
        })"

definition eo_obj_pointer_get :: "'o eo_world \<Rightarrow> u64 \<Rightarrow> ('o eo_world \<times> 'o option) option" where
  "eo_obj_pointer_get w obj_id =
     (case tables (self w) (eo_domain obj_id) of
        None \<Rightarrow> Some (w, None)
      | Some a \<Rightarrow> do {
          td \<leftarrow> tdatas w a;
          (td, r) \<leftarrow> eo_obj_pointer_get_in (eo_domain obj_id = 1) td obj_id;
          Some (w\<lparr>tdatas := (tdatas w)(a \<mapsto> td)\<rparr>, r)
        })"

definition eo_obj_pointer_done :: "'o eo_world \<Rightarrow> u64 \<Rightarrow> 'o eo_world option" where
  "eo_obj_pointer_done w obj_id =
     (if eo_domain obj_id \<noteq> 1 then Some w
      else do {
        a \<leftarrow> shared_at w;
        td \<leftarrow> tdatas w a;
        Some (w\<lparr>tdatas := (tdatas w)(a \<mapsto> lock_release td)\<rparr>)
      })"

section \<open>Laws\<close>

text \<open>Each table a thread sees is kept for its domain; no two domains share a table.\<close>

definition world_ok :: "'o eo_world \<Rightarrow> bool" where
  "world_ok w \<longleftrightarrow>
     (\<forall>d a. tables (self w) d = Some a \<longrightarrow> d < 3 \<and> (\<exists>td. tdatas w a = Some td \<and> eo_inv d td \<and> (shared td \<longleftrightarrow> d = 1)))
     \<and> (\<forall>d d' a. tables (self w) d = Some a \<and> tables (self w) d' = Some a \<longrightarrow> d' = d)
     \<and> (\<forall>a. tables (self w) 1 = Some a \<longrightarrow> shared_at w = Some a)"

lemma world_okD:
  assumes "world_ok w" "tables (self w) d = Some a"
  obtains td where "tdatas w a = Some td" "eo_inv d td" "shared td \<longleftrightarrow> d = 1" "d < 3"
  using assms unfolding world_ok_def by blast

lemma world_upd:
  assumes w: "world_ok w" and a: "tables (self w) d = Some a" and td: "eo_inv d td" "shared td \<longleftrightarrow> d = 1"
  shows "world_ok (w\<lparr>tdatas := (tdatas w)(a \<mapsto> td)\<rparr>)"
proof -
  have "b = a \<longleftrightarrow> d' = d" if "tables (self w) d' = Some b" for d' b
    using that w a unfolding world_ok_def by (metis option.inject)
  with w a td show ?thesis
    unfolding world_ok_def by fastforce
qed

text \<open>All entries of a domain are in use.\<close>

definition eo_full :: "'o Eo_Id_Table_Data \<Rightarrow> bool" where
  "eo_full td \<longleftrightarrow> (\<forall>mid tid e. mid < MAX_MID_TABLE_ID \<and> tid < MAX_TABLE_ID \<and> e < MAX_ENTRY_ID \<longrightarrow> (\<exists>g. eo_live td (mid, tid, e, g) \<noteq> None))"

lemma all_full_eo_full:
  assumes ti: "tables_inv td" and f: "all_full_from td 0"
  shows "eo_full td"
  unfolding eo_full_def
proof (intro allI impI)
  fix mid tid e
  assume b: "mid < MAX_MID_TABLE_ID \<and> tid < MAX_TABLE_ID \<and> e < MAX_ENTRY_ID"
  then have "full_at td mid tid" using f by (simp add: all_full_from_def)
  then obtain t where t: "eo_tab td mid tid = Some t" "unused t = {}"
    unfolding full_at_def by blast
  obtain a where a: "slot_at (eo_ids_tables td) mid tid a" and ta: "ids_leafs td a = Some t"
    using slot_tableD [OF tables_invD [OF ti] t(1)] .
  have ok: "ids_table_ok t" by (rule eo_slotD [OF ti a]) (simp add: ta)
  have "in_use (slots t e)" using t(2) b by (auto simp: unused_def)
  moreover from this ok obtain x where "obj_ptr (slots t e) = Some x" unfolding ids_table_ok_def by blast
  ultimately have "eo_live td (mid, tid, e, gen_of (slots t e)) = Some x"
    using t(1) by (simp add: eo_live_def id_live_def)
  then show "\<exists>g. eo_live td (mid, tid, e, g) \<noteq> None" by blast
qed

text \<open>With memory an allocation gives an id, unless all entries are in use.\<close>

lemma allocate_in_any:
  assumes inv: "eo_inv d td" and mem: "eo_memory al td"
  obtains (full) td' where "eo_id_allocate_in al td c x = Some (td', 0)" "eo_full td" "eo_inv d td'"
      "obj_lock td' = obj_lock td" "shared td' = shared td"
    | (given) td' i mid tid e g where "eo_id_allocate_in al td c x = Some (td', i)" "i \<noteq> 0" "\<not> eo_full td"
      "EO_DECOMPOSE_ID i = (mid, tid, e, g)" "eo_id_ok c i" "eo_inv d td'"
      "eo_live td' = (eo_live td)((mid, tid, e, g) \<mapsto> x)" "obj_lock td' = obj_lock td" "shared td' = shared td"
      "mid < MAX_MID_TABLE_ID" "tid < MAX_TABLE_ID" "e < MAX_ENTRY_ID" "g < MAX_GENERATIONS"
proof -
  obtain b where b: "mid_alloc al" "leaf_alloc al = Some b" "ids_leafs td b = None"
    using mem by (rule eo_memoryE)
  have ti: "tables_inv td" and gc: "gen_counter td < MAX_GENERATIONS" using inv by (simp_all add: eo_inv_def)
  note g = eo_next_range [OF gc]
  show thesis
  proof (cases rule: allocate_law [OF inv b, of c x, case_names none some])
    case (none td1)
    with all_full_eo_full [OF ti] full show thesis by blast
  next
    case (some td1 mid tid e j)
    have "\<not> eo_full td" unfolding eo_full_def using some(6-9) by (metis (no_types))
    with some g given show thesis by blast
  qed
qed

lemma eo_id_ok_domain: "eo_id_ok d i \<Longrightarrow> d < 4 \<Longrightarrow> eo_domain i = d"
  by (metis eo_domain_compose eo_id_okD(3) prod.collapse)

text \<open>A lookup through the domain of the id, and giving the lock back.\<close>

definition locks :: "'o eo_world \<Rightarrow> nat \<Rightarrow> nat option" where
  "locks w a = map_option obj_lock (tdatas w a)"

lemma domain_lookup:
  assumes w: "world_ok w" and a: "tables (self w) d = Some a" "tdatas w a = Some td" and i: "eo_id_ok d i"
  obtains w' where "eo_obj_pointer_get w i = Some (w', eo_live td (EO_DECOMPOSE_ID i))" "world_ok w'" "self w' = self w"
    "eo_live td (EO_DECOMPOSE_ID i) = None \<Longrightarrow> locks w' = locks w"
    "eo_live td (EO_DECOMPOSE_ID i) \<noteq> None \<Longrightarrow> \<exists>w''. eo_obj_pointer_done w' i = Some w'' \<and> world_ok w'' \<and> locks w'' = locks w"
proof -
  obtain t where t: "tdatas w a = Some t" "eo_inv d t" "shared t \<longleftrightarrow> d = 1" "d < 3"
    using world_okD [OF w a(1)] .
  then have inv: "eo_inv d td" "shared td \<longleftrightarrow> d = 1" using a(2) by auto
  have dom: "eo_domain i = d" using eo_id_ok_domain [OF i] t(4) by simp
  obtain td' where g: "eo_obj_pointer_get_in (d = 1) td i = Some (td', eo_live td (EO_DECOMPOSE_ID i))" "eo_inv d td'"
    "shared td' = shared td"
    "obj_lock td' = (if d = 1 \<and> eo_live td (EO_DECOMPOSE_ID i) \<noteq> None then obj_lock td + 1 else obj_lock td)"
    by (rule get_pointer_law [OF inv(1) i, of "d = 1"]) blast
  define w' where "w' = w\<lparr>tdatas := (tdatas w)(a \<mapsto> td')\<rparr>"
  have get: "eo_obj_pointer_get w i = Some (w', eo_live td (EO_DECOMPOSE_ID i))"
    using a g(1) dom by (simp add: eo_obj_pointer_get_def w'_def)
  have ok: "world_ok w'"
    unfolding w'_def by (rule world_upd [OF w a(1) g(2)]) (simp add: g(3) inv(2))
  have same: "locks w' = locks w" if "obj_lock td' = obj_lock td"
    using that a(2) by (auto simp: locks_def w'_def fun_eq_iff)
  have fin: "\<exists>w''. eo_obj_pointer_done w' i = Some w'' \<and> world_ok w'' \<and> locks w'' = locks w"
    if l: "eo_live td (EO_DECOMPOSE_ID i) \<noteq> None"
  proof (cases "d = 1")
    case False
    with dom ok same g(4) show ?thesis by (simp add: eo_obj_pointer_done_def)
  next
    case True
    let ?td = "lock_release td'"
    have sh: "shared_at w = Some a"
      using w a(1) True by (auto simp: world_ok_def)
    have "eo_inv d ?td"
      using g(2) by simp
    then have "world_ok (w\<lparr>tdatas := (tdatas w)(a \<mapsto> ?td)\<rparr>)"
      by (rule world_upd [OF w a(1)]) (simp add: g(3) inv(2))
    moreover have "eo_obj_pointer_done w' i = Some (w\<lparr>tdatas := (tdatas w)(a \<mapsto> ?td)\<rparr>)"
      using True dom sh by (simp add: eo_obj_pointer_done_def w'_def)
    moreover have "locks (w\<lparr>tdatas := (tdatas w)(a \<mapsto> ?td)\<rparr>) = locks w"
      using a(2) g(4) True l by (auto simp: locks_def fun_eq_iff)
    ultimately show ?thesis by blast
  qed
  show thesis
    using that [OF get ok] same fin g(4) by (simp add: w'_def)
qed


section \<open>Properties\<close>

text \<open>
  C37. With memory for the tables of its domain, an object allocated without a parent, or with a
  parent of the current domain, gets an id exactly when not all 2048 * 2046 * 2045 entries of the
  domain are in use (otherwise the call returns 0); the id is of that domain and leads to the
  object. The allocation leaves all locks as they were, a lookup in the shared domain takes the lock
  once and giving it back leaves all locks as they were.
\<close>

theorem eo_domain_allocate_lookup:
  assumes w: "world_ok w" and p: "case parent of None \<Rightarrow> True | Some p \<Rightarrow> eo_domain p = efl_domain_current_get (self w)"
    and a: "tables (self w) (efl_domain_current_get (self w)) = Some a" "tdatas w a = Some td" and mem: "eo_memory al td"
  shows "\<exists>w' i. eo_id_allocate al w x parent = Some (w', i) \<and> world_ok w' \<and> locks w' = locks w \<and> (i = 0 \<longleftrightarrow> eo_full td)
    \<and> (i \<noteq> 0 \<longrightarrow> eo_domain i = efl_domain_current_get (self w)
        \<and> (\<exists>w2 w3. eo_obj_pointer_get w' i = Some (w2, Some x) \<and> eo_obj_pointer_done w2 i = Some w3
             \<and> world_ok w3 \<and> locks w3 = locks w))"
proof -
  let ?d = "efl_domain_current_get (self w)"
  obtain t where "tdatas w a = Some t" "eo_inv ?d t" "shared t \<longleftrightarrow> ?d = 1" and d: "?d < 3"
    using world_okD [OF w a(1)] .
  then have inv: "eo_inv ?d td" "shared td \<longleftrightarrow> ?d = 1" using a(2) by auto
  have r: "eo_id_allocate al w x parent = Some (w\<lparr>tdatas := (tdatas w)(a \<mapsto> td')\<rparr>, i)" (is "_ = Some (?w td', i)")
    if "eo_id_allocate_in al td ?d x = Some (td', i)" for td' i
  proof -
    have "(if shared td then 1 else ?d) = ?d" using inv(2) by simp
    then show ?thesis using p a that d by (cases parent) (simp_all add: eo_id_allocate_def)
  qed
  have ok: "world_ok (?w td')" if "eo_inv ?d td'" "shared td' = shared td" for td'
    by (rule world_upd [OF w a(1) that(1)]) (simp add: that(2) inv(2))
  have lk: "locks (?w td') = locks w" if "obj_lock td' = obj_lock td" for td'
    using a(2) that by (auto simp: locks_def fun_eq_iff)
  show ?thesis
  proof (cases rule: allocate_in_any [OF inv(1) mem, of ?d x, case_names full given])
    case (full td')
    with r ok lk show ?thesis by blast
  next
    case (given td' i mid tid e g)
    have a': "tables (self (?w td')) ?d = Some a" "tdatas (?w td') a = Some td'"
      using a by simp_all
    obtain w2 where "eo_obj_pointer_get (?w td') i = Some (w2, Some x)"
      and fin: "\<exists>w''. eo_obj_pointer_done w2 i = Some w'' \<and> world_ok w'' \<and> locks w'' = locks (?w td')"
      by (rule domain_lookup [OF ok [OF given(6,9)] a' given(5)]) (auto simp: given)
    moreover note fin [unfolded lk [OF given(8)]]
    moreover have "eo_domain i = ?d" using eo_id_ok_domain [OF given(5)] d by simp
    ultimately show ?thesis
      using r [OF given(1)] ok [OF given(6,9)] lk [OF given(8)] given(2,3) by blast
  qed
qed

text \<open>
  C38. What a parent of another domain does to an allocation, with memory: the object goes to the
  tables of the parent's domain, unless they are full. For a parent of the shared domain the id
  names the shared domain and leads to the object. For any other parent the id names the
  current domain: a lookup of it answers what the current domain had under the same fields
  before the call, null when the entry is not in use there, and the object is found under the
  id with the parent's domain in its place, which no one was given.
\<close>

theorem eo_parent_domain_mismatch:
  assumes w: "world_ok w" and dom: "efl_domain_current_get (self w) = cd" "eo_domain p = pd" "cd \<noteq> pd"
    and a: "tables (self w) pd = Some a" "tdatas w a = Some td" "tables (self w) cd = Some c" "tdatas w c = Some tdc"
    and mem: "eo_memory al td"
  shows "\<exists>w' i. eo_id_allocate al w x (Some p) = Some (w', i) \<and> (i = 0 \<longleftrightarrow> eo_full td)
    \<and> (i \<noteq> 0 \<and> pd = 1 \<longrightarrow> eo_domain i = 1 \<and> (\<exists>w2. eo_obj_pointer_get w' i = Some (w2, Some x)))
    \<and> (i \<noteq> 0 \<and> pd \<noteq> 1 \<longrightarrow> eo_domain i = cd
        \<and> (\<exists>w2. eo_obj_pointer_get w' i = Some (w2, eo_live tdc (EO_DECOMPOSE_ID i)))
        \<and> (\<exists>j w2. eo_domain j = pd \<and> EO_DECOMPOSE_ID j = EO_DECOMPOSE_ID i \<and> eo_obj_pointer_get w' j = Some (w2, Some x)))"
proof -
  obtain t where "tdatas w a = Some t" "eo_inv pd t" "shared t \<longleftrightarrow> pd = 1" and pd: "pd < 3"
    using world_okD [OF w a(1)] .
  then have inv: "eo_inv pd td" "shared td \<longleftrightarrow> pd = 1" using a(2) by auto
  have cd: "cd < 3"
    using world_okD [OF w a(3)] by blast
  have ne: "c \<noteq> a"
    using w a(1,3) dom(3) unfolding world_ok_def by metis
  define n where "n = (if pd = 1 then 1 else cd)"
  have r: "eo_id_allocate al w x (Some p) = Some (w\<lparr>tdatas := (tdatas w)(a \<mapsto> td')\<rparr>, i)" (is "_ = Some (?w td', i)")
    if "eo_id_allocate_in al td n x = Some (td', i)" for td' i
    using that a(1,2) dom inv(2) by (auto simp: eo_id_allocate_def n_def)
  show ?thesis
  proof (cases rule: allocate_in_any [OF inv(1) mem, of n x, case_names full given])
    case (full td')
    with r show ?thesis by blast
  next
    case (given td' i mid tid e g)
    have ok: "world_ok (?w td')"
      by (rule world_upd [OF w a(1) given(6)]) (simp add: given(9) inv(2))
    have t: "tables (self (?w td')) cd = Some c" "tdatas (?w td') c = Some tdc" "tables (self (?w td')) pd = Some a" "tdatas (?w td') a = Some td'"
      using a ne by simp_all
    let ?j = "EO_COMPOSE_FINAL_ID (EO_COMPOSE_PARTIAL_ID mid tid) e pd g"
    have j: "eo_id_ok pd ?j" "EO_DECOMPOSE_ID ?j = (mid, tid, e, g)"
      using given(10-13) by (simp_all add: eo_id_ok_compose eo_decompose_compose)
    have found: "\<exists>w2. eo_obj_pointer_get (?w td') k = Some (w2, Some x)" if k: "eo_id_ok pd k" "EO_DECOMPOSE_ID k = (mid, tid, e, g)" for k
      by (rule domain_lookup [OF ok t(3,4) k(1)]) (simp add: k(2) given(7))
    have nn: "n < 4" using cd by (simp add: n_def)
    have dj: "eo_domain ?j = pd" "eo_domain i = n"
      using eo_id_ok_domain [OF j(1)] eo_id_ok_domain [OF given(5) nn] pd by auto
    have "pd = 1 \<longrightarrow> eo_domain i = 1 \<and> (\<exists>w2. eo_obj_pointer_get (?w td') i = Some (w2, Some x))"
      using found [OF _ given(4)] given(5) dj(2) unfolding n_def by metis
    moreover have "pd \<noteq> 1 \<longrightarrow> eo_domain i = cd \<and> (\<exists>w2. eo_obj_pointer_get (?w td') i = Some (w2, eo_live tdc (EO_DECOMPOSE_ID i)))"
    proof
      assume "pd \<noteq> 1"
      then have "eo_id_ok cd i" "eo_domain i = cd" using given(5) dj(2) by (simp_all add: n_def)
      then show "eo_domain i = cd \<and> (\<exists>w2. eo_obj_pointer_get (?w td') i = Some (w2, eo_live tdc (EO_DECOMPOSE_ID i)))"
        by (metis domain_lookup [OF ok t(1,2)])
    qed
    moreover have "\<exists>j w2. eo_domain j = pd \<and> EO_DECOMPOSE_ID j = EO_DECOMPOSE_ID i \<and> eo_obj_pointer_get (?w td') j = Some (w2, Some x)"
      using found [OF j] j(2) dj(1) given(4) by metis
    ultimately show ?thesis
      using r [OF given(1)] given(2,3) by blast
  qed
qed

text \<open>
  C39. Adopting the domain of another thread makes its tables visible and current; returning
  it gives the thread back its own tables and current domain. Both are refused, with nothing
  changed, for the local domain.
\<close>

theorem eo_adopt_return:
  assumes "local_domain f \<noteq> local_domain data" "tables data (local_domain f) = None" "local_domain f < 3"
    "stack_top data < DOMAIN_STACK_SIZE - 1"
  shows "case efl_domain_data_adopt data (Some f) of (data1, r) \<Rightarrow>
      r = int (local_domain f) \<and> tables data1 = (tables data)(local_domain f := tables f (local_domain f))
      \<and> efl_domain_current_get data1 = local_domain f \<and> efl_domain_data_adopt data1 (Some data) = (data1, EFL_ID_DOMAIN_INVALID)
      \<and> efl_domain_data_return data1 (int (local_domain data)) = (data1, False)
      \<and> (case efl_domain_data_return data1 r of (data2, ok) \<Rightarrow>
           ok \<and> tables data2 = tables data \<and> stack_top data2 = stack_top data
           \<and> efl_domain_current_get data2 = efl_domain_current_get data)"
  using assms
  by (auto simp: efl_domain_data_adopt_def efl_domain_data_return_def efl_domain_push_def efl_domain_pop_def
      efl_domain_current_get_def domain_consts Let_def fun_upd_idem)

text \<open>
  Returning the shared domain is not refused: the thread loses it. A domain pushed on the
  stack is not checked: with an invalid one on top, allocating without a parent reads behind
  the four tables.
\<close>

lemma return_drops_shared:
  "local_domain data \<noteq> 1 \<Longrightarrow> snd (efl_domain_data_return data EFL_ID_DOMAIN_SHARED) \<and> tables (fst (efl_domain_data_return data EFL_ID_DOMAIN_SHARED)) 1 = None"
  by (simp add: efl_domain_data_return_def efl_domain_pop_def domain_consts)

lemma push_invalid_domain:
  assumes "stack_top (self w) < DOMAIN_STACK_SIZE - 1"
  shows "snd (efl_domain_current_push (self w) EFL_ID_DOMAIN_INVALID)"
    "eo_id_allocate al (w\<lparr>self := fst (efl_domain_current_push (self w) EFL_ID_DOMAIN_INVALID)\<rparr>) x None = None"
  using assms by (simp_all add: efl_domain_current_push_def efl_domain_push_def domain_consts eo_id_allocate_def efl_domain_current_get_def)


text \<open>The properties for a thread that sees the tables of all three domains, all new.\<close>

definition sample_world :: "nat eo_world" where
  "sample_world =
     \<lparr>self = \<lparr>tables = [0 \<mapsto> 10, 1 \<mapsto> 11, 2 \<mapsto> 12], local_domain = 2, stack_top = 0, domain_stack = (\<lambda>_. 2)\<rparr>,
      tdatas = [10 \<mapsto> eo_table_data_table_new False 0, 11 \<mapsto> eo_table_data_table_new True 0, 12 \<mapsto> eo_table_data_table_new False 0],
      shared_at = Some 11\<rparr>"

lemma sample_world_ok: "world_ok sample_world"
proof -
  have "shared (eo_table_data_table_new s r) = s" for s r
    by (simp add: eo_table_data_table_new_def)
  then show ?thesis
    using eo_new_inv(1) by (auto simp: world_ok_def sample_world_def split: if_splits)
qed

lemma sample_world_simps:
  "efl_domain_current_get (self sample_world) = 2" "tables (self sample_world) 2 = Some 12" "tables (self sample_world) 0 = Some 10"
  "tdatas sample_world 12 = Some (eo_table_data_table_new False 0)" "tdatas sample_world 10 = Some (eo_table_data_table_new False 0)"
  by (simp_all add: sample_world_def efl_domain_current_get_def)

lemma eo_first_id_domain: "eo_domain eo_first_id = 0"
  by (rule eo_id_ok_domain [OF eo_first_id_ok]) simp

lemma new_not_full: "\<not> eo_full (eo_table_data_table_new s rnd)" (is "\<not> eo_full ?td")
proof
  assume "eo_full ?td"
  moreover have "0 < MAX_MID_TABLE_ID" "0 < MAX_TABLE_ID" "0 < MAX_ENTRY_ID"
    by (simp_all add: eo_consts)
  ultimately have "\<exists>g. eo_live ?td (0, 0, 0, g) \<noteq> None"
    unfolding eo_full_def by blast
  then show False by (simp add: eo_new_inv(2))
qed

theorem eo_domain_allocate_lookup_witness:
  "\<exists>w' i. eo_id_allocate \<lparr>mid_alloc = True, leaf_alloc = Some 5\<rparr> sample_world 7 None = Some (w', i) \<and> world_ok w' \<and> locks w' = locks sample_world
    \<and> i \<noteq> 0 \<and> eo_domain i = 2
    \<and> (\<exists>w2 w3. eo_obj_pointer_get w' i = Some (w2, Some 7) \<and> eo_obj_pointer_done w2 i = Some w3
             \<and> world_ok w3 \<and> locks w3 = locks sample_world)"
  using eo_domain_allocate_lookup [OF sample_world_ok, where parent = None and a = 12 and td = "eo_table_data_table_new False 0"
      and al = "\<lparr>mid_alloc = True, leaf_alloc = Some 5\<rparr>" and x = 7]
  by (simp add: sample_world_simps eo_memory_new new_not_full) blast

theorem eo_parent_domain_mismatch_witness:
  "\<exists>w' i. eo_id_allocate \<lparr>mid_alloc = True, leaf_alloc = Some 5\<rparr> sample_world 7 (Some eo_first_id) = Some (w', i)
    \<and> i \<noteq> 0 \<and> eo_domain i = 2 \<and> (\<exists>w2. eo_obj_pointer_get w' i = Some (w2, None))
    \<and> (\<exists>j w2. eo_domain j = 0 \<and> EO_DECOMPOSE_ID j = EO_DECOMPOSE_ID i \<and> eo_obj_pointer_get w' j = Some (w2, Some 7))"
  using eo_parent_domain_mismatch [OF sample_world_ok sample_world_simps(1) eo_first_id_domain _ sample_world_simps(3,5,2,4) eo_memory_new, of 5 "7 :: nat"]
  by (simp add: new_not_full eo_new_inv(2)) blast

theorem eo_adopt_return_witness:
  "case efl_domain_data_adopt \<lparr>tables = [1 \<mapsto> 11, 2 \<mapsto> 12], local_domain = 2, stack_top = 0, domain_stack = (\<lambda>_. 2)\<rparr>
      (Some \<lparr>tables = [0 \<mapsto> 10, 1 \<mapsto> 11], local_domain = 0, stack_top = 0, domain_stack = (\<lambda>_. 0)\<rparr>) of (data1, r) \<Rightarrow>
    r = 0 \<and> tables data1 0 = Some 10 \<and> efl_domain_current_get data1 = 0
    \<and> (case efl_domain_data_return data1 r of (data2, ok) \<Rightarrow> ok \<and> tables data2 0 = None \<and> efl_domain_current_get data2 = 2)"
  using eo_adopt_return [of "\<lparr>tables = [0 \<mapsto> 10, 1 \<mapsto> 11], local_domain = 0, stack_top = 0, domain_stack = (\<lambda>_. 0)\<rparr>"
      "\<lparr>tables = [1 \<mapsto> 11, 2 \<mapsto> 12], local_domain = 2, stack_top = 0, domain_stack = (\<lambda>_. 2)\<rparr>"]
  by (auto simp: DOMAIN_STACK_SIZE_def efl_domain_current_get_def split: prod.splits)

end
