(* ===== verification/Shares.thy ===== *)
theory Shares
  imports Prelude
begin

text \<open>
  What a pool of shared strings promises: a string is stored once, under a pointer that
  stays until as many references were dropped as were taken. The specification of the two
  pools of \<open>eina_stringshare.c\<close>, as a locale over their operations.
\<close>

section \<open>Calls and what they may answer\<close>

datatype ('c, 'p) share_call = Share 'c "u8 list" | Take 'c 'p | Drop 'c 'p

datatype 'p share_answer = Pointer "'p option" | Dropped

text \<open>The state: the string behind a pointer and the number of references to it.\<close>

type_synonym 'p shared = "'p \<Rightarrow> (u8 list \<times> nat) option"

definition unshared :: "'p shared \<Rightarrow> u8 list \<Rightarrow> bool" where
  "unshared m s \<longleftrightarrow> (\<forall>p n. m p \<noteq> Some (s, n))"

inductive share_spec :: "'p shared \<Rightarrow> ('c, 'p) share_call \<Rightarrow> 'p share_answer \<Rightarrow> 'p shared \<Rightarrow> bool" where
  found: "m p = Some (s, n) \<Longrightarrow> share_spec m (Share c s) (Pointer (Some p)) (m(p \<mapsto> (s, n + 1)))"
| stored: "unshared m s \<Longrightarrow> m p = None \<Longrightarrow> share_spec m (Share c s) (Pointer (Some p)) (m(p \<mapsto> (s, 1)))"
| refused: "unshared m s \<Longrightarrow> share_spec m (Share c s) (Pointer None) m"
| taken: "m p = Some (s, n) \<Longrightarrow> share_spec m (Take c p) (Pointer (Some p)) (m(p \<mapsto> (s, n + 1)))"
| dropped: "m p = Some (s, n) \<Longrightarrow>
    share_spec m (Drop c p) Dropped (m(p := (if n \<le> 1 then None else Some (s, n - 1))))"

inductive_simps share_spec_simps:
  "share_spec m (Share c s) a m'"
  "share_spec m (Take c p) a m'"
  "share_spec m (Drop c p) a m'"

fun share_specs :: "'p shared \<Rightarrow> ('c, 'p) share_call list \<Rightarrow> 'p share_answer list \<Rightarrow> 'p shared \<Rightarrow> bool" where
  "share_specs m [] [] m' \<longleftrightarrow> m' = m"
| "share_specs m (c # cs) (a # as) m' \<longleftrightarrow> (\<exists>m1. share_spec m c a m1 \<and> share_specs m1 cs as m')"
| "share_specs m _ _ m' \<longleftrightarrow> False"

section \<open>What follows for the callers\<close>

text \<open>
  The references of a pointer: how often the calls returned it, less how often it was
  dropped. A pointer that was returned more often than dropped is still there.
\<close>

definition refs :: "'p shared \<Rightarrow> 'p \<Rightarrow> nat" where
  "refs m p = (case m p of None \<Rightarrow> 0 | Some (s, n) \<Rightarrow> n)"

definition held :: "'p \<Rightarrow> 'p share_answer list \<Rightarrow> nat" where
  "held p as = length (filter (\<lambda>a. a = Pointer (Some p)) as)"

definition dropped_count :: "'p \<Rightarrow> ('c, 'p) share_call list \<Rightarrow> nat" where
  "dropped_count p cs = length (filter (\<lambda>c. case c of Drop _ q \<Rightarrow> q = p | _ \<Rightarrow> False) cs)"

text \<open>Strings are stored once and pointers have references.\<close>

definition pool_ok :: "'p shared \<Rightarrow> bool" where
  "pool_ok m \<longleftrightarrow> (\<forall>p q s n k. m p = Some (s, n) \<and> m q = Some (s, k) \<longrightarrow> q = p) \<and> (\<forall>p s. m p \<noteq> Some (s, 0))"

lemma pool_ok_empty [simp]: "pool_ok (\<lambda>_. None)"
  by (simp add: pool_ok_def)

lemma share_spec_pool_ok: "share_spec m c a m' \<Longrightarrow> pool_ok m \<Longrightarrow> pool_ok m'"
  by (cases rule: share_spec.cases) (auto simp: pool_ok_def unshared_def split: if_splits)

lemma share_specs_pool_ok: "share_specs m cs as m' \<Longrightarrow> pool_ok m \<Longrightarrow> pool_ok m'"
  by (induction m cs as m' rule: share_specs.induct) (auto dest: share_spec_pool_ok)

lemma share_spec_refs:
  "share_spec m c a m' \<Longrightarrow> pool_ok m \<Longrightarrow> refs m' p + dropped_count p [c] = refs m p + held p [a]"
proof (induction rule: share_spec.induct)
  case (dropped m q s n c)
  then have "n \<noteq> 0" unfolding pool_ok_def by metis
  with dropped show ?case
    by (cases "q = p") (auto simp: refs_def held_def dropped_count_def)
qed (auto simp: refs_def held_def dropped_count_def)

lemma share_specs_refs:
  "share_specs m cs as m' \<Longrightarrow> pool_ok m \<Longrightarrow> refs m' p + dropped_count p cs = refs m p + held p as"
proof (induction m cs as m' rule: share_specs.induct)
  case (2 m c cs a as m')
  then obtain m1 where m1: "share_spec m c a m1" "share_specs m1 cs as m'" by auto
  have "refs m' p + dropped_count p cs = refs m1 p + held p as"
    using 2 m1 share_spec_pool_ok by blast
  moreover have "refs m1 p + dropped_count p [c] = refs m p + held p [a]"
    using share_spec_refs [OF m1(1) 2(3)] .
  moreover have "dropped_count p (c # cs) = dropped_count p [c] + dropped_count p cs" "held p (a # as) = held p [a] + held p as"
    by (simp_all add: dropped_count_def held_def)
  ultimately show ?case by linarith
qed (simp_all add: dropped_count_def held_def)

text \<open>The string behind a pointer does not change while the pointer is held.\<close>

lemma share_spec_string:
  "share_spec m c a m' \<Longrightarrow> m p = Some (s, n) \<Longrightarrow> m' p \<noteq> None \<Longrightarrow> \<exists>k. m' p = Some (s, k)"
  by (cases rule: share_spec.cases) (auto split: if_splits)

text \<open>The strings of a pool are those that were given to it.\<close>

lemma share_spec_strings:
  assumes "share_spec m c a m'" "\<And>p s n. m p = Some (s, n) \<Longrightarrow> P s" "\<And>d s. c = Share d s \<Longrightarrow> P s" "m' p = Some (s, n)"
  shows "P s"
  using assms by (cases rule: share_spec.cases) (auto split: if_splits)

text \<open>A pool that is part of another one which has no string of the call elsewhere.\<close>

lemma share_spec_part:
  assumes "share_spec m c a m'" and f: "inj f" and m: "\<And>p. M (f p) = m p" "\<And>p. M' (f p) = m' p" "\<And>q. q \<notin> range f \<Longrightarrow> M' q = M q"
    and apart: "\<And>d s q n. c = Share d s \<Longrightarrow> q \<notin> range f \<Longrightarrow> M q \<noteq> Some (s, n)"
  shows "share_spec M (map_share_call g f c) (map_share_answer f a) M'"
proof -
  have upd: "M' = M(f p := v)" if "m' = m(p := v)" for p v
  proof (rule ext)
    fix q
    show "M' q = (M(f p := v)) q"
      using m that inj_eq [OF f] by (cases "q \<in> range f") auto
  qed
  have un: "unshared M s" if "c = Share d s" "unshared m s" for d s
  proof (unfold unshared_def, intro allI)
    fix q n
    show "M q \<noteq> Some (s, n)"
      using apart [OF that(1), of q n] that(2) m(1) by (cases "q \<in> range f") (auto simp: unshared_def)
  qed
  have same: "M' = M" if "m' = m"
  proof (rule ext)
    fix q
    show "M' q = M q" using m that by (cases "q \<in> range f") auto
  qed
  from assms(1) show ?thesis
  proof (cases rule: share_spec.cases)
    case (found p s n d)
    then show ?thesis using upd [OF found(3)] m(1) [of p] share_spec.found [of M "f p" s n] by auto
  next
    case (stored s p d)
    then show ?thesis using upd [OF stored(3)] m(1) [of p] un share_spec.stored [of M s "f p"] by auto
  next
    case (refused s d)
    then show ?thesis using same un by (auto intro: share_spec.refused)
  next
    case (taken p s n d)
    then show ?thesis using upd [OF taken(3)] m(1) [of p] share_spec.taken [of M "f p" s n] by auto
  next
    case (dropped p s n d)
    then show ?thesis using upd [OF dropped(3)] m(1) [of p] share_spec.dropped [of M "f p" s n] by auto
  qed
qed

section \<open>Runs of a pool\<close>

fun share_step where
  "share_step add rf del st (Share c s) = map_option (\<lambda>(st, r). (st, Pointer r)) (add c st s)"
| "share_step add rf del st (Take c p) = map_option (\<lambda>(st, r). (st, Pointer r)) (rf c st p)"
| "share_step add rf del st (Drop c p) = map_option (\<lambda>st. (st, Dropped)) (del c st p)"

fun share_run where
  "share_run step st [] = Some (st, [])"
| "share_run step st (c # cs) = do {
     (st, a) \<leftarrow> step st c;
     (st, as) \<leftarrow> share_run step st cs;
     Some (st, a # as)
   }"

text \<open>
  Pointers that are used are held, strings are ones the pool accepts, memory is new, and no
  reference count passes 32 bits; \<open>drop_ok\<close> is what dropping asks of the allocator.
\<close>

definition share_call_ok where
  "share_call_ok live mem_ok drop_ok str_ok st c \<longleftrightarrow>
     (case c of
        Share c s \<Rightarrow> mem_ok c st \<and> str_ok s \<and> (\<forall>p n. live st p = Some (s, n) \<longrightarrow> n + 1 < 2 ^ 32)
      | Take c p \<Rightarrow> mem_ok c st \<and> (\<exists>s n. live st p = Some (s, n) \<and> n + 1 < 2 ^ 32)
      | Drop c p \<Rightarrow> drop_ok c st \<and> live st p \<noteq> None)"

fun share_legal where
  "share_legal step live mem_ok drop_ok str_ok st [] \<longleftrightarrow> True"
| "share_legal step live mem_ok drop_ok str_ok st (c # cs) \<longleftrightarrow>
     share_call_ok live mem_ok drop_ok str_ok st c
     \<and> (case step st c of Some (st, a) \<Rightarrow> share_legal step live mem_ok drop_ok str_ok st cs | None \<Rightarrow> True)"

locale share_pool =
  fixes inv :: "'s \<Rightarrow> bool" and live :: "'s \<Rightarrow> 'p shared"
    and add :: "'c \<Rightarrow> 's \<Rightarrow> u8 list \<Rightarrow> ('s \<times> 'p option) option"
    and rf :: "'c \<Rightarrow> 's \<Rightarrow> 'p \<Rightarrow> ('s \<times> 'p option) option" and del :: "'c \<Rightarrow> 's \<Rightarrow> 'p \<Rightarrow> 's option"
    and mem_ok :: "'c \<Rightarrow> 's \<Rightarrow> bool" and drop_ok :: "'c \<Rightarrow> 's \<Rightarrow> bool" and str_ok :: "u8 list \<Rightarrow> bool"
  assumes call_law: "inv st \<Longrightarrow> share_call_ok live mem_ok drop_ok str_ok st c \<Longrightarrow>
      \<exists>st' a. share_step add rf del st c = Some (st', a) \<and> inv st' \<and> share_spec (live st) c a (live st')"
begin

lemma calls_share:
  assumes "inv st" and "share_legal (share_step add rf del) live mem_ok drop_ok str_ok st cs"
  shows "\<exists>st' as. share_run (share_step add rf del) st cs = Some (st', as) \<and> inv st'
           \<and> share_specs (live st) cs as (live st')"
  using assms
proof (induction cs arbitrary: st)
  case (Cons c cs)
  then obtain st1 a where st1: "share_step add rf del st c = Some (st1, a)" "inv st1"
    "share_spec (live st) c a (live st1)"
    using call_law [of st c] by auto
  with Cons.IH [of st1] Cons.prems(2) show ?case
    by fastforce
qed simp

text \<open>From an empty pool on: strings are stored once and references are balanced.\<close>

lemma calls_intern:
  assumes "inv st" "live st = (\<lambda>_. None)" and "share_legal (share_step add rf del) live mem_ok drop_ok str_ok st cs"
  shows "\<exists>st' as. share_run (share_step add rf del) st cs = Some (st', as) \<and> inv st'
           \<and> share_specs (\<lambda>_. None) cs as (live st') \<and> pool_ok (live st')
           \<and> (\<forall>p. refs (live st') p + dropped_count p cs = held p as)"
proof -
  obtain st' as where r: "share_run (share_step add rf del) st cs = Some (st', as)" "inv st'"
    "share_specs (\<lambda>_. None) cs as (live st')"
    using calls_share [OF assms(1,3)] assms(2) by auto
  moreover have "refs (live st') p + dropped_count p cs = held p as" for p
    using share_specs_refs [OF r(3), of p] by (simp add: refs_def)
  ultimately show ?thesis
    using share_specs_pool_ok [OF r(3)] by auto
qed

end

end
