(* ===== verification/Eina_Share.thy ===== *)
theory Eina_Share
  imports Shares Eina_Hash_Keys Memory Compare
begin

text \<open>
  The shared strings of \<open>src/lib/shared/string/eina_share_common.c\<close>: 256 buckets, each a
  red-black tree of heads, each head with a list of nodes, one per string. The population
  counts are compiled in only for statistics and are left out, as are the magic numbers
  and the spinlock around each operation. An access to a node or head that was freed is
  \<open>None\<close>.
\<close>

unbundle bit_operations_syntax

section \<open>Data\<close>

text \<open>
  A node is allocated on its own or is the \<open>builtin_node\<close> at the end of a head. Its buffer
  is \<open>str\<close>.
\<close>

datatype node_ptr = Builtin nat | Separate nat

record Eina_Share_Common_Node =
  sn_next :: "node_ptr option"
  sn_length :: u32
  sn_references :: u32
  sn_str :: "u8 list"

text \<open>Heads and nodes by address; the trees are trees of heads.\<close>

record Eina_Share_Common_Head =
  sh_hash :: u32
  sh_head :: "node_ptr option"

record Eina_Share_Common =
  share_buckets :: "nat \<Rightarrow> nat rbtree"
  share_heads :: "nat \<Rightarrow> Eina_Share_Common_Head option"
  share_nodes :: "node_ptr \<Rightarrow> Eina_Share_Common_Node option"

definition share_initial :: Eina_Share_Common where
  "share_initial = \<lparr>share_buckets = (\<lambda>_. NIL), share_heads = (\<lambda>_. None), share_nodes = (\<lambda>_. None)\<rparr>"

text \<open>The addresses that \<open>malloc\<close> gives for a head and for a node, if any.\<close>

record share_alloc =
  head_mem :: "nat option"
  node_mem :: "nat option"

definition EINA_SHARE_COMMON_BUCKETS :: nat where
  "EINA_SHARE_COMMON_BUCKETS = 256"

definition EINA_SHARE_COMMON_BUCKET_IDX :: "u32 \<Rightarrow> nat" where
  "EINA_SHARE_COMMON_BUCKET_IDX h = unat (signed_drop_bit 8 h AND 0xFF)"

definition EINA_SHARE_COMMON_NODE_HASH :: "u32 \<Rightarrow> u32" where
  "EINA_SHARE_COMMON_NODE_HASH h = h AND 0xFF"

section \<open>Comparisons\<close>

text \<open>The hash of a head; the heads of a tree are allocated.\<close>

definition hash_of :: "Eina_Share_Common \<Rightarrow> nat \<Rightarrow> u32" where
  "hash_of st ed = (case share_heads st ed of Some h \<Rightarrow> sh_hash h | None \<Rightarrow> 0)"

definition share_common_cmp :: "Eina_Share_Common \<Rightarrow> u32 \<Rightarrow> nat \<Rightarrow> int" where
  "share_common_cmp st hash ed = sint (EINA_SHARE_COMMON_NODE_HASH (hash_of st ed)) - sint hash"

definition share_common_node :: "Eina_Share_Common \<Rightarrow> nat \<Rightarrow> nat \<Rightarrow> dir" where
  "share_common_node st left right =
     (if sint (EINA_SHARE_COMMON_NODE_HASH (hash_of st left)) - sint (EINA_SHARE_COMMON_NODE_HASH (hash_of st right)) < 0
      then LEFT else RIGHT)"

section \<open>Nodes and heads\<close>

text \<open>
  \<open>slen\<close> is an \<open>int\<close> here: a copy of a negative number of bytes does not end well.
\<close>

definition share_common_node_init :: "u8 list \<Rightarrow> u32 \<Rightarrow> nat \<Rightarrow> node_ptr option \<Rightarrow> Eina_Share_Common_Node option" where
  "share_common_node_init str slen null_size nxt =
     (if sint slen < 0 then None
      else do {
        bytes \<leftarrow> mem_read str 0 (unat slen);
        Some \<lparr>sn_next = nxt, sn_length = slen, sn_references = 1, sn_str = bytes @ replicate null_size 0\<rparr>
      })"

text \<open>With \<open>slen + null_size\<close> negative as an \<open>int\<close>, more bytes are asked for than there can be.\<close>

definition share_common_head_alloc :: "share_alloc \<Rightarrow> u32 \<Rightarrow> nat option" where
  "share_common_head_alloc al slen = (if sint slen < 0 then None else head_mem al)"

definition share_common_add_head ::
  "share_alloc \<Rightarrow> Eina_Share_Common \<Rightarrow> u32 \<Rightarrow> u8 list \<Rightarrow> u32 \<Rightarrow> nat \<Rightarrow> (Eina_Share_Common \<times> node_ptr option) option" where
  "share_common_add_head al st hash str slen null_size =
     (case share_common_head_alloc al (slen + of_nat null_size) of
        None \<Rightarrow> Some (st, None)
      | Some a \<Rightarrow> do {
          node \<leftarrow> share_common_node_init str slen null_size None;
          let idx = EINA_SHARE_COMMON_BUCKET_IDX hash;
          let st = st\<lparr>share_heads := (share_heads st)(a \<mapsto> \<lparr>sh_hash = hash, sh_head = Some (Builtin a)\<rparr>),
                       share_nodes := (share_nodes st)(Builtin a \<mapsto> node)\<rparr>;
          Some (st\<lparr>share_buckets := (share_buckets st)(idx := rbtree_insert (share_buckets st idx) a (share_common_node st))\<rparr>,
                Some (Builtin a))
        })"

text \<open>Freeing a head frees its built-in node.\<close>

definition share_common_del_head :: "Eina_Share_Common \<Rightarrow> nat \<Rightarrow> Eina_Share_Common" where
  "share_common_del_head st head =
     (let idx = EINA_SHARE_COMMON_BUCKET_IDX (hash_of st head)
      in st\<lparr>share_buckets := (share_buckets st)(idx := rbtree_remove (share_buckets st idx) head (share_common_node st)),
            share_heads := (share_heads st)(head := None),
            share_nodes := (share_nodes st)(Builtin head := None)\<rparr>)"

definition share_common_node_eq :: "Eina_Share_Common_Node \<Rightarrow> u8 list \<Rightarrow> u32 \<Rightarrow> bool option" where
  "share_common_node_eq node str slen =
     (if sn_length node = slen then do {
        a \<leftarrow> mem_read (sn_str node) 0 (unat slen);
        b \<leftarrow> mem_read str 0 (unat slen);
        Some (memcmp a b = 0)
      } else Some False)"

text \<open>The loop of \<open>_eina_share_common_head_find\<close>: the node that is found and the one before.\<close>

partial_function (option) head_find_loop ::
  "Eina_Share_Common \<Rightarrow> u8 list \<Rightarrow> u32 \<Rightarrow> node_ptr \<Rightarrow> node_ptr option \<Rightarrow> (node_ptr \<times> node_ptr) option option" where
  "head_find_loop st str slen prev node =
     (case node of
        None \<Rightarrow> Some None
      | Some node \<Rightarrow> do {
          n \<leftarrow> share_nodes st node;
          eq \<leftarrow> share_common_node_eq n str slen;
          if eq then Some (Some (prev, node)) else head_find_loop st str slen node (sn_next n)
        })"

text \<open>A node that is found goes to the front of the list, except the built-in one.\<close>

definition share_common_head_find ::
  "Eina_Share_Common \<Rightarrow> nat \<Rightarrow> u8 list \<Rightarrow> u32 \<Rightarrow> (Eina_Share_Common \<times> node_ptr option) option" where
  "share_common_head_find st head str slen = do {
     h \<leftarrow> share_heads st head;
     node \<leftarrow> sh_head h;
     n \<leftarrow> share_nodes st node;
     eq \<leftarrow> share_common_node_eq n str slen;
     if eq then Some (st, Some node)
     else do {
       r \<leftarrow> head_find_loop st str slen node (sn_next n);
       (case r of
          None \<Rightarrow> Some (st, None)
        | Some (prev, node) \<Rightarrow> do {
            n \<leftarrow> share_nodes st node;
            if sn_next n = None then Some (st, Some node)
            else do {
              p \<leftarrow> share_nodes st prev;
              let nodes = (share_nodes st)(prev \<mapsto> p\<lparr>sn_next := sn_next n\<rparr>);
              Some (st\<lparr>share_nodes := nodes(node \<mapsto> n\<lparr>sn_next := sh_head h\<rparr>),
                       share_heads := (share_heads st)(head \<mapsto> h\<lparr>sh_head := Some node\<rparr>)\<rparr>, Some node)
            }
          })
     }
   }"

definition unlink_next :: "Eina_Share_Common \<Rightarrow> node_ptr \<Rightarrow> node_ptr option \<Rightarrow> (Eina_Share_Common \<times> bool) option" where
  "unlink_next st prev nxt = do {
     p \<leftarrow> share_nodes st prev;
     Some (st\<lparr>share_nodes := (share_nodes st)(prev \<mapsto> p\<lparr>sn_next := nxt\<rparr>)\<rparr>, True)
   }"

partial_function (option) head_remove_loop ::
  "Eina_Share_Common \<Rightarrow> node_ptr \<Rightarrow> node_ptr \<Rightarrow> node_ptr option \<Rightarrow> (Eina_Share_Common \<times> bool) option" where
  "head_remove_loop st node prev cur =
     (if cur = None then Some (st, False)
      else do {
        cur \<leftarrow> cur;
        c \<leftarrow> share_nodes st cur;
        if cur = node then unlink_next st prev (sn_next c) else head_remove_loop st node cur (sn_next c)
      })"

definition share_common_head_remove_node ::
  "Eina_Share_Common \<Rightarrow> nat \<Rightarrow> node_ptr \<Rightarrow> (Eina_Share_Common \<times> bool) option" where
  "share_common_head_remove_node st head node = do {
     h \<leftarrow> share_heads st head;
     if sh_head h = Some node then do {
       n \<leftarrow> share_nodes st node;
       Some (st\<lparr>share_heads := (share_heads st)(head \<mapsto> h\<lparr>sh_head := sn_next n\<rparr>)\<rparr>, True)
     } else do {
       prev \<leftarrow> sh_head h;
       p \<leftarrow> share_nodes st prev;
       head_remove_loop st node prev (sn_next p)
     }
   }"

definition share_common_find_hash :: "Eina_Share_Common \<Rightarrow> nat rbtree \<Rightarrow> u32 \<Rightarrow> nat option" where
  "share_common_find_hash st bucket hash = eina_rbtree_inline_lookup bucket (share_common_cmp st hash)"

text \<open>
  The last node of a list is the built-in one of its head. A last node that is not built
  in leads to an address that is no head.
\<close>

partial_function (option) share_common_head_from_node :: "Eina_Share_Common \<Rightarrow> node_ptr \<Rightarrow> nat option" where
  "share_common_head_from_node st node = do {
     n \<leftarrow> share_nodes st node;
     (case sn_next n of
        Some nxt \<Rightarrow> share_common_head_from_node st nxt
      | None \<Rightarrow> (case node of Builtin a \<Rightarrow> Some a | Separate _ \<Rightarrow> None))
   }"

section \<open>The operations\<close>

definition node_refs :: "(u32 \<Rightarrow> u32) \<Rightarrow> Eina_Share_Common_Node \<Rightarrow> Eina_Share_Common_Node" where
  "node_refs f n = n\<lparr>sn_references := f (sn_references n)\<rparr>"

definition eina_share_common_add_length ::
  "share_alloc \<Rightarrow> Eina_Share_Common \<Rightarrow> u8 list option \<Rightarrow> u32 \<Rightarrow> nat \<Rightarrow> (Eina_Share_Common \<times> node_ptr option) option" where
  "eina_share_common_add_length al st str slen null_size =
     (case str of
        None \<Rightarrow> Some (st, None)
      | Some str \<Rightarrow>
          if slen = 0 then Some (st, None)
          else do {
            key \<leftarrow> mem_read str 0 (unat slen);
            let hash = eina_hash_superfast key (sint slen);
            let bucket = share_buckets st (EINA_SHARE_COMMON_BUCKET_IDX hash);
            (case share_common_find_hash st bucket (EINA_SHARE_COMMON_NODE_HASH hash) of
               None \<Rightarrow> share_common_add_head al st hash str slen null_size
             | Some ed \<Rightarrow> do {
                 (st, el) \<leftarrow> share_common_head_find st ed str slen;
                 (case el of
                    Some el \<Rightarrow> do {
                      n \<leftarrow> share_nodes st el;
                      Some (st\<lparr>share_nodes := (share_nodes st)(el \<mapsto> node_refs (\<lambda>r. r + 1) n)\<rparr>, Some el)
                    }
                  | None \<Rightarrow>
                      (case node_mem al of
                         None \<Rightarrow> Some (st, None)
                       | Some a \<Rightarrow> do {
                           h \<leftarrow> share_heads st ed;
                           node \<leftarrow> share_common_node_init str slen null_size (sh_head h);
                           Some (st\<lparr>share_nodes := (share_nodes st)(Separate a \<mapsto> node),
                                    share_heads := (share_heads st)(ed \<mapsto> h\<lparr>sh_head := Some (Separate a)\<rparr>)\<rparr>,
                                 Some (Separate a))
                         }))
               })
          })"

definition eina_share_common_ref :: "Eina_Share_Common \<Rightarrow> node_ptr option \<Rightarrow> (Eina_Share_Common \<times> node_ptr option) option" where
  "eina_share_common_ref st str =
     (case str of
        None \<Rightarrow> Some (st, None)
      | Some node \<Rightarrow> do {
          n \<leftarrow> share_nodes st node;
          Some (st\<lparr>share_nodes := (share_nodes st)(node \<mapsto> node_refs (\<lambda>r. r + 1) n)\<rparr>, Some node)
        })"

definition eina_share_common_del :: "Eina_Share_Common \<Rightarrow> node_ptr option \<Rightarrow> (Eina_Share_Common \<times> bool) option" where
  "eina_share_common_del st str =
     (case str of
        None \<Rightarrow> Some (st, True)
      | Some node \<Rightarrow> do {
          n \<leftarrow> share_nodes st node;
          if 1 < sn_references n
          then Some (st\<lparr>share_nodes := (share_nodes st)(node \<mapsto> node_refs (\<lambda>r. r - 1) n)\<rparr>, True)
          else do {
            let st = st\<lparr>share_nodes := (share_nodes st)(node \<mapsto> node_refs (\<lambda>_. 0) n)\<rparr>;
            a \<leftarrow> share_common_head_from_node st node;
            (st, removed) \<leftarrow> (if node \<noteq> Builtin a then do {
                (st, ok) \<leftarrow> share_common_head_remove_node st a node;
                Some (if ok then st\<lparr>share_nodes := (share_nodes st)(node := None)\<rparr> else st, ok)
              } else Some (st, True));
            if \<not> removed then Some (st, False)
            else do {
              h \<leftarrow> share_heads st a;
              unused \<leftarrow> (case sh_head h of
                  None \<Rightarrow> Some True
                | Some f \<Rightarrow> map_option (\<lambda>n. sn_references n = 0) (share_nodes st f));
              Some (if unused then share_common_del_head st a else st, True)
            }
          }
        })"

definition eina_share_common_length :: "Eina_Share_Common \<Rightarrow> node_ptr option \<Rightarrow> int option" where
  "eina_share_common_length st str =
     (case str of
        None \<Rightarrow> Some (- 1)
      | Some node \<Rightarrow> map_option (\<lambda>n. sint (sn_length n)) (share_nodes st node))"

section \<open>Shutdown\<close>

partial_function (option) head_free_loop :: "Eina_Share_Common \<Rightarrow> nat \<Rightarrow> Eina_Share_Common option" where
  "head_free_loop st a = do {
     h \<leftarrow> share_heads st a;
     (case sh_head h of
        None \<Rightarrow> Some st
      | Some el \<Rightarrow> do {
          n \<leftarrow> share_nodes st el;
          let st = st\<lparr>share_heads := (share_heads st)(a \<mapsto> h\<lparr>sh_head := sn_next n\<rparr>)\<rparr>;
          head_free_loop (if el \<noteq> Builtin a then st\<lparr>share_nodes := (share_nodes st)(el := None)\<rparr> else st) a
        })
   }"

definition share_common_head_free :: "nat \<Rightarrow> Eina_Share_Common option \<Rightarrow> Eina_Share_Common option" where
  "share_common_head_free ed st = do {
     st \<leftarrow> st;
     st \<leftarrow> head_free_loop st ed;
     Some (st\<lparr>share_heads := (share_heads st)(ed := None), share_nodes := (share_nodes st)(Builtin ed := None)\<rparr>)
   }"

fun share_shutdown_loop :: "Eina_Share_Common \<Rightarrow> nat list \<Rightarrow> Eina_Share_Common option" where
  "share_shutdown_loop st [] = Some st"
| "share_shutdown_loop st (i # is) = do {
     st \<leftarrow> eina_rbtree_delete (share_buckets st i) (Some share_common_head_free) (Some st);
     share_shutdown_loop (st\<lparr>share_buckets := (share_buckets st)(i := NIL)\<rparr>) is
   }"

definition eina_share_common_shutdown :: "Eina_Share_Common \<Rightarrow> Eina_Share_Common option" where
  "eina_share_common_shutdown st = share_shutdown_loop st [0..<EINA_SHARE_COMMON_BUCKETS]"

end
