(* ===== verification/Eina_Stringshare.thy ===== *)
theory Eina_Stringshare
  imports Eina_Share
begin

text \<open>
  The string pool of \<open>src/lib/shared/string/eina_stringshare.c\<close>: strings of two and three
  characters in sorted arrays, one set of arrays per first character; shorter ones in a
  constant; all others with \<open>eina_share_common.c\<close>. Bytes are compared as signed characters.
\<close>

section \<open>Small strings\<close>

text \<open>
  The arrays of a bucket have the length they were allocated with, which need not be
  \<open>size\<close>. Strings are addresses.
\<close>

record Eina_Stringshare_Small_Bucket =
  sb_strings :: "nat list"
  sb_lengths :: "u8 list"
  sb_references :: "u32 list"
  sb_count :: nat
  sb_size :: nat

record Eina_Stringshare_Small =
  sm_buckets :: "u8 \<Rightarrow> Eina_Stringshare_Small_Bucket option"
  sm_text :: "nat \<Rightarrow> u8 list option"

definition small_initial :: Eina_Stringshare_Small where
  "small_initial = \<lparr>sm_buckets = (\<lambda>_. None), sm_text = (\<lambda>_. None)\<rparr>"

text \<open>Which allocations succeed, the address of a new string, and what new elements of the arrays hold.\<close>

record small_alloc =
  bucket_mem :: bool
  strings_mem :: bool
  lengths_mem :: bool
  references_mem :: bool
  text_mem :: "nat option"
  junk_string :: nat
  junk_length :: u8
  junk_reference :: u32

definition EINA_STRINGSHARE_SMALL_BUCKET_STEP :: nat where
  "EINA_STRINGSHARE_SMALL_BUCKET_STEP = 8"

definition elem_at :: "'a list \<Rightarrow> nat \<Rightarrow> 'a option" where
  "elem_at xs i = (if i < length xs then Some (xs ! i) else None)"

definition stringshare_small_cmp ::
  "Eina_Stringshare_Small \<Rightarrow> Eina_Stringshare_Small_Bucket \<Rightarrow> nat \<Rightarrow> u8 list \<Rightarrow> u8 \<Rightarrow> int option" where
  "stringshare_small_cmp st bucket i pstr plength = do {
     l \<leftarrow> elem_at (sb_lengths bucket) i;
     let cur_plength = l - 1;
     if plength < cur_plength then Some 1
     else if cur_plength < plength then Some (- 1)
     else do {
       a \<leftarrow> elem_at (sb_strings bucket) i;
       cur \<leftarrow> sm_text st a;
       c0 \<leftarrow> elem_at cur 1;
       p0 \<leftarrow> elem_at pstr 0;
       if sint p0 < sint c0 then Some 1
       else if sint c0 < sint p0 then Some (- 1)
       else if plength = 1 then Some 0
       else do {
         c1 \<leftarrow> elem_at cur 2;
         p1 \<leftarrow> elem_at pstr 1;
         Some (if sint p1 < sint c1 then 1 else if sint c1 < sint p1 then - 1 else 0)
       }
     }
   }"

text \<open>The string that is found, if any, and its index or the one where it belongs.\<close>

function small_find_loop ::
  "Eina_Stringshare_Small \<Rightarrow> Eina_Stringshare_Small_Bucket \<Rightarrow> u8 list \<Rightarrow> u8 \<Rightarrow> nat \<Rightarrow> nat \<Rightarrow> (nat option \<times> nat) option" where
  "small_find_loop st bucket pstr plength low high =
     (if low < high then do {
        let i = (low + high - 1) div 2;
        r \<leftarrow> stringshare_small_cmp st bucket i pstr plength;
        if 0 < r then small_find_loop st bucket pstr plength low i
        else if r < 0 then small_find_loop st bucket pstr plength (i + 1) high
        else map_option (\<lambda>s. (Some s, i)) (elem_at (sb_strings bucket) i)
      } else Some (None, low))"
  by pat_completeness auto
termination
proof (relation "measure (\<lambda>(_, _, _, _, low, high). high - low)")
  fix low high i :: nat
  assume "low < high" "i = (low + high - 1) div 2"
  then have "low \<le> i" "i < high" by auto
  then show "((st, bucket, pstr, plength, low, i), st, bucket, pstr, plength, low, high) \<in> measure (\<lambda>(_, _, _, _, low, high). high - low)"
    "((st, bucket, pstr, plength, i + 1, high), st, bucket, pstr, plength, low, high) \<in> measure (\<lambda>(_, _, _, _, low, high). high - low)"
    for st :: Eina_Stringshare_Small and bucket :: Eina_Stringshare_Small_Bucket and pstr :: "u8 list" and plength :: u8
    by auto
qed simp

declare small_find_loop.simps [simp del]

definition stringshare_small_bucket_find ::
  "Eina_Stringshare_Small \<Rightarrow> Eina_Stringshare_Small_Bucket \<Rightarrow> u8 list \<Rightarrow> u8 \<Rightarrow> (nat option \<times> nat) option" where
  "stringshare_small_bucket_find st bucket str len =
     (if sb_count bucket = 0 then Some (None, 0)
      else small_find_loop st bucket (drop 1 str) (len - 1) 0 (sb_count bucket))"

definition array_realloc :: "'a \<Rightarrow> 'a list \<Rightarrow> nat \<Rightarrow> 'a list" where
  "array_realloc v old n = take n old @ replicate (n - length old) v"

definition stringshare_small_bucket_resize ::
  "small_alloc \<Rightarrow> Eina_Stringshare_Small_Bucket \<Rightarrow> nat \<Rightarrow> Eina_Stringshare_Small_Bucket \<times> bool" where
  "stringshare_small_bucket_resize al bucket new_size =
     (if \<not> strings_mem al then (bucket, False)
      else
        (let bucket = bucket\<lparr>sb_strings := array_realloc (junk_string al) (sb_strings bucket) new_size\<rparr>
         in if \<not> lengths_mem al then (bucket, False)
            else
              (let bucket = bucket\<lparr>sb_lengths := array_realloc (junk_length al) (sb_lengths bucket) new_size\<rparr>
               in if \<not> references_mem al then (bucket, False)
                  else (bucket\<lparr>sb_references := array_realloc (junk_reference al) (sb_references bucket) new_size,
                               sb_size := new_size\<rparr>, True))))"

text \<open>The moves that open a gap for the new element; they are skipped at the end of the array.\<close>

definition insert_item :: "'a list \<Rightarrow> nat \<Rightarrow> nat \<Rightarrow> 'a \<Rightarrow> 'a list option" where
  "insert_item xs n idx v = do {
     xs \<leftarrow> (if idx < n then mem_move xs (idx + 1) idx (n - idx) else Some xs);
     mem_write xs idx [v]
   }"

definition stringshare_small_bucket_insert_at ::
  "small_alloc \<Rightarrow> Eina_Stringshare_Small \<Rightarrow> u8 \<Rightarrow> u8 list \<Rightarrow> u8 \<Rightarrow> nat \<Rightarrow> (Eina_Stringshare_Small \<times> nat option) option" where
  "stringshare_small_bucket_insert_at al st c str len idx =
     (case (case sm_buckets st c of
           Some bucket \<Rightarrow> Some bucket
         | None \<Rightarrow> if bucket_mem al
             then Some \<lparr>sb_strings = [], sb_lengths = [], sb_references = [], sb_count = 0, sb_size = 0\<rparr> else None) of
         None \<Rightarrow> Some (st, None)
       | Some bucket \<Rightarrow>
           (let (bucket, ok) =
              (if sb_size bucket \<le> sb_count bucket + 1
               then stringshare_small_bucket_resize al bucket (sb_size bucket + EINA_STRINGSHARE_SMALL_BUCKET_STEP)
               else (bucket, True));
                st = st\<lparr>sm_buckets := (sm_buckets st)(c \<mapsto> bucket)\<rparr>
            in if \<not> ok then Some (st, None)
               else (case text_mem al of
                  None \<Rightarrow> Some (st, None)
                | Some snew \<Rightarrow> do {
                    text \<leftarrow> mem_read str 0 (unat len);
                    strings \<leftarrow> insert_item (sb_strings bucket) (sb_count bucket) idx snew;
                    lengths \<leftarrow> insert_item (sb_lengths bucket) (sb_count bucket) idx len;
                    references \<leftarrow> insert_item (sb_references bucket) (sb_count bucket) idx 1;
                    Some (st\<lparr>sm_text := (sm_text st)(snew \<mapsto> text @ [0]),
                             sm_buckets := (sm_buckets st)(c \<mapsto>
                               bucket\<lparr>sb_strings := strings, sb_lengths := lengths, sb_references := references,
                                      sb_count := sb_count bucket + 1\<rparr>)\<rparr>, Some snew)
                  })))"

definition stringshare_small_bucket_remove_at ::
  "small_alloc \<Rightarrow> Eina_Stringshare_Small \<Rightarrow> u8 \<Rightarrow> Eina_Stringshare_Small_Bucket \<Rightarrow> nat \<Rightarrow> Eina_Stringshare_Small option" where
  "stringshare_small_bucket_remove_at al st c bucket idx = do {
     r \<leftarrow> elem_at (sb_references bucket) idx;
     if 1 < r
     then Some (st\<lparr>sm_buckets := (sm_buckets st)(c \<mapsto> bucket\<lparr>sb_references := (sb_references bucket)[idx := r - 1]\<rparr>)\<rparr>)
     else do {
       a \<leftarrow> elem_at (sb_strings bucket) idx;
       let st = st\<lparr>sm_text := (sm_text st)(a := None)\<rparr>;
       if sb_count bucket = 1 then Some (st\<lparr>sm_buckets := (sm_buckets st)(c := None)\<rparr>)
       else do {
         let n = sb_count bucket - 1;
         bucket \<leftarrow> (if idx = n then Some (bucket\<lparr>sb_count := n\<rparr>)
           else do {
             strings \<leftarrow> mem_move (sb_strings bucket) idx (idx + 1) (n - idx);
             lengths \<leftarrow> mem_move (sb_lengths bucket) idx (idx + 1) (n - idx);
             references \<leftarrow> mem_move (sb_references bucket) idx (idx + 1) (n - idx);
             Some (bucket\<lparr>sb_strings := strings, sb_lengths := lengths, sb_references := references, sb_count := n\<rparr>)
           });
         let bucket = (if n + EINA_STRINGSHARE_SMALL_BUCKET_STEP < sb_size bucket
                       then fst (stringshare_small_bucket_resize al bucket (sb_size bucket - EINA_STRINGSHARE_SMALL_BUCKET_STEP))
                       else bucket);
         Some (st\<lparr>sm_buckets := (sm_buckets st)(c \<mapsto> bucket)\<rparr>)
       }
     }
   }"

definition stringshare_small_add ::
  "small_alloc \<Rightarrow> Eina_Stringshare_Small \<Rightarrow> u8 list \<Rightarrow> u8 \<Rightarrow> (Eina_Stringshare_Small \<times> nat option) option" where
  "stringshare_small_add al st str len = do {
     c \<leftarrow> elem_at str 0;
     (case sm_buckets st c of
        None \<Rightarrow> stringshare_small_bucket_insert_at al st c str len 0
      | Some bucket \<Rightarrow> do {
          (ret, i) \<leftarrow> stringshare_small_bucket_find st bucket str len;
          (case ret of
             Some ret \<Rightarrow> do {
               r \<leftarrow> elem_at (sb_references bucket) i;
               Some (st\<lparr>sm_buckets := (sm_buckets st)(c \<mapsto> bucket\<lparr>sb_references := (sb_references bucket)[i := r + 1]\<rparr>)\<rparr>, Some ret)
             }
           | None \<Rightarrow> stringshare_small_bucket_insert_at al st c str len i)
        })
   }"

text \<open>A string that is not found is reported and nothing changes.\<close>

definition stringshare_small_del ::
  "small_alloc \<Rightarrow> Eina_Stringshare_Small \<Rightarrow> u8 list \<Rightarrow> u8 \<Rightarrow> Eina_Stringshare_Small option" where
  "stringshare_small_del al st str len = do {
     c \<leftarrow> elem_at str 0;
     (case sm_buckets st c of
        None \<Rightarrow> Some st
      | Some bucket \<Rightarrow> do {
          (ret, i) \<leftarrow> stringshare_small_bucket_find st bucket str len;
          (case ret of
             None \<Rightarrow> Some st
           | Some _ \<Rightarrow> stringshare_small_bucket_remove_at al st c bucket i)
        })
   }"

text \<open>The strings of a bucket are freed before its arrays.\<close>

definition free_texts :: "nat list \<Rightarrow> (nat \<Rightarrow> u8 list option) \<Rightarrow> nat \<Rightarrow> u8 list option" where
  "free_texts as text = fold (\<lambda>a t. t(a := None)) as text"

definition stringshare_small_shutdown :: "Eina_Stringshare_Small \<Rightarrow> Eina_Stringshare_Small" where
  "stringshare_small_shutdown st =
     fold (\<lambda>c st. case sm_buckets st c of
         None \<Rightarrow> st
       | Some bucket \<Rightarrow> st\<lparr>sm_text := free_texts (take (sb_count bucket) (sb_strings bucket)) (sm_text st),
                         sm_buckets := (sm_buckets st)(c := None)\<rparr>)
       (map of_nat [0..<256]) st"

section \<open>The string pool\<close>

text \<open>Where a shared string is.\<close>

datatype stringshare = Empty | Single nat | Small nat | Common node_ptr

record stringshare_pool =
  small :: Eina_Stringshare_Small
  common :: Eina_Share_Common

record stringshare_alloc =
  for_small :: small_alloc
  for_common :: share_alloc

definition eina_stringshare_single :: "u8 list" where
  "eina_stringshare_single = concat (map (\<lambda>c. [of_nat c, 0]) [0..<256])"

text \<open>The bytes behind a pointer.\<close>

definition stringshare_bytes :: "stringshare_pool \<Rightarrow> stringshare \<Rightarrow> u8 list option" where
  "stringshare_bytes st str =
     (case str of
        Empty \<Rightarrow> Some [0]
      | Single off \<Rightarrow> if off < length eina_stringshare_single then Some (drop off eina_stringshare_single) else None
      | Small a \<Rightarrow> sm_text (small st) a
      | Common p \<Rightarrow> map_option sn_str (share_nodes (common st) p))"

text \<open>The character selects two bytes of the constant; it is negative from 128 on.\<close>

definition eina_stringshare_add_length ::
  "stringshare_alloc \<Rightarrow> stringshare_pool \<Rightarrow> u8 list option \<Rightarrow> u32 \<Rightarrow> (stringshare_pool \<times> stringshare option) option" where
  "eina_stringshare_add_length al st str slen =
     (case str of
        None \<Rightarrow> Some (st, None)
      | Some str \<Rightarrow>
          if slen = 0 then Some (st, Some Empty)
          else if slen = 1 then do {
            c \<leftarrow> elem_at str 0;
            if sint c < 0 then None else Some (st, Some (Single (nat (sint c * 2))))
          }
          else if slen < 4 then do {
            (sm, s) \<leftarrow> stringshare_small_add (for_small al) (small st) str (ucast slen);
            Some (st\<lparr>small := sm\<rparr>, map_option Small s)
          }
          else do {
            (co, s) \<leftarrow> eina_share_common_add_length (for_common al) (common st) (Some str) slen 1;
            Some (st\<lparr>common := co\<rparr>, map_option Common s)
          })"

definition strlen :: "u8 list \<Rightarrow> nat option" where
  "strlen bytes = (if 0 \<in> set bytes then Some (length (takeWhile (\<lambda>c. c \<noteq> 0) bytes)) else None)"

definition eina_stringshare_add ::
  "stringshare_alloc \<Rightarrow> stringshare_pool \<Rightarrow> u8 list option \<Rightarrow> (stringshare_pool \<times> stringshare option) option" where
  "eina_stringshare_add al st str =
     (case str of
        None \<Rightarrow> Some (st, None)
      | Some bytes \<Rightarrow> do {
          n \<leftarrow> strlen bytes;
          eina_stringshare_add_length al st str (of_nat n)
        })"

text \<open>
  The length of a string up to four: the checks at the beginning of \<open>del\<close>, \<open>ref\<close> and \<open>strlen\<close>.
\<close>

fun short_length :: "u8 list \<Rightarrow> nat \<Rightarrow> nat option" where
  "short_length (c # cs) n = (if c = 0 then Some n else if n = 3 then Some 4 else short_length cs (n + 1))"
| "short_length [] n = None"

definition eina_stringshare_del :: "stringshare_alloc \<Rightarrow> stringshare_pool \<Rightarrow> stringshare option \<Rightarrow> stringshare_pool option" where
  "eina_stringshare_del al st str =
     (case str of
        None \<Rightarrow> Some st
      | Some s \<Rightarrow> do {
          bytes \<leftarrow> stringshare_bytes st s;
          slen \<leftarrow> short_length bytes 0;
          if slen < 2 then Some st
          else if slen < 4 then do {
            sm \<leftarrow> stringshare_small_del (for_small al) (small st) bytes (of_nat slen);
            Some (st\<lparr>small := sm\<rparr>)
          }
          else (case s of
             Common p \<Rightarrow> do { (co, ok) \<leftarrow> eina_share_common_del (common st) (Some p); Some (st\<lparr>common := co\<rparr>) }
           | _ \<Rightarrow> None)
        })"

definition eina_stringshare_ref ::
  "stringshare_alloc \<Rightarrow> stringshare_pool \<Rightarrow> stringshare option \<Rightarrow> (stringshare_pool \<times> stringshare option) option" where
  "eina_stringshare_ref al st str =
     (case str of
        None \<Rightarrow> Some (st, None)
      | Some s \<Rightarrow> do {
          bytes \<leftarrow> stringshare_bytes st s;
          slen \<leftarrow> short_length bytes 0;
          if slen < 2 then Some (st, Some s)
          else if slen < 4 then do {
            (sm, r) \<leftarrow> stringshare_small_add (for_small al) (small st) bytes (of_nat slen);
            Some (st\<lparr>small := sm\<rparr>, map_option Small r)
          }
          else do {
            n \<leftarrow> strlen (drop 3 bytes);
            n \<leftarrow> c_int (3 + n);
            (case s of
               Common p \<Rightarrow> do { (co, r) \<leftarrow> eina_share_common_ref (common st) (Some p); Some (st\<lparr>common := co\<rparr>, map_option Common r) }
             | _ \<Rightarrow> None)
          }
        })"

definition eina_stringshare_strlen :: "stringshare_pool \<Rightarrow> stringshare option \<Rightarrow> int option" where
  "eina_stringshare_strlen st str =
     (case str of
        None \<Rightarrow> Some 0
      | Some s \<Rightarrow> do {
          bytes \<leftarrow> stringshare_bytes st s;
          slen \<leftarrow> short_length bytes 0;
          if slen < 4 then Some (int slen)
          else (case s of
             Common p \<Rightarrow> map_option (\<lambda>len. if 0 < len then len else - 1) (eina_share_common_length (common st) (Some p))
           | _ \<Rightarrow> None)
        })"

text \<open>
  \<open>vsnprintf\<close> writes at most \<open>len - 1\<close> characters of its output and a zero byte, and returns
  the length of the whole output; the rest of the \<open>len + 1\<close> bytes are not written. A format
  is given by its output. An output that cannot be made counts as an empty one, since both
  give a size below 1, and for one longer than an \<open>int\<close> the size is negative. With the largest
  \<open>len\<close> the buffer has \<open>len + 1 = 0\<close> bytes, and \<open>vsnprintf\<close> writes behind it.
\<close>

definition eina_stringshare_nprintf ::
  "stringshare_alloc \<Rightarrow> stringshare_pool \<Rightarrow> u32 \<Rightarrow> u8 list option \<Rightarrow> u8 list \<Rightarrow> (stringshare_pool \<times> stringshare option) option" where
  "eina_stringshare_nprintf al st len fmt rest =
     (case fmt of
        None \<Rightarrow> Some (st, None)
      | Some printed \<Rightarrow>
          if len = 0 then Some (st, Some Empty)
          else if len + 1 = 0 then None
          else
            (let tmp = take (unat len - 1) printed @ [0] @ rest; sz = length printed
             in if sz < 1 \<or> INT_MAX < sz then Some (st, Some Empty)
                else eina_stringshare_add_length al st (Some tmp) (of_nat (if unat len < sz then unat len else sz))))"

definition eina_stringshare_printf ::
  "stringshare_alloc \<Rightarrow> stringshare_pool \<Rightarrow> u8 list option \<Rightarrow> (stringshare_pool \<times> stringshare option) option" where
  "eina_stringshare_printf al st fmt =
     (case fmt of
        None \<Rightarrow> Some (st, None)
      | Some printed \<Rightarrow>
          if printed = [] \<or> INT_MAX < length printed then Some (st, Some Empty)
          else eina_stringshare_add_length al st (Some (printed @ [0])) (of_nat (length printed)))"

definition eina_stringshare_shutdown :: "stringshare_pool \<Rightarrow> stringshare_pool option" where
  "eina_stringshare_shutdown st = do {
     let st = st\<lparr>small := stringshare_small_shutdown (small st)\<rparr>;
     co \<leftarrow> eina_share_common_shutdown (common st);
     Some (st\<lparr>common := co\<rparr>)
   }"

end
