(* ===== verification/Eina_Share_Laws.thy ===== *)
theory Eina_Share_Laws
  imports Eina_Share
begin

text \<open>
  The invariant of the shared strings and what the searches and changes of lists do: every
  head is in the tree of its bucket, its list ends in its built-in node, no string is
  stored twice, and every node is in the list of one head. The built-in node may have no
  references as long as other nodes are before it.
\<close>

section \<open>Hash values\<close>

definition same_slot :: "u32 \<Rightarrow> u32 \<Rightarrow> bool" where
  "same_slot h h' \<longleftrightarrow> EINA_SHARE_COMMON_BUCKET_IDX h = EINA_SHARE_COMMON_BUCKET_IDX h'
     \<and> EINA_SHARE_COMMON_NODE_HASH h = EINA_SHARE_COMMON_NODE_HASH h'"

lemma bucket_idx_bound: "EINA_SHARE_COMMON_BUCKET_IDX h < EINA_SHARE_COMMON_BUCKETS"
proof -
  have "signed_drop_bit 8 h AND 0xFF \<le> (0xFF :: u32)"
    by (rule word_and_le1)
  then have "unat (signed_drop_bit 8 h AND 0xFF) \<le> unat (0xFF :: u32)"
    unfolding word_le_nat_alt .
  then show ?thesis
    by (simp add: EINA_SHARE_COMMON_BUCKET_IDX_def EINA_SHARE_COMMON_BUCKETS_def)
qed

definition hcmp :: "('a \<Rightarrow> u32) \<Rightarrow> 'a \<Rightarrow> 'a \<Rightarrow> int" where
  "hcmp h a b = sint (EINA_SHARE_COMMON_NODE_HASH (h a)) - sint (EINA_SHARE_COMMON_NODE_HASH (h b))"

interpretation hc: rb_ordered "hcmp h" ok for h ok
  by unfold_locales (auto simp: hcmp_def)

lemma share_common_node_eq_dcmp: "share_common_node st = rb_dcmp (hcmp (hash_of st))"
  by (intro ext) (simp add: share_common_node_def rb_dcmp_def hcmp_def)

lemma rb_desc_cong:
  assumes "\<And>x. x \<in> set (inorder t) \<Longrightarrow> h x = h' x" "\<And>x. x \<in> set (inorder t) \<Longrightarrow> ok x \<Longrightarrow> ok' x"
    and "rb_desc (hcmp h) ok t"
  shows "rb_desc (hcmp h') ok' t"
proof -
  have "sorted_wrt (\<lambda>a b. 0 < hcmp h' a b) (inorder t)"
    using assms(1,3) sorted_wrt_mono_rel [of "inorder t" "\<lambda>a b. 0 < hcmp h a b"] by (auto simp: rb_desc_def hcmp_def)
  with assms(2,3) show ?thesis by (auto simp: rb_desc_def)
qed

lemma find_by_hash:
  assumes "rb_desc (hcmp h) ok (t :: nat rbtree)"
  shows "eina_rbtree_inline_lookup t (\<lambda>ed. sint (EINA_SHARE_COMMON_NODE_HASH (h ed)) - sint (EINA_SHARE_COMMON_NODE_HASH hash)) = Some x
    \<longleftrightarrow> x \<in> set (inorder t) \<and> EINA_SHARE_COMMON_NODE_HASH (h x) = EINA_SHARE_COMMON_NODE_HASH hash"
proof -
  obtain k where k: "k \<notin> set (inorder t)"
    using ex_new_if_finite [OF infinite_UNIV_nat, of "set (inorder t)"] by auto
  have "rb_desc (hcmp (h(k := hash))) (\<lambda>_. True) t"
    by (rule rb_desc_cong [OF _ _ assms]) (use k in auto)
  from hc.desc_lookup [OF this TrueI, of "\<lambda>ed. sint (EINA_SHARE_COMMON_NODE_HASH (h ed)) - sint (EINA_SHARE_COMMON_NODE_HASH hash)" k x]
  show ?thesis
    using k by (auto simp: hcmp_def signed_word_eqI)
qed

section \<open>Lists of nodes\<close>

type_synonym share_nodes = "node_ptr \<Rightarrow> Eina_Share_Common_Node option"

fun node_seg :: "share_nodes \<Rightarrow> node_ptr option \<Rightarrow> node_ptr list \<Rightarrow> node_ptr option \<Rightarrow> bool" where
  "node_seg N p [] q \<longleftrightarrow> p = q"
| "node_seg N p (x # xs) q \<longleftrightarrow> p = Some x \<and> (\<exists>n. N x = Some n \<and> node_seg N (sn_next n) xs q)"

lemma node_seg_append: "node_seg N p (xs @ ys) q \<longleftrightarrow> (\<exists>r. node_seg N p xs r \<and> node_seg N r ys q)"
  by (induction xs arbitrary: p) auto

lemma node_seg_cong:
  "(\<And>x. x \<in> set xs \<Longrightarrow> map_option sn_next (N' x) = map_option sn_next (N x)) \<Longrightarrow> node_seg N' p xs q = node_seg N p xs q"
proof (induction xs arbitrary: p)
  case (Cons x xs)
  have "node_seg N' r xs q = node_seg N r xs q" for r
    using Cons by simp
  with Cons.prems [of x] show ?case
    by (cases "N x"; cases "N' x") auto
qed simp

lemma node_seg_upd: "x \<notin> set xs \<Longrightarrow> node_seg (N(x := v)) p xs q = node_seg N p xs q"
  by (rule node_seg_cong) auto

text \<open>What a node holds, and what the nodes of a list with a given hash satisfy.\<close>

definition str_of :: "Eina_Share_Common_Node \<Rightarrow> u8 list" where
  "str_of n = take (unat (sn_length n)) (sn_str n)"

definition str_hash :: "u8 list \<Rightarrow> u32" where
  "str_hash s = eina_hash_superfast s (int (length s))"

definition node_ok :: "nat \<Rightarrow> u32 \<Rightarrow> Eina_Share_Common_Node \<Rightarrow> bool" where
  "node_ok k h n \<longleftrightarrow> (\<exists>s. sn_str n = s @ replicate k 0 \<and> unat (sn_length n) = length s \<and> s \<noteq> [] \<and> length s < 2 ^ 31
     \<and> same_slot (str_hash s) h)"

lemma node_okD:
  assumes "node_ok k h n"
  shows "sn_str n = str_of n @ replicate k 0" "unat (sn_length n) = length (str_of n)" "str_of n \<noteq> []" "length (str_of n) < 2 ^ 31"
    "same_slot (str_hash (str_of n)) h"
  using assms by (auto simp: node_ok_def str_of_def)

text \<open>The links of a node do not matter for its contents.\<close>

lemma node_content_simps [simp]:
  "str_of (n\<lparr>sn_next := p\<rparr>) = str_of n" "str_of (n\<lparr>sn_references := r\<rparr>) = str_of n" "str_of (node_refs f n) = str_of n"
  "node_ok k h (n\<lparr>sn_next := p\<rparr>) = node_ok k h n" "node_ok k h (n\<lparr>sn_references := r\<rparr>) = node_ok k h n"
  "node_ok k h (node_refs f n) = node_ok k h n" "sn_next (node_refs f n) = sn_next n"
  "sn_references (node_refs f n) = f (sn_references n)"
  by (simp_all add: str_of_def node_ok_def node_refs_def)

lemma u32_length: "length s < 2 ^ 31 \<Longrightarrow> unat (of_nat (length s) :: u32) = length s"
  by (simp add: unat_of_nat take_bit_nat_eq_self)

lemma sint_u32_length: "length s < 2 ^ 31 \<Longrightarrow> sint (of_nat (length s) :: u32) = int (length s)"
  using sint_of_int_small [of "int (length s)"] by simp

lemma node_eq_law:
  assumes "node_ok k h n" "length s < 2 ^ 31"
  shows "share_common_node_eq n (s @ rest) (of_nat (length s)) = Some (str_of n = s)"
proof -
  note n = node_okD [OF assms(1)]
  show ?thesis
  proof (cases "sn_length n = of_nat (length s)")
    case True
    then have "length (str_of n) = length s"
      using n(2) u32_length [OF assms(2)] by simp
    with True n(1) show ?thesis
      by (simp add: share_common_node_eq_def mem_read_def u32_length [OF assms(2)] memcmp_eq)
  next
    case False
    moreover have "(of_nat (unat (sn_length n)) :: u32) = sn_length n"
      by simp
    ultimately have "str_of n \<noteq> s"
      using n(2) by auto
    with False show ?thesis
      by (simp add: share_common_node_eq_def)
  qed
qed

lemma find_loop_law:
  assumes "node_seg (share_nodes st) p xs None" "length s < 2 ^ 31"
    and "\<forall>x \<in> set xs. \<exists>n. share_nodes st x = Some n \<and> node_ok k h n"
  shows "(\<exists>as x bs n. xs = as @ x # bs \<and> share_nodes st x = Some n \<and> str_of n = s
            \<and> head_find_loop st (s @ rest) (of_nat (length s)) prev p = Some (Some (last (prev # as), x)))
    \<or> (\<forall>x n. x \<in> set xs \<longrightarrow> share_nodes st x = Some n \<longrightarrow> str_of n \<noteq> s)
        \<and> head_find_loop st (s @ rest) (of_nat (length s)) prev p = Some None"
  using assms(1,3)
proof (induction xs arbitrary: p prev)
  case Nil
  then show ?case by (simp add: head_find_loop.simps)
next
  case (Cons x xs)
  then obtain n where n: "share_nodes st x = Some n" "node_ok k h n" "p = Some x" "node_seg (share_nodes st) (sn_next n) xs None"
    by fastforce
  have step: "head_find_loop st (s @ rest) (of_nat (length s)) prev p =
      (if str_of n = s then Some (Some (prev, x)) else head_find_loop st (s @ rest) (of_nat (length s)) x (sn_next n))"
    using n node_eq_law [OF n(2) assms(2)] by (subst head_find_loop.simps) simp
  show ?case
  proof (cases "str_of n = s")
    case True
    with step n(1) show ?thesis
      by (intro disjI1 exI [of _ "[]"] exI [of _ x] exI [of _ xs] exI [of _ n]) simp
  next
    case False
    have "\<forall>y \<in> set xs. \<exists>m. share_nodes st y = Some m \<and> node_ok k h m"
      using Cons.prems(2) by simp
    from Cons.IH [OF n(4) this, of x] show ?thesis
    proof (elim disjE exE conjE)
      fix as y bs m
      assume "xs = as @ y # bs" "share_nodes st y = Some m" "str_of m = s"
        "head_find_loop st (s @ rest) (of_nat (length s)) x (sn_next n) = Some (Some (last (x # as), y))"
      with step False show ?thesis
        by (intro disjI1 exI [of _ "x # as"] exI [of _ y] exI [of _ bs] exI [of _ m]) simp
    qed (use step False n(1) in auto)
  qed
qed

section \<open>The list of a head\<close>

definition list_ok :: "nat \<Rightarrow> u32 \<Rightarrow> share_nodes \<Rightarrow> nat \<Rightarrow> node_ptr list \<Rightarrow> bool" where
  "list_ok k hash N a xs \<longleftrightarrow>
     distinct xs
     \<and> (\<forall>x \<in> set xs. (\<exists>b. x = Separate b) \<and> (\<exists>n. N x = Some n \<and> sn_references n \<noteq> 0 \<and> node_ok k hash n))
     \<and> (\<exists>n. N (Builtin a) = Some n \<and> node_ok k hash n \<and> (xs = [] \<longrightarrow> sn_references n \<noteq> 0))
     \<and> inj_on (\<lambda>x. map_option str_of (N x)) (insert (Builtin a) (set xs))"

definition share_head_ok :: "nat \<Rightarrow> Eina_Share_Common \<Rightarrow> nat \<Rightarrow> node_ptr list \<Rightarrow> bool" where
  "share_head_ok k st a xs \<longleftrightarrow> (\<exists>h. share_heads st a = Some h
     \<and> node_seg (share_nodes st) (sh_head h) (xs @ [Builtin a]) None \<and> list_ok k (sh_hash h) (share_nodes st) a xs)"

lemma list_ok_nodes: "list_ok k hash N a xs \<Longrightarrow> \<forall>x \<in> set (xs @ [Builtin a]). \<exists>n. N x = Some n \<and> node_ok k hash n"
  by (auto simp: list_ok_def)

lemma list_ok_distinct: "list_ok k hash N a xs \<Longrightarrow> distinct (xs @ [Builtin a])"
  by (auto simp: list_ok_def)

text \<open>Nodes that differ in their links only.\<close>

definition relinked :: "node_ptr set \<Rightarrow> share_nodes \<Rightarrow> share_nodes \<Rightarrow> bool" where
  "relinked S N N' \<longleftrightarrow> (\<forall>p. p \<notin> S \<longrightarrow> N' p = N p)
     \<and> (\<forall>p. map_option (\<lambda>n. n\<lparr>sn_next := None\<rparr>) (N' p) = map_option (\<lambda>n. n\<lparr>sn_next := None\<rparr>) (N p))"

lemma relinkedD:
  assumes "relinked S N N'" "N p = Some n"
  obtains q where "N' p = Some (n\<lparr>sn_next := q\<rparr>)"
proof -
  from assms obtain n' where n': "N' p = Some n'" "n'\<lparr>sn_next := None\<rparr> = n\<lparr>sn_next := None\<rparr>"
    unfolding relinked_def by (metis map_option_eq_Some)
  then have "n' = n\<lparr>sn_next := sn_next n'\<rparr>"
    by (cases n; cases n') simp
  with n'(1) show thesis using that by metis
qed

lemma relinked_str: "relinked S N N' \<Longrightarrow> map_option str_of (N' p) = map_option str_of (N p)"
proof -
  assume r: "relinked S N N'"
  have "str_of n = str_of (n\<lparr>sn_next := None\<rparr>)" for n by simp
  then have "map_option str_of m = map_option str_of (map_option (\<lambda>n. n\<lparr>sn_next := None\<rparr>) m)" for m
    by (cases m) auto
  with r show ?thesis
    unfolding relinked_def by metis
qed

lemma list_ok_relinked:
  assumes "relinked S N N'" "list_ok k hash N a xs" "set ys = set xs" "distinct ys"
  shows "list_ok k hash N' a ys"
proof -
  have "\<exists>n. N' x = Some n \<and> sn_references n \<noteq> 0 \<and> node_ok k hash n" if x: "x \<in> set ys" for x
  proof -
    from x assms(2,3) obtain n where "N x = Some n" "sn_references n \<noteq> 0" "node_ok k hash n"
      by (auto simp: list_ok_def)
    with relinkedD [OF assms(1), of x n] show ?thesis by fastforce
  qed
  moreover have "\<exists>n. N' (Builtin a) = Some n \<and> node_ok k hash n \<and> (ys = [] \<longrightarrow> sn_references n \<noteq> 0)"
  proof -
    obtain n where "N (Builtin a) = Some n" "node_ok k hash n" "xs = [] \<longrightarrow> sn_references n \<noteq> 0"
      using assms(2) by (auto simp: list_ok_def)
    then show ?thesis
      using relinkedD [OF assms(1), of "Builtin a" n] assms(3) by fastforce
  qed
  moreover have "inj_on (\<lambda>x. map_option str_of (N' x)) (insert (Builtin a) (set ys))"
    using assms(2,3) relinked_str [OF assms(1)] by (simp add: list_ok_def)
  ultimately show ?thesis
    using assms(2-4) unfolding list_ok_def by simp
qed

text \<open>Moving a node to the front.\<close>

lemma promote:
  assumes seg: "node_seg N (Some f) (f # as @ x # bs) None" and dist: "distinct (f # as @ x # bs)"
    and N: "N x = Some n" "N y = Some p" and bs: "sn_next n \<noteq> None" and y: "y = last (f # as)"
    and N': "N' = N(y \<mapsto> p\<lparr>sn_next := sn_next n\<rparr>, x \<mapsto> n\<lparr>sn_next := Some f\<rparr>)"
  shows "bs \<noteq> []" "node_seg N' (Some x) (x # f # as @ bs) None" "relinked (set (f # as @ x # bs)) N N'"
proof -
  define cs where "cs = butlast (f # as)"
  have fa: "f # as = cs @ [y]"
    by (simp add: y cs_def)
  have seg2: "node_seg N (Some f) (cs @ [y]) (Some x)" "node_seg N (sn_next n) bs None"
    using seg N(1) node_seg_append [of N "Some f" "f # as" "x # bs" None] by (auto simp: fa [symmetric] simp del: node_seg.simps(2)) auto
  then have seg3: "node_seg N (Some f) cs (Some y)"
    by (auto simp: node_seg_append)
  have d: "distinct (cs @ [y] @ x # bs)"
    using dist fa by (metis append.assoc append_Cons)
  then have "x \<noteq> y" "x \<notin> set cs" "y \<notin> set cs" "x \<notin> set bs" "y \<notin> set bs" by auto
  then have "node_seg N' (Some f) cs (Some y)" "node_seg N' (sn_next n) bs None" "N' y = Some (p\<lparr>sn_next := sn_next n\<rparr>)"
    using seg3 seg2(2) by (simp_all add: N' node_seg_upd)
  then have "node_seg N' (Some f) ((cs @ [y]) @ bs) None"
    by (auto simp: node_seg_append)
  then have "node_seg N' (Some f) (f # as @ bs) None"
    unfolding fa [symmetric] by simp
  then show "node_seg N' (Some x) (x # f # as @ bs) None"
    by (simp add: N' \<open>x \<noteq> y\<close>)
  show "bs \<noteq> []" using seg2(2) bs by auto
  have "y \<in> set (f # as)" unfolding fa by simp
  then show "relinked (set (f # as @ x # bs)) N N'"
    using N by (auto simp: relinked_def N')
qed

text \<open>The search in the list of a head.\<close>

lemma head_find_law:
  assumes ok: "share_head_ok k st a xs" and s: "length s < 2 ^ 31"
  obtains (absent) "share_common_head_find st a (s @ rest) (of_nat (length s)) = Some (st, None)"
      "\<And>x n. x \<in> insert (Builtin a) (set xs) \<Longrightarrow> share_nodes st x = Some n \<Longrightarrow> str_of n \<noteq> s"
  | (present) x n ys N h f where
      "share_common_head_find st a (s @ rest) (of_nat (length s)) =
         Some (st\<lparr>share_nodes := N, share_heads := (share_heads st)(a \<mapsto> h\<lparr>sh_head := f\<rparr>)\<rparr>, Some x)"
      "share_heads st a = Some h" "x \<in> insert (Builtin a) (set xs)" "share_nodes st x = Some n" "str_of n = s"
      "set ys = set xs" "distinct ys" "node_seg N f (ys @ [Builtin a]) None" "relinked (insert (Builtin a) (set xs)) (share_nodes st) N"
proof -
  let ?find = "share_common_head_find st a (s @ rest) (of_nat (length s))"
  obtain h where h: "share_heads st a = Some h" "node_seg (share_nodes st) (sh_head h) (xs @ [Builtin a]) None"
    "list_ok k (sh_hash h) (share_nodes st) a xs"
    using ok by (auto simp: share_head_ok_def)
  have same: "relinked S (share_nodes st) (share_nodes st)" for S
    by (simp add: relinked_def)
  have keep: "st\<lparr>share_heads := (share_heads st)(a \<mapsto> h)\<rparr> = st"
    using h(1) by (simp add: fun_upd_idem)
  obtain f zs where fz: "xs @ [Builtin a] = f # zs"
    by (cases xs) auto
  have in_set: "x \<in> set (f # zs) \<longleftrightarrow> x \<in> insert (Builtin a) (set xs)" for x
    by (auto simp: fz [symmetric])
  have nok: "\<forall>x \<in> set (f # zs). \<exists>n. share_nodes st x = Some n \<and> node_ok k (sh_hash h) n"
    using list_ok_nodes [OF h(3)] fz by simp
  then obtain m where m: "share_nodes st f = Some m" "node_ok k (sh_hash h) m" by auto
  with h(2) fz have sf: "sh_head h = Some f" "node_seg (share_nodes st) (sn_next m) zs None" by auto
  note first = h(1) sf(1) m(1) node_eq_law [OF m(2) s, of rest]
  show thesis
  proof (cases "str_of m = s")
    case True
    with first have "?find = Some (st, Some f)"
      by (simp add: share_common_head_find_def)
    then show thesis
      using present [where N = "share_nodes st" and h = h and f = "sh_head h" and x = f and n = m and ys = xs] True h m(1) in_set [of f] same list_ok_distinct [OF h(3)] by (simp add: keep)
  next
    case False
    have nok': "\<forall>x \<in> set zs. \<exists>n. share_nodes st x = Some n \<and> node_ok k (sh_hash h) n"
      using nok by simp
    from find_loop_law [OF sf(2) s nok', of rest f] show thesis
    proof (elim disjE exE conjE)
      assume none: "\<forall>x n. x \<in> set zs \<longrightarrow> share_nodes st x = Some n \<longrightarrow> str_of n \<noteq> s"
        and loop: "head_find_loop st (s @ rest) (of_nat (length s)) f (sn_next m) = Some None"
      show thesis
      proof (rule absent)
        show "?find = Some (st, None)"
          using first False loop by (simp add: share_common_head_find_def)
        show "str_of n \<noteq> s" if "x \<in> insert (Builtin a) (set xs)" "share_nodes st x = Some n" for x n
          using that none False m(1) unfolding in_set [symmetric] by auto
      qed
    next
      fix as x bs n
      assume zs: "zs = as @ x # bs" and n: "share_nodes st x = Some n" "str_of n = s"
        and loop: "head_find_loop st (s @ rest) (of_nat (length s)) f (sn_next m) = Some (Some (last (f # as), x))"
      have x: "x \<in> insert (Builtin a) (set xs)" using in_set zs by auto
      show thesis
      proof (cases "sn_next n = None")
        case True
        with first False loop n have "?find = Some (st, Some x)"
          by (simp add: share_common_head_find_def)
        then show thesis
          using present [where N = "share_nodes st" and h = h and f = "sh_head h" and x = x and n = n and ys = xs] h n x same list_ok_distinct [OF h(3)] by (simp add: keep)
      next
        case nx: False
        obtain p where p: "share_nodes st (last (f # as)) = Some p"
          using nok zs by (metis append_Cons last_in_set list.distinct(1) UnCI set_append)
        define N where "N = (share_nodes st)(last (f # as) \<mapsto> p\<lparr>sn_next := sn_next n\<rparr>, x \<mapsto> n\<lparr>sn_next := Some f\<rparr>)"
        have "node_seg (share_nodes st) (Some f) (f # as @ x # bs) None" "distinct (f # as @ x # bs)"
          using h(2) sf(1) fz zs list_ok_distinct [OF h(3)] by simp_all
        note pr = promote [OF this n(1) p nx refl N_def]
        obtain cs where cs: "bs = cs @ [Builtin a]"
          using fz zs pr(1) by (cases bs rule: rev_cases) (auto simp flip: append_assoc append_Cons)
        define ys where "ys = x # f # as @ cs"
        have "xs = f # as @ x # cs"
          using fz zs cs by (simp flip: append_assoc append_Cons)
        then have "ys @ [Builtin a] = x # f # as @ bs" "set ys = set xs" "distinct ys"
          using cs list_ok_distinct [OF h(3)] by (auto simp: ys_def)
        moreover have "?find = Some (st\<lparr>share_nodes := N, share_heads := (share_heads st)(a \<mapsto> h\<lparr>sh_head := Some x\<rparr>)\<rparr>, Some x)"
          using first False loop n nx p by (auto simp: share_common_head_find_def N_def)
        moreover have "relinked (insert (Builtin a) (set xs)) (share_nodes st) N"
        proof -
          have "set (f # as @ x # bs) = insert (Builtin a) (set xs)"
            using in_set unfolding zs by blast
          with pr(3) show ?thesis by argo
        qed
        ultimately show thesis
          using present [where N = N and h = h and f = "Some x" and x = x and n = n and ys = ys] h(1) n x pr(2) by simp
      qed
    qed
  qed
qed

section \<open>The invariant\<close>

definition live_of :: "share_nodes \<Rightarrow> node_ptr \<Rightarrow> (u8 list \<times> nat) option" where
  "live_of N p = (case N p of
     Some n \<Rightarrow> if sn_references n = 0 then None else Some (str_of n, unat (sn_references n))
   | None \<Rightarrow> None)"

definition members :: "(nat \<Rightarrow> node_ptr list) \<Rightarrow> nat \<Rightarrow> node_ptr set" where
  "members C a = insert (Builtin a) (set (C a))"

definition share_ok :: "nat \<Rightarrow> Eina_Share_Common \<Rightarrow> (nat \<Rightarrow> node_ptr list) \<Rightarrow> bool" where
  "share_ok k st C \<longleftrightarrow>
     (\<forall>b < EINA_SHARE_COMMON_BUCKETS.
        rb_desc (hcmp (hash_of st)) (\<lambda>a. EINA_SHARE_COMMON_BUCKET_IDX (hash_of st a) = b) (share_buckets st b)
        \<and> set (inorder (share_buckets st b)) = {a \<in> dom (share_heads st). EINA_SHARE_COMMON_BUCKET_IDX (hash_of st a) = b})
     \<and> (\<forall>a \<in> dom (share_heads st). share_head_ok k st a (C a))
     \<and> dom (share_nodes st) = (\<Union>a \<in> dom (share_heads st). members C a)
     \<and> (\<forall>a \<in> dom (share_heads st). \<forall>b \<in> dom (share_heads st). a \<noteq> b \<longrightarrow> set (C a) \<inter> set (C b) = {})"

definition share_inv :: "nat \<Rightarrow> Eina_Share_Common \<Rightarrow> bool" where
  "share_inv k st \<longleftrightarrow> (\<exists>C. share_ok k st C)"

lemma share_okD:
  assumes "share_ok k st C" "a \<in> dom (share_heads st)"
  shows "share_head_ok k st a (C a)" "members C a \<subseteq> dom (share_nodes st)"
    "b \<in> dom (share_heads st) \<Longrightarrow> b \<noteq> a \<Longrightarrow> members C b \<inter> members C a = {}"
proof -
  have ho: "share_head_ok k st a (C a)" if "a \<in> dom (share_heads st)" for a
    using assms that by (simp add: share_ok_def)
  from ho [OF assms(2)] show "share_head_ok k st a (C a)" .
  show "members C a \<subseteq> dom (share_nodes st)"
    using assms by (auto simp: share_ok_def)
  have sep: "\<exists>c. x = Separate c" if "a \<in> dom (share_heads st)" "x \<in> set (C a)" for a x
    using ho [OF that(1)] that(2) by (auto simp: share_head_ok_def list_ok_def)
  show "members C b \<inter> members C a = {}" if b: "b \<in> dom (share_heads st)" "b \<noteq> a"
  proof -
    have "set (C b) \<inter> set (C a) = {}"
      using assms b unfolding share_ok_def by blast
    then show ?thesis
      using sep [OF b(1)] sep [OF assms(2)] b(2) by (fastforce simp: members_def)
  qed
qed

lemma share_ok_find:
  assumes "share_ok k st C"
  shows "share_common_find_hash st (share_buckets st (EINA_SHARE_COMMON_BUCKET_IDX hash)) (EINA_SHARE_COMMON_NODE_HASH hash) = Some a
    \<longleftrightarrow> a \<in> dom (share_heads st) \<and> same_slot (hash_of st a) hash"
proof -
  let ?i = "EINA_SHARE_COMMON_BUCKET_IDX hash"
  have t: "rb_desc (hcmp (hash_of st)) (\<lambda>a. EINA_SHARE_COMMON_BUCKET_IDX (hash_of st a) = ?i) (share_buckets st ?i)"
    "set (inorder (share_buckets st ?i)) = {a \<in> dom (share_heads st). EINA_SHARE_COMMON_BUCKET_IDX (hash_of st a) = ?i}"
    using assms bucket_idx_bound [of hash] by (auto simp: share_ok_def)
  show ?thesis
    unfolding share_common_find_hash_def share_common_cmp_def find_by_hash [OF t(1)] t(2) by (auto simp: same_slot_def)
qed

lemma share_ok_slot:
  assumes "share_ok k st C" "a \<in> dom (share_heads st)" "b \<in> dom (share_heads st)" "same_slot (hash_of st a) (hash_of st b)"
  shows "a = b"
proof -
  have "same_slot (hash_of st b) (hash_of st b)" by (simp add: same_slot_def)
  with assms show ?thesis
    using share_ok_find [OF assms(1), of "hash_of st b" a] share_ok_find [OF assms(1), of "hash_of st b" b] by simp
qed

text \<open>A string that is stored is stored with the head of its hash.\<close>

lemma share_ok_node:
  assumes ok: "share_ok k st C" and n: "share_nodes st p = Some n"
  obtains a where "a \<in> dom (share_heads st)" "p \<in> members C a" "node_ok k (hash_of st a) n"
    "same_slot (hash_of st a) (str_hash (str_of n))"
proof -
  have "p \<in> dom (share_nodes st)" using n by auto
  then obtain a where a: "a \<in> dom (share_heads st)" "p \<in> members C a"
    using ok unfolding share_ok_def by blast
  then obtain h where h: "share_heads st a = Some h" "list_ok k (sh_hash h) (share_nodes st) a (C a)"
    using share_okD(1) [OF ok] by (auto simp: share_head_ok_def)
  then have "node_ok k (hash_of st a) n"
    using list_ok_nodes [OF h(2)] a(2) n by (auto simp: hash_of_def members_def)
  with a that show thesis
    using node_okD(5) by (fastforce simp: same_slot_def)
qed

text \<open>A change that stays within the list of one head.\<close>

lemma share_ok_local:
  assumes ok: "share_ok k st C" and h: "share_heads st a = Some h"
    and ho: "share_head_ok k (st\<lparr>share_nodes := N, share_heads := (share_heads st)(a \<mapsto> h\<lparr>sh_head := f\<rparr>)\<rparr>) a ys"
    and new: "set ys \<inter> dom (share_nodes st) \<subseteq> set (C a)"
    and out: "\<And>p. p \<notin> members C a \<Longrightarrow> p \<notin> set ys \<Longrightarrow> N p = share_nodes st p"
    and gone: "\<And>p. p \<in> set (C a) \<Longrightarrow> p \<notin> set ys \<Longrightarrow> N p = None"
  shows "share_ok k (st\<lparr>share_nodes := N, share_heads := (share_heads st)(a \<mapsto> h\<lparr>sh_head := f\<rparr>)\<rparr>) (C(a := ys))"
proof -
  let ?st = "st\<lparr>share_nodes := N, share_heads := (share_heads st)(a \<mapsto> h\<lparr>sh_head := f\<rparr>)\<rparr>" and ?C = "C(a := ys)"
  have hash: "hash_of ?st = hash_of st"
    using h by (auto simp: hash_of_def fun_eq_iff)
  have dom: "dom (share_heads ?st) = dom (share_heads st)" and a: "a \<in> dom (share_heads st)"
    using h by auto
  have other: "members C b \<inter> (members C a \<union> set ys) = {}" if "b \<in> dom (share_heads st)" "b \<noteq> a" for b
    using share_okD(2) [OF ok that(1)] share_okD(3) [OF ok a that] new by (auto simp: members_def)
  have heads: "share_head_ok k ?st b (?C b)" if b: "b \<in> dom (share_heads st)" for b
  proof (cases "b = a")
    case True
    with ho show ?thesis by simp
  next
    case False
    have same: "N p = share_nodes st p" if "p \<in> members C b" for p
      using other [OF b False] out that by blast
    obtain g where g: "share_heads st b = Some g" "node_seg (share_nodes st) (sh_head g) (C b @ [Builtin b]) None"
      "list_ok k (sh_hash g) (share_nodes st) b (C b)"
      using share_okD(1) [OF ok b] by (auto simp: share_head_ok_def)
    have "node_seg N (sh_head g) (C b @ [Builtin b]) None"
      using g(2) same by (subst node_seg_cong [where N = "share_nodes st"]) (auto simp: members_def)
    moreover have "list_ok k (sh_hash g) N b (C b)"
      using g(3) same inj_on_cong [of "insert (Builtin b) (set (C b))" "\<lambda>x. map_option str_of (N x)" "\<lambda>x. map_option str_of (share_nodes st x)"]
      by (simp add: list_ok_def members_def)
    ultimately show ?thesis
      using False g(1) by (simp add: share_head_ok_def)
  qed
  moreover have "dom N = (\<Union>b \<in> dom (share_heads st). members ?C b)"
  proof (rule set_eqI)
    fix p
    have built: "N (Builtin a) \<noteq> None" and ys: "p \<in> set ys \<Longrightarrow> N p \<noteq> None"
      using ho by (auto simp: share_head_ok_def list_ok_def)
    have sd: "p \<in> dom (share_nodes st) \<longleftrightarrow> (\<exists>b \<in> dom (share_heads st). p \<in> members C b)"
      using ok by (auto simp: share_ok_def)
    have split: "p \<in> (\<Union>b \<in> dom (share_heads st). members ?C b) \<longleftrightarrow>
        p = Builtin a \<or> p \<in> set ys \<or> (\<exists>b \<in> dom (share_heads st). b \<noteq> a \<and> p \<in> members C b)"
      using a by (auto simp: members_def split: if_splits)
    show "p \<in> dom N \<longleftrightarrow> p \<in> (\<Union>b \<in> dom (share_heads st). members ?C b)"
    proof (cases "p \<in> members C a \<or> p \<in> set ys")
      case True
      have "\<not> (\<exists>b \<in> dom (share_heads st). b \<noteq> a \<and> p \<in> members C b)"
        using True other by blast
      with True show ?thesis
        unfolding split using built ys gone by (auto simp: members_def)
    next
      case False
      then have "p \<in> dom N \<longleftrightarrow> (\<exists>b \<in> dom (share_heads st). p \<in> members C b)"
        using sd out [of p] by (simp add: domIff)
      with False show ?thesis
        unfolding split by (auto simp: members_def)
    qed
  qed
  moreover have "set (?C b) \<inter> set (?C c) = {}" if "b \<in> dom (share_heads st)" "c \<in> dom (share_heads st)" "b \<noteq> c" for b c
    using other [of b] other [of c] share_okD(3) [OF ok that(2,1)] that by (auto simp: members_def)
  ultimately show ?thesis
    using ok unfolding share_ok_def hash dom by simp
qed

end
