(* ===== verification/Eina_Share_Ops.thy ===== *)
theory Eina_Share_Ops
  imports Eina_Share_Laws
begin

text \<open>
  Each operation on the shared strings keeps the invariant and does to the strings and
  their references what the specification says.
\<close>

section \<open>References\<close>

lemma live_relinked: "relinked S N N' \<Longrightarrow> live_of N' = live_of N"
proof (rule ext)
  fix p assume r: "relinked S N N'"
  show "live_of N' p = live_of N p"
  proof (cases "N p")
    case None
    then have "N' p = None"
      using r unfolding relinked_def by (metis map_option_is_None)
    with None show ?thesis by (simp add: live_of_def)
  next
    case (Some n)
    with relinkedD [OF r Some] show ?thesis by (fastforce simp: live_of_def)
  qed
qed

lemma live_refs:
  "N p = Some n \<Longrightarrow> live_of (N(p \<mapsto> node_refs f n)) =
     (live_of N)(p := if f (sn_references n) = 0 then None else Some (str_of n, unat (f (sn_references n))))"
  by (auto simp: live_of_def fun_eq_iff)

lemma live_gone: "live_of (N(p := None)) = (live_of N)(p := None)"
  by (auto simp: live_of_def fun_eq_iff)

lemma live_SomeD:
  assumes "live_of N p = Some (s, m)"
  obtains n where "N p = Some n" "str_of n = s" "m = unat (sn_references n)" "sn_references n \<noteq> 0"
  using assms by (auto simp: live_of_def split: option.splits if_splits)

lemma list_ok_refs:
  assumes "list_ok k hash N a xs" "N p = Some n" "p \<in> set xs \<or> xs = [] \<Longrightarrow> f (sn_references n) \<noteq> 0"
  shows "list_ok k hash (N(p \<mapsto> node_refs f n)) a xs"
proof -
  have "map_option str_of ((N(p \<mapsto> node_refs f n)) x) = map_option str_of (N x)" for x
    using assms(2) by simp
  then show ?thesis
    using assms unfolding list_ok_def by auto
qed

lemma share_ok_refs:
  assumes ok: "share_ok k st C" and a: "a \<in> dom (share_heads st)" and n: "share_nodes st p = Some n" "p \<in> members C a"
    and f: "p \<in> set (C a) \<or> C a = [] \<Longrightarrow> f (sn_references n) \<noteq> 0"
  shows "share_ok k (st\<lparr>share_nodes := (share_nodes st)(p \<mapsto> node_refs f n)\<rparr>) C"
proof -
  obtain h where h: "share_heads st a = Some h" "node_seg (share_nodes st) (sh_head h) (C a @ [Builtin a]) None"
    "list_ok k (sh_hash h) (share_nodes st) a (C a)"
    using share_okD(1) [OF ok a] by (auto simp: share_head_ok_def)
  let ?N = "(share_nodes st)(p \<mapsto> node_refs f n)"
  have st: "st\<lparr>share_nodes := ?N, share_heads := (share_heads st)(a \<mapsto> h\<lparr>sh_head := sh_head h\<rparr>)\<rparr> = st\<lparr>share_nodes := ?N\<rparr>"
    using h(1) by (simp add: fun_upd_idem)
  have "node_seg ?N (sh_head h) (C a @ [Builtin a]) None"
    using h(2) n(1) by (subst node_seg_cong [where N = "share_nodes st"]) auto
  moreover have "list_ok k (sh_hash h) ?N a (C a)"
    using list_ok_refs [where f = f, OF h(3) n(1)] f by blast
  ultimately have "share_head_ok k (st\<lparr>share_nodes := ?N\<rparr>) a (C a)"
    using h(1) by (simp add: share_head_ok_def)
  then have "share_ok k (st\<lparr>share_nodes := ?N\<rparr>) (C(a := C a))"
    by (intro share_ok_local [OF ok h(1), where N = ?N and f = "sh_head h" and ys = "C a", unfolded st]) (use n(2) in auto)
  then show ?thesis by simp
qed

section \<open>Heads\<close>

lemma hash_of_upd: "hash_of (st\<lparr>share_heads := (share_heads st)(a \<mapsto> h)\<rparr>) = (hash_of st)(a := sh_hash h)"
  by (auto simp: hash_of_def fun_eq_iff)

lemma hash_of_cong [simp]:
  "hash_of (st\<lparr>share_nodes := N\<rparr>) = hash_of st" "hash_of (st\<lparr>share_buckets := B\<rparr>) = hash_of st"
  by (simp_all add: hash_of_def fun_eq_iff)

lemma share_ok_tree:
  assumes "share_ok k st C" "b < EINA_SHARE_COMMON_BUCKETS"
  shows "rb_desc (hcmp (hash_of st)) (\<lambda>a. EINA_SHARE_COMMON_BUCKET_IDX (hash_of st a) = b) (share_buckets st b)"
    "set (inorder (share_buckets st b)) = {a \<in> dom (share_heads st). EINA_SHARE_COMMON_BUCKET_IDX (hash_of st a) = b}"
  using assms by (simp_all add: share_ok_def)

lemma share_head_ok_cong:
  assumes "share_head_ok k st a xs" "share_heads st' a = share_heads st a"
    "\<And>p. p \<in> insert (Builtin a) (set xs) \<Longrightarrow> share_nodes st' p = share_nodes st p"
  shows "share_head_ok k st' a xs"
proof -
  obtain h where h: "share_heads st a = Some h" "node_seg (share_nodes st) (sh_head h) (xs @ [Builtin a]) None"
    "list_ok k (sh_hash h) (share_nodes st) a xs"
    using assms(1) by (auto simp: share_head_ok_def)
  have "node_seg (share_nodes st') (sh_head h) (xs @ [Builtin a]) None"
    using h(2) assms(3) by (subst node_seg_cong [where N = "share_nodes st"]) auto
  moreover have "list_ok k (sh_hash h) (share_nodes st') a xs"
    using h(3) assms(3) inj_on_cong [of "insert (Builtin a) (set xs)" "\<lambda>x. map_option str_of (share_nodes st' x)" "\<lambda>x. map_option str_of (share_nodes st x)"]
    by (simp add: list_ok_def)
  ultimately show ?thesis
    using h(1) assms(2) by (simp add: share_head_ok_def)
qed

lemma not_builtin:
  assumes "share_ok k st C" "a \<notin> dom (share_heads st)"
  shows "share_nodes st (Builtin a) = None"
proof (rule ccontr)
  assume "share_nodes st (Builtin a) \<noteq> None"
  then obtain n where "share_nodes st (Builtin a) = Some n" by auto
  then obtain b where b: "b \<in> dom (share_heads st)" "Builtin a \<in> members C b"
    by (rule share_ok_node [OF assms(1)])
  with assms(2) have "Builtin a \<in> set (C b)" by (auto simp: members_def)
  with share_okD(1) [OF assms(1) b(1)] show False by (auto simp: share_head_ok_def list_ok_def)
qed

lemma share_ok_new_head:
  assumes ok: "share_ok k st C" and a: "share_heads st a = None"
    and slot: "\<And>b. b \<in> dom (share_heads st) \<Longrightarrow> \<not> same_slot (hash_of st b) hash"
    and n: "node_ok k hash n" "sn_references n \<noteq> 0" "sn_next n = None"
    and i: "i = EINA_SHARE_COMMON_BUCKET_IDX hash"
    and st1: "st1 = st\<lparr>share_heads := (share_heads st)(a \<mapsto> \<lparr>sh_hash = hash, sh_head = Some (Builtin a)\<rparr>),
                       share_nodes := (share_nodes st)(Builtin a \<mapsto> n)\<rparr>"
    and st2: "st2 = st1\<lparr>share_buckets := (share_buckets st1)(i := rbtree_insert (share_buckets st1 i) a (share_common_node st1))\<rparr>"
  shows "share_ok k st2 (C(a := []))"
proof -
  have hash: "hash_of st1 = (hash_of st)(a := hash)" "hash_of st2 = (hash_of st)(a := hash)"
    by (auto simp: st2 st1 hash_of_def fun_eq_iff)
  have bk: "share_buckets st1 = share_buckets st" "share_buckets st2 = (share_buckets st)(i := rbtree_insert (share_buckets st i) a (share_common_node st1))"
    by (simp_all add: st1 st2)
  have dom: "dom (share_heads st2) = insert a (dom (share_heads st))"
    by (auto simp: st1 st2)
  have old: "a \<notin> set (inorder (share_buckets st b))" if "b < EINA_SHARE_COMMON_BUCKETS" for b
    using share_ok_tree(2) [OF ok that] a by auto
  have tree: "rb_desc (hcmp ((hash_of st)(a := hash))) (\<lambda>x. EINA_SHARE_COMMON_BUCKET_IDX (((hash_of st)(a := hash)) x) = b) (share_buckets st b)"
    if "b < EINA_SHARE_COMMON_BUCKETS" for b
    by (rule rb_desc_cong [OF _ _ share_ok_tree(1) [OF ok that]]) (use old [OF that] in auto)
  have ib: "i < EINA_SHARE_COMMON_BUCKETS"
    by (simp add: i bucket_idx_bound)
  have ne: "\<forall>y \<in> set (inorder (share_buckets st i)). hcmp ((hash_of st)(a := hash)) y a \<noteq> 0"
  proof
    fix y assume "y \<in> set (inorder (share_buckets st i))"
    then have y: "y \<in> dom (share_heads st)" "EINA_SHARE_COMMON_BUCKET_IDX (hash_of st y) = i" "y \<noteq> a"
      using share_ok_tree(2) [OF ok ib] old [OF ib] by auto
    then have "EINA_SHARE_COMMON_NODE_HASH (hash_of st y) \<noteq> EINA_SHARE_COMMON_NODE_HASH hash"
      using slot [OF y(1)] i by (auto simp: same_slot_def)
    then show "hcmp ((hash_of st)(a := hash)) y a \<noteq> 0"
      using y(3) signed_word_eqI by (auto simp: hcmp_def)
  qed
  have key: "EINA_SHARE_COMMON_BUCKET_IDX (((hash_of st)(a := hash)) a) = i" by (simp add: i)
  note ins = hc.desc_insert [OF tree [OF ib] key ne]
  have trees: "rb_desc (hcmp (hash_of st2)) (\<lambda>x. EINA_SHARE_COMMON_BUCKET_IDX (hash_of st2 x) = b) (share_buckets st2 b)
      \<and> set (inorder (share_buckets st2 b)) = {x \<in> dom (share_heads st2). EINA_SHARE_COMMON_BUCKET_IDX (hash_of st2 x) = b}"
    if b: "b < EINA_SHARE_COMMON_BUCKETS" for b
  proof (cases "b = i")
    case True
    with ins(1,2) show ?thesis
      using share_ok_tree(2) [OF ok ib] a by (auto simp: bk hash dom share_common_node_eq_dcmp key i)
  next
    case False
    with tree [OF b] show ?thesis
      using share_ok_tree(2) [OF ok b] a by (auto simp: bk hash dom i)
  qed
  have heads: "share_head_ok k st2 b ((C(a := [])) b)" if b: "b \<in> dom (share_heads st2)" for b
  proof (cases "b = a")
    case True
    with n show ?thesis by (simp add: share_head_ok_def list_ok_def st2 st1)
  next
    case False
    with b dom have b': "b \<in> dom (share_heads st)" by simp
    have "Builtin a \<notin> members C b"
      using not_builtin [OF ok] a share_okD(2) [OF ok b'] by (auto simp: domIff)
    then have "share_head_ok k st2 b (C b)"
      by (intro share_head_ok_cong [OF share_okD(1) [OF ok b'], of st2]) (use False in \<open>auto simp: st2 st1 members_def\<close>)
    with False show ?thesis by simp
  qed
  have mem: "members (C(a := [])) a = {Builtin a}" "b \<noteq> a \<Longrightarrow> members (C(a := [])) b = members C b" for b
    by (simp_all add: members_def)
  have "dom (share_nodes st2) = insert (Builtin a) (\<Union>b \<in> dom (share_heads st). members C b)"
    using ok by (auto simp: st2 st1 share_ok_def)
  also have "\<dots> = (\<Union>b \<in> dom (share_heads st2). members (C(a := [])) b)"
  proof -
    have "(\<Union>b \<in> dom (share_heads st). members (C(a := [])) b) = (\<Union>b \<in> dom (share_heads st). members C b)"
      by (rule SUP_cong) (metis a domIff mem(2))+
    with mem(1) show ?thesis unfolding dom by simp
  qed
  finally have nodes: "dom (share_nodes st2) = (\<Union>b \<in> dom (share_heads st2). members (C(a := [])) b)" .
  have "set ((C(a := [])) b) \<inter> set ((C(a := [])) c) = {}" if "b \<in> dom (share_heads st2)" "c \<in> dom (share_heads st2)" "b \<noteq> c" for b c
    using share_okD(3) [OF ok, of c b] that dom by (auto simp: members_def)
  with trees heads nodes show ?thesis
    unfolding share_ok_def by blast
qed

lemma share_ok_del_head:
  assumes ok: "share_ok k st C" and a: "a \<in> dom (share_heads st)" "C a = []"
  shows "share_ok k (share_common_del_head st a) C"
proof -
  let ?st = "share_common_del_head st a" and ?i = "EINA_SHARE_COMMON_BUCKET_IDX (hash_of st a)"
  have fs: "share_heads ?st = (share_heads st)(a := None)" "share_nodes ?st = (share_nodes st)(Builtin a := None)"
    "share_buckets ?st = (share_buckets st)(?i := rbtree_remove (share_buckets st ?i) a (share_common_node st))"
    by (simp_all add: share_common_del_head_def Let_def)
  have dom: "dom (share_heads ?st) = dom (share_heads st) - {a}"
    by (auto simp: fs)
  have hash: "hash_of ?st x = hash_of st x" if "x \<noteq> a" for x
    using that by (simp add: hash_of_def fs)
  have ib: "?i < EINA_SHARE_COMMON_BUCKETS" by (rule bucket_idx_bound)
  have "a \<in> set (inorder (share_buckets st ?i))"
    using share_ok_tree(2) [OF ok ib] a by simp
  note rem = hc.desc_remove [OF share_ok_tree(1) [OF ok ib] this]
  have trees: "rb_desc (hcmp (hash_of ?st)) (\<lambda>x. EINA_SHARE_COMMON_BUCKET_IDX (hash_of ?st x) = b) (share_buckets ?st b)
      \<and> set (inorder (share_buckets ?st b)) = {x \<in> dom (share_heads ?st). EINA_SHARE_COMMON_BUCKET_IDX (hash_of ?st x) = b}"
    if b: "b < EINA_SHARE_COMMON_BUCKETS" for b
  proof
    have in_b: "set (inorder (share_buckets ?st b)) = set (inorder (share_buckets st b)) - {a}"
      using rem(2) share_ok_tree(2) [OF ok b] by (auto simp: fs share_common_node_eq_dcmp)
    have "rb_desc (hcmp (hash_of st)) (\<lambda>x. EINA_SHARE_COMMON_BUCKET_IDX (hash_of st x) = b) (share_buckets ?st b)"
      using rem(1) share_ok_tree(1) [OF ok b] by (auto simp: fs share_common_node_eq_dcmp)
    then show "rb_desc (hcmp (hash_of ?st)) (\<lambda>x. EINA_SHARE_COMMON_BUCKET_IDX (hash_of ?st x) = b) (share_buckets ?st b)"
      by (rule rb_desc_cong [rotated 2]) (use in_b hash in auto)
    show "set (inorder (share_buckets ?st b)) = {x \<in> dom (share_heads ?st). EINA_SHARE_COMMON_BUCKET_IDX (hash_of ?st x) = b}"
      unfolding in_b share_ok_tree(2) [OF ok b] dom using hash by auto
  qed
  have apart: "Builtin a \<notin> members C b" if "b \<in> dom (share_heads st)" "b \<noteq> a" for b
    using share_okD(3) [OF ok a(1) that] by (auto simp: members_def)
  have heads: "share_head_ok k ?st b (C b)" if b: "b \<in> dom (share_heads ?st)" for b
    by (rule share_head_ok_cong [OF share_okD(1) [OF ok]]) (use b dom apart [of b] in \<open>auto simp: fs members_def\<close>)
  have "dom (share_nodes ?st) = (\<Union>b \<in> dom (share_heads st). members C b) - {Builtin a}"
    using ok by (auto simp: fs share_ok_def)
  also have "\<dots> = (\<Union>b \<in> dom (share_heads ?st). members C b)"
    using apart a(2) unfolding dom by (auto simp: members_def)
  finally have nodes: "dom (share_nodes ?st) = (\<Union>b \<in> dom (share_heads ?st). members C b)" .
  have "set (C b) \<inter> set (C c) = {}" if "b \<in> dom (share_heads ?st)" "c \<in> dom (share_heads ?st)" "b \<noteq> c" for b c
    using share_okD(3) [OF ok, of c b] that dom by (auto simp: members_def)
  with trees heads nodes show ?thesis
    unfolding share_ok_def by blast
qed

section \<open>Adding\<close>

definition share_live :: "Eina_Share_Common \<Rightarrow> node_ptr shared" where
  "share_live st = live_of (share_nodes st)"

definition alloc_fresh :: "share_alloc \<Rightarrow> Eina_Share_Common \<Rightarrow> bool" where
  "alloc_fresh al st \<longleftrightarrow> (\<forall>a. head_mem al = Some a \<longrightarrow> share_heads st a = None)
     \<and> (\<forall>a. node_mem al = Some a \<longrightarrow> share_nodes st (Separate a) = None)"

definition share_str_ok :: "u8 list \<Rightarrow> bool" where
  "share_str_ok s \<longleftrightarrow> s \<noteq> [] \<and> length s < 2 ^ 31"

lemma node_init_law:
  assumes "share_str_ok s" "same_slot (str_hash s) hash"
  obtains n where "share_common_node_init (s @ rest) (of_nat (length s)) k q = Some n" "sn_next n = q" "sn_references n = 1"
    "str_of n = s" "node_ok k hash n"
proof -
  let ?n = "\<lparr>sn_next = q, sn_length = of_nat (length s) :: u32, sn_references = 1, sn_str = s @ replicate k 0\<rparr>"
  have l: "length s < 2 ^ 31" "s \<noteq> []" using assms(1) by (simp_all add: share_str_ok_def)
  have "share_common_node_init (s @ rest) (of_nat (length s)) k q = Some ?n"
    by (simp add: share_common_node_init_def sint_u32_length [OF l(1)] u32_length [OF l(1)] mem_read_def)
  then show thesis
    using that [of ?n] assms(2) l by (auto simp: str_of_def node_ok_def u32_length)
qed

text \<open>A string that is live is among the nodes of the head of its hash.\<close>

lemma unsharedI:
  assumes ok: "share_ok k st C"
    and none: "\<And>a x n. a \<in> dom (share_heads st) \<Longrightarrow> same_slot (hash_of st a) (str_hash s) \<Longrightarrow> x \<in> members C a \<Longrightarrow>
       share_nodes st x = Some n \<Longrightarrow> sn_references n \<noteq> 0 \<Longrightarrow> str_of n \<noteq> s"
  shows "unshared (share_live st) s"
  unfolding unshared_def share_live_def
proof (intro allI notI)
  fix p m assume "live_of (share_nodes st) p = Some (s, m)"
  then obtain n where n: "share_nodes st p = Some n" "str_of n = s" "sn_references n \<noteq> 0"
    by (rule live_SomeD)
  then obtain a where "a \<in> dom (share_heads st)" "p \<in> members C a" "same_slot (hash_of st a) (str_hash (str_of n))"
    using share_ok_node [OF ok n(1)] by blast
  with none n show False by blast
qed

lemma add_head_law:
  assumes ok: "share_ok k st C" and s: "share_str_ok s" and al: "alloc_fresh al st"
    and none: "\<And>a. a \<in> dom (share_heads st) \<Longrightarrow> \<not> same_slot (hash_of st a) (str_hash s)"
  obtains st' r where "share_common_add_head al st (str_hash s) (s @ rest) (of_nat (length s)) k = Some (st', r)" "share_inv k st'"
    "share_spec (share_live st) (Share c s) (Pointer r) (share_live st')"
proof -
  have un: "unshared (share_live st) s"
    by (rule unsharedI [OF ok]) (use none in blast)
  show thesis
  proof (cases "share_common_head_alloc al (of_nat (length s) + of_nat k)")
    case None
    then have "share_common_add_head al st (str_hash s) (s @ rest) (of_nat (length s)) k = Some (st, None)"
      by (simp add: share_common_add_head_def)
    then show thesis
      using that ok un by (auto simp: share_inv_def intro: share_spec.refused)
  next
    case (Some a)
    then have a: "share_heads st a = None"
      using al by (auto simp: share_common_head_alloc_def alloc_fresh_def split: if_splits)
    obtain n where n: "share_common_node_init (s @ rest) (of_nat (length s)) k None = Some n" "sn_next n = None" "sn_references n = 1"
      "str_of n = s" "node_ok k (str_hash s) n"
      by (rule node_init_law [OF s]) (simp_all add: same_slot_def)
    obtain st2 where st2: "share_common_add_head al st (str_hash s) (s @ rest) (of_nat (length s)) k = Some (st2, Some (Builtin a))"
      "share_ok k st2 (C(a := []))" "share_nodes st2 = (share_nodes st)(Builtin a \<mapsto> n)"
      using share_ok_new_head [OF ok a none n(5) _ n(2) refl refl refl] Some n by (simp add: share_common_add_head_def Let_def)
    have b: "share_nodes st (Builtin a) = None"
      by (rule not_builtin [OF ok]) (simp add: a domIff)
    then have free: "share_live st (Builtin a) = None" by (simp add: share_live_def live_of_def)
    have "share_live st2 = (share_live st)(Builtin a \<mapsto> (s, 1))"
      using n b by (auto simp: share_live_def st2(3) live_of_def fun_eq_iff)
    then show thesis
      using that [OF st2(1)] st2(2) share_spec.stored [OF un free, of c] by (auto simp: share_inv_def)
  qed
qed

text \<open>A reference to a stored node, which may be a built-in node without references.\<close>

lemma bump_law:
  assumes ok: "share_ok k st C" and n: "share_nodes st x = Some n" "str_of n = s"
    and lt: "\<And>p m. share_live st p = Some (s, m) \<Longrightarrow> m + 1 < 2 ^ 32"
    and un: "sn_references n = 0 \<Longrightarrow> unshared (share_live st) s"
    and st': "st' = st\<lparr>share_nodes := (share_nodes st)(x \<mapsto> node_refs (\<lambda>r. r + 1) n)\<rparr>"
  shows "share_inv k st'" "share_spec (share_live st) (Share c s) (Pointer (Some x)) (share_live st')"
    "sn_references n \<noteq> 0 \<Longrightarrow> share_spec (share_live st) (Take c x) (Pointer (Some x)) (share_live st')"
proof -
  obtain a where a: "a \<in> dom (share_heads st)" "x \<in> members C a"
    using share_ok_node [OF ok n(1)] by blast
  have small: "unat (sn_references n) + 1 < 2 ^ 32"
  proof (cases "sn_references n = 0")
    case False
    with n have "share_live st x = Some (s, unat (sn_references n))"
      by (simp add: share_live_def live_of_def)
    with lt show ?thesis by blast
  qed simp
  then have inc: "unat (sn_references n + 1) = unat (sn_references n) + 1"
    using unat_Suc_less [of "sn_references n"] by simp
  then have pos: "sn_references n + 1 \<noteq> 0" by auto
  have "share_ok k st' C"
    unfolding st' by (rule share_ok_refs [OF ok a(1) n(1) a(2)]) (rule pos)
  then show "share_inv k st'" by (auto simp: share_inv_def)
  have live: "share_live st' = (share_live st)(x \<mapsto> (s, unat (sn_references n) + 1))"
    using live_refs [of "share_nodes st" x n "\<lambda>r. r + 1"] n pos inc by (simp add: share_live_def st')
  show "share_spec (share_live st) (Share c s) (Pointer (Some x)) (share_live st')"
  proof (cases "sn_references n = 0")
    case True
    with n have "share_live st x = None" by (simp add: share_live_def live_of_def)
    from share_spec.stored [OF un [OF True] this] show ?thesis
      unfolding live using True by simp
  next
    case False
    with n have "share_live st x = Some (s, unat (sn_references n))"
      by (simp add: share_live_def live_of_def)
    from share_spec.found [of "share_live st", OF this] show ?thesis unfolding live .
  qed
  show "share_spec (share_live st) (Take c x) (Pointer (Some x)) (share_live st')" if "sn_references n \<noteq> 0"
  proof -
    from that n have "share_live st x = Some (s, unat (sn_references n))"
      by (simp add: share_live_def live_of_def)
    from share_spec.taken [of "share_live st", OF this] show ?thesis unfolding live .
  qed
qed

text \<open>Among the nodes of a head a string occurs once.\<close>

lemma share_ok_inj:
  assumes "share_ok k st C" "a \<in> dom (share_heads st)" "x \<in> members C a" "y \<in> members C a"
    "share_nodes st x = Some n" "share_nodes st y = Some m" "str_of n = str_of m"
  shows "x = y"
proof -
  have "inj_on (\<lambda>x. map_option str_of (share_nodes st x)) (members C a)"
    using share_okD(1) [OF assms(1,2)] by (auto simp: share_head_ok_def list_ok_def members_def)
  from inj_onD [OF this, of x y] assms(3-7) show ?thesis by simp
qed

lemma list_ok_cons:
  assumes l: "list_ok k hash N a xs" and b: "Separate b \<notin> set xs" and n: "node_ok k hash n" "sn_references n \<noteq> 0"
    and new: "\<And>x m. x \<in> insert (Builtin a) (set xs) \<Longrightarrow> N x = Some m \<Longrightarrow> str_of m \<noteq> str_of n"
  shows "list_ok k hash (N(Separate b \<mapsto> n)) a (Separate b # xs)"
proof -
  let ?N = "N(Separate b \<mapsto> n)" and ?M = "insert (Builtin a) (set xs)"
  have out: "Separate b \<notin> ?M" using b by simp
  then have same: "?N x = N x" if "x \<in> ?M" for x using that by auto
  have "inj_on (\<lambda>x. map_option str_of (N x)) ?M" using l by (simp only: list_ok_def)
  then have "inj_on (\<lambda>x. map_option str_of (?N x)) ?M"
    by (subst inj_on_cong [of ?M "\<lambda>x. map_option str_of (?N x)" "\<lambda>x. map_option str_of (N x)"]) (simp_all only: same)
  moreover have "map_option str_of (?N (Separate b)) \<notin> (\<lambda>x. map_option str_of (?N x)) ` (?M - {Separate b})"
  proof
    assume "map_option str_of (?N (Separate b)) \<in> (\<lambda>x. map_option str_of (?N x)) ` (?M - {Separate b})"
    then obtain x where "x \<in> ?M" "Some (str_of n) = map_option str_of (N x)" using same by auto
    with new [of x] show False by (cases "N x") auto
  qed
  ultimately have "inj_on (\<lambda>x. map_option str_of (?N x)) (insert (Separate b) ?M)"
    by (simp only: inj_on_insert) simp
  then have "inj_on (\<lambda>x. map_option str_of (?N x)) (insert (Builtin a) (set (Separate b # xs)))"
    by (simp only: insert_commute list.set)
  with l b n show ?thesis
    unfolding list_ok_def by auto
qed

lemma add_law:
  assumes inv: "share_inv k st" and s: "share_str_ok s" and al: "alloc_fresh al st"
    and lt: "\<And>p m. share_live st p = Some (s, m) \<Longrightarrow> m + 1 < 2 ^ 32"
  obtains st' r where "eina_share_common_add_length al st (Some (s @ rest)) (of_nat (length s)) k = Some (st', r)" "share_inv k st'"
    "share_spec (share_live st) (Share c s) (Pointer r) (share_live st')"
proof -
  obtain C where ok: "share_ok k st C" using inv by (auto simp: share_inv_def)
  have l: "length s < 2 ^ 31" "s \<noteq> []" using s by (simp_all add: share_str_ok_def)
  then have nz: "(of_nat (length s) :: u32) \<noteq> 0" using u32_length [OF l(1)] by (metis length_0_conv unat_0)
  let ?find = "share_common_find_hash st (share_buckets st (EINA_SHARE_COMMON_BUCKET_IDX (str_hash s))) (EINA_SHARE_COMMON_NODE_HASH (str_hash s))"
  note start = nz mem_read_def u32_length [OF l(1)] sint_u32_length [OF l(1)] str_hash_def [symmetric]
  show thesis
  proof (cases ?find)
    case None
    then have "\<And>a. a \<in> dom (share_heads st) \<Longrightarrow> \<not> same_slot (hash_of st a) (str_hash s)"
      using share_ok_find [OF ok, of "str_hash s"] by auto
    from add_head_law [OF ok s al this, of rest c] that show thesis
      using None by (auto simp: eina_share_common_add_length_def start Let_def)
  next
    case (Some a)
    then have a: "a \<in> dom (share_heads st)" "same_slot (hash_of st a) (str_hash s)"
      using share_ok_find [OF ok, of "str_hash s"] by auto
    have only: "b = a" if "b \<in> dom (share_heads st)" "same_slot (hash_of st b) (str_hash s)" for b
      using share_ok_slot [OF ok that(1) a(1)] a(2) that(2) by (simp add: same_slot_def)
    show thesis
    proof (cases rule: head_find_law [OF share_okD(1) [OF ok a(1)] l(1), of rest, case_names absent present])
      case absent
      have un: "unshared (share_live st) s"
        by (rule unsharedI [OF ok]) (use absent(2) only in \<open>auto simp: members_def\<close>)
      show thesis
      proof (cases "node_mem al")
        case None
        then have "eina_share_common_add_length al st (Some (s @ rest)) (of_nat (length s)) k = Some (st, None)"
          using Some absent(1) by (simp add: eina_share_common_add_length_def start Let_def)
        then show thesis
          using that inv un by (auto intro: share_spec.refused)
      next
        case new: (Some b)
        then have fresh: "share_nodes st (Separate b) = None" using al by (simp add: alloc_fresh_def)
        obtain h where h: "share_heads st a = Some h" "node_seg (share_nodes st) (sh_head h) (C a @ [Builtin a]) None"
          "list_ok k (sh_hash h) (share_nodes st) a (C a)"
          using share_okD(1) [OF ok a(1)] by (auto simp: share_head_ok_def)
        have "same_slot (str_hash s) (sh_hash h)" using a(2) h(1) by (simp add: hash_of_def same_slot_def)
        from node_init_law [OF s this] obtain n where n: "share_common_node_init (s @ rest) (of_nat (length s)) k (sh_head h) = Some n"
          "sn_next n = sh_head h" "sn_references n = 1" "str_of n = s" "node_ok k (sh_hash h) n" .
        let ?N = "(share_nodes st)(Separate b \<mapsto> n)" and ?ys = "Separate b # C a"
        let ?st = "st\<lparr>share_nodes := ?N, share_heads := (share_heads st)(a \<mapsto> h\<lparr>sh_head := Some (Separate b)\<rparr>)\<rparr>"
        have r: "eina_share_common_add_length al st (Some (s @ rest)) (of_nat (length s)) k = Some (?st, Some (Separate b))"
          using Some absent(1) new h(1) n(1) by (simp add: eina_share_common_add_length_def start Let_def)
        have out: "Separate b \<notin> members C a"
          using share_okD(2) [OF ok a(1)] fresh by auto
        have "list_ok k (sh_hash h) ?N a ?ys"
          by (rule list_ok_cons [OF h(3) _ n(5)]) (use out n(3,4) absent(2) in \<open>auto simp: members_def\<close>)
        moreover have "node_seg ?N (Some (Separate b)) (?ys @ [Builtin a]) None"
          using h(2) n(2) out by (simp add: node_seg_upd members_def)
        ultimately have "share_head_ok k ?st a ?ys" by (simp add: share_head_ok_def)
        then have "share_ok k ?st (C(a := ?ys))"
          by (rule share_ok_local [OF ok h(1)]) (use fresh in auto)
        then have inv': "share_inv k ?st" by (auto simp: share_inv_def)
        have "share_live ?st = (share_live st)(Separate b \<mapsto> (s, 1))"
          using n(3,4) by (auto simp: share_live_def live_of_def fun_eq_iff)
        moreover have "share_live st (Separate b) = None"
          using fresh by (simp add: share_live_def live_of_def)
        ultimately show thesis
          using that [OF r inv'] share_spec.stored [OF un, of "Separate b" c] by simp
      qed
    next
      case (present x n ys N h f)
      let ?st = "st\<lparr>share_nodes := N, share_heads := (share_heads st)(a \<mapsto> h\<lparr>sh_head := f\<rparr>)\<rparr>"
      have "list_ok k (sh_hash h) (share_nodes st) a (C a)"
        using share_okD(1) [OF ok a(1)] present(2) by (auto simp: share_head_ok_def)
      from list_ok_relinked [OF present(9) this present(6,7)] have "share_head_ok k ?st a ys"
        using present(8) by (simp add: share_head_ok_def)
      then have ok1: "share_ok k ?st (C(a := ys))"
        by (rule share_ok_local [OF ok present(2)])
          (use present(6,9) share_okD(2) [OF ok a(1)] in \<open>auto simp: members_def relinked_def\<close>)
      have live: "share_live ?st = share_live st"
        using live_relinked [OF present(9)] by (simp add: share_live_def)
      obtain q where q: "N x = Some (n\<lparr>sn_next := q\<rparr>)" by (rule relinkedD [OF present(9,4)])
      have un: "unshared (share_live ?st) s" if z: "sn_references (n\<lparr>sn_next := q\<rparr>) = 0"
        unfolding live
      proof (rule unsharedI [OF ok])
        fix b y m
        assume b: "b \<in> dom (share_heads st)" "same_slot (hash_of st b) (str_hash s)" "y \<in> members C b" "share_nodes st y = Some m" "sn_references m \<noteq> 0"
        show "str_of m \<noteq> s"
        proof
          assume "str_of m = s"
          with b only have "y = x"
            using share_ok_inj [OF ok a(1) _ _ b(4) present(4)] present(3,5) by (auto simp: members_def)
          with b(4,5) present(4) z show False by simp
        qed
      qed
      have r: "eina_share_common_add_length al st (Some (s @ rest)) (of_nat (length s)) k =
          Some (?st\<lparr>share_nodes := (share_nodes ?st)(x \<mapsto> node_refs (\<lambda>r. r + 1) (n\<lparr>sn_next := q\<rparr>))\<rparr>, Some x)"
        using Some present(1) q by (simp add: eina_share_common_add_length_def start Let_def)
      have x: "share_nodes ?st x = Some (n\<lparr>sn_next := q\<rparr>)" "str_of (n\<lparr>sn_next := q\<rparr>) = s"
        using q present(5) by simp_all
      have "\<And>p m. share_live ?st p = Some (s, m) \<Longrightarrow> m + 1 < 2 ^ 32" unfolding live by (rule lt)
      note bump = bump_law [OF ok1 x this un refl]
      show thesis
        by (rule that [OF r bump(1) bump(2) [unfolded live]])
    qed
  qed
qed

lemma ref_law:
  assumes inv: "share_inv k st" and p: "share_live st p = Some (s, m)" "m + 1 < 2 ^ 32"
  obtains st' where "eina_share_common_ref st (Some p) = Some (st', Some p)" "share_inv k st'"
    "share_spec (share_live st) (Take c p) (Pointer (Some p)) (share_live st')"
proof -
  obtain C where ok: "share_ok k st C" using inv by (auto simp: share_inv_def)
  obtain n where n: "share_nodes st p = Some n" "str_of n = s" "m = unat (sn_references n)" "sn_references n \<noteq> 0"
    by (rule live_SomeD [OF p(1) [unfolded share_live_def]])
  have lt: "m' + 1 < 2 ^ 32" if q: "share_live st q = Some (s, m')" for q m'
  proof -
    obtain n' where n': "share_nodes st q = Some n'" "str_of n' = s"
      using live_SomeD [OF q [unfolded share_live_def]] by metis
    obtain a where a: "a \<in> dom (share_heads st)" "p \<in> members C a" "same_slot (hash_of st a) (str_hash s)"
      using share_ok_node [OF ok n(1)] n(2) by blast
    obtain b where b: "b \<in> dom (share_heads st)" "q \<in> members C b" "same_slot (hash_of st b) (str_hash s)"
      using share_ok_node [OF ok n'(1)] n'(2) by blast
    have "b = a" using share_ok_slot [OF ok b(1) a(1)] a(3) b(3) by (simp add: same_slot_def)
    with a b n n' have "q = p" using share_ok_inj [OF ok a(1), of q p] by simp
    with q p show ?thesis by simp
  qed
  let ?st = "st\<lparr>share_nodes := (share_nodes st)(p \<mapsto> node_refs (\<lambda>r. r + 1) n)\<rparr>"
  have "sn_references n = 0 \<Longrightarrow> unshared (share_live st) s" using n(4) by simp
  note bump = bump_law [OF ok n(1,2) lt this refl]
  show thesis
    by (rule that [of ?st]) (use bump n in \<open>simp_all add: eina_share_common_ref_def\<close>)
qed

section \<open>Dropping\<close>

lemma head_from_node_law:
  "node_seg (share_nodes st) (Some p) (xs @ [Builtin a]) None \<Longrightarrow> share_common_head_from_node st p = Some a"
proof (induction xs arbitrary: p)
  case Nil
  then show ?case by (subst share_common_head_from_node.simps) auto
next
  case (Cons x xs)
  then obtain n where n: "share_nodes st p = Some n" "node_seg (share_nodes st) (sn_next n) (xs @ [Builtin a]) None" by auto
  obtain q where q: "sn_next n = Some q" using n(2) by (cases xs) auto
  from Cons.IH [of q] n q show ?case
    by (subst share_common_head_from_node.simps) simp
qed

lemma remove_loop_law:
  assumes "node_seg (share_nodes st) p (as @ x # bs) None" "x \<notin> set as" "share_nodes st x = Some n"
  shows "head_remove_loop st x prev p = unlink_next st (last (prev # as)) (sn_next n)"
  using assms
proof (induction as arbitrary: p prev)
  case Nil
  then show ?case by (subst head_remove_loop.simps) auto
next
  case (Cons y as)
  then obtain m where "share_nodes st y = Some m" "p = Some y" "node_seg (share_nodes st) (sn_next m) (as @ x # bs) None" by auto
  with Cons show ?case by (subst head_remove_loop.simps) auto
qed

lemma remove_node_law:
  assumes seg: "node_seg (share_nodes st) (sh_head h) (as @ x # bs) None" and dist: "distinct (as @ x # bs)"
    and h: "share_heads st a = Some h" and n: "share_nodes st x = Some n"
  obtains N f where "share_common_head_remove_node st a x =
      Some (st\<lparr>share_nodes := N, share_heads := (share_heads st)(a \<mapsto> h\<lparr>sh_head := f\<rparr>)\<rparr>, True)"
    "node_seg N f (as @ bs) None" "relinked (set as) (share_nodes st) N"
proof (cases as rule: rev_cases)
  case Nil
  have "sh_head h = Some x" "node_seg (share_nodes st) (sn_next n) bs None"
    using seg n by (auto simp: Nil)
  then show thesis
    using that [where N = "share_nodes st" and f = "sn_next n"] h n
    by (simp add: share_common_head_remove_node_def Nil relinked_def)
next
  case (snoc cs y)
  have seg2: "node_seg (share_nodes st) (sh_head h) cs (Some y)" "node_seg (share_nodes st) (sn_next n) bs None"
    and nx: "\<exists>p. share_nodes st y = Some p \<and> sn_next p = Some x"
    using seg n by (auto simp: snoc node_seg_append)
  then obtain p where p: "share_nodes st y = Some p" "sn_next p = Some x" by blast
  obtain f zs where fz: "cs @ [y] = f # zs" by (cases cs) auto
  have f: "sh_head h = Some f" using seg fz by (simp add: snoc)
  then obtain m where m: "share_nodes st f = Some m" "node_seg (share_nodes st) (sn_next m) (zs @ x # bs) None"
    using seg fz by (auto simp: snoc)
  have xf: "x \<noteq> f" "x \<notin> set zs" using dist fz by (auto simp: snoc)
  have last: "last (f # zs) = y" using fz by (metis last_snoc)
  let ?N = "(share_nodes st)(y \<mapsto> p\<lparr>sn_next := sn_next n\<rparr>)"
  have "share_common_head_remove_node st a x = Some (st\<lparr>share_nodes := ?N\<rparr>, True)"
    using h f xf(1) m(1) remove_loop_law [OF m(2) xf(2) n, of f] p(1) last
    by (auto simp: share_common_head_remove_node_def unlink_next_def)
  moreover have "st\<lparr>share_nodes := ?N, share_heads := (share_heads st)(a \<mapsto> h\<lparr>sh_head := sh_head h\<rparr>)\<rparr> = st\<lparr>share_nodes := ?N\<rparr>"
    using h by (simp add: fun_upd_idem)
  moreover have "node_seg ?N (sh_head h) (as @ bs) None"
    using seg2 dist by (auto simp: snoc node_seg_append node_seg_upd)
  moreover have "relinked (set as) (share_nodes st) ?N"
    using p by (auto simp: relinked_def snoc)
  ultimately show thesis
    using that [where N = ?N and f = "sh_head h"] by simp
qed

text \<open>
  Taking a node out of the list of its head. When only the built-in node is left and has
  no references, the state satisfies the invariant but for that; \<open>w\<close> gives it references.
\<close>

lemma list_ok_remove:
  assumes "list_ok k hash N a (as @ x # bs)" "as @ bs = [] \<Longrightarrow> (\<exists>m. N (Builtin a) = Some m \<and> sn_references m \<noteq> 0)"
  shows "list_ok k hash (N(x := None)) a (as @ bs)"
proof -
  have x: "x \<notin> insert (Builtin a) (set (as @ bs))" using assms(1) by (auto simp: list_ok_def)
  have "inj_on (\<lambda>y. map_option str_of (N y)) (insert (Builtin a) (set (as @ x # bs)))"
    using assms(1) by (simp only: list_ok_def)
  then have "inj_on (\<lambda>y. map_option str_of (N y)) (insert (Builtin a) (set (as @ bs)))"
    by (rule inj_on_subset) auto
  then have "inj_on (\<lambda>y. map_option str_of ((N(x := None)) y)) (insert (Builtin a) (set (as @ bs)))"
    using x by (subst inj_on_cong [where g = "\<lambda>y. map_option str_of (N y)"]) auto
  with assms x show ?thesis unfolding list_ok_def by auto
qed

lemma share_ok_remove:
  assumes ok: "share_ok k st C" and a: "share_heads st a = Some h" "C a = as @ x # bs"
    and N: "node_seg N f ((as @ bs) @ [Builtin a]) None" "relinked (set as) (share_nodes st) N"
    and left: "as @ bs = [] \<Longrightarrow> (\<exists>m. share_nodes st (Builtin a) = Some m \<and> sn_references m \<noteq> 0)"
  shows "share_ok k (st\<lparr>share_nodes := N(x := None), share_heads := (share_heads st)(a \<mapsto> h\<lparr>sh_head := f\<rparr>)\<rparr>) (C(a := as @ bs))"
proof (rule share_ok_local [OF ok a(1)])
  have dom: "a \<in> dom (share_heads st)" using a(1) by auto
  have l: "list_ok k (sh_hash h) (share_nodes st) a (as @ x # bs)"
    using share_okD(1) [OF ok dom] a by (auto simp: share_head_ok_def)
  then have d: "distinct (as @ x # bs)" "x \<noteq> Builtin a" by (auto simp: list_ok_def)
  have "list_ok k (sh_hash h) N a (as @ x # bs)"
    by (rule list_ok_relinked [OF N(2) l]) (use d in auto)
  then have "list_ok k (sh_hash h) (N(x := None)) a (as @ bs)"
  proof (rule list_ok_remove)
    assume "as @ bs = []"
    then show "\<exists>m. N (Builtin a) = Some m \<and> sn_references m \<noteq> 0"
      using left relinkedD [OF N(2), of "Builtin a"] by fastforce
  qed
  moreover have "node_seg (N(x := None)) f ((as @ bs) @ [Builtin a]) None"
    using N(1) d by (subst node_seg_upd) auto
  ultimately show "share_head_ok k (st\<lparr>share_nodes := N(x := None), share_heads := (share_heads st)(a \<mapsto> h\<lparr>sh_head := f\<rparr>)\<rparr>) a (as @ bs)"
    by (simp add: share_head_ok_def)
  show "set (as @ bs) \<inter> dom (share_nodes st) \<subseteq> set (C a)" using a(2) by auto
  show "(N(x := None)) p = share_nodes st p" if "p \<notin> members C a" "p \<notin> set (as @ bs)" for p
    using that N(2) a(2) by (auto simp: relinked_def members_def)
  show "(N(x := None)) p = None" if "p \<in> set (C a)" "p \<notin> set (as @ bs)" for p
    using that a(2) by auto
qed

lemma del_head_cong:
  assumes "share_buckets st' = share_buckets st" "map_option sh_hash (share_heads st' a) = map_option sh_hash (share_heads st a)"
    "\<And>b. b \<noteq> a \<Longrightarrow> share_heads st' b = share_heads st b" "\<And>p. p \<noteq> Builtin a \<Longrightarrow> share_nodes st' p = share_nodes st p"
  shows "share_common_del_head st' a = share_common_del_head st a"
proof -
  have "hash_of st' b = hash_of st b" for b
    using assms(2,3) by (cases "b = a"; cases "share_heads st' b"; cases "share_heads st b") (auto simp: hash_of_def)
  then have "hash_of st' = hash_of st" by auto
  moreover have "(share_heads st')(a := None) = (share_heads st)(a := None)" "(share_nodes st')(Builtin a := None) = (share_nodes st)(Builtin a := None)"
    using assms(3,4) by auto
  ultimately show ?thesis
    using assms(1) by (auto simp: share_common_del_head_def Let_def share_common_node_eq_dcmp)
qed

text \<open>The end of \<open>eina_share_common_del\<close>: a head without references is deleted.\<close>

definition drop_head :: "Eina_Share_Common \<Rightarrow> nat \<Rightarrow> (Eina_Share_Common \<times> bool) option" where
  "drop_head st a = do {
     h \<leftarrow> share_heads st a;
     unused \<leftarrow> (case sh_head h of
         None \<Rightarrow> Some True
       | Some f \<Rightarrow> map_option (\<lambda>n. sn_references n = 0) (share_nodes st f));
     Some (if unused then share_common_del_head st a else st, True)
   }"

lemma drop_head_used:
  assumes "share_ok k st C" "a \<in> dom (share_heads st)"
  shows "drop_head st a = Some (st, True)"
proof -
  obtain h where h: "share_heads st a = Some h" "node_seg (share_nodes st) (sh_head h) (C a @ [Builtin a]) None"
    "list_ok k (sh_hash h) (share_nodes st) a (C a)"
    using share_okD(1) [OF assms] by (auto simp: share_head_ok_def)
  then show ?thesis
    by (cases "C a") (auto simp: drop_head_def list_ok_def)
qed

lemma drop_head_unused:
  assumes ok: "share_ok k st C" and a: "share_heads st a = Some h" "C a = []" "share_nodes st (Builtin a) = Some m"
    and st': "st' = st\<lparr>share_nodes := (share_nodes st)(Builtin a \<mapsto> node_refs (\<lambda>_. 0) m)\<rparr>"
  shows "drop_head st' a = Some (share_common_del_head st a, True)" "share_ok k (share_common_del_head st a) C"
proof -
  have dom: "a \<in> dom (share_heads st)" using a by auto
  have "sh_head h = Some (Builtin a)"
    using share_okD(1) [OF ok dom] a by (auto simp: share_head_ok_def)
  then have "drop_head st' a = Some (share_common_del_head st' a, True)"
    using a by (simp add: drop_head_def st')
  also have "share_common_del_head st' a = share_common_del_head st a"
    by (rule del_head_cong) (simp_all add: st')
  finally show "drop_head st' a = Some (share_common_del_head st a, True)" .
  show "share_ok k (share_common_del_head st a) C"
    using ok dom a(2) by (rule share_ok_del_head)
qed

lemma del_head_live: "live_of (share_nodes (share_common_del_head st a)) = (live_of (share_nodes st))(Builtin a := None)"
  by (simp add: share_common_del_head_def Let_def live_gone)

text \<open>Dropping the last reference to a node before the built-in one.\<close>

lemma drop_separate:
  assumes ok: "share_ok k st C" and a: "a \<in> dom (share_heads st)" "C a = as @ x # bs" and n: "share_nodes st x = Some n"
    and st0: "st0 = st\<lparr>share_nodes := (share_nodes st)(x \<mapsto> node_refs (\<lambda>_. 0) n)\<rparr>"
  obtains st1 st2 where "share_common_head_remove_node st0 a x = Some (st1, True)"
    "drop_head (st1\<lparr>share_nodes := (share_nodes st1)(x := None)\<rparr>) a = Some (st2, True)" "share_inv k st2"
    "share_live st2 = (share_live st)(x := None)"
proof -
  obtain h where h: "share_heads st a = Some h" "node_seg (share_nodes st) (sh_head h) (as @ x # bs @ [Builtin a]) None"
    "list_ok k (sh_hash h) (share_nodes st) a (as @ x # bs)"
    using share_okD(1) [OF ok a(1)] a(2) by (auto simp: share_head_ok_def)
  have d: "distinct (as @ x # bs @ [Builtin a])" using list_ok_distinct [OF h(3)] by simp
  have seg0: "node_seg (share_nodes st0) (sh_head h) (as @ x # bs @ [Builtin a]) None"
    using h(2) n unfolding st0 by (subst node_seg_cong [where N = "share_nodes st"]) auto
  have at0: "share_heads st0 a = Some h" "share_nodes st0 x = Some (node_refs (\<lambda>_. 0) n)"
    using h(1) by (simp_all add: st0)
  obtain N f where r: "share_common_head_remove_node st0 a x =
      Some (st0\<lparr>share_nodes := N, share_heads := (share_heads st0)(a \<mapsto> h\<lparr>sh_head := f\<rparr>)\<rparr>, True)"
    and N: "node_seg N f (as @ bs @ [Builtin a]) None" "relinked (set as) (share_nodes st0) N"
    by (rule remove_node_law [OF seg0 d at0])
  define N1 where "N1 = N(x \<mapsto> n)"
  define st1 where "st1 = st\<lparr>share_nodes := N(x := None), share_heads := (share_heads st)(a \<mapsto> h\<lparr>sh_head := f\<rparr>)\<rparr>"
  have N1: "node_seg N1 f ((as @ bs) @ [Builtin a]) None" "relinked (set as) (share_nodes st) N1" "N1(x := None) = N(x := None)"
    using N d n by (auto simp: N1_def node_seg_upd relinked_def st0)
  obtain m where m: "share_nodes st (Builtin a) = Some m" using h(3) by (auto simp: list_ok_def)
  have mN: "N1 (Builtin a) = Some m" using N1(2) d m by (auto simp: relinked_def list_ok_def)
  have "live_of N1 = share_live st" using live_relinked [OF N1(2)] by (simp add: share_live_def)
  then have live1: "live_of (N(x := None)) = (share_live st)(x := None)"
    using N1(3) live_gone [of N1 x] by simp
  have start: "share_common_head_remove_node st0 a x =
      Some (st\<lparr>share_nodes := N, share_heads := (share_heads st)(a \<mapsto> h\<lparr>sh_head := f\<rparr>)\<rparr>, True)"
    using r by (simp add: st0)
  have end1: "st\<lparr>share_nodes := N, share_heads := (share_heads st)(a \<mapsto> h\<lparr>sh_head := f\<rparr>)\<rparr>
      \<lparr>share_nodes := (share_nodes (st\<lparr>share_nodes := N, share_heads := (share_heads st)(a \<mapsto> h\<lparr>sh_head := f\<rparr>)\<rparr>))(x := None)\<rparr> = st1"
    by (simp add: st1_def)
  show thesis
  proof (cases "as @ bs = [] \<and> sn_references m = 0")
    case False
    then have "share_ok k st1 (C(a := as @ bs))"
      using share_ok_remove [OF ok h(1) a(2) N1(1,2)] m unfolding st1_def N1(3) by auto
    then show thesis
      using that [OF start, unfolded end1] drop_head_used [of k st1 "C(a := as @ bs)" a] live1
      by (auto simp: st1_def share_inv_def share_live_def)
  next
    case True
    define w where "w = st\<lparr>share_nodes := (share_nodes st)(Builtin a \<mapsto> node_refs (\<lambda>_. 1) m)\<rparr>"
    have okw0: "share_ok k w C"
      unfolding w_def by (rule share_ok_refs [OF ok a(1) m]) (simp_all add: members_def)
    have hw: "share_heads w a = Some h" "as @ bs = [] \<Longrightarrow> \<exists>m. share_nodes w (Builtin a) = Some m \<and> sn_references m \<noteq> 0"
      using h(1) by (simp_all add: w_def)
    have segw: "node_seg (N1(Builtin a \<mapsto> node_refs (\<lambda>_. 1) m)) f ((as @ bs) @ [Builtin a]) None"
      using N1(1) mN by (subst node_seg_cong [where N = N1]) auto
    have relw: "relinked (set as) (share_nodes w) (N1(Builtin a \<mapsto> node_refs (\<lambda>_. 1) m))"
      using N1(2) d by (auto simp: relinked_def w_def)
    have okw: "share_ok k (w\<lparr>share_nodes := (N1(Builtin a \<mapsto> node_refs (\<lambda>_. 1) m))(x := None),
        share_heads := (share_heads w)(a \<mapsto> h\<lparr>sh_head := f\<rparr>)\<rparr>) (C(a := as @ bs))" (is "share_ok k ?w _")
      by (rule share_ok_remove [where as = as and bs = bs, OF okw0 hw(1) a(2) segw relw hw(2)])
    have xb: "x \<noteq> Builtin a" using d by auto
    have zero: "node_refs (\<lambda>_. 0) m = m" using True by (simp add: node_refs_def)
    have w1: "st1 = ?w\<lparr>share_nodes := (share_nodes ?w)(Builtin a \<mapsto> node_refs (\<lambda>_. 0) (node_refs (\<lambda>_. 1) m))\<rparr>"
    proof -
      have "node_refs (\<lambda>_. 0) (node_refs (\<lambda>_. 1) m) = m" using zero by (simp add: node_refs_def)
      moreover have "((N1(Builtin a \<mapsto> node_refs (\<lambda>_. 1) m))(x := None))(Builtin a \<mapsto> m) = N(x := None)"
        unfolding N1(3) [symmetric] using mN xb by (simp add: fun_eq_iff)
      ultimately show ?thesis by (simp add: st1_def w_def)
    qed
    note dh = drop_head_unused [OF okw _ _ _ w1, of "h\<lparr>sh_head := f\<rparr>"]
    have "drop_head st1 a = Some (share_common_del_head ?w a, True)" "share_inv k (share_common_del_head ?w a)"
      using dh True xb by (auto simp: share_inv_def)
    moreover have "share_live (share_common_del_head ?w a) = (share_live st)(x := None)"
    proof -
      have "share_live st (Builtin a) = None" using m True by (simp add: share_live_def live_of_def)
      moreover have "live_of (share_nodes ?w) p = live_of (N(x := None)) p" if "p \<noteq> Builtin a" for p
        using that by (simp add: live_of_def N1_def)
      ultimately show ?thesis
        using live1 xb by (auto simp: share_live_def del_head_live fun_eq_iff)
    qed
    ultimately show thesis
      using that [OF start, unfolded end1] by blast
  qed
qed

lemma del_law:
  assumes inv: "share_inv k st" and p: "share_live st p = Some (s, m)"
  obtains st' where "eina_share_common_del st (Some p) = Some (st', True)" "share_inv k st'"
    "share_spec (share_live st) (Drop c p) Dropped (share_live st')"
proof -
  obtain C where ok: "share_ok k st C" using inv by (auto simp: share_inv_def)
  obtain n where n: "share_nodes st p = Some n" "str_of n = s" "m = unat (sn_references n)" "sn_references n \<noteq> 0"
    by (rule live_SomeD [OF p [unfolded share_live_def]])
  obtain a where a: "a \<in> dom (share_heads st)" "p \<in> members C a"
    using share_ok_node [OF ok n(1)] by blast
  have spec: "share_spec (share_live st) (Drop c p) Dropped ((share_live st)(p := (if m \<le> 1 then None else Some (s, m - 1))))"
    by (rule share_spec.dropped [of "share_live st", OF p])
  show thesis
  proof (cases "1 < sn_references n")
    case True
    let ?st = "st\<lparr>share_nodes := (share_nodes st)(p \<mapsto> node_refs (\<lambda>r. r - 1) n)\<rparr>"
    have m: "1 < m" using True n(3) by (simp add: word_less_nat_alt)
    have dec: "unat (sn_references n - 1) = m - 1" using n(3,4) by (simp add: unat_minus_one)
    then have nz: "sn_references n - 1 \<noteq> 0" using m by auto
    have "share_ok k ?st C" by (rule share_ok_refs [OF ok a(1) n(1) a(2)]) (rule nz)
    moreover have "share_live ?st = (share_live st)(p := (if m \<le> 1 then None else Some (s, m - 1)))"
      using live_refs [of "share_nodes st" p n "\<lambda>r. r - 1"] n(1,2) nz dec m by (simp add: share_live_def)
    ultimately show thesis
      using that [of ?st] n(1) True spec by (auto simp: eina_share_common_del_def share_inv_def)
  next
    case False
    then have m: "m \<le> 1" using n(3) by (simp add: word_less_nat_alt)
    let ?st0 = "st\<lparr>share_nodes := (share_nodes st)(p \<mapsto> node_refs (\<lambda>_. 0) n)\<rparr>"
    obtain h where h: "share_heads st a = Some h" "node_seg (share_nodes st) (sh_head h) (C a @ [Builtin a]) None"
      using share_okD(1) [OF ok a(1)] by (auto simp: share_head_ok_def)
    from a(2) consider (builtin) "p = Builtin a" | (separate) as bs where "C a = as @ p # bs"
      by (auto simp: members_def in_set_conv_decomp)
    then show thesis
    proof cases
      case builtin
      have seg: "node_seg (share_nodes ?st0) (Some p) ([] @ [Builtin a]) None"
        using h(2) n(1) by (auto simp: node_seg_append builtin)
      have run: "eina_share_common_del st (Some p) = drop_head ?st0 a"
        using n(1) False head_from_node_law [OF seg] builtin
        by (simp add: eina_share_common_del_def drop_head_def Let_def)
      show thesis
      proof (cases "C a = []")
        case True
        note dh = drop_head_unused [OF ok h(1) True n(1) [unfolded builtin] refl]
        have "share_live (share_common_del_head st a) = (share_live st)(p := None)"
          by (simp add: share_live_def del_head_live builtin)
        then show thesis
          using that [of "share_common_del_head st a"] run dh spec m builtin by (auto simp: share_inv_def)
      next
        case False
        then have "p \<notin> set (C a)"
          using share_okD(1) [OF ok a(1)] builtin by (auto simp: share_head_ok_def list_ok_def)
        with False have ok0: "share_ok k ?st0 C"
          by (intro share_ok_refs [OF ok a(1) n(1) a(2)]) auto
        have "drop_head ?st0 a = Some (?st0, True)"
          by (rule drop_head_used [OF ok0]) (use a(1) in simp)
        moreover have "share_live ?st0 = (share_live st)(p := None)"
          using live_refs [of "share_nodes st" p n "\<lambda>_. 0"] n(1) by (simp add: share_live_def)
        ultimately show thesis
          using that [of ?st0] run ok0 spec m by (auto simp: share_inv_def)
      qed
    next
      case separate
      have "\<exists>b. p = Separate b"
        using share_okD(1) [OF ok a(1)] separate by (auto simp: share_head_ok_def list_ok_def)
      then have pb: "p \<noteq> Builtin a" by auto
      have "node_seg (share_nodes st) (Some p) ((p # bs) @ [Builtin a]) None"
        using h(2) n(1) by (auto simp: separate node_seg_append)
      then have "node_seg (share_nodes ?st0) (Some p) ((p # bs) @ [Builtin a]) None"
        using n(1) by (subst node_seg_cong [where N = "share_nodes st"]) auto
      note from_node = head_from_node_law [OF this]
      obtain st1 st2 where "share_common_head_remove_node ?st0 a p = Some (st1, True)"
        "drop_head (st1\<lparr>share_nodes := (share_nodes st1)(p := None)\<rparr>) a = Some (st2, True)" "share_inv k st2"
        "share_live st2 = (share_live st)(p := None)"
        by (rule drop_separate [OF ok a(1) separate n(1) refl])
      then show thesis
        using that [of st2] n(1) False from_node pb spec m
        by (simp add: eina_share_common_del_def drop_head_def Let_def)
    qed
  qed
qed

end
