(* ===== verification/Eina_Share_Props.thy ===== *)
theory Eina_Share_Props
  imports Eina_Share_Ops
begin

text \<open>
  The pool of shared strings as a client sees it: call sequences against the specification,
  and that the shutdown frees all that is left.
\<close>

section \<open>Shutdown\<close>

lemma share_initial_ok: "share_ok k share_initial (\<lambda>_. [])" "share_live share_initial = (\<lambda>_. None)"
  by (auto simp: share_ok_def share_initial_def share_live_def live_of_def fun_eq_iff)

text \<open>The state with the given heads and their nodes freed and the given buckets emptied.\<close>

definition without :: "Eina_Share_Common \<Rightarrow> (nat \<Rightarrow> node_ptr list) \<Rightarrow> nat set \<Rightarrow> nat set \<Rightarrow> Eina_Share_Common" where
  "without st C E D = st\<lparr>share_buckets := (\<lambda>i. if i \<in> E then NIL else share_buckets st i), share_heads := share_heads st |` (- D), share_nodes := share_nodes st |` (- (\<Union>a \<in> D. members C a))\<rparr>"

lemma head_free_loop_law:
  assumes "share_heads st a = Some h" "node_seg (share_nodes st) (sh_head h) (xs @ [Builtin a]) None"
    "distinct xs" "Builtin a \<notin> set xs"
  shows "head_free_loop st a =
    Some (st\<lparr>share_heads := (share_heads st)(a \<mapsto> h\<lparr>sh_head := None\<rparr>), share_nodes := share_nodes st |` (- set xs)\<rparr>)"
  using assms
proof (induction xs arbitrary: st h)
  case Nil
  then obtain n where n: "sh_head h = Some (Builtin a)" "share_nodes st (Builtin a) = Some n" "sn_next n = None" by auto
  with Nil(1) show ?case
    by (subst head_free_loop.simps, simp) (subst head_free_loop.simps, simp add: restrict_map_def)
next
  case (Cons x xs)
  then obtain n where n: "sh_head h = Some x" "share_nodes st x = Some n" "node_seg (share_nodes st) (sn_next n) (xs @ [Builtin a]) None" by auto
  let ?st = "st\<lparr>share_heads := (share_heads st)(a \<mapsto> h\<lparr>sh_head := sn_next n\<rparr>), share_nodes := (share_nodes st)(x := None)\<rparr>"
  have step: "head_free_loop st a = head_free_loop ?st a"
    using Cons.prems n by (subst head_free_loop.simps) (auto simp: Let_def)
  have seg: "node_seg (share_nodes ?st) (sh_head (h\<lparr>sh_head := sn_next n\<rparr>)) (xs @ [Builtin a]) None"
    using n(3) Cons.prems(3,4) by (auto simp: node_seg_upd)
  have "head_free_loop ?st a = Some (?st\<lparr>share_heads := (share_heads ?st)(a \<mapsto> h\<lparr>sh_head := sn_next n\<rparr>\<lparr>sh_head := None\<rparr>),
      share_nodes := share_nodes ?st |` (- set xs)\<rparr>)"
    by (rule Cons.IH [OF _ seg]) (use Cons.prems(3,4) in simp_all)
  moreover have "(share_heads ?st)(a \<mapsto> h\<lparr>sh_head := sn_next n\<rparr>\<lparr>sh_head := None\<rparr>) = (share_heads st)(a \<mapsto> h\<lparr>sh_head := None\<rparr>)"
    by simp
  moreover have "share_nodes ?st |` (- set xs) = share_nodes st |` (- set (x # xs))"
    by (auto simp: restrict_map_def fun_eq_iff)
  moreover have "?st\<lparr>share_heads := X, share_nodes := Y\<rparr> = st\<lparr>share_heads := X, share_nodes := Y\<rparr>" for X Y
    by simp
  ultimately show ?case by (simp only: step)
qed

lemma head_free_law:
  assumes ok: "share_ok k st C" and a: "a \<in> dom (share_heads st)" "a \<notin> D" "D \<subseteq> dom (share_heads st)"
  shows "share_common_head_free a (Some (without st C E D)) = Some (without st C E (insert a D))"
proof -
  let ?st = "without st C E D"
  obtain h where h: "share_heads st a = Some h" "node_seg (share_nodes st) (sh_head h) (C a @ [Builtin a]) None"
    "list_ok k (sh_hash h) (share_nodes st) a (C a)"
    using share_okD(1) [OF ok a(1)] by (auto simp: share_head_ok_def)
  have apart: "members C a \<inter> (\<Union>b \<in> D. members C b) = {}"
    using share_okD(3) [OF ok _ a(1)] a(2,3) by blast
  have ha: "share_heads ?st a = Some h"
    using h(1) a(2) by (simp add: without_def)
  have "node_seg (share_nodes ?st) (sh_head h) (C a @ [Builtin a]) None"
    using h(2) apart by (subst node_seg_cong [where N = "share_nodes st"]) (auto simp: without_def members_def restrict_map_def)
  from head_free_loop_law [OF ha this] list_ok_distinct [OF h(3)]
  have "share_common_head_free a (Some ?st) =
      Some (?st\<lparr>share_heads := (share_heads ?st)(a := None), share_nodes := (share_nodes ?st |` (- set (C a)))(Builtin a := None)\<rparr>)"
    by (simp add: share_common_head_free_def)
  also have "(share_heads ?st)(a := None) = share_heads (without st C E (insert a D))"
    by (auto simp: without_def restrict_map_def fun_eq_iff)
  also have "(share_nodes ?st |` (- set (C a)))(Builtin a := None) = share_nodes (without st C E (insert a D))"
    by (auto simp: without_def restrict_map_def fun_eq_iff members_def)
  finally show ?thesis by (simp add: without_def)
qed

lemma free_heads_law:
  assumes ok: "share_ok k st C"
  shows "distinct as \<Longrightarrow> set as \<subseteq> dom (share_heads st) \<Longrightarrow> set as \<inter> D = {} \<Longrightarrow> D \<subseteq> dom (share_heads st) \<Longrightarrow>
    fold share_common_head_free as (Some (without st C E D)) = Some (without st C E (D \<union> set as))"
proof (induction as arbitrary: D)
  case (Cons a as)
  then show ?case
    using head_free_law [OF ok, of a D] Cons.IH [of "insert a D"] by simp
qed simp

text \<open>The heads of a bucket are exactly those with its index.\<close>

definition heads_in :: "Eina_Share_Common \<Rightarrow> nat set \<Rightarrow> nat set" where
  "heads_in st I = {a \<in> dom (share_heads st). EINA_SHARE_COMMON_BUCKET_IDX (hash_of st a) \<in> I}"

lemma shutdown_loop_law:
  assumes ok: "share_ok k st C"
  shows "distinct is \<Longrightarrow> (\<forall>i \<in> set is. i < EINA_SHARE_COMMON_BUCKETS) \<Longrightarrow> set is \<inter> E = {} \<Longrightarrow>
    share_shutdown_loop (without st C E (heads_in st E)) is = Some (without st C (E \<union> set is) (heads_in st (E \<union> set is)))"
proof (induction "is" arbitrary: E)
  case (Cons i "is")
  let ?st = "without st C E (heads_in st E)"
  have i: "i < EINA_SHARE_COMMON_BUCKETS" "i \<notin> E" using Cons.prems by auto
  have b: "share_buckets ?st i = share_buckets st i" using i by (simp add: without_def)
  have ms: "mset (delete_order (share_buckets st i)) = mset (inorder (share_buckets st i))" by simp
  have set: "set (delete_order (share_buckets st i)) = {a \<in> dom (share_heads st). EINA_SHARE_COMMON_BUCKET_IDX (hash_of st a) = i}"
    using share_ok_tree(2) [OF ok i(1)] mset_eq_setD [OF ms] by simp
  have "distinct (delete_order (share_buckets st i))"
    using hc.desc_distinct [OF share_ok_tree(1) [OF ok i(1)]] mset_eq_imp_distinct_iff [OF ms] by simp
  then have "eina_rbtree_delete (share_buckets ?st i) (Some share_common_head_free) (Some ?st)
      = Some (without st C E (heads_in st E \<union> set (delete_order (share_buckets st i))))"
    unfolding b rbtree_delete_fold by (rule free_heads_law [OF ok]) (use set i in \<open>auto simp: heads_in_def\<close>)
  also have "heads_in st E \<union> set (delete_order (share_buckets st i)) = heads_in st (insert i E)"
    unfolding set by (auto simp: heads_in_def)
  finally have del: "eina_rbtree_delete (share_buckets ?st i) (Some share_common_head_free) (Some ?st) = Some (without st C E (heads_in st (insert i E)))" .
  have empty: "(without st C E D)\<lparr>share_buckets := (share_buckets (without st C E D))(i := NIL)\<rparr> = without st C (insert i E) D" for D
    by (auto simp: without_def fun_eq_iff)
  show ?case
    using Cons.IH [of "insert i E"] Cons.prems del by (simp add: empty)
qed simp

text \<open>Nothing is left after the shutdown.\<close>

lemma shutdown_frees_all:
  assumes "share_inv k st"
  obtains st' where "eina_share_common_shutdown st = Some st'" "share_heads st' = (\<lambda>_. None)" "share_nodes st' = (\<lambda>_. None)"
    "\<And>i. i < EINA_SHARE_COMMON_BUCKETS \<Longrightarrow> share_buckets st' i = NIL"
proof -
  obtain C where ok: "share_ok k st C" using assms by (auto simp: share_inv_def)
  let ?I = "{0..<EINA_SHARE_COMMON_BUCKETS}"
  have all: "heads_in st ?I = dom (share_heads st)" "heads_in st {} = {}"
    using bucket_idx_bound by (auto simp: heads_in_def)
  have start: "without st C {} {} = st" by (simp add: without_def restrict_map_def)
  have nodes: "dom (share_nodes st) = (\<Union>a \<in> dom (share_heads st). members C a)" using ok by (simp add: share_ok_def)
  have "eina_share_common_shutdown st = Some (without st C ?I (dom (share_heads st)))"
    using shutdown_loop_law [OF ok, of "[0..<EINA_SHARE_COMMON_BUCKETS]" "{}"] by (simp add: eina_share_common_shutdown_def all start)
  moreover have "share_nodes (without st C ?I (dom (share_heads st))) p = None" for p
    using nodes by (auto simp: without_def restrict_map_def)
  moreover have "share_heads (without st C ?I (dom (share_heads st))) a = None" for a
    by (auto simp: without_def restrict_map_def)
  ultimately show thesis
    using that by (auto simp: without_def)
qed

section \<open>The pool\<close>

text \<open>Strings with \<open>k\<close> zero bytes behind them, as the string and the byte pools have them.\<close>

definition share_add :: "nat \<Rightarrow> share_alloc \<Rightarrow> Eina_Share_Common \<Rightarrow> u8 list \<Rightarrow> (Eina_Share_Common \<times> node_ptr option) option" where
  "share_add k al st s = eina_share_common_add_length al st (Some s) (of_nat (length s)) k"

definition share_ref :: "share_alloc \<Rightarrow> Eina_Share_Common \<Rightarrow> node_ptr \<Rightarrow> (Eina_Share_Common \<times> node_ptr option) option" where
  "share_ref al st p = eina_share_common_ref st (Some p)"

definition share_del :: "share_alloc \<Rightarrow> Eina_Share_Common \<Rightarrow> node_ptr \<Rightarrow> Eina_Share_Common option" where
  "share_del al st p = map_option fst (eina_share_common_del st (Some p))"

interpretation sc: share_pool "share_inv k" share_live "share_add k" share_ref share_del alloc_fresh "\<lambda>_ _. True" share_str_ok for k
proof
  fix st :: Eina_Share_Common and c
  assume inv: "share_inv k st" and c: "share_call_ok share_live alloc_fresh (\<lambda>_ _. True) share_str_ok st c"
  show "\<exists>st' a. share_step (share_add k) share_ref share_del st c = Some (st', a) \<and> share_inv k st' \<and> share_spec (share_live st) c a (share_live st')"
  proof (cases c)
    case (Share al s)
    then have ok: "share_str_ok s" "alloc_fresh al st" and lt: "\<And>p m. share_live st p = Some (s, m) \<Longrightarrow> m + 1 < 2 ^ 32"
      using c by (auto simp: share_call_ok_def)
    show ?thesis
      by (rule add_law [where rest = "[]" and c = al, OF inv ok lt]) (auto simp: Share share_add_def)
  next
    case (Take al p)
    then obtain s m where "share_live st p = Some (s, m)" "m + 1 < 2 ^ 32"
      using c by (auto simp: share_call_ok_def)
    then show ?thesis
      by (rule ref_law [where c = al, OF inv]) (auto simp: Take share_ref_def)
  next
    case (Drop al p)
    then obtain s m where "share_live st p = Some (s, m)"
      using c by (auto simp: share_call_ok_def)
    then show ?thesis
      by (rule del_law [where c = al, OF inv]) (auto simp: Drop share_del_def)
  qed
qed

end
