(* ===== verification/Eina_Stringshare_Laws.thy ===== *)
theory Eina_Stringshare_Laws
  imports Eina_Stringshare Eina_Share_Props
begin

text \<open>
  The sorted arrays of small strings: the order of the comparison as a number, the search,
  insertion and removal of elements, and the invariant of the buckets.
\<close>

section \<open>Arrays\<close>

definition ins :: "nat \<Rightarrow> 'a \<Rightarrow> 'a list \<Rightarrow> 'a list" where
  "ins i x xs = take i xs @ x # drop i xs"

definition rem :: "nat \<Rightarrow> 'a list \<Rightarrow> 'a list" where
  "rem i xs = take i xs @ drop (Suc i) xs"

lemma length_ins [simp]: "i \<le> length xs \<Longrightarrow> length (ins i x xs) = Suc (length xs)"
  by (simp add: ins_def)

lemma length_rem [simp]: "i < length xs \<Longrightarrow> length (rem i xs) = length xs - 1"
  by (simp add: rem_def)

lemma ins_zip: "length ys = length xs \<Longrightarrow> zip (ins i x xs) (ins i y ys) = ins i (x, y) (zip xs ys)"
  by (simp add: ins_def take_zip drop_zip zip_append)

lemma rem_zip: "length ys = length xs \<Longrightarrow> zip (rem i xs) (rem i ys) = rem i (zip xs ys)"
  by (simp add: rem_def take_zip drop_zip zip_append)

lemma set_ins: "set (ins i x xs) = insert x (set xs)"
  using set_append [of "take i xs" "drop i xs"] by (auto simp: ins_def)

lemma map_ins: "map f (ins i x xs) = ins i (f x) (map f xs)"
  by (simp add: ins_def take_map drop_map)

lemma map_rem: "map f (rem i xs) = rem i (map f xs)"
  by (simp add: rem_def take_map drop_map)

lemma insert_item_law:
  assumes "idx \<le> n" "n < length xs"
  obtains ys where "insert_item xs n idx v = Some ys" "length ys = length xs" "take (Suc n) ys = ins idx v (take n xs)"
proof -
  define A B x C where "A = take idx xs" and "B = take (n - idx) (drop idx xs)" and "x = xs ! n" and "C = drop (Suc n) xs"
  have AB: "take n xs = A @ B"
    using assms(1) unfolding A_def B_def by (metis le_add_diff_inverse take_add)
  have xs: "xs = A @ B @ [x] @ C"
    using id_take_nth_drop [OF assms(2)] AB by (simp add: x_def C_def)
  have l: "length A = idx" "length B = n - idx"
    using assms by (simp_all add: A_def B_def)
  have "insert_item xs n idx v = Some (A @ [v] @ B @ C)"
  proof (cases "idx < n")
    case True
    with mem_insert_gap [OF l, of "[x]" 1 "[v]" C] show ?thesis
      by (simp add: insert_item_def xs)
  next
    case False
    with assms l have "B = []" "length A = n" by auto
    with False show ?thesis
      by (simp add: insert_item_def xs mem_write_def l(1) [symmetric])
  qed
  moreover have "take (Suc n) (A @ [v] @ B @ C) = ins idx v (take n xs)"
    using l assms(1) by (simp add: AB ins_def Suc_diff_le)
  ultimately show thesis
    using that [of "A @ [v] @ B @ C"] xs by simp
qed

lemma remove_item_law:
  assumes "idx < n" "n < length xs"
  obtains ys where "mem_move xs idx (idx + 1) (n - idx) = Some ys" "length ys = length xs" "take n ys = rem idx (take (Suc n) xs)"
proof -
  define A x B C where "A = take idx xs" and "x = xs ! idx" and "B = take (n - idx) (drop (Suc idx) xs)" and "C = drop (Suc n) xs"
  have "take (Suc n) xs = A @ x # B"
    using assms id_take_nth_drop [of idx "take (Suc n) xs"] by (simp add: A_def x_def B_def drop_take Suc_diff_Suc)
  then have AB: "take (Suc n) xs = A @ [x] @ B" by simp
  then have xs: "xs = A @ [x] @ B @ C"
    unfolding C_def by (metis append.assoc append_take_drop_id)
  have l: "length A = idx" "length [x] = 1" "length B = n - idx"
    using assms by (simp_all add: A_def B_def)
  obtain E where E: "mem_move (A @ [x] @ B @ C) idx (idx + 1) (n - idx) = Some (A @ B @ E @ C)" "length E = 1"
    using mem_close_gap [OF l] by blast
  have "take n (A @ B @ E @ C) = rem idx (take (Suc n) xs)"
    unfolding AB using l assms by (simp add: rem_def)
  then show thesis
    using that [of "A @ B @ E @ C"] E xs by simp
qed

section \<open>The order of small strings\<close>

definition is_small :: "u8 list \<Rightarrow> bool" where
  "is_small s \<longleftrightarrow> length s = 2 \<or> length s = 3"

lemma is_smallE:
  assumes "is_small s"
  obtains (two) a b where "s = [a, b]" | (three) a b c where "s = [a, b, c]"
  using assms by (auto simp: is_small_def numeral_2_eq_2 numeral_3_eq_3 length_Suc_conv)

definition skey :: "u8 list \<Rightarrow> int" where
  "skey s = int (length s) * 2 ^ 16 + (sint (s ! 1) + 128) * 2 ^ 8 + (if length s = 3 then sint (s ! 2) + 128 else 0)"

lemma sint_u8: "- 128 \<le> sint (c :: u8)" "sint (c :: u8) < 128"
  using sint_ge [of c] sint_lt [of c] by simp_all

lemma digit_eq: "x * 256 + c = y * 256 + d \<Longrightarrow> - 128 \<le> c \<Longrightarrow> c < 128 \<Longrightarrow> - 128 \<le> d \<Longrightarrow> d < 128 \<Longrightarrow> x = y \<and> c = (d :: int)"
  by (cases x y rule: linorder_cases) linarith+

lemma skey_eq:
  assumes "is_small s" "is_small t" "hd s = hd t" "skey s = skey t"
  shows "s = t"
  using assms(1)
proof (cases s rule: is_smallE)
  case (two a b)
  from assms(2) show ?thesis
  proof (cases t rule: is_smallE)
    case (two a' b')
    with assms(3,4) \<open>s = [a, b]\<close> show ?thesis by (simp add: skey_def signed_word_eqI)
  next
    case (three a' b' c')
    with assms(4) \<open>s = [a, b]\<close> show ?thesis
      using sint_u8 [of b] sint_u8 [of b'] sint_u8 [of c'] by (simp add: skey_def)
  qed
next
  case (three a b c)
  from assms(2) show ?thesis
  proof (cases t rule: is_smallE)
    case (two a' b')
    with assms(4) \<open>s = [a, b, c]\<close> show ?thesis
      using sint_u8 [of b] sint_u8 [of b'] sint_u8 [of c] by (simp add: skey_def)
  next
    case (three a' b' c')
    then have "sint b * 256 + sint c = sint b' * 256 + sint c'"
      using assms(4) \<open>s = [a, b, c]\<close> by (simp add: skey_def)
    then have "sint b = sint b'" "sint c = sint c'"
      using digit_eq [OF _ sint_u8 sint_u8] by blast+
    with three assms(3) \<open>s = [a, b, c]\<close> show ?thesis by (simp add: signed_word_eqI)
  qed
qed

text \<open>The comparison of an element with a string.\<close>

lemma elem_at_simps [simp]:
  "elem_at (x # xs) 0 = Some x" "elem_at (x # y # xs) 1 = Some y" "elem_at (x # y # xs) (Suc 0) = Some y" "elem_at (x # y # z # xs) 2 = Some z"
  by (simp_all add: elem_at_def)

lemma small_cmp_law:
  assumes el: "i < length (sb_lengths b)" "i < length (sb_strings b)" "sb_lengths b ! i = of_nat (length t)"
    "sm_text st (sb_strings b ! i) = Some (t @ [0])" and st: "is_small t" "is_small s"
  shows "stringshare_small_cmp st b i (drop 1 (s @ rest)) (of_nat (length s) - 1) =
    Some (if skey s < skey t then 1 else if skey t < skey s then - 1 else 0)"
proof -
  have at: "elem_at (sb_lengths b) i = Some (of_nat (length t))" "elem_at (sb_strings b) i = Some (sb_strings b ! i)"
    using el by (simp_all add: elem_at_def)
  note cmp = stringshare_small_cmp_def at el(4) Let_def skey_def
  from st(1) show ?thesis
  proof (cases t rule: is_smallE)
    case t: (two a b')
    from st(2) show ?thesis
    proof (cases s rule: is_smallE)
      case (two c d)
      with t show ?thesis by (simp add: cmp)
    next
      case (three c d e)
      with t show ?thesis
        using sint_u8 [of b'] sint_u8 [of d] sint_u8 [of e] by (simp add: cmp)
    qed
  next
    case t: (three a b' c')
    from st(2) show ?thesis
    proof (cases s rule: is_smallE)
      case (two c d)
      with t show ?thesis
        using sint_u8 [of b'] sint_u8 [of c'] sint_u8 [of d] by (simp add: cmp)
    next
      case (three c d e)
      with t show ?thesis
        using sint_u8 [of b'] sint_u8 [of c'] sint_u8 [of d] sint_u8 [of e] by (simp add: cmp)
    qed
  qed
qed

section \<open>Buckets\<close>

text \<open>The elements of a bucket: address, string and references, in ascending order.\<close>

type_synonym entry = "nat \<times> u8 list \<times> u32"

abbreviation e_str :: "entry \<Rightarrow> u8 list" where
  "e_str e \<equiv> fst (snd e)"

definition entry_ok :: "Eina_Stringshare_Small \<Rightarrow> u8 \<Rightarrow> entry \<Rightarrow> bool" where
  "entry_ok st c e \<longleftrightarrow> sm_text st (fst e) = Some (e_str e @ [0]) \<and> is_small (e_str e) \<and> hd (e_str e) = c \<and> snd (snd e) \<noteq> 0"

definition bucket_has :: "Eina_Stringshare_Small_Bucket \<Rightarrow> entry list \<Rightarrow> bool" where
  "bucket_has b E \<longleftrightarrow>
     sb_count b = length E \<and> sb_count b \<le> sb_size b
     \<and> sb_size b \<le> length (sb_strings b) \<and> sb_size b \<le> length (sb_lengths b) \<and> sb_size b \<le> length (sb_references b)
     \<and> take (length E) (sb_strings b) = map fst E
     \<and> take (length E) (sb_lengths b) = map (\<lambda>e. of_nat (length (e_str e))) E
     \<and> take (length E) (sb_references b) = map (\<lambda>e. snd (snd e)) E
     \<and> sorted_wrt (<) (map (\<lambda>e. skey (e_str e)) E)"

definition small_ok :: "Eina_Stringshare_Small \<Rightarrow> (u8 \<Rightarrow> entry list) \<Rightarrow> bool" where
  "small_ok st E \<longleftrightarrow>
     (\<forall>c. case sm_buckets st c of None \<Rightarrow> E c = [] | Some b \<Rightarrow> bucket_has b (E c))
     \<and> (\<forall>c. \<forall>e \<in> set (E c). entry_ok st c e)
     \<and> (\<forall>a. sm_text st a \<noteq> None \<longrightarrow> (\<exists>c. a \<in> fst ` set (E c)))"

definition small_inv :: "Eina_Stringshare_Small \<Rightarrow> bool" where
  "small_inv st \<longleftrightarrow> (\<exists>E. small_ok st E)"

lemma bucket_nth:
  assumes "bucket_has b E" "i < length E"
  shows "i < length (sb_strings b)" "i < length (sb_lengths b)" "i < length (sb_references b)"
    "sb_strings b ! i = fst (E ! i)" "sb_lengths b ! i = of_nat (length (e_str (E ! i)))" "sb_references b ! i = snd (snd (E ! i))"
proof -
  show "i < length (sb_strings b)" "i < length (sb_lengths b)" "i < length (sb_references b)"
    using assms by (auto simp: bucket_has_def)
  have at: "xs ! i = ys ! i" if "take (length E) xs = ys" for xs ys :: "'a list"
    using that assms(2) by auto
  have "take (length E) (sb_strings b) = map fst E" "take (length E) (sb_lengths b) = map (\<lambda>e. of_nat (length (e_str e))) E"
    "take (length E) (sb_references b) = map (\<lambda>e. snd (snd e)) E"
    using assms(1) by (auto simp: bucket_has_def)
  then show "sb_strings b ! i = fst (E ! i)" "sb_lengths b ! i = of_nat (length (e_str (E ! i)))" "sb_references b ! i = snd (snd (E ! i))"
    using assms(2) by (auto dest!: at)
qed

lemma skey_nth:
  assumes "bucket_has b E" "i < j" "j < length E"
  shows "skey (e_str (E ! i)) < skey (e_str (E ! j))"
  using sorted_wrt_nth_less [of "(<)" "map (\<lambda>e. skey (e_str e)) E" i j] assms by (simp add: bucket_has_def)

lemma find_small_loop:
  assumes b: "bucket_has b E" and e: "\<forall>e \<in> set E. entry_ok st c e" and s: "is_small s" "hd s = c"
    and p: "pstr = drop 1 (s @ rest)" "pl = of_nat (length s) - 1"
  shows "low \<le> high \<Longrightarrow> high \<le> length E \<Longrightarrow> (\<forall>j < low. skey (e_str (E ! j)) < skey s) \<Longrightarrow>
      (\<forall>j. high \<le> j \<and> j < length E \<longrightarrow> skey s < skey (e_str (E ! j))) \<Longrightarrow>
    \<exists>r i. small_find_loop st b pstr pl low high = Some (r, i)
      \<and> (case r of
           Some a \<Rightarrow> i < length E \<and> (\<exists>n. E ! i = (a, s, n))
         | None \<Rightarrow> i \<le> length E \<and> (\<forall>j < i. skey (e_str (E ! j)) < skey s) \<and> (\<forall>j. i \<le> j \<and> j < length E \<longrightarrow> skey s < skey (e_str (E ! j))))"
proof (induction "high - low" arbitrary: low high rule: less_induct)
  case less
  let ?run = "small_find_loop st b pstr pl"
  show ?case
  proof (cases "low < high")
    case False
    with less.prems show ?thesis by (subst small_find_loop.simps) auto
  next
    case True
    define i where "i = (low + high - 1) div 2"
    have i: "low \<le> i" "i < high" "i < length E" using True less.prems(2) by (auto simp: i_def)
    note n = bucket_nth [OF b i(3)]
    have ok: "entry_ok st c (E ! i)" using e i(3) by simp
    have cmp: "stringshare_small_cmp st b i pstr pl =
        Some (if skey s < skey (e_str (E ! i)) then 1 else if skey (e_str (E ! i)) < skey s then - 1 else 0)"
      unfolding p by (rule small_cmp_law [OF n(2,1,5)]) (use ok n s in \<open>auto simp: entry_ok_def\<close>)
    have step: "?run low high = (if skey s < skey (e_str (E ! i)) then ?run low i
        else if skey (e_str (E ! i)) < skey s then ?run (i + 1) high else Some (Some (fst (E ! i)), i))"
      unfolding small_find_loop.simps [of st b pstr pl low high] Let_def i_def [symmetric]
      using True cmp n(1,4) by (simp add: elem_at_def)
    consider "skey s < skey (e_str (E ! i))" | "skey (e_str (E ! i)) < skey s" | "skey (e_str (E ! i)) = skey s" by linarith
    then show ?thesis
    proof cases
      case 1
      have "skey s < skey (e_str (E ! j))" if "i \<le> j" "j < length E" for j
        using skey_nth [OF b, of i j] 1 that by (cases "j = i") auto
      moreover have "?run low high = ?run low i" using step 1 by simp
      ultimately show ?thesis
        using less.hyps [of i low] less.prems i by simp
    next
      case 2
      have "skey (e_str (E ! j)) < skey s" if "j < i + 1" for j
        using skey_nth [OF b _ i(3), of j] 2 that by (cases "j = i") auto
      moreover have "?run low high = ?run (i + 1) high" using step 2 by simp
      ultimately show ?thesis
        using less.hyps [of high "i + 1"] less.prems i by simp
    next
      case 3
      then have "e_str (E ! i) = s"
        using ok s by (intro skey_eq) (auto simp: entry_ok_def)
      with 3 step i(3) show ?thesis by (cases "E ! i") auto
    qed
  qed
qed

lemma find_small_law:
  assumes b: "bucket_has b E" and e: "\<forall>e \<in> set E. entry_ok st c e" and s: "is_small s" "hd s = c"
  obtains (found) a i n where "stringshare_small_bucket_find st b (s @ rest) (of_nat (length s)) = Some (Some a, i)" "i < length E" "E ! i = (a, s, n)"
  | (absent) i where "stringshare_small_bucket_find st b (s @ rest) (of_nat (length s)) = Some (None, i)" "i \<le> length E"
      "\<And>j. j < i \<Longrightarrow> skey (e_str (E ! j)) < skey s" "\<And>j. i \<le> j \<Longrightarrow> j < length E \<Longrightarrow> skey s < skey (e_str (E ! j))"
proof (cases "sb_count b = 0")
  case True
  then have "E = []" using b by (simp add: bucket_has_def)
  with True absent [of 0] show thesis by (simp add: stringshare_small_bucket_find_def)
next
  case False
  have c: "sb_count b = length E" using b by (simp add: bucket_has_def)
  obtain r i where "small_find_loop st b (drop 1 (s @ rest)) (of_nat (length s) - 1) 0 (length E) = Some (r, i)"
    and r: "case r of Some a \<Rightarrow> i < length E \<and> (\<exists>n. E ! i = (a, s, n))
         | None \<Rightarrow> i \<le> length E \<and> (\<forall>j < i. skey (e_str (E ! j)) < skey s) \<and> (\<forall>j. i \<le> j \<and> j < length E \<longrightarrow> skey s < skey (e_str (E ! j)))"
    using find_small_loop [OF b e s refl refl, of 0 "length E" rest] by auto
  then have "stringshare_small_bucket_find st b (s @ rest) (of_nat (length s)) = Some (r, i)"
    using False c by (simp add: stringshare_small_bucket_find_def)
  with r found absent show thesis by (cases r) auto
qed

lemma no_such_string:
  assumes "bucket_has b E" "\<And>j. j < i \<Longrightarrow> skey (e_str (E ! j)) < skey s" "\<And>j. i \<le> j \<Longrightarrow> j < length E \<Longrightarrow> skey s < skey (e_str (E ! j))"
  shows "e \<in> set E \<Longrightarrow> e_str e \<noteq> s"
  using assms(2,3) by (metis in_set_conv_nth less_irrefl linorder_not_le)

end
