(* ===== verification/Eina_Stringshare_Ops.thy ===== *)
theory Eina_Stringshare_Ops
  imports Eina_Stringshare_Laws
begin

text \<open>
  The operations on small strings: they keep the invariant and follow the specification of
  a pool. Shrinking the arrays has to succeed as a whole or fail at the first one.
\<close>

section \<open>What is live\<close>

definition small_live :: "Eina_Stringshare_Small \<Rightarrow> nat shared" where
  "small_live st p =
     (case sm_text st p of
        None \<Rightarrow> None
      | Some t \<Rightarrow>
          (case sm_buckets st (hd t) of
             None \<Rightarrow> None
           | Some b \<Rightarrow> map_option (\<lambda>r. (butlast t, unat r))
               (map_of (zip (take (sb_count b) (sb_strings b)) (take (sb_count b) (sb_references b))) p)))"

lemma small_okD:
  assumes "small_ok st E"
  shows "sm_buckets st c = None \<Longrightarrow> E c = []" "sm_buckets st c = Some b \<Longrightarrow> bucket_has b (E c)"
    "e \<in> set (E c) \<Longrightarrow> entry_ok st c e" "sm_text st a = Some t \<Longrightarrow> \<exists>c. a \<in> fst ` set (E c)"
proof -
  have "case sm_buckets st c of None \<Rightarrow> E c = [] | Some b \<Rightarrow> bucket_has b (E c)"
    using assms by (simp add: small_ok_def)
  then show "sm_buckets st c = None \<Longrightarrow> E c = []" "sm_buckets st c = Some b \<Longrightarrow> bucket_has b (E c)"
    by simp_all
  show "e \<in> set (E c) \<Longrightarrow> entry_ok st c e" "sm_text st a = Some t \<Longrightarrow> \<exists>c. a \<in> fst ` set (E c)"
    using assms unfolding small_ok_def by blast+
qed

lemma small_bucket:
  assumes "small_ok st E" "E c \<noteq> []"
  obtains b where "sm_buckets st c = Some b" "bucket_has b (E c)"
  using small_okD(1,2) [OF assms(1), of c] assms(2) that by (cases "sm_buckets st c") blast+

lemma same_address:
  assumes ok: "small_ok st E" and e: "e \<in> set (E c)" "e' \<in> set (E c')" "fst e = fst e'"
  shows "c = c'" "e = e'"
proof -
  note o = small_okD(3) [OF ok e(1)] small_okD(3) [OF ok e(2)]
  then have str: "e_str e = e_str e'" using e(3) by (simp add: entry_ok_def)
  then show c: "c = c'" using o by (simp add: entry_ok_def)
  have "E c \<noteq> []" using e(1) by auto
  then obtain b where b: "bucket_has b (E c)" by (rule small_bucket [OF ok])
  obtain i where i: "i < length (E c)" "E c ! i = e" using e(1) unfolding in_set_conv_nth by blast
  obtain j where j: "j < length (E c)" "E c ! j = e'" using e(2) unfolding c [symmetric] in_set_conv_nth by blast
  from i j str skey_nth [OF b, of i j] skey_nth [OF b, of j i] show "e = e'"
    by (cases i j rule: linorder_cases) auto
qed

lemma distinct_addresses:
  assumes "small_ok st E"
  shows "distinct (map fst (E c))"
proof -
  have "E c ! i \<noteq> E c ! j" if "i < j" "j < length (E c)" for i j
  proof -
    from that have "E c \<noteq> []" by auto
    then obtain b where b: "bucket_has b (E c)" by (rule small_bucket [OF assms])
    from skey_nth [OF b that] show ?thesis by auto
  qed
  then have d: "distinct (E c)"
    unfolding distinct_conv_nth by (metis linorder_neqE_nat)
  moreover have "inj_on fst (set (E c))"
    by (rule inj_onI) (rule same_address(2) [OF assms])
  ultimately show ?thesis by (simp add: distinct_map)
qed

lemma small_live_iff:
  assumes ok: "small_ok st E"
  shows "small_live st p = Some (s, m) \<longleftrightarrow> (\<exists>c r. (p, s, r) \<in> set (E c) \<and> m = unat r)"
proof
  assume "\<exists>c r. (p, s, r) \<in> set (E c) \<and> m = unat r"
  then obtain c r where e: "(p, s, r) \<in> set (E c)" "m = unat r" by blast
  note o = small_okD(3) [OF ok e(1)]
  have "E c \<noteq> []" using e(1) by auto
  then obtain b where b: "sm_buckets st c = Some b" "bucket_has b (E c)" by (rule small_bucket [OF ok])
  have z: "zip (take (sb_count b) (sb_strings b)) (take (sb_count b) (sb_references b)) = map (\<lambda>e. (fst e, snd (snd e))) (E c)"
    using b(2) by (simp add: bucket_has_def zip_map_fst_snd zip_map_map zip_same_conv_map)
  have "(p, r) \<in> set (map (\<lambda>e. (fst e, snd (snd e))) (E c))" using e(1) by force
  then have "map_of (map (\<lambda>e. (fst e, snd (snd e))) (E c)) p = Some r"
    using distinct_addresses [OF ok, of c] by (intro map_of_is_SomeI) (simp_all add: comp_def)
  moreover have "sm_text st p = Some (s @ [0])" "hd (s @ [0]) = c"
    using o by (auto simp: entry_ok_def is_small_def hd_append)
  ultimately show "small_live st p = Some (s, m)"
    using b z e(2) by (simp add: small_live_def)
next
  assume l: "small_live st p = Some (s, m)"
  then obtain t b r where t: "sm_text st p = Some t" "sm_buckets st (hd t) = Some b" "s = butlast t" "m = unat r"
    "map_of (zip (take (sb_count b) (sb_strings b)) (take (sb_count b) (sb_references b))) p = Some r"
    by (auto simp: small_live_def split: option.splits)
  have "zip (take (sb_count b) (sb_strings b)) (take (sb_count b) (sb_references b)) = map (\<lambda>e. (fst e, snd (snd e))) (E (hd t))"
    using small_okD(2) [OF ok t(2)] by (simp add: bucket_has_def zip_map_map zip_same_conv_map)
  with map_of_SomeD [OF t(5)] obtain e where e: "e \<in> set (E (hd t))" "fst e = p" "snd (snd e) = r" by auto
  with small_okD(3) [OF ok e(1)] t have "e_str e = s" by (auto simp: entry_ok_def)
  with e have "(p, s, r) \<in> set (E (hd t))" by (cases e) auto
  with t(4) show "\<exists>c r. (p, s, r) \<in> set (E c) \<and> m = unat r" by blast
qed

lemma small_live_eqI:
  assumes ok: "small_ok st' E'" and iff: "\<And>p s m. f p = Some (s, m) \<longleftrightarrow> (\<exists>c r. (p, s, r) \<in> set (E' c) \<and> m = unat r)"
  shows "small_live st' = f"
proof (rule ext)
  fix p
  have "small_live st' p = Some x \<longleftrightarrow> f p = Some x" for x
    using small_live_iff [OF ok, of p "fst x" "snd x"] iff [of p "fst x" "snd x"] by simp
  then show "small_live st' p = f p" by (cases "f p") (metis not_None_eq)+
qed

section \<open>Resizing\<close>

lemma array_realloc_take: "n \<le> m \<Longrightarrow> n \<le> length xs \<Longrightarrow> take n (array_realloc v xs m) = take n xs"
  by (simp add: array_realloc_def)

lemma array_realloc_length: "length (array_realloc v xs m) = m"
  by (simp add: array_realloc_def)

lemma resize_law:
  assumes b: "bucket_has b E" and m: "sb_size b \<le> m \<or> length E \<le> m \<and> (strings_mem al \<longrightarrow> lengths_mem al \<and> references_mem al)"
  obtains b' ok where "stringshare_small_bucket_resize al b m = (b', ok)" "bucket_has b' E" "ok \<Longrightarrow> sb_size b' = m"
proof -
  have l: "length E \<le> length (sb_strings b)" "length E \<le> length (sb_lengths b)" "length E \<le> length (sb_references b)" "length E \<le> m"
    using b m by (auto simp: bucket_has_def)
  note simps = array_realloc_take [OF l(4) l(1)] array_realloc_take [OF l(4) l(2)] array_realloc_take [OF l(4) l(3)] array_realloc_length
  obtain b' ok where r: "stringshare_small_bucket_resize al b m = (b', ok)" by fastforce
  moreover have "bucket_has b' E \<and> (ok \<longrightarrow> sb_size b' = m)"
    using r b m by (auto simp: stringshare_small_bucket_resize_def bucket_has_def Let_def simps split: if_splits)
  ultimately show thesis using that by blast
qed

section \<open>Changes of a bucket\<close>

lemma small_update:
  assumes ok: "small_ok st E" and b: "case mb of None \<Rightarrow> E' = [] | Some b \<Rightarrow> bucket_has b E'"
    and e: "\<And>e. e \<in> set E' \<Longrightarrow> entry_ok (st\<lparr>sm_text := T\<rparr>) c e"
    and T: "\<And>c' e. c' \<noteq> c \<Longrightarrow> e \<in> set (E c') \<Longrightarrow> T (fst e) = sm_text st (fst e)"
    and dom: "\<And>a. T a \<noteq> None \<Longrightarrow> a \<in> fst ` set E' \<or> (\<exists>c'. c' \<noteq> c \<and> a \<in> fst ` set (E c'))"
  shows "small_ok (st\<lparr>sm_text := T, sm_buckets := (sm_buckets st)(c := mb)\<rparr>) (E(c := E'))"
  unfolding small_ok_def
proof (intro conjI allI impI ballI)
  fix c'
  show "case sm_buckets (st\<lparr>sm_text := T, sm_buckets := (sm_buckets st)(c := mb)\<rparr>) c' of
      None \<Rightarrow> (E(c := E')) c' = [] | Some b \<Rightarrow> bucket_has b ((E(c := E')) c')"
    using b small_okD(1,2) [OF ok, of c'] by (auto split: option.splits)
next
  fix c' e'
  assume e': "e' \<in> set ((E(c := E')) c')"
  show "entry_ok (st\<lparr>sm_text := T, sm_buckets := (sm_buckets st)(c := mb)\<rparr>) c' e'"
  proof (cases "c' = c")
    case True
    with e' e [of e'] show ?thesis by (simp add: entry_ok_def)
  next
    case False
    with e' T [of c' e'] small_okD(3) [OF ok, of e' c'] show ?thesis by (simp add: entry_ok_def)
  qed
next
  fix a
  assume "sm_text (st\<lparr>sm_text := T, sm_buckets := (sm_buckets st)(c := mb)\<rparr>) a \<noteq> None"
  then have "T a \<noteq> None" by simp
  from dom [OF this] show "\<exists>c'. a \<in> fst ` set ((E(c := E')) c')"
    by (metis fun_upd_other fun_upd_same)
qed

lemma live_upd:
  assumes ok: "small_ok st E" "small_ok st' E'"
    and iff: "\<And>p t r. (\<exists>c. (p, t, r) \<in> set (E' c)) \<longleftrightarrow> (if p = a then x = Some (t, r) else \<exists>c. (p, t, r) \<in> set (E c))"
  shows "small_live st' = (small_live st)(a := map_option (\<lambda>(t, r). (t, unat r)) x)"
proof (rule small_live_eqI [OF ok(2)])
  fix p t m
  have "(\<exists>c r. (p, t, r) \<in> set (E' c) \<and> m = unat r) \<longleftrightarrow> (\<exists>r. (if p = a then x = Some (t, r) else \<exists>c. (p, t, r) \<in> set (E c)) \<and> m = unat r)"
    using iff by blast
  also have "\<dots> \<longleftrightarrow> ((small_live st)(a := map_option (\<lambda>(t, r). (t, unat r)) x)) p = Some (t, m)"
    using small_live_iff [OF ok(1), of p t m] by auto
  finally show "((small_live st)(a := map_option (\<lambda>(t, r). (t, unat r)) x)) p = Some (t, m) \<longleftrightarrow> (\<exists>c r. (p, t, r) \<in> set (E' c) \<and> m = unat r)"
    by blast
qed

lemma small_text_dom:
  assumes "small_ok st E" "sm_text st a \<noteq> None"
  shows "a \<in> fst ` set (E c) \<or> (\<exists>c'. c' \<noteq> c \<and> a \<in> fst ` set (E c'))"
proof -
  obtain t where "sm_text st a = Some t" using assms(2) by blast
  then obtain c' where "a \<in> fst ` set (E c')" using small_okD(4) [OF assms(1)] by blast
  then show ?thesis by (cases "c' = c") auto
qed

text \<open>A new count of references.\<close>

lemma bucket_refs:
  assumes "bucket_has b E" "i < length E" "E ! i = (a, s, r)"
  shows "bucket_has (b\<lparr>sb_references := (sb_references b)[i := v]\<rparr>) (E[i := (a, s, v)])"
proof -
  have "map fst (E[i := (a, s, v)]) = map fst E" "map (\<lambda>e. of_nat (length (e_str e)) :: u8) (E[i := (a, s, v)]) = map (\<lambda>e. of_nat (length (e_str e))) E"
    "map (\<lambda>e. skey (e_str e)) (E[i := (a, s, v)]) = map (\<lambda>e. skey (e_str e)) E"
    using assms(2,3) by (auto intro!: nth_equalityI simp: nth_list_update)
  moreover have "take (length E) ((sb_references b)[i := v]) = map (\<lambda>e. snd (snd e)) (E[i := (a, s, v)])"
    using assms by (simp add: bucket_has_def take_update_swap map_update)
  ultimately show ?thesis
    using assms(1) by (simp add: bucket_has_def)
qed

lemma small_refs:
  assumes ok: "small_ok st E" and b: "sm_buckets st c = Some b" and i: "i < length (E c)" "E c ! i = (a, s, r)" and v: "v \<noteq> 0"
    and st': "st' = st\<lparr>sm_buckets := (sm_buckets st)(c \<mapsto> b\<lparr>sb_references := (sb_references b)[i := v]\<rparr>)\<rparr>"
  shows "small_ok st' (E(c := (E c)[i := (a, s, v)]))" "small_live st' = (small_live st)(a \<mapsto> (s, unat v))"
proof -
  let ?E = "(E c)[i := (a, s, v)]"
  have d: "distinct (E c)" using distinct_addresses [OF ok, of c] by (simp add: distinct_map)
  have set: "set ?E = insert (a, s, v) (set (E c) - {(a, s, r)})"
    using set_update_distinct [OF d i(1), of "(a, s, v)"] i(2) by simp
  have e: "(a, s, r) \<in> set (E c)" using i by (metis nth_mem)
  have fst: "fst ` set ?E = fst ` set (E c)"
    unfolding set using e by force
  have "small_ok (st\<lparr>sm_text := sm_text st, sm_buckets := (sm_buckets st)(c := Some (b\<lparr>sb_references := (sb_references b)[i := v]\<rparr>))\<rparr>) (E(c := ?E))"
  proof (rule small_update [OF ok])
    show "case Some (b\<lparr>sb_references := (sb_references b)[i := v]\<rparr>) of None \<Rightarrow> ?E = [] | Some b \<Rightarrow> bucket_has b ?E"
      using bucket_refs [OF small_okD(2) [OF ok b] i] by simp
    show "entry_ok (st\<lparr>sm_text := sm_text st\<rparr>) c e'" if "e' \<in> set ?E" for e'
      using that small_okD(3) [OF ok e] small_okD(3) [OF ok, of e' c] v unfolding set by (auto simp: entry_ok_def)
    show "a' \<in> fst ` set ?E \<or> (\<exists>c'. c' \<noteq> c \<and> a' \<in> fst ` set (E c'))" if "sm_text st a' \<noteq> None" for a'
      unfolding fst by (rule small_text_dom [OF ok that])
  qed simp
  then show ok': "small_ok st' (E(c := ?E))" by (simp add: st')
  have "small_live st' = (small_live st)(a := map_option (\<lambda>(t, r). (t, unat r)) (Some (s, v)))"
  proof (rule live_upd [OF ok ok'])
    fix p t q
    show "(\<exists>c'. (p, t, q) \<in> set ((E(c := ?E)) c')) \<longleftrightarrow> (if p = a then Some (s, v) = Some (t, q) else \<exists>c. (p, t, q) \<in> set (E c))"
    proof (cases "p = a")
      case True
      have "c' = c \<and> (a, t, q) = (a, s, r)" if "(a, t, q) \<in> set (E c')" for c'
        using same_address [OF ok that e] by simp
      then show ?thesis
        unfolding True by (auto simp: set split: if_splits)
    next
      case False
      then show ?thesis by (auto simp: set split: if_splits)
    qed
  qed
  then show "small_live st' = (small_live st)(a \<mapsto> (s, unat v))" by simp
qed

section \<open>Insertion\<close>

definition small_fresh :: "small_alloc \<Rightarrow> Eina_Stringshare_Small \<Rightarrow> bool" where
  "small_fresh al st \<longleftrightarrow> (\<forall>a. text_mem al = Some a \<longrightarrow> sm_text st a = None)"

lemma sorted_ins:
  assumes "sorted_wrt (<) (xs :: int list)" "i \<le> length xs" "\<And>j. j < i \<Longrightarrow> xs ! j < k" "\<And>j. i \<le> j \<Longrightarrow> j < length xs \<Longrightarrow> k < xs ! j"
  shows "sorted_wrt (<) (ins i k xs)"
proof -
  have "\<forall>x \<in> set (take i xs). x < k" "\<forall>x \<in> set (drop i xs). k < x"
    using assms(2-4) by (auto simp: in_set_conv_nth)
  moreover have "sorted_wrt (<) (take i xs @ drop i xs)" using assms(1) by simp
  ultimately show ?thesis
    unfolding ins_def sorted_wrt_append by (auto intro: less_trans)
qed

lemma bucket_insert:
  assumes b: "bucket_has b E" and room: "sb_count b < sb_size b" and i: "i \<le> length E"
    and pos: "\<And>j. j < i \<Longrightarrow> skey (e_str (E ! j)) < skey s" "\<And>j. i \<le> j \<Longrightarrow> j < length E \<Longrightarrow> skey s < skey (e_str (E ! j))"
  obtains A L R where "insert_item (sb_strings b) (sb_count b) i a = Some A" "insert_item (sb_lengths b) (sb_count b) i (of_nat (length s)) = Some L"
    "insert_item (sb_references b) (sb_count b) i 1 = Some R"
    "bucket_has (b\<lparr>sb_strings := A, sb_lengths := L, sb_references := R, sb_count := sb_count b + 1\<rparr>) (ins i (a, s, 1) E)"
proof -
  have n: "sb_count b = length E" and l: "length E < length (sb_strings b)" "length E < length (sb_lengths b)" "length E < length (sb_references b)"
    and t: "take (length E) (sb_strings b) = map fst E" "take (length E) (sb_lengths b) = map (\<lambda>e. of_nat (length (e_str e))) E"
      "take (length E) (sb_references b) = map (\<lambda>e. snd (snd e)) E"
    using b room by (auto simp: bucket_has_def)
  obtain A where A: "insert_item (sb_strings b) (length E) i a = Some A" "length A = length (sb_strings b)"
    "take (Suc (length E)) A = ins i a (map fst E)"
    using insert_item_law [OF i l(1)] t(1) by metis
  obtain L where L: "insert_item (sb_lengths b) (length E) i (of_nat (length s)) = Some L" "length L = length (sb_lengths b)"
    "take (Suc (length E)) L = ins i (of_nat (length s)) (map (\<lambda>e. of_nat (length (e_str e))) E)"
    using insert_item_law [OF i l(2)] t(2) by metis
  obtain R where R: "insert_item (sb_references b) (length E) i 1 = Some R" "length R = length (sb_references b)"
    "take (Suc (length E)) R = ins i 1 (map (\<lambda>e. snd (snd e)) E)"
    using insert_item_law [OF i l(3)] t(3) by metis
  have "sorted_wrt (<) (map (\<lambda>e. skey (e_str e)) (ins i (a, s, 1) E))"
    unfolding map_ins fst_conv snd_conv using b i pos by (intro sorted_ins) (auto simp: bucket_has_def)
  then have "bucket_has (b\<lparr>sb_strings := A, sb_lengths := L, sb_references := R, sb_count := sb_count b + 1\<rparr>) (ins i (a, s, 1) E)"
    using b room i A(2,3) L(2,3) R(2,3) by (simp add: bucket_has_def map_ins)
  with A(1) L(1) R(1) show thesis using that by (simp add: n)
qed

lemma insert_at_law:
  assumes ok: "small_ok st E" and al: "small_fresh al st" and s: "is_small s" "hd s = c" and i: "i \<le> length (E c)"
    and pos: "\<And>j. j < i \<Longrightarrow> skey (e_str (E c ! j)) < skey s" "\<And>j. i \<le> j \<Longrightarrow> j < length (E c) \<Longrightarrow> skey s < skey (e_str (E c ! j))"
  obtains st' r where "stringshare_small_bucket_insert_at al st c (s @ rest) (of_nat (length s)) i = Some (st', r)" "small_inv st'"
    "share_spec (small_live st) (Share d s) (Pointer r) (small_live st')"
proof -
  have un: "unshared (small_live st) s"
    unfolding unshared_def
  proof (intro allI notI)
    fix p m assume "small_live st p = Some (s, m)"
    then obtain c' r where e: "(p, s, r) \<in> set (E c')" unfolding small_live_iff [OF ok] by blast
    with small_okD(3) [OF ok e] s have "(p, s, r) \<in> set (E c)" by (simp add: entry_ok_def)
    then obtain j where "j < length (E c)" "e_str (E c ! j) = s" unfolding in_set_conv_nth by auto
    with pos [of j] show False by (cases "j < i") auto
  qed
  let ?zero = "\<lparr>sb_strings = [], sb_lengths = [], sb_references = [], sb_count = 0, sb_size = 0\<rparr> :: Eina_Stringshare_Small_Bucket"
  let ?mb = "case sm_buckets st c of Some bucket \<Rightarrow> Some bucket | None \<Rightarrow> if bucket_mem al then Some ?zero else None"
  let ?run = "stringshare_small_bucket_insert_at al st c (s @ rest) (of_nat (length s)) i"
  show thesis
  proof (cases ?mb)
    case None
    then have "?run = Some (st, None)"
      by (auto simp: stringshare_small_bucket_insert_at_def split: option.splits if_splits)
    with that ok un show thesis by (auto simp: small_inv_def intro: share_spec.refused)
  next
    case (Some b)
    have b: "bucket_has b (E c)"
    proof (cases "sm_buckets st c")
      case None
      with Some small_okD(1) [OF ok None] show ?thesis by (auto simp: bucket_has_def split: if_splits)
    next
      case (Some b')
      with \<open>?mb = Some b\<close> small_okD(2) [OF ok] show ?thesis by simp
    qed
    obtain b1 ok1 where b1: "(if sb_size b \<le> sb_count b + 1
        then stringshare_small_bucket_resize al b (sb_size b + EINA_STRINGSHARE_SMALL_BUCKET_STEP) else (b, True)) = (b1, ok1)"
      "bucket_has b1 (E c)" "ok1 \<Longrightarrow> sb_count b1 < sb_size b1"
    proof (cases "sb_size b \<le> sb_count b + 1")
      case True
      obtain b' ok' where r: "stringshare_small_bucket_resize al b (sb_size b + EINA_STRINGSHARE_SMALL_BUCKET_STEP) = (b', ok')" "bucket_has b' (E c)"
        "ok' \<Longrightarrow> sb_size b' = sb_size b + EINA_STRINGSHARE_SMALL_BUCKET_STEP"
        using resize_law [OF b, of "sb_size b + EINA_STRINGSHARE_SMALL_BUCKET_STEP" al] by auto
      have "ok' \<Longrightarrow> sb_count b' < sb_size b'"
        using r b by (auto simp: bucket_has_def EINA_STRINGSHARE_SMALL_BUCKET_STEP_def)
      with True r that show thesis by simp
    next
      case False
      with b that [of b True] show thesis by simp
    qed
    define st1 where "st1 = st\<lparr>sm_buckets := (sm_buckets st)(c \<mapsto> b1)\<rparr>"
    have ok1': "small_ok st1 E"
    proof -
      have "small_ok (st\<lparr>sm_text := sm_text st, sm_buckets := (sm_buckets st)(c := Some b1)\<rparr>) (E(c := E c))"
        by (rule small_update [OF ok]) (use b1(2) small_okD(3) [OF ok] small_text_dom [OF ok] in auto)
      then show ?thesis by (simp add: st1_def)
    qed
    have live1: "small_live st1 = small_live st"
      by (rule small_live_eqI [OF ok1']) (rule small_live_iff [OF ok])
    have run: "?run = (if \<not> ok1 then Some (st1, None)
        else (case text_mem al of
            None \<Rightarrow> Some (st1, None)
          | Some snew \<Rightarrow> do {
              text \<leftarrow> mem_read (s @ rest) 0 (unat (of_nat (length s) :: u8));
              strings \<leftarrow> insert_item (sb_strings b1) (sb_count b1) i snew;
              lengths \<leftarrow> insert_item (sb_lengths b1) (sb_count b1) i (of_nat (length s));
              references \<leftarrow> insert_item (sb_references b1) (sb_count b1) i 1;
              Some (st1\<lparr>sm_text := (sm_text st1)(snew \<mapsto> text @ [0]),
                        sm_buckets := (sm_buckets st1)(c \<mapsto>
                          b1\<lparr>sb_strings := strings, sb_lengths := lengths, sb_references := references,
                             sb_count := sb_count b1 + 1\<rparr>)\<rparr>, Some snew)
            }))"
      unfolding stringshare_small_bucket_insert_at_def Some option.case b1(1) Let_def prod.case st1_def ..
    show thesis
    proof (cases "ok1 \<and> text_mem al \<noteq> None")
      case False
      then have "?run = Some (st1, None)"
        unfolding run by auto
      moreover have "share_spec (small_live st) (Share d s) (Pointer None) (small_live st1)"
        unfolding live1 by (rule share_spec.refused [OF un])
      ultimately show thesis using that ok1' by (auto simp: small_inv_def)
    next
      case True
      then obtain a where a: "text_mem al = Some a" by auto
      then have new: "sm_text st a = None" using al by (simp add: small_fresh_def)
      obtain A L R where ALR: "insert_item (sb_strings b1) (sb_count b1) i a = Some A"
        "insert_item (sb_lengths b1) (sb_count b1) i (of_nat (length s)) = Some L" "insert_item (sb_references b1) (sb_count b1) i 1 = Some R"
        "bucket_has (b1\<lparr>sb_strings := A, sb_lengths := L, sb_references := R, sb_count := sb_count b1 + 1\<rparr>) (ins i (a, s, 1) (E c))"
        (is "bucket_has ?b2 ?E2")
        by (rule bucket_insert [OF b1(2) _ i pos]) (use True b1(3) in blast)+
      have len: "unat (of_nat (length s) :: u8) = length s" using s(1) by (auto simp: is_small_def)
      define st2 where "st2 = st1\<lparr>sm_text := (sm_text st1)(a \<mapsto> s @ [0]), sm_buckets := (sm_buckets st1)(c := Some ?b2)\<rparr>"
      have r: "?run = Some (st2, Some a)"
        unfolding run using True a ALR(1-3) len by (simp add: st2_def mem_read_def)
      have text1: "sm_text st1 = sm_text st" by (simp add: st1_def)
      have other: "fst e \<noteq> a" if "e \<in> set (E c')" for e c'
        using small_okD(3) [OF ok that] new by (auto simp: entry_ok_def)
      have ok2: "small_ok st2 (E(c := ?E2))"
        unfolding st2_def
      proof (rule small_update [OF ok1'])
        show "case Some ?b2 of None \<Rightarrow> ?E2 = [] | Some b \<Rightarrow> bucket_has b ?E2" using ALR(4) by simp
        show "entry_ok (st1\<lparr>sm_text := (sm_text st1)(a \<mapsto> s @ [0])\<rparr>) c e" if "e \<in> set ?E2" for e
          using that s small_okD(3) [OF ok1', of e c] other [of e c] by (auto simp: set_ins entry_ok_def)
        show "((sm_text st1)(a \<mapsto> s @ [0])) (fst e) = sm_text st1 (fst e)" if "e \<in> set (E c')" for c' e
          using other [OF that] by simp
        show "a' \<in> fst ` set ?E2 \<or> (\<exists>c'. c' \<noteq> c \<and> a' \<in> fst ` set (E c'))" if "((sm_text st1)(a \<mapsto> s @ [0])) a' \<noteq> None" for a'
          using that small_text_dom [OF ok1', of a' c] by (cases "a' = a") (auto simp: set_ins)
      qed
      have "small_live st2 = (small_live st)(a := map_option (\<lambda>(t, r). (t, unat r)) (Some (s, 1 :: u32)))"
      proof (rule live_upd [OF ok ok2])
        fix p t q
        show "(\<exists>c'. (p, t, q) \<in> set ((E(c := ?E2)) c')) \<longleftrightarrow> (if p = a then Some (s, 1) = Some (t, q) else \<exists>c. (p, t, q) \<in> set (E c))"
          using other [of "(p, t, q)"] by (auto simp: set_ins split: if_splits)
      qed
      moreover have "small_live st a = None" using new by (simp add: small_live_def)
      ultimately show thesis
        using that [OF r] ok2 share_spec.stored [OF un, of a d] by (auto simp: small_inv_def)
    qed
  qed
qed

section \<open>Removal\<close>

definition shrink_ok :: "small_alloc \<Rightarrow> bool" where
  "shrink_ok al \<longleftrightarrow> (strings_mem al \<longrightarrow> lengths_mem al \<and> references_mem al)"

lemma set_rem: "distinct xs \<Longrightarrow> i < length xs \<Longrightarrow> set (rem i xs) = set xs - {xs ! i}"
proof -
  assume a: "distinct xs" "i < length xs"
  define A B where "A = take i xs" and "B = drop (Suc i) xs"
  have xs: "xs = A @ xs ! i # B"
    unfolding A_def B_def by (rule id_take_nth_drop [OF a(2)])
  have "distinct (A @ xs ! i # B)" using a(1) xs by simp
  then have "set (A @ B) = set (A @ xs ! i # B) - {xs ! i}" by auto
  then show ?thesis unfolding xs [symmetric] by (simp add: rem_def A_def B_def)
qed

lemma sorted_rem: "sorted_wrt P xs \<Longrightarrow> sorted_wrt P (rem i xs)"
proof -
  assume "sorted_wrt P xs"
  then have "sorted_wrt P (take i xs @ drop i xs)" by simp
  moreover have "set (drop (Suc i) xs) \<subseteq> set (drop i xs)" by (rule set_drop_subset_set_drop) simp
  moreover have "sorted_wrt P (drop (Suc i) xs)" using \<open>sorted_wrt P xs\<close> by (rule sorted_wrt_drop)
  ultimately show ?thesis unfolding rem_def sorted_wrt_append by blast
qed

lemma bucket_remove:
  assumes b: "bucket_has b E" and i: "i < length E" and n: "n = sb_count b - 1"
  obtains b' where "(if i = n then Some (b\<lparr>sb_count := n\<rparr>)
      else do {
        strings \<leftarrow> mem_move (sb_strings b) i (i + 1) (n - i);
        lengths \<leftarrow> mem_move (sb_lengths b) i (i + 1) (n - i);
        references \<leftarrow> mem_move (sb_references b) i (i + 1) (n - i);
        Some (b\<lparr>sb_strings := strings, sb_lengths := lengths, sb_references := references, sb_count := n\<rparr>)
      }) = Some b'" "bucket_has b' (rem i E)" "sb_size b' = sb_size b"
proof -
  have len: "length E = Suc n" using b i n by (auto simp: bucket_has_def)
  have l: "n < length (sb_strings b)" "n < length (sb_lengths b)" "n < length (sb_references b)"
    and t: "take (Suc n) (sb_strings b) = map fst E" "take (Suc n) (sb_lengths b) = map (\<lambda>e. of_nat (length (e_str e))) E"
      "take (Suc n) (sb_references b) = map (\<lambda>e. snd (snd e)) E"
    using b len by (auto simp: bucket_has_def)
  have srt: "sorted_wrt (<) (map (\<lambda>e. skey (e_str e)) (rem i E))"
    unfolding map_rem using b by (intro sorted_rem) (simp add: bucket_has_def)
  show thesis
  proof (cases "i = n")
    case True
    have last: "rem i xs = take n xs" if "length xs = Suc n" for xs :: "'b list"
      using that True by (simp add: rem_def)
    have tk: "take n xs = rem i ys" if "take (Suc n) xs = ys" "length ys = Suc n" for xs ys :: "'b list"
      using that True by (auto simp: rem_def)
    have "bucket_has (b\<lparr>sb_count := n\<rparr>) (rem i E)"
      using b len i srt tk [OF t(1)] tk [OF t(2)] tk [OF t(3)] by (auto simp: bucket_has_def map_rem)
    with True that show thesis by simp
  next
    case False
    then have i': "i < n" using i len by simp
    obtain A where A: "mem_move (sb_strings b) i (i + 1) (n - i) = Some A" "length A = length (sb_strings b)" "take n A = rem i (map fst E)"
      using remove_item_law [OF i' l(1)] t(1) by metis
    obtain L where L: "mem_move (sb_lengths b) i (i + 1) (n - i) = Some L" "length L = length (sb_lengths b)"
      "take n L = rem i (map (\<lambda>e. of_nat (length (e_str e))) E)"
      using remove_item_law [OF i' l(2)] t(2) by metis
    obtain R where R: "mem_move (sb_references b) i (i + 1) (n - i) = Some R" "length R = length (sb_references b)"
      "take n R = rem i (map (\<lambda>e. snd (snd e)) E)"
      using remove_item_law [OF i' l(3)] t(3) by metis
    have "bucket_has (b\<lparr>sb_strings := A, sb_lengths := L, sb_references := R, sb_count := n\<rparr>) (rem i E)"
      using b len i srt A(2,3) L(2,3) R(2,3) by (simp add: bucket_has_def map_rem)
    with False A(1) L(1) R(1) that show thesis by simp
  qed
qed

lemma small_drop:
  assumes ok: "small_ok st E" and i: "i < length (E c)" "E c ! i = (a, s, r)"
    and mb: "case mb of None \<Rightarrow> rem i (E c) = [] | Some b \<Rightarrow> bucket_has b (rem i (E c))"
    and st': "st' = st\<lparr>sm_text := (sm_text st)(a := None), sm_buckets := (sm_buckets st)(c := mb)\<rparr>"
  shows "small_ok st' (E(c := rem i (E c)))" "small_live st' = (small_live st)(a := None)"
proof -
  have d: "distinct (E c)" using distinct_addresses [OF ok, of c] by (simp add: distinct_map)
  have set: "set (rem i (E c)) = set (E c) - {(a, s, r)}" using set_rem [OF d i(1)] i(2) by simp
  have e: "(a, s, r) \<in> set (E c)" using i by (metis nth_mem)
  have only: "c' = c \<and> e' = (a, s, r)" if "e' \<in> set (E c')" "fst e' = a" for c' e'
    using same_address [OF ok that(1) e] that(2) by simp
  show ok': "small_ok st' (E(c := rem i (E c)))"
    unfolding st'
  proof (rule small_update [OF ok mb])
    show "entry_ok (st\<lparr>sm_text := (sm_text st)(a := None)\<rparr>) c e'" if "e' \<in> set (rem i (E c))" for e'
      using that small_okD(3) [OF ok, of e' c] only [of e' c] unfolding set by (auto simp: entry_ok_def)
    show "((sm_text st)(a := None)) (fst e') = sm_text st (fst e')" if "c' \<noteq> c" "e' \<in> set (E c')" for c' e'
      using only [OF that(2)] that(1) by auto
    show "a' \<in> fst ` set (rem i (E c)) \<or> (\<exists>c'. c' \<noteq> c \<and> a' \<in> fst ` set (E c'))" if "((sm_text st)(a := None)) a' \<noteq> None" for a'
    proof -
      have "a' \<noteq> a" "sm_text st a' \<noteq> None" using that by (auto split: if_splits)
      then show ?thesis
        using small_text_dom [OF ok, of a' c] unfolding set by force
    qed
  qed
  have "small_live st' = (small_live st)(a := map_option (\<lambda>(t, r). (t, unat r)) (None :: (u8 list \<times> u32) option))"
  proof (rule live_upd [OF ok ok'])
    fix p t q
    show "(\<exists>c'. (p, t, q) \<in> set ((E(c := rem i (E c))) c')) \<longleftrightarrow> (if p = a then None = Some (t, q) else \<exists>c. (p, t, q) \<in> set (E c))"
      using only [of "(p, t, q)"] by (auto simp: set split: if_splits)
  qed
  then show "small_live st' = (small_live st)(a := None)" by simp
qed

section \<open>The operations\<close>

lemma small_add_law:
  assumes inv: "small_inv st" and al: "small_fresh al st" and s: "is_small s"
    and lt: "\<And>p m. small_live st p = Some (s, m) \<Longrightarrow> m + 1 < 2 ^ 32"
  obtains st' r where "stringshare_small_add al st (s @ rest) (of_nat (length s)) = Some (st', r)" "small_inv st'"
    "share_spec (small_live st) (Share d s) (Pointer r) (small_live st')"
proof -
  obtain E where ok: "small_ok st E" using inv by (auto simp: small_inv_def)
  define c where "c = hd s"
  have c: "elem_at (s @ rest) 0 = Some c"
    using s by (cases s) (auto simp: is_small_def c_def)
  show thesis
  proof (cases "sm_buckets st c")
    case None
    have "E c = []" by (rule small_okD(1) [OF ok None])
    then show thesis
      using insert_at_law [OF ok al s c_def [symmetric], of 0 rest d] None c that by (auto simp: stringshare_small_add_def)
  next
    case (Some b)
    note b = small_okD(2) [OF ok Some]
    have e: "\<forall>e \<in> set (E c). entry_ok st c e" using small_okD(3) [OF ok] by blast
    show thesis
    proof (cases rule: find_small_law [OF b e s c_def [symmetric], of rest, case_names found absent])
      case (found a i n)
      have in_E: "(a, s, n) \<in> set (E c)" using found(2,3) by (metis nth_mem)
      then have live: "small_live st a = Some (s, unat n)" unfolding small_live_iff [OF ok] by blast
      have inc: "unat (n + 1) = unat n + 1" using lt [OF live] unat_Suc_less [of n] by simp
      then have nz: "n + 1 \<noteq> 0" by auto
      note upd = small_refs [OF ok Some found(2,3) nz refl]
      have "elem_at (sb_references b) i = Some n"
        using bucket_nth [OF b found(2)] found(3) by (simp add: elem_at_def)
      then have "stringshare_small_add al st (s @ rest) (of_nat (length s)) =
          Some (st\<lparr>sm_buckets := (sm_buckets st)(c \<mapsto> b\<lparr>sb_references := (sb_references b)[i := n + 1]\<rparr>)\<rparr>, Some a)"
        using c Some found(1) by (simp add: stringshare_small_add_def)
      then show thesis
        by (rule that) (use upd share_spec.found [of "small_live st", OF live, of d] inc in \<open>auto simp: small_inv_def\<close>)
    next
      case (absent i)
      have "stringshare_small_add al st (s @ rest) (of_nat (length s)) =
          stringshare_small_bucket_insert_at al st c (s @ rest) (of_nat (length s)) i"
        using c Some absent(1) by (simp add: stringshare_small_add_def)
      then show thesis
        using insert_at_law [OF ok al s c_def [symmetric] absent(2-4), of rest d] that by metis
    qed
  qed
qed

lemma small_del_law:
  assumes inv: "small_inv st" and al: "shrink_ok al" and p: "small_live st p = Some (s, m)"
  obtains st' where "stringshare_small_del al st (s @ rest) (of_nat (length s)) = Some st'" "small_inv st'"
    "share_spec (small_live st) (Drop d p) Dropped (small_live st')"
proof -
  obtain E where ok: "small_ok st E" using inv by (auto simp: small_inv_def)
  obtain c r where e: "(p, s, r) \<in> set (E c)" "m = unat r" using p unfolding small_live_iff [OF ok] by blast
  then have s: "is_small s" "hd s = c" "r \<noteq> 0" using small_okD(3) [OF ok e(1)] by (auto simp: entry_ok_def)
  have c: "elem_at (s @ rest) 0 = Some c"
    using s by (cases s) (auto simp: is_small_def)
  have "E c \<noteq> []" using e(1) by auto
  then obtain b where b: "sm_buckets st c = Some b" "bucket_has b (E c)" by (rule small_bucket [OF ok])
  have en: "\<forall>e \<in> set (E c). entry_ok st c e" using small_okD(3) [OF ok] by blast
  have spec: "share_spec (small_live st) (Drop d p) Dropped ((small_live st)(p := (if m \<le> 1 then None else Some (s, m - 1))))"
    by (rule share_spec.dropped [of "small_live st", OF p])
  show thesis
  proof (cases rule: find_small_law [OF b(2) en s(1,2), of rest, case_names found absent])
    case (absent i)
    with no_such_string [where s = s and i = i and e = "(p, s, r)", OF b(2)] e(1) show thesis by simp
  next
    case (found a i n)
    have "(a, s, n) = (p, s, r)"
    proof -
      obtain j where j: "j < length (E c)" "E c ! j = (p, s, r)" using e(1) unfolding in_set_conv_nth by blast
      with found skey_nth [OF b(2), of i j] skey_nth [OF b(2), of j i] show ?thesis
        by (cases i j rule: linorder_cases) auto
    qed
    then have at: "E c ! i = (p, s, r)" using found(3) by simp
    note nth = bucket_nth [OF b(2) found(2), unfolded at fst_conv snd_conv]
    let ?run = "stringshare_small_bucket_remove_at al st c b i"
    have run: "stringshare_small_del al st (s @ rest) (of_nat (length s)) = ?run"
      using c b(1) found(1) by (simp add: stringshare_small_del_def)
    show thesis
    proof (cases "1 < r")
      case True
      have m: "1 < m" using True e(2) by (simp add: word_less_nat_alt)
      have dec: "unat (r - 1) = m - 1" using e(2) s(3) by (simp add: unat_minus_one)
      then have nz: "r - 1 \<noteq> 0" using m by auto
      note upd = small_refs [OF ok b(1) found(2) at nz refl]
      have "?run = Some (st\<lparr>sm_buckets := (sm_buckets st)(c \<mapsto> b\<lparr>sb_references := (sb_references b)[i := r - 1]\<rparr>)\<rparr>)"
        using True nth by (simp add: stringshare_small_bucket_remove_at_def elem_at_def)
      then show thesis
        using that [OF run [THEN trans]] upd spec m dec by (auto simp: small_inv_def)
    next
      case False
      then have m: "m \<le> 1" using e(2) by (simp add: word_less_nat_alt)
      have n: "sb_count b = length (E c)" using b(2) by (simp add: bucket_has_def)
      show thesis
      proof (cases "sb_count b = 1")
        case True
        then have "rem i (E c) = []" using found(2) n by (simp add: rem_def)
        then have mb: "case None of None \<Rightarrow> rem i (E c) = [] | Some b \<Rightarrow> bucket_has b (rem i (E c))" by simp
        note upd = small_drop [OF ok found(2) at mb refl]
        have "?run = Some (st\<lparr>sm_text := (sm_text st)(p := None), sm_buckets := (sm_buckets st)(c := None)\<rparr>)"
          using False True nth by (simp add: stringshare_small_bucket_remove_at_def elem_at_def Let_def)
        then show thesis
          using that [OF run [THEN trans]] upd spec m by (auto simp: small_inv_def)
      next
        case more: False
        obtain b1 where b1: "(if i = sb_count b - 1 then Some (b\<lparr>sb_count := sb_count b - 1\<rparr>)
            else do {
              strings \<leftarrow> mem_move (sb_strings b) i (i + 1) (sb_count b - 1 - i);
              lengths \<leftarrow> mem_move (sb_lengths b) i (i + 1) (sb_count b - 1 - i);
              references \<leftarrow> mem_move (sb_references b) i (i + 1) (sb_count b - 1 - i);
              Some (b\<lparr>sb_strings := strings, sb_lengths := lengths, sb_references := references, sb_count := sb_count b - 1\<rparr>)
            }) = Some b1" "bucket_has b1 (rem i (E c))"
          by (rule bucket_remove [OF b(2) found(2) refl])
        define b2 where "b2 = (if sb_count b - 1 + EINA_STRINGSHARE_SMALL_BUCKET_STEP < sb_size b1
            then fst (stringshare_small_bucket_resize al b1 (sb_size b1 - EINA_STRINGSHARE_SMALL_BUCKET_STEP)) else b1)"
        have b2: "bucket_has b2 (rem i (E c))"
        proof (cases "sb_count b - 1 + EINA_STRINGSHARE_SMALL_BUCKET_STEP < sb_size b1")
          case True
          then have "length (rem i (E c)) \<le> sb_size b1 - EINA_STRINGSHARE_SMALL_BUCKET_STEP" using found(2) n by simp
          then obtain b' ok' where "stringshare_small_bucket_resize al b1 (sb_size b1 - EINA_STRINGSHARE_SMALL_BUCKET_STEP) = (b', ok')"
            "bucket_has b' (rem i (E c))"
            by (rule resize_law [OF b1(2) disjI2 [OF conjI [OF _ al [unfolded shrink_ok_def]]]])
          with True show ?thesis by (simp add: b2_def)
        next
          case False
          with b1(2) show ?thesis unfolding b2_def by simp
        qed
        then have mb: "case Some b2 of None \<Rightarrow> rem i (E c) = [] | Some b \<Rightarrow> bucket_has b (rem i (E c))" by simp
        note upd = small_drop [OF ok found(2) at mb refl]
        have "?run = Some (st\<lparr>sm_text := (sm_text st)(p := None), sm_buckets := (sm_buckets st)(c := Some b2)\<rparr>)"
        proof -
          have refs: "elem_at (sb_references b) i = Some r" "elem_at (sb_strings b) i = Some p"
            using nth by (simp_all add: elem_at_def)
          show ?thesis
            unfolding stringshare_small_bucket_remove_at_def refs Let_def Option.bind.bind_lunit if_not_P [OF False] if_not_P [OF more] b1(1)
            by (simp add: b2_def)
        qed
        then show thesis
          using that [OF run [THEN trans]] upd spec m by (auto simp: small_inv_def)
      qed
    qed
  qed
qed

end
