(* ===== verification/Eina_Stringshare_Props.thy ===== *)
theory Eina_Stringshare_Props
  imports Eina_Stringshare_Ops Eina_Share_Props
begin

text \<open>
  The string pool as a client sees it: both pools together follow the specification of one
  pool, for strings of two characters and more without a zero byte.
\<close>

section \<open>The two pools as one\<close>

definition stringshare_live :: "stringshare_pool \<Rightarrow> stringshare shared" where
  "stringshare_live st p =
     (case p of Small a \<Rightarrow> small_live (small st) a | Common q \<Rightarrow> share_live (common st) q | _ \<Rightarrow> None)"

lemma stringshare_live_simps [simp]:
  "stringshare_live st (Small a) = small_live (small st) a" "stringshare_live st (Common q) = share_live (common st) q"
  "stringshare_live st Empty = None" "stringshare_live st (Single i) = None"
  by (simp_all add: stringshare_live_def)

definition stringshare_ok :: "stringshare_pool \<Rightarrow> bool" where
  "stringshare_ok st \<longleftrightarrow> small_inv (small st) \<and> share_inv 1 (common st)
     \<and> (\<forall>a s n. small_live (small st) a = Some (s, n) \<longrightarrow> 0 \<notin> set s)
     \<and> (\<forall>q s n. share_live (common st) q = Some (s, n) \<longrightarrow> 0 \<notin> set s \<and> 4 \<le> length s)"

lemma stringshare_okD:
  assumes "stringshare_ok st"
  shows "small_inv (small st)" "share_inv 1 (common st)" "small_live (small st) a = Some (s, n) \<Longrightarrow> 0 \<notin> set s"
    "share_live (common st) q = Some (s, n) \<Longrightarrow> 0 \<notin> set s \<and> 4 \<le> length s"
  using assms unfolding stringshare_ok_def by blast+

definition stringshare_fresh :: "stringshare_alloc \<Rightarrow> stringshare_pool \<Rightarrow> bool" where
  "stringshare_fresh al st \<longleftrightarrow> small_fresh (for_small al) (small st) \<and> alloc_fresh (for_common al) (common st)"

definition stringshare_str_ok :: "u8 list \<Rightarrow> bool" where
  "stringshare_str_ok s \<longleftrightarrow> 0 \<notin> set s \<and> 2 \<le> length s \<and> length s < 2 ^ 31"

definition stringshare_initial :: stringshare_pool where
  "stringshare_initial = \<lparr>small = small_initial, common = share_initial\<rparr>"

lemma stringshare_initial_ok: "stringshare_ok stringshare_initial" "stringshare_live stringshare_initial = (\<lambda>_. None)"
proof -
  have "small_ok small_initial (\<lambda>_. [])" "\<And>a. small_live small_initial a = None"
    by (simp_all add: small_ok_def small_initial_def small_live_def)
  moreover have "share_inv 1 share_initial" using share_initial_ok(1) share_inv_def by blast
  ultimately show "stringshare_ok stringshare_initial" "stringshare_live stringshare_initial = (\<lambda>_. None)"
    by (auto simp: stringshare_ok_def stringshare_initial_def small_inv_def share_initial_ok(2) stringshare_live_def fun_eq_iff split: stringshare.splits)
qed

section \<open>What the pointers show\<close>

lemma small_live_text:
  assumes "small_inv st" "small_live st a = Some (s, n)"
  shows "sm_text st a = Some (s @ [0])" "is_small s"
proof -
  obtain E where ok: "small_ok st E" using assms(1) by (auto simp: small_inv_def)
  obtain c r where "(a, s, r) \<in> set (E c)" using assms(2) unfolding small_live_iff [OF ok] by blast
  with small_okD(3) [OF ok this] show "sm_text st a = Some (s @ [0])" "is_small s"
    by (simp_all add: entry_ok_def)
qed

lemma share_live_text:
  assumes "share_inv k st" "share_live st p = Some (s, n)"
  obtains nd where "share_nodes st p = Some nd" "sn_str nd = s @ replicate k 0" "unat (sn_length nd) = length s" "length s < 2 ^ 31" "s \<noteq> []"
proof -
  obtain C where ok: "share_ok k st C" using assms(1) by (auto simp: share_inv_def)
  obtain nd where nd: "share_nodes st p = Some nd" "str_of nd = s"
    using assms(2) unfolding share_live_def by (rule live_SomeD)
  obtain h where "node_ok k h nd" using share_ok_node [OF ok nd(1)] by blast
  from node_okD [OF this] nd that show thesis by auto
qed

lemma short_length_law: "0 \<notin> set s \<Longrightarrow> n \<le> 3 \<Longrightarrow> short_length (s @ [0]) n = Some (if n + length s < 4 then n + length s else 4)"
proof (induction s arbitrary: n)
  case (Cons c s)
  then show ?case by (cases "n = 3") auto
qed simp

lemma strlen_law: "0 \<notin> set s \<Longrightarrow> strlen (s @ [0]) = Some (length s)"
proof -
  assume "0 \<notin> set s"
  then have "\<And>x. x \<in> set s \<Longrightarrow> x \<noteq> 0" by auto
  then show ?thesis by (simp add: strlen_def takeWhile_append2)
qed

lemma stringshare_bytes_law:
  assumes "stringshare_ok st" "stringshare_live st p = Some (s, n)"
  shows "stringshare_bytes st p = Some (s @ [0])" "0 \<notin> set s" "is_small s \<longleftrightarrow> (\<exists>a. p = Small a)" "\<not> is_small s \<longleftrightarrow> (\<exists>q. p = Common q)"
    "2 \<le> length s" "\<not> is_small s \<Longrightarrow> 4 \<le> length s"
proof -
  have "stringshare_bytes st p = Some (s @ [0]) \<and> 0 \<notin> set s \<and> (is_small s \<longleftrightarrow> (\<exists>a. p = Small a)) \<and> (\<not> is_small s \<longleftrightarrow> (\<exists>q. p = Common q))
    \<and> 2 \<le> length s \<and> (\<not> is_small s \<longrightarrow> 4 \<le> length s)"
  proof (cases p)
    case (Small a)
    with assms small_live_text [of "small st" a s n] show ?thesis
      by (auto simp: stringshare_ok_def stringshare_bytes_def is_small_def)
  next
    case (Common q)
    with assms have l: "share_live (common st) q = Some (s, n)" "share_inv 1 (common st)"
      using stringshare_okD(2) [OF assms(1)] by simp_all
    note s = stringshare_okD(4) [OF assms(1) l(1)]
    obtain nd where "share_nodes (common st) q = Some nd" "sn_str nd = s @ [0]"
      using share_live_text [OF l(2,1)] by auto
    with Common s show ?thesis
      by (auto simp: stringshare_bytes_def is_small_def)
  qed (use assms in simp_all)
  then show "stringshare_bytes st p = Some (s @ [0])" "0 \<notin> set s" "is_small s \<longleftrightarrow> (\<exists>a. p = Small a)" "\<not> is_small s \<longleftrightarrow> (\<exists>q. p = Common q)"
    "2 \<le> length s" "\<not> is_small s \<Longrightarrow> 4 \<le> length s"
    by blast+
qed

lemma stringshare_strlen_law:
  assumes "stringshare_ok st" "stringshare_live st p = Some (s, n)"
  shows "eina_stringshare_strlen st (Some p) = Some (int (length s))"
proof -
  note b = stringshare_bytes_law [OF assms]
  have sl: "short_length (s @ [0]) 0 = Some (if length s < 4 then length s else 4)"
    using short_length_law [OF b(2), of 0] by simp
  show ?thesis
  proof (cases p)
    case (Small a)
    then have "is_small s" using b(3) by blast
    with b(1) sl show ?thesis by (auto simp: eina_stringshare_strlen_def is_small_def)
  next
    case (Common q)
    with assms have l: "share_live (common st) q = Some (s, n)" "share_inv 1 (common st)" by (auto simp: stringshare_ok_def)
    obtain nd where nd: "share_nodes (common st) q = Some nd" "unat (sn_length nd) = length s" "length s < 2 ^ 31" "s \<noteq> []"
      using share_live_text [OF l(2,1)] by metis
    have "sn_length nd = of_nat (length s)" by (simp add: word_unat_eq_iff u32_length [OF nd(3)] nd(2))
    then have "sint (sn_length nd) = int (length s)" using sint_u32_length [OF nd(3)] by simp
    moreover have "4 \<le> length s" using Common b(4,6) by blast
    ultimately show ?thesis
      using b(1) sl nd(1,4) Common by (simp add: eina_stringshare_strlen_def eina_share_common_length_def)
  qed (use assms in simp_all)
qed

section \<open>The calls\<close>

lemma small_inj:
  assumes "small_inv st" "small_live st p = Some (s, m)" "small_live st q = Some (s, n)"
  shows "p = q"
proof -
  obtain E where ok: "small_ok st E" using assms(1) by (auto simp: small_inv_def)
  obtain c r where e: "(p, s, r) \<in> set (E c)" using assms(2) unfolding small_live_iff [OF ok] by blast
  obtain c' r' where e': "(q, s, r') \<in> set (E c')" using assms(3) unfolding small_live_iff [OF ok] by blast
  have cc: "c' = c" using small_okD(3) [OF ok e] small_okD(3) [OF ok e'] by (simp add: entry_ok_def)
  have "E c \<noteq> []" using e by auto
  then obtain b where b: "bucket_has b (E c)" by (rule small_bucket [OF ok])
  obtain i j where "i < length (E c)" "E c ! i = (p, s, r)" "j < length (E c)" "E c ! j = (q, s, r')"
    using e e' unfolding cc in_set_conv_nth by blast
  with skey_nth [OF b, of i j] skey_nth [OF b, of j i] show ?thesis
    by (cases i j rule: linorder_cases) auto
qed

lemma small_change:
  assumes ok: "stringshare_ok st" and sm: "small_inv sm" and spec: "share_spec (small_live (small st)) c a (small_live sm)"
    and s: "\<And>d s. c = Share d s \<Longrightarrow> is_small s \<and> 0 \<notin> set s"
  shows "stringshare_ok (st\<lparr>small := sm\<rparr>)"
    "share_spec (stringshare_live st) (map_share_call g Small c) (map_share_answer Small a) (stringshare_live (st\<lparr>small := sm\<rparr>))"
proof -
  have "0 \<notin> set t" if "small_live sm p = Some (t, n)" for p t n
    by (rule share_spec_strings [OF spec _ _ that, of "\<lambda>t. 0 \<notin> set t"]) (use stringshare_okD(3) [OF ok] s in blast)+
  with ok sm show "stringshare_ok (st\<lparr>small := sm\<rparr>)"
    by (auto simp: stringshare_ok_def)
  show "share_spec (stringshare_live st) (map_share_call g Small c) (map_share_answer Small a) (stringshare_live (st\<lparr>small := sm\<rparr>))"
  proof (rule share_spec_part [OF spec])
    fix q :: stringshare assume q: "q \<notin> range Small"
    show "stringshare_live (st\<lparr>small := sm\<rparr>) q = stringshare_live st q"
      using q by (cases q) auto
    show "stringshare_live st q \<noteq> Some (t, n)" if "c = Share d t" for d t n
      using q s [OF that] stringshare_bytes_law(3) [OF ok, of q t n] by auto
  qed (auto intro: injI)
qed

lemma common_change:
  assumes ok: "stringshare_ok st" and co: "share_inv 1 co" and spec: "share_spec (share_live (common st)) c a (share_live co)"
    and s: "\<And>d s. c = Share d s \<Longrightarrow> 4 \<le> length s \<and> 0 \<notin> set s"
  shows "stringshare_ok (st\<lparr>common := co\<rparr>)"
    "share_spec (stringshare_live st) (map_share_call g Common c) (map_share_answer Common a) (stringshare_live (st\<lparr>common := co\<rparr>))"
proof -
  have "0 \<notin> set t \<and> 4 \<le> length t" if "share_live co p = Some (t, n)" for p t n
    by (rule share_spec_strings [OF spec _ _ that, of "\<lambda>t. 0 \<notin> set t \<and> 4 \<le> length t"]) (use stringshare_okD(4) [OF ok] s in blast)+
  with ok co show "stringshare_ok (st\<lparr>common := co\<rparr>)"
    by (auto simp: stringshare_ok_def)
  show "share_spec (stringshare_live st) (map_share_call g Common c) (map_share_answer Common a) (stringshare_live (st\<lparr>common := co\<rparr>))"
  proof (rule share_spec_part [OF spec])
    fix q :: stringshare assume q: "q \<notin> range Common"
    show "stringshare_live (st\<lparr>common := co\<rparr>) q = stringshare_live st q"
      using q by (cases q) auto
    show "stringshare_live st q \<noteq> Some (t, n)" if "c = Share d t" for d t n
      using q s [OF that] stringshare_bytes_law(4) [OF ok, of q t n] by (auto simp: is_small_def)
  qed (auto intro: injI)
qed

lemma slen_tests:
  assumes "stringshare_str_ok s"
  shows "(of_nat (length s) :: u32) \<noteq> 0" "(of_nat (length s) :: u32) \<noteq> 1" "(of_nat (length s) :: u32) < 4 \<longleftrightarrow> is_small s"
    "is_small s \<Longrightarrow> (ucast (of_nat (length s) :: u32) :: u8) = of_nat (length s)"
proof -
  have l: "2 \<le> length s" "length s < 2 ^ 31" using assms by (simp_all add: stringshare_str_ok_def)
  note u = u32_length [OF l(2)]
  show "(of_nat (length s) :: u32) \<noteq> 0" "(of_nat (length s) :: u32) \<noteq> 1" using u l(1) by auto
  have "(of_nat (length s) :: u32) < 4 \<longleftrightarrow> length s < 4" unfolding word_less_nat_alt u by simp
  then show "(of_nat (length s) :: u32) < 4 \<longleftrightarrow> is_small s" using l(1) by (auto simp: is_small_def)
  show "is_small s \<Longrightarrow> (ucast (of_nat (length s) :: u32) :: u8) = of_nat (length s)" by (auto simp: is_small_def)
qed

lemma stringshare_add_law:
  assumes ok: "stringshare_ok st" and al: "stringshare_fresh al st" and s: "stringshare_str_ok s"
    and lt: "\<And>p m. stringshare_live st p = Some (s, m) \<Longrightarrow> m + 1 < 2 ^ 32"
  obtains st' r where "eina_stringshare_add al st (Some (s @ [0])) = Some (st', r)" "stringshare_ok st'"
    "share_spec (stringshare_live st) (Share d s) (Pointer r) (stringshare_live st')"
proof -
  note t = slen_tests [OF s]
  have z: "0 \<notin> set s" using s by (simp add: stringshare_str_ok_def)
  have add: "eina_stringshare_add al st (Some (s @ [0])) = eina_stringshare_add_length al st (Some (s @ [0])) (of_nat (length s))"
    by (simp add: eina_stringshare_add_def strlen_law [OF z])
  show thesis
  proof (cases "is_small s")
    case True
    have inv: "small_inv (small st)" "small_fresh (for_small al) (small st)" using ok al by (simp_all add: stringshare_ok_def stringshare_fresh_def)
    have lt': "m + 1 < 2 ^ 32" if "small_live (small st) p = Some (s, m)" for p m using lt [of "Small p" m] that by simp
    obtain sm r where sm: "stringshare_small_add (for_small al) (small st) (s @ [0]) (of_nat (length s)) = Some (sm, r)" "small_inv sm"
      "share_spec (small_live (small st)) (Share d s) (Pointer r) (small_live sm)"
      by (rule small_add_law [OF inv True lt', where rest = "[0]"])
    have "\<And>d' s'. Share d s = Share d' s' \<Longrightarrow> is_small s' \<and> 0 \<notin> set s'" using True z by simp
    note ch = small_change [OF ok sm(2,3) this]
    have "eina_stringshare_add al st (Some (s @ [0])) = Some (st\<lparr>small := sm\<rparr>, map_option Small r)"
      using add t True sm(1) by (simp add: eina_stringshare_add_length_def)
    then show thesis by (rule that) (use ch(1) ch(2) [where g = id] in simp_all)
  next
    case False
    have inv: "share_inv 1 (common st)" "alloc_fresh (for_common al) (common st)" using ok al by (simp_all add: stringshare_ok_def stringshare_fresh_def)
    have so: "share_str_ok s" and l: "4 \<le> length s" using s False by (auto simp: stringshare_str_ok_def share_str_ok_def is_small_def)
    have lt': "m + 1 < 2 ^ 32" if "share_live (common st) p = Some (s, m)" for p m using lt [of "Common p" m] that by simp
    obtain co r where co: "eina_share_common_add_length (for_common al) (common st) (Some (s @ [0])) (of_nat (length s)) 1 = Some (co, r)" "share_inv 1 co"
      "share_spec (share_live (common st)) (Share d s) (Pointer r) (share_live co)"
      by (rule add_law [OF inv(1) so inv(2) lt', where rest = "[0]"])
    have "\<And>d' s'. Share d s = Share d' s' \<Longrightarrow> 4 \<le> length s' \<and> 0 \<notin> set s'" using l z by simp
    note ch = common_change [OF ok co(2,3) this]
    have "eina_stringshare_add al st (Some (s @ [0])) = Some (st\<lparr>common := co\<rparr>, map_option Common r)"
      using add t False co(1) by (simp add: eina_stringshare_add_length_def)
    then show thesis by (rule that) (use ch(1) ch(2) [where g = id] in simp_all)
  qed
qed

lemma stringshare_ref_law:
  assumes ok: "stringshare_ok st" and al: "stringshare_fresh al st" and p: "stringshare_live st p = Some (s, m)" "m + 1 < 2 ^ 32"
  obtains st' where "eina_stringshare_ref al st (Some p) = Some (st', Some p)" "stringshare_ok st'"
    "share_spec (stringshare_live st) (Take d p) (Pointer (Some p)) (stringshare_live st')"
proof -
  note b = stringshare_bytes_law [OF ok p(1)]
  have sl: "short_length (s @ [0]) 0 = Some (if length s < 4 then length s else 4)"
    using short_length_law [OF b(2), of 0] by simp
  show thesis
  proof (cases p)
    case (Small a)
    then have small: "is_small s" and live: "small_live (small st) a = Some (s, m)" using b(3) p(1) by auto
    have inv: "small_inv (small st)" "small_fresh (for_small al) (small st)" using ok al by (simp_all add: stringshare_ok_def stringshare_fresh_def)
    have only: "p' = a \<and> m' = m" if "small_live (small st) p' = Some (s, m')" for p' m'
      using small_inj [OF inv(1) that live] live that by simp
    have lt: "m' + 1 < 2 ^ 32" if "small_live (small st) p' = Some (s, m')" for p' m' using only [OF that] p(2) by simp
    obtain sm r where sm: "stringshare_small_add (for_small al) (small st) (s @ [0]) (of_nat (length s)) = Some (sm, r)" "small_inv sm"
      "share_spec (small_live (small st)) (Share d s) (Pointer r) (small_live sm)"
      by (rule small_add_law [OF inv small lt, where rest = "[0]"])
    have "\<not> unshared (small_live (small st)) s" using live unfolding unshared_def by blast
    with sm(3) have "\<exists>p' m'. small_live (small st) p' = Some (s, m') \<and> r = Some p' \<and> small_live sm = (small_live (small st))(p' \<mapsto> (s, m' + 1))"
      by (cases rule: share_spec.cases) simp_all
    then obtain p' m' where f: "small_live (small st) p' = Some (s, m')" "r = Some p'" "small_live sm = (small_live (small st))(p' \<mapsto> (s, m' + 1))"
      by blast
    have r: "r = Some a" "small_live sm = (small_live (small st))(a \<mapsto> (s, m + 1))"
      using f(2,3) only [OF f(1)] by simp_all
    have "share_spec (small_live (small st)) (Take d a) (Pointer (Some a)) (small_live sm)"
      unfolding r(2) by (rule share_spec.taken [of "small_live (small st)", OF live])
    note ch = small_change [OF ok sm(2) this]
    have "eina_stringshare_ref al st (Some p) = Some (st\<lparr>small := sm\<rparr>, Some p)"
      using b(1) sl small sm(1) r(1) Small by (auto simp: eina_stringshare_ref_def is_small_def)
    then show thesis by (rule that) (use ch(1) ch(2) [where g = id] Small in simp_all)
  next
    case (Common q)
    then have l: "4 \<le> length s" and live: "share_live (common st) q = Some (s, m)" using b(4,6) p(1) by auto
    obtain co where co: "eina_share_common_ref (common st) (Some q) = Some (co, Some q)" "share_inv 1 co"
      "share_spec (share_live (common st)) (Take d q) (Pointer (Some q)) (share_live co)"
      by (rule ref_law [OF stringshare_okD(2) [OF ok] live p(2)])
    note ch = common_change [OF ok co(2,3)]
    have "0 \<notin> set (drop 3 s)" using b(2) by (meson in_set_dropD)
    then have "strlen (drop 3 (s @ [0])) = Some (length s - 3)" using strlen_law [of "drop 3 s"] l by simp
    moreover have "length s < 2 ^ 31"
      by (rule share_live_text [OF stringshare_okD(2) [OF ok] live])
    then have "length s \<le> INT_MAX" by (simp add: INT_MAX_def)
    ultimately have "eina_stringshare_ref al st (Some p) = Some (st\<lparr>common := co\<rparr>, Some p)"
      using b(1) sl l co(1) Common by (auto simp: eina_stringshare_ref_def)
    then show thesis by (rule that) (use ch(1) ch(2) [where g = id] Common in simp_all)
  qed (use p in simp_all)
qed

lemma stringshare_del_law:
  assumes ok: "stringshare_ok st" and al: "shrink_ok (for_small al)" and p: "stringshare_live st p = Some (s, m)"
  obtains st' where "eina_stringshare_del al st (Some p) = Some st'" "stringshare_ok st'"
    "share_spec (stringshare_live st) (Drop d p) Dropped (stringshare_live st')"
proof -
  note b = stringshare_bytes_law [OF ok p]
  have sl: "short_length (s @ [0]) 0 = Some (if length s < 4 then length s else 4)"
    using short_length_law [OF b(2), of 0] by simp
  show thesis
  proof (cases p)
    case (Small a)
    then have small: "is_small s" and live: "small_live (small st) a = Some (s, m)" using b(3) p by auto
    obtain sm where sm: "stringshare_small_del (for_small al) (small st) (s @ [0]) (of_nat (length s)) = Some sm" "small_inv sm"
      "share_spec (small_live (small st)) (Drop d a) Dropped (small_live sm)"
      by (rule small_del_law [OF stringshare_okD(1) [OF ok] al live, where rest = "[0]"])
    note ch = small_change [OF ok sm(2,3)]
    have "eina_stringshare_del al st (Some p) = Some (st\<lparr>small := sm\<rparr>)"
      using b(1) sl small sm(1) Small by (auto simp: eina_stringshare_del_def is_small_def)
    then show thesis by (rule that) (use ch(1) ch(2) [where g = id] Small in simp_all)
  next
    case (Common q)
    then have l: "4 \<le> length s" and live: "share_live (common st) q = Some (s, m)" using b(4,6) p by auto
    obtain co where co: "eina_share_common_del (common st) (Some q) = Some (co, True)" "share_inv 1 co"
      "share_spec (share_live (common st)) (Drop d q) Dropped (share_live co)"
      by (rule del_law [OF stringshare_okD(2) [OF ok] live])
    note ch = common_change [OF ok co(2,3)]
    have "eina_stringshare_del al st (Some p) = Some (st\<lparr>common := co\<rparr>)"
      using b(1) sl l co(1) Common by (simp add: eina_stringshare_del_def)
    then show thesis by (rule that) (use ch(1) ch(2) [where g = id] Common in simp_all)
  qed (use p in simp_all)
qed

definition stringshare_add where
  "stringshare_add al st s = eina_stringshare_add al st (Some (s @ [0]))"

definition stringshare_ref where
  "stringshare_ref al st p = eina_stringshare_ref al st (Some p)"

definition stringshare_del where
  "stringshare_del al st p = eina_stringshare_del al st (Some p)"

abbreviation stringshare_shrink_ok :: "stringshare_alloc \<Rightarrow> stringshare_pool \<Rightarrow> bool" where
  "stringshare_shrink_ok al st \<equiv> shrink_ok (for_small al)"

interpretation ss: share_pool stringshare_ok stringshare_live stringshare_add stringshare_ref stringshare_del
  stringshare_fresh stringshare_shrink_ok stringshare_str_ok
proof
  fix st c
  assume ok: "stringshare_ok st" and c: "share_call_ok stringshare_live stringshare_fresh stringshare_shrink_ok stringshare_str_ok st c"
  show "\<exists>st' a. share_step stringshare_add stringshare_ref stringshare_del st c = Some (st', a) \<and> stringshare_ok st'
      \<and> share_spec (stringshare_live st) c a (stringshare_live st')"
  proof (cases c)
    case (Share al s)
    then have s: "stringshare_fresh al st" "stringshare_str_ok s" and lt: "\<And>p m. stringshare_live st p = Some (s, m) \<Longrightarrow> m + 1 < 2 ^ 32"
      using c by (auto simp: share_call_ok_def)
    show ?thesis
      by (rule stringshare_add_law [where d = al, OF ok s lt]) (auto simp: Share stringshare_add_def)
  next
    case (Take al p)
    then obtain s m where "stringshare_fresh al st" "stringshare_live st p = Some (s, m)" "m + 1 < 2 ^ 32"
      using c by (auto simp: share_call_ok_def)
    then show ?thesis
      by (rule stringshare_ref_law [where d = al, OF ok]) (auto simp: Take stringshare_ref_def)
  next
    case (Drop al p)
    then obtain s m where "shrink_ok (for_small al)" "stringshare_live st p = Some (s, m)"
      using c by (auto simp: share_call_ok_def)
    then show ?thesis
      by (rule stringshare_del_law [where d = al, OF ok]) (auto simp: Drop stringshare_del_def)
  qed
qed

section \<open>Shutdown\<close>

lemma free_texts_law: "free_texts as t a = (if a \<in> set as then None else t a)"
  by (induction as arbitrary: t) (simp_all add: free_texts_def)

definition small_free :: "u8 \<Rightarrow> Eina_Stringshare_Small \<Rightarrow> Eina_Stringshare_Small" where
  "small_free c st = (case sm_buckets st c of
       None \<Rightarrow> st
     | Some bucket \<Rightarrow> st\<lparr>sm_text := free_texts (take (sb_count bucket) (sb_strings bucket)) (sm_text st),
                       sm_buckets := (sm_buckets st)(c := None)\<rparr>)"

lemma small_free_fold:
  assumes ok: "small_ok st0 E"
  shows "sm_buckets (fold small_free cs st) c = (if c \<in> set cs then None else sm_buckets st c)
    \<and> ((\<forall>c \<in> set cs. sm_buckets st c = sm_buckets st0 c \<or> sm_buckets st c = None \<and> (\<forall>a \<in> fst ` set (E c). sm_text st a = None)) \<longrightarrow>
        (\<forall>a. sm_text (fold small_free cs st) a = (if \<exists>c \<in> set cs. a \<in> fst ` set (E c) then None else sm_text st a)))"
proof (induction cs arbitrary: st)
  case (Cons c' cs)
  let ?st = "small_free c' st"
  have b: "sm_buckets ?st d = (if d = c' then None else sm_buckets st d)" for d
    by (auto simp: small_free_def split: option.splits)
  show ?case
  proof (intro conjI impI allI)
    show "sm_buckets (fold small_free (c' # cs) st) c = (if c \<in> set (c' # cs) then None else sm_buckets st c)"
      using Cons.IH [of ?st] b by auto
    fix a
    assume h: "\<forall>c \<in> set (c' # cs). sm_buckets st c = sm_buckets st0 c \<or> sm_buckets st c = None \<and> (\<forall>a \<in> fst ` set (E c). sm_text st a = None)"
    have t: "sm_text ?st a = (if a \<in> fst ` set (E c') then None else sm_text st a)" for a
    proof (cases "sm_buckets st c'")
      case None
      have "\<forall>a \<in> fst ` set (E c'). sm_text st a = None"
        using h None small_okD(1) [OF ok, of c'] by auto
      with None show ?thesis by (auto simp: small_free_def)
    next
      case (Some bk)
      then have "bucket_has bk (E c')" using h small_okD(2) [OF ok, of c' bk] by auto
      then have "set (take (sb_count bk) (sb_strings bk)) = fst ` set (E c')" by (simp add: bucket_has_def)
      with Some show ?thesis by (simp add: small_free_def free_texts_law)
    qed
    have "\<forall>c \<in> set cs. sm_buckets ?st c = sm_buckets st0 c \<or> sm_buckets ?st c = None \<and> (\<forall>a \<in> fst ` set (E c). sm_text ?st a = None)"
      using h b t by auto
    with Cons.IH [of ?st] t show "sm_text (fold small_free (c' # cs) st) a = (if \<exists>c \<in> set (c' # cs). a \<in> fst ` set (E c) then None else sm_text st a)"
      by auto
  qed
qed simp

lemma all_bytes: "set (map of_nat [0..<256]) = (UNIV :: u8 set)"
proof -
  have "c \<in> of_nat ` {0..<256}" for c :: u8
    using unsigned_less [of c, where 'a = nat] by (intro image_eqI [of _ _ "unat c"]) simp_all
  then show ?thesis by auto
qed

lemma small_shutdown_law:
  assumes "small_inv st"
  shows "stringshare_small_shutdown st = small_initial"
proof -
  obtain E where ok: "small_ok st E" using assms by (auto simp: small_inv_def)
  have run: "stringshare_small_shutdown st = fold small_free (map of_nat [0..<256]) st"
    by (simp add: stringshare_small_shutdown_def small_free_def [abs_def])
  note f = small_free_fold [OF ok, of "map of_nat [0..<256]" st, unfolded all_bytes]
  have "sm_text (fold small_free (map of_nat [0..<256]) st) a = None" for a
    using f small_okD(4) [OF ok, of a] by (cases "sm_text st a") auto
  with f show ?thesis
    unfolding run small_initial_def by (intro Eina_Stringshare_Small.equality) (auto simp: fun_eq_iff)
qed

lemma stringshare_shutdown_law:
  assumes "stringshare_ok st"
  obtains st' where "eina_stringshare_shutdown st = Some st'" "small st' = small_initial"
    "share_heads (common st') = (\<lambda>_. None)" "share_nodes (common st') = (\<lambda>_. None)"
proof -
  obtain co where "eina_share_common_shutdown (common st) = Some co" "share_heads co = (\<lambda>_. None)" "share_nodes co = (\<lambda>_. None)"
    by (rule shutdown_frees_all [OF stringshare_okD(2) [OF assms]])
  then show thesis
    using that small_shutdown_law [OF stringshare_okD(1) [OF assms]] by (simp add: eina_stringshare_shutdown_def)
qed

section \<open>Properties\<close>

text \<open>Calls with all the memory that small arrays ask for, and a string and a reference of each kind.\<close>

definition small_room :: "nat option \<Rightarrow> small_alloc" where
  "small_room a = \<lparr>bucket_mem = True, strings_mem = True, lengths_mem = True, references_mem = True, text_mem = a,
     junk_string = 0, junk_length = 0, junk_reference = 0\<rparr>"

definition stringshare_room :: "nat option \<Rightarrow> stringshare_alloc" where
  "stringshare_room a = \<lparr>for_small = small_room a, for_common = \<lparr>head_mem = a, node_mem = a\<rparr>\<rparr>"

definition some_calls :: "(stringshare_alloc, stringshare) share_call list" where
  "some_calls = [Share (stringshare_room (Some 5)) [97, 98], Share (stringshare_room (Some 6)) [97, 65], Share (stringshare_room None) [97, 98],
     Take (stringshare_room None) (Small 6), Drop (stringshare_room None) (Small 5)]"

lemmas small_eval = stringshare_initial_def small_initial_def share_initial_def stringshare_add_def stringshare_ref_def stringshare_del_def
  eina_stringshare_add_def eina_stringshare_ref_def eina_stringshare_del_def strlen_def eina_stringshare_add_length_def
  stringshare_small_add_def stringshare_small_del_def stringshare_small_bucket_insert_at_def stringshare_small_bucket_resize_def
  array_realloc_def insert_item_def mem_write_def mem_read_def mem_move_def EINA_STRINGSHARE_SMALL_BUCKET_STEP_def
  stringshare_small_bucket_find_def small_find_loop.simps stringshare_small_cmp_def stringshare_small_bucket_remove_at_def
  elem_at_def stringshare_bytes_def stringshare_room_def small_room_def

lemma some_calls_legal:
  "share_legal (share_step stringshare_add stringshare_ref stringshare_del) stringshare_live stringshare_fresh
      stringshare_shrink_ok stringshare_str_ok stringshare_initial some_calls"
proof -
  note live = stringshare_live_def small_live_def share_live_def live_of_def
  note ok = share_call_ok_def stringshare_fresh_def small_fresh_def alloc_fresh_def shrink_ok_def stringshare_str_ok_def
  show ?thesis
    unfolding some_calls_def
    by (simp add: share_call_ok_def stringshare_initial_ok(2), simp add: small_eval live ok split: stringshare.splits)
qed

text \<open>
  C7. Shared strings are interned. Take any sequence of calls to \<open>eina_stringshare_add\<close>, \<open>ref\<close>
  and \<open>del\<close> that starts with the empty pools, with strings of at least two and less than 2^31
  characters, pointers that are held, memory that is not in use, less than 2^32 references to
  a string, and no deletion in which the first array of a bucket is shrunk but one of the
  other two cannot be. It runs without an invalid access and does what the specification of
  one pool says, whatever allocations of the other calls fail (then the answer is null):
  equal strings get the same pointer, different ones different pointers, and a pointer stays
  as long as it was returned more often than deleted. Behind it are the characters of the
  string and the terminator, and \<open>eina_stringshare_strlen\<close> gives its length. Shutdown leaves
  no string, node, head or bucket behind.
\<close>

theorem stringshare_interns:
  assumes "share_legal (share_step stringshare_add stringshare_ref stringshare_del) stringshare_live stringshare_fresh
      stringshare_shrink_ok stringshare_str_ok stringshare_initial cs"
  shows "\<exists>st as. share_run (share_step stringshare_add stringshare_ref stringshare_del) stringshare_initial cs = Some (st, as)
    \<and> share_specs (\<lambda>_. None) cs as (stringshare_live st) \<and> pool_ok (stringshare_live st)
    \<and> (\<forall>p. refs (stringshare_live st) p + dropped_count p cs = held p as)
    \<and> (\<forall>p s n. stringshare_live st p = Some (s, n) \<longrightarrow>
         stringshare_bytes st p = Some (s @ [0]) \<and> eina_stringshare_strlen st (Some p) = Some (int (length s)))
    \<and> (\<exists>left. eina_stringshare_shutdown st = Some left \<and> small left = small_initial
         \<and> share_heads (common left) = (\<lambda>_. None) \<and> share_nodes (common left) = (\<lambda>_. None))"
proof -
  obtain st as where r: "share_run (share_step stringshare_add stringshare_ref stringshare_del) stringshare_initial cs = Some (st, as)"
    "stringshare_ok st" "share_specs (\<lambda>_. None) cs as (stringshare_live st)" "pool_ok (stringshare_live st)"
    "\<forall>p. refs (stringshare_live st) p + dropped_count p cs = held p as"
    using ss.calls_intern [OF stringshare_initial_ok assms] by blast
  then show ?thesis
    using stringshare_bytes_law(1) [OF r(2)] stringshare_strlen_law [OF r(2)] stringshare_shutdown_law [OF r(2)] by metis
qed

theorem stringshare_interns_witness:
  "\<exists>st as. share_run (share_step stringshare_add stringshare_ref stringshare_del) stringshare_initial some_calls = Some (st, as)
    \<and> refs (stringshare_live st) (Small 5) + 1 = held (Small 5) as \<and> refs (stringshare_live st) (Small 6) = held (Small 6) as
    \<and> (\<exists>left. eina_stringshare_shutdown st = Some left \<and> small left = small_initial)"
proof -
  obtain st as where r: "share_run (share_step stringshare_add stringshare_ref stringshare_del) stringshare_initial some_calls = Some (st, as)"
    and refs: "\<forall>p. refs (stringshare_live st) p + dropped_count p some_calls = held p as"
    and fin: "\<exists>left. eina_stringshare_shutdown st = Some left \<and> small left = small_initial"
    using stringshare_interns [OF some_calls_legal] by blast
  have "dropped_count (Small 5) some_calls = 1" "dropped_count (Small 6) some_calls = 0"
    by (simp_all add: dropped_count_def some_calls_def)
  with r refs [rule_format, of "Small 5"] refs [rule_format, of "Small 6"] fin show ?thesis by auto
qed

lemma sint_u8_value: "sint (c :: u8) = (if 128 \<le> c then uint c - 256 else uint c)"
proof -
  have u: "0 \<le> uint c" "uint c < 256" using uint_ge_0 [of c] uint_lt2p [of c] by simp_all
  have b: "bit (uint c) 7 \<longleftrightarrow> 128 \<le> uint c"
  proof -
    have "uint c div 128 = (if 128 \<le> uint c then 1 else 0)" using u by auto
    then show ?thesis by (simp add: bit_iff_odd)
  qed
  have "sint c = take_bit 8 (uint c) - 256 * of_bool (bit (uint c) 7)"
    by (simp add: sint_uint signed_take_bit_eq_take_bit_minus)
  with u b show ?thesis by (simp add: take_bit_eq_mod word_le_def)
qed

lemma sint_u8_negative: "sint (c :: u8) < 0 \<longleftrightarrow> 128 \<le> c"
  using uint_ge_0 [of c] uint_lt2p [of c] by (simp add: sint_u8_value)

lemma drop_pairs: "drop (2 * n) (concat (map (\<lambda>c. [f c, g c]) xs)) = concat (map (\<lambda>c. [f c, g c]) (drop n xs))"
proof (induction n arbitrary: xs)
  case (Suc n)
  then show ?case by (cases xs) simp_all
qed simp

lemma pair_at: "n < N \<Longrightarrow> take 2 (drop (2 * n) (concat (map (\<lambda>c. [f c, g c]) [0..<N]))) = [f n, g n]"
  unfolding drop_pairs drop_upt by (simp add: upt_conv_Cons [of n])

lemma length_pairs: "length (concat (map (\<lambda>c. [f c, g c]) xs)) = 2 * length xs"
  by (induction xs) simp_all

text \<open>
  C40. Strings of one character, where \<open>char\<close> is signed. A character below 128 gives a pointer
  into the constant array at which the character and a terminator are, without a change of
  the pools. From 128 on the character is negative, and the pointer the call computes is
  before the array (\<open>None\<close>). The array has the entries that the larger characters would need.
\<close>

theorem stringshare_single_characters:
  "eina_stringshare_add_length al st (Some (c # rest)) 1 = (if 128 \<le> c then None else Some (st, Some (Single (2 * unat c))))
   \<and> map_option (take 2) (stringshare_bytes st (Single (2 * unat c))) = Some [c, 0]"
proof
  have "nat (sint c * 2) = 2 * unat c" if "\<not> 128 \<le> c"
    using that by (simp add: sint_u8_value nat_mult_distrib)
  then show "eina_stringshare_add_length al st (Some (c # rest)) 1 = (if 128 \<le> c then None else Some (st, Some (Single (2 * unat c))))"
    by (simp add: eina_stringshare_add_length_def sint_u8_negative)
  have c: "unat c < 256" using unsigned_less [of c, where 'a = nat] by simp
  have "unat c * 2 < length eina_stringshare_single"
    unfolding eina_stringshare_single_def length_pairs length_upt using c by linarith
  then show "map_option (take 2) (stringshare_bytes st (Single (2 * unat c))) = Some [c, 0]"
    using pair_at [OF c, of "of_nat :: nat \<Rightarrow> u8" "\<lambda>_. 0"] unfolding stringshare_bytes_def eina_stringshare_single_def
    by (simp del: upt_rec_numeral add: mult.commute)
qed

text \<open>
  A truncated \<open>eina_stringshare_nprintf\<close> stores the terminator as a character. With room
  for four bytes and a longer output the string of three characters is stored with length
  four in the pool of long strings, and \<open>eina_stringshare_del\<close>, which sees a string of three
  characters, looks for it among the small ones: nothing is deleted.
\<close>

theorem stringshare_nprintf_leak:
  assumes "4 \<le> length out" "length out < 2 ^ 31" "0 \<notin> set out" "head_mem (for_common al) = Some a"
  shows "\<exists>st. eina_stringshare_nprintf al stringshare_initial 4 (Some out) rest = Some (st, Some (Common (Builtin a)))
    \<and> stringshare_live st (Common (Builtin a)) = Some (take 3 out @ [0], 1)
    \<and> eina_stringshare_del al' st (Some (Common (Builtin a))) = Some st"
proof -
  obtain x y z u r where out: "out = x # y # z # u # r"
    using assms(1) by (auto simp: numeral_eq_Suc Suc_le_length_iff)
  let ?n = "\<lparr>sn_next = None, sn_length = 4, sn_references = 1, sn_str = [x, y, z, 0, 0]\<rparr>"
  have nz: "x \<noteq> 0" "y \<noteq> 0" "z \<noteq> 0" using assms(3) out by auto
  have "of_nat (if unat (4 :: u32) < length out then unat (4 :: u32) else length out) = (4 :: u32)"
    using assms(1) by (cases "length out = 4") simp_all
  moreover have "unat (4 :: u32) - 1 = 3" "take 3 out = [x, y, z]" by (simp_all add: out)
  ultimately have "eina_stringshare_nprintf al stringshare_initial 4 (Some out) rest
      = eina_stringshare_add_length al stringshare_initial (Some ([x, y, z, 0] @ rest)) 4"
    using assms(1,2) by (auto simp: eina_stringshare_nprintf_def Let_def INT_MAX_def)
  moreover have "mem_read ([x, y, z, 0] @ rest) 0 (unat (4 :: u32)) = Some [x, y, z, 0]" by (simp add: mem_read_def)
  ultimately obtain st where st: "eina_stringshare_nprintf al stringshare_initial 4 (Some out) rest = Some (st, Some (Common (Builtin a)))"
    "share_nodes (common st) (Builtin a) = Some ?n" "small st = small_initial"
    using assms(4)
    by (simp add: eina_stringshare_add_length_def eina_share_common_add_length_def stringshare_initial_def share_initial_def
        share_common_find_hash_def share_common_add_head_def share_common_head_alloc_def share_common_node_init_def Let_def)
  have "stringshare_live st (Common (Builtin a)) = Some (take 3 out @ [0], 1)"
    using st(2) out by (simp add: share_live_def live_of_def str_of_def)
  moreover have "eina_stringshare_del al' st (Some (Common (Builtin a))) = Some st"
    using st(2,3) nz by (simp add: eina_stringshare_del_def stringshare_bytes_def stringshare_small_del_def elem_at_def small_initial_def)
  ultimately show ?thesis using st(1) by blast
qed

theorem stringshare_nprintf_leak_witness:
  "\<exists>st. eina_stringshare_nprintf (stringshare_room (Some 7)) stringshare_initial 4 (Some [97, 98, 99, 100, 101]) [] = Some (st, Some (Common (Builtin 7)))
    \<and> eina_stringshare_del (stringshare_room None) st (Some (Common (Builtin 7))) = Some st"
  using stringshare_nprintf_leak [of "[97, 98, 99, 100, 101]" "stringshare_room (Some 7)" 7 "[]" "stringshare_room None"]
  by (auto simp: stringshare_room_def)

end
