(* ===== verification/Spec2Isabelle.thy ===== *)
theory Spec2Isabelle
  imports Eina_Hash_Keys Eina_Inarray_Laws Eina_Inlist_Props Eina_List_Props Eina_Unicode_Props Eina_Strbuf_Replace Eina_Crc_Laws Eina_Sha Eina_Safepointer_Props Eo_Domains Eina_Stringshare_Props
begin

text \<open>
  A verification development for the shared data types of EFL, the library under
  \<open>src/lib/shared\<close> (historically called Eina) on which the rest of the program is built: the
  object system (\<open>src/lib/eo\<close>), the main loop (\<open>src/lib/core\<close>) and the D-Bus and input
  libraries keep their state in these containers and strings; and for the ids and domains
  of the object system, through which every object is reached.

  \<^bold>\<open>Parts and how they interact.\<close> The red-black tree is the base of the hash table, whose
  buckets are trees of heads, one per hash value, which hold trees of elements; the table
  calls back into key, length and hash functions. The inline list and the list are doubly linked
  lists over nodes that the caller owns or that come from memory pools; both are sorted by
  the same bottom-up merge sort with a stack of runs. The inline array and the string buffers
  are byte buffers that grow in steps through the C allocator. Unicode strings and their
  UTF-8 codec, and the two checksums, work on plain buffers. The pools of shared strings keep one
  copy of each string with a count of its references: long strings in lists under red-black
  trees by their hash, strings of two and three characters in sorted arrays. Safe pointers and object ids
  replace pointers by numbers that are looked up in two levels of tables and carry a
  generation, so that stale ones are refused; object ids also name a domain, whose tables
  belong to a thread, are adopted by another, or are shared under a lock.

  \<^bold>\<open>Modelling.\<close> C memory is modelled where the code's correctness depends on it. Linked nodes live
  in an explicit heap, a finite map from addresses to records, and a null or dangling pointer
  makes the operation \<open>None\<close>; byte buffers are lists with checked reads and writes (theory
  \<open>Memory\<close>), and an access outside of them is \<open>None\<close> too. So every theorem that an operation
  returns \<open>Some\<close> is also a theorem of memory safety. Machine integers are words, or natural
  numbers with the wrap-around written out (\<open>size_t\<close> in the string buffers) or, for \<open>int\<close>
  counters and sizes, with a check: an \<open>int\<close> that overflows makes the operation \<open>None\<close>
  (\<open>c_int\<close> and \<open>in_int\<close> of \<open>Prelude\<close>; the UTF-8 codec, the count of replacements, the sorted
  insertion). The other natural numbers are addresses, offsets into buffers and indices of tables,
  which the sizes of these bound. Locks are counts that the operations take and give back. Allocation can
  fail at every place where the code allocates; callbacks are arguments of the definitions.
  Loops that the code does not bound are \<open>partial_function\<close>, whose \<open>None\<close> includes not
  returning, so that the theorems show termination; no model uses fuel. The null and magic-number checks of
  the entry points are left out.

  \<^bold>\<open>Theories.\<close>

  \<^item> \<open>Prelude\<close>: machine integers, rewrite collections, lists cut by a predicate. \<open>Compare\<close>:
    comparison callbacks and the contract of a total preorder, binary search, \<open>memcmp\<close>.
    \<open>Memory\<close>: byte buffers and the allocator.

  \<^item> \<open>Eina_Rbtree\<close> (\<open>data/eina_rbtree.c\<close>, \<open>eina_inline_rbtree.x\<close>): insertion, removal, lookup,
    deletion. The colour and height invariant is kept for any callback, contents are kept, and
    the 48 entries of the link stacks suffice for fewer than \<open>2^25\<close> nodes.
    \<open>Eina_Rbtree_Iter\<close>: the three iterators and their array of stacked entries. \<open>Rb_Ordered\<close>: trees ordered by
    a callback that is a comparison, as a locale that the hash table instantiates.

  \<^item> \<open>Eina_Hash\<close> (\<open>data/eina_hash.c\<close>, \<open>eina_inline_hash.x\<close>): the table, its buckets, heads and
    elements, with the addresses of elements and a record of what is freed. \<open>Eina_Hash_Laws\<close>:
    one operation at a time. \<open>Eina_Hash_Map\<close>: call sequences against finite maps, under a
    locale of key functions. \<open>Eina_Hash_Keys\<close>: the key and hash functions of the library, which
    interpret that locale, and the properties.

  \<^item> \<open>Eina_Inarray\<close>, \<open>Eina_Inarray_Laws\<close> (\<open>data/eina_inarray.c\<close>): members in a byte buffer with
    32-bit sizes; the buffer is the concatenation of a list of members.

  \<^item> \<open>Linked\<close>, \<open>Linked_Sort\<close>: doubly linked segments in a heap and the merge sort, as locales over
    the fields of a node. \<open>Eina_Inlist\<close> and \<open>_Laws\<close>, \<open>_Sorted\<close>, \<open>_Props\<close>
    (\<open>data/eina_inlist.c\<close>, \<open>eina_inline_inlist.x\<close>) and \<open>Eina_List\<close> and \<open>_Laws\<close>, \<open>_Edits\<close>,
    \<open>_Sort\<close>, \<open>_Search\<close>, \<open>_Parts\<close>, \<open>_Props\<close> (\<open>data/eina_list.c\<close>, \<open>eina_inline_list.x\<close>)
    interpret them; edits refine edits of a sequence, sorting, searching, splitting and
    merging act on that sequence, and running out of memory keeps it.

  \<^item> \<open>Eina_Unicode\<close> and \<open>_Laws\<close>, \<open>_Codec\<close>, \<open>_Props\<close> (\<open>string/eina_unicode.c\<close>,
    \<open>eina_inline_unicode.x\<close>): strings of code points and the UTF-8 codec. The five classes of
    longer sequences interpret one locale, \<open>utf8_class\<close>; encoding and decoding are inverse to
    each other as far as the code allows.

  \<^item> \<open>Eina_Strbuf\<close> and \<open>_Laws\<close>, \<open>_Props\<close>, \<open>_Replace\<close> (\<open>string/eina_strbuf_common.c\<close>,
    \<open>eina_strbuf.c\<close> and the templates): growing text buffers for characters of any width; edits
    refine edits of a text, replacement of all matches, and the flaws of read-only strings.

  \<^item> \<open>Shares\<close>: the specification of a pool of shared strings, runs of calls, and a locale
    \<open>share_pool\<close> that gives interning and balanced references from the law of one call.
    \<open>Eina_Share\<close> and \<open>_Laws\<close>, \<open>_Ops\<close>, \<open>_Props\<close> (\<open>string/eina_share_common.c\<close>): the pool over
    trees of heads, each with a list of nodes that ends in the node built into the head, over
    explicit heaps. \<open>Eina_Stringshare\<close> and \<open>_Laws\<close>, \<open>_Ops\<close>, \<open>_Props\<close>
    (\<open>string/eina_stringshare.c\<close>): the arrays of small strings, and both pools together as
    one, which interpret that locale; the constant array for single characters.

  \<^item> \<open>Eina_Crc\<close>, \<open>Eina_Crc_Laws\<close> (\<open>checksum/eina_crc.c\<close>): the tables as they are in the source,
    and the equivalence with division bit by bit. \<open>Eina_Sha\<close> (\<open>checksum/eina_sha.c\<close>): the block
    loop against blocks.

  \<^item> \<open>Handles\<close>: the specification of both id tables, a map from ids to values in which an id
    is valid from its registration to its unregistration, the run of a call sequence, and
    the counting of generations; a locale \<open>handle_table\<close> gives the refinement of whole
    runs from laws of single calls. \<open>Id_Tables\<close>: the two levels of tables over a heap of leaf
    tables, as a locale.

  \<^item> \<open>Eina_Safepointer\<close> and \<open>_Laws\<close>, \<open>_Ops\<close>, \<open>_Props\<close> (\<open>safe/eina_safepointer.c\<close>,
    \<open>eina_inline_safepointer.x\<close>, \<open>eina_inline_trash.x\<close>): registration, lookup and
    unregistration refine the specification, registration succeeds while there is memory, a stale id
    is refused through 2046 registrations (the generation has 11 bits and is never 0) unless its
    leaf table is released, what ids with a table index out of range do, and
    what two threads that unregister the same id can do.

  \<^item> \<open>Eo_Ids\<close> and \<open>_Laws\<close>, \<open>_Ops\<close>, \<open>_Props\<close> (\<open>eo_ptr_indirection.x\<close>, \<open>.c\<close> of \<open>src/lib/eo\<close>):
    the same for object ids of a domain, with the lookup cache and the fifo of free
    entries; a stale id is refused while fewer than 1023 objects are allocated.
    \<open>Eo_Domains\<close> (and \<open>eo.c\<close>): the domains of a thread, adoption and return, and
    ids through the domains with the lock of the shared one.

  \<^bold>\<open>Bounds.\<close> Hypotheses on sizes are the ones the code needs: fewer than \<open>2^25\<close> nodes in a tree and
  \<open>2^32\<close> in a list (the sort stacks hold 32 runs), products that fit 32 bits in the inline array, texts
  that fit the address space in the string buffers, fewer than \<open>2^30\<close> nodes in sorted inline lists,
  lengths that an \<open>int\<close> can hold in the UTF-8 codec (six bytes for each code point) and in the pools
  of shared strings, fewer than \<open>2^31\<close> replacements in a text. Where the code does not check such a bound
  a theorem shows what happens beyond it.

  \<^bold>\<open>Not modelled.\<close> Hash iterators, murmur hashing, \<open>eina_inarray_sort\<close> (it calls \<open>qsort\<close>),
  \<open>eina_list_shuffle\<close>, the incremental state of sorted inline lists, formatted
  output into string buffers, the wrappers of the string pool for wide strings, bytes and temporary
  strings, its dumps and statistics. Of the rest of the library: generic values (dispatch over C types and variable
  arguments), floating-point algebra, files, logging, debugging, threads and the Windows port (system calls). Of the
  object system: classes and calls (method tables built at run time, function pointers, varargs), events,
  and the page-wise allocation of tables. The main loop and the interface compiler are not reached.
\<close>

end
